(* ===== verification/Go_Prelude.thy ===== *)
theory Go_Prelude
  imports Main "HOL-Library.Char_ord" "HOL-Library.List_Lexorder" "HOL-Library.Multiset"
    "HOL-Library.AList" "HOL-Library.Monad_Syntax"
begin

section \<open>The Go vocabulary shared by the components\<close>

text \<open>
  What the components use of the Go language and its standard library: byte strings and the
  functions of package \<open>strings\<close>, maps, three-way comparisons and sorting.

  A Go string is a sequence of bytes and an Isabelle \<^typ>\<open>string\<close> is a list of 8-bit
  characters, so the two agree byte for byte; the order on strings (\<open>List_Lexorder\<close> over
  \<open>Char_ord\<close>) is Go's bytewise lexicographic order. \<open>ToLower\<close>, \<open>ToUpper\<close> and \<open>TrimSpace\<close>
  are given on ASCII text: letters and spaces outside ASCII are left as they are. A Go map is an association list with
  distinct keys (\<open>map_ok\<close>) whose list order stands for one iteration order; results that do not
  depend on that order are proved so. The locale \<open>go_map\<close> states what the clients rely on,
  the locale \<open>comparison\<close> what a three-way comparison promises, and \<open>strict_weak\<close> what a
  \<open>less\<close> function passed to \<open>sort.Slice\<close> promises.
\<close>

named_theorems go_defs \<open>definitions of the string and map vocabulary\<close>
named_theorems cmp_intros \<open>three-way comparisons built from smaller ones\<close>

subsection \<open>Strings\<close>

definition tab :: char where
  "tab = CHR 0x09"

definition newline :: char where
  "newline = CHR 0x0A"

text \<open>\<open>strings.HasPrefix\<close>, \<open>strings.TrimPrefix\<close> and \<open>strings.CutPrefix\<close>.\<close>

definition hasPrefix :: "string \<Rightarrow> string \<Rightarrow> bool" where
  [go_defs]: "hasPrefix s p \<longleftrightarrow> take (length p) s = p"

definition trimPrefix :: "string \<Rightarrow> string \<Rightarrow> string" where
  [go_defs]: "trimPrefix s p = (if hasPrefix s p then drop (length p) s else s)"

definition cutPrefix :: "string \<Rightarrow> string \<Rightarrow> string \<times> bool" where
  [go_defs]: "cutPrefix s p = (if hasPrefix s p then (drop (length p) s, True) else (s, False))"

text \<open>\<open>strings.IndexByte\<close> and \<open>strings.LastIndexByte\<close>; \<^const>\<open>None\<close> is -1.\<close>

fun indexByte :: "string \<Rightarrow> char \<Rightarrow> nat option" where
  "indexByte [] c = None"
| "indexByte (x # xs) c = (if x = c then Some 0 else map_option Suc (indexByte xs c))"

fun lastIndexByte :: "string \<Rightarrow> char \<Rightarrow> nat option" where
  "lastIndexByte [] c = None"
| "lastIndexByte (x # xs) c =
     (case lastIndexByte xs c of Some i \<Rightarrow> Some (Suc i)
      | None \<Rightarrow> if x = c then Some 0 else None)"

text \<open>\<open>strings.Split\<close> with a one-byte separator, and \<open>strings.Join\<close>.\<close>

fun splitOn :: "char \<Rightarrow> string \<Rightarrow> string list" where
  "splitOn c [] = [[]]"
| "splitOn c (x # xs) =
     (if x = c then [] # splitOn c xs
      else (case splitOn c xs of [] \<Rightarrow> [[x]] | p # ps \<Rightarrow> (x # p) # ps))"

fun joinWith :: "string \<Rightarrow> string list \<Rightarrow> string" where
  "joinWith sep [] = []"
| "joinWith sep [p] = p"
| "joinWith sep (p # ps) = p @ sep @ joinWith sep ps"

text \<open>
  \<open>strings.ToLower\<close> and \<open>strings.ToUpper\<close> on ASCII letters; other bytes are kept.
  (Go also maps letters outside ASCII, which none of the texts compared here contain.)
\<close>

definition lowerByte :: "char \<Rightarrow> char" where
  [go_defs]: "lowerByte c = (if CHR ''A'' \<le> c \<and> c \<le> CHR ''Z''
     then char_of (of_char c + 32 :: nat) else c)"

definition upperByte :: "char \<Rightarrow> char" where
  [go_defs]: "upperByte c = (if CHR ''a'' \<le> c \<and> c \<le> CHR ''z''
     then char_of (of_char c - 32 :: nat) else c)"

definition toLower :: "string \<Rightarrow> string" where
  [go_defs]: "toLower s = map lowerByte s"

definition toUpper :: "string \<Rightarrow> string" where
  [go_defs]: "toUpper s = map upperByte s"

text \<open>\<open>strings.TrimSpace\<close> on ASCII white space.\<close>

definition isSpaceByte :: "char \<Rightarrow> bool" where
  [go_defs]: "isSpaceByte c \<longleftrightarrow> c \<in> {CHR '' '', CHR 0x09, CHR 0x0A, CHR 0x0B, CHR 0x0C, CHR 0x0D}"

definition trimSpace :: "string \<Rightarrow> string" where
  [go_defs]: "trimSpace s = rev (dropWhile isSpaceByte (rev (dropWhile isSpaceByte s)))"

definition isDigitByte :: "char \<Rightarrow> bool" where
  [go_defs]: "isDigitByte c \<longleftrightarrow> CHR ''0'' \<le> c \<and> c \<le> CHR ''9''"

definition isLowerByte :: "char \<Rightarrow> bool" where
  [go_defs]: "isLowerByte c \<longleftrightarrow> CHR ''a'' \<le> c \<and> c \<le> CHR ''z''"

definition isUpperByte :: "char \<Rightarrow> bool" where
  [go_defs]: "isUpperByte c \<longleftrightarrow> CHR ''A'' \<le> c \<and> c \<le> CHR ''Z''"

text \<open>Decimal texts: \<open>strconv.Itoa\<close> of a non-negative number, and the value of a digit text.\<close>

fun itoa :: "nat \<Rightarrow> string" where
  "itoa n = (if n < 10 then [char_of (48 + n)] else itoa (n div 10) @ [char_of (48 + n mod 10)])"

declare itoa.simps [simp del]

definition digitVal :: "char \<Rightarrow> nat" where
  [go_defs]: "digitVal c = of_char c - 48"

definition decVal :: "string \<Rightarrow> nat" where
  [go_defs]: "decVal s = foldl (\<lambda>n c. 10 * n + digitVal c) 0 s"

text \<open>\<open>strings.Compare\<close>.\<close>

definition strCompare :: "string \<Rightarrow> string \<Rightarrow> int" where
  [go_defs]: "strCompare a b = (if a < b then -1 else if a = b then 0 else 1)"

subsection \<open>Maps\<close>

type_synonym ('k, 'v) gmap = "('k \<times> 'v) list"

definition map_ok :: "('k, 'v) gmap \<Rightarrow> bool" where
  "map_ok m \<longleftrightarrow> distinct (map fst m)"

definition mput :: "'k \<Rightarrow> 'v \<Rightarrow> ('k, 'v) gmap \<Rightarrow> ('k, 'v) gmap" where
  "mput k v m = AList.update k v m"

definition mhas :: "('k, 'v) gmap \<Rightarrow> 'k \<Rightarrow> bool" where
  "mhas m k \<longleftrightarrow> map_of m k \<noteq> None"

text \<open>The two-value lookup \<open>v, ok := m[k]\<close> with the zero value for a missing key.\<close>

definition mget :: "'v \<Rightarrow> ('k, 'v) gmap \<Rightarrow> 'k \<Rightarrow> 'v" where
  "mget z m k = (case map_of m k of Some v \<Rightarrow> v | None \<Rightarrow> z)"

definition mkeys :: "('k, 'v) gmap \<Rightarrow> 'k list" where
  "mkeys m = map fst m"

subsection \<open>Sorting\<close>

fun insertBy :: "('a \<Rightarrow> 'a \<Rightarrow> bool) \<Rightarrow> 'a \<Rightarrow> 'a list \<Rightarrow> 'a list" where
  "insertBy lt x [] = [x]"
| "insertBy lt x (y # ys) = (if lt y x then y # insertBy lt x ys else x # y # ys)"

text \<open>
  \<open>sort.Slice\<close> and \<open>sort.SliceStable\<close> with the function \<open>less\<close>: a stable insertion
  sort. Where the order determines the result (\<open>sortBy_unique\<close>) any sorting algorithm returns
  this list.
\<close>

definition sortBy :: "('a \<Rightarrow> 'a \<Rightarrow> bool) \<Rightarrow> 'a list \<Rightarrow> 'a list" where
  "sortBy lt xs = foldr (insertBy lt) xs []"

subsection \<open>Durations and times\<close>

text \<open>
  A \<open>time.Time\<close> is the number of nanoseconds since the zero time (so \<open>IsZero\<close> is being 0), a
  \<open>time.Duration\<close> an \<open>int64\<close> number of nanoseconds: arithmetic wraps around, and \<open>Time.Sub\<close>
  saturates at the two ends.
\<close>

type_synonym gtime = int

definition wrap64 :: "int \<Rightarrow> int" where
  "wrap64 x = (x + 2 ^ 63) mod 2 ^ 64 - 2 ^ 63"

definition timeSub :: "gtime \<Rightarrow> gtime \<Rightarrow> int" where
  "timeSub a b = max (- (2 ^ 63)) (min (2 ^ 63 - 1) (a - b))"

definition second :: int where
  "second = 1000000000"

lemma wrap64_id: "- (2 ^ 63) \<le> x \<Longrightarrow> x < 2 ^ 63 \<Longrightarrow> wrap64 x = x"
  by (simp add: wrap64_def)

text \<open>\<open>path.Base\<close>: trailing slashes are dropped, then everything up to the last slash.\<close>

definition pathBase :: "string \<Rightarrow> string" where
  "pathBase p =
     (if p = '''' then ''.''
      else (let q = rev (dropWhile (\<lambda>c. c = CHR ''/'') (rev p));
                b = rev (takeWhile (\<lambda>c. c \<noteq> CHR ''/'') (rev q))
            in if b = '''' then ''/'' else b))"

subsection \<open>Lemmas on strings\<close>

lemma hasPrefix_append [simp]: "hasPrefix (p @ s) p"
  by (simp add: hasPrefix_def)

lemma hasPrefix_iff: "hasPrefix s p \<longleftrightarrow> (\<exists>r. s = p @ r)"
  by (auto simp: hasPrefix_def) (metis append_take_drop_id)

lemma indexByte_None_iff: "indexByte s c = None \<longleftrightarrow> c \<notin> set s"
  by (induction s) auto

lemma indexByte_None [simp]: "c \<notin> set s \<Longrightarrow> indexByte s c = None"
  by (simp add: indexByte_None_iff)

lemma indexByte_append:
  "c \<notin> set a \<Longrightarrow> indexByte (a @ c # b) c = Some (length a)"
  by (induction a) auto

lemma indexByte_Some:
  "indexByte s c = Some i \<Longrightarrow> i < length s \<and> s ! i = c \<and> c \<notin> set (take i s)"
proof (induction s arbitrary: i)
  case Nil
  then show ?case by simp
next
  case (Cons x xs)
  then show ?case by (cases i) (auto split: if_splits)
qed

lemma lastIndexByte_None_iff: "lastIndexByte s c = None \<longleftrightarrow> c \<notin> set s"
  by (induction s) (auto split: option.splits)

lemma lastIndexByte_None [simp]: "c \<notin> set s \<Longrightarrow> lastIndexByte s c = None"
  by (simp add: lastIndexByte_None_iff)

lemma lastIndexByte_append:
  "c \<notin> set b \<Longrightarrow> lastIndexByte (a @ c # b) c = Some (length a)"
proof (induction a)
  case Nil
  then have "lastIndexByte b c = None" by simp
  then show ?case by simp
next
  case (Cons x xs)
  then show ?case by simp
qed

lemma splitOn_nonempty [simp]: "splitOn c s \<noteq> []"
  by (induction s) (auto split: list.splits)

lemma splitOn_no_sep: "p \<in> set (splitOn c s) \<Longrightarrow> c \<notin> set p"
proof (induction s arbitrary: p)
  case Nil
  then show ?case by simp
next
  case (Cons x xs)
  then show ?case by (auto split: if_splits list.splits)
qed

lemma joinWith_Cons:
  "ps \<noteq> [] \<Longrightarrow> joinWith sep (p # ps) = p @ sep @ joinWith sep ps"
  by (cases ps) auto

lemma joinWith_splitOn [simp]: "joinWith [c] (splitOn c s) = s"
proof (induction s)
  case Nil
  then show ?case by simp
next
  case (Cons x xs)
  obtain p ps where sp: "splitOn c xs = p # ps"
    by (cases "splitOn c xs") auto
  with Cons have "joinWith [c] (p # ps) = xs" by simp
  then show ?case
    by (cases ps) (auto simp: sp joinWith_Cons)
qed

lemma splitOn_plain: "c \<notin> set s \<Longrightarrow> splitOn c s = [s]"
  by (induction s) auto

lemma splitOn_append: "c \<notin> set p \<Longrightarrow> splitOn c (p @ c # s) = p # splitOn c s"
  by (induction p) auto

lemma splitOn_joinWith:
  "ps \<noteq> [] \<Longrightarrow> (\<And>p. p \<in> set ps \<Longrightarrow> c \<notin> set p) \<Longrightarrow> splitOn c (joinWith [c] ps) = ps"
proof (induction ps)
  case Nil
  then show ?case by simp
next
  case (Cons p ps)
  then show ?case
    by (cases "ps = []") (auto simp: joinWith_Cons splitOn_append splitOn_plain)
qed

lemma set_splitOn: "\<Union> (set ` set (splitOn c s)) = set s - {c}"
proof (induction s)
  case Nil
  then show ?case by simp
next
  case (Cons x xs)
  then show ?case by (cases "splitOn c xs") auto
qed

lemma takeWhile_split: "\<forall>x \<in> set a. P x \<Longrightarrow> r = [] \<or> \<not> P (hd r) \<Longrightarrow> takeWhile P (a @ r) = a"
  by (cases r) auto



subsection \<open>Decimal texts\<close>

lemma decVal_Nil [simp]: "decVal [] = 0"
  by (simp add: decVal_def)

lemma decVal_snoc [simp]: "decVal (s @ [c]) = 10 * decVal s + digitVal c"
  by (simp add: decVal_def)

lemma digitVal_char_of: "n < 10 \<Longrightarrow> digitVal (char_of (48 + n)) = n"
  by (simp add: digitVal_def)

lemma isDigitByte_iff: "isDigitByte c \<longleftrightarrow> 48 \<le> (of_char c :: nat) \<and> (of_char c :: nat) \<le> 57"
  by (simp add: isDigitByte_def less_eq_char_def)

lemma isDigitByte_char_of: "n < 10 \<Longrightarrow> isDigitByte (char_of (48 + n :: nat))"
  by (simp add: isDigitByte_iff)

lemma digitVal_less: "isDigitByte c \<Longrightarrow> digitVal c < 10"
  by (auto simp: isDigitByte_iff digitVal_def)

lemma digitVal_mono: "isDigitByte a \<Longrightarrow> isDigitByte b \<Longrightarrow> digitVal a < digitVal b \<longleftrightarrow> a < b"
  by (auto simp: isDigitByte_iff digitVal_def less_char_def)

lemma digitVal_inject: "isDigitByte a \<Longrightarrow> isDigitByte b \<Longrightarrow> digitVal a = digitVal b \<longleftrightarrow> a = b"
  by (metis digitVal_mono linorder_less_linear less_irrefl_nat)

lemma itoa_digits: "\<forall>c \<in> set (itoa n). isDigitByte c"
proof (induction n rule: itoa.induct)
  case (1 n)
  show ?case
  proof (cases "n < 10")
    case True
    then show ?thesis by (subst itoa.simps) (simp add: isDigitByte_char_of)
  next
    case False
    with "1.IH" have "\<forall>c \<in> set (itoa (n div 10)). isDigitByte c" by simp
    with False show ?thesis by (subst itoa.simps) (auto simp: isDigitByte_char_of)
  qed
qed

lemma decVal_itoa [simp]: "decVal (itoa n) = n"
proof (induction n rule: itoa.induct)
  case (1 n)
  show ?case
  proof (cases "n < 10")
    case True
    then show ?thesis
      by (subst itoa.simps) (simp add: decVal_def digitVal_char_of)
  next
    case False
    with "1.IH" have "decVal (itoa (n div 10)) = n div 10" by simp
    with False show ?thesis by (subst itoa.simps) (simp add: digitVal_char_of)
  qed
qed

lemma itoa_nonempty [simp]: "itoa n \<noteq> []"
  by (subst itoa.simps) simp

lemma itoa_inject [simp]: "itoa m = itoa n \<longleftrightarrow> m = n"
  by (metis decVal_itoa)

lemma char_of_digit_zero: "n < 10 \<Longrightarrow> char_of (48 + n) = CHR ''0'' \<longleftrightarrow> n = (0::nat)"
proof -
  have "digitVal (CHR ''0'') = 0" by (simp add: digitVal_def)
  moreover have "isDigitByte (CHR ''0'')" by (simp add: isDigitByte_iff)
  moreover assume "n < 10"
  ultimately show ?thesis
    using digitVal_char_of [of n] isDigitByte_char_of [of n] digitVal_inject by metis
qed

lemma hd_itoa_zero: "hd (itoa n) = CHR ''0'' \<longleftrightarrow> n = 0"
proof (induction n rule: itoa.induct)
  case (1 n)
  show ?case
  proof (cases "n < 10")
    case True
    then show ?thesis by (subst itoa.simps) (simp add: char_of_digit_zero)
  next
    case False
    then have "hd (itoa n) = hd (itoa (n div 10))"
      by (subst itoa.simps) simp
    with "1.IH" False show ?thesis by auto
  qed
qed

lemma length_itoa_le_one: "length (itoa 0) = 1"
  by (subst itoa.simps) simp

lemma itoa_no_leading_zero: "length (itoa n) > 1 \<Longrightarrow> hd (itoa n) \<noteq> CHR ''0''"
  by (cases "n = 0") (auto simp: hd_itoa_zero length_itoa_le_one)

lemma decVal_append: "decVal (a @ b) = decVal a * 10 ^ length b + decVal b"
proof (induction b rule: rev_induct)
  case Nil
  then show ?case by simp
next
  case (snoc c b)
  have "decVal (a @ b @ [c]) = 10 * decVal (a @ b) + digitVal c"
    using decVal_snoc [of "a @ b" c] by simp
  with snoc show ?case by (simp add: algebra_simps)
qed

lemma decVal_bound: "\<forall>c \<in> set s. isDigitByte c \<Longrightarrow> decVal s < 10 ^ length s"
proof (induction s rule: rev_induct)
  case Nil
  then show ?case by simp
next
  case (snoc c s)
  then have "decVal s < 10 ^ length s" "digitVal c < 10"
    by (auto simp: digitVal_less)
  then show ?case by simp
qed

lemma decVal_Cons: "decVal (c # s) = digitVal c * 10 ^ length s + decVal s"
  using decVal_append [of "[c]" s] by (simp add: decVal_def)

lemma decVal_zero_Cons [simp]: "decVal (CHR ''0'' # s) = decVal s"
  by (simp add: decVal_Cons digitVal_def)

lemma digit_step: "a < b \<Longrightarrow> (u::nat) < m \<Longrightarrow> a * m + u < b * m + v"
proof -
  assume "a < b" "u < m"
  then have "a * m + u < Suc a * m" by simp
  also have "\<dots> \<le> b * m" using \<open>a < b\<close> by (intro mult_le_mono1) simp
  finally show ?thesis by simp
qed

text \<open>
  Digit texts of one length are ordered like their values: the fact behind comparing numbers
  by length first and byte by byte after that.
\<close>

lemma decVal_less_same_length:
  assumes "length a = length b" "\<forall>c \<in> set a. isDigitByte c" "\<forall>c \<in> set b. isDigitByte c"
  shows "decVal a < decVal b \<longleftrightarrow> a < b"
  using assms
proof (induction a b rule: list_induct2)
  case Nil
  then show ?case by simp
next
  case (Cons x xs y ys)
  have bx: "decVal xs < 10 ^ length xs" and yb: "decVal ys < 10 ^ length xs"
    using decVal_bound [of xs] decVal_bound [of ys] Cons by auto
  have d: "isDigitByte x" "isDigitByte y" using Cons.prems by auto
  consider "digitVal x < digitVal y" | "digitVal x = digitVal y" | "digitVal y < digitVal x"
    by linarith
  then show ?case
  proof cases
    case 1
    with d have "x < y" by (simp add: digitVal_mono)
    moreover have "decVal (x # xs) < decVal (y # ys)"
      using digit_step [OF 1 bx, of "decVal ys"] Cons.hyps by (simp add: decVal_Cons)
    ultimately show ?thesis by simp
  next
    case 2
    with d have "x = y" by (simp add: digitVal_inject)
    with Cons show ?thesis by (simp add: decVal_Cons)
  next
    case 3
    with d have "y < x" by (simp add: digitVal_mono)
    moreover have "decVal (y # ys) < decVal (x # xs)"
      using digit_step [OF 3 yb, of "decVal xs"] Cons.hyps by (simp add: decVal_Cons)
    ultimately show ?thesis by auto
  qed
qed

text \<open>A digit text without a leading zero is longer exactly when its value is larger.\<close>

definition canonicalDec :: "string \<Rightarrow> bool" where
  "canonicalDec s \<longleftrightarrow> s \<noteq> [] \<and> (\<forall>c \<in> set s. isDigitByte c) \<and> (length s > 1 \<longrightarrow> hd s \<noteq> CHR ''0'')"

lemma canonicalDec_itoa [simp]: "canonicalDec (itoa n)"
  using itoa_digits [of n] itoa_no_leading_zero [of n] by (auto simp: canonicalDec_def)

lemma canonicalDec_digits: "canonicalDec s \<Longrightarrow> c \<in> set s \<Longrightarrow> isDigitByte c"
  by (auto simp: canonicalDec_def)

lemma digitVal_pos: "isDigitByte c \<Longrightarrow> c \<noteq> CHR ''0'' \<Longrightarrow> 1 \<le> digitVal c"
proof -
  assume d: "isDigitByte c" and n: "c \<noteq> CHR ''0''"
  have "digitVal c \<noteq> digitVal (CHR ''0'')"
    using digitVal_inject [of c "CHR ''0''"] d n by (simp add: isDigitByte_iff)
  then show ?thesis by (simp add: digitVal_def)
qed

lemma canonicalDec_lower_bound:
  assumes "canonicalDec s" "length s > 1"
  shows "10 ^ (length s - 1) \<le> decVal s"
proof -
  obtain c t where s: "s = c # t" using assms by (cases s) auto
  have "1 \<le> digitVal c"
    using assms s by (intro digitVal_pos) (auto simp: canonicalDec_def)
  then have "10 ^ length t \<le> digitVal c * 10 ^ length t" by simp
  then have "10 ^ length t \<le> digitVal c * 10 ^ length t + decVal t" by linarith
  then show ?thesis by (simp add: s decVal_Cons)
qed

lemma canonicalDec_shorter_less:
  assumes "canonicalDec a" "canonicalDec b" "length a < length b"
  shows "decVal a < decVal b"
proof -
  have "length b > 1" using assms by (cases a) (auto simp: canonicalDec_def)
  then have "10 ^ (length b - 1) \<le> decVal b"
    by (rule canonicalDec_lower_bound [OF assms(2)])
  moreover have "decVal a < 10 ^ length a"
    using assms(1) by (intro decVal_bound) (auto simp: canonicalDec_def)
  moreover have "(10::nat) ^ length a \<le> 10 ^ (length b - 1)"
    using assms(3) by (intro power_increasing) auto
  ultimately show ?thesis by linarith
qed

lemma canonicalDec_inject:
  assumes "canonicalDec a" "canonicalDec b"
  shows "decVal a = decVal b \<longleftrightarrow> a = b"
proof
  assume eq: "decVal a = decVal b"
  then have "length a = length b"
    using canonicalDec_shorter_less [of a b] canonicalDec_shorter_less [of b a] assms
    by (metis less_irrefl_nat linorder_neqE_nat)
  then show "a = b"
    using decVal_less_same_length [of a b] decVal_less_same_length [of b a] assms eq
    by (metis canonicalDec_def less_irrefl_nat linorder_less_linear)
qed simp

lemma canonicalDec_eq_itoa: "canonicalDec s \<Longrightarrow> itoa (decVal s) = s"
  by (metis canonicalDec_inject canonicalDec_itoa decVal_itoa)

subsection \<open>Maps: the interface and the model's implementation\<close>

text \<open>
  The map interface of the clients: what a lookup returns after a store, that a store keeps the
  representation invariant, and that iteration visits exactly the stored pairs.
\<close>

locale go_map =
  fixes empty :: "'m"
    and lookup :: "'m \<Rightarrow> 'k \<Rightarrow> 'v option"
    and store :: "'k \<Rightarrow> 'v \<Rightarrow> 'm \<Rightarrow> 'm"
    and entries :: "'m \<Rightarrow> ('k \<times> 'v) list"
    and invar :: "'m \<Rightarrow> bool"
  assumes invar_empty: "invar empty"
    and lookup_empty: "lookup empty k = None"
    and invar_store: "invar m \<Longrightarrow> invar (store k v m)"
    and lookup_store: "lookup (store k v m) = (lookup m)(k \<mapsto> v)"
    and entries_iff: "invar m \<Longrightarrow> (k, v) \<in> set (entries m) \<longleftrightarrow> lookup m k = Some v"
    and entries_distinct: "invar m \<Longrightarrow> distinct (map fst (entries m))"
begin

text \<open>A loop that stores one computed value per element of a list.\<close>

lemma lookup_store_all:
  "lookup (fold (\<lambda>x. store (f x) (g x)) xs m) k =
     (case find (\<lambda>x. f x = k) (rev xs) of Some x \<Rightarrow> Some (g x) | None \<Rightarrow> lookup m k)"
proof (induction xs rule: rev_induct)
  case Nil
  then show ?case by simp
next
  case (snoc x xs)
  then show ?case by (auto simp: lookup_store)
qed

lemma invar_store_all: "invar m \<Longrightarrow> invar (fold (\<lambda>x. store (f x) (g x)) xs m)"
  by (induction xs arbitrary: m) (auto intro: invar_store)

text \<open>Where the stored value depends only on the key, the order of the stores is irrelevant.\<close>

lemma lookup_store_keys:
  "lookup (fold (\<lambda>k. store k (g k)) ks m) k = (if k \<in> set ks then Some (g k) else lookup m k)"
  by (induction ks arbitrary: m) (auto simp: lookup_store)

lemma lookup_store_keys_if:
  "lookup (fold (\<lambda>k m. if P k then store k (g k) m else m) ks m) k =
     (if k \<in> set ks \<and> P k then Some (g k) else lookup m k)"
  by (induction ks arbitrary: m) (auto simp: lookup_store)

lemma invar_store_keys_if:
  "invar m \<Longrightarrow> invar (fold (\<lambda>k m. if P k then store k (g k) m else m) ks m)"
  by (induction ks arbitrary: m) (auto intro: invar_store)

end

lemma map_of_mput [simp]: "map_of (mput k v m) = (map_of m)(k \<mapsto> v)"
  by (simp add: mput_def update_conv')

lemma map_ok_mput [simp]: "map_ok m \<Longrightarrow> map_ok (mput k v m)"
  by (simp add: map_ok_def mput_def distinct_update)

lemma map_ok_Nil [simp]: "map_ok []"
  by (simp add: map_ok_def)

interpretation gm: go_map "[]" map_of mput "\<lambda>m. m" map_ok
proof unfold_locales
  fix m :: "('k, 'v) gmap" and k v
  assume "map_ok m"
  then show "(k, v) \<in> set m \<longleftrightarrow> map_of m k = Some v"
    by (auto simp: map_ok_def dest: map_of_SomeD)
qed (auto simp: map_ok_def mput_def update_conv' distinct_update)

lemma mhas_iff: "mhas m k \<longleftrightarrow> k \<in> fst ` set m"
  by (simp add: mhas_def map_of_eq_None_iff)

lemma set_mkeys [simp]: "set (mkeys m) = dom (map_of m)"
  by (simp add: mkeys_def dom_map_of_conv_image_fst)

lemma distinct_mkeys [simp]: "map_ok m \<Longrightarrow> distinct (mkeys m)"
  by (simp add: mkeys_def map_ok_def)

lemma mget_Some [simp]: "map_of m k = Some v \<Longrightarrow> mget z m k = v"
  by (simp add: mget_def)

lemma mget_None [simp]: "map_of m k = None \<Longrightarrow> mget z m k = z"
  by (simp add: mget_def)

text \<open>Two iteration orders of one map.\<close>

definition same_map :: "('k, 'v) gmap \<Rightarrow> ('k, 'v) gmap \<Rightarrow> bool" where
  "same_map m n \<longleftrightarrow> map_ok m \<and> map_ok n \<and> map_of m = map_of n"

lemma same_map_mset: "same_map m n \<Longrightarrow> mset m = mset n"
proof -
  assume a: "same_map m n"
  then have "set m = set n"
    using gm.entries_iff [of m] gm.entries_iff [of n] by (auto simp: same_map_def)
  moreover have "distinct m" "distinct n"
    using a by (auto simp: same_map_def map_ok_def distinct_map)
  ultimately show ?thesis by (simp add: set_eq_iff_mset_eq_distinct)
qed

lemma map_ok_rev [simp]: "map_ok (rev m) = map_ok m"
  by (simp add: map_ok_def rev_map [symmetric])

lemma map_of_rev: "map_ok m \<Longrightarrow> map_of (rev m) = map_of m"
proof
  fix k assume "map_ok m"
  then have "map_of (rev m) k = Some v \<longleftrightarrow> map_of m k = Some v" for v
    using gm.entries_iff [of m k v] gm.entries_iff [of "rev m" k v] by simp
  then show "map_of (rev m) k = map_of m k" by (metis not_None_eq)
qed

text \<open>Two maps with related values, each walked in an order of its own.\<close>

definition relMap :: "('v \<Rightarrow> 'w \<Rightarrow> bool) \<Rightarrow> ('k, 'v) gmap \<Rightarrow> ('k, 'w) gmap \<Rightarrow> bool" where
  "relMap R m n \<longleftrightarrow> map_ok m \<and> map_ok n \<and> (\<forall>k. rel_option R (map_of m k) (map_of n k))"

lemma map_of_map_key: "map_of (map (\<lambda>(k, a). (k, f k a)) m) k = map_option (f k) (map_of m k)"
  by (induction m) auto

lemma relMap_mset:
  assumes "relMap R m n"
    and "\<And>k a b. map_of m k = Some a \<Longrightarrow> map_of n k = Some b \<Longrightarrow> R a b \<Longrightarrow> f k a = g k b"
  shows "mset (map (\<lambda>(k, a). f k a) m) = mset (map (\<lambda>(k, b). g k b) n)"
proof -
  let ?m = "map (\<lambda>(k, a). (k, f k a)) m" and ?n = "map (\<lambda>(k, b). (k, g k b)) n"
  have "map_of ?m k = map_of ?n k" for k
    using assms unfolding map_of_map_key relMap_def
    by (cases "map_of m k"; cases "map_of n k") (auto dest: spec [of _ k])
  then have "map_of ?m = map_of ?n" by (rule ext)
  moreover have "map fst ?m = map fst m" "map fst ?n = map fst n" by (auto simp: comp_def case_prod_beta)
  ultimately have "same_map ?m ?n"
    using assms(1) unfolding same_map_def map_ok_def relMap_def by metis
  then have "mset ?m = mset ?n" by (rule same_map_mset)
  then have "mset (map snd ?m) = mset (map snd ?n)" by (simp only: mset_map [of snd])
  moreover have "map snd ?m = map (\<lambda>(k, a). f k a) m" "map snd ?n = map (\<lambda>(k, b). g k b) n"
    by (auto simp: comp_def case_prod_beta)
  ultimately show ?thesis by (simp only:)
qed

lemma mget_mput [simp]: "mget z (mput k v m) k' = (if k' = k then v else mget z m k')"
  by (simp add: mget_def)

lemma mget_Nil [simp]: "mget z [] k = z"
  by (simp add: mget_def)

subsection \<open>Three-way comparisons\<close>

text \<open>
  A comparison returns -1, 0 or 1 and orders the values satisfying \<open>D\<close> totally, with 0 as an
  equivalence. Clients (sorting versions, choosing the highest) rely on these laws only.
\<close>

locale comparison =
  fixes cmp :: "'a \<Rightarrow> 'a \<Rightarrow> int" and D :: "'a \<Rightarrow> bool"
  assumes cmp_range: "cmp a b \<in> {-1, 0, 1}"
    and cmp_refl: "D a \<Longrightarrow> cmp a a = 0"
    and cmp_antisym: "D a \<Longrightarrow> D b \<Longrightarrow> cmp b a = - cmp a b"
    and cmp_trans: "D a \<Longrightarrow> D b \<Longrightarrow> D c \<Longrightarrow> cmp a b \<le> 0 \<Longrightarrow> cmp b c \<le> 0 \<Longrightarrow> cmp a c \<le> 0"
begin

lemma cmp_eq_trans: "D a \<Longrightarrow> D b \<Longrightarrow> D c \<Longrightarrow> cmp a b = 0 \<Longrightarrow> cmp b c = 0 \<Longrightarrow> cmp a c = 0"
  using cmp_trans [of a b c] cmp_trans [of c b a] cmp_antisym [of a b] cmp_antisym [of b c]
    cmp_antisym [of a c] by force

lemma cmp_less_le_trans: "D a \<Longrightarrow> D b \<Longrightarrow> D c \<Longrightarrow> cmp a b < 0 \<Longrightarrow> cmp b c \<le> 0 \<Longrightarrow> cmp a c < 0"
  using cmp_trans [of a b c] cmp_trans [of b c a] cmp_antisym [of a b] cmp_antisym [of a c]
  by force

lemma cmp_le_less_trans: "D a \<Longrightarrow> D b \<Longrightarrow> D c \<Longrightarrow> cmp a b \<le> 0 \<Longrightarrow> cmp b c < 0 \<Longrightarrow> cmp a c < 0"
  using cmp_trans [of a b c] cmp_trans [of c a b] cmp_antisym [of b c] cmp_antisym [of a c]
  by force

lemma cmp_total: "D a \<Longrightarrow> D b \<Longrightarrow> cmp a b \<le> 0 \<or> cmp b a \<le> 0"
  using cmp_antisym [of a b] by force

lemma cmp_eq_cong: "D a \<Longrightarrow> D b \<Longrightarrow> D c \<Longrightarrow> cmp a b = 0 \<Longrightarrow> cmp a c = cmp b c"
proof -
  assume D: "D a" "D b" "D c" and e: "cmp a b = 0"
  have e': "cmp b a = 0" using cmp_antisym [OF D(1,2)] e by simp
  consider "cmp b c < 0" | "cmp b c = 0" | "cmp c b < 0"
    using cmp_antisym [OF D(2,3)] by linarith
  then show ?thesis
  proof cases
    case 1
    with D e have "cmp a c < 0" by (intro cmp_le_less_trans [of a b c]) auto
    with 1 cmp_range [of a c] cmp_range [of b c] show ?thesis by auto
  next
    case 2
    with D e show ?thesis using cmp_eq_trans [of a b c] by simp
  next
    case 3
    with D e' have "cmp c a < 0" by (intro cmp_less_le_trans [of c b a]) auto
    then have "cmp a c > 0" "cmp b c > 0"
      using 3 cmp_antisym [OF D(1,3)] cmp_antisym [OF D(2,3)] by auto
    with cmp_range [of a c] cmp_range [of b c] show ?thesis by auto
  qed
qed

end

text \<open>
  The laws are kept by comparing images and by breaking ties with a second comparison, which is
  how every comparison of the sources is built.
\<close>

definition cmpThen :: "('a \<Rightarrow> 'a \<Rightarrow> int) \<Rightarrow> ('a \<Rightarrow> 'a \<Rightarrow> int) \<Rightarrow> 'a \<Rightarrow> 'a \<Rightarrow> int" where
  "cmpThen c1 c2 a b = (if c1 a b \<noteq> 0 then c1 a b else c2 a b)"

lemma comparison_image [cmp_intros]:
  "comparison c D' \<Longrightarrow> (\<And>a. D a \<Longrightarrow> D' (f a)) \<Longrightarrow> comparison (\<lambda>a b. c (f a) (f b)) D"
proof -
  assume c: "comparison c D'" and f: "\<And>a. D a \<Longrightarrow> D' (f a)"
  show ?thesis
    by (rule comparison.intro)
      (use comparison.cmp_range [OF c] comparison.cmp_refl [OF c] comparison.cmp_antisym [OF c]
        comparison.cmp_trans [OF c] f in \<open>blast+\<close>)
qed

lemma comparison_cmpThen [cmp_intros]:
  assumes "comparison c1 D" "comparison c2 D"
  shows "comparison (cmpThen c1 c2) D"
proof -
  note r1 = comparison.cmp_range [OF assms(1)] and r2 = comparison.cmp_range [OF assms(2)]
  note a1 = comparison.cmp_antisym [OF assms(1)] and a2 = comparison.cmp_antisym [OF assms(2)]
  show ?thesis
  proof
    fix a b c
    show "cmpThen c1 c2 a b \<in> {-1, 0, 1}" using r1 [of a b] r2 [of a b] by (auto simp: cmpThen_def)
    show "D a \<Longrightarrow> cmpThen c1 c2 a a = 0"
      by (simp add: cmpThen_def comparison.cmp_refl [OF assms(1)] comparison.cmp_refl [OF assms(2)])
    show "D a \<Longrightarrow> D b \<Longrightarrow> cmpThen c1 c2 b a = - cmpThen c1 c2 a b"
      using a1 [of a b] a2 [of a b] by (simp add: cmpThen_def)
    assume D: "D a" "D b" "D c"
    assume ab: "cmpThen c1 c2 a b \<le> 0" and bc: "cmpThen c1 c2 b c \<le> 0"
    have "c1 a b \<le> 0" "c1 b c \<le> 0" using ab bc by (auto simp: cmpThen_def split: if_splits)
    then have ac: "c1 a c \<le> 0" using comparison.cmp_trans [OF assms(1) D] by blast
    show "cmpThen c1 c2 a c \<le> 0"
    proof (cases "c1 a c = 0")
      case True
      have "c1 a b = 0"
        using comparison.cmp_less_le_trans [OF assms(1) D] \<open>c1 a b \<le> 0\<close> \<open>c1 b c \<le> 0\<close> True by force
      moreover have "c1 b c = 0"
        using comparison.cmp_le_less_trans [OF assms(1) D] \<open>c1 a b \<le> 0\<close> \<open>c1 b c \<le> 0\<close> True by force
      ultimately show ?thesis
        using True ab bc comparison.cmp_trans [OF assms(2) D] by (simp add: cmpThen_def)
    next
      case False
      with ac show ?thesis by (simp add: cmpThen_def)
    qed
  qed
qed

text \<open>Comparing two integers the way the sources write it.\<close>

definition cmpInt :: "int \<Rightarrow> int \<Rightarrow> int" where
  [go_defs]: "cmpInt a b = (if a < b then -1 else if b < a then 1 else 0)"

lemma comparison_cmpInt [cmp_intros]: "comparison cmpInt (\<lambda>_. True)"
  by unfold_locales (auto simp: cmpInt_def split: if_splits)

lemma comparison_strCompare [cmp_intros]: "comparison strCompare (\<lambda>_. True)"
  by unfold_locales (auto simp: strCompare_def split: if_splits)

lemma comparison_mono: "comparison c D \<Longrightarrow> (\<And>a. D' a \<Longrightarrow> D a) \<Longrightarrow> comparison c D'"
  using comparison_image [of c D D' "\<lambda>a. a"] by simp

lemma comparison_cong:
  assumes "comparison c D" "\<And>a b. c' a b = c a b"
  shows "comparison c' D"
proof -
  have "c' = c" using assms(2) by (intro ext)
  with assms(1) show ?thesis by simp
qed

subsection \<open>Sorting with a less function\<close>

locale strict_weak =
  fixes lt :: "'a \<Rightarrow> 'a \<Rightarrow> bool"
  assumes lt_irrefl: "\<not> lt a a"
    and lt_trans: "lt a b \<Longrightarrow> lt b c \<Longrightarrow> lt a c"
    and lt_neg_trans: "\<not> lt a b \<Longrightarrow> \<not> lt b c \<Longrightarrow> \<not> lt a c"
begin

lemma lt_asym: "lt a b \<Longrightarrow> \<not> lt b a"
  using lt_irrefl lt_trans by blast

end

lemma mset_insertBy [simp]: "mset (insertBy lt x xs) = add_mset x (mset xs)"
  by (induction xs) auto

lemma set_insertBy [simp]: "set (insertBy lt x xs) = insert x (set xs)"
  by (induction xs) auto

lemma sortBy_Nil [simp]: "sortBy lt [] = []"
  by (simp add: sortBy_def)

lemma sortBy_Cons [simp]: "sortBy lt (x # xs) = insertBy lt x (sortBy lt xs)"
  by (simp add: sortBy_def)

lemma mset_sortBy [simp]: "mset (sortBy lt xs) = mset xs"
  by (induction xs) auto

lemma set_sortBy [simp]: "set (sortBy lt xs) = set xs"
  by (metis mset_sortBy set_mset_mset)

lemma length_sortBy [simp]: "length (sortBy lt xs) = length xs"
  by (metis mset_sortBy size_mset)

context strict_weak
begin

lemma sorted_insertBy:
  "sorted_wrt (\<lambda>a b. \<not> lt b a) xs \<Longrightarrow> sorted_wrt (\<lambda>a b. \<not> lt b a) (insertBy lt x xs)"
proof (induction xs)
  case Nil
  then show ?case by simp
next
  case (Cons y ys)
  show ?case
  proof (cases "lt y x")
    case True
    then have "\<not> lt x y" by (rule lt_asym)
    with True Cons show ?thesis by simp
  next
    case False
    have "\<not> lt z x" if "z \<in> set ys" for z
      using that Cons.prems False by (intro lt_neg_trans [of z y x]) auto
    with False Cons.prems show ?thesis by simp
  qed
qed

lemma sorted_sortBy: "sorted_wrt (\<lambda>a b. \<not> lt b a) (sortBy lt xs)"
  by (induction xs) (auto intro: sorted_insertBy)

lemma sorted_perm_unique:
  assumes "sorted_wrt (\<lambda>a b. \<not> lt b a) xs" "sorted_wrt (\<lambda>a b. \<not> lt b a) ys"
    and "mset xs = mset ys"
    and "\<And>a b. a \<in> set xs \<Longrightarrow> b \<in> set xs \<Longrightarrow> \<not> lt a b \<Longrightarrow> \<not> lt b a \<Longrightarrow> a = b"
  shows "xs = ys"
  using assms
proof (induction xs arbitrary: ys)
  case Nil
  then show ?case by simp
next
  case (Cons x xs)
  then obtain y zs where ys: "ys = y # zs" by (cases ys) auto
  have s: "set (x # xs) = set ys" using Cons.prems(3) by (metis set_mset_mset)
  then have "y \<in> set (x # xs)" "x \<in> set ys" using ys by auto
  have "x = y"
  proof (rule ccontr)
    assume ne: "x \<noteq> y"
    then have "y \<in> set xs" "x \<in> set zs" using \<open>y \<in> _\<close> \<open>x \<in> _\<close> ys by auto
    then have "\<not> lt y x" "\<not> lt x y" using Cons.prems(1,2) ys by auto
    then have "x = y" using Cons.prems(4) \<open>y \<in> set (x # xs)\<close> by simp
    with ne show False by simp
  qed
  moreover have "xs = zs"
    using Cons.prems ys \<open>x = y\<close> by (intro Cons.IH) auto
  ultimately show ?case using ys by simp
qed

text \<open>
  When no two different elements tie, every sorted permutation of the input is the same list, so
  the result depends neither on the input order nor on the sorting algorithm.
\<close>

lemma sortBy_unique:
  assumes "mset xs = mset ys" "sorted_wrt (\<lambda>a b. \<not> lt b a) ys"
    and "\<And>a b. a \<in> set xs \<Longrightarrow> b \<in> set xs \<Longrightarrow> \<not> lt a b \<Longrightarrow> \<not> lt b a \<Longrightarrow> a = b"
  shows "sortBy lt xs = ys"
  by (rule sorted_perm_unique) (use assms sorted_sortBy in auto)

lemma sortBy_perm_eq:
  assumes "mset xs = mset ys"
    and "\<And>a b. a \<in> set xs \<Longrightarrow> b \<in> set xs \<Longrightarrow> \<not> lt a b \<Longrightarrow> \<not> lt b a \<Longrightarrow> a = b"
  shows "sortBy lt xs = sortBy lt ys"
  by (rule sortBy_unique) (use assms sorted_sortBy in auto)

end

text \<open>The \<open>less\<close> functions of the sources compare one field after the other.\<close>

definition ltThen :: "('a \<Rightarrow> 'a \<Rightarrow> bool) \<Rightarrow> ('a \<Rightarrow> 'a \<Rightarrow> bool) \<Rightarrow> 'a \<Rightarrow> 'a \<Rightarrow> bool" where
  "ltThen l1 l2 a b \<longleftrightarrow> l1 a b \<or> (\<not> l1 b a \<and> l2 a b)"

lemma strict_weak_key: "strict_weak (\<lambda>a b. (f a :: 'b::linorder) < f b)"
  by unfold_locales auto

lemma strict_weak_key_rev: "strict_weak (\<lambda>a b. (f b :: 'b::linorder) < f a)"
  by unfold_locales auto

lemma strict_weak_ltThen:
  assumes "strict_weak l1" "strict_weak l2"
  shows "strict_weak (ltThen l1 l2)"
proof
  note i1 = strict_weak.lt_irrefl [OF assms(1)] and i2 = strict_weak.lt_irrefl [OF assms(2)]
  note t1 = strict_weak.lt_trans [OF assms(1)] and t2 = strict_weak.lt_trans [OF assms(2)]
  note n1 = strict_weak.lt_neg_trans [OF assms(1)] and n2 = strict_weak.lt_neg_trans [OF assms(2)]
  fix a b c
  show "\<not> ltThen l1 l2 a a" using i1 i2 by (auto simp: ltThen_def)
  show "ltThen l1 l2 a b \<Longrightarrow> ltThen l1 l2 b c \<Longrightarrow> ltThen l1 l2 a c"
    unfolding ltThen_def using t1 n1 t2 by metis
  show "\<not> ltThen l1 l2 a b \<Longrightarrow> \<not> ltThen l1 l2 b c \<Longrightarrow> \<not> ltThen l1 l2 a c"
    unfolding ltThen_def using t1 n1 n2 by metis
qed

interpretation string_lt: strict_weak "(<) :: string \<Rightarrow> string \<Rightarrow> bool"
  by unfold_locales auto

text \<open>\<open>sort.Strings\<close> is the library's \<^const>\<open>sort\<close>.\<close>

lemma sort_strings_perm: "mset xs = mset ys \<Longrightarrow> sort xs = sort (ys :: string list)"
  by (metis properties_for_sort mset_sort sorted_sort)

lemma sortBy_less_sort: "sortBy (<) xs = sort (xs :: string list)"
  by (rule string_lt.sortBy_unique) (auto simp: not_less)

lemma sort_eq_sorted_list_of_set: "distinct xs \<Longrightarrow> sort (xs :: string list) = sorted_list_of_set (set xs)"
  by (simp add: sorted_list_of_set_sort_remdups distinct_remdups_id)

lemma insertBy_cong:
  "(\<And>y. y \<in> set xs \<Longrightarrow> lt y x = lt' y x) \<Longrightarrow> insertBy lt x xs = insertBy lt' x xs"
  by (induction xs) auto

lemma sortBy_cong:
  "(\<And>a b. a \<in> set xs \<Longrightarrow> b \<in> set xs \<Longrightarrow> lt a b = lt' a b) \<Longrightarrow> sortBy lt xs = sortBy lt' xs"
proof (induction xs)
  case (Cons x xs)
  then have "sortBy lt xs = sortBy lt' xs" by simp
  moreover have "insertBy lt x (sortBy lt' xs) = insertBy lt' x (sortBy lt' xs)"
    using Cons.prems by (intro insertBy_cong) simp
  ultimately show ?case by simp
qed simp

end
