(* ===== verification/Go_Regexp.thy ===== *)
theory Go_Regexp
  imports Go_Prelude
begin

section \<open>Go regular expressions\<close>

text \<open>
  The part of package \<open>regexp\<close> the sources use, so that their patterns are transcribed rather
  than replaced by hand-written recognisers. \<open>run\<close> returns every way a pattern can match a
  beginning of the text, in the order Go (and Perl) prefer them: an alternative on the left before
  one on the right, more iterations before fewer. The first full match is therefore the one
  \<open>FindStringSubmatch\<close> reports for a pattern anchored at both ends. \<open>md\<close> is the declarative
  reading of a pattern, and \<open>run_iff_md\<close> shows that the search finds exactly its matches.
\<close>

datatype re =
    Eps
  | Cls "char \<Rightarrow> bool"
  | Cat re re
  | Alt re re
  | Star re
  | Grp nat re

text \<open>Captures, the most recent first.\<close>

type_synonym caps = "(nat \<times> string) list"

function run :: "re \<Rightarrow> string \<Rightarrow> caps \<Rightarrow> (string \<times> caps) list" where
  "run Eps s c = [(s, c)]"
| "run (Cls p) s c = (case s of [] \<Rightarrow> [] | x # xs \<Rightarrow> if p x then [(xs, c)] else [])"
| "run (Cat r1 r2) s c = concat (map (\<lambda>(s', c'). run r2 s' c') (run r1 s c))"
| "run (Alt r1 r2) s c = run r1 s c @ run r2 s c"
| "run (Star r) s c =
     concat (map (\<lambda>(s', c'). if length s' < length s then run (Star r) s' c' else []) (run r s c))
       @ [(s, c)]"
| "run (Grp i r) s c =
     map (\<lambda>(s', c'). (s', (i, take (length s - length s') s) # c')) (run r s c)"
  by pat_completeness auto
termination
  by (relation "measures [\<lambda>(r, s, c). size r, \<lambda>(r, s, c). length s]") auto

declare run.simps(5) [simp del]

text \<open>Shorthands of the pattern syntax.\<close>

definition opt :: "re \<Rightarrow> re" where
  "opt r = Alt r Eps"

definition plus :: "re \<Rightarrow> re" where
  "plus r = Cat r (Star r)"

definition chr :: "char \<Rightarrow> re" where
  "chr a = Cls (\<lambda>x. x = a)"

primrec lit :: "string \<Rightarrow> re" where
  "lit [] = Eps"
| "lit (x # xs) = Cat (chr x) (lit xs)"

primrec repeated :: "nat \<Rightarrow> re \<Rightarrow> re" where
  "repeated 0 r = Eps"
| "repeated (Suc n) r = Cat r (repeated n r)"

primrec upto :: "nat \<Rightarrow> re \<Rightarrow> re" where
  "upto 0 r = Eps"
| "upto (Suc n) r = opt (Cat r (upto n r))"

primrec altOf :: "re list \<Rightarrow> re" where
  "altOf [] = Cls (\<lambda>_. False)"
| "altOf (r # rs) = (if rs = [] then r else Alt r (altOf rs))"

primrec catOf :: "re list \<Rightarrow> re" where
  "catOf [] = Eps"
| "catOf (r # rs) = (if rs = [] then r else Cat r (catOf rs))"

definition oneOf :: "string \<Rightarrow> re" where
  "oneOf cs = Cls (\<lambda>x. x \<in> set cs)"

abbreviation digitRE :: re where
  "digitRE \<equiv> Cls isDigitByte"

text \<open>\<open>FindStringSubmatch\<close> of a pattern anchored with \<open>^\<close> and \<open>$\<close>; \<open>m[i]\<close> is \<open>group c i\<close>.\<close>

definition fullMatch :: "re \<Rightarrow> string \<Rightarrow> caps option" where
  "fullMatch r s = map_option snd (find (\<lambda>(rest, c). rest = []) (run r s []))"

definition group :: "caps \<Rightarrow> nat \<Rightarrow> string" where
  "group c i = mget [] c i"

definition matchFull :: "re \<Rightarrow> string \<Rightarrow> bool" where
  "matchFull r s \<longleftrightarrow> fullMatch r s \<noteq> None"

text \<open>\<open>MatchString\<close> of a pattern without anchors.\<close>

fun searchMatch :: "re \<Rightarrow> string \<Rightarrow> bool" where
  "searchMatch r [] \<longleftrightarrow> run r [] [] \<noteq> []"
| "searchMatch r (x # xs) \<longleftrightarrow> run r (x # xs) [] \<noteq> [] \<or> searchMatch r xs"

text \<open>\<open>FindAllString\<close> of a pattern that matches no empty text.\<close>

function findAll :: "re \<Rightarrow> string \<Rightarrow> string list" where
  "findAll r s =
     (case run r s [] of
        (s', c) # _ \<Rightarrow> if length s' < length s
          then take (length s - length s') s # findAll r s'
          else (case s of [] \<Rightarrow> [] | _ # xs \<Rightarrow> findAll r xs)
      | [] \<Rightarrow> (case s of [] \<Rightarrow> [] | _ # xs \<Rightarrow> findAll r xs))"
  by pat_completeness auto
termination
  by (relation "measure (\<lambda>(r, s). length s)") auto

declare findAll.simps [simp del]

subsection \<open>The declarative reading\<close>

inductive md :: "re \<Rightarrow> string \<Rightarrow> caps \<Rightarrow> caps \<Rightarrow> bool" where
  md_Eps: "md Eps [] c c"
| md_Cls: "p x \<Longrightarrow> md (Cls p) [x] c c"
| md_Cat: "md r1 w1 c c1 \<Longrightarrow> md r2 w2 c1 c2 \<Longrightarrow> md (Cat r1 r2) (w1 @ w2) c c2"
| md_Alt1: "md r1 w c c' \<Longrightarrow> md (Alt r1 r2) w c c'"
| md_Alt2: "md r2 w c c' \<Longrightarrow> md (Alt r1 r2) w c c'"
| md_Star_done: "md (Star r) [] c c"
| md_Star_more: "md r w1 c c1 \<Longrightarrow> w1 \<noteq> [] \<Longrightarrow> md (Star r) w2 c1 c2 \<Longrightarrow> md (Star r) (w1 @ w2) c c2"
| md_Grp: "md r w c c' \<Longrightarrow> md (Grp i r) w c ((i, w) # c')"

inductive_cases md_EpsE [elim!]: "md Eps w c c'"
inductive_cases md_ClsE [elim!]: "md (Cls p) w c c'"
inductive_cases md_CatE [elim!]: "md (Cat r1 r2) w c c'"
inductive_cases md_AltE [elim!]: "md (Alt r1 r2) w c c'"
inductive_cases md_StarE: "md (Star r) w c c'"
inductive_cases md_GrpE [elim!]: "md (Grp i r) w c c'"

lemma md_Eps_iff [simp]: "md Eps w c c' \<longleftrightarrow> w = [] \<and> c' = c"
  by (auto intro: md_Eps)

lemma md_Cls_iff [simp]: "md (Cls p) w c c' \<longleftrightarrow> (\<exists>x. w = [x] \<and> p x) \<and> c' = c"
  by (auto intro: md_Cls)

lemma md_Cat_iff: "md (Cat r1 r2) w c c' \<longleftrightarrow> (\<exists>w1 w2 c1. w = w1 @ w2 \<and> md r1 w1 c c1 \<and> md r2 w2 c1 c')"
  by (auto intro: md_Cat)

lemma md_Cat_Cls [simp]: "md (Cat (Cls p) r) w c c' \<longleftrightarrow> (\<exists>x v. w = x # v \<and> p x \<and> md r v c c')"
  unfolding md_Cat_iff md_Cls_iff by (metis append_Cons append_Nil)

lemma md_Alt_iff: "md (Alt r1 r2) w c c' \<longleftrightarrow> md r1 w c c' \<or> md r2 w c c'"
  by (auto intro: md_Alt1 md_Alt2)

lemma md_Grp_iff: "md (Grp i r) w c c' \<longleftrightarrow> (\<exists>c1. c' = (i, w) # c1 \<and> md r w c c1)"
  by (auto intro: md_Grp)

lemma md_opt_iff: "md (opt r) w c c' \<longleftrightarrow> md r w c c' \<or> (w = [] \<and> c' = c)"
  by (simp add: opt_def md_Alt_iff)

lemma md_chr_iff [simp]: "md (chr a) w c c' \<longleftrightarrow> w = [a] \<and> c' = c"
  by (auto simp: chr_def)

lemma md_lit_iff [simp]: "md (lit t) w c c' \<longleftrightarrow> w = t \<and> c' = c"
  by (induction t arbitrary: w c) (auto simp: md_Cat_iff)

lemma md_oneOf_iff [simp]: "md (oneOf cs) w c c' \<longleftrightarrow> (\<exists>x \<in> set cs. w = [x]) \<and> c' = c"
  by (auto simp: oneOf_def)

declare lit.simps [simp del]

lemma md_Cat_chr [simp]: "md (Cat (chr a) r) w c c' \<longleftrightarrow> (\<exists>v. w = a # v \<and> md r v c c')"
  by (simp add: chr_def)

lemmas md_simps = md_Cat_iff md_Alt_iff md_Grp_iff md_opt_iff

lemma run_sound: "(rest, c') \<in> set (run r s c) \<Longrightarrow> \<exists>w. s = w @ rest \<and> md r w c c'"
proof (induction r s c arbitrary: rest c' rule: run.induct)
  case (2 p s c)
  then show ?case by (cases s) (auto split: if_splits)
next
  case (3 r1 r2 s c)
  from "3.prems" obtain s1 c1 where one: "(s1, c1) \<in> set (run r1 s c)"
    and two: "(rest, c') \<in> set (run r2 s1 c1)" by auto
  from "3.IH"(1) [OF one] obtain w1 where w1: "s = w1 @ s1" "md r1 w1 c c1" by blast
  from "3.IH"(2) [OF one refl two] obtain w2 where w2: "s1 = w2 @ rest" "md r2 w2 c1 c'" by blast
  have "s = (w1 @ w2) @ rest" using w1 w2 by simp
  with w1 w2 show ?case by (blast intro: md_Cat)
next
  case (4 r1 r2 s c)
  from "4.prems" consider "(rest, c') \<in> set (run r1 s c)" | "(rest, c') \<in> set (run r2 s c)"
    by auto
  then show ?case
  proof cases
    case 1
    with "4.IH"(1) show ?thesis by (meson md_Alt1)
  next
    case 2
    with "4.IH"(2) show ?thesis by (meson md_Alt2)
  qed
next
  case (5 r s c)
  show ?case
  proof (cases "(rest, c') = (s, c)")
    case True
    then show ?thesis by (auto intro: md_Star_done)
  next
    case False
    with "5.prems" obtain s1 c1 where one: "(s1, c1) \<in> set (run r s c)" "length s1 < length s"
      and two: "(rest, c') \<in> set (run (Star r) s1 c1)"
      by (subst (asm) run.simps(5)) (auto split: if_splits)
    from "5.IH"(1) [OF one(1)] obtain w1 where w1: "s = w1 @ s1" "md r w1 c c1" by blast
    from "5.IH"(2) [OF one(1) refl one(2) two]
    obtain w2 where w2: "s1 = w2 @ rest" "md (Star r) w2 c1 c'" by blast
    have "w1 \<noteq> []" "s = (w1 @ w2) @ rest" using w1 w2 one by auto
    with w1 w2 show ?thesis by (blast intro: md_Star_more)
  qed
next
  case (6 i r s c)
  then obtain c1 where c1: "c' = (i, take (length s - length rest) s) # c1"
    and one: "(rest, c1) \<in> set (run r s c)" by auto
  from "6.IH" [OF one] obtain w where "s = w @ rest" "md r w c c1" by blast
  with c1 show ?case by (auto intro: md_Grp)
qed auto

lemma run_complete: "md r w c c' \<Longrightarrow> (rest, c') \<in> set (run r (w @ rest) c)"
proof (induction r w c c' arbitrary: rest rule: md.induct)
  case (md_Cat r1 w1 c c1 r2 w2 c2)
  from md_Cat.IH(1) [of "w2 @ rest"] md_Cat.IH(2) [of rest] show ?case
    by (auto intro!: bexI [of _ "(w2 @ rest, c1)"])
next
  case (md_Star_more r w1 c c1 w2 c2)
  have "(rest, c2) \<in> set ((\<lambda>(s', c'). if length s' < length (w1 @ w2 @ rest)
      then run (Star r) s' c' else []) (w2 @ rest, c1))"
    using md_Star_more.IH(2) [of rest] md_Star_more.hyps(2) by simp
  with md_Star_more.IH(1) [of "w2 @ rest"] show ?case
    by (subst run.simps(5)) (unfold append_assoc set_append set_concat set_map, blast)
next
  case (md_Star_done r c)
  then show ?case by (subst run.simps(5)) simp
next
  case (md_Grp r w c c' i)
  from md_Grp.IH [of rest] show ?case by force
qed auto

text \<open>The search finds exactly the matches of the pattern.\<close>

lemma run_iff_md: "(rest, c') \<in> set (run r s c) \<longleftrightarrow> (\<exists>w. s = w @ rest \<and> md r w c c')"
  using run_sound run_complete by blast

lemma fullMatch_md: "fullMatch r s = Some c \<Longrightarrow> md r s [] c"
  using run_sound [of "[]" c r s "[]"]
  by (auto simp: fullMatch_def find_Some_iff) (metis nth_mem)

lemma fullMatch_None: "fullMatch r s = None \<longleftrightarrow> (\<nexists>c. md r s [] c)"
  using run_iff_md [of "[]" _ r s "[]"] by (auto simp: fullMatch_def find_None_iff)

lemma matchFull_iff: "matchFull r s \<longleftrightarrow> (\<exists>c. md r s [] c)"
  by (simp add: matchFull_def fullMatch_None del: not_None_eq)

text \<open>A text with one reading: the match reported is that reading.\<close>

lemma fullMatch_unique:
  "md r s [] c \<Longrightarrow> (\<And>c'. md r s [] c' \<Longrightarrow> c' = c) \<Longrightarrow> fullMatch r s = Some c"
  using fullMatch_md [of r s] fullMatch_None [of r s] by (cases "fullMatch r s") auto

subsection \<open>Repetition of a character class\<close>

lemma md_Star_Cls [simp]: "md (Star (Cls p)) w c c' \<longleftrightarrow> (\<forall>x \<in> set w. p x) \<and> c' = c"
proof
  show "md (Star (Cls p)) w c c' \<Longrightarrow> (\<forall>x \<in> set w. p x) \<and> c' = c"
    by (induction "Star (Cls p)" w c c' rule: md.induct) auto
next
  assume "(\<forall>x \<in> set w. p x) \<and> c' = c"
  then show "md (Star (Cls p)) w c c'"
  proof (induction w)
    case Nil
    then show ?case by (simp add: md_Star_done)
  next
    case (Cons x xs)
    then show ?case using md_Star_more [of "Cls p" "[x]" c c xs c'] by simp
  qed
qed

lemma md_plus_Cls [simp]:
  "md (plus (Cls p)) w c c' \<longleftrightarrow> w \<noteq> [] \<and> (\<forall>x \<in> set w. p x) \<and> c' = c"
  by (cases w) (auto simp: plus_def)

lemma md_repeated_Cls [simp]:
  "md (repeated n (Cls p)) w c c' \<longleftrightarrow> length w = n \<and> (\<forall>x \<in> set w. p x) \<and> c' = c"
proof (induction n arbitrary: w)
  case 0
  then show ?case by auto
next
  case (Suc n)
  show ?case by (cases w) (auto simp: Suc)
qed

lemma md_upto_Cls [simp]:
  "md (upto n (Cls p)) w c c' \<longleftrightarrow> length w \<le> n \<and> (\<forall>x \<in> set w. p x) \<and> c' = c"
proof (induction n arbitrary: w)
  case 0
  then show ?case by auto
next
  case (Suc n)
  show ?case by (cases w) (auto simp: md_opt_iff Suc)
qed

text \<open>A separator-led repetition \<open>(?:sep item)*\<close> whose item is a run of class characters.\<close>

lemma md_Star_sep:
  "md (Star (Cat (chr a) (plus (Cls p)))) w c c' \<longleftrightarrow>
     c' = c \<and> (\<exists>ps. w = concat (map ((#) a) ps) \<and> (\<forall>q \<in> set ps. q \<noteq> [] \<and> (\<forall>x \<in> set q. p x)))"
proof
  show "md (Star (Cat (chr a) (plus (Cls p)))) w c c' \<Longrightarrow>
     c' = c \<and> (\<exists>ps. w = concat (map ((#) a) ps) \<and> (\<forall>q \<in> set ps. q \<noteq> [] \<and> (\<forall>x \<in> set q. p x)))"
  proof (induction "Star (Cat (chr a) (plus (Cls p)))" w c c' rule: md.induct)
    case (md_Star_done c)
    then show ?case by (auto intro: exI [of _ "[]"])
  next
    case (md_Star_more w1 c c1 w2 c2)
    then obtain q where q: "w1 = a # q" "q \<noteq> []" "\<forall>x \<in> set q. p x" "c1 = c"
      by (auto simp: md_Cat_iff)
    from md_Star_more obtain ps where "c2 = c1" "w2 = concat (map ((#) a) ps)"
      "\<forall>q \<in> set ps. q \<noteq> [] \<and> (\<forall>x \<in> set q. p x)" by blast
    with q show ?case by (auto intro!: exI [of _ "q # ps"])
  qed
next
  have "md (Star (Cat (chr a) (plus (Cls p)))) (concat (map ((#) a) ps)) c c"
    if "\<forall>q \<in> set ps. q \<noteq> [] \<and> (\<forall>x \<in> set q. p x)" for ps
    using that
  proof (induction ps)
    case Nil
    then show ?case by (simp add: md_Star_done)
  next
    case (Cons q ps)
    then have "md (Cat (chr a) (plus (Cls p))) (a # q) c c" by (auto simp: md_Cat_iff)
    with Cons show ?case
      using md_Star_more [of _ "a # q" c c "concat (map ((#) a) ps)" c] by simp
  qed
  then show "c' = c \<and> (\<exists>ps. w = concat (map ((#) a) ps) \<and> (\<forall>q \<in> set ps. q \<noteq> [] \<and> (\<forall>x \<in> set q. p x))) \<Longrightarrow>
     md (Star (Cat (chr a) (plus (Cls p)))) w c c'" by auto
qed

text \<open>Which characters a pattern can consume.\<close>

primrec reChars :: "(char \<Rightarrow> bool) \<Rightarrow> re \<Rightarrow> bool" where
  "reChars P Eps = True"
| "reChars P (Cls p) = (\<forall>x. p x \<longrightarrow> P x)"
| "reChars P (Cat r1 r2) = (reChars P r1 \<and> reChars P r2)"
| "reChars P (Alt r1 r2) = (reChars P r1 \<and> reChars P r2)"
| "reChars P (Star r) = reChars P r"
| "reChars P (Grp i r) = reChars P r"

lemma md_reChars: "md r w c c' \<Longrightarrow> reChars P r \<Longrightarrow> \<forall>x \<in> set w. P x"
  by (induction r w c c' rule: md.induct) auto

lemma matchFull_reChars: "matchFull r w \<Longrightarrow> reChars P r \<Longrightarrow> \<forall>x \<in> set w. P x"
  using md_reChars by (fastforce simp: matchFull_iff)

lemma reChars_opt [simp]: "reChars P (opt r) = reChars P r"
  by (simp add: opt_def)

lemma reChars_plus [simp]: "reChars P (plus r) = reChars P r"
  by (simp add: plus_def)

lemma reChars_chr [simp]: "reChars P (chr a) = P a"
  by (simp add: chr_def)

lemma reChars_oneOf [simp]: "reChars P (oneOf cs) = (\<forall>x \<in> set cs. P x)"
  by (auto simp: oneOf_def)

lemma reChars_lit [simp]: "reChars P (lit t) = (\<forall>x \<in> set t. P x)"
  by (induction t) (auto simp: lit.simps)

lemma reChars_upto [simp]: "reChars P r \<Longrightarrow> reChars P (upto n r)"
  by (induction n) auto

lemma joinWith_concat: "joinWith [a] (p # ps) = p @ concat (map ((#) a) ps)"
proof (induction ps arbitrary: p)
  case Nil
  then show ?case by simp
next
  case (Cons q ps)
  then show ?case by simp
qed

lemma group_simps [simp]:
  "group ((i, w) # c) j = (if i = j then w else group c j)"
  "group [] j = []"
  by (auto simp: group_def mget_def)

end
