(* ===== verification/Versions.thy ===== *)
theory Versions
  imports Go_Regexp
begin

section \<open>Version ordering: semver and PEP 440\<close>

text \<open>
  \<open>internal/remediation/version.go\<close>: parsing and comparing versions under the rules of Node.js
  and Go (semver) and of Python (PEP 440). Numbers stay decimal texts, as in the code, and are
  compared by length and then byte by byte; \<open>cmpNum_decVal\<close> shows that this is numeric order.
  The comparisons are shown to be total orders (instances of \<open>comparison\<close>), and the semver one
  to refine the precedence rules stated over numbers.
\<close>

subsection \<open>Numbers as decimal texts\<close>

definition isDigits :: "string \<Rightarrow> bool" where
  "isDigits s = (if s = '''' then False else (\<forall>c \<in> set s. isDigitByte c))"

definition cmpNum :: "string \<Rightarrow> string \<Rightarrow> int" where
  "cmpNum a b =
     (if length a \<noteq> length b then (if length a < length b then -1 else 1) else strCompare a b)"

definition trimZeros :: "string \<Rightarrow> string" where
  "trimZeros s = (let t = dropWhile (\<lambda>c. c = CHR ''0'') s in if t = '''' then ''0'' else t)"

subsection \<open>Semantic versions\<close>

record semver =
  svMajor :: string
  svMinor :: string
  svPatch :: string
  svPre :: "string list"

definition isIdByte :: "char \<Rightarrow> bool" where
  "isIdByte c \<longleftrightarrow> isDigitByte c \<or> isUpperByte c \<or> isLowerByte c \<or> c = CHR ''-''"

definition semverNumRE :: re where
  "semverNumRE = Alt (lit ''0'') (Cat (Cls (\<lambda>c. CHR ''1'' \<le> c \<and> c \<le> CHR ''9'')) (Star digitRE))"

definition semverIdsRE :: re where
  "semverIdsRE = Cat (plus (Cls isIdByte)) (Star (Cat (chr (CHR ''.'')) (plus (Cls isIdByte))))"

definition semverRE :: re where
  "semverRE =
     Cat (Grp 1 semverNumRE) (Cat (chr (CHR ''.'')) (Cat (Grp 2 semverNumRE) (Cat (chr (CHR ''.''))
       (Cat (Grp 3 semverNumRE)
         (Cat (opt (Cat (chr (CHR ''-'')) (Grp 4 semverIdsRE)))
              (opt (Cat (chr (CHR ''+'')) semverIdsRE)))))))"

definition parseSemver :: "string \<Rightarrow> semver option" where
  "parseSemver s =
     (case fullMatch semverRE s of
        None \<Rightarrow> None
      | Some m \<Rightarrow>
          (let v = \<lparr>svMajor = group m 1, svMinor = group m 2, svPatch = group m 3, svPre = []\<rparr> in
           if group m 4 \<noteq> '''' then
             (let ids = splitOn (CHR ''.'') (group m 4) in
              if \<exists>id \<in> set ids. isDigits id \<and> length id > 1 \<and> hd id = CHR ''0'' then None
              else Some (v\<lparr>svPre := ids\<rparr>))
           else Some v))"

text \<open>The loop of \<open>semver.compare\<close> over the pre-release identifiers and its length tie break.\<close>

fun cmpPreIds :: "nat \<Rightarrow> nat \<Rightarrow> string list \<Rightarrow> string list \<Rightarrow> int" where
  "cmpPreIds la lb (x # xs) (y # ys) =
     (if isDigits x \<and> isDigits y then
        (if cmpNum x y \<noteq> 0 then cmpNum x y else cmpPreIds la lb xs ys)
      else if isDigits x then -1
      else if isDigits y then 1
      else if strCompare x y \<noteq> 0 then strCompare x y else cmpPreIds la lb xs ys)"
| "cmpPreIds la lb [] ys = cmpNum (itoa la) (itoa lb)"
| "cmpPreIds la lb (x # xs) [] = cmpNum (itoa la) (itoa lb)"

definition semver_compare :: "semver \<Rightarrow> semver \<Rightarrow> int" where
  "semver_compare a b =
     (if cmpNum (svMajor a) (svMajor b) \<noteq> 0 then cmpNum (svMajor a) (svMajor b)
      else if cmpNum (svMinor a) (svMinor b) \<noteq> 0 then cmpNum (svMinor a) (svMinor b)
      else if cmpNum (svPatch a) (svPatch b) \<noteq> 0 then cmpNum (svPatch a) (svPatch b)
      else if svPre a = [] \<and> svPre b = [] then 0
      else if svPre a = [] then 1
      else if svPre b = [] then -1
      else cmpPreIds (length (svPre a)) (length (svPre b)) (svPre a) (svPre b))"

definition semver_isPrerelease :: "semver \<Rightarrow> bool" where
  "semver_isPrerelease a \<longleftrightarrow> length (svPre a) > 0"

subsection \<open>PEP 440 versions\<close>

record pyVersion =
  pyEpoch :: string
  pyRelease :: "string list"
  pyPreKind :: int
  pyPreNum :: string
  pyHasPre :: bool
  pyPostNum :: string
  pyHasPost :: bool
  pyDevNum :: string
  pyHasDev :: bool
  pyLocal :: "string list"

definition sepRE :: re where
  "sepRE = opt (oneOf ''-_.'')"

definition pep440RE :: re where
  "pep440RE = catOf [
     opt (chr (CHR ''v'')),
     opt (Cat (Grp 1 (plus digitRE)) (chr (CHR ''!''))),
     Grp 2 (Cat (plus digitRE) (Star (Cat (chr (CHR ''.'')) (plus digitRE)))),
     opt (catOf [sepRE,
       Grp 3 (altOf [lit ''alpha'', lit ''a'', lit ''beta'', lit ''b'', lit ''preview'', lit ''pre'',
         lit ''c'', lit ''rc'']), sepRE, Grp 4 (Star digitRE)]),
     opt (Alt (Cat (chr (CHR ''-'')) (Grp 5 (plus digitRE)))
       (catOf [sepRE, Grp 6 (altOf [lit ''post'', lit ''rev'', lit ''r'']), sepRE, Grp 7 (Star digitRE)])),
     opt (catOf [sepRE, Grp 8 (lit ''dev''), sepRE, Grp 9 (Star digitRE)]),
     opt (Cat (chr (CHR ''+''))
       (Grp 10 (Cat (plus (Cls (\<lambda>c. isLowerByte c \<or> isDigitByte c)))
         (Star (Cat (oneOf ''-_.'') (plus (Cls (\<lambda>c. isLowerByte c \<or> isDigitByte c))))))))]"

definition fieldsLocal :: "string \<Rightarrow> string list" where
  "fieldsLocal s =
     filter (\<lambda>p. p \<noteq> '''')
       (splitOn (CHR ''.'') (map (\<lambda>c. if c = CHR ''-'' \<or> c = CHR ''_'' then CHR ''.'' else c) s))"

definition parsePEP440 :: "string \<Rightarrow> pyVersion option" where
  "parsePEP440 s =
     (case fullMatch pep440RE (toLower (trimSpace s)) of
        None \<Rightarrow> None
      | Some m \<Rightarrow>
          Some \<lparr>pyEpoch = trimZeros (group m 1),
            pyRelease = map trimZeros (splitOn (CHR ''.'') (group m 2)),
            pyPreKind = (if group m 3 = '''' then 0
               else if group m 3 = ''a'' \<or> group m 3 = ''alpha'' then 0
               else if group m 3 = ''b'' \<or> group m 3 = ''beta'' then 1 else 2),
            pyPreNum = (if group m 3 = '''' then '''' else trimZeros (group m 4)),
            pyHasPre = (group m 3 \<noteq> ''''),
            pyPostNum = (if group m 5 \<noteq> '''' then trimZeros (group m 5)
               else if group m 6 \<noteq> '''' then trimZeros (group m 7) else ''''),
            pyHasPost = (group m 5 \<noteq> '''' \<or> group m 6 \<noteq> ''''),
            pyDevNum = (if group m 8 \<noteq> '''' then trimZeros (group m 9) else ''''),
            pyHasDev = (group m 8 \<noteq> ''''),
            pyLocal = (if group m 10 \<noteq> '''' then fieldsLocal (group m 10) else [])\<rparr>)"

definition py_isPrerelease :: "pyVersion \<Rightarrow> bool" where
  "py_isPrerelease v \<longleftrightarrow> pyHasPre v \<or> pyHasDev v"

text \<open>\<open>trimmedRelease\<close>: the loop drops the last segment while it is zero and not the only one.\<close>

function dropTrailingZeros :: "string list \<Rightarrow> string list" where
  "dropTrailingZeros r =
     (if length r > 1 \<and> last r = ''0'' then dropTrailingZeros (butlast r) else r)"
  by pat_completeness auto
termination
  by (relation "measure length") auto

declare dropTrailingZeros.simps [simp del]

definition trimmedRelease :: "pyVersion \<Rightarrow> string list" where
  "trimmedRelease v = dropTrailingZeros (pyRelease v)"

record orderedNum =
  onRank :: int
  onKind :: int
  onN :: string

definition cmpOrdered :: "orderedNum \<Rightarrow> orderedNum \<Rightarrow> int" where
  "cmpOrdered a b =
     (if onRank a \<noteq> onRank b then (if onRank a < onRank b then -1 else 1)
      else if onKind a \<noteq> onKind b then (if onKind a < onKind b then -1 else 1)
      else cmpNum (onN a) (onN b))"

definition preKey :: "pyVersion \<Rightarrow> orderedNum" where
  "preKey v =
     (if \<not> pyHasPre v \<and> \<not> pyHasPost v \<and> pyHasDev v then \<lparr>onRank = -1, onKind = 0, onN = ''''\<rparr>
      else if \<not> pyHasPre v then \<lparr>onRank = 1, onKind = 0, onN = ''''\<rparr>
      else \<lparr>onRank = 0, onKind = pyPreKind v, onN = pyPreNum v\<rparr>)"

definition postKey :: "pyVersion \<Rightarrow> orderedNum" where
  "postKey v =
     (if \<not> pyHasPost v then \<lparr>onRank = -1, onKind = 0, onN = ''''\<rparr>
      else \<lparr>onRank = 0, onKind = 0, onN = pyPostNum v\<rparr>)"

definition devKey :: "pyVersion \<Rightarrow> orderedNum" where
  "devKey v =
     (if \<not> pyHasDev v then \<lparr>onRank = 1, onKind = 0, onN = ''''\<rparr>
      else \<lparr>onRank = 0, onKind = 0, onN = pyDevNum v\<rparr>)"

fun cmpRelease :: "string list \<Rightarrow> string list \<Rightarrow> int" where
  "cmpRelease [] [] = 0"
| "cmpRelease (x # xs) [] = (if cmpNum x ''0'' \<noteq> 0 then cmpNum x ''0'' else cmpRelease xs [])"
| "cmpRelease [] (y # ys) = (if cmpNum ''0'' y \<noteq> 0 then cmpNum ''0'' y else cmpRelease [] ys)"
| "cmpRelease (x # xs) (y # ys) = (if cmpNum x y \<noteq> 0 then cmpNum x y else cmpRelease xs ys)"

fun cmpLocalLoop :: "nat \<Rightarrow> nat \<Rightarrow> string list \<Rightarrow> string list \<Rightarrow> int" where
  "cmpLocalLoop la lb (x # xs) (y # ys) =
     (if isDigits x \<and> isDigits y then
        (if cmpNum (trimZeros x) (trimZeros y) \<noteq> 0 then cmpNum (trimZeros x) (trimZeros y)
         else cmpLocalLoop la lb xs ys)
      else if isDigits x then 1
      else if isDigits y then -1
      else if strCompare x y \<noteq> 0 then strCompare x y else cmpLocalLoop la lb xs ys)"
| "cmpLocalLoop la lb [] ys = cmpNum (itoa la) (itoa lb)"
| "cmpLocalLoop la lb (x # xs) [] = cmpNum (itoa la) (itoa lb)"

definition cmpLocal :: "string list \<Rightarrow> string list \<Rightarrow> int" where
  "cmpLocal a b =
     (if a = [] \<and> b = [] then 0 else if a = [] then -1 else if b = [] then 1
      else cmpLocalLoop (length a) (length b) a b)"

definition py_compare :: "pyVersion \<Rightarrow> pyVersion \<Rightarrow> int" where
  "py_compare a b =
     (if cmpNum (pyEpoch a) (pyEpoch b) \<noteq> 0 then cmpNum (pyEpoch a) (pyEpoch b)
      else if cmpRelease (pyRelease a) (pyRelease b) \<noteq> 0 then cmpRelease (pyRelease a) (pyRelease b)
      else if cmpOrdered (preKey a) (preKey b) \<noteq> 0 then cmpOrdered (preKey a) (preKey b)
      else if cmpOrdered (postKey a) (postKey b) \<noteq> 0 then cmpOrdered (postKey a) (postKey b)
      else if cmpOrdered (devKey a) (devKey b) \<noteq> 0 then cmpOrdered (devKey a) (devKey b)
      else cmpLocal (pyLocal a) (pyLocal b))"

subsection \<open>Package names\<close>

text \<open>The loop of \<open>normalizePyName\<close>; \<open>dash\<close> says a run of separators is pending.\<close>

fun normalizePyLoop :: "bool \<Rightarrow> string \<Rightarrow> string" where
  "normalizePyLoop dash [] = (if dash then ''-'' else '''')"
| "normalizePyLoop dash (r # rs) =
     (if r = CHR ''-'' \<or> r = CHR ''_'' \<or> r = CHR ''.'' then normalizePyLoop True rs
      else if dash then CHR ''-'' # r # normalizePyLoop False rs
      else r # normalizePyLoop False rs)"

definition normalizePyName :: "string \<Rightarrow> string" where
  "normalizePyName s = normalizePyLoop False (toLower s)"

definition SameDependencyName :: "string \<Rightarrow> string \<Rightarrow> string \<Rightarrow> bool" where
  "SameDependencyName m a b =
     (if m = ''uv'' \<or> m = ''pip'' then normalizePyName a = normalizePyName b else a = b)"

subsection \<open>Numbers compare numerically\<close>

lemma cmpNum_numeric:
  assumes "canonicalDec a" "canonicalDec b"
  shows "cmpNum a b = cmpInt (int (decVal a)) (int (decVal b))"
proof -
  have da: "\<forall>c \<in> set a. isDigitByte c" and db: "\<forall>c \<in> set b. isDigitByte c"
    using assms by (auto simp: canonicalDec_def)
  consider "length a < length b" | "length b < length a" | "length a = length b" by linarith
  then show ?thesis
  proof cases
    case 1
    then show ?thesis using canonicalDec_shorter_less [OF assms 1] by (simp add: cmpNum_def cmpInt_def)
  next
    case 2
    then show ?thesis
      using canonicalDec_shorter_less [OF assms(2,1) 2] by (simp add: cmpNum_def cmpInt_def)
  next
    case 3
    then show ?thesis
      using decVal_less_same_length [OF 3 da db] decVal_less_same_length [OF 3 [symmetric] db da]
        canonicalDec_inject [OF assms]
      by (auto simp: cmpNum_def strCompare_def cmpInt_def)
  qed
qed



lemma cmpNum_itoa: "cmpNum (itoa m) (itoa n) = cmpInt (int m) (int n)"
  by (simp add: cmpNum_numeric)

lemma canonicalDec_trimZeros: "(\<forall>c \<in> set s. isDigitByte c) \<Longrightarrow> canonicalDec (trimZeros s)"
proof -
  assume d: "\<forall>c \<in> set s. isDigitByte c"
  let ?t = "dropWhile (\<lambda>c. c = CHR ''0'') s"
  have "?t \<noteq> [] \<Longrightarrow> hd ?t \<noteq> CHR ''0''" by (metis (mono_tags) hd_dropWhile)
  with d show ?thesis
    by (auto simp: canonicalDec_def trimZeros_def Let_def isDigitByte_iff dest: set_dropWhileD)
qed

lemma decVal_trimZeros: "decVal (trimZeros s) = decVal s"
proof -
  have "decVal (dropWhile (\<lambda>c. c = CHR ''0'') s) = decVal s"
    by (induction s) auto
  moreover have "decVal ''0'' = 0" by simp
  ultimately show ?thesis
    by (cases "dropWhile (\<lambda>c. c = CHR ''0'') s = []") (auto simp: trimZeros_def Let_def)
qed

text \<open>
  Comparing two decimal texts by dropping leading zeros and then going by length and bytes is
  comparing the numbers they denote, for components of any length: nothing is parsed and nothing
  overflows.
\<close>

lemma cmpNum_decVal:
  assumes "\<forall>c \<in> set a. isDigitByte c" "\<forall>c \<in> set b. isDigitByte c"
  shows "cmpNum (trimZeros a) (trimZeros b) = cmpInt (int (decVal a)) (int (decVal b))"
  using cmpNum_numeric [OF canonicalDec_trimZeros [OF assms(1)] canonicalDec_trimZeros [OF assms(2)]]
  by (simp only: decVal_trimZeros)

lemma comparison_cmpNum: "comparison cmpNum (\<lambda>_. True)"
proof -
  have "comparison (cmpThen (\<lambda>a b. cmpInt (int (length a)) (int (length b))) strCompare)
     (\<lambda>_::string. True)"
    by (intro comparison_cmpThen comparison_strCompare comparison_image [OF comparison_cmpInt]) auto
  then show ?thesis
    by (rule comparison_cong) (auto simp: cmpNum_def cmpThen_def cmpInt_def)
qed

interpretation num_order: comparison cmpNum "\<lambda>_. True"
  by (rule comparison_cmpNum)

subsection \<open>Comparing lists item by item\<close>

fun lexCmp :: "('a \<Rightarrow> 'a \<Rightarrow> int) \<Rightarrow> 'a list \<Rightarrow> 'a list \<Rightarrow> int" where
  "lexCmp c [] [] = 0"
| "lexCmp c [] (y # ys) = -1"
| "lexCmp c (x # xs) [] = 1"
| "lexCmp c (x # xs) (y # ys) = (if c x y \<noteq> 0 then c x y else lexCmp c xs ys)"

context comparison
begin

lemma lexCmp_range: "lexCmp cmp xs ys \<in> {-1, 0, 1}"
proof (induction xs ys rule: list_induct2')
  case (4 x xs y ys)
  then show ?case using cmp_range [of x y] by auto
qed auto

lemma lexCmp_refl: "list_all D xs \<Longrightarrow> lexCmp cmp xs xs = 0"
  by (induction xs) (auto simp: cmp_refl)

lemma lexCmp_antisym: "list_all D xs \<Longrightarrow> list_all D ys \<Longrightarrow> lexCmp cmp ys xs = - lexCmp cmp xs ys"
proof (induction xs ys rule: list_induct2')
  case (4 x xs y ys)
  then show ?case using cmp_antisym [of x y] by simp
qed auto

lemma lexCmp_trans:
  "list_all D xs \<Longrightarrow> list_all D ys \<Longrightarrow> list_all D zs \<Longrightarrow>
     lexCmp cmp xs ys \<le> 0 \<Longrightarrow> lexCmp cmp ys zs \<le> 0 \<Longrightarrow> lexCmp cmp xs zs \<le> 0"
proof (induction xs arbitrary: ys zs)
  case Nil
  then show ?case by (cases zs) auto
next
  case (Cons x xs)
  then obtain y ys' where ys: "ys = y # ys'" by (cases ys) auto
  with Cons.prems obtain z zs' where zs: "zs = z # zs'" by (cases zs) auto
  have D: "D x" "D y" "D z" using Cons.prems ys zs by auto
  have le: "cmp x y \<le> 0" "cmp y z \<le> 0"
    using Cons.prems ys zs by (auto split: if_splits)
  then have xz: "cmp x z \<le> 0" using cmp_trans D by blast
  show ?case
  proof (cases "cmp x z = 0")
    case True
    then have "cmp x y = 0" "cmp y z = 0"
      using le cmp_less_le_trans [OF D] cmp_le_less_trans [OF D] by force+
    then have "lexCmp cmp xs ys' \<le> 0" "lexCmp cmp ys' zs' \<le> 0"
      using Cons.prems ys zs by auto
    with Cons.IH [of ys' zs'] Cons.prems True ys zs show ?thesis by simp
  next
    case False
    with xz zs show ?thesis by simp
  qed
qed

end

lemma comparison_lexCmp:
  assumes "comparison c D"
  shows "comparison (lexCmp c) (list_all D)"
proof
  show "lexCmp c a b \<in> {-1, 0, 1}" for a b
    by (rule comparison.lexCmp_range [OF assms])
  show "list_all D a \<Longrightarrow> lexCmp c a a = 0" for a
    by (rule comparison.lexCmp_refl [OF assms])
  show "list_all D a \<Longrightarrow> list_all D b \<Longrightarrow> lexCmp c b a = - lexCmp c a b" for a b
    by (rule comparison.lexCmp_antisym [OF assms])
  show "list_all D a \<Longrightarrow> list_all D b \<Longrightarrow> list_all D d \<Longrightarrow>
      lexCmp c a b \<le> 0 \<Longrightarrow> lexCmp c b d \<le> 0 \<Longrightarrow> lexCmp c a d \<le> 0" for a b d
    by (rule comparison.lexCmp_trans [OF assms])
qed

lemma list_all_True: "list_all (\<lambda>_. True) xs"
  by (simp add: list_all_iff)

subsection \<open>The semver order\<close>

text \<open>The order of two pre-release identifiers.\<close>

definition cmpPreId :: "string \<Rightarrow> string \<Rightarrow> int" where
  "cmpPreId x y =
     (if isDigits x \<and> isDigits y then cmpNum x y
      else if isDigits x then -1 else if isDigits y then 1 else strCompare x y)"

lemma comparison_cmpPreId: "comparison cmpPreId (\<lambda>_. True)"
proof -
  have "comparison (cmpThen (\<lambda>a b. cmpInt (if isDigits a then 0 else 1) (if isDigits b then 0 else 1))
     (cmpThen (\<lambda>a b. cmpNum (if isDigits a then a else '''') (if isDigits b then b else ''''))
       (\<lambda>a b. strCompare (if isDigits a then '''' else a) (if isDigits b then '''' else b))))
     (\<lambda>_. True)"
    by (intro comparison_cmpThen comparison_image [OF comparison_cmpInt, where f = "\<lambda>a. if isDigits a then 0 else 1"]
        comparison_image [OF comparison_cmpNum, where f = "\<lambda>a. if isDigits a then a else ''''"]
        comparison_image [OF comparison_strCompare, where f = "\<lambda>a. if isDigits a then '''' else a"]) auto
  then show ?thesis
    by (rule comparison_cong)
      (auto simp: cmpPreId_def cmpThen_def cmpInt_def cmpNum_def strCompare_def)
qed

lemma cmpPreIds_lexCmp_aux:
  "int la - int (length xs) = int lb - int (length ys) \<Longrightarrow> cmpPreIds la lb xs ys = lexCmp cmpPreId xs ys"
proof (induction la lb xs ys rule: cmpPreIds.induct)
  case (1 la lb x xs y ys)
  then show ?case by (auto simp: cmpPreId_def)
next
  case (2 la lb ys)
  then show ?case by (cases ys) (auto simp: cmpNum_itoa cmpInt_def)
next
  case (3 la lb x xs)
  then show ?case by (auto simp: cmpNum_itoa cmpInt_def)
qed

lemma cmpPreIds_lexCmp: "cmpPreIds (length xs) (length ys) xs ys = lexCmp cmpPreId xs ys"
  by (rule cmpPreIds_lexCmp_aux) simp

text \<open>A release is above its pre-releases: an empty list is the top of the list order.\<close>

definition cmpPre :: "string list \<Rightarrow> string list \<Rightarrow> int" where
  "cmpPre a b = cmpThen (\<lambda>a b. cmpInt (if a = [] then 1 else 0) (if b = [] then 1 else 0)) (lexCmp cmpPreId) a b"

lemma comparison_cmpPre: "comparison cmpPre (\<lambda>_. True)"
proof -
  have "comparison (lexCmp cmpPreId) (\<lambda>_. True)"
    by (rule comparison_mono [OF comparison_lexCmp [OF comparison_cmpPreId]]) (simp add: list_all_True)
  then have "comparison (cmpThen (\<lambda>a b. cmpInt (if a = [] then 1 else 0) (if b = [] then 1 else 0))
      (lexCmp cmpPreId)) (\<lambda>_. True)"
    by (intro comparison_cmpThen
        comparison_image [OF comparison_cmpInt, where f = "\<lambda>a. if a = [] then 1 else 0"]) auto
  then show ?thesis by (rule comparison_cong) (simp add: cmpPre_def)
qed

lemma semver_compare_alt:
  "semver_compare a b =
     cmpThen (\<lambda>a b. cmpNum (svMajor a) (svMajor b))
       (cmpThen (\<lambda>a b. cmpNum (svMinor a) (svMinor b))
         (cmpThen (\<lambda>a b. cmpNum (svPatch a) (svPatch b)) (\<lambda>a b. cmpPre (svPre a) (svPre b)))) a b"
  by (simp add: semver_compare_def cmpThen_def cmpPre_def cmpPreIds_lexCmp cmpInt_def)

lemma comparison_semver: "comparison semver_compare (\<lambda>_. True)"
proof -
  have "comparison (cmpThen (\<lambda>a b. cmpNum (svMajor a) (svMajor b))
       (cmpThen (\<lambda>a b. cmpNum (svMinor a) (svMinor b))
         (cmpThen (\<lambda>a b. cmpNum (svPatch a) (svPatch b)) (\<lambda>a b. cmpPre (svPre a) (svPre b)))))
     (\<lambda>_::semver. True)"
    by (intro comparison_cmpThen comparison_image [OF comparison_cmpNum, where f = svMajor]
        comparison_image [OF comparison_cmpNum, where f = svMinor]
        comparison_image [OF comparison_cmpNum, where f = svPatch]
        comparison_image [OF comparison_cmpPre, where f = svPre]) auto
  then show ?thesis by (rule comparison_cong) (rule semver_compare_alt)
qed

interpretation semver_order: comparison semver_compare "\<lambda>_. True"
  by (rule comparison_semver)

text \<open>
  The abstract precedence: three numbers, then the pre-release identifiers as numbers or words.
\<close>

datatype ident = Num nat | Word string

record precedence =
  pcNums :: "nat list"
  pcPre :: "ident list"

fun identOf :: "string \<Rightarrow> ident" where
  "identOf s = (if isDigits s then Num (decVal s) else Word s)"

definition precedenceOf :: "semver \<Rightarrow> precedence" where
  "precedenceOf v = \<lparr>pcNums = [decVal (svMajor v), decVal (svMinor v), decVal (svPatch v)],
     pcPre = map identOf (svPre v)\<rparr>"

fun identLess :: "ident \<Rightarrow> ident \<Rightarrow> bool" where
  "identLess (Num m) (Num n) = (m < n)"
| "identLess (Num _) (Word _) = True"
| "identLess (Word _) (Num _) = False"
| "identLess (Word a) (Word b) = (a < b)"

fun identsLess :: "ident list \<Rightarrow> ident list \<Rightarrow> bool" where
  "identsLess xs [] = False"
| "identsLess [] (y # ys) = True"
| "identsLess (x # xs) (y # ys) = (identLess x y \<or> (x = y \<and> identsLess xs ys))"

text \<open>Precedence as the semver specification words it: numerically, then a release last, then item by item.\<close>

definition precedes :: "precedence \<Rightarrow> precedence \<Rightarrow> bool" where
  "precedes p q \<longleftrightarrow>
     pcNums p < pcNums q
     \<or> (pcNums p = pcNums q
        \<and> (pcPre p \<noteq> [] \<and> (pcPre q = [] \<or> identsLess (pcPre p) (pcPre q))))"

definition wfIdent :: "string \<Rightarrow> bool" where
  "wfIdent s \<longleftrightarrow> s \<noteq> [] \<and> (\<forall>c \<in> set s. isIdByte c) \<and> (isDigits s \<longrightarrow> canonicalDec s)"

definition wfSemver :: "semver \<Rightarrow> bool" where
  "wfSemver v \<longleftrightarrow> canonicalDec (svMajor v) \<and> canonicalDec (svMinor v) \<and> canonicalDec (svPatch v)
     \<and> (\<forall>p \<in> set (svPre v). wfIdent p)"

lemma cmpPreId_less: "wfIdent x \<Longrightarrow> wfIdent y \<Longrightarrow> cmpPreId x y < 0 \<longleftrightarrow> identLess (identOf x) (identOf y)"
  by (auto simp: cmpPreId_def wfIdent_def cmpNum_numeric cmpInt_def strCompare_def split: if_splits)

lemma identOf_inject: "wfIdent x \<Longrightarrow> wfIdent y \<Longrightarrow> identOf x = identOf y \<longleftrightarrow> x = y"
  by (auto simp: wfIdent_def canonicalDec_inject)

lemma cmpPreId_zero: "wfIdent x \<Longrightarrow> wfIdent y \<Longrightarrow> cmpPreId x y = 0 \<longleftrightarrow> x = y"
  by (auto simp: cmpPreId_def cmpNum_def strCompare_def split: if_splits)

lemma lexCmp_identsLess:
  "\<forall>p \<in> set xs. wfIdent p \<Longrightarrow> \<forall>p \<in> set ys. wfIdent p \<Longrightarrow>
     lexCmp cmpPreId xs ys < 0 \<longleftrightarrow> identsLess (map identOf xs) (map identOf ys)"
proof (induction xs ys rule: list_induct2')
  case (4 x xs y ys)
  then have "cmpPreId x y < 0 \<longleftrightarrow> identLess (identOf x) (identOf y)"
    and "cmpPreId x y = 0 \<longleftrightarrow> identOf x = identOf y"
    using cmpPreId_less cmpPreId_zero identOf_inject by (simp_all del: identOf.simps)
  with 4 show ?case by (auto simp del: identOf.simps)
qed auto

lemma cmpNum_zero_decVal:
  "canonicalDec a \<Longrightarrow> canonicalDec b \<Longrightarrow> cmpNum a b = 0 \<longleftrightarrow> decVal a = decVal b"
  "canonicalDec a \<Longrightarrow> canonicalDec b \<Longrightarrow> cmpNum a b < 0 \<longleftrightarrow> decVal a < decVal b"
  by (auto simp: cmpNum_numeric cmpInt_def split: if_splits)

text \<open>
  C37. On well-formed versions the code's comparison is semver precedence: it is negative exactly
  when the abstract precedence, stated over numbers, puts the first version before the second, and
  zero exactly for equal versions.
\<close>

theorem semver_compare_refines_precedence:
  assumes "wfSemver a" "wfSemver b"
  shows "(semver_compare a b < 0 \<longleftrightarrow> precedes (precedenceOf a) (precedenceOf b))
    \<and> (semver_compare a b = 0 \<longleftrightarrow> a = b)"
proof
  note c = assms [unfolded wfSemver_def]
  note n = cmpNum_zero_decVal canonicalDec_inject
  show "semver_compare a b < 0 \<longleftrightarrow> precedes (precedenceOf a) (precedenceOf b)"
    using c lexCmp_identsLess [of "svPre a" "svPre b"]
    by (auto simp: semver_compare_alt cmpThen_def cmpPre_def cmpInt_def precedes_def
        precedenceOf_def n split: if_splits)
  have zero: "lexCmp cmpPreId xs ys = 0 \<longleftrightarrow> xs = ys"
    if "\<forall>p \<in> set xs. wfIdent p" "\<forall>p \<in> set ys. wfIdent p" for xs ys
    using that by (induction xs ys rule: list_induct2') (auto simp: cmpPreId_zero)
  show "semver_compare a b = 0 \<longleftrightarrow> a = b"
    using c zero [of "svPre a" "svPre b"]
    by (auto simp: semver_compare_alt cmpThen_def cmpPre_def cmpInt_def n split: if_splits)
qed

theorem semver_compare_refines_precedence_witness:
  "semver_compare \<lparr>svMajor = ''1'', svMinor = ''9'', svPatch = ''0'', svPre = [''rc'', ''1'']\<rparr>
       \<lparr>svMajor = ''1'', svMinor = ''10'', svPatch = ''0'', svPre = []\<rparr> < 0
   \<and> precedes (precedenceOf \<lparr>svMajor = ''1'', svMinor = ''9'', svPatch = ''0'', svPre = [''rc'', ''1'']\<rparr>)
       (precedenceOf \<lparr>svMajor = ''1'', svMinor = ''10'', svPatch = ''0'', svPre = []\<rparr>)"
proof -
  let ?a = "\<lparr>svMajor = ''1'', svMinor = ''9'', svPatch = ''0'', svPre = [''rc'', ''1'']\<rparr>"
  let ?b = "\<lparr>svMajor = ''1'', svMinor = ''10'', svPatch = ''0'', svPre = []\<rparr>"
  have w: "wfSemver ?a" "wfSemver ?b" by code_simp+
  have "semver_compare ?a ?b < 0" by code_simp
  with semver_compare_refines_precedence [OF w] show ?thesis by blast
qed

subsection \<open>Parsing semantic versions\<close>

definition renderPre :: "string list \<Rightarrow> string" where
  "renderPre ids = (if ids = [] then '''' else CHR ''-'' # joinWith ''.'' ids)"

definition renderSemver :: "semver \<Rightarrow> string" where
  "renderSemver v = svMajor v @ ''.'' @ svMinor v @ ''.'' @ svPatch v @ renderPre (svPre v)"

definition buildSuffix :: "string \<Rightarrow> bool" where
  "buildSuffix b \<longleftrightarrow> b = '''' \<or>
     (\<exists>ids. ids \<noteq> [] \<and> b = CHR ''+'' # joinWith ''.'' ids \<and> (\<forall>p \<in> set ids. p \<noteq> [] \<and> (\<forall>c \<in> set p. isIdByte c)))"

lemma digit_not_special:
  "isDigitByte c \<Longrightarrow> c \<noteq> CHR ''.'' \<and> c \<noteq> CHR ''-'' \<and> c \<noteq> CHR ''+''"
  by (auto simp: isDigitByte_iff)

lemma idByte_not_special: "isIdByte c \<Longrightarrow> c \<noteq> CHR ''.'' \<and> c \<noteq> CHR ''+''"
  by (auto simp: isIdByte_def isDigitByte_iff isUpperByte_def isLowerByte_def less_eq_char_def)

lemma md_semverNumRE: "md semverNumRE w c c' \<longleftrightarrow> canonicalDec w \<and> c' = c"
proof -
  have one_nine: "CHR ''1'' \<le> x \<and> x \<le> CHR ''9'' \<longleftrightarrow> isDigitByte x \<and> x \<noteq> CHR ''0''" for x
  proof -
    have "(of_char x :: nat) = 48 \<longleftrightarrow> x = CHR ''0''"
      using of_char_eq_iff [of x "CHR ''0''", where ?'a = nat] by simp
    then show ?thesis by (auto simp: isDigitByte_iff less_eq_char_def)
  qed
  show ?thesis
  proof (cases w)
    case Nil
    then show ?thesis by (simp add: semverNumRE_def md_Alt_iff canonicalDec_def)
  next
    case (Cons x xs)
    then show ?thesis
      by (cases xs) (auto simp: semverNumRE_def md_Alt_iff canonicalDec_def one_nine isDigitByte_iff)
  qed
qed

definition idsText :: "string \<Rightarrow> bool" where
  "idsText w \<longleftrightarrow> (\<exists>ids. ids \<noteq> [] \<and> w = joinWith ''.'' ids \<and> (\<forall>p \<in> set ids. p \<noteq> [] \<and> (\<forall>x \<in> set p. isIdByte x)))"

lemma md_semverIdsRE: "md semverIdsRE w c c' \<longleftrightarrow> c' = c \<and> idsText w"
  (is "?L \<longleftrightarrow> ?R")
proof
  assume ?L
  then obtain p w2 where "w = p @ w2" "p \<noteq> []" "\<forall>x \<in> set p. isIdByte x" "c' = c"
    and "\<exists>ps. w2 = concat (map ((#) (CHR ''.'')) ps) \<and> (\<forall>q \<in> set ps. q \<noteq> [] \<and> (\<forall>x \<in> set q. isIdByte x))"
    by (auto simp: semverIdsRE_def md_Cat_iff md_Star_sep)
  then obtain ps where "w = joinWith ''.'' (p # ps)" "\<forall>q \<in> set (p # ps). q \<noteq> [] \<and> (\<forall>x \<in> set q. isIdByte x)"
    by (auto simp: joinWith_concat)
  with \<open>c' = c\<close> show ?R unfolding idsText_def by blast
next
  assume ?R
  then obtain p ps where "c' = c" "w = joinWith ''.'' (p # ps)"
    "\<forall>q \<in> set (p # ps). q \<noteq> [] \<and> (\<forall>x \<in> set q. isIdByte x)"
    unfolding idsText_def by (metis neq_Nil_conv)
  then have "c' = c" "w = p @ concat (map ((#) (CHR ''.'')) ps)" "p \<noteq> []" "\<forall>x \<in> set p. isIdByte x"
    "\<forall>q \<in> set ps. q \<noteq> [] \<and> (\<forall>x \<in> set q. isIdByte x)"
    by (auto simp: joinWith_concat)
  then show ?L unfolding semverIdsRE_def md_Cat_iff md_Star_sep md_plus_Cls by blast
qed

lemma joinWith_ids_not_plus:
  "\<forall>p \<in> set ids. \<forall>c \<in> set p. isIdByte c \<Longrightarrow> CHR ''+'' \<notin> set (joinWith ''.'' ids)"
proof (induction ids)
  case Nil
  then show ?case by simp
next
  case (Cons p ps)
  then show ?case
    by (cases "ps = []") (auto simp: joinWith_Cons dest: idByte_not_special)
qed

text \<open>One text has one split into numbers, pre-release part and build part.\<close>

lemma digits_prefix_unique:
  assumes "\<forall>c \<in> set a. isDigitByte c" "\<forall>c \<in> set a'. isDigitByte c"
    and "a @ r = a' @ r'" "r = [] \<or> \<not> isDigitByte (hd r)" "r' = [] \<or> \<not> isDigitByte (hd r')"
  shows "a = a' \<and> r = r'"
proof -
  have "takeWhile isDigitByte (a @ r) = a" "takeWhile isDigitByte (a' @ r') = a'"
    using assms takeWhile_split by blast+
  with assms(3) show ?thesis by simp
qed

lemma plus_split_unique:
  assumes "CHR ''+'' \<notin> set a" "CHR ''+'' \<notin> set a'" "a @ b = a' @ b'"
    and "b = [] \<or> hd b = CHR ''+''" "b' = [] \<or> hd b' = CHR ''+''"
  shows "a = a' \<and> b = b'"
proof -
  have "takeWhile (\<lambda>c. c \<noteq> CHR ''+'') (a @ b) = a"
    using assms(1,4) by (intro takeWhile_split) auto
  moreover have "takeWhile (\<lambda>c. c \<noteq> CHR ''+'') (a' @ b') = a'"
    using assms(2,5) by (intro takeWhile_split) auto
  ultimately show ?thesis using assms(3) by simp
qed

definition semverSplit :: "string \<Rightarrow> string \<Rightarrow> string \<Rightarrow> string \<Rightarrow> string list \<Rightarrow> string \<Rightarrow> bool" where
  "semverSplit s M m p ids b \<longleftrightarrow>
     s = M @ ''.'' @ m @ ''.'' @ p @ renderPre ids @ b
     \<and> canonicalDec M \<and> canonicalDec m \<and> canonicalDec p
     \<and> (\<forall>q \<in> set ids. q \<noteq> [] \<and> (\<forall>x \<in> set q. isIdByte x)) \<and> buildSuffix b"

lemma buildSuffix_hd: "buildSuffix b \<Longrightarrow> b = [] \<or> hd b = CHR ''+''"
  by (auto simp: buildSuffix_def)

lemma renderPre_inject:
  assumes "\<forall>q \<in> set ids. q \<noteq> [] \<and> (\<forall>x \<in> set q. isIdByte x)"
    and "\<forall>q \<in> set ids'. q \<noteq> [] \<and> (\<forall>x \<in> set q. isIdByte x)"
    and "renderPre ids = renderPre ids'"
  shows "ids = ids'"
proof -
  have split: "splitOn (CHR ''.'') (joinWith ''.'' xs) = xs"
    if "xs \<noteq> []" "\<forall>q \<in> set xs. \<forall>x \<in> set q. isIdByte x" for xs
    using that idByte_not_special by (intro splitOn_joinWith) auto
  show ?thesis
  proof (cases "ids = [] \<or> ids' = []")
    case True
    with assms(3) show ?thesis by (auto simp: renderPre_def split: if_splits)
  next
    case False
    then have "joinWith ''.'' ids = joinWith ''.'' ids'" using assms(3) by (simp add: renderPre_def)
    moreover have "splitOn (CHR ''.'') (joinWith ''.'' ids) = ids"
      using False assms(1) by (intro split) simp_all
    moreover have "splitOn (CHR ''.'') (joinWith ''.'' ids') = ids'"
      using False assms(2) by (intro split) simp_all
    ultimately show ?thesis by metis
  qed
qed

lemma semverSplit_unique:
  assumes "semverSplit s M m p ids b" "semverSplit s M' m' p' ids' b'"
  shows "M = M' \<and> m = m' \<and> p = p' \<and> ids = ids' \<and> b = b'"
proof -
  have dig: "\<forall>c \<in> set x. isDigitByte c" if "canonicalDec x" for x
    using that by (simp add: canonicalDec_def)
  note a = assms [unfolded semverSplit_def]
  have dot: "\<not> isDigitByte (CHR ''.'')" by (simp add: isDigitByte_iff)
  have 1: "M = M' \<and> CHR ''.'' # m @ ''.'' @ p @ renderPre ids @ b = CHR ''.'' # m' @ ''.'' @ p' @ renderPre ids' @ b'"
    using a dot by (intro digits_prefix_unique) (auto simp: dig)
  then have 2: "m = m' \<and> CHR ''.'' # p @ renderPre ids @ b = CHR ''.'' # p' @ renderPre ids' @ b'"
    using a dot by (intro digits_prefix_unique) (auto simp: dig)
  have hdp: "renderPre i @ x = [] \<or> \<not> isDigitByte (hd (renderPre i @ x))"
    if "x = [] \<or> hd x = CHR ''+''" for i x
    using that by (cases x) (auto simp: renderPre_def isDigitByte_iff)
  have 3: "p = p' \<and> renderPre ids @ b = renderPre ids' @ b'"
  proof (rule digits_prefix_unique)
    show "\<forall>c \<in> set p. isDigitByte c" "\<forall>c \<in> set p'. isDigitByte c" using a dig by auto
    show "p @ renderPre ids @ b = p' @ renderPre ids' @ b'" using 2 by simp
    have bs: "buildSuffix b" "buildSuffix b'" using a by simp_all
    show "renderPre ids @ b = [] \<or> \<not> isDigitByte (hd (renderPre ids @ b))"
      by (rule hdp [OF buildSuffix_hd [OF bs(1)]])
    show "renderPre ids' @ b' = [] \<or> \<not> isDigitByte (hd (renderPre ids' @ b'))"
      by (rule hdp [OF buildSuffix_hd [OF bs(2)]])
  qed
  have np: "CHR ''+'' \<notin> set (renderPre i)" if "\<forall>q \<in> set i. q \<noteq> [] \<and> (\<forall>x \<in> set q. isIdByte x)" for i
    using that joinWith_ids_not_plus [of i] by (auto simp: renderPre_def)
  have 4: "renderPre ids = renderPre ids' \<and> b = b'"
    using a 3 np buildSuffix_hd by (intro plus_split_unique) auto
  with 1 2 3 a renderPre_inject [of ids ids'] show ?thesis by blast
qed

definition semverCaps :: "string \<Rightarrow> string \<Rightarrow> string \<Rightarrow> string list \<Rightarrow> caps" where
  "semverCaps M m p ids =
     (if ids = [] then [] else [(4, joinWith ''.'' ids)]) @ [(3, p), (2, m), (1, M)]"

lemma md_semverRE:
  "md semverRE s [] c \<longleftrightarrow> (\<exists>M m p ids b. semverSplit s M m p ids b \<and> c = semverCaps M m p ids)"
  (is "?L \<longleftrightarrow> ?R")
proof
  assume ?L
  then obtain M m p pre b where s: "s = M @ ''.'' @ m @ ''.'' @ p @ pre @ b"
    and num: "canonicalDec M" "canonicalDec m" "canonicalDec p"
    and pre: "(pre = [] \<and> c = [(3, p), (2, m), (1, M)]) \<or>
       (\<exists>w. pre = CHR ''-'' # w \<and> c = (4, w) # [(3, p), (2, m), (1, M)] \<and> idsText w)"
    and b: "b = [] \<or> (\<exists>w. b = CHR ''+'' # w \<and> idsText w)"
    unfolding semverRE_def md_Cat_chr md_Cat_iff [of "Grp _ _"] md_Cat_iff [of "opt _"] md_Grp_iff
      md_opt_iff md_semverNumRE md_semverIdsRE
    by clarsimp metis
  have bs: "buildSuffix b" using b by (auto simp: buildSuffix_def idsText_def)
  obtain ids where "pre = renderPre ids" "\<forall>q \<in> set ids. q \<noteq> [] \<and> (\<forall>x \<in> set q. isIdByte x)"
    "c = semverCaps M m p ids"
  proof (cases "pre = []")
    case True
    then show ?thesis using pre that [of "[]"] by (auto simp: renderPre_def semverCaps_def)
  next
    case False
    with pre obtain w where w: "pre = CHR ''-'' # w" "c = (4, w) # [(3, p), (2, m), (1, M)]" "idsText w"
      by blast
    then obtain ids where "ids \<noteq> []" "w = joinWith ''.'' ids"
      "\<forall>q \<in> set ids. q \<noteq> [] \<and> (\<forall>x \<in> set q. isIdByte x)"
      unfolding idsText_def by blast
    with w show ?thesis by (intro that [of ids]) (simp_all add: renderPre_def semverCaps_def)
  qed
  with s num bs have "semverSplit s M m p ids b \<and> c = semverCaps M m p ids"
    by (simp add: semverSplit_def)
  then show ?R by blast
next
  assume ?R
  then obtain M m p ids b where a: "semverSplit s M m p ids b" "c = semverCaps M m p ids" by blast
  let ?c3 = "[(3, p), (2, m), (1, M)]"
  have ids: "md (opt (Cat (chr (CHR ''-'')) (Grp 4 semverIdsRE))) (renderPre ids) ?c3 c"
  proof (cases "ids = []")
    case True
    then show ?thesis using a by (simp add: md_opt_iff renderPre_def semverCaps_def)
  next
    case False
    then have "md semverIdsRE (joinWith ''.'' ids) ?c3 ?c3"
      using a by (auto simp: md_semverIdsRE idsText_def semverSplit_def)
    with False a show ?thesis
      by (simp add: md_opt_iff renderPre_def semverCaps_def md_Grp_iff)
  qed
  have b: "md (opt (Cat (chr (CHR ''+'')) semverIdsRE)) b c c"
    using a by (auto simp: md_opt_iff semverSplit_def buildSuffix_def md_semverIdsRE idsText_def)
  have n: "md (Grp 1 semverNumRE) M [] [(1, M)]" "md (Grp 2 semverNumRE) m [(1, M)] [(2, m), (1, M)]"
    "md (Grp 3 semverNumRE) p [(2, m), (1, M)] ?c3"
    using a by (auto simp: md_Grp_iff md_semverNumRE semverSplit_def)
  have dot: "md (chr (CHR ''.'')) [CHR ''.''] c c" for c by simp
  have "md semverRE (M @ [CHR ''.''] @ m @ [CHR ''.''] @ p @ renderPre ids @ b) [] c"
    unfolding semverRE_def by (intro md_Cat [OF n(1)] md_Cat [OF n(2)] md_Cat [OF n(3)] md_Cat [OF ids b] md_Cat [OF dot])
  with a show ?L by (simp add: semverSplit_def)
qed

lemma fullMatch_semverRE:
  "fullMatch semverRE s = Some c \<longleftrightarrow> (\<exists>M m p ids b. semverSplit s M m p ids b \<and> c = semverCaps M m p ids)"
proof
  assume "fullMatch semverRE s = Some c"
  then show "\<exists>M m p ids b. semverSplit s M m p ids b \<and> c = semverCaps M m p ids"
    using fullMatch_md md_semverRE by blast
next
  assume "\<exists>M m p ids b. semverSplit s M m p ids b \<and> c = semverCaps M m p ids"
  then obtain M m p ids b where a: "semverSplit s M m p ids b" "c = semverCaps M m p ids" by blast
  show "fullMatch semverRE s = Some c"
  proof (rule fullMatch_unique)
    show "md semverRE s [] c" using a md_semverRE by blast
    show "c' = c" if "md semverRE s [] c'" for c'
      using that a semverSplit_unique [OF a(1)] unfolding md_semverRE by blast
  qed
qed

lemma group_semverCaps:
  "group (semverCaps M m p ids) (Suc 0) = M" "group (semverCaps M m p ids) 2 = m"
  "group (semverCaps M m p ids) 3 = p"
  "group (semverCaps M m p ids) 4 = (if ids = [] then '''' else joinWith ''.'' ids)"
  by (auto simp: semverCaps_def group_def)

lemma wfIdent_iff:
  "wfIdent q \<longleftrightarrow> q \<noteq> [] \<and> (\<forall>x \<in> set q. isIdByte x) \<and> \<not> (isDigits q \<and> length q > 1 \<and> hd q = CHR ''0'')"
  by (cases q) (auto simp: wfIdent_def canonicalDec_def isDigits_def)

lemma parseSemver_split:
  assumes "semverSplit s M m p ids b"
  shows "parseSemver s = (if \<forall>q \<in> set ids. wfIdent q
     then Some \<lparr>svMajor = M, svMinor = m, svPatch = p, svPre = ids\<rparr> else None)"
proof -
  have f: "fullMatch semverRE s = Some (semverCaps M m p ids)"
    using assms fullMatch_semverRE by blast
  show ?thesis
  proof (cases "ids = []")
    case True
    with f show ?thesis by (simp add: parseSemver_def group_semverCaps)
  next
    case False
    have ids: "\<forall>q \<in> set ids. q \<noteq> [] \<and> (\<forall>x \<in> set q. isIdByte x)"
      using assms by (simp add: semverSplit_def)
    have sp: "splitOn (CHR ''.'') (joinWith ''.'' ids) = ids"
      using False ids idByte_not_special by (intro splitOn_joinWith) auto
    have ne: "joinWith ''.'' ids \<noteq> ''''"
      using False ids by (cases ids) (auto simp: joinWith_concat)
    have w: "(\<exists>id \<in> set ids. isDigits id \<and> length id > 1 \<and> hd id = CHR ''0'') \<longleftrightarrow> \<not> (\<forall>q \<in> set ids. wfIdent q)"
      using ids wfIdent_iff by blast
    show ?thesis
      unfolding parseSemver_def f option.case Let_def group_semverCaps One_nat_def
      using False sp ne w by simp
  qed
qed

text \<open>
  C38. What \<open>parseSemver\<close> accepts, and what it returns: exactly the texts that render a well formed
  version, followed by an optional build part that is dropped. In particular the result renders
  back to the text it was read from, and a version has one reading only.
\<close>

theorem parseSemver_iff:
  "parseSemver s = Some v \<longleftrightarrow> wfSemver v \<and> (\<exists>b. buildSuffix b \<and> s = renderSemver v @ b)"
proof
  assume p: "parseSemver s = Some v"
  then obtain c where "fullMatch semverRE s = Some c" by (auto simp: parseSemver_def split: option.splits)
  then obtain M m q ids b where sp: "semverSplit s M m q ids b" using fullMatch_semverRE by blast
  then have v: "(\<forall>q \<in> set ids. wfIdent q)" "v = \<lparr>svMajor = M, svMinor = m, svPatch = q, svPre = ids\<rparr>"
    using p parseSemver_split [OF sp] by (auto split: if_splits)
  with sp show "wfSemver v \<and> (\<exists>b. buildSuffix b \<and> s = renderSemver v @ b)"
    by (auto simp: wfSemver_def semverSplit_def renderSemver_def)
next
  assume "wfSemver v \<and> (\<exists>b. buildSuffix b \<and> s = renderSemver v @ b)"
  then obtain b where w: "wfSemver v" and b: "buildSuffix b" "s = renderSemver v @ b" by blast
  then have "semverSplit s (svMajor v) (svMinor v) (svPatch v) (svPre v) b"
    by (auto simp: wfSemver_def semverSplit_def renderSemver_def wfIdent_def)
  from parseSemver_split [OF this] w show "parseSemver s = Some v" by (auto simp: wfSemver_def)
qed

subsection \<open>The PEP 440 order\<close>

text \<open>Comparing releases is the item order on the two lists padded with zeros to one length.\<close>

definition padTo :: "nat \<Rightarrow> string list \<Rightarrow> string list" where
  "padTo n xs = xs @ replicate (n - length xs) ''0''"

lemma cmpRelease_padTo:
  "length xs \<le> n \<Longrightarrow> length ys \<le> n \<Longrightarrow> cmpRelease xs ys = lexCmp cmpNum (padTo n xs) (padTo n ys)"
proof (induction xs ys arbitrary: n rule: cmpRelease.induct)
  case 1
  then show ?case by (simp add: num_order.lexCmp_refl list_all_True)
next
  case (2 x xs)
  then show ?case by (cases n) (auto simp: padTo_def)
next
  case (3 y ys)
  then show ?case by (cases n) (auto simp: padTo_def)
next
  case (4 x xs y ys)
  then show ?case by (cases n) (auto simp: padTo_def)
qed

lemma comparison_cmpRelease: "comparison cmpRelease (\<lambda>_. True)"
proof
  show "cmpRelease a b \<in> {-1, 0, 1}" for a b
    using cmpRelease_padTo [of a "max (length a) (length b)" b] num_order.lexCmp_range by simp
  show "cmpRelease a a = 0" for a
    using cmpRelease_padTo [of a "length a" a] by (simp add: num_order.lexCmp_refl list_all_True)
  show "cmpRelease b a = - cmpRelease a b" for a b
    using cmpRelease_padTo [of a "max (length a) (length b)" b]
      cmpRelease_padTo [of b "max (length a) (length b)" a]
      num_order.lexCmp_antisym [OF list_all_True list_all_True,
        of "padTo (max (length a) (length b)) a" "padTo (max (length a) (length b)) b"] by simp
  show "cmpRelease a c \<le> 0" if "cmpRelease a b \<le> 0" "cmpRelease b c \<le> 0" for a b c
  proof -
    let ?n = "max (length a) (max (length b) (length c))"
    have "length a \<le> ?n" "length b \<le> ?n" "length c \<le> ?n" by linarith+
    then have "cmpRelease a b = lexCmp cmpNum (padTo ?n a) (padTo ?n b)"
      "cmpRelease b c = lexCmp cmpNum (padTo ?n b) (padTo ?n c)"
      "cmpRelease a c = lexCmp cmpNum (padTo ?n a) (padTo ?n c)"
      using cmpRelease_padTo by blast+
    with that show ?thesis
      using num_order.lexCmp_trans [OF list_all_True list_all_True list_all_True] by metis
  qed
qed

lemma comparison_cmpOrdered: "comparison cmpOrdered (\<lambda>_. True)"
proof -
  have "comparison (cmpThen (\<lambda>a b. cmpInt (onRank a) (onRank b))
      (cmpThen (\<lambda>a b. cmpInt (onKind a) (onKind b)) (\<lambda>a b. cmpNum (onN a) (onN b)))) (\<lambda>_::orderedNum. True)"
    by (intro comparison_cmpThen comparison_image [OF comparison_cmpInt, where f = onRank]
        comparison_image [OF comparison_cmpInt, where f = onKind]
        comparison_image [OF comparison_cmpNum, where f = onN]) auto
  then show ?thesis by (rule comparison_cong) (auto simp: cmpOrdered_def cmpThen_def cmpInt_def)
qed

text \<open>The order of two segments of a local label, and of two labels.\<close>

definition cmpSegment :: "string \<Rightarrow> string \<Rightarrow> int" where
  "cmpSegment x y =
     (if isDigits x \<and> isDigits y then cmpNum (trimZeros x) (trimZeros y)
      else if isDigits x then 1 else if isDigits y then -1 else strCompare x y)"

lemma comparison_cmpSegment: "comparison cmpSegment (\<lambda>_. True)"
proof -
  have "comparison (cmpThen (\<lambda>a b. cmpInt (if isDigits a then 1 else 0) (if isDigits b then 1 else 0))
     (cmpThen (\<lambda>a b. cmpNum (if isDigits a then trimZeros a else '''') (if isDigits b then trimZeros b else ''''))
       (\<lambda>a b. strCompare (if isDigits a then '''' else a) (if isDigits b then '''' else b))))
     (\<lambda>_. True)"
    by (intro comparison_cmpThen comparison_image [OF comparison_cmpInt, where f = "\<lambda>a. if isDigits a then 1 else 0"]
        comparison_image [OF comparison_cmpNum, where f = "\<lambda>a. if isDigits a then trimZeros a else ''''"]
        comparison_image [OF comparison_strCompare, where f = "\<lambda>a. if isDigits a then '''' else a"]) auto
  then show ?thesis
    by (rule comparison_cong)
      (auto simp: cmpSegment_def cmpThen_def cmpInt_def cmpNum_def strCompare_def)
qed

lemma cmpLocalLoop_lexCmp:
  "int la - int (length xs) = int lb - int (length ys) \<Longrightarrow> cmpLocalLoop la lb xs ys = lexCmp cmpSegment xs ys"
proof (induction la lb xs ys rule: cmpLocalLoop.induct)
  case (1 la lb x xs y ys)
  then show ?case by (auto simp: cmpSegment_def)
next
  case (2 la lb ys)
  then show ?case by (cases ys) (auto simp: cmpNum_itoa cmpInt_def)
next
  case (3 la lb x xs)
  then show ?case by (auto simp: cmpNum_itoa cmpInt_def)
qed

lemma cmpLocal_lexCmp: "cmpLocal a b = lexCmp cmpSegment a b"
proof -
  consider "a = [] \<or> b = []" | "a \<noteq> []" "b \<noteq> []" by blast
  then show ?thesis
  proof cases
    case 1
    then show ?thesis by (cases a; cases b) (auto simp: cmpLocal_def)
  next
    case 2
    then show ?thesis by (simp add: cmpLocal_def cmpLocalLoop_lexCmp)
  qed
qed

lemma comparison_cmpLocal: "comparison cmpLocal (\<lambda>_. True)"
proof -
  have "comparison (lexCmp cmpSegment) (\<lambda>_. True)"
    by (rule comparison_mono [OF comparison_lexCmp [OF comparison_cmpSegment]]) (simp add: list_all_True)
  then show ?thesis by (rule comparison_cong) (rule cmpLocal_lexCmp)
qed

lemma comparison_py: "comparison py_compare (\<lambda>_. True)"
proof -
  have "comparison (cmpThen (\<lambda>a b. cmpNum (pyEpoch a) (pyEpoch b))
     (cmpThen (\<lambda>a b. cmpRelease (pyRelease a) (pyRelease b))
       (cmpThen (\<lambda>a b. cmpOrdered (preKey a) (preKey b))
         (cmpThen (\<lambda>a b. cmpOrdered (postKey a) (postKey b))
           (cmpThen (\<lambda>a b. cmpOrdered (devKey a) (devKey b))
             (\<lambda>a b. cmpLocal (pyLocal a) (pyLocal b))))))) (\<lambda>_::pyVersion. True)"
    by (intro comparison_cmpThen comparison_image [OF comparison_cmpNum, where f = pyEpoch]
        comparison_image [OF comparison_cmpRelease, where f = pyRelease]
        comparison_image [OF comparison_cmpOrdered, where f = preKey]
        comparison_image [OF comparison_cmpOrdered, where f = postKey]
        comparison_image [OF comparison_cmpOrdered, where f = devKey]
        comparison_image [OF comparison_cmpLocal, where f = pyLocal]) auto
  then show ?thesis by (rule comparison_cong) (simp add: py_compare_def cmpThen_def)
qed

interpretation release_order: comparison cmpRelease "\<lambda>_. True"
  by (rule comparison_cmpRelease)

interpretation local_order: comparison cmpLocal "\<lambda>_. True"
  by (rule comparison_cmpLocal)

interpretation py_order: comparison py_compare "\<lambda>_. True"
  by (rule comparison_py)

text \<open>Trailing zero segments do not count: the trimmed release is equal to the whole one.\<close>

lemma cmpRelease_butlast_zero: "r \<noteq> [] \<Longrightarrow> last r = ''0'' \<Longrightarrow> cmpRelease (butlast r) r = 0"
proof (induction r)
  case (Cons x r)
  then show ?case by (cases r) (auto simp: num_order.cmp_refl)
qed simp

lemma cmpRelease_trimmed: "cmpRelease (dropTrailingZeros r) r = 0"
proof (induction r rule: dropTrailingZeros.induct)
  case (1 r)
  show ?case
  proof (cases "length r > 1 \<and> last r = ''0''")
    case True
    then have t: "cmpRelease (dropTrailingZeros (butlast r)) (butlast r) = 0" using 1 by blast
    have "r \<noteq> []" using True by (cases r) auto
    then have "cmpRelease (butlast r) r = 0" using True cmpRelease_butlast_zero by blast
    with t have "cmpRelease (dropTrailingZeros (butlast r)) r = 0"
      using release_order.cmp_eq_trans by blast
    moreover have "dropTrailingZeros r = dropTrailingZeros (butlast r)"
      by (subst dropTrailingZeros.simps) (simp only: True if_True simp_thms)
    ultimately show ?thesis by (simp only:)
  next
    case False
    have "dropTrailingZeros r = r" by (subst dropTrailingZeros.simps) (simp only: False if_False)
    then show ?thesis by (simp only: release_order.cmp_refl)
  qed
qed

text \<open>
  The PEP 440 comparison is a total preorder on all parsed versions: it answers -1, 0 or 1,
  swapping the arguments negates the answer, and it is transitive; a release compares equal to the
  same release without its trailing zero segments.
\<close>

lemma py_compare_total_preorder:
  "py_compare a b \<in> {-1, 0, 1} \<and> py_compare b a = - py_compare a b
   \<and> (py_compare a b \<le> 0 \<and> py_compare b c \<le> 0 \<longrightarrow> py_compare a c \<le> 0)
   \<and> py_compare (a\<lparr>pyRelease := trimmedRelease a\<rparr>) a = 0"
proof -
  let ?t = "a\<lparr>pyRelease := trimmedRelease a\<rparr>"
  have "preKey ?t = preKey a" "postKey ?t = postKey a" "devKey ?t = devKey a"
    by (simp_all add: preKey_def postKey_def devKey_def)
  then have "py_compare ?t a = 0"
    using comparison.cmp_refl [OF comparison_cmpOrdered]
    by (simp add: py_compare_def trimmedRelease_def cmpRelease_trimmed num_order.cmp_refl
        local_order.cmp_refl)
  then show ?thesis
    using py_order.cmp_range py_order.cmp_antisym py_order.cmp_trans by blast
qed

end
