(* ===== verification/Maven_Versions.thy ===== *)
theory Maven_Versions
  imports Versions
begin

section \<open>Maven versions and the choice of a scheme\<close>

text \<open>
  \<open>internal/remediation/version_maven.go\<close>, the port of Maven's \<open>ComparableVersion\<close>, and the choice
  of an ordering by scheme in \<open>version.go\<close>. A version is a tree of numbers, qualifiers and nested
  lists. The parser only ever adds to the innermost list, so the lists under construction are a stack:
  the innermost one and, around it, the lists it will be the last item of. The lemmas show that
  comparing is antisymmetric under every scheme, that on dotted numbers it is numeric order, and that
  it is not transitive on all versions.
\<close>

subsection \<open>Items\<close>

datatype mvnItem = MvnInt string | MvnStr string string | MvnList "mvnItem list"

definition mvnQualifiers :: "string list" where
  "mvnQualifiers = [''alpha'', ''beta'', ''milestone'', ''rc'', ''snapshot'', '''', ''sp'']"

definition mvnReleaseIndex :: string where
  "mvnReleaseIndex = ''5''"

fun indexOf :: "string \<Rightarrow> nat \<Rightarrow> string list \<Rightarrow> nat option" where
  "indexOf s i [] = None"
| "indexOf s i (k # ks) = (if k = s then Some i else indexOf s (i + 1) ks)"

definition newMvnString :: "string \<Rightarrow> bool \<Rightarrow> mvnItem" where
  "newMvnString s0 followedByDigit =
     (let s1 = (if followedByDigit \<and> length s0 = 1 then
                  (if s0 = ''a'' then ''alpha'' else if s0 = ''b'' then ''beta'' else if s0 = ''m'' then ''milestone'' else s0)
                else s0);
          s = (if s1 = ''ga'' \<or> s1 = ''final'' \<or> s1 = ''release'' then '''' else if s1 = ''cr'' then ''rc'' else s1);
          q = (case indexOf s 0 mvnQualifiers of Some i \<Rightarrow> [char_of (48 + i)] | None \<Rightarrow> ''7-'' @ s) in
      MvnStr q s)"

definition newMvnInt :: "string \<Rightarrow> mvnItem" where
  "newMvnInt digits = MvnInt (trimZeros digits)"

definition mvnZero :: mvnItem where
  "mvnZero = MvnInt ''0''"

fun isNull :: "mvnItem \<Rightarrow> bool" where
  "isNull (MvnInt num) \<longleftrightarrow> num = ''0''"
| "isNull (MvnStr qual raw) \<longleftrightarrow> qual = mvnReleaseIndex"
| "isNull (MvnList xs) \<longleftrightarrow> xs = []"

fun isMvnList :: "mvnItem \<Rightarrow> bool" where
  "isMvnList (MvnList xs) = True"
| "isMvnList _ = False"

text \<open>\<open>normalize\<close> walks from the last item to the first; here over the reversed list.\<close>

fun normalizeRev :: "mvnItem list \<Rightarrow> mvnItem list" where
  "normalizeRev [] = []"
| "normalizeRev (x # xs) =
     (if isNull x then normalizeRev xs else if isMvnList x then x # normalizeRev xs else x # xs)"

definition normalize :: "mvnItem list \<Rightarrow> mvnItem list" where
  "normalize xs = rev (normalizeRev (rev xs))"

subsection \<open>Comparing\<close>

text \<open>The comparison with a missing item, and the comparison of two items.\<close>

fun cmpNil :: "mvnItem \<Rightarrow> int" and cmpNilList :: "mvnItem list \<Rightarrow> int" where
  "cmpNil (MvnInt num) = (if num = ''0'' then 0 else 1)"
| "cmpNil (MvnStr qual raw) = strCompare qual mvnReleaseIndex"
| "cmpNil (MvnList xs) = cmpNilList xs"
| "cmpNilList [] = 0"
| "cmpNilList (x # xs) = (if cmpNil x \<noteq> 0 then cmpNil x else cmpNilList xs)"

fun mvnCmp :: "mvnItem \<Rightarrow> mvnItem \<Rightarrow> int" and mvnCmpLists :: "mvnItem list \<Rightarrow> mvnItem list \<Rightarrow> int" where
  "mvnCmp (MvnInt a) (MvnInt b) = cmpNum a b"
| "mvnCmp (MvnInt a) (MvnStr q s) = 1"
| "mvnCmp (MvnInt a) (MvnList ys) = 1"
| "mvnCmp (MvnStr p r) (MvnInt b) = -1"
| "mvnCmp (MvnStr p r) (MvnStr q s) = strCompare p q"
| "mvnCmp (MvnStr p r) (MvnList ys) = -1"
| "mvnCmp (MvnList xs) (MvnInt b) = -1"
| "mvnCmp (MvnList xs) (MvnStr q s) = 1"
| "mvnCmp (MvnList xs) (MvnList ys) = mvnCmpLists xs ys"
| "mvnCmpLists [] [] = 0"
| "mvnCmpLists (x # xs) [] = (if cmpNil x \<noteq> 0 then cmpNil x else mvnCmpLists xs [])"
| "mvnCmpLists [] (y # ys) = (if - cmpNil y \<noteq> 0 then - cmpNil y else mvnCmpLists [] ys)"
| "mvnCmpLists (x # xs) (y # ys) = (if mvnCmp x y \<noteq> 0 then mvnCmp x y else mvnCmpLists xs ys)"

subsection \<open>Which texts are versions\<close>

text \<open>The runes of a text, \<open>None\<close> when it is not valid UTF-8.\<close>

definition cont :: "nat \<Rightarrow> bool" where
  "cont b \<longleftrightarrow> 128 \<le> b \<and> b \<le> 191"

fun utf8Runes :: "nat list \<Rightarrow> nat list option" where
  "utf8Runes [] = Some []"
| "utf8Runes (a # bs) =
     (if a < 128 then map_option (Cons a) (utf8Runes bs)
      else (case bs of
          [] \<Rightarrow> None
        | b # cs \<Rightarrow>
            if 194 \<le> a \<and> a \<le> 223 \<and> cont b then map_option (Cons ((a - 192) * 64 + (b - 128))) (utf8Runes cs)
            else (case cs of
                [] \<Rightarrow> None
              | c # ds \<Rightarrow>
                  if 224 \<le> a \<and> a \<le> 239 \<and> (if a = 224 then 160 else 128) \<le> b \<and> b \<le> (if a = 237 then 159 else 191) \<and> cont c
                  then map_option (Cons ((a - 224) * 4096 + (b - 128) * 64 + (c - 128))) (utf8Runes ds)
                  else (case ds of
                      [] \<Rightarrow> None
                    | d # es \<Rightarrow>
                        if 240 \<le> a \<and> a \<le> 244 \<and> (if a = 240 then 144 else 128) \<le> b \<and> b \<le> (if a = 244 then 143 else 191) \<and> cont c \<and> cont d
                        then map_option (Cons ((a - 240) * 262144 + (b - 128) * 4096 + (c - 128) * 64 + (d - 128))) (utf8Runes es)
                        else None))))"

definition isSpaceRune :: "nat \<Rightarrow> bool" where
  "isSpaceRune r \<longleftrightarrow> (9 \<le> r \<and> r \<le> 13) \<or> r = 32 \<or> r = 133 \<or> r = 160 \<or> r = 5760 \<or> (8192 \<le> r \<and> r \<le> 8202)
     \<or> r = 8232 \<or> r = 8233 \<or> r = 8239 \<or> r = 8287 \<or> r = 12288"

definition isControlRune :: "nat \<Rightarrow> bool" where
  "isControlRune r \<longleftrightarrow> r < 32 \<or> (127 \<le> r \<and> r \<le> 159)"

definition maxMavenVersionBytes :: nat where
  "maxMavenVersionBytes = 128"

definition mavenVersionOK :: "string \<Rightarrow> bool" where
  "mavenVersionOK s =
     (if s = '''' \<or> length s > maxMavenVersionBytes then False
      else (case utf8Runes (map of_char s) of
          None \<Rightarrow> False
        | Some rs \<Rightarrow> \<not> (\<exists>r \<in> set rs. isSpaceRune r \<or> isControlRune r)))"

subsection \<open>Parsing\<close>

record mvn_parser =
  mpList :: "mvnItem list"
  mpOuter :: "mvnItem list list"
  mpIsDigit :: bool
  mpText :: string

definition mpPush :: "mvn_parser \<Rightarrow> mvn_parser" where
  "mpPush p = p\<lparr>mpList := [], mpOuter := mpList p # mpOuter p\<rparr>"

definition mpAdd :: "mvnItem \<Rightarrow> mvn_parser \<Rightarrow> mvn_parser" where
  "mpAdd it p = p\<lparr>mpList := mpList p @ [it], mpText := []\<rparr>"

definition mpItem :: "bool \<Rightarrow> string \<Rightarrow> mvnItem" where
  "mpItem digit text = (if digit then newMvnInt text else newMvnString text False)"

definition mpStep :: "mvn_parser \<Rightarrow> char \<Rightarrow> mvn_parser" where
  "mpStep p c =
     (if c = CHR ''.'' then mpAdd (if mpText p = [] then mvnZero else mpItem (mpIsDigit p) (mpText p)) p
      else if c = CHR ''-'' then mpPush (mpAdd (if mpText p = [] then mvnZero else mpItem (mpIsDigit p) (mpText p)) p)
      else if isDigitByte c then
        (let p1 = (if \<not> mpIsDigit p \<and> mpText p \<noteq> [] then
                     (let p0 = (if mpList p \<noteq> [] then mpPush p else p) in mpPush (mpAdd (newMvnString (mpText p) True) p0))
                   else p) in
         p1\<lparr>mpIsDigit := True, mpText := mpText p1 @ [c]\<rparr>)
      else
        (let p1 = (if mpIsDigit p \<and> mpText p \<noteq> [] then mpPush (mpAdd (newMvnInt (mpText p)) p) else p) in
         p1\<lparr>mpIsDigit := False, mpText := mpText p1 @ [c]\<rparr>))"

definition mpEnd :: "mvn_parser \<Rightarrow> mvn_parser" where
  "mpEnd p =
     (if mpText p \<noteq> [] then
        (let p0 = (if \<not> mpIsDigit p \<and> mpList p \<noteq> [] then mpPush p else p) in mpAdd (mpItem (mpIsDigit p) (mpText p)) p0)
      else p)"

text \<open>Closing the lists from the innermost outwards, each normalized before the one around it.\<close>

definition mpClose :: "mvn_parser \<Rightarrow> mvnItem list" where
  "mpClose p = foldl (\<lambda>child outer. normalize (outer @ [MvnList child])) (normalize (mpList p)) (mpOuter p)"

definition parseMavenVersion :: "string \<Rightarrow> mvnItem option" where
  "parseMavenVersion s =
     (if \<not> mavenVersionOK s then None
      else Some (MvnList (mpClose (mpEnd (foldl mpStep \<lparr>mpList = [], mpOuter = [], mpIsDigit = False, mpText = []\<rparr> (toLower s))))))"

subsection \<open>Reading a version\<close>

fun mvnPrerelease :: "mvnItem \<Rightarrow> bool" where
  "mvnPrerelease (MvnInt num) = False"
| "mvnPrerelease (MvnStr qual raw) \<longleftrightarrow> qual < mvnReleaseIndex"
| "mvnPrerelease (MvnList xs) = list_ex mvnPrerelease xs"

definition mavenIsPrerelease :: "string \<Rightarrow> bool" where
  "mavenIsPrerelease v = (case parseMavenVersion v of None \<Rightarrow> False | Some root \<Rightarrow> mvnPrerelease root)"

definition mavenMajor :: "string \<Rightarrow> string option" where
  "mavenMajor v = (let ds = takeWhile isDigitByte v in if ds = '''' then None else Some (trimZeros ds))"

definition mavenFlavor :: "string \<Rightarrow> string" where
  "mavenFlavor v =
     (case lastIndexByte v (CHR ''-'') of
        None \<Rightarrow> ''''
      | Some i \<Rightarrow>
          if i = 0 \<or> i = length v - 1 then ''''
          else (let suffix = toLower (drop (i + 1) v) in
            if \<exists>c \<in> set suffix. \<not> isLowerByte c then ''''
            else (case newMvnString suffix False of
                MvnStr qual raw \<Rightarrow> if qual \<le> ''6'' then '''' else suffix
              | _ \<Rightarrow> suffix)))"

subsection \<open>The schemes\<close>

datatype scheme = schemeSemver | schemePEP440 | schemeGo | schemeMaven

datatype parsed_version = VSemver semver | VPy pyVersion | VMaven mvnItem

definition parseVersion :: "scheme \<Rightarrow> string \<Rightarrow> parsed_version option" where
  "parseVersion sc s =
     (case sc of
        schemePEP440 \<Rightarrow> map_option VPy (parsePEP440 s)
      | schemeGo \<Rightarrow> map_option VSemver (parseSemver (trimPrefix s ''v''))
      | schemeMaven \<Rightarrow> map_option VMaven (parseMavenVersion s)
      | schemeSemver \<Rightarrow> map_option VSemver (parseSemver s))"

text \<open>Versions of different schemes are never compared; the type assertion of the code would panic.\<close>

fun versionCompare :: "parsed_version \<Rightarrow> parsed_version \<Rightarrow> int option" where
  "versionCompare (VSemver a) (VSemver b) = Some (semver_compare a b)"
| "versionCompare (VPy a) (VPy b) = Some (py_compare a b)"
| "versionCompare (VMaven a) (VMaven b) = Some (mvnCmp a b)"
| "versionCompare _ _ = None"

definition compareVersions :: "scheme \<Rightarrow> string \<Rightarrow> string \<Rightarrow> int option" where
  "compareVersions sc a b =
     (case (parseVersion sc a, parseVersion sc b) of
        (Some va, Some vb) \<Rightarrow> versionCompare va vb
      | _ \<Rightarrow> None)"

subsection \<open>Comparing is antisymmetric\<close>

lemma cmpNil_range: "cmpNil x \<in> {-1, 0, 1}" "cmpNilList xs \<in> {-1, 0, 1}"
  by (induction x and xs rule: cmpNil_cmpNilList.induct) (auto simp: strCompare_def)

lemma mvnCmp_range: "mvnCmp x y \<in> {-1, 0, 1}" "mvnCmpLists xs ys \<in> {-1, 0, 1}"
proof (induction x y and xs ys rule: mvnCmp_mvnCmpLists.induct)
  case (1 a b)
  then show ?case using num_order.cmp_range [of a b] by simp
next
  case (11 x xs)
  then show ?case using cmpNil_range(1) [of x] by auto
next
  case (12 y ys)
  then show ?case using cmpNil_range(1) [of y] by auto
qed (auto simp: strCompare_def)

lemma mvnCmp_antisym: "mvnCmp y x = - mvnCmp x y" "mvnCmpLists ys xs = - mvnCmpLists xs ys"
proof (induction x y and xs ys rule: mvnCmp_mvnCmpLists.induct)
  case (1 a b)
  then show ?case using num_order.cmp_antisym [of a b] by simp
qed (auto simp: strCompare_def)

lemma mvnCmp_refl: "mvnCmp x x = 0"
  using mvnCmp_antisym(1) [of x x] by simp

text \<open>
  Under every scheme comparing two versions is defined exactly when both are versions of the
  scheme, gives -1, 0 or 1, and swapping the versions swaps the sign; so a version equals itself.
\<close>

lemma compareVersions_antisym:
  "(compareVersions sc a b = None \<longleftrightarrow> parseVersion sc a = None \<or> parseVersion sc b = None)
   \<and> (\<forall>c. compareVersions sc a b = Some c \<longrightarrow> c \<in> {-1, 0, 1} \<and> compareVersions sc b a = Some (- c))"
proof -
  have cmp: "\<exists>c. versionCompare va vb = Some c \<and> versionCompare vb va = Some (- c) \<and> c \<in> {-1, 0, 1}"
    if pv: "parseVersion sc a = Some va" "parseVersion sc b = Some vb" for va vb
  proof -
    consider (sem) x y where "va = VSemver x" "vb = VSemver y" | (py) x y where "va = VPy x" "vb = VPy y"
      | (mvn) x y where "va = VMaven x" "vb = VMaven y"
      using pv by (cases sc) (auto simp: parseVersion_def)
    then show ?thesis
    proof cases
      case sem
      then show ?thesis using semver_order.cmp_antisym [of x y] semver_order.cmp_range [of x y] by simp
    next
      case py
      then show ?thesis using py_order.cmp_antisym [of x y] py_order.cmp_range [of x y] by simp
    next
      case mvn
      then show ?thesis using mvnCmp_antisym(1) [where x = x and y = y] mvnCmp_range(1) [of x y] by simp
    qed
  qed
  show ?thesis
    using cmp by (auto simp: compareVersions_def split: option.split) (metis option.inject)+
qed

subsection \<open>Comparing is not transitive\<close>

text \<open>
  The order of Maven versions is not transitive: \<open>1.sp.1\<close> is above \<open>1\<close>, which is above
  \<open>1-alpha\<close>, which is above \<open>1.sp.1\<close>.
\<close>

lemma mavenOrder_cycle:
  "compareVersions schemeMaven ''1.sp.1'' ''1'' = Some 1
   \<and> compareVersions schemeMaven ''1'' ''1-alpha'' = Some 1
   \<and> compareVersions schemeMaven ''1-alpha'' ''1.sp.1'' = Some 1"
proof -
  note run = parseMavenVersion_def mavenVersionOK_def maxMavenVersionBytes_def isSpaceRune_def isControlRune_def toLower_def lowerByte_def
    mpStep_def mpAdd_def mpPush_def mpItem_def mpEnd_def mpClose_def normalize_def newMvnInt_def newMvnString_def mvnQualifiers_def
    trimZeros_def isDigitByte_def less_eq_char_def mvnReleaseIndex_def Let_def
  have c: "char_of (54 :: nat) = CHR ''6''" "char_of (48 :: nat) = CHR ''0''" by code_simp+
  have p: "parseMavenVersion ''1.sp.1'' = Some (MvnList [MvnInt ''1'', MvnStr ''6'' ''sp'', MvnInt ''1''])"
    "parseMavenVersion ''1'' = Some (MvnList [MvnInt ''1''])"
    "parseMavenVersion ''1-alpha'' = Some (MvnList [MvnInt ''1'', MvnList [MvnStr ''0'' ''alpha'']])"
    by (simp_all add: run c)
  show ?thesis by (simp add: compareVersions_def parseVersion_def p cmpNum_def strCompare_def mvnReleaseIndex_def)
qed

subsection \<open>Dotted numbers compare as numbers\<close>

text \<open>Two lists of numbers compared place by place, a missing place being zero.\<close>

fun cmpPadded :: "nat list \<Rightarrow> nat list \<Rightarrow> int" where
  "cmpPadded [] [] = 0"
| "cmpPadded (x # xs) [] = (if x \<noteq> 0 then 1 else cmpPadded xs [])"
| "cmpPadded [] (y # ys) = (if y \<noteq> 0 then -1 else cmpPadded [] ys)"
| "cmpPadded (x # xs) (y # ys) = (if x < y then -1 else if y < x then 1 else cmpPadded xs ys)"

lemma cmpPadded_zeros: "\<forall>z \<in> set zs. z = 0 \<Longrightarrow> cmpPadded zs [] = 0 \<and> cmpPadded [] zs = 0"
  by (induction zs) auto

lemma cmpPadded_append_zeros:
  assumes "\<forall>z \<in> set zs. z = 0"
  shows "cmpPadded (xs @ zs) ys = cmpPadded xs ys" "cmpPadded xs (ys @ zs) = cmpPadded xs ys"
proof -
  have l: "cmpPadded (xs @ zs) ys = cmpPadded xs ys" if z: "\<forall>z \<in> set zs. z = 0" for xs ys zs
    using z
  proof (induction xs ys arbitrary: zs rule: cmpPadded.induct)
    case (3 y ys)
    show ?case
    proof (cases zs)
      case (Cons z zs')
      then have "y = 0 \<Longrightarrow> cmpPadded zs' ys = cmpPadded [] ys" using 3(1) [of zs'] 3(2) by simp
      then show ?thesis using Cons 3(2) by simp
    qed simp
  next
    case 1
    then show ?case using cmpPadded_zeros by simp
  qed auto
  have swap: "cmpPadded ys xs = - cmpPadded xs ys" for xs ys by (induction xs ys rule: cmpPadded.induct) auto
  show "cmpPadded (xs @ zs) ys = cmpPadded xs ys" by (rule l [OF assms])
  show "cmpPadded xs (ys @ zs) = cmpPadded xs ys" using l [OF assms, of ys xs] swap by metis
qed

lemma digits_of: "isDigits d \<Longrightarrow> \<forall>c \<in> set d. isDigitByte c"
  by (simp add: isDigits_def split: if_splits)

lemma trimZeros_zero:
  assumes "isDigits d"
  shows "trimZeros d = ''0'' \<longleftrightarrow> decVal d = 0"
proof -
  have "canonicalDec (trimZeros d)" using canonicalDec_trimZeros digits_of [OF assms] by blast
  moreover have "canonicalDec ''0''" using canonicalDec_trimZeros [of "''0''"] by (simp add: trimZeros_def isDigitByte_def less_eq_char_def)
  ultimately have "cmpNum (trimZeros d) ''0'' = 0 \<longleftrightarrow> decVal (trimZeros d) = decVal ''0''" by (rule cmpNum_zero_decVal(1))
  moreover have "cmpNum x y = 0 \<longleftrightarrow> x = y" for x y by (auto simp: cmpNum_def strCompare_def)
  moreover have "decVal ''0'' = 0" by code_simp
  ultimately show ?thesis by (simp add: decVal_trimZeros)
qed

lemma newMvnInt_null:
  assumes "isDigits d"
  shows "cmpNil (newMvnInt d) = (if decVal d = 0 then 0 else 1)" "isNull (newMvnInt d) \<longleftrightarrow> decVal d = 0" "\<not> isMvnList (newMvnInt d)"
  using trimZeros_zero [OF assms] by (simp_all add: newMvnInt_def)

lemma mvnCmp_numbers:
  assumes "\<forall>d \<in> set as \<union> set bs. isDigits d"
  shows "mvnCmpLists (map newMvnInt as) (map newMvnInt bs) = cmpPadded (map decVal as) (map decVal bs)"
  using assms
proof (induction as bs rule: list_induct2')
  case (4 a as b bs)
  then have "cmpNum (trimZeros a) (trimZeros b) = cmpInt (int (decVal a)) (int (decVal b))"
    by (intro cmpNum_decVal) (auto dest: digits_of)
  with 4 show ?case by (auto simp: newMvnInt_def cmpInt_def)
next
  case (2 a as)
  have "mvnCmpLists (map newMvnInt xs) [] = cmpPadded (map decVal xs) []" if "\<forall>d \<in> set xs. isDigits d" for xs
    using that by (induction xs) (auto simp: newMvnInt_null)
  from this [of "a # as"] show ?case using 2 by simp
next
  case (3 b bs)
  have "mvnCmpLists [] (map newMvnInt xs) = cmpPadded [] (map decVal xs)" if "\<forall>d \<in> set xs. isDigits d" for xs
    using that by (induction xs) (auto simp: newMvnInt_null)
  from this [of "b # bs"] show ?case using 3 by simp
qed simp

lemma normalize_numbers:
  assumes "\<forall>d \<in> set ds. isDigits d"
  shows "\<exists>es zs. ds = es @ zs \<and> (\<forall>z \<in> set zs. decVal z = 0) \<and> normalize (map newMvnInt ds) = map newMvnInt es"
  using assms
proof (induction ds rule: rev_induct)
  case (snoc d ds)
  show ?case
  proof (cases "decVal d = 0")
    case True
    obtain es zs where "ds = es @ zs" "\<forall>z \<in> set zs. decVal z = 0" "normalize (map newMvnInt ds) = map newMvnInt es"
      using snoc by auto
    moreover have "normalize (map newMvnInt (ds @ [d])) = normalize (map newMvnInt ds)"
      using True snoc.prems by (simp add: normalize_def newMvnInt_null)
    ultimately show ?thesis using True by (intro exI [of _ es] exI [of _ "zs @ [d]"]) auto
  next
    case False
    then have "normalize (map newMvnInt (ds @ [d])) = map newMvnInt (ds @ [d])"
      using snoc.prems by (simp add: normalize_def newMvnInt_null)
    then show ?thesis by (intro exI [of _ "ds @ [d]"] exI [of _ "[]"]) simp
  qed
qed (simp add: normalize_def)

lemma utf8Runes_ascii: "\<forall>b \<in> set bs. b < 128 \<Longrightarrow> utf8Runes bs = Some bs"
proof (induction bs)
  case (Cons b bs)
  then have "b < 128" "utf8Runes bs = Some bs" by simp_all
  then show ?case by (simp only: utf8Runes.simps if_True option.map)
qed simp

lemma plain_version_ok:
  assumes "s \<noteq> []" "length s \<le> maxMavenVersionBytes" "\<forall>c \<in> set s. isDigitByte c \<or> c = CHR ''.''"
  shows "mavenVersionOK s" "toLower s = s"
proof -
  have b: "of_char c \<in> {48 .. 57 :: nat} \<or> of_char c = (46 :: nat)" if "c \<in> set s" for c
  proof (cases "c = CHR ''.''")
    case False
    then have "isDigitByte c" using assms(3) that by blast
    then show ?thesis by (simp add: isDigitByte_def less_eq_char_def)
  qed simp
  have "utf8Runes (map of_char s) = Some (map of_char s)" using b by (intro utf8Runes_ascii) force
  moreover have "\<not> (isSpaceRune (of_char c) \<or> isControlRune (of_char c))" if "c \<in> set s" for c
    using b [OF that] by (auto simp: isSpaceRune_def isControlRune_def)
  ultimately show "mavenVersionOK s" using assms(1,2) by (auto simp: mavenVersionOK_def)
  have "lowerByte c = c" if "c \<in> set s" for c
    using b [OF that] by (auto simp: lowerByte_def less_eq_char_def)
  then show "toLower s = s" by (simp add: toLower_def map_idI)
qed

lemma mpStep_digits:
  "\<forall>c \<in> set ds. isDigitByte c \<Longrightarrow> mpIsDigit p \<or> mpText p = [] \<Longrightarrow>
     foldl mpStep p ds = p\<lparr>mpIsDigit := (mpIsDigit p \<or> ds \<noteq> []), mpText := mpText p @ ds\<rparr>"
proof (induction ds arbitrary: p)
  case (Cons c ds)
  have "c \<noteq> CHR ''.''" "c \<noteq> CHR ''-''" using Cons.prems(1) by (auto simp: isDigitByte_def less_eq_char_def)
  then have "mpStep p c = p\<lparr>mpIsDigit := True, mpText := mpText p @ [c]\<rparr>"
    using Cons.prems by (auto simp: mpStep_def Let_def)
  then show ?case using Cons by simp
qed simp

lemma joinWith_snoc: "joinWith sep (p # ps) = p @ concat (map (\<lambda>q. sep @ q) ps)"
  by (induction ps arbitrary: p) simp_all

lemma mpStep_numbers:
  assumes "ds \<noteq> []" "\<forall>d \<in> set ds. isDigits d" "mpIsDigit p \<or> mpList p = []" "mpText p = []" "mpOuter p = []"
  shows "mpEnd (foldl mpStep p (joinWith ''.'' ds)) =
     \<lparr>mpList = mpList p @ map newMvnInt ds, mpOuter = [], mpIsDigit = True, mpText = []\<rparr>"
  using assms
proof (induction ds arbitrary: p)
  case (Cons d ds)
  have d: "isDigits d" "d \<noteq> []" using Cons.prems(2) by (auto simp: isDigits_def)
  show ?case
  proof (cases ds)
    case Nil
    then show ?thesis
      using Cons.prems d by (simp add: mpStep_digits digits_of mpEnd_def Let_def mpAdd_def mpItem_def)
  next
    case (Cons e es)
    define q where "q = p\<lparr>mpIsDigit := True, mpList := mpList p @ [newMvnInt d]\<rparr>"
    have "foldl mpStep p (d @ ''.'') = q"
      using Cons.prems d by (simp add: mpStep_digits digits_of mpStep_def mpAdd_def mpItem_def q_def)
    moreover have "mpEnd (foldl mpStep q (joinWith ''.'' ds)) =
       \<lparr>mpList = mpList q @ map newMvnInt ds, mpOuter = [], mpIsDigit = True, mpText = []\<rparr>"
      using \<open>ds = e # es\<close> Cons.prems by (intro Cons.IH) (auto simp: q_def)
    ultimately show ?thesis using \<open>ds = e # es\<close> by (simp add: q_def)
  qed
qed simp

text \<open>
  On dotted numbers the Maven order is numeric order: both texts are versions, and comparing them
  compares their numbers place by place, whatever their number of digits, with a missing place counting
  as zero.
\<close>

lemma mavenOrder_numeric:
  assumes "as \<noteq> []" "bs \<noteq> []" "\<forall>d \<in> set as \<union> set bs. isDigits d"
    and "length (joinWith ''.'' as) \<le> maxMavenVersionBytes" "length (joinWith ''.'' bs) \<le> maxMavenVersionBytes"
  shows "compareVersions schemeMaven (joinWith ''.'' as) (joinWith ''.'' bs) = Some (cmpPadded (map decVal as) (map decVal bs))"
proof -
  have parse: "parseMavenVersion (joinWith ''.'' ds) = Some (MvnList (normalize (map newMvnInt ds)))"
    if ds: "ds \<noteq> []" "\<forall>d \<in> set ds. isDigits d" "length (joinWith ''.'' ds) \<le> maxMavenVersionBytes" for ds
  proof -
    have "\<forall>c \<in> set (joinWith ''.'' ds). isDigitByte c \<or> c = CHR ''.''" "joinWith ''.'' ds \<noteq> []"
      using ds(1,2) by (cases ds; fastforce simp: joinWith_snoc isDigits_def split: if_splits)+
    then have "mavenVersionOK (joinWith ''.'' ds)" "toLower (joinWith ''.'' ds) = joinWith ''.'' ds"
      using plain_version_ok ds(3) by blast+
    then show ?thesis using mpStep_numbers [OF ds(1,2), of "\<lparr>mpList = [], mpOuter = [], mpIsDigit = False, mpText = []\<rparr>"]
      by (simp add: parseMavenVersion_def mpClose_def)
  qed
  obtain ea za where a: "as = ea @ za" "\<forall>z \<in> set za. decVal z = 0" "normalize (map newMvnInt as) = map newMvnInt ea"
    using normalize_numbers [of as] assms(3) by auto
  obtain eb zb where b: "bs = eb @ zb" "\<forall>z \<in> set zb. decVal z = 0" "normalize (map newMvnInt bs) = map newMvnInt eb"
    using normalize_numbers [of bs] assms(3) by auto
  have "mvnCmpLists (map newMvnInt ea) (map newMvnInt eb) = cmpPadded (map decVal ea) (map decVal eb)"
    using assms(3) a(1) b(1) by (intro mvnCmp_numbers) auto
  also have "\<dots> = cmpPadded (map decVal as) (map decVal bs)"
    using a(1,2) b(1,2) cmpPadded_append_zeros [of "map decVal za"] cmpPadded_append_zeros [of "map decVal zb"] by simp
  finally show ?thesis using assms parse a(3) b(3) by (simp add: compareVersions_def parseVersion_def)
qed

end
