(* ===== verification/Inventory.thy ===== *)
theory Inventory
  imports Go_Regexp
begin

section \<open>The vocabulary of observed images and workloads\<close>

text \<open>
  Package \<open>internal/inventory\<close>: digests and entity keys (\<open>identity.go\<close>), image references
  (\<open>reference.go\<close>), running images (\<open>image.go\<close>), containers and workload keys
  (\<open>workload.go\<close>, \<open>kubernetes_key.go\<close>), environment names (\<open>environment.go\<close>) and package
  identities (\<open>package_ref.go\<close>). The string-typed enumerations stay strings, as in the sources,
  because values outside the enumeration occur and are rejected by code. A Go error is
  \<^const>\<open>None\<close> (its text is not modelled) and \<open>(v, ok)\<close> results are options.
\<close>

subsection \<open>Digests and entity keys (identity.go)\<close>

definition DigestUnknown :: string where "DigestUnknown = ''''"
definition DigestConfig :: string where "DigestConfig = ''config''"
definition DigestRegistry :: string where "DigestRegistry = ''registry''"

definition isHexByte :: "char \<Rightarrow> bool" where
  "isHexByte c \<longleftrightarrow> isDigitByte c \<or> (CHR ''a'' \<le> c \<and> c \<le> CHR ''f'')"

definition digestPattern :: re where
  "digestPattern = Cat (lit ''sha256:'') (repeated 64 (Cls isHexByte))"

record digest =
  dgKind :: string
  dgAlgorithm :: string
  dgHex :: string

definition zeroDigest :: digest where
  "zeroDigest = \<lparr>dgKind = DigestUnknown, dgAlgorithm = '''', dgHex = ''''\<rparr>"

definition Digest_Valid :: "digest \<Rightarrow> bool" where
  "Digest_Valid d =
     (if dgKind d \<noteq> DigestConfig \<and> dgKind d \<noteq> DigestRegistry then False
      else if dgAlgorithm d \<noteq> ''sha256'' then False
      else matchFull digestPattern (dgAlgorithm d @ '':'' @ dgHex d))"

definition Digest_String :: "digest \<Rightarrow> string" where
  "Digest_String d = (if \<not> Digest_Valid d then '''' else dgAlgorithm d @ '':'' @ dgHex d)"

definition ParseDigest :: "string \<Rightarrow> string \<Rightarrow> digest option" where
  "ParseDigest kind s =
     (if \<not> matchFull digestPattern s then None
      else let d = \<lparr>dgKind = kind, dgAlgorithm = ''sha256'', dgHex = drop (length ''sha256:'') s\<rparr>
        in if \<not> Digest_Valid d then None else Some d)"

record registry_ref =
  rrRepository :: string
  rrDigest :: digest

record platform =
  plOS :: string
  plArchitecture :: string
  plVariant :: string

definition zeroPlatform :: platform where
  "zeroPlatform = \<lparr>plOS = '''', plArchitecture = '''', plVariant = ''''\<rparr>"

definition Platform_Known :: "platform \<Rightarrow> bool" where
  "Platform_Known p \<longleftrightarrow> plOS p \<noteq> '''' \<and> plArchitecture p \<noteq> ''''"

record entity_key =
  ekDigest :: digest
  ekPlatform :: platform

definition zeroEntityKey :: entity_key where
  "zeroEntityKey = \<lparr>ekDigest = zeroDigest, ekPlatform = zeroPlatform\<rparr>"

record running_image =
  riRef :: string
  riConfig :: digest
  riRegistry :: registry_ref
  riPlatform :: platform

definition ContentID :: "running_image \<Rightarrow> string" where
  "ContentID r = (if dgKind (riConfig r) \<noteq> DigestConfig then '''' else Digest_String (riConfig r))"

text \<open>\<open>EntityKeyOf\<close>: the key and \<open>ok\<close>; the zero key comes with \<^const>\<open>False\<close>.\<close>

definition EntityKeyOf :: "running_image \<Rightarrow> entity_key \<times> bool" where
  "EntityKeyOf img =
     (if dgKind (riConfig img) = DigestConfig \<and> Digest_Valid (riConfig img)
      then (\<lparr>ekDigest = riConfig img, ekPlatform = zeroPlatform\<rparr>, True)
      else if dgKind (rrDigest (riRegistry img)) = DigestRegistry
           \<and> Digest_Valid (rrDigest (riRegistry img)) \<and> Platform_Known (riPlatform img)
      then (\<lparr>ekDigest = rrDigest (riRegistry img), ekPlatform = riPlatform img\<rparr>, True)
      else (zeroEntityKey, False))"

record image_subject =
  isRef :: string
  isKey :: entity_key
  isResolved :: bool

subsection \<open>Image references (reference.go)\<close>

definition isLowerAlnum :: "char \<Rightarrow> bool" where
  "isLowerAlnum c \<longleftrightarrow> isLowerByte c \<or> isDigitByte c"

definition isAlnum :: "char \<Rightarrow> bool" where
  "isAlnum c \<longleftrightarrow> isLowerByte c \<or> isUpperByte c \<or> isDigitByte c"

definition refPathComponentRE :: re where
  "refPathComponentRE =
     Cat (plus (Cls isLowerAlnum))
       (Star (Cat (altOf [oneOf ''._'', lit ''__'', plus (chr (CHR ''-''))]) (plus (Cls isLowerAlnum))))"

definition isHostByte :: "char \<Rightarrow> bool" where
  "isHostByte c \<longleftrightarrow> isAlnum c \<or> c = CHR ''.'' \<or> c = CHR ''-''"

definition isIPv6Byte :: "char \<Rightarrow> bool" where
  "isIPv6Byte c \<longleftrightarrow> isHexByte c \<or> (CHR ''A'' \<le> c \<and> c \<le> CHR ''F'') \<or> c = CHR '':'' \<or> c = CHR ''.''"

definition refHostRE :: re where
  "refHostRE =
     Cat (Alt (Cat (Cls isAlnum) (opt (Cat (Star (Cls isHostByte)) (Cls isAlnum))))
              (catOf [chr (CHR ''[''), plus (Cls isIPv6Byte), chr (CHR '']'')]))
         (opt (Cat (chr (CHR '':'')) (plus digitRE)))"

definition isTagStartByte :: "char \<Rightarrow> bool" where
  "isTagStartByte c \<longleftrightarrow> isAlnum c \<or> c = CHR ''_''"

definition isTagByte :: "char \<Rightarrow> bool" where
  "isTagByte c \<longleftrightarrow> isAlnum c \<or> c = CHR ''_'' \<or> c = CHR ''.'' \<or> c = CHR ''-''"

definition refTagRE :: re where
  "refTagRE = Cat (Cls isTagStartByte) (upto 127 (Cls isTagByte))"

definition isRegistryHost :: "string \<Rightarrow> bool" where
  "isRegistryHost s \<longleftrightarrow> (\<exists>c \<in> set s. c \<in> set ''.:['') \<or> s = ''localhost''"

text \<open>The part of \<open>splitReference\<close> that takes the digest off the name, and the one for the tag.\<close>

definition cutDigest :: "string \<Rightarrow> (string \<times> string) option" where
  "cutDigest ref =
     (case indexByte ref (CHR ''@'') of
        Some i \<Rightarrow> (let digest = drop (i + 1) ref
                   in if matchFull digestPattern digest then Some (take i ref, digest) else None)
      | None \<Rightarrow> Some (ref, ''''))"

definition cutTag :: "string \<Rightarrow> (string \<times> string) option" where
  "cutTag name =
     (case lastIndexByte name (CHR '':'') of
        Some i \<Rightarrow>
          if CHR ''/'' \<notin> set (drop i name)
          then (let tag = drop (i + 1) name
                in if matchFull refTagRE tag then Some (take i name, tag) else None)
          else Some (name, '''')
      | None \<Rightarrow> Some (name, ''''))"

definition validRepository :: "string \<Rightarrow> bool" where
  "validRepository name =
     (if name = '''' \<or> name = ''sha256'' then False
      else let parts = splitOn (CHR ''/'') name
        in if length parts > 1 \<and> isRegistryHost (hd parts)
           then matchFull refHostRE (hd parts) \<and> (\<forall>p \<in> set (tl parts). matchFull refPathComponentRE p)
           else (\<forall>p \<in> set parts. matchFull refPathComponentRE p))"

definition splitReference :: "string \<Rightarrow> (string \<times> string \<times> string) option" where
  "splitReference ref =
     (if ref = '''' \<or> ref \<noteq> trimSpace ref then None
      else do {
        (name, digest) \<leftarrow> cutDigest ref;
        (repo, tag) \<leftarrow> cutTag name;
        if validRepository repo then Some (repo, tag, digest) else None
      })"

definition RepositoryOf :: "string \<Rightarrow> string option" where
  "RepositoryOf ref = map_option fst (splitReference ref)"

definition TagOf :: "string \<Rightarrow> string" where
  "TagOf ref = (case splitReference ref of None \<Rightarrow> '''' | Some (repo, tag, digest) \<Rightarrow> tag)"

definition DigestOf :: "string \<Rightarrow> string" where
  "DigestOf ref = (case splitReference ref of None \<Rightarrow> '''' | Some (repo, tag, digest) \<Rightarrow> digest)"

definition HasRegistryHost :: "string \<Rightarrow> bool" where
  "HasRegistryHost ref =
     (case RepositoryOf ref of None \<Rightarrow> False
      | Some repo \<Rightarrow> (let parts = splitOn (CHR ''/'') repo
                       in length parts > 1 \<and> isRegistryHost (hd parts)))"

definition repositoryKeyParts :: "string \<Rightarrow> string \<times> string list" where
  "repositoryKeyParts repo =
     (let parts = splitOn (CHR ''/'') repo;
          (host, parts) = (if length parts > 1 \<and> isRegistryHost (hd parts)
                           then (hd parts, tl parts) else (''docker.io'', parts));
          host = (if host = ''index.docker.io'' \<or> host = ''registry-1.docker.io''
                  then ''docker.io'' else host)
      in (host, if host = ''docker.io'' \<and> length parts = 1 then [''library'', hd parts] else parts))"

definition RepositoryKey :: "string \<Rightarrow> string option" where
  "RepositoryKey ref =
     (case RepositoryOf ref of None \<Rightarrow> None
      | Some repo \<Rightarrow> (let (host, parts) = repositoryKeyParts repo
                       in Some (host @ ''/'' @ joinWith ''/'' parts)))"

subsection \<open>Containers and workload keys (workload.go)\<close>

definition WorkloadUnknown :: string where "WorkloadUnknown = ''''"
definition WorkloadCompose :: string where "WorkloadCompose = ''compose''"
definition WorkloadDeployment :: string where "WorkloadDeployment = ''deployment''"
definition WorkloadStatefulSet :: string where "WorkloadStatefulSet = ''statefulset''"
definition WorkloadDaemonSet :: string where "WorkloadDaemonSet = ''daemonset''"
definition WorkloadJob :: string where "WorkloadJob = ''job''"
definition WorkloadCronJob :: string where "WorkloadCronJob = ''cronjob''"
definition WorkloadPod :: string where "WorkloadPod = ''pod''"

record workload =
  wlKind :: string
  wlGroup :: string
  wlName :: string

definition Workload_Known :: "workload \<Rightarrow> bool" where
  "Workload_Known w \<longleftrightarrow> wlKind w \<noteq> WorkloadUnknown"

record declared =
  deRef :: string
  dePullPolicy :: string

record spec_container =
  scName :: string
  scRef :: string
  scKind :: string

record init_observation =
  ioName :: string
  ioHasStatus :: bool
  ioDeclared :: declared
  ioImage :: running_image

record pod_init =
  piContainers :: "init_observation list"
  piSpec :: "spec_container list"

record container =
  ctID :: string
  ctName :: string
  ctWorkload :: workload
  ctImage :: running_image
  ctRuntimeExcluded :: bool
  ctDeclared :: "declared option"
  ctPodInit :: "pod_init option"

text \<open>
  \<open>unicode.IsControl\<close> over the runes of a UTF-8 text, read off its bytes: C0 and DEL are single
  bytes, and the C1 range is the lead byte C2 followed by 80 to 9F (C2 is never a continuation byte).
\<close>

fun hasControl :: "string \<Rightarrow> bool" where
  "hasControl [] = False"
| "hasControl [x] = (of_char x < (0x20::nat) \<or> of_char x = (0x7F::nat))"
| "hasControl (x # y # ys) =
     (of_char x < (0x20::nat) \<or> of_char x = (0x7F::nat)
      \<or> (of_char x = (0xC2::nat) \<and> 0x80 \<le> (of_char y :: nat) \<and> of_char y \<le> (0x9F::nat))
      \<or> hasControl (y # ys))"

definition maxComposeNameBytes :: nat where
  "maxComposeNameBytes = 253"

definition ValidComposeName :: "string \<Rightarrow> bool" where
  "ValidComposeName v = (if v = '''' \<or> length v > maxComposeNameBytes then False else \<not> hasControl v)"

definition WorkloadKey :: "container \<Rightarrow> string" where
  "WorkloadKey c =
     (let w = ctWorkload c in
      if wlKind w = WorkloadCompose then
        (if wlGroup w = '''' \<or> wlName w = '''' then ''''
         else ''compose/'' @ wlGroup w @ ''/'' @ wlName w)
      else if Workload_Known w then
        (case lastIndexByte (ctName c) (CHR ''/'') of
           None \<Rightarrow> ''''
         | Some i \<Rightarrow>
             if i = length (ctName c) - 1 \<or> wlGroup w = '''' \<or> wlName w = '''' then ''''
             else wlKind w @ ''/'' @ wlGroup w @ ''/'' @ wlName w @ ''/'' @ drop (i + 1) (ctName c))
      else if ctName c = '''' then '''' else ''container/'' @ ctName c)"

definition ContainerKeyPrefix :: string where
  "ContainerKeyPrefix = ''container/''"

fun validContainerNameFrom :: "nat \<Rightarrow> string \<Rightarrow> bool" where
  "validContainerNameFrom i [] = True"
| "validContainerNameFrom i (c # cs) =
     (if \<not> isAlnum c \<and> (i = 0 \<or> (c \<noteq> CHR ''_'' \<and> c \<noteq> CHR ''.'' \<and> c \<noteq> CHR ''-'')) then False
      else validContainerNameFrom (Suc i) cs)"

definition ValidContainerName :: "string \<Rightarrow> bool" where
  "ValidContainerName v =
     (if length v < 2 \<or> length v > maxComposeNameBytes then False else validContainerNameFrom 0 v)"

definition ParseContainerKey :: "string \<Rightarrow> string option" where
  "ParseContainerKey key =
     (let (name, ok) = cutPrefix key ContainerKeyPrefix
      in if \<not> ok then None else if \<not> ValidContainerName name then None else Some name)"

subsection \<open>Kubernetes workload keys and environment names\<close>

record kubernetes_workload =
  kwKind :: string
  kwNamespace :: string
  kwName :: string
  kwContainer :: string

definition isLabelByte :: "char \<Rightarrow> bool" where
  "isLabelByte c \<longleftrightarrow> isLowerAlnum c \<or> c = CHR ''-''"

definition dns1123LabelRE :: re where
  "dns1123LabelRE = Cat (Cls isLowerAlnum) (opt (Cat (upto 61 (Cls isLabelByte)) (Cls isLowerAlnum)))"

definition dns1123SubdomainRE :: re where
  "dns1123SubdomainRE =
     (let label = Cat (Cls isLowerAlnum) (opt (Cat (Star (Cls isLabelByte)) (Cls isLowerAlnum)))
      in Cat label (Star (Cat (chr (CHR ''.'')) label)))"

definition kubernetesWorkloadKinds :: "(string, string) gmap" where
  "kubernetesWorkloadKinds =
     [(''deployment'', WorkloadDeployment), (''statefulset'', WorkloadStatefulSet),
      (''daemonset'', WorkloadDaemonSet), (''job'', WorkloadJob),
      (''cronjob'', WorkloadCronJob), (''pod'', WorkloadPod)]"

definition ParseKubernetesWorkloadKey :: "string \<Rightarrow> kubernetes_workload option" where
  "ParseKubernetesWorkloadKey key =
     (case splitOn (CHR ''/'') key of
        [p0, p1, p2, p3] \<Rightarrow>
          (case map_of kubernetesWorkloadKinds p0 of
             None \<Rightarrow> None
           | Some kind \<Rightarrow>
               if \<not> matchFull dns1123LabelRE p1 then None
               else if length p2 > 253 \<or> \<not> matchFull dns1123SubdomainRE p2 then None
               else if \<not> matchFull dns1123LabelRE p3 then None
               else Some \<lparr>kwKind = kind, kwNamespace = p1, kwName = p2, kwContainer = p3\<rparr>)
      | _ \<Rightarrow> None)"

definition ValidDNS1123Subdomain :: "string \<Rightarrow> bool" where
  "ValidDNS1123Subdomain s \<longleftrightarrow> length s \<le> 253 \<and> matchFull dns1123SubdomainRE s"

record environment =
  enName :: string
  enKind :: string

definition ValidateEnvironmentName :: "string \<Rightarrow> bool" where
  "ValidateEnvironmentName name = (if name = '''' then True else matchFull dns1123LabelRE name)"

subsection \<open>Package identities (package-ref.go)\<close>

definition ClassOS :: string where "ClassOS = ''os''"
definition ClassLang :: string where "ClassLang = ''lang''"
definition EcosystemUnknown :: string where "EcosystemUnknown = ''''"

definition knownEcosystems :: "string list" where
  "knownEcosystems =
    [''activestate'', ''alma'', ''alpine'', ''amazon'', ''azurelinux'', ''bottlerocket'',
     ''cbl-mariner'', ''centos'', ''centos-stream'', ''chainguard'', ''coreos'', ''debian'',
     ''echo'', ''fedora'', ''minimos'', ''opensuse'', ''opensuse-leap'',
     ''opensuse-tumbleweed'', ''oracle'', ''photon'', ''redhat'', ''rocky'', ''slem'',
     ''sles'', ''ubuntu'', ''wolfi'', ''bundler'', ''gemspec'', ''cargo'', ''composer'',
     ''composer-vendor'', ''npm'', ''bun'', ''nuget'', ''dotnet-core'', ''packages-props'',
     ''pip'', ''pipenv'', ''poetry'', ''uv'', ''pylock'', ''conda-pkg'', ''conda-environment'',
     ''python-pkg'', ''node-pkg'', ''yarn'', ''pnpm'', ''jar'', ''pom'', ''gradle'', ''sbt'',
     ''gobinary'', ''gomod'', ''javascript'', ''rustbinary'', ''conan'', ''cocoapods'',
     ''swift'', ''pub'', ''hex'', ''bitnami'', ''julia'', ''node-runtime'', ''python-runtime'']"

definition RuntimeVersionEnv :: "string \<Rightarrow> string" where
  "RuntimeVersionEnv e =
     (if e = ''node-runtime'' then ''NODE_VERSION''
      else if e = ''python-runtime'' then ''PYTHON_VERSION'' else '''')"

definition ParseEcosystem :: "string \<Rightarrow> string" where
  "ParseEcosystem trivyType = (if trivyType \<in> set knownEcosystems then trivyType else EcosystemUnknown)"

record package_ref =
  prEcosystem :: string
  prClass :: string
  prName :: string
  prVersion :: string

subsection \<open>Distinct running images (image.go)\<close>

definition lessEntityKey :: "entity_key \<Rightarrow> entity_key \<Rightarrow> bool" where
  "lessEntityKey a b =
     (if dgKind (ekDigest a) \<noteq> dgKind (ekDigest b) then dgKind (ekDigest a) < dgKind (ekDigest b)
      else if dgHex (ekDigest a) \<noteq> dgHex (ekDigest b) then dgHex (ekDigest a) < dgHex (ekDigest b)
      else if plOS (ekPlatform a) \<noteq> plOS (ekPlatform b) then plOS (ekPlatform a) < plOS (ekPlatform b)
      else if plArchitecture (ekPlatform a) \<noteq> plArchitecture (ekPlatform b)
      then plArchitecture (ekPlatform a) < plArchitecture (ekPlatform b)
      else plVariant (ekPlatform a) < plVariant (ekPlatform b))"

fun distinctImagesLoop :: "(string \<times> entity_key) list \<Rightarrow> container list \<Rightarrow> running_image list" where
  "distinctImagesLoop seen [] = []"
| "distinctImagesLoop seen (ct # cts) =
     (let img = ctImage ct in
      if riRef img = '''' then distinctImagesLoop seen cts
      else let k = (riRef img, fst (EntityKeyOf img)) in
        if k \<in> set seen then distinctImagesLoop seen cts
        else img # distinctImagesLoop (k # seen) cts)"

definition lessRunningImage :: "running_image \<Rightarrow> running_image \<Rightarrow> bool" where
  "lessRunningImage a b =
     (if riRef a \<noteq> riRef b then riRef a < riRef b
      else lessEntityKey (fst (EntityKeyOf a)) (fst (EntityKeyOf b)))"

definition DistinctImages :: "container list \<Rightarrow> running_image list" where
  "DistinctImages containers = sortBy lessRunningImage (distinctImagesLoop [] containers)"

subsection \<open>Digests\<close>

lemma digestPattern_iff:
  "matchFull digestPattern s \<longleftrightarrow>
     (\<exists>h. s = ''sha256:'' @ h \<and> length h = 64 \<and> (\<forall>c \<in> set h. isHexByte c))"
  unfolding matchFull_iff digestPattern_def md_Cat_iff md_lit_iff md_repeated_Cls by blast

lemma Digest_Valid_iff:
  "Digest_Valid d \<longleftrightarrow> dgKind d \<in> {DigestConfig, DigestRegistry} \<and> dgAlgorithm d = ''sha256''
     \<and> length (dgHex d) = 64 \<and> (\<forall>c \<in> set (dgHex d). isHexByte c)"
  by (auto simp: Digest_Valid_def digestPattern_iff)

lemma Digest_String_valid: "Digest_Valid d \<Longrightarrow> Digest_String d = ''sha256:'' @ dgHex d"
  by (simp add: Digest_String_def Digest_Valid_iff)

text \<open>
  Parsing and rendering digests are inverse to each other: what \<open>ParseDigest\<close> accepts for one
  of the two kinds is exactly a digest of that kind that is valid and renders to the text parsed,
  and a valid digest is parsed back from its rendering. A kind outside the enumeration is never
  accepted.
\<close>

lemma ParseDigest_iff:
  "ParseDigest kind s = Some d \<longleftrightarrow>
     Digest_Valid d \<and> dgKind d = kind \<and> Digest_String d = s"
proof
  assume a: "ParseDigest kind s = Some d"
  then obtain h where "s = ''sha256:'' @ h" by (auto simp: ParseDigest_def digestPattern_iff split: if_splits)
  with a show "Digest_Valid d \<and> dgKind d = kind \<and> Digest_String d = s"
    by (auto simp: ParseDigest_def Digest_String_valid Let_def split: if_splits)
next
  assume a: "Digest_Valid d \<and> dgKind d = kind \<and> Digest_String d = s"
  then have s: "s = ''sha256:'' @ dgHex d" using Digest_String_valid [of d] by auto
  have "d = \<lparr>dgKind = kind, dgAlgorithm = ''sha256'', dgHex = dgHex d\<rparr>"
    using a by (simp add: Digest_Valid_iff)
  with a s show "ParseDigest kind s = Some d"
    by (auto simp: ParseDigest_def digestPattern_iff Digest_Valid_iff Let_def)
qed

text \<open>An entity key never mixes the two digest kinds and carries a platform only for a registry digest.\<close>

lemma EntityKeyOf_kinds:
  "EntityKeyOf img = (k, True) \<Longrightarrow>
     Digest_Valid (ekDigest k) \<and>
     (dgKind (ekDigest k) = DigestConfig \<and> ekPlatform k = zeroPlatform
      \<or> dgKind (ekDigest k) = DigestRegistry \<and> Platform_Known (ekPlatform k))"
  by (auto simp: EntityKeyOf_def split: if_splits)

subsection \<open>References\<close>

definition isNameByte :: "char \<Rightarrow> bool" where
  "isNameByte c \<longleftrightarrow> \<not> isSpaceByte c \<and> c \<noteq> CHR ''@'' \<and> c \<noteq> CHR ''/''"

lemma lowerAlnum_NameByte: "isLowerAlnum c \<Longrightarrow> isNameByte c \<and> c \<noteq> CHR '':'' \<and> c \<noteq> CHR ''[''"
  by (auto simp: isLowerAlnum_def isNameByte_def isSpaceByte_def isLowerByte_def isDigitByte_def less_eq_char_def)

lemma alnum_NameByte: "isAlnum c \<Longrightarrow> isNameByte c \<and> c \<noteq> CHR '':''"
  by (auto simp: isAlnum_def isNameByte_def isSpaceByte_def isLowerByte_def isUpperByte_def
      isDigitByte_def less_eq_char_def)

lemma special_NameByte: "c \<in> {CHR ''.'', CHR ''_'', CHR ''-'', CHR '':'', CHR ''['', CHR '']''} \<Longrightarrow> isNameByte c"
  by (auto simp: isNameByte_def isSpaceByte_def)

lemma digit_NameByte: "isDigitByte c \<Longrightarrow> isNameByte c"
  using alnum_NameByte by (simp add: isAlnum_def)

lemma hex_alnum: "isHexByte c \<Longrightarrow> isAlnum c"
  by (auto simp: isHexByte_def isAlnum_def isLowerByte_def less_eq_char_def)

lemma hexUpper_alnum: "CHR ''A'' \<le> c \<Longrightarrow> c \<le> CHR ''F'' \<Longrightarrow> isAlnum c"
  by (auto simp: isAlnum_def isUpperByte_def less_eq_char_def)

lemma path_reChars:
  "reChars (\<lambda>c. isNameByte c \<and> c \<noteq> CHR '':'') refPathComponentRE"
  using lowerAlnum_NameByte by (auto simp: refPathComponentRE_def special_NameByte)

lemma host_reChars: "reChars isNameByte refHostRE"
  using alnum_NameByte special_NameByte digit_NameByte hex_alnum hexUpper_alnum
  by (auto simp: refHostRE_def isHostByte_def isIPv6Byte_def)

lemma tag_chars:
  assumes "matchFull refTagRE t"
  shows "t \<noteq> [] \<and> (\<forall>c \<in> set t. isNameByte c \<and> c \<noteq> CHR '':'')"
proof
  show "t \<noteq> []" using assms by (auto simp: matchFull_iff refTagRE_def)
  have "reChars (\<lambda>c. isNameByte c \<and> c \<noteq> CHR '':'') refTagRE"
    using alnum_NameByte special_NameByte
    by (auto simp: refTagRE_def isTagStartByte_def isTagByte_def intro!: reChars_upto)
  then show "\<forall>c \<in> set t. isNameByte c \<and> c \<noteq> CHR '':''"
    using assms matchFull_reChars by blast
qed

lemma path_chars: "matchFull refPathComponentRE p \<Longrightarrow> \<forall>c \<in> set p. isNameByte c \<and> c \<noteq> CHR '':''"
  using matchFull_reChars path_reChars by blast

lemma path_nonempty: "matchFull refPathComponentRE p \<Longrightarrow> p \<noteq> []"
  by (auto simp: matchFull_iff refPathComponentRE_def md_Cat_iff)

lemma host_chars: "matchFull refHostRE h \<Longrightarrow> \<forall>c \<in> set h. isNameByte c"
  using matchFull_reChars host_reChars by blast

lemma validRepository_parts:
  assumes "validRepository name"
  obtains host path where "splitOn (CHR ''/'') name = host # path"
    and "\<forall>c \<in> set host. isNameByte c" and "path = [] \<Longrightarrow> CHR '':'' \<notin> set host"
    and "\<forall>p \<in> set path. matchFull refPathComponentRE p"
proof -
  obtain host path where sp: "splitOn (CHR ''/'') name = host # path"
    by (cases "splitOn (CHR ''/'') name") auto
  have "(\<forall>c \<in> set host. isNameByte c) \<and> (path = [] \<longrightarrow> CHR '':'' \<notin> set host)"
    using assms sp path_chars [of host] host_chars [of host]
    by (cases "path = []") (auto simp: validRepository_def Let_def split: if_splits)
  moreover have "\<forall>p \<in> set path. matchFull refPathComponentRE p"
    using assms sp by (auto simp: validRepository_def Let_def split: if_splits)
  ultimately show thesis using that [OF sp] by blast
qed

lemma validRepository_chars:
  assumes "validRepository name"
  shows "\<forall>c \<in> set name. isNameByte c \<or> c = CHR ''/''" and "name \<noteq> []"
proof -
  obtain host path where sp: "splitOn (CHR ''/'') name = host # path"
    and h: "\<forall>c \<in> set host. isNameByte c" and p: "\<forall>p \<in> set path. matchFull refPathComponentRE p"
    using validRepository_parts [OF assms] by metis
  have "\<forall>q \<in> set (host # path). \<forall>c \<in> set q. isNameByte c" using h p path_chars by auto
  moreover have "c \<in> \<Union> (set ` set (host # path))" if "c \<in> set name" "c \<noteq> CHR ''/''" for c
    using set_splitOn [of "CHR ''/''" name] sp that by (metis DiffI singletonD)
  ultimately show "\<forall>c \<in> set name. isNameByte c \<or> c = CHR ''/''" by blast
  show "name \<noteq> []" using assms by (auto simp: validRepository_def)
qed

lemma set_joinWith: "set (joinWith sep ps) \<subseteq> set sep \<union> \<Union> (set ` set ps)"
  by (induction sep ps rule: joinWith.induct) auto

text \<open>A colon of a repository name is a port's and has a slash behind it.\<close>

lemma validRepository_colon:
  assumes "validRepository name" "lastIndexByte name (CHR '':'') = Some i"
  shows "CHR ''/'' \<in> set (drop i name)"
proof -
  obtain host path where sp: "splitOn (CHR ''/'') name = host # path"
    and h: "path = [] \<Longrightarrow> CHR '':'' \<notin> set host" and p: "\<forall>p \<in> set path. matchFull refPathComponentRE p"
    using validRepository_parts [OF assms(1)] by metis
  have name: "name = joinWith [CHR ''/''] (host # path)"
    using joinWith_splitOn [of "CHR ''/''" name] sp by simp
  have colon: "CHR '':'' \<in> set name" using assms(2) lastIndexByte_None_iff [of name "CHR '':''"] by auto
  have "path \<noteq> []" using colon h name by auto
  then have nm: "name = host @ CHR ''/'' # joinWith [CHR ''/''] path"
    using name by (simp add: joinWith_Cons)
  have nc: "CHR '':'' \<notin> set (joinWith [CHR ''/''] path)"
  proof -
    have "CHR '':'' \<notin> set q" if "q \<in> set path" for q
      using p path_chars [of q] that by blast
    then show ?thesis using set_joinWith [of "[CHR ''/'']" path] by auto
  qed
  then have "CHR '':'' \<in> set host" using colon nm by auto
  then obtain a b where hab: "host = a @ CHR '':'' # b" "CHR '':'' \<notin> set b"
    by (meson split_list_last)
  have "name = a @ CHR '':'' # (b @ CHR ''/'' # joinWith [CHR ''/''] path)" using nm hab by simp
  moreover have "CHR '':'' \<notin> set (b @ CHR ''/'' # joinWith [CHR ''/''] path)" using hab nc by simp
  ultimately have "lastIndexByte name (CHR '':'') = Some (length a)"
    using lastIndexByte_append by metis
  then have "drop i name = CHR '':'' # b @ CHR ''/'' # joinWith [CHR ''/''] path"
    using assms(2) nm hab by simp
  then show ?thesis by simp
qed

definition wellFormedParts :: "string \<Rightarrow> string \<Rightarrow> string \<Rightarrow> bool" where
  "wellFormedParts repo tag digest \<longleftrightarrow>
     validRepository repo \<and> (tag = '''' \<or> matchFull refTagRE tag)
       \<and> (digest = '''' \<or> matchFull digestPattern digest)"

definition renderReference :: "string \<Rightarrow> string \<Rightarrow> string \<Rightarrow> string" where
  "renderReference repo tag digest =
     repo @ (if tag = '''' then '''' else CHR '':'' # tag) @ (if digest = '''' then '''' else CHR ''@'' # digest)"

lemma cutDigest_Some:
  "cutDigest ref = Some (name, digest) \<Longrightarrow>
     ref = name @ (if digest = '''' then '''' else CHR ''@'' # digest)
     \<and> (digest = '''' \<or> matchFull digestPattern digest)"
proof (cases "indexByte ref (CHR ''@'')")
  case None
  moreover assume "cutDigest ref = Some (name, digest)"
  ultimately show ?thesis by (simp add: cutDigest_def)
next
  case (Some i)
  assume a: "cutDigest ref = Some (name, digest)"
  have "ref = take i ref @ CHR ''@'' # drop (Suc i) ref"
    using indexByte_Some [OF Some] by (metis id_take_nth_drop)
  moreover have "name = take i ref" "digest = drop (Suc i) ref" "matchFull digestPattern digest"
    using a Some by (auto simp: cutDigest_def Let_def split: if_splits)
  ultimately show ?thesis by (auto simp: digestPattern_iff)
qed

lemma lastIndexByte_Some:
  "lastIndexByte s c = Some i \<Longrightarrow> i < length s \<and> s ! i = c"
  by (induction s arbitrary: i) (auto split: option.splits if_splits)

lemma cutTag_Some:
  "cutTag name = Some (repo, tag) \<Longrightarrow>
     name = repo @ (if tag = '''' then '''' else CHR '':'' # tag) \<and> (tag = '''' \<or> matchFull refTagRE tag)"
proof (cases "lastIndexByte name (CHR '':'')")
  case None
  moreover assume "cutTag name = Some (repo, tag)"
  ultimately show ?thesis by (simp add: cutTag_def)
next
  case (Some i)
  assume a: "cutTag name = Some (repo, tag)"
  have "name = take i name @ CHR '':'' # drop (Suc i) name"
    using lastIndexByte_Some [OF Some] by (metis id_take_nth_drop)
  then show ?thesis
    using a Some tag_chars by (auto simp: cutTag_def Let_def split: if_splits)
qed

lemma trimSpace_id:
  assumes "s \<noteq> []" "\<not> isSpaceByte (hd s)" "\<not> isSpaceByte (last s)"
  shows "trimSpace s = s"
proof -
  have "dropWhile isSpaceByte s = s" using assms by (cases s) auto
  moreover have "dropWhile isSpaceByte (rev s) = rev s"
    using assms by (cases s rule: rev_cases) auto
  ultimately show ?thesis by (simp add: trimSpace_def)
qed

lemma trimSpace_no_space: "(\<forall>c \<in> set s. \<not> isSpaceByte c) \<Longrightarrow> trimSpace s = s"
  by (cases "s = []") (simp add: trimSpace_def, intro trimSpace_id, auto)

lemma cutTag_render:
  assumes "validRepository repo" "tag = '''' \<or> matchFull refTagRE tag"
  shows "cutTag (repo @ (if tag = '''' then '''' else CHR '':'' # tag)) = Some (repo, tag)"
proof (cases "tag = ''''")
  case True
  then show ?thesis
    using validRepository_colon [OF assms(1)]
    by (auto simp: cutTag_def split: option.split)
next
  case False
  then have m: "matchFull refTagRE tag" using assms by simp
  then have "CHR '':'' \<notin> set tag" "CHR ''/'' \<notin> set tag"
    using tag_chars [OF m] by (auto simp: isNameByte_def)
  with m False show ?thesis by (simp add: cutTag_def lastIndexByte_append)
qed

lemma slash_not_space: "\<not> isSpaceByte (CHR ''/'')" "\<not> isSpaceByte (CHR ''@'')" "\<not> isSpaceByte (CHR '':'')"
  by (auto simp: isSpaceByte_def)

lemma digest_chars:
  assumes "matchFull digestPattern d"
  shows "\<forall>c \<in> set d. \<not> isSpaceByte c"
proof -
  obtain h where h: "d = ''sha256:'' @ h" "\<forall>c \<in> set h. isHexByte c"
    using assms by (auto simp: digestPattern_iff)
  have "\<forall>c \<in> set h. \<not> isSpaceByte c"
    using h(2) alnum_NameByte hex_alnum by (auto simp: isNameByte_def)
  then show ?thesis by (simp add: h(1) isSpaceByte_def)
qed

lemma splitReference_render:
  assumes "wellFormedParts repo tag digest"
  shows "splitReference (renderReference repo tag digest) = Some (repo, tag, digest)"
proof -
  let ?name = "repo @ (if tag = '''' then '''' else CHR '':'' # tag)"
  have v: "validRepository repo" and t: "tag = '''' \<or> matchFull refTagRE tag"
    and d: "digest = '''' \<or> matchFull digestPattern digest"
    using assms by (auto simp: wellFormedParts_def)
  have nm: "\<forall>c \<in> set ?name. \<not> isSpaceByte c \<and> c \<noteq> CHR ''@''"
  proof -
    have "\<forall>c \<in> set repo. \<not> isSpaceByte c \<and> c \<noteq> CHR ''@''"
      using validRepository_chars(1) [OF v] slash_not_space by (auto simp: isNameByte_def)
    moreover have "\<forall>c \<in> set tag. \<not> isSpaceByte c \<and> c \<noteq> CHR ''@''"
      using t tag_chars [of tag] by (auto simp: isNameByte_def)
    ultimately show ?thesis using slash_not_space by auto
  qed
  have "cutDigest (renderReference repo tag digest) = Some (?name, digest)"
  proof (cases "digest = ''''")
    case True
    have "CHR ''@'' \<notin> set ?name" using nm by blast
    with True show ?thesis by (simp add: cutDigest_def renderReference_def)
  next
    case False
    then have "renderReference repo tag digest = ?name @ CHR ''@'' # digest"
      by (simp add: renderReference_def)
    moreover have "indexByte (?name @ CHR ''@'' # digest) (CHR ''@'') = Some (length ?name)"
      using nm by (intro indexByte_append) blast
    ultimately show ?thesis using False d by (simp add: cutDigest_def)
  qed
  moreover have "trimSpace (renderReference repo tag digest) = renderReference repo tag digest"
  proof (rule trimSpace_no_space)
    have "\<forall>c \<in> set digest. \<not> isSpaceByte c" using d digest_chars by auto
    then have "\<forall>c \<in> set (if digest = '''' then '''' else CHR ''@'' # digest). \<not> isSpaceByte c"
      using slash_not_space(2) by simp
    with nm show "\<forall>c \<in> set (renderReference repo tag digest). \<not> isSpaceByte c"
      unfolding renderReference_def set_append by blast
  qed
  moreover have "renderReference repo tag digest \<noteq> ''''"
    using validRepository_chars(2) [OF v] by (simp add: renderReference_def)
  ultimately show ?thesis
    using cutTag_render [OF v t] v by (simp add: splitReference_def)
qed

lemma splitReference_parts:
  assumes a: "splitReference ref = Some (repo, tag, digest)"
  shows "wellFormedParts repo tag digest \<and> ref = renderReference repo tag digest"
proof -
  obtain name where 1: "cutDigest ref = Some (name, digest)" and 2: "cutTag name = Some (repo, tag)"
    and 3: "validRepository repo"
    using a by (auto simp: splitReference_def Option.bind_eq_Some_conv split: if_splits)
  with cutDigest_Some [OF 1] cutTag_Some [OF 2] show ?thesis
    by (auto simp: wellFormedParts_def renderReference_def)
qed

lemma splitReference_no_space:
  assumes "splitReference ref = Some (repo, tag, digest)"
  shows "\<forall>c \<in> set ref. \<not> isSpaceByte c"
proof -
  have w: "wellFormedParts repo tag digest" and r: "ref = renderReference repo tag digest"
    using splitReference_parts [OF assms] by auto
  have "\<forall>c \<in> set repo. \<not> isSpaceByte c"
    using validRepository_chars(1) [of repo] w slash_not_space by (auto simp: wellFormedParts_def isNameByte_def)
  moreover have "\<forall>c \<in> set tag. \<not> isSpaceByte c"
    using tag_chars [of tag] w by (auto simp: wellFormedParts_def isNameByte_def)
  moreover have "\<forall>c \<in> set digest. \<not> isSpaceByte c"
    using digest_chars [of digest] w by (auto simp: wellFormedParts_def)
  ultimately show ?thesis using r slash_not_space by (auto simp: renderReference_def)
qed

text \<open>
  C40. Splitting a reference is the inverse of writing one: \<open>splitReference\<close> accepts exactly the
  texts that are a well-formed repository followed by an optional tag and an optional digest, and
  it returns those three parts. A repository is never guessed at, a registry port is never taken
  for a tag, and no reference has two readings.
\<close>

theorem splitReference_iff:
  "splitReference ref = Some (repo, tag, digest) \<longleftrightarrow>
     wellFormedParts repo tag digest \<and> ref = renderReference repo tag digest"
proof
  assume "splitReference ref = Some (repo, tag, digest)"
  then show "wellFormedParts repo tag digest \<and> ref = renderReference repo tag digest"
    by (rule splitReference_parts)
next
  assume "wellFormedParts repo tag digest \<and> ref = renderReference repo tag digest"
  then show "splitReference ref = Some (repo, tag, digest)"
    by (auto intro: splitReference_render)
qed

subsection \<open>Repository keys\<close>

lemma docker_io_host: "matchFull refHostRE ''docker.io''"
  by code_simp

lemma library_component: "matchFull refPathComponentRE ''library''"
  by code_simp

lemma docker_io_registry: "isRegistryHost ''docker.io''"
  by (simp add: isRegistryHost_def)

lemma splitOn_parts_cases:
  obtains p ps where "splitOn c s = p # ps"
  by (cases "splitOn c s") auto

lemma repositoryKeyParts_ok:
  assumes "validRepository repo" "repositoryKeyParts repo = (host, parts)"
  shows "matchFull refHostRE host \<and> isRegistryHost host \<and> parts \<noteq> []
    \<and> (\<forall>p \<in> set parts. matchFull refPathComponentRE p)
    \<and> host \<noteq> ''index.docker.io'' \<and> host \<noteq> ''registry-1.docker.io''
    \<and> \<not> (host = ''docker.io'' \<and> length parts = 1)"
proof -
  obtain p ps where sp: "splitOn (CHR ''/'') repo = p # ps" by (rule splitOn_parts_cases)
  show ?thesis
  proof (cases "ps \<noteq> [] \<and> isRegistryHost p")
    case True
    then have "matchFull refHostRE p" "\<forall>q \<in> set ps. matchFull refPathComponentRE q"
      using assms(1) sp by (auto simp: validRepository_def Let_def split: if_splits)
    with True assms(2) sp show ?thesis
      by (auto simp: repositoryKeyParts_def Let_def docker_io_host docker_io_registry
          library_component hd_in_set split: if_splits)
  next
    case False
    then have "\<forall>q \<in> set (p # ps). matchFull refPathComponentRE q"
      using assms(1) sp by (auto simp: validRepository_def Let_def split: if_splits)
    moreover have "host = ''docker.io''" "parts = (if ps = [] then [''library'', p] else p # ps)"
      using False assms(2) sp by (auto simp: repositoryKeyParts_def Let_def split: if_splits)
    ultimately show ?thesis
      by (auto simp: docker_io_host docker_io_registry library_component split: if_splits)
  qed
qed

lemma splitOn_host_path:
  assumes "matchFull refHostRE host" "parts \<noteq> []" "\<forall>p \<in> set parts. matchFull refPathComponentRE p"
  shows "splitOn (CHR ''/'') (host @ ''/'' @ joinWith ''/'' parts) = host # parts"
proof -
  have "CHR ''/'' \<notin> set host" using host_chars [OF assms(1)] by (auto simp: isNameByte_def)
  moreover have "splitOn (CHR ''/'') (joinWith ''/'' parts) = parts"
    using assms(2,3) path_chars by (intro splitOn_joinWith) (auto simp: isNameByte_def)
  ultimately show ?thesis by (simp add: splitOn_append)
qed

lemma repositoryKey_valid:
  assumes "matchFull refHostRE host" "isRegistryHost host" "parts \<noteq> []"
    and "\<forall>p \<in> set parts. matchFull refPathComponentRE p"
  shows "validRepository (host @ ''/'' @ joinWith ''/'' parts)"
proof -
  have "CHR ''/'' \<in> set (host @ ''/'' @ joinWith ''/'' parts)" by simp
  moreover have "CHR ''/'' \<notin> set ''sha256''" by simp
  ultimately have "host @ ''/'' @ joinWith ''/'' parts \<noteq> ''sha256''" by metis
  then show ?thesis
    using splitOn_host_path [OF assms(1,3,4)] assms
    by (auto simp: validRepository_def Let_def)
qed

text \<open>
  The matching form of a repository is a fixed point: \<open>RepositoryKey\<close> of a key is that key.
  So a reference written out in full (\<open>docker.io/library/app\<close>) and its short forms share one
  key, and normalising twice changes nothing.
\<close>

lemma RepositoryKey_idempotent:
  assumes "RepositoryKey ref = Some k"
  shows "RepositoryKey k = Some k"
proof -
  obtain repo host parts where r: "RepositoryOf ref = Some repo"
    and hp: "repositoryKeyParts repo = (host, parts)"
    and k: "k = host @ ''/'' @ joinWith ''/'' parts"
    using assms by (auto simp: RepositoryKey_def split: option.splits prod.splits)
  obtain tag dig where "splitReference ref = Some (repo, tag, dig)"
    using r by (auto simp: RepositoryOf_def)
  then have v: "validRepository repo"
    by (auto simp: splitReference_def Option.bind_eq_Some_conv split: if_splits)
  note ok = repositoryKeyParts_ok [OF v hp]
  have "validRepository k" unfolding k using ok by (intro repositoryKey_valid) auto
  then have "splitReference k = Some (k, '''', '''')"
    using splitReference_render [of k "''''" "''''"] by (simp add: wellFormedParts_def renderReference_def)
  moreover have "splitOn (CHR ''/'') k = host # parts"
    unfolding k using ok by (intro splitOn_host_path) auto
  then have "repositoryKeyParts k = (host, parts)"
    using ok by (auto simp: repositoryKeyParts_def Let_def)
  ultimately show ?thesis by (simp add: RepositoryKey_def RepositoryOf_def k)
qed

subsection \<open>Workload keys\<close>

lemma label_chars: "matchFull dns1123LabelRE s \<Longrightarrow> CHR ''/'' \<notin> set s \<and> s \<noteq> []"
proof -
  assume m: "matchFull dns1123LabelRE s"
  have "reChars (\<lambda>c. c \<noteq> CHR ''/'') dns1123LabelRE"
    using lowerAlnum_NameByte
    by (auto simp: dns1123LabelRE_def isLabelByte_def isNameByte_def intro!: reChars_upto)
  with m matchFull_reChars have "\<forall>c \<in> set s. c \<noteq> CHR ''/''" by blast
  moreover have "s \<noteq> []" using m by (auto simp: matchFull_iff dns1123LabelRE_def)
  ultimately show ?thesis by blast
qed

lemma subdomain_chars: "matchFull dns1123SubdomainRE s \<Longrightarrow> CHR ''/'' \<notin> set s \<and> s \<noteq> []"
proof -
  assume m: "matchFull dns1123SubdomainRE s"
  have "reChars (\<lambda>c. c \<noteq> CHR ''/'') dns1123SubdomainRE"
    using lowerAlnum_NameByte
    by (auto simp: dns1123SubdomainRE_def isLabelByte_def isNameByte_def Let_def)
  with m matchFull_reChars have "\<forall>c \<in> set s. c \<noteq> CHR ''/''" by blast
  moreover have "s \<noteq> []" using m by (auto simp: matchFull_iff dns1123SubdomainRE_def Let_def md_Cat_iff)
  ultimately show ?thesis by blast
qed

lemma kubernetes_kind:
  "map_of kubernetesWorkloadKinds k = Some kind \<Longrightarrow>
     kind = k \<and> CHR ''/'' \<notin> set k \<and> k \<noteq> WorkloadCompose \<and> k \<noteq> WorkloadUnknown"
  by (auto simp: kubernetesWorkloadKinds_def WorkloadDeployment_def WorkloadStatefulSet_def
      WorkloadDaemonSet_def WorkloadJob_def WorkloadCronJob_def WorkloadPod_def
      WorkloadCompose_def WorkloadUnknown_def split: if_splits)

text \<open>
  The workload key of a Kubernetes container parses back to its workload: for a container of a
  known kind whose names follow the Kubernetes rules, \<open>ParseKubernetesWorkloadKey\<close> of
  \<open>WorkloadKey\<close> returns the kind, namespace and workload name it was built from, and the
  container's own name (the last element of its display name).
\<close>

lemma ParseKubernetesWorkloadKey_WorkloadKey:
  assumes "map_of kubernetesWorkloadKinds (wlKind (ctWorkload c)) = Some kind"
    and "ctName c = pod @ ''/'' @ name"
    and "matchFull dns1123LabelRE (wlGroup (ctWorkload c))"
    and "length (wlName (ctWorkload c)) \<le> 253" "matchFull dns1123SubdomainRE (wlName (ctWorkload c))"
    and "matchFull dns1123LabelRE name"
  shows "ParseKubernetesWorkloadKey (WorkloadKey c) =
     Some \<lparr>kwKind = wlKind (ctWorkload c), kwNamespace = wlGroup (ctWorkload c),
           kwName = wlName (ctWorkload c), kwContainer = name\<rparr>"
proof -
  let ?w = "ctWorkload c"
  note kind = kubernetes_kind [OF assms(1)]
  note chars = label_chars [OF assms(3)] subdomain_chars [OF assms(5)] label_chars [OF assms(6)]
  have "lastIndexByte (ctName c) (CHR ''/'') = Some (length pod)"
    using chars assms(2) lastIndexByte_append [of "CHR ''/''" name pod] by simp
  then have "WorkloadKey c = wlKind ?w @ CHR ''/'' # wlGroup ?w @ CHR ''/'' # wlName ?w @ CHR ''/'' # name"
    using kind chars assms(2) by (simp add: WorkloadKey_def Let_def Workload_Known_def)
  then have "splitOn (CHR ''/'') (WorkloadKey c) = [wlKind ?w, wlGroup ?w, wlName ?w, name]"
    using kind chars by (simp add: splitOn_append splitOn_plain)
  with assms kind show ?thesis by (simp add: ParseKubernetesWorkloadKey_def)
qed

definition sampleImage :: running_image where
  "sampleImage = \<lparr>riRef = ''app:1'', riConfig = zeroDigest,
     riRegistry = \<lparr>rrRepository = '''', rrDigest = zeroDigest\<rparr>, riPlatform = zeroPlatform\<rparr>"

definition sampleContainer :: container where
  "sampleContainer = \<lparr>ctID = '''', ctName = ''prod/web-0/app'',
     ctWorkload = \<lparr>wlKind = ''deployment'', wlGroup = ''prod'', wlName = ''web''\<rparr>,
     ctImage = sampleImage, ctRuntimeExcluded = False, ctDeclared = None, ctPodInit = None\<rparr>"

subsection \<open>Distinct images\<close>

definition imageKey :: "running_image \<Rightarrow> string \<times> entity_key" where
  "imageKey img = (riRef img, fst (EntityKeyOf img))"

lemma distinctImagesLoop_keys:
  "set (map imageKey (distinctImagesLoop seen cts)) =
     imageKey ` ctImage ` {ct \<in> set cts. riRef (ctImage ct) \<noteq> ''''} - set seen"
proof (induction seen cts rule: distinctImagesLoop.induct)
  case (2 seen ct cts)
  then show ?case by (auto simp: Let_def imageKey_def)
qed simp

lemma distinctImagesLoop_distinct: "distinct (map imageKey (distinctImagesLoop seen cts))"
proof (induction seen cts rule: distinctImagesLoop.induct)
  case (2 seen ct cts)
  let ?k = "imageKey (ctImage ct)"
  have "?k \<notin> set (map imageKey (distinctImagesLoop (?k # seen) cts))"
    by (subst distinctImagesLoop_keys) simp
  with 2 show ?case by (auto simp: Let_def imageKey_def)
qed simp

lemma strict_weak_lessEntityKey: "strict_weak lessEntityKey"
proof -
  have "lessEntityKey = ltThen (\<lambda>a b. dgKind (ekDigest a) < dgKind (ekDigest b))
    (ltThen (\<lambda>a b. dgHex (ekDigest a) < dgHex (ekDigest b))
    (ltThen (\<lambda>a b. plOS (ekPlatform a) < plOS (ekPlatform b))
    (ltThen (\<lambda>a b. plArchitecture (ekPlatform a) < plArchitecture (ekPlatform b))
      (\<lambda>a b. plVariant (ekPlatform a) < plVariant (ekPlatform b)))))"
    by (intro ext) (auto simp: lessEntityKey_def ltThen_def)
  from this [symmetric] show ?thesis
    by (elim subst) (intro strict_weak_ltThen strict_weak_key)
qed

lemma strict_weak_comp: "strict_weak lt \<Longrightarrow> strict_weak (\<lambda>a b. lt (f a) (f b))"
  unfolding strict_weak_def by metis

lemma strict_weak_lessRunningImage: "strict_weak lessRunningImage"
proof -
  have "lessRunningImage = ltThen (\<lambda>a b. riRef a < riRef b)
      (\<lambda>a b. lessEntityKey (fst (EntityKeyOf a)) (fst (EntityKeyOf b)))"
    by (intro ext) (auto simp: lessRunningImage_def ltThen_def)
  from this [symmetric] show ?thesis
    by (elim subst)
      (intro strict_weak_ltThen strict_weak_key strict_weak_comp [OF strict_weak_lessEntityKey])
qed

interpretation running_image_order: strict_weak lessRunningImage
  by (rule strict_weak_lessRunningImage)

lemma EntityKeyOf_algorithm:
  "dgAlgorithm (ekDigest (fst (EntityKeyOf img))) =
     (if dgKind (ekDigest (fst (EntityKeyOf img))) = '''' then '''' else ''sha256'')"
  by (auto simp: EntityKeyOf_def Digest_Valid_iff zeroEntityKey_def zeroDigest_def DigestUnknown_def
      DigestConfig_def DigestRegistry_def)

lemma lessEntityKey_ties:
  "\<not> lessEntityKey a b \<Longrightarrow> \<not> lessEntityKey b a \<Longrightarrow> dgAlgorithm (ekDigest a) = dgAlgorithm (ekDigest b) \<Longrightarrow> a = b"
  by (auto simp: lessEntityKey_def split: if_splits)

text \<open>No two images with different keys tie, although the order leaves the algorithm out.\<close>

lemma lessRunningImage_ties:
  assumes "\<not> lessRunningImage a b" "\<not> lessRunningImage b a"
  shows "imageKey a = imageKey b"
proof -
  have ref: "riRef a = riRef b" using assms by (auto simp: lessRunningImage_def split: if_splits)
  then have n: "\<not> lessEntityKey (fst (EntityKeyOf a)) (fst (EntityKeyOf b))"
    "\<not> lessEntityKey (fst (EntityKeyOf b)) (fst (EntityKeyOf a))"
    using assms by (auto simp: lessRunningImage_def)
  then have "dgKind (ekDigest (fst (EntityKeyOf a))) = dgKind (ekDigest (fst (EntityKeyOf b)))"
    by (auto simp: lessEntityKey_def split: if_splits)
  then have "fst (EntityKeyOf a) = fst (EntityKeyOf b)"
    using n by (intro lessEntityKey_ties) (auto simp: EntityKeyOf_algorithm)
  with ref show ?thesis by (simp add: imageKey_def)
qed

text \<open>
  \<open>DistinctImages\<close> lists one image for every pair of reference and entity key that some
  container with a non-empty reference runs, and no pair twice, in strictly ascending order of
  reference and key. Distinct entities under one reference are never merged and none is lost.
\<close>

lemma DistinctImages_spec:
  "set (map imageKey (DistinctImages cts)) = {imageKey (ctImage ct) |ct. ct \<in> set cts \<and> riRef (ctImage ct) \<noteq> ''''}
   \<and> distinct (map imageKey (DistinctImages cts))
   \<and> sorted_wrt lessRunningImage (DistinctImages cts)"
proof (intro conjI)
  let ?xs = "distinctImagesLoop [] cts"
  show "set (map imageKey (DistinctImages cts)) = {imageKey (ctImage ct) |ct. ct \<in> set cts \<and> riRef (ctImage ct) \<noteq> ''''}"
    using distinctImagesLoop_keys [of "[]" cts] by (auto simp: DistinctImages_def)
  have "mset (map imageKey (DistinctImages cts)) = mset (map imageKey ?xs)"
    by (simp add: DistinctImages_def)
  then show d: "distinct (map imageKey (DistinctImages cts))"
    using distinctImagesLoop_distinct mset_eq_imp_distinct_iff by blast
  have "sorted_wrt (\<lambda>a b. \<not> lessRunningImage b a) (DistinctImages cts)"
    unfolding DistinctImages_def by (rule running_image_order.sorted_sortBy)
  then have "sorted_wrt (\<lambda>a b. \<not> lessRunningImage b a \<and> imageKey a \<noteq> imageKey b) (DistinctImages cts)"
    using d by (auto simp: sorted_wrt_iff_nth_less distinct_conv_nth)
  then show "sorted_wrt lessRunningImage (DistinctImages cts)"
    by (rule sorted_wrt_mono_rel [rotated]) (use lessRunningImage_ties in blast)
qed

end
