(* ===== verification/Evidence.thy ===== *)
theory Evidence
  imports Inventory
begin

section \<open>Runtime evidence: judgement and projection\<close>

text \<open>
  \<open>internal/evidence\<close>: the snapshot a Sensor writes (\<open>evidence.go\<close>, \<open>container.go\<close>,
  \<open>package.go\<close>), the judgement of one package against one container generation (\<open>state.go\<close>,
  \<open>langmatch.go\<close>) and the projection of many judgements onto one (\<open>project.go\<close>). The string
  enumerations stay strings, since a snapshot may carry values the reader does not know.

  The lemmas show when each judgement answers in use, not observed and unavailable, that a
  projection depends only on the set of verdicts, and that projecting in two stages (instances of
  a container, then containers of a group) is projecting once.
\<close>

subsection \<open>The snapshot (evidence.go, container.go, package.go)\<close>

abbreviation SensorIsolationFailed :: string where "SensorIsolationFailed \<equiv> ''isolation_failed''"
abbreviation SensorPermissionDenied :: string where "SensorPermissionDenied \<equiv> ''permission_denied''"

record isolation =
  ioNoNewPrivs :: bool
  ioNonDumpable :: bool
  ioSeccomp :: bool
  ioLandlockABI :: int

record events_info =
  evStatus :: string
  evReason :: string
  evAttachedAt :: gtime
  evLost :: int
  evUnclassified :: int
  evKernelLost :: int

record sensor_info =
  siVersion :: string
  siSessionID :: string
  siSessionStartedAt :: gtime
  siHeartbeatAt :: gtime
  siIntervalSeconds :: int
  siIsolation :: isolation
  siStatus :: string
  siEvents :: events_info

abbreviation StateInitializing :: string where "StateInitializing \<equiv> ''initializing''"
abbreviation StateObserving :: string where "StateObserving \<equiv> ''observing''"
abbreviation StateDenied :: string where "StateDenied \<equiv> ''denied''"
abbreviation StateStalled :: string where "StateStalled \<equiv> ''stalled''"
abbreviation StateParseFailed :: string where "StateParseFailed \<equiv> ''parse_failed''"
abbreviation StateEnded :: string where "StateEnded \<equiv> ''ended''"

abbreviation CoverageSinceStart :: string where "CoverageSinceStart \<equiv> ''since_start''"
abbreviation CoveragePartial :: string where "CoveragePartial \<equiv> ''partial''"
abbreviation CoverageNone :: string where "CoverageNone \<equiv> ''none''"

abbreviation DBStatusOK :: string where "DBStatusOK \<equiv> ''ok''"
abbreviation DBStatusError :: string where "DBStatusError \<equiv> ''error''"
abbreviation DBStatusUnsupported :: string where "DBStatusUnsupported \<equiv> ''unsupported''"

record container_ref =
  crRuntime :: string
  crID :: string
  crNamespace :: string
  crPod :: string
  crContainer :: string

record init_process =
  ipPID :: int
  ipStarttime :: int

record package_db_info =
  dbKind :: string
  dbStatus :: string
  dbNoFileList :: "string list"

record parse_failure =
  pfInput :: string
  pfPath :: string
  pfDev :: string
  pfInode :: int
  pfSize :: int
  pfFailedAt :: gtime
  pfCount :: int
  pfRetryAfter :: gtime

abbreviation KindExe :: string where "KindExe \<equiv> ''exe''"
abbreviation KindExecEvent :: string where "KindExecEvent \<equiv> ''exec_event''"
abbreviation KindBinaryRunning :: string where "KindBinaryRunning \<equiv> ''binary_running''"
abbreviation KindBinaryExecuted :: string where "KindBinaryExecuted \<equiv> ''binary_executed''"
abbreviation KindRuntimeRunning :: string where "KindRuntimeRunning \<equiv> ''runtime_running''"
abbreviation KindRuntimeExecuted :: string where "KindRuntimeExecuted \<equiv> ''runtime_executed''"

record kind_observation =
  koFirstSeen :: gtime
  koLastSeen :: gtime
  koSamples :: int
  koCount :: int

record process_observation =
  poExe :: string
  poEffectiveUID :: int
  poUserns :: bool
  poCapEff :: string
  poListeners :: "string list"
  poLastSeen :: gtime

record os_package_evidence =
  oeName :: string
  oeVersion :: string
  oeKinds :: "(string, kind_observation) gmap"
  oeObservations :: "process_observation list"

record unavailable_package =
  upName :: string
  upVersion :: string
  upReason :: string

record executable_evidence =
  eePath :: string
  eeDev :: string
  eeInode :: int
  eeKinds :: "(string, kind_observation) gmap"
  eeObservations :: "process_observation list"

record generation =
  gnContainer :: container_ref
  gnInit :: init_process
  gnStartedAt :: gtime
  gnEndedAt :: "gtime option"
  gnLastVerifiedAt :: gtime
  gnState :: string
  gnPackageDB :: package_db_info
  gnIncomplete :: bool
  gnTruncated :: bool
  gnEventsCoverage :: string
  gnEventsLost :: int
  gnParseFailed :: "parse_failure list"
  gnOSPackages :: "os_package_evidence list"
  gnUnavailable :: "unavailable_package list"
  gnExecutables :: "executable_evidence list"

record snapshot =
  ssSchema :: int
  ssSensor :: sensor_info
  ssGenerations :: "generation list"

abbreviation ReasonSensorNotReporting :: string where "ReasonSensorNotReporting \<equiv> ''sensor_not_reporting''"
abbreviation ReasonSensorStale :: string where "ReasonSensorStale \<equiv> ''sensor_stale''"
abbreviation ReasonEvidenceInvalid :: string where "ReasonEvidenceInvalid \<equiv> ''evidence_invalid''"
abbreviation ReasonIsolationFailed :: string where "ReasonIsolationFailed \<equiv> ''isolation_failed''"
abbreviation ReasonPermissionDenied :: string where "ReasonPermissionDenied \<equiv> ''permission_denied''"
abbreviation ReasonInitializing :: string where "ReasonInitializing \<equiv> ''initializing''"
abbreviation ReasonStalled :: string where "ReasonStalled \<equiv> ''stalled''"
abbreviation ReasonParseFailed :: string where "ReasonParseFailed \<equiv> ''parse_failed''"
abbreviation ReasonTruncated :: string where "ReasonTruncated \<equiv> ''truncated''"
abbreviation ReasonIncomplete :: string where "ReasonIncomplete \<equiv> ''incomplete''"
abbreviation ReasonGenerationUnverified :: string where "ReasonGenerationUnverified \<equiv> ''generation_unverified''"
abbreviation ReasonContainerNotObserved :: string where "ReasonContainerNotObserved \<equiv> ''container_not_observed''"
abbreviation ReasonDBAbsent :: string where "ReasonDBAbsent \<equiv> ''db_absent''"
abbreviation ReasonDBError :: string where "ReasonDBError \<equiv> ''db_error''"
abbreviation ReasonDBUnsupported :: string where "ReasonDBUnsupported \<equiv> ''db_unsupported''"
abbreviation ReasonNoFileList :: string where "ReasonNoFileList \<equiv> ''no_file_list''"
abbreviation ReasonAttributionAmbiguous :: string where "ReasonAttributionAmbiguous \<equiv> ''attribution_ambiguous''"
abbreviation ReasonFileReplaced :: string where "ReasonFileReplaced \<equiv> ''file_replaced''"
abbreviation ReasonVersionMismatch :: string where "ReasonVersionMismatch \<equiv> ''version_mismatch''"
abbreviation ReasonEcosystemUnmapped :: string where "ReasonEcosystemUnmapped \<equiv> ''ecosystem_unmapped''"
abbreviation ReasonBinaryPathUnknown :: string where "ReasonBinaryPathUnknown \<equiv> ''binary_path_unknown''"

abbreviation UsageInUse :: string where "UsageInUse \<equiv> ''in_use''"
abbreviation UsageNotObserved :: string where "UsageNotObserved \<equiv> ''not_observed''"
abbreviation UsageUnavailable :: string where "UsageUnavailable \<equiv> ''unavailable''"

record verdict =
  vdUsage :: string
  vdReason :: string
  vdEvidenceKinds :: "string list"
  vdEventsCoverage :: string

definition inUseVerdict :: "string list \<Rightarrow> verdict" where
  "inUseVerdict kinds = \<lparr>vdUsage = UsageInUse, vdReason = '''', vdEvidenceKinds = kinds, vdEventsCoverage = ''''\<rparr>"

definition unavailableVerdict :: "string \<Rightarrow> string \<Rightarrow> verdict" where
  "unavailableVerdict reason coverage =
     \<lparr>vdUsage = UsageUnavailable, vdReason = reason, vdEvidenceKinds = [], vdEventsCoverage = coverage\<rparr>"

definition notObservedVerdict :: "string \<Rightarrow> verdict" where
  "notObservedVerdict coverage =
     \<lparr>vdUsage = UsageNotObserved, vdReason = '''', vdEvidenceKinds = [], vdEventsCoverage = coverage\<rparr>"

subsection \<open>Language package matching (langmatch.go)\<close>

definition embeddedEcosystems :: "string list" where
  "embeddedEcosystems = [''gobinary'', ''rustbinary'', ''node-runtime'', ''python-runtime'']"

record runtime_rule =
  ruExact :: "string list"
  ruVersionRE :: "re option"

definition pythonVersionRE :: re where
  "pythonVersionRE = catOf [lit ''python3'', chr (CHR ''.''), plus digitRE]"

definition phpVersionRE :: re where
  "phpVersionRE = catOf [lit ''php-fpm'', plus digitRE, opt (Grp 1 (Cat (chr (CHR ''.'')) (plus digitRE)))]"

definition runtimeRules :: "(string, runtime_rule) gmap" where
  "runtimeRules =
    [(''python-pkg'', \<lparr>ruExact = [''python'', ''python3''], ruVersionRE = Some pythonVersionRE\<rparr>),
     (''conda-pkg'', \<lparr>ruExact = [''python'', ''python3''], ruVersionRE = Some pythonVersionRE\<rparr>),
     (''node-pkg'', \<lparr>ruExact = [''node'', ''nodejs''], ruVersionRE = None\<rparr>),
     (''jar'', \<lparr>ruExact = [''java''], ruVersionRE = None\<rparr>),
     (''gemspec'', \<lparr>ruExact = [''ruby''], ruVersionRE = None\<rparr>),
     (''composer'', \<lparr>ruExact = [''php'', ''php-fpm''], ruVersionRE = Some phpVersionRE\<rparr>),
     (''composer-vendor'', \<lparr>ruExact = [''php'', ''php-fpm''], ruVersionRE = Some phpVersionRE\<rparr>),
     (''dotnet-core'', \<lparr>ruExact = [''dotnet''], ruVersionRE = None\<rparr>)]"

definition EcosystemMapped :: "string \<Rightarrow> bool" where
  "EcosystemMapped eco \<longleftrightarrow> (if eco \<in> set embeddedEcosystems then True else mhas runtimeRules eco)"

definition IsEmbeddedEcosystem :: "string \<Rightarrow> bool" where
  "IsEmbeddedEcosystem eco \<longleftrightarrow> eco \<in> set embeddedEcosystems"

definition normalizeContainerPath :: "string \<Rightarrow> string" where
  "normalizeContainerPath p = trimPrefix p ''/''"

definition RuntimeNameMatches :: "string \<Rightarrow> string \<Rightarrow> bool" where
  "RuntimeNameMatches eco execPath =
     (case map_of runtimeRules eco of
        None \<Rightarrow> False
      | Some rule \<Rightarrow>
          (let name = pathBase execPath in
           if name \<in> set (ruExact rule) then True
           else (case ruVersionRE rule of None \<Rightarrow> False | Some r \<Rightarrow> matchFull r name)))"

subsection \<open>Judging one package in one generation (state.go)\<close>

definition StalenessThreshold :: "int \<Rightarrow> int" where
  "StalenessThreshold intervalSeconds =
     (let fromInterval = wrap64 (wrap64 (intervalSeconds * 10) * second); floor = 5 * 60 * second
      in if fromInterval > floor then fromInterval else floor)"

definition IsStale :: "gtime \<Rightarrow> gtime \<Rightarrow> int \<Rightarrow> bool" where
  "IsStale heartbeatAt now intervalSeconds =
     (if heartbeatAt = 0 then True else timeSub now heartbeatAt > StalenessThreshold intervalSeconds)"

definition GenerationFresh :: "generation \<Rightarrow> gtime \<Rightarrow> int \<Rightarrow> bool" where
  "GenerationFresh gen now intervalSeconds \<longleftrightarrow> \<not> IsStale (gnLastVerifiedAt gen) now intervalSeconds"

text \<open>\<open>None\<close> when the generation is eligible, the reason when it is not.\<close>

definition GenerationEligibleForNotObserved :: "generation \<Rightarrow> string \<Rightarrow> string option" where
  "GenerationEligibleForNotObserved gen class =
     (let db = (if class = ClassOS \<and> dbStatus (gnPackageDB gen) \<noteq> DBStatusOK then
                  Some (if dbStatus (gnPackageDB gen) = DBStatusError then ReasonDBError
                        else if dbStatus (gnPackageDB gen) = DBStatusUnsupported then ReasonDBUnsupported
                        else ReasonDBAbsent)
                else None)
      in if gnTruncated gen then Some ReasonTruncated
         else if gnIncomplete gen then Some ReasonIncomplete
         else if gnState gen = StateDenied then Some ReasonPermissionDenied
         else if gnState gen = StateStalled then Some ReasonStalled
         else if gnState gen = StateEnded then Some ReasonContainerNotObserved
         else if gnState gen = StateInitializing then
           (if class = ClassOS then Some ReasonInitializing else db)
         else if gnState gen = StateParseFailed then
           (if class = ClassOS then Some ReasonParseFailed else db)
         else if gnState gen = StateObserving then db
         else Some ReasonInitializing)"

definition kindsOf :: "(string, kind_observation) gmap \<Rightarrow> string list" where
  "kindsOf kinds = sortBy (<) (mkeys kinds)"

text \<open>The accumulator of \<open>mergeKinds\<close>: the slice and the set of kinds already in it.\<close>

fun appendUnseen :: "string list \<times> string list \<Rightarrow> string list \<Rightarrow> string list \<times> string list" where
  "appendUnseen (acc, seen) [] = (acc, seen)"
| "appendUnseen (acc, seen) (k # ks) =
     (if k \<in> set seen then appendUnseen (acc, seen) ks
      else appendUnseen (acc @ [k], k # seen) ks)"

definition mergeKinds :: "string list \<times> string list \<Rightarrow> string list \<Rightarrow> string list \<times> string list" where
  "mergeKinds st kinds = (case appendUnseen st kinds of (acc, seen) \<Rightarrow> (sortBy (<) acc, seen))"

definition langKinds :: "(string, kind_observation) gmap \<Rightarrow> bool \<Rightarrow> string list" where
  "langKinds kinds embedded =
     (if mhas kinds KindExe then [if embedded then KindBinaryRunning else KindRuntimeRunning] else [])
     @ (if mhas kinds KindExecEvent then [if embedded then KindBinaryExecuted else KindRuntimeExecuted] else [])"

text \<open>The first loop of \<open>JudgeOSPackage\<close>: the exact match, or whether another version was seen.\<close>

fun findOSPackage :: "package_ref \<Rightarrow> bool \<Rightarrow> os_package_evidence list \<Rightarrow> os_package_evidence option \<times> bool" where
  "findOSPackage ref other [] = (None, other)"
| "findOSPackage ref other (p # ps) =
     (if oeName p \<noteq> prName ref then findOSPackage ref other ps
      else if oeVersion p = prVersion ref then (Some p, other)
      else findOSPackage ref True ps)"

definition JudgeOSPackage :: "generation \<Rightarrow> package_ref \<Rightarrow> verdict" where
  "JudgeOSPackage gen ref =
     (case findOSPackage ref False (gnOSPackages gen) of
        (Some p, _) \<Rightarrow> inUseVerdict (kindsOf (oeKinds p))
      | (None, other) \<Rightarrow>
          if other then unavailableVerdict ReasonVersionMismatch (gnEventsCoverage gen)
          else (case find (\<lambda>u. upName u = prName ref \<and> upVersion u = prVersion ref) (gnUnavailable gen) of
                  Some u \<Rightarrow> unavailableVerdict (upReason u) (gnEventsCoverage gen)
                | None \<Rightarrow>
                    (case GenerationEligibleForNotObserved gen ClassOS of
                       Some reason \<Rightarrow> unavailableVerdict reason (gnEventsCoverage gen)
                     | None \<Rightarrow>
                         if prName ref \<in> set (dbNoFileList (gnPackageDB gen)) then
                           unavailableVerdict ReasonNoFileList (gnEventsCoverage gen)
                         else notObservedVerdict (gnEventsCoverage gen))))"

text \<open>The loop both language judgements share, over the executables that match.\<close>

fun mergeExecutables :: "(executable_evidence \<Rightarrow> bool) \<Rightarrow> bool \<Rightarrow> string list \<times> string list \<Rightarrow> bool
    \<Rightarrow> executable_evidence list \<Rightarrow> string list \<times> bool" where
  "mergeExecutables p embedded st matched [] = (fst st, matched)"
| "mergeExecutables p embedded st matched (exe # exes) =
     (if \<not> p exe then mergeExecutables p embedded st matched exes
      else mergeExecutables p embedded (mergeKinds st (langKinds (eeKinds exe) embedded)) True exes)"

definition languageVerdict :: "generation \<Rightarrow> string list \<times> bool \<Rightarrow> verdict" where
  "languageVerdict gen r =
     (case r of (kinds, matched) \<Rightarrow>
        if matched then inUseVerdict kinds
        else (case GenerationEligibleForNotObserved gen ClassLang of
                Some reason \<Rightarrow> unavailableVerdict reason (gnEventsCoverage gen)
              | None \<Rightarrow> notObservedVerdict (gnEventsCoverage gen)))"

definition JudgeEmbeddedBinary :: "generation \<Rightarrow> string \<Rightarrow> verdict" where
  "JudgeEmbeddedBinary gen target =
     (if target = '''' then unavailableVerdict ReasonBinaryPathUnknown ''''
      else (let norm = normalizeContainerPath target in
            languageVerdict gen (mergeExecutables (\<lambda>exe. normalizeContainerPath (eePath exe) = norm) True
              ([], []) False (gnExecutables gen))))"

definition JudgeRuntimeLoaded :: "generation \<Rightarrow> string \<Rightarrow> verdict" where
  "JudgeRuntimeLoaded gen eco =
     (if \<not> EcosystemMapped eco then unavailableVerdict ReasonEcosystemUnmapped ''''
      else languageVerdict gen (mergeExecutables (\<lambda>exe. RuntimeNameMatches eco (eePath exe)) False
             ([], []) False (gnExecutables gen)))"

subsection \<open>Projecting many verdicts onto one (project.go)\<close>

definition reasonPriority :: "string list" where
  "reasonPriority =
    [ReasonSensorNotReporting, ReasonSensorStale, ReasonEvidenceInvalid, ReasonIsolationFailed,
     ReasonPermissionDenied, ReasonGenerationUnverified, ReasonContainerNotObserved, ReasonTruncated,
     ReasonIncomplete, ReasonStalled, ReasonInitializing, ReasonParseFailed, ReasonDBAbsent,
     ReasonDBError, ReasonDBUnsupported, ReasonNoFileList, ReasonAttributionAmbiguous,
     ReasonFileReplaced, ReasonVersionMismatch, ReasonEcosystemUnmapped, ReasonBinaryPathUnknown]"

fun rankIn :: "string list \<Rightarrow> string \<Rightarrow> nat" where
  "rankIn [] r = 0"
| "rankIn (x # xs) r = (if x = r then 0 else Suc (rankIn xs r))"

definition reasonRank :: "string \<Rightarrow> nat" where
  "reasonRank reason = rankIn reasonPriority reason"

fun strongestLoop :: "string option \<Rightarrow> verdict list \<Rightarrow> string option" where
  "strongestLoop best [] = best"
| "strongestLoop best (v # vs) =
     (if vdUsage v \<noteq> UsageUnavailable then strongestLoop best vs
      else (case best of
              None \<Rightarrow> strongestLoop (Some (vdReason v)) vs
            | Some b \<Rightarrow>
                if reasonRank (vdReason v) < reasonRank b then strongestLoop (Some (vdReason v)) vs
                else strongestLoop best vs))"

definition strongestUnavailableReason :: "verdict list \<Rightarrow> string option" where
  "strongestUnavailableReason verdicts = strongestLoop None verdicts"

definition coverageRanks :: "(string, nat) gmap" where
  "coverageRanks = [(CoverageNone, 0), (CoveragePartial, 1), (CoverageSinceStart, 2)]"

fun worstLoop :: "string \<Rightarrow> nat \<Rightarrow> verdict list \<Rightarrow> string" where
  "worstLoop worst worstRank [] = worst"
| "worstLoop worst worstRank (v # vs) =
     (let c = (if vdEventsCoverage v = '''' then CoverageNone else vdEventsCoverage v) in
      case map_of coverageRanks c of
        Some r \<Rightarrow> if r < worstRank then worstLoop c r vs else worstLoop worst worstRank vs
      | None \<Rightarrow> worstLoop worst worstRank vs)"

definition worstCoverage :: "verdict list \<Rightarrow> string" where
  "worstCoverage verdicts = worstLoop CoverageSinceStart 2 verdicts"

fun mergeInUse :: "string list \<times> string list \<Rightarrow> bool \<Rightarrow> verdict list \<Rightarrow> string list \<times> bool" where
  "mergeInUse st anyInUse [] = (fst st, anyInUse)"
| "mergeInUse st anyInUse (v # vs) =
     (if vdUsage v \<noteq> UsageInUse then mergeInUse st anyInUse vs
      else mergeInUse (mergeKinds st (vdEvidenceKinds v)) True vs)"

definition ProjectGroup :: "verdict list \<Rightarrow> verdict" where
  "ProjectGroup verdicts =
     (if verdicts = [] then unavailableVerdict ReasonContainerNotObserved ''''
      else (case mergeInUse ([], []) False verdicts of (kinds, anyInUse) \<Rightarrow>
        if anyInUse then inUseVerdict kinds
        else (case strongestUnavailableReason verdicts of
                Some reason \<Rightarrow> unavailableVerdict reason (worstCoverage verdicts)
              | None \<Rightarrow> notObservedVerdict (worstCoverage verdicts))))"

fun projectUsagesLoop :: "bool \<Rightarrow> string list \<Rightarrow> string" where
  "projectUsagesLoop sawUnavailable [] = (if sawUnavailable then UsageUnavailable else UsageNotObserved)"
| "projectUsagesLoop sawUnavailable (u # us) =
     (if u = UsageInUse then UsageInUse
      else if u = UsageUnavailable then projectUsagesLoop True us
      else projectUsagesLoop sawUnavailable us)"

definition ProjectUsages :: "string list \<Rightarrow> string" where
  "ProjectUsages usages = projectUsagesLoop False usages"

subsection \<open>What the judgements answer\<close>

lemmas verdict_defs = inUseVerdict_def unavailableVerdict_def notObservedVerdict_def

lemma verdict_inject [simp]:
  "inUseVerdict k \<noteq> unavailableVerdict r c" "inUseVerdict k \<noteq> notObservedVerdict c"
  "unavailableVerdict r c \<noteq> inUseVerdict k" "unavailableVerdict r c \<noteq> notObservedVerdict c'"
  "notObservedVerdict c \<noteq> inUseVerdict k" "notObservedVerdict c \<noteq> unavailableVerdict r c'"
  "inUseVerdict k = inUseVerdict k' \<longleftrightarrow> k = k'"
  "unavailableVerdict r c = unavailableVerdict r' c' \<longleftrightarrow> r = r' \<and> c = c'"
  "notObservedVerdict c = notObservedVerdict c' \<longleftrightarrow> c = c'"
  by (auto simp: verdict_defs)

lemma verdict_usage [simp]:
  "vdUsage (inUseVerdict k) = UsageInUse" "vdUsage (unavailableVerdict r c) = UsageUnavailable"
  "vdUsage (notObservedVerdict c) = UsageNotObserved" "vdReason (unavailableVerdict r c) = r"
  "vdEvidenceKinds (inUseVerdict k) = k" "vdEventsCoverage (unavailableVerdict r c) = c"
  "vdEventsCoverage (notObservedVerdict c) = c"
  by (auto simp: verdict_defs)

text \<open>The sorted, duplicate-free accumulator of \<open>mergeKinds\<close> is the set of its kinds.\<close>

definition kindsState :: "string set \<Rightarrow> string list \<times> string list \<Rightarrow> bool" where
  "kindsState K st \<longleftrightarrow> fst st = sorted_list_of_set K \<and> set (snd st) = K \<and> finite K"

lemma appendUnseen_spec:
  "distinct acc \<Longrightarrow> set acc = set seen \<Longrightarrow> appendUnseen (acc, seen) ks = (acc', seen') \<Longrightarrow>
     distinct acc' \<and> set acc' = set acc \<union> set ks \<and> set seen' = set acc'"
proof (induction ks arbitrary: acc seen)
  case (Cons k ks)
  show ?case
  proof (cases "k \<in> set seen")
    case True
    with Cons show ?thesis by auto
  next
    case False
    with Cons.prems Cons.IH [of "acc @ [k]" "k # seen"] show ?thesis by auto
  qed
qed simp

lemma mergeKinds_state:
  assumes "kindsState K st"
  shows "kindsState (K \<union> set ks) (mergeKinds st ks)"
proof -
  obtain acc seen acc' seen' where st: "st = (acc, seen)" "appendUnseen st ks = (acc', seen')"
    by (metis surj_pair)
  have "distinct acc" "set acc = set seen" "K = set acc"
    using assms st by (auto simp: kindsState_def)
  then have "distinct acc'" "set acc' = K \<union> set ks" "set seen' = set acc'"
    using appendUnseen_spec [of acc seen ks acc' seen'] st by auto
  then show ?thesis
    using assms st by (auto simp: kindsState_def mergeKinds_def sortBy_less_sort sort_eq_sorted_list_of_set)
qed

lemma mergeExecutables_spec:
  "kindsState K st \<Longrightarrow> mergeExecutables p e st m exes =
     (sorted_list_of_set (K \<union> (\<Union>x \<in> {x \<in> set exes. p x}. set (langKinds (eeKinds x) e))), m \<or> (\<exists>x \<in> set exes. p x))"
proof (induction exes arbitrary: K st m)
  case (Cons x exes)
  show ?case
  proof (cases "p x")
    case True
    have s: "kindsState (K \<union> set (langKinds (eeKinds x) e)) (mergeKinds st (langKinds (eeKinds x) e))"
      by (rule mergeKinds_state [OF Cons.prems])
    have "K \<union> set (langKinds (eeKinds x) e) \<union> (\<Union>x \<in> {x \<in> set exes. p x}. set (langKinds (eeKinds x) e))
        = K \<union> (\<Union>x \<in> {y \<in> set (x # exes). p y}. set (langKinds (eeKinds x) e))"
      using True by auto
    with True Cons.IH [OF s] show ?thesis by simp
  next
    case False
    then have "{y \<in> set (x # exes). p y} = {y \<in> set exes. p y}" by auto
    with False Cons.IH [OF Cons.prems] show ?thesis by simp
  qed
qed (simp add: kindsState_def)

lemma mergeInUse_spec:
  "kindsState K st \<Longrightarrow> mergeInUse st a vs =
     (sorted_list_of_set (K \<union> (\<Union>v \<in> {v \<in> set vs. vdUsage v = UsageInUse}. set (vdEvidenceKinds v))),
      a \<or> (\<exists>v \<in> set vs. vdUsage v = UsageInUse))"
proof (induction vs arbitrary: K st a)
  case (Cons v vs)
  show ?case
  proof (cases "vdUsage v = UsageInUse")
    case True
    have s: "kindsState (K \<union> set (vdEvidenceKinds v)) (mergeKinds st (vdEvidenceKinds v))"
      by (rule mergeKinds_state [OF Cons.prems])
    have "K \<union> set (vdEvidenceKinds v) \<union> (\<Union>v \<in> {v \<in> set vs. vdUsage v = UsageInUse}. set (vdEvidenceKinds v))
        = K \<union> (\<Union>v \<in> {w \<in> set (v # vs). vdUsage w = UsageInUse}. set (vdEvidenceKinds v))"
      using True by auto
    with True Cons.IH [OF s] show ?thesis by simp
  next
    case False
    then have "{w \<in> set (v # vs). vdUsage w = UsageInUse} = {w \<in> set vs. vdUsage w = UsageInUse}" by auto
    with False Cons.IH [OF Cons.prems] show ?thesis by simp
  qed
qed (simp add: kindsState_def)

lemma kindsState_start: "kindsState {} ([], [])"
  by (simp add: kindsState_def)

lemma findOSPackage_other: "snd (findOSPackage ref other ps) = other \<or> (\<exists>p \<in> set ps. oeName p = prName ref)"
  by (induction ps arbitrary: other) auto

lemma findOSPackage_spec:
  "findOSPackage ref other ps =
     (find (\<lambda>p. oeName p = prName ref \<and> oeVersion p = prVersion ref) ps,
      snd (findOSPackage ref other ps))"
  "find (\<lambda>p. oeName p = prName ref \<and> oeVersion p = prVersion ref) ps = None \<Longrightarrow>
     snd (findOSPackage ref other ps) \<longleftrightarrow> other \<or> (\<exists>p \<in> set ps. oeName p = prName ref)"
  by (induction ps arbitrary: other) auto

text \<open>
  When an OS package is reported as not observed: no evidence record names it (in any version),
  no record says it could not be judged, the generation was fully read (observing, neither
  truncated nor incomplete, its package database read), and the database lists its files. Any
  missing piece makes the verdict unavailable; only an exact match of name and version makes it in use.
\<close>

lemma JudgeOSPackage_usage:
  "(vdUsage (JudgeOSPackage gen ref) = UsageInUse \<longleftrightarrow>
     (\<exists>p \<in> set (gnOSPackages gen). oeName p = prName ref \<and> oeVersion p = prVersion ref))
   \<and> (vdUsage (JudgeOSPackage gen ref) = UsageNotObserved \<longleftrightarrow>
     \<not> (\<exists>p \<in> set (gnOSPackages gen). oeName p = prName ref)
     \<and> \<not> (\<exists>u \<in> set (gnUnavailable gen). upName u = prName ref \<and> upVersion u = prVersion ref)
     \<and> gnState gen = StateObserving \<and> \<not> gnTruncated gen \<and> \<not> gnIncomplete gen
     \<and> dbStatus (gnPackageDB gen) = DBStatusOK \<and> prName ref \<notin> set (dbNoFileList (gnPackageDB gen)))"
proof -
  define f where "f = find (\<lambda>p. oeName p = prName ref \<and> oeVersion p = prVersion ref) (gnOSPackages gen)"
  define u where "u = find (\<lambda>u. upName u = prName ref \<and> upVersion u = prVersion ref) (gnUnavailable gen)"
  obtain other where j: "findOSPackage ref False (gnOSPackages gen) = (f, other)"
    and o: "f = None \<Longrightarrow> other \<longleftrightarrow> (\<exists>p \<in> set (gnOSPackages gen). oeName p = prName ref)"
    using findOSPackage_spec [where ref = ref and other = False and ps = "gnOSPackages gen"] f_def by simp
  have el: "GenerationEligibleForNotObserved gen ClassOS = None \<longleftrightarrow>
      gnState gen = StateObserving \<and> \<not> gnTruncated gen \<and> \<not> gnIncomplete gen \<and> dbStatus (gnPackageDB gen) = DBStatusOK"
    by (simp add: GenerationEligibleForNotObserved_def Let_def)
  have un: "u = None \<longleftrightarrow> \<not> (\<exists>u \<in> set (gnUnavailable gen). upName u = prName ref \<and> upVersion u = prVersion ref)"
    by (auto simp: find_None_iff u_def)
  show ?thesis
  proof (cases f)
    case None
    then have "\<not> (\<exists>p \<in> set (gnOSPackages gen). oeName p = prName ref \<and> oeVersion p = prVersion ref)"
      by (auto simp: f_def find_None_iff)
    then show ?thesis
      unfolding JudgeOSPackage_def j None u_def [symmetric] un [symmetric] using o [OF None] el
      by (cases u; cases "GenerationEligibleForNotObserved gen ClassOS") auto
  next
    case (Some p)
    then have "p \<in> set (gnOSPackages gen) \<and> oeName p = prName ref \<and> oeVersion p = prVersion ref"
      by (auto simp: f_def find_Some_iff)
    with Some j show ?thesis by (auto simp: JudgeOSPackage_def)
  qed
qed

subsection \<open>What a projection depends on\<close>

text \<open>The specification: one verdict as a function of the set of verdicts.\<close>

definition coverageSpec :: "verdict set \<Rightarrow> string" where
  "coverageSpec S =
     (if \<exists>v \<in> S. vdEventsCoverage v \<in> {'''', CoverageNone} then CoverageNone
      else if \<exists>v \<in> S. vdEventsCoverage v = CoveragePartial then CoveragePartial
      else CoverageSinceStart)"

definition reasonSpec :: "verdict set \<Rightarrow> string option" where
  "reasonSpec S = find (\<lambda>r. \<exists>v \<in> S. vdUsage v = UsageUnavailable \<and> vdReason v = r) reasonPriority"

definition projectSpec :: "verdict set \<Rightarrow> verdict" where
  "projectSpec S =
     (if S = {} then unavailableVerdict ReasonContainerNotObserved ''''
      else if \<exists>v \<in> S. vdUsage v = UsageInUse then
        inUseVerdict (sorted_list_of_set (\<Union>v \<in> {v \<in> S. vdUsage v = UsageInUse}. set (vdEvidenceKinds v)))
      else (case reasonSpec S of
              Some reason \<Rightarrow> unavailableVerdict reason (coverageSpec S)
            | None \<Rightarrow> notObservedVerdict (coverageSpec S)))"

text \<open>Every unavailable verdict carries one of the reasons of the priority table.\<close>

definition reasonsKnown :: "verdict list \<Rightarrow> bool" where
  "reasonsKnown vs \<longleftrightarrow> (\<forall>v \<in> set vs. vdUsage v = UsageUnavailable \<longrightarrow> vdReason v \<in> set reasonPriority)"

lemma worstLoop_spec:
  "n \<le> 2 \<Longrightarrow> worstLoop w n vs =
     (if n = 0 then w
      else if \<exists>v \<in> set vs. vdEventsCoverage v \<in> {'''', CoverageNone} then CoverageNone
      else if n = 2 \<and> (\<exists>v \<in> set vs. vdEventsCoverage v = CoveragePartial) then CoveragePartial
      else w)"
proof (induction vs arbitrary: w n)
  case (Cons v vs)
  consider "vdEventsCoverage v \<in> {'''', CoverageNone}" | "vdEventsCoverage v = CoveragePartial"
    | "vdEventsCoverage v \<notin> {'''', CoverageNone, CoveragePartial}" by blast
  then show ?case
  proof cases
    case 1
    then show ?thesis using Cons.IH [of 0] Cons.IH [OF Cons.prems] by (auto simp: coverageRanks_def Let_def)
  next
    case 2
    then show ?thesis using Cons.IH [of 1] Cons.IH [OF Cons.prems] Cons.prems by (auto simp: coverageRanks_def Let_def)
  next
    case 3
    then show ?thesis using Cons.IH [OF Cons.prems] Cons.prems by (auto simp: coverageRanks_def Let_def)
  qed
qed auto

lemma worstCoverage_spec: "worstCoverage vs = coverageSpec (set vs)"
  by (simp add: worstCoverage_def worstLoop_spec coverageSpec_def)

lemma rankIn_less: "rankIn xs r < length xs \<longleftrightarrow> r \<in> set xs"
  by (induction xs) auto

lemma rankIn_inject: "r \<in> set xs \<Longrightarrow> rankIn xs r = rankIn xs r' \<Longrightarrow> r = r'"
  by (induction xs) (auto split: if_splits)

lemma find_min_rank:
  assumes "r \<in> set xs" "P r" "\<And>q. P q \<Longrightarrow> q \<in> set xs \<Longrightarrow> rankIn xs r \<le> rankIn xs q"
  shows "find P xs = Some r"
  using assms
proof (induction xs)
  case (Cons x xs)
  show ?case
  proof (cases "x = r")
    case True
    with Cons.prems show ?thesis by simp
  next
    case False
    have "\<not> P x" using Cons.prems(3) [of x] False by auto
    moreover have "find P xs = Some r"
    proof (rule Cons.IH)
      show "r \<in> set xs" "P r" using Cons.prems False by auto
      show "rankIn xs r \<le> rankIn xs q" if "P q" "q \<in> set xs" for q
        using Cons.prems(3) [of q] that False \<open>\<not> P x\<close> by (auto split: if_splits)
    qed
    ultimately show ?thesis by simp
  qed
qed simp

text \<open>The loop keeps a reason of least rank among those seen.\<close>

lemma strongestLoop_least:
  "(strongestLoop best vs = None \<longleftrightarrow> best = None \<and> (\<forall>v \<in> set vs. vdUsage v \<noteq> UsageUnavailable))
   \<and> (\<forall>r. strongestLoop best vs = Some r \<longrightarrow>
        (best = Some r \<or> (\<exists>v \<in> set vs. vdUsage v = UsageUnavailable \<and> vdReason v = r))
        \<and> (\<forall>v \<in> set vs. vdUsage v = UsageUnavailable \<longrightarrow> reasonRank r \<le> reasonRank (vdReason v))
        \<and> (\<forall>b. best = Some b \<longrightarrow> reasonRank r \<le> reasonRank b))"
proof (induction vs arbitrary: best)
  case (Cons v vs)
  show ?case
    using Cons.IH [of best] Cons.IH [of "Some (vdReason v)"]
    by (cases best) (auto simp: not_less intro: order_trans less_imp_le)
qed auto

lemma strongest_spec: "reasonsKnown vs \<Longrightarrow> strongestUnavailableReason vs = reasonSpec (set vs)"
proof (cases "strongestLoop None vs")
  case None
  then have "\<forall>v \<in> set vs. vdUsage v \<noteq> UsageUnavailable" using strongestLoop_least by blast
  with None show ?thesis
    by (auto simp: strongestUnavailableReason_def reasonSpec_def find_None_iff [THEN iffD2])
next
  case (Some r)
  assume k: "reasonsKnown vs"
  have l: "\<exists>v \<in> set vs. vdUsage v = UsageUnavailable \<and> vdReason v = r"
    "\<forall>v \<in> set vs. vdUsage v = UsageUnavailable \<longrightarrow> reasonRank r \<le> reasonRank (vdReason v)"
    using Some strongestLoop_least [of None vs] by auto
  have "reasonSpec (set vs) = Some r"
    unfolding reasonSpec_def
    by (rule find_min_rank) (use l k in \<open>auto simp: reasonsKnown_def reasonRank_def\<close>)
  with Some show ?thesis by (simp add: strongestUnavailableReason_def)
qed

lemma ProjectGroup_spec: "reasonsKnown vs \<Longrightarrow> ProjectGroup vs = projectSpec (set vs)"
  using mergeInUse_spec [OF kindsState_start, of False vs]
  by (simp add: ProjectGroup_def projectSpec_def strongest_spec worstCoverage_spec split: option.splits)

text \<open>
  C25. A projection does not depend on how the verdicts are listed: two lists with the same verdicts,
  in any order and multiplicity, project to the same verdict, whenever every unavailable one gives
  a reason of the priority table.
\<close>

theorem ProjectGroup_order:
  assumes "set vs = set ws" "reasonsKnown vs"
  shows "ProjectGroup vs = ProjectGroup ws"
proof -
  have "reasonsKnown ws" using assms by (simp add: reasonsKnown_def)
  with assms show ?thesis using ProjectGroup_spec [of vs] ProjectGroup_spec [of ws] by simp
qed

theorem ProjectGroup_order_witness:
  "(let a = unavailableVerdict ReasonStalled CoveragePartial; b = unavailableVerdict ReasonSensorStale '''' in
      ProjectGroup [a, b] = ProjectGroup [b, a, b]
      \<and> ProjectGroup [a, b] = unavailableVerdict ReasonSensorStale CoverageNone)"
proof -
  let ?a = "unavailableVerdict ReasonStalled CoveragePartial"
  let ?b = "unavailableVerdict ReasonSensorStale ''''"
  have "ProjectGroup [?a, ?b] = ProjectGroup [?b, ?a, ?b]"
    by (rule ProjectGroup_order) (auto simp: reasonsKnown_def reasonPriority_def)
  moreover have "ProjectGroup [?a, ?b] = unavailableVerdict ReasonSensorStale CoverageNone"
    by code_simp
  ultimately show ?thesis by (simp add: Let_def)
qed

text \<open>The facts a two-stage projection rests on: what the projection of a non-empty list carries.\<close>

lemma projectSpec_usage:
  "S \<noteq> {} \<Longrightarrow> vdUsage (projectSpec S) = UsageInUse \<longleftrightarrow> (\<exists>v \<in> S. vdUsage v = UsageInUse)"
  by (auto simp: projectSpec_def split: option.splits)

lemma projectSpec_coverage:
  "S \<noteq> {} \<Longrightarrow> \<not> (\<exists>v \<in> S. vdUsage v = UsageInUse) \<Longrightarrow> vdEventsCoverage (projectSpec S) = coverageSpec S"
  by (auto simp: projectSpec_def split: option.splits)

lemma projectSpec_kinds:
  "finite S \<Longrightarrow> \<exists>v \<in> S. vdUsage v = UsageInUse \<Longrightarrow>
     set (vdEvidenceKinds (projectSpec S)) = (\<Union>v \<in> {v \<in> S. vdUsage v = UsageInUse}. set (vdEvidenceKinds v))"
  by (auto simp: projectSpec_def)

lemma projectSpec_unavailable:
  "S \<noteq> {} \<Longrightarrow> \<not> (\<exists>v \<in> S. vdUsage v = UsageInUse) \<Longrightarrow>
     vdUsage (projectSpec S) = UsageUnavailable \<and> vdReason (projectSpec S) = r \<longleftrightarrow> reasonSpec S = Some r"
  by (auto simp: projectSpec_def split: option.splits)

lemma coverageSpec_values: "coverageSpec S \<in> {CoverageNone, CoveragePartial, CoverageSinceStart}"
  by (simp add: coverageSpec_def)

lemma coverageSpec_cases:
  "coverageSpec S = CoverageNone \<longleftrightarrow> (\<exists>v \<in> S. vdEventsCoverage v \<in> {'''', CoverageNone})"
  "coverageSpec S \<noteq> ''''"
  "coverageSpec S = CoveragePartial \<longleftrightarrow> \<not> (\<exists>v \<in> S. vdEventsCoverage v \<in> {'''', CoverageNone})
     \<and> (\<exists>v \<in> S. vdEventsCoverage v = CoveragePartial)"
  by (auto simp: coverageSpec_def)

lemma find_rank_le: "find P xs = Some q \<Longrightarrow> P r \<Longrightarrow> rankIn xs q \<le> rankIn xs r"
  by (induction xs) (auto split: if_splits)

lemma reasonSpec_priority:
  "reasonSpec S = Some r \<Longrightarrow> r \<in> set reasonPriority \<and> (\<exists>v \<in> S. vdUsage v = UsageUnavailable \<and> vdReason v = r)"
  by (auto simp: reasonSpec_def find_Some_iff)

lemma reasonSpec_None:
  "reasonSpec S = None \<longleftrightarrow> \<not> (\<exists>v \<in> S. vdUsage v = UsageUnavailable \<and> vdReason v \<in> set reasonPriority)"
  by (auto simp: reasonSpec_def find_None_iff)

text \<open>Projecting a family of non-empty sets and then their projections is projecting the union.\<close>

lemma reasonSpec_nested:
  assumes ne: "\<And>S. S \<in> F \<Longrightarrow> S \<noteq> {}" and nu: "\<not> (\<exists>v \<in> \<Union> F. vdUsage v = UsageInUse)"
  shows "reasonSpec (projectSpec ` F) = reasonSpec (\<Union> F)"
proof -
  have un: "vdUsage (projectSpec S) = UsageUnavailable \<and> vdReason (projectSpec S) = r \<longleftrightarrow> reasonSpec S = Some r"
    if "S \<in> F" for S r
    using projectSpec_unavailable [of S r] ne [OF that] nu that by blast
  show ?thesis
  proof (cases "reasonSpec (\<Union> F)")
    case None
    then have "\<And>S r. S \<in> F \<Longrightarrow> reasonSpec S \<noteq> Some r"
      using reasonSpec_priority unfolding reasonSpec_None by blast
    then have "reasonSpec (projectSpec ` F) = None" unfolding reasonSpec_None using un by fastforce
    with None show ?thesis by simp
  next
    case (Some r)
    have le: "rankIn reasonPriority r \<le> rankIn reasonPriority q" if "S \<in> F" "reasonSpec S = Some q" for S q
      using Some find_rank_le [of _ reasonPriority r q] reasonSpec_priority [OF that(2)] that(1)
      unfolding reasonSpec_def by blast
    obtain S v where S: "S \<in> F" "v \<in> S" "vdUsage v = UsageUnavailable" "vdReason v = r" "r \<in> set reasonPriority"
      using reasonSpec_priority [OF Some] by blast
    then obtain q where q: "reasonSpec S = Some q" using reasonSpec_None [of S] by blast
    have "rankIn reasonPriority q \<le> rankIn reasonPriority r"
      using q S find_rank_le [of _ reasonPriority q r] unfolding reasonSpec_def by blast
    then have "q = r" using le [OF S(1) q] rankIn_inject [OF S(5), of q] by (metis order.antisym)
    have "reasonSpec (projectSpec ` F) = Some r"
      unfolding reasonSpec_def
    proof (rule find_min_rank)
      show "r \<in> set reasonPriority" by (rule S)
      show "\<exists>v \<in> projectSpec ` F. vdUsage v = UsageUnavailable \<and> vdReason v = r"
        using un [OF S(1), of r] q \<open>q = r\<close> S(1) by blast
      show "rankIn reasonPriority r \<le> rankIn reasonPriority p"
        if "\<exists>v \<in> projectSpec ` F. vdUsage v = UsageUnavailable \<and> vdReason v = p" for p
        using that un le by blast
    qed
    with Some show ?thesis by simp
  qed
qed

lemma coverageSpec_nested:
  assumes ne: "\<And>S. S \<in> F \<Longrightarrow> S \<noteq> {}" and nu: "\<not> (\<exists>v \<in> \<Union> F. vdUsage v = UsageInUse)"
  shows "coverageSpec (projectSpec ` F) = coverageSpec (\<Union> F)"
proof -
  have c: "vdEventsCoverage (projectSpec S) = coverageSpec S" if "S \<in> F" for S
    using projectSpec_coverage [of S] ne [OF that] nu that by blast
  have n: "(\<exists>v \<in> projectSpec ` F. vdEventsCoverage v \<in> {'''', CoverageNone})
      \<longleftrightarrow> (\<exists>v \<in> \<Union> F. vdEventsCoverage v \<in> {'''', CoverageNone})"
    using c coverageSpec_cases(1,2) by fastforce
  show ?thesis
  proof (cases "\<exists>v \<in> \<Union> F. vdEventsCoverage v \<in> {'''', CoverageNone}")
    case True
    with n show ?thesis by (simp add: coverageSpec_def)
  next
    case False
    have "coverageSpec S = CoveragePartial \<longleftrightarrow> (\<exists>v \<in> S. vdEventsCoverage v = CoveragePartial)" if "S \<in> F" for S
      using coverageSpec_cases(3) [of S] False that by blast
    then have "(\<exists>v \<in> projectSpec ` F. vdEventsCoverage v = CoveragePartial)
        \<longleftrightarrow> (\<exists>v \<in> \<Union> F. vdEventsCoverage v = CoveragePartial)"
      using c by auto
    with False n show ?thesis by (simp only: coverageSpec_def if_False)
  qed
qed

lemma projectSpec_nested:
  assumes ne: "\<And>S. S \<in> F \<Longrightarrow> S \<noteq> {} \<and> finite S" and F: "F \<noteq> {}" "finite F"
  shows "projectSpec (projectSpec ` F) = projectSpec (\<Union> F)"
proof (cases "\<exists>v \<in> \<Union> F. vdUsage v = UsageInUse")
  case True
  have use: "vdUsage (projectSpec S) = UsageInUse \<longleftrightarrow> (\<exists>v \<in> S. vdUsage v = UsageInUse)" if "S \<in> F" for S
    using projectSpec_usage ne [OF that] by blast
  have "(\<Union>v \<in> {v \<in> projectSpec ` F. vdUsage v = UsageInUse}. set (vdEvidenceKinds v))
      = (\<Union>S \<in> {S \<in> F. \<exists>v \<in> S. vdUsage v = UsageInUse}. set (vdEvidenceKinds (projectSpec S)))"
    using use by auto
  also have "\<dots> = (\<Union>S \<in> {S \<in> F. \<exists>v \<in> S. vdUsage v = UsageInUse}.
      \<Union>v \<in> {v \<in> S. vdUsage v = UsageInUse}. set (vdEvidenceKinds v))"
    by (intro SUP_cong) (use ne projectSpec_kinds in auto)
  also have "\<dots> = (\<Union>v \<in> {v \<in> \<Union> F. vdUsage v = UsageInUse}. set (vdEvidenceKinds v))"
    by blast
  finally have k: "(\<Union>v \<in> {v \<in> projectSpec ` F. vdUsage v = UsageInUse}. set (vdEvidenceKinds v))
      = (\<Union>v \<in> {v \<in> \<Union> F. vdUsage v = UsageInUse}. set (vdEvidenceKinds v))" .
  have "\<exists>v \<in> projectSpec ` F. vdUsage v = UsageInUse" using True use by blast
  moreover have "\<Union> F \<noteq> {}" using ne F by blast
  ultimately show ?thesis
    unfolding projectSpec_def [of "projectSpec ` F"] projectSpec_def [of "\<Union> F"] k
    using True F by simp
next
  case False
  have "vdUsage (projectSpec S) \<noteq> UsageInUse" if "S \<in> F" for S
    using projectSpec_usage [of S] ne [OF that] False that by blast
  then have nu: "\<not> (\<exists>v \<in> projectSpec ` F. vdUsage v = UsageInUse)" by blast
  have ne': "\<And>S. S \<in> F \<Longrightarrow> S \<noteq> {}" using ne by simp
  note r = reasonSpec_nested [OF ne' False] and c = coverageSpec_nested [OF ne' False]
  have "\<Union> F \<noteq> {}" "projectSpec ` F \<noteq> {}" using ne F by blast+
  with False nu r c show ?thesis
    by (simp only: projectSpec_def [of "projectSpec ` F"] projectSpec_def [of "\<Union> F"] if_False)
qed

text \<open>
  Folding in two stages is folding once: projecting the verdicts of each container and then the
  containers' verdicts gives the projection of all verdicts together (usage, reason, evidence kinds
  and event coverage), when no container is without verdicts and every reason is a known one.
\<close>

lemma ProjectGroup_nested:
  assumes "vss \<noteq> []" "\<forall>vs \<in> set vss. vs \<noteq> [] \<and> reasonsKnown vs"
  shows "ProjectGroup (map ProjectGroup vss) = ProjectGroup (concat vss)"
proof -
  have k: "reasonsKnown (concat vss)" using assms by (auto simp: reasonsKnown_def)
  have m: "set (map ProjectGroup vss) = projectSpec ` (set ` set vss)"
    using assms ProjectGroup_spec by force
  have "vdReason v \<in> set reasonPriority"
    if v: "v \<in> projectSpec ` (set ` set vss)" "vdUsage v = UsageUnavailable" for v
  proof -
    obtain S where S: "S \<in> set ` set vss" "v = projectSpec S" using v by blast
    then have "S \<noteq> {}" using assms by auto
    moreover from this have "\<not> (\<exists>w \<in> S. vdUsage w = UsageInUse)"
      using projectSpec_usage [of S] S v(2) by auto
    ultimately have "reasonSpec S = Some (vdReason v)" using projectSpec_unavailable S v(2) by blast
    then show ?thesis using reasonSpec_priority by blast
  qed
  then have "reasonsKnown (map ProjectGroup vss)" unfolding reasonsKnown_def m by blast
  then have "ProjectGroup (map ProjectGroup vss) = projectSpec (projectSpec ` (set ` set vss))"
    using ProjectGroup_spec m by metis
  also have "\<dots> = projectSpec (\<Union> (set ` set vss))"
    using assms by (intro projectSpec_nested) auto
  also have "\<dots> = ProjectGroup (concat vss)" using ProjectGroup_spec [OF k] by simp
  finally show ?thesis .
qed

end
