(* ===== verification/Report.thy ===== *)
theory Report
  imports Complex_Main Evidence
begin

section \<open>Scan results and the triaged report: the data\<close>

text \<open>
  The data of \<open>internal/scanner/scanner.go\<close> (what one image scan returns) and of
  \<open>internal/analyze\<close> (the report built from the scans), one record per struct. Errors are the
  texts they render to, \<open>nil\<close> pointers are \<open>None\<close>, and a \<open>float64\<close> is a rational number, an
  infinity or NaN with the comparisons of IEEE 754 (every finite float is rational, and only
  comparisons are ever made on one).
\<close>

subsection \<open>Floating point comparisons\<close>

datatype float64 = NaN | NegInf | Fin rat | PosInf

fun f64_less :: "float64 \<Rightarrow> float64 \<Rightarrow> bool" where
  "f64_less NaN b = False"
| "f64_less a NaN = False"
| "f64_less a NegInf = False"
| "f64_less NegInf b = True"
| "f64_less PosInf b = False"
| "f64_less a PosInf = True"
| "f64_less (Fin x) (Fin y) = (x < y)"

definition f64_eq :: "float64 \<Rightarrow> float64 \<Rightarrow> bool" where
  "f64_eq a b \<longleftrightarrow> a \<noteq> NaN \<and> a = b"

definition f64_ge :: "float64 \<Rightarrow> float64 \<Rightarrow> bool" where
  "f64_ge a b \<longleftrightarrow> f64_less b a \<or> f64_eq a b"

subsection \<open>Scanner results (scanner.go)\<close>

abbreviation StatusFixed :: string where "StatusFixed \<equiv> ''fixed''"
abbreviation StatusAffected :: string where "StatusAffected \<equiv> ''affected''"
abbreviation StatusWontFix :: string where "StatusWontFix \<equiv> ''will_not_fix''"
abbreviation StatusEndOfLife :: string where "StatusEndOfLife \<equiv> ''end_of_life''"
abbreviation StatusNotAffected :: string where "StatusNotAffected \<equiv> ''not_affected''"

abbreviation SeverityMedium :: string where "SeverityMedium \<equiv> ''MEDIUM''"
abbreviation SeverityLow :: string where "SeverityLow \<equiv> ''LOW''"
abbreviation SeverityHigh :: string where "SeverityHigh \<equiv> ''HIGH''"
abbreviation SeverityCritical :: string where "SeverityCritical \<equiv> ''CRITICAL''"

record finding =
  fdImage :: string
  fdClass :: string
  fdPackage :: string
  fdInstalledVer :: string
  fdFixedVer :: string
  fdStatus :: string
  fdSeverity :: string
  fdVulnID :: string
  fdURL :: string
  fdTitle :: string
  fdType :: string
  fdTarget :: string
  fdPkgPath :: string
  fdLayerDiffID :: string
  fdLayerDigest :: string

definition Finding_PackageRef :: "finding \<Rightarrow> package_ref" where
  "Finding_PackageRef f =
     \<lparr>prEcosystem = ParseEcosystem (fdType f), prClass = fdClass f, prName = fdPackage f,
      prVersion = fdInstalledVer f\<rparr>"

abbreviation SourceLocal :: string where "SourceLocal \<equiv> ''local''"
abbreviation SourceRemote :: string where "SourceRemote \<equiv> ''remote''"

record package =
  pkName :: string
  pkVersion :: string
  pkPkgPath :: string
  pkRelationship :: string
  pkID :: string
  pkDependsOn :: "string list"

record result_packages =
  rsTarget :: string
  rsClass :: string
  rsType :: string
  rsPackages :: "package list"

record image_scan =
  snImage :: string
  snOSFamily :: string
  snOSName :: string
  snOSEOSL :: bool
  snFindings :: "finding list"
  snErr :: "string option"
  snCause :: string
  snRegistryHost :: string
  snSubject :: image_subject
  snScannedKey :: entity_key
  snRegistryDigests :: "string list"
  snPlatform :: platform
  snPinned :: bool
  snSource :: string
  snComposeProject :: string
  snComposeService :: string
  snDiffIDs :: "string list"
  snTrivyVersion :: string
  snPackages :: "result_packages list"
  snPackagesTruncated :: bool
  snConfigEnv :: "string list"
  snRuntimeUnchecked :: "string list"

subsection \<open>Triage data (triage.go)\<close>

abbreviation PriorityNone :: string where "PriorityNone \<equiv> ''''"
abbreviation PriorityLow :: string where "PriorityLow \<equiv> ''low''"
abbreviation PriorityWatch :: string where "PriorityWatch \<equiv> ''watch''"
abbreviation PriorityActNow :: string where "PriorityActNow \<equiv> ''act_now''"

record enrichment =
  erKEV :: bool
  erRansomware :: bool
  erEPSS :: float64
  erEPSSKnown :: bool
  erKEVNoteURL :: string

definition zeroEnrichment :: enrichment where
  "zeroEnrichment = \<lparr>erKEV = False, erRansomware = False, erEPSS = Fin 0, erEPSSKnown = False, erKEVNoteURL = ''''\<rparr>"

record ref_link =
  rfKind :: string
  rfLabel :: string
  rfURL :: string

record intel_status =
  itKEVOK :: bool
  itEPSSOK :: bool
  itStaleDays :: int

record triage =
  trEnabled :: bool
  trActNowEPSS :: float64
  trWatchEPSS :: float64
  trEnrich :: "(string, enrichment) gmap"
  trRefs :: "(string, ref_link list) gmap"
  trIntel :: intel_status

record vuln_ref =
  vrID :: string
  vrSeverity :: string
  vrURL :: string
  vrTitle :: string
  vrStatus :: string
  vrKEV :: bool
  vrRansomware :: bool
  vrEPSS :: float64
  vrEPSSKnown :: bool
  vrPriority :: string
  vrRefs :: "ref_link list"

subsection \<open>Runtime verdicts attached to a package group (runtime.go, runtime_exposure.go)\<close>

record runtime_info =
  inSensor :: sensor_info
  inLoadFailed :: bool
  inNotReporting :: bool

abbreviation ExposureUnknown :: string where "ExposureUnknown \<equiv> ''unknown''"
abbreviation ExposureContainerListening :: string where "ExposureContainerListening \<equiv> ''container_listening''"
abbreviation ExposureHostPublishedLoopback :: string where "ExposureHostPublishedLoopback \<equiv> ''host_published_loopback''"
abbreviation ExposureHostPublishedAll :: string where "ExposureHostPublishedAll \<equiv> ''host_published_all''"

definition exposureRanks :: "(string, int) gmap" where
  "exposureRanks = [(ExposureUnknown, 0), (ExposureContainerListening, 1),
     (ExposureHostPublishedLoopback, 2), (ExposureHostPublishedAll, 3)]"

definition exposureRank :: "string \<Rightarrow> int" where
  "exposureRank e = mget 0 exposureRanks e"

record container_process =
  cpExe :: string
  cpEffectiveUID :: int
  cpUserns :: bool
  cpDangerousCaps :: "string list"
  cpPrivileged :: bool

record instance_runtime =
  nrType :: string
  nrTarget :: string
  nrPkgPath :: string
  nrUsage :: string
  nrReason :: string

record container_runtime =
  cnContainerID :: string
  cnName :: string
  cnGenerationStartedAt :: gtime
  cnUsage :: string
  cnReason :: string
  cnEvidenceKinds :: "string list"
  cnKindsAmbiguous :: bool
  cnProcessExes :: "string list"
  cnLastSeen :: gtime
  cnPorts :: "string list"
  cnExposure :: string
  cnHighPrivilege :: bool
  cnHasProcess :: bool
  cnProcess :: container_process
  cnInstances :: "instance_runtime list"

record runtime_verdict =
  rtUsage :: string
  rtReason :: string
  rtEvidenceKinds :: "string list"
  rtEventsCoverage :: string
  rtExposure :: string
  rtHighPrivilege :: bool
  rtContainers :: "container_runtime list"

definition zeroRuntime :: runtime_verdict where
  "zeroRuntime = \<lparr>rtUsage = '''', rtReason = '''', rtEvidenceKinds = [], rtEventsCoverage = '''',
     rtExposure = '''', rtHighPrivilege = False, rtContainers = []\<rparr>"

subsection \<open>The report (analyze.go)\<close>

abbreviation RiskNone :: string where "RiskNone \<equiv> ''''"
abbreviation RiskDistroUpdate :: string where "RiskDistroUpdate \<equiv> ''distro_update''"
abbreviation RiskSafe :: string where "RiskSafe \<equiv> ''safe''"
abbreviation RiskCaution :: string where "RiskCaution \<equiv> ''caution''"
abbreviation RiskUnknown :: string where "RiskUnknown \<equiv> ''unknown''"

record instanceOf =
  icPackageRef :: package_ref
  icType :: string
  icTarget :: string
  icPkgPath :: string

record package_group =
  pgPackage :: string
  pgClass :: string
  pgInstalledVer :: string
  pgFixedVer :: string
  pgStatus :: string
  pgRisk :: string
  pgCritical :: nat
  pgHigh :: nat
  pgMedium :: nat
  pgLow :: nat
  pgUnknown :: nat
  pgVulns :: "vuln_ref list"
  pgPriority :: string
  pgURL :: string
  pgEcosystem :: string
  pgInstances :: "instanceOf list"
  pgLayerDiffIDs :: "string list"
  pgRuntime :: runtime_verdict
  pgMuted :: bool
  pgMutedReason :: string

record severity_counts =
  svCritical :: nat
  svHigh :: nat
  svMedium :: nat
  svLow :: nat
  svUnknown :: nat

record image_findings =
  ifImage :: string
  ifSubject :: image_subject
  ifPinned :: bool
  ifPackages :: "package_group list"
  ifContainers :: "container list"

record runtime_unchecked_ref =
  ruImage :: string
  ruPackage :: string

record scan_error =
  seImage :: string
  seErr :: string
  seCause :: string
  seRegistry :: string
  seSubject :: image_subject

record image_observation =
  obRef :: string
  obContentIDs :: "string list"
  obRegistryDigests :: "string list"
  obAmbiguous :: bool
  obConfigIdentityResolved :: bool
  obScanFailed :: bool
  obPartialFailure :: bool
  obUnconfirmed :: bool
  obContainers :: "container list"

record report =
  rpImagesTotal :: nat
  rpEOSLImages :: "string list"
  rpActionable :: "image_findings list"
  rpWatch :: "image_findings list"
  rpWontFix :: "image_findings list"
  rpEOLPackages :: "image_findings list"
  rpScanErrors :: "scan_error list"
  rpImages :: "image_observation list"
  rpUnconfirmedRefs :: "string list"
  rpRuntimeUnchecked :: "runtime_unchecked_ref list"
  rpTriage :: bool
  rpIntel :: intel_status
  rpGeneratedAt :: gtime
  rpEnvironment :: environment
  rpRuntime :: "runtime_info option"
  rpGenericWebhookConfigured :: bool

text \<open>The four status sections, in the order every reader walks them.\<close>

definition sections :: "report \<Rightarrow> image_findings list list" where
  "sections r = [rpActionable r, rpWatch r, rpWontFix r, rpEOLPackages r]"

lemma f64_less_irrefl [simp]: "\<not> f64_less a a"
  by (cases a) auto

lemma f64_less_trans: "f64_less a b \<Longrightarrow> f64_less b c \<Longrightarrow> f64_less a c"
  by (cases a; cases b; cases c) auto

lemma f64_total: "a \<noteq> NaN \<Longrightarrow> b \<noteq> NaN \<Longrightarrow> f64_less a b \<or> a = b \<or> f64_less b a"
  by (cases a; cases b) auto

end
