(* ===== verification/Triage.thy ===== *)
theory Triage
  imports Report
begin

section \<open>Triage: the priority of a vulnerability\<close>

text \<open>
  \<open>internal/analyze/triage.go\<close>, the rules: exploitation intel and severity give each
  vulnerability a priority, and a package group shows its strongest one. The lemmas show the rule
  table, that stronger evidence never lowers a priority, and that the order of a group's
  vulnerabilities is determined by the vulnerabilities alone.
\<close>

subsection \<open>The rules\<close>

definition Rank :: "string \<Rightarrow> int" where
  "Rank p =
     (if p = PriorityActNow then 3 else if p = PriorityWatch then 2 else if p = PriorityLow then 1 else 0)"

definition Degraded :: "intel_status \<Rightarrow> bool" where
  "Degraded s \<longleftrightarrow> \<not> itKEVOK s \<and> \<not> itEPSSOK s"

definition SignalsActNow :: "triage \<Rightarrow> enrichment \<Rightarrow> bool" where
  "SignalsActNow tr e \<longleftrightarrow> erKEV e \<or> (erEPSSKnown e \<and> f64_ge (erEPSS e) (trActNowEPSS tr))"

definition priorityOf :: "triage \<Rightarrow> string \<Rightarrow> enrichment \<Rightarrow> string \<Rightarrow> string" where
  "priorityOf tr sev e status =
     (if \<not> trEnabled tr then PriorityNone
      else if Degraded (trIntel tr) then
        (if sev = SeverityCritical then PriorityActNow else PriorityWatch)
      else if SignalsActNow tr e then PriorityActNow
      else (let p = (if (erEPSSKnown e \<and> f64_ge (erEPSS e) (trWatchEPSS tr)) \<or> sev = SeverityCritical
                     then PriorityWatch else PriorityLow)
            in if status = StatusWontFix \<and> p = PriorityWatch then PriorityLow else p))"

definition buildRefs :: "enrichment \<Rightarrow> ref_link list \<Rightarrow> ref_link list" where
  "buildRefs e extra =
     (if erKEVNoteURL e \<noteq> '''' then
        [\<lparr>rfKind = ''vendor'', rfLabel = ''vendor advisory'', rfURL = erKEVNoteURL e\<rparr>] else []) @ extra"

definition lessVuln :: "vuln_ref \<Rightarrow> vuln_ref \<Rightarrow> bool" where
  "lessVuln a b =
     (if Rank (vrPriority a) \<noteq> Rank (vrPriority b) then Rank (vrPriority a) > Rank (vrPriority b)
      else if vrEPSSKnown a \<noteq> vrEPSSKnown b then vrEPSSKnown a
      else if \<not> f64_eq (vrEPSS a) (vrEPSS b) then f64_less (vrEPSS b) (vrEPSS a)
      else vrID a < vrID b)"

definition sortVulns :: "vuln_ref list \<Rightarrow> vuln_ref list" where
  "sortVulns vulns = sortBy lessVuln vulns"

fun maxPriorityLoop :: "string \<Rightarrow> package_group list \<Rightarrow> string" where
  "maxPriorityLoop m [] = m"
| "maxPriorityLoop m (g # gs) =
     (if Rank (pgPriority g) > Rank m then maxPriorityLoop (pgPriority g) gs else maxPriorityLoop m gs)"

definition MaxPriority :: "package_group list \<Rightarrow> string" where
  "MaxPriority groups = maxPriorityLoop PriorityNone groups"

subsection \<open>The rule table\<close>

lemma Rank_simps [simp]:
  "Rank PriorityNone = 0" "Rank PriorityLow = 1" "Rank PriorityWatch = 2" "Rank PriorityActNow = 3"
  by (simp_all add: Rank_def)

text \<open>
  The rule table of the triage, with triage on. Without usable intel the severity decides and
  nothing is low. With intel, a vulnerability is act-now exactly when it is known to be exploited or
  likely enough to be, whatever the severity and whether or not a fix exists; and it is low exactly
  when neither the likelihood nor the severity puts it on watch, or the vendor will not fix it.
\<close>

lemma priorityOf_table:
  assumes "trEnabled tr"
  shows "(priorityOf tr sev e status = PriorityActNow \<longleftrightarrow>
       (if Degraded (trIntel tr) then sev = SeverityCritical else SignalsActNow tr e))
    \<and> (priorityOf tr sev e status = PriorityLow \<longleftrightarrow>
       \<not> Degraded (trIntel tr) \<and> \<not> SignalsActNow tr e
       \<and> (status = StatusWontFix
          \<or> \<not> ((erEPSSKnown e \<and> f64_ge (erEPSS e) (trWatchEPSS tr)) \<or> sev = SeverityCritical)))
    \<and> priorityOf tr sev e status \<in> {PriorityActNow, PriorityWatch, PriorityLow}"
  using assms by (simp add: priorityOf_def Let_def)

definition sampleTriage :: triage where
  "sampleTriage = \<lparr>trEnabled = True, trActNowEPSS = Fin (1/10), trWatchEPSS = Fin (1/100),
     trEnrich = [(''CVE-1'', \<lparr>erKEV = True, erRansomware = False, erEPSS = Fin (1/2), erEPSSKnown = True,
        erKEVNoteURL = ''''\<rparr>)], trRefs = [], trIntel = \<lparr>itKEVOK = True, itEPSSOK = True, itStaleDays = 0\<rparr>\<rparr>"

lemma f64_ge_trans: "f64_ge a b \<Longrightarrow> f64_ge b c \<Longrightarrow> f64_ge a c"
  by (auto simp: f64_ge_def f64_eq_def intro: f64_less_trans)

text \<open>One body of evidence is at least as strong as another.\<close>

definition strongerEvidence :: "enrichment \<Rightarrow> enrichment \<Rightarrow> bool" where
  "strongerEvidence e e' \<longleftrightarrow>
     (erKEV e \<longrightarrow> erKEV e') \<and> (erEPSSKnown e \<longrightarrow> erEPSSKnown e' \<and> f64_ge (erEPSS e') (erEPSS e))"

text \<open>
  Stronger evidence never lowers a priority: learning that a vulnerability is exploited, a higher
  exploitation score, or a critical severity keeps or raises its rank.
\<close>

lemma priorityOf_mono:
  assumes "strongerEvidence e e'" "sev = SeverityCritical \<longrightarrow> sev' = SeverityCritical"
  shows "Rank (priorityOf tr sev e status) \<le> Rank (priorityOf tr sev' e' status)"
proof -
  have ge: "erEPSSKnown e' \<and> f64_ge (erEPSS e') t" if "erEPSSKnown e" "f64_ge (erEPSS e) t" for t
    using assms(1) that f64_ge_trans unfolding strongerEvidence_def by blast
  then have "SignalsActNow tr e \<Longrightarrow> SignalsActNow tr e'"
    using assms(1) unfolding SignalsActNow_def strongerEvidence_def by blast
  then show ?thesis using assms(2) ge [of "trWatchEPSS tr"] by (simp add: priorityOf_def Let_def)
qed

subsection \<open>The order of a group's vulnerabilities\<close>

text \<open>A total key of a score, which orders numbers as they are; NaN is put below them.\<close>

fun f64_rank :: "float64 \<Rightarrow> nat" where
  "f64_rank NaN = 0" | "f64_rank NegInf = 1" | "f64_rank (Fin x) = 2" | "f64_rank PosInf = 3"

fun f64_value :: "float64 \<Rightarrow> rat" where
  "f64_value (Fin x) = x" | "f64_value a = 0"

definition lessVulnKey :: "vuln_ref \<Rightarrow> vuln_ref \<Rightarrow> bool" where
  "lessVulnKey =
     ltThen (\<lambda>a b. Rank (vrPriority b) < Rank (vrPriority a))
       (ltThen (\<lambda>a b. vrEPSSKnown b < vrEPSSKnown a)
         (ltThen (\<lambda>a b. f64_rank (vrEPSS b) < f64_rank (vrEPSS a))
           (ltThen (\<lambda>a b. f64_value (vrEPSS b) < f64_value (vrEPSS a)) (\<lambda>a b. vrID a < vrID b))))"

lemma f64_less_key:
  "a \<noteq> NaN \<Longrightarrow> f64_less a b \<longleftrightarrow> f64_rank a < f64_rank b \<or> (f64_rank a = f64_rank b \<and> f64_value a < f64_value b)"
  by (cases a; cases b) auto

lemma f64_key_eq: "a = b \<longleftrightarrow> f64_rank a = f64_rank b \<and> f64_value a = f64_value b"
  by (cases a; cases b) auto

lemma lessVuln_key: "vrEPSS a \<noteq> NaN \<Longrightarrow> vrEPSS b \<noteq> NaN \<Longrightarrow> lessVuln a b = lessVulnKey a b"
  by (auto simp: lessVuln_def lessVulnKey_def ltThen_def f64_eq_def f64_less_key f64_key_eq)

interpretation vuln_order: strict_weak lessVulnKey
  unfolding lessVulnKey_def
  by (intro strict_weak_ltThen strict_weak_key strict_weak_key_rev)

lemma sortVulns_key:
  "\<forall>v \<in> set vs. vrEPSS v \<noteq> NaN \<Longrightarrow> sortVulns vs = sortBy lessVulnKey vs"
  unfolding sortVulns_def by (rule sortBy_cong) (simp add: lessVuln_key)

lemma lessVulnKey_ties: "\<not> lessVulnKey a b \<Longrightarrow> \<not> lessVulnKey b a \<Longrightarrow> vrID a = vrID b"
  by (auto simp: lessVulnKey_def ltThen_def)

lemma lessVulnKey_rank: "\<not> lessVulnKey b a \<Longrightarrow> Rank (vrPriority b) \<le> Rank (vrPriority a)"
  by (auto simp: lessVulnKey_def ltThen_def)

lemma sortVulns_perm:
  assumes "mset vs = mset ws" "distinct (map vrID vs)" "\<forall>v \<in> set vs. vrEPSS v \<noteq> NaN"
  shows "sortVulns vs = sortVulns ws"
proof -
  have s: "set vs = set ws" using assms(1) by (metis set_mset_mset)
  have "sortBy lessVulnKey vs = sortBy lessVulnKey ws"
  proof (rule vuln_order.sortBy_perm_eq [OF assms(1)])
    fix a b assume "a \<in> set vs" "b \<in> set vs" "\<not> lessVulnKey a b" "\<not> lessVulnKey b a"
    then show "a = b" using lessVulnKey_ties assms(2) by (metis distinct_map inj_onD)
  qed
  with assms(3) s show ?thesis by (simp add: sortVulns_key)
qed

lemma set_sortVulns [simp]: "set (sortVulns vs) = set vs"
  by (simp add: sortVulns_def)

lemma sortVulns_head:
  assumes "\<forall>v \<in> set vs. vrEPSS v \<noteq> NaN" "v \<in> set vs"
  shows "Rank (vrPriority v) \<le> Rank (vrPriority (hd (sortVulns vs)))"
proof -
  have s: "sorted_wrt (\<lambda>a b. \<not> lessVulnKey b a) (sortVulns vs)"
    using vuln_order.sorted_sortBy assms(1) by (simp add: sortVulns_key)
  show ?thesis
  proof (cases "sortVulns vs")
    case Nil
    then show ?thesis using assms(2) set_sortVulns [of vs] by simp
  next
    case (Cons h t)
    then have "v = h \<or> v \<in> set t" using assms(2) set_sortVulns [of vs] by auto
    with Cons s show ?thesis by (auto intro: lessVulnKey_rank)
  qed
qed

text \<open>
  The order of a group's vulnerabilities is determined by the vulnerabilities alone: whatever
  order the map they are collected in is walked in, the sorted list is the same, and its first
  element carries the strongest verdict. Scores are taken to be numbers.
\<close>

lemma sortVulns_deterministic:
  assumes "mset vs = mset ws" "distinct (map vrID vs)" "\<forall>v \<in> set vs. vrEPSS v \<noteq> NaN"
  shows "sortVulns vs = sortVulns ws
    \<and> (\<forall>v \<in> set vs. Rank (vrPriority v) \<le> Rank (vrPriority (hd (sortVulns vs))))"
  using sortVulns_perm [OF assms] sortVulns_head [OF assms(3)] by blast

definition sampleVuln :: "string \<Rightarrow> string \<Rightarrow> float64 \<Rightarrow> vuln_ref" where
  "sampleVuln i p x = \<lparr>vrID = i, vrSeverity = SeverityHigh, vrURL = '''', vrTitle = '''', vrStatus = StatusFixed,
     vrKEV = False, vrRansomware = False, vrEPSS = x, vrEPSSKnown = True, vrPriority = p, vrRefs = []\<rparr>"

text \<open>
  The hypothesis on the scores is needed: with a NaN among them the comparison is no strict weak
  order (b ties with both a and c, which do not tie), so the sorted list depends on the input order.
\<close>

lemma lessVuln_nan:
  "(let a = sampleVuln ''CVE-1'' PriorityLow (Fin (1/2)); b = sampleVuln ''CVE-2'' PriorityLow NaN;
        c = sampleVuln ''CVE-3'' PriorityLow (Fin 0) in
      lessVuln a c \<and> \<not> lessVuln a b \<and> \<not> lessVuln b a \<and> \<not> lessVuln b c \<and> \<not> lessVuln c b
      \<and> sortVulns [c, b, a] \<noteq> sortVulns [a, b, c])"
  by (simp add: Let_def sampleVuln_def lessVuln_def sortVulns_def f64_eq_def)

subsection \<open>The strongest priority of a set of groups\<close>

lemma maxPriorityLoop_spec:
  "Rank m \<le> Rank (maxPriorityLoop m gs) \<and> (\<forall>g \<in> set gs. Rank (pgPriority g) \<le> Rank (maxPriorityLoop m gs))
   \<and> (maxPriorityLoop m gs = m \<or> maxPriorityLoop m gs \<in> pgPriority ` set gs)"
proof (induction gs arbitrary: m)
  case (Cons g gs)
  show ?case
    using Cons.IH [of m] Cons.IH [of "pgPriority g"] by auto
qed simp

lemma MaxPriority_ge: "g \<in> set gs \<Longrightarrow> Rank (pgPriority g) \<le> Rank (MaxPriority gs)"
  using maxPriorityLoop_spec [of PriorityNone gs] by (simp add: MaxPriority_def)

lemma MaxPriority_in: "MaxPriority gs = PriorityNone \<or> MaxPriority gs \<in> pgPriority ` set gs"
  using maxPriorityLoop_spec [of PriorityNone gs] by (simp add: MaxPriority_def)

end
