(* ===== verification/Analyze.thy ===== *)
theory Analyze
  imports Triage
begin

section \<open>Building the report\<close>

text \<open>
  \<open>internal/analyze/analyze.go\<close>: the findings of all scans are sorted into four sections by
  status, grouped by running entity and package, and each group is finalized (counts, verdicts,
  risk) and sorted. \<open>Build\<close> walks the scans once over a state of nested maps; the model keeps the
  maps and the walk. A \<open>map[T]bool\<close> used as a set is a list without repetition.

  The lemmas show that no finding is lost and none is invented, what the counts and priorities of a
  group are, what the identity inventory says of each reference, and that the report does not
  depend on the iteration order of any map.
\<close>

subsection \<open>Accessors and counts\<close>

definition PackageGroup_PackageRef :: "package_group \<Rightarrow> package_ref" where
  "PackageGroup_PackageRef g =
     \<lparr>prEcosystem = pgEcosystem g, prClass = pgClass g, prName = pgPackage g, prVersion = pgInstalledVer g\<rparr>"

definition PackageGroup_Counts :: "package_group \<Rightarrow> severity_counts" where
  "PackageGroup_Counts g =
     \<lparr>svCritical = pgCritical g, svHigh = pgHigh g, svMedium = pgMedium g, svLow = pgLow g, svUnknown = pgUnknown g\<rparr>"

definition SeverityCounts_Add :: "severity_counts \<Rightarrow> severity_counts \<Rightarrow> severity_counts" where
  "SeverityCounts_Add c o' =
     \<lparr>svCritical = svCritical c + svCritical o', svHigh = svHigh c + svHigh o', svMedium = svMedium c + svMedium o',
      svLow = svLow c + svLow o', svUnknown = svUnknown c + svUnknown o'\<rparr>"

definition SeverityCounts_Total :: "severity_counts \<Rightarrow> nat" where
  "SeverityCounts_Total c = svCritical c + svHigh c + svMedium c + svLow c + svUnknown c"

definition PackageGroup_Total :: "package_group \<Rightarrow> nat" where
  "PackageGroup_Total g = SeverityCounts_Total (PackageGroup_Counts g)"

definition VulnIDs :: "package_group \<Rightarrow> string list" where
  "VulnIDs g = sort (map vrID (pgVulns g))"

definition zeroVulnRef :: vuln_ref where
  "zeroVulnRef = \<lparr>vrID = '''', vrSeverity = '''', vrURL = '''', vrTitle = '''', vrStatus = '''', vrKEV = False,
     vrRansomware = False, vrEPSS = Fin 0, vrEPSSKnown = False, vrPriority = '''', vrRefs = []\<rparr>"

definition TopVuln :: "package_group \<Rightarrow> vuln_ref" where
  "TopVuln g = (if pgVulns g = [] then zeroVulnRef else hd (pgVulns g))"

definition ImageFindings_ContentID :: "image_findings \<Rightarrow> string" where
  "ImageFindings_ContentID f =
     (if isResolved (ifSubject f) \<and> dgKind (ekDigest (isKey (ifSubject f))) = DigestConfig
      then Digest_String (ekDigest (isKey (ifSubject f))) else '''')"

definition CriticalCount :: "image_findings \<Rightarrow> nat" where
  "CriticalCount f = foldl (\<lambda>n g. n + pgCritical g) 0 (ifPackages f)"

definition zeroCounts :: severity_counts where
  "zeroCounts = \<lparr>svCritical = 0, svHigh = 0, svMedium = 0, svLow = 0, svUnknown = 0\<rparr>"

definition ImageFindings_Counts :: "image_findings \<Rightarrow> severity_counts" where
  "ImageFindings_Counts f = foldl (\<lambda>c g. SeverityCounts_Add c (PackageGroup_Counts g)) zeroCounts (ifPackages f)"

definition TotalCount :: "image_findings \<Rightarrow> nat" where
  "TotalCount f = foldl (\<lambda>n g. n + PackageGroup_Total g) 0 (ifPackages f)"

definition AffectedImageCount :: "report \<Rightarrow> nat" where
  "AffectedImageCount r = length (remdups (map ifImage (concat (sections r)) @ rpEOSLImages r))"

definition HasFindings :: "report \<Rightarrow> bool" where
  "HasFindings r \<longleftrightarrow> rpActionable r \<noteq> [] \<or> rpWatch r \<noteq> [] \<or> rpWontFix r \<noteq> [] \<or> rpEOLPackages r \<noteq> []
     \<or> rpEOSLImages r \<noteq> []"

definition HasIssues :: "report \<Rightarrow> bool" where
  "HasIssues r \<longleftrightarrow> HasFindings r \<or> rpScanErrors r \<noteq> []"

definition IsEOL :: "package_group \<Rightarrow> bool" where
  "IsEOL g \<longleftrightarrow> pgStatus g = StatusEndOfLife"

definition EOLPackageAlerts :: "report \<Rightarrow> image_findings list" where
  "EOLPackageAlerts r = filter (\<lambda>img. ifImage img \<notin> set (rpEOSLImages r)) (rpEOLPackages r)"

definition FoldedEOLCount :: "report \<Rightarrow> string \<Rightarrow> nat" where
  "FoldedEOLCount r ref =
     (if ref \<notin> set (rpEOSLImages r) then 0
      else foldl (\<lambda>n img. if ifImage img = ref then n + length (ifPackages img) else n) 0 (rpEOLPackages r))"

subsection \<open>Sections and statuses\<close>

definition sectionOf :: "string \<Rightarrow> string option" where
  "sectionOf s =
     (if s \<in> {StatusFixed, StatusWontFix, StatusEndOfLife} then Some s
      else if s = StatusNotAffected then None else Some StatusAffected)"

definition mergeRawStatus :: "string \<Rightarrow> string \<Rightarrow> string \<Rightarrow> string" where
  "mergeRawStatus section a b =
     (if a = section \<or> b = section then section else if a < b then a else b)"

subsection \<open>Accumulators\<close>

record vuln_info =
  viSev :: string
  viURL :: string
  viTitle :: string
  viStatus :: string

record pkg_acc =
  paGroup :: package_group
  paVulns :: "(string, vuln_info) gmap"
  paInstances :: "instanceOf list"
  paLayers :: "string list"

type_synonym imgKey = "string \<times> entity_key"

record entity_meta =
  emSubject :: image_subject
  emPinned :: bool

definition zeroSubject :: image_subject where
  "zeroSubject = \<lparr>isRef = '''', isKey = zeroEntityKey, isResolved = False\<rparr>"

definition zeroMeta :: entity_meta where
  "zeroMeta = \<lparr>emSubject = zeroSubject, emPinned = False\<rparr>"

record obs_acc =
  oaTotal :: nat
  oaFailed :: nat
  oaUnconfirmed :: nat
  oaContentIDs :: "string list"
  oaEntityKeys :: "entity_key list"
  oaRegistryDigests :: "string list"
  oaAnyWithoutConfig :: bool
  oaSeenEOSL :: bool

definition zeroObs :: obs_acc where
  "zeroObs = \<lparr>oaTotal = 0, oaFailed = 0, oaUnconfirmed = 0, oaContentIDs = [], oaEntityKeys = [],
     oaRegistryDigests = [], oaAnyWithoutConfig = False, oaSeenEOSL = False\<rparr>"

type_synonym sectionMap = "(imgKey, (package_ref, pkg_acc) gmap) gmap"

record build_state =
  bsByStatus :: "(string, sectionMap) gmap"
  bsObs :: "(string, obs_acc) gmap"
  bsMeta :: "(imgKey, entity_meta) gmap"
  bsEOSL :: "string list"
  bsScanErrors :: "scan_error list"
  bsUnchecked :: "runtime_unchecked_ref list"

definition startBuild :: build_state where
  "startBuild = \<lparr>bsByStatus = [], bsObs = [], bsMeta = [], bsEOSL = [], bsScanErrors = [], bsUnchecked = []\<rparr>"

definition setAdd :: "'a \<Rightarrow> 'a list \<Rightarrow> 'a list" where
  "setAdd x xs = (if x \<in> set xs then xs else xs @ [x])"

subsection \<open>One finding, one scan, all scans\<close>

definition newGroup :: "string \<Rightarrow> finding \<Rightarrow> package_group" where
  "newGroup section f =
     \<lparr>pgPackage = fdPackage f, pgClass = fdClass f, pgInstalledVer = fdInstalledVer f, pgFixedVer = fdFixedVer f,
      pgStatus = section, pgRisk = '''', pgCritical = 0, pgHigh = 0, pgMedium = 0, pgLow = 0, pgUnknown = 0,
      pgVulns = [], pgPriority = PriorityNone, pgURL = fdURL f, pgEcosystem = prEcosystem (Finding_PackageRef f),
      pgInstances = [], pgLayerDiffIDs = [], pgRuntime = zeroRuntime, pgMuted = False, pgMutedReason = ''''\<rparr>"

definition newAcc :: "string \<Rightarrow> finding \<Rightarrow> pkg_acc" where
  "newAcc section f = \<lparr>paGroup = newGroup section f, paVulns = [], paInstances = [], paLayers = []\<rparr>"

definition instanceFor :: "finding \<Rightarrow> instanceOf" where
  "instanceFor f = \<lparr>icPackageRef = Finding_PackageRef f, icType = fdType f, icTarget = fdTarget f, icPkgPath = fdPkgPath f\<rparr>"

definition zeroVulnInfo :: vuln_info where
  "zeroVulnInfo = \<lparr>viSev = '''', viURL = '''', viTitle = '''', viStatus = ''''\<rparr>"

definition mergeVuln :: "string \<Rightarrow> finding \<Rightarrow> vuln_info option \<Rightarrow> vuln_info" where
  "mergeVuln section f old =
     (let prev = (case old of Some p \<Rightarrow> p | None \<Rightarrow> zeroVulnInfo);
          title = (if fdTitle f = '''' then viTitle prev else fdTitle f);
          status = (if old \<noteq> None then mergeRawStatus section (viStatus prev) (fdStatus f) else fdStatus f)
      in \<lparr>viSev = fdSeverity f, viURL = fdURL f, viTitle = title, viStatus = status\<rparr>)"

definition addToAcc :: "string \<Rightarrow> finding \<Rightarrow> pkg_acc \<Rightarrow> pkg_acc" where
  "addToAcc section f acc =
     acc\<lparr>paInstances := setAdd (instanceFor f) (paInstances acc), paLayers := setAdd (fdLayerDiffID f) (paLayers acc),
         paVulns := mput (fdVulnID f) (mergeVuln section f (map_of (paVulns acc) (fdVulnID f))) (paVulns acc)\<rparr>"

definition addFinding :: "imgKey \<Rightarrow> (string, sectionMap) gmap \<Rightarrow> finding \<Rightarrow> (string, sectionMap) gmap" where
  "addFinding k byStatus f =
     (case sectionOf (fdStatus f) of
        None \<Rightarrow> byStatus
      | Some section \<Rightarrow>
          (let images = mget [] byStatus section; pkgs = mget [] images k; ref = Finding_PackageRef f;
               acc = mget (newAcc section f) pkgs ref
           in mput section (mput k (mput ref (addToAcc section f acc) pkgs) images) byStatus))"

definition observeIdentity :: "image_scan \<Rightarrow> obs_acc \<Rightarrow> obs_acc" where
  "observeIdentity s a0 =
     (let a = a0\<lparr>oaTotal := oaTotal a0 + 1\<rparr>; key = isKey (snSubject s) in
      if isResolved (snSubject s) then
        (let a1 = a\<lparr>oaEntityKeys := setAdd key (oaEntityKeys a)\<rparr> in
         if dgKind (ekDigest key) = DigestConfig
         then a1\<lparr>oaContentIDs := setAdd (Digest_String (ekDigest key)) (oaContentIDs a1)\<rparr>
         else a1\<lparr>oaAnyWithoutConfig := True\<rparr>)
      else a\<lparr>oaAnyWithoutConfig := True\<rparr>)"

definition scanErrorOf :: "image_scan \<Rightarrow> string \<Rightarrow> scan_error" where
  "scanErrorOf s err =
     \<lparr>seImage = snImage s, seErr = err, seCause = snCause s, seRegistry = snRegistryHost s, seSubject = snSubject s\<rparr>"

definition observeResult :: "image_scan \<Rightarrow> obs_acc \<Rightarrow> obs_acc" where
  "observeResult s a =
     (let a1 = (if \<not> snPinned s \<and> snSource s = SourceRemote then a\<lparr>oaUnconfirmed := oaUnconfirmed a + 1\<rparr> else a);
          a2 = (if snPinned s
                then a1\<lparr>oaRegistryDigests := foldl (\<lambda>ds d. setAdd d ds) (oaRegistryDigests a1) (snRegistryDigests s)\<rparr>
                else a1)
      in if snOSEOSL s \<and> \<not> oaSeenEOSL a2 then a2\<lparr>oaSeenEOSL := True\<rparr> else a2)"

definition buildScan :: "build_state \<Rightarrow> image_scan \<Rightarrow> build_state" where
  "buildScan st s =
     (let a = observeIdentity s (mget zeroObs (bsObs st) (snImage s)) in
      case snErr s of
        Some err \<Rightarrow>
          st\<lparr>bsObs := mput (snImage s) (a\<lparr>oaFailed := oaFailed a + 1\<rparr>) (bsObs st),
             bsScanErrors := bsScanErrors st @ [scanErrorOf s err]\<rparr>
      | None \<Rightarrow>
          (let k = (snImage s, isKey (snSubject s)) in
           st\<lparr>bsObs := mput (snImage s) (observeResult s a) (bsObs st),
              bsEOSL := (if snOSEOSL s \<and> \<not> oaSeenEOSL a then bsEOSL st @ [snImage s] else bsEOSL st),
              bsUnchecked := foldl (\<lambda>us p. setAdd \<lparr>ruImage = snImage s, ruPackage = p\<rparr> us) (bsUnchecked st)
                (snRuntimeUnchecked s),
              bsMeta := mput k \<lparr>emSubject = snSubject s, emPinned = snPinned s\<rparr> (bsMeta st),
              bsByStatus := foldl (addFinding k) (bsByStatus st) (snFindings s)\<rparr>))"

subsection \<open>Containers and the identity inventory\<close>

definition appendAt :: "'k \<Rightarrow> 'v \<Rightarrow> ('k, 'v list) gmap \<Rightarrow> ('k, 'v list) gmap" where
  "appendAt k v m = mput k (mget [] m k @ [v]) m"

definition indexContainers ::
  "container list \<Rightarrow> (imgKey, container list) gmap \<times> (string, container list) gmap" where
  "indexContainers containers =
     foldl (\<lambda>(byKey, byRef) c.
        if riRef (ctImage c) = '''' then (byKey, byRef)
        else (appendAt (riRef (ctImage c), fst (EntityKeyOf (ctImage c))) c byKey,
              appendAt (riRef (ctImage c)) c byRef))
      ([], []) containers"

definition observationOf :: "(string, container list) gmap \<Rightarrow> string \<times> obs_acc \<Rightarrow> image_observation" where
  "observationOf byRef = (\<lambda>(ref, a).
     \<lparr>obRef = ref, obContentIDs = sort (oaContentIDs a), obRegistryDigests = sort (oaRegistryDigests a),
      obAmbiguous = (length (oaEntityKeys a) > 1),
      obConfigIdentityResolved = (oaTotal a > 0 \<and> \<not> oaAnyWithoutConfig a),
      obScanFailed = (oaTotal a > 0 \<and> oaFailed a = oaTotal a),
      obPartialFailure = ((oaFailed a > 0 \<and> oaFailed a < oaTotal a) \<or> oaUnconfirmed a > 0),
      obUnconfirmed = (oaUnconfirmed a > 0),
      obContainers = mget [] byRef ref\<rparr>)"

definition buildInventory :: "(string, obs_acc) gmap \<Rightarrow> (string, container list) gmap \<Rightarrow> image_observation list" where
  "buildInventory obs byRef = sortBy (\<lambda>a b. obRef a < obRef b) (map (observationOf byRef) obs)"

subsection \<open>Finalizing groups and sections\<close>

definition majorVersion :: "string \<Rightarrow> nat option" where
  "majorVersion v0 =
     (let v = (if v0 \<noteq> '''' \<and> (hd v0 = CHR ''v'' \<or> hd v0 = CHR ''V'') then tl v0 else v0);
          digits = takeWhile isDigitByte v
      in if digits = '''' then None
         else if decVal digits \<ge> 2 ^ 63 then None else Some (decVal digits))"

definition langRisk :: "string \<Rightarrow> string \<Rightarrow> string" where
  "langRisk installed fixed =
     (case (majorVersion installed, majorVersion fixed) of
        (Some im, Some fm) \<Rightarrow> if fm > im then RiskCaution else RiskSafe
      | _ \<Rightarrow> RiskUnknown)"

definition riskOf :: "package_group \<Rightarrow> string" where
  "riskOf g =
     (if pgStatus g \<noteq> StatusFixed then RiskNone
      else if pgClass g = ClassOS then RiskDistroUpdate
      else langRisk (pgInstalledVer g) (pgFixedVer g))"

definition lessInstance :: "instanceOf \<Rightarrow> instanceOf \<Rightarrow> bool" where
  "lessInstance a b =
     (if icType a \<noteq> icType b then icType a < icType b
      else if icTarget a \<noteq> icTarget b then icTarget a < icTarget b
      else icPkgPath a < icPkgPath b)"

definition sortInstances :: "instanceOf list \<Rightarrow> instanceOf list" where
  "sortInstances instances = sortBy lessInstance instances"

definition countSeverity :: "string \<Rightarrow> package_group \<Rightarrow> package_group" where
  "countSeverity sev g =
     (if toUpper sev = SeverityCritical then g\<lparr>pgCritical := pgCritical g + 1\<rparr>
      else if toUpper sev = SeverityHigh then g\<lparr>pgHigh := pgHigh g + 1\<rparr>
      else if toUpper sev = SeverityMedium then g\<lparr>pgMedium := pgMedium g + 1\<rparr>
      else if toUpper sev = SeverityLow then g\<lparr>pgLow := pgLow g + 1\<rparr>
      else g\<lparr>pgUnknown := pgUnknown g + 1\<rparr>)"

definition vulnRefOf :: "triage \<Rightarrow> string \<Rightarrow> string \<times> vuln_info \<Rightarrow> vuln_ref" where
  "vulnRefOf tr status = (\<lambda>(i, info).
     (let e = mget zeroEnrichment (trEnrich tr) i in
      \<lparr>vrID = i, vrSeverity = viSev info, vrURL = viURL info, vrTitle = viTitle info, vrStatus = viStatus info,
       vrKEV = erKEV e, vrRansomware = erRansomware e, vrEPSS = erEPSS e, vrEPSSKnown = erEPSSKnown e,
       vrPriority = priorityOf tr (viSev info) e status, vrRefs = buildRefs e (mget [] (trRefs tr) i)\<rparr>))"

definition finalizeVuln :: "triage \<Rightarrow> package_group \<Rightarrow> string \<times> vuln_info \<Rightarrow> package_group" where
  "finalizeVuln tr g0 iv =
     (let g = countSeverity (viSev (snd iv)) g0; v = vulnRefOf tr (pgStatus g) iv;
          g1 = g\<lparr>pgVulns := pgVulns g @ [v]\<rparr>
      in if Rank (vrPriority v) > Rank (pgPriority g1) then g1\<lparr>pgPriority := vrPriority v\<rparr> else g1)"

definition finalize :: "triage \<Rightarrow> pkg_acc \<Rightarrow> package_group" where
  "finalize tr acc =
     (let g = foldl (finalizeVuln tr) (paGroup acc) (paVulns acc);
          g1 = g\<lparr>pgVulns := sortVulns (pgVulns g)\<rparr>;
          g2 = g1\<lparr>pgRisk := riskOf g1\<rparr>
      in g2\<lparr>pgInstances := sortInstances (pgInstances g2 @ paInstances acc),
            pgLayerDiffIDs := sort (pgLayerDiffIDs g2 @ paLayers acc)\<rparr>)"

definition severityTier :: "package_group \<Rightarrow> nat" where
  "severityTier g = (if pgCritical g > 0 then 0 else if pgHigh g > 0 then 1 else 2)"

definition lessPackage :: "package_group \<Rightarrow> package_group \<Rightarrow> bool" where
  "lessPackage a b =
     (if severityTier a \<noteq> severityTier b then severityTier a < severityTier b
      else if PackageGroup_Total a \<noteq> PackageGroup_Total b then PackageGroup_Total a > PackageGroup_Total b
      else if pgPackage a \<noteq> pgPackage b then pgPackage a < pgPackage b
      else if pgEcosystem a \<noteq> pgEcosystem b then pgEcosystem a < pgEcosystem b
      else if pgInstalledVer a \<noteq> pgInstalledVer b then pgInstalledVer a < pgInstalledVer b
      else pgClass a < pgClass b)"

definition sortPackages :: "package_group list \<Rightarrow> package_group list" where
  "sortPackages g = sortBy lessPackage g"

definition analyze_lessEntityKey :: "entity_key \<Rightarrow> entity_key \<Rightarrow> bool" where
  "analyze_lessEntityKey a b =
     (if dgKind (ekDigest a) \<noteq> dgKind (ekDigest b) then dgKind (ekDigest a) < dgKind (ekDigest b)
      else if dgHex (ekDigest a) \<noteq> dgHex (ekDigest b) then dgHex (ekDigest a) < dgHex (ekDigest b)
      else if plOS (ekPlatform a) \<noteq> plOS (ekPlatform b) then plOS (ekPlatform a) < plOS (ekPlatform b)
      else if plArchitecture (ekPlatform a) \<noteq> plArchitecture (ekPlatform b)
        then plArchitecture (ekPlatform a) < plArchitecture (ekPlatform b)
      else plVariant (ekPlatform a) < plVariant (ekPlatform b))"

definition lessImage :: "image_findings \<Rightarrow> image_findings \<Rightarrow> bool" where
  "lessImage a b =
     (if CriticalCount a \<noteq> CriticalCount b then CriticalCount a > CriticalCount b
      else if (svHigh (ImageFindings_Counts a) > 0) \<noteq> (svHigh (ImageFindings_Counts b) > 0)
        then svHigh (ImageFindings_Counts a) > 0
      else if TotalCount a \<noteq> TotalCount b then TotalCount a > TotalCount b
      else if ifImage a \<noteq> ifImage b then ifImage a < ifImage b
      else analyze_lessEntityKey (isKey (ifSubject a)) (isKey (ifSubject b)))"

definition sortImages :: "image_findings list \<Rightarrow> image_findings list" where
  "sortImages f = sortBy lessImage f"

definition findingsOf :: "triage \<Rightarrow> (imgKey, container list) gmap \<Rightarrow> (imgKey, entity_meta) gmap
    \<Rightarrow> imgKey \<times> (package_ref, pkg_acc) gmap \<Rightarrow> image_findings" where
  "findingsOf tr byKey meta = (\<lambda>(k, pkgs).
     (let m = mget zeroMeta meta k in
      \<lparr>ifImage = fst k, ifSubject = emSubject m, ifPinned = emPinned m,
       ifPackages = sortPackages (map (finalize tr \<circ> snd) pkgs), ifContainers = mget [] byKey k\<rparr>))"

definition buildSection :: "sectionMap \<Rightarrow> triage \<Rightarrow> (imgKey, container list) gmap
    \<Rightarrow> (imgKey, entity_meta) gmap \<Rightarrow> image_findings list" where
  "buildSection images tr byKey meta = sortImages (map (findingsOf tr byKey meta) images)"

definition lessUnchecked :: "runtime_unchecked_ref \<Rightarrow> runtime_unchecked_ref \<Rightarrow> bool" where
  "lessUnchecked a b = (if ruImage a \<noteq> ruImage b then ruImage a < ruImage b else ruPackage a < ruPackage b)"

definition zeroEnvironment :: environment where
  "zeroEnvironment = \<lparr>enName = '''', enKind = ''''\<rparr>"

definition Build :: "image_scan list \<Rightarrow> container list \<Rightarrow> triage \<Rightarrow> gtime \<Rightarrow> report" where
  "Build scans containers tr now =
     (let st = foldl buildScan startBuild scans; (byKey, byRef) = indexContainers containers;
          section = (\<lambda>s. buildSection (mget [] (bsByStatus st) s) tr byKey (bsMeta st));
          images = buildInventory (bsObs st) byRef
      in \<lparr>rpImagesTotal = length scans, rpEOSLImages = sort (bsEOSL st),
          rpActionable = section StatusFixed, rpWatch = section StatusAffected,
          rpWontFix = section StatusWontFix, rpEOLPackages = section StatusEndOfLife,
          rpScanErrors = bsScanErrors st, rpImages = images,
          rpUnconfirmedRefs = map obRef (filter obUnconfirmed images),
          rpRuntimeUnchecked = sortBy lessUnchecked (bsUnchecked st),
          rpTriage = trEnabled tr, rpIntel = trIntel tr, rpGeneratedAt = now,
          rpEnvironment = zeroEnvironment, rpRuntime = None, rpGenericWebhookConfigured = False\<rparr>)"

subsection \<open>Which findings reach which group\<close>

text \<open>
  The walk over the scans as one list of events: every finding of every successful scan, with the
  entity it belongs to.
\<close>

definition scanKey :: "image_scan \<Rightarrow> imgKey" where
  "scanKey s = (snImage s, isKey (snSubject s))"

definition events :: "image_scan list \<Rightarrow> (imgKey \<times> finding) list" where
  "events scans =
     concat (map (\<lambda>s. if snErr s = None then map (\<lambda>f. (scanKey s, f)) (snFindings s) else []) scans)"

lemma events_snoc: "events (xs @ [s]) = events xs @
    (if snErr s = None then map (\<lambda>f. (scanKey s, f)) (snFindings s) else [])"
  by (simp add: events_def)

lemma set_events: "(k, f) \<in> set (events scans) \<longleftrightarrow>
    (\<exists>s \<in> set scans. snErr s = None \<and> k = scanKey s \<and> f \<in> set (snFindings s))"
  by (auto simp: events_def split: if_splits)

lemma byStatus_events:
  "bsByStatus (foldl buildScan startBuild scans) = foldl (\<lambda>m (k, f). addFinding k m f) [] (events scans)"
proof (induction scans rule: rev_induct)
  case Nil
  then show ?case by (simp add: startBuild_def events_def)
next
  case (snoc s scans)
  have "foldl (\<lambda>m (k, f). addFinding k m f) m (map (\<lambda>f. (k, f)) fs) = foldl (addFinding k) m fs" for m k fs
    by (induction fs arbitrary: m) auto
  with snoc show ?case
    by (cases "snErr s") (auto simp: buildScan_def Let_def events_snoc scanKey_def)
qed

text \<open>The accumulator of one section, entity and package.\<close>

definition accAt :: "(string, sectionMap) gmap \<Rightarrow> string \<Rightarrow> imgKey \<Rightarrow> package_ref \<Rightarrow> pkg_acc option" where
  "accAt m section k ref = map_of (mget [] (mget [] m section) k) ref"

definition goesTo :: "string \<Rightarrow> imgKey \<Rightarrow> package_ref \<Rightarrow> imgKey \<times> finding \<Rightarrow> bool" where
  "goesTo section k ref e \<longleftrightarrow>
     sectionOf (fdStatus (snd e)) = Some section \<and> fst e = k \<and> Finding_PackageRef (snd e) = ref"

fun collect :: "string \<Rightarrow> finding list \<Rightarrow> pkg_acc option" where
  "collect section [] = None"
| "collect section (f # fs) = Some (foldl (\<lambda>a f. addToAcc section f a) (newAcc section f) (f # fs))"

lemma collect_snoc:
  "collect section (fs @ [f]) =
     Some (addToAcc section f (case collect section fs of Some a \<Rightarrow> a | None \<Rightarrow> newAcc section f))"
  by (cases fs) auto

lemma accAt_addFinding:
  "accAt (addFinding k m f) section k' ref =
     (if goesTo section k' ref (k, f)
      then Some (addToAcc section f (case accAt m section k' ref of Some a \<Rightarrow> a | None \<Rightarrow> newAcc section f))
      else accAt m section k' ref)"
proof (cases "sectionOf (fdStatus f)")
  case None
  then show ?thesis by (simp add: addFinding_def goesTo_def)
next
  case (Some s)
  then have "addFinding k m f = mput s (mput k (mput (Finding_PackageRef f)
      (addToAcc s f (mget (newAcc s f) (mget [] (mget [] m s) k) (Finding_PackageRef f))) (mget [] (mget [] m s) k)) (mget [] m s)) m"
    by (simp add: addFinding_def Let_def)
  with Some show ?thesis
    by (cases "section = s") (auto simp: accAt_def goesTo_def mget_def [of "newAcc s f"])
qed

lemma accAt_events:
  "accAt (foldl (\<lambda>m (k, f). addFinding k m f) [] es) section k ref =
     collect section (map snd (filter (goesTo section k ref) es))"
proof (induction es rule: rev_induct)
  case Nil
  then show ?case by (simp add: accAt_def)
next
  case (snoc e es)
  then show ?case by (cases e) (simp add: accAt_addFinding collect_snoc)
qed

definition mapsOk :: "(string, sectionMap) gmap \<Rightarrow> bool" where
  "mapsOk m \<longleftrightarrow> map_ok m \<and> (\<forall>section. map_ok (mget [] m section))
     \<and> (\<forall>section k. map_ok (mget [] (mget [] m section) k))"

lemma mapsOk_addFinding: "mapsOk m \<Longrightarrow> mapsOk (addFinding k m f)"
  by (auto simp: addFinding_def mapsOk_def Let_def split: option.splits)

lemma mapsOk_events: "mapsOk (foldl (\<lambda>m (k, f). addFinding k m f) [] es)"
proof (induction es rule: rev_induct)
  case Nil
  then show ?case by (simp add: mapsOk_def)
next
  case (snoc e es)
  then show ?case by (cases e) (simp add: mapsOk_addFinding)
qed

text \<open>What an accumulator holds: the data of its first finding, and the vulnerabilities of all.\<close>

lemma paGroup_addToAcc [simp]: "paGroup (addToAcc section f a) = paGroup a"
  by (simp add: addToAcc_def)

lemma foldl_addToAcc:
  "paGroup (foldl (\<lambda>a f. addToAcc section f a) a fs) = paGroup a
   \<and> dom (map_of (paVulns (foldl (\<lambda>a f. addToAcc section f a) a fs))) = dom (map_of (paVulns a)) \<union> fdVulnID ` set fs
   \<and> (map_ok (paVulns a) \<longrightarrow> map_ok (paVulns (foldl (\<lambda>a f. addToAcc section f a) a fs)))
   \<and> set (paInstances (foldl (\<lambda>a f. addToAcc section f a) a fs)) = set (paInstances a) \<union> instanceFor ` set fs
   \<and> (distinct (paInstances a) \<longrightarrow> distinct (paInstances (foldl (\<lambda>a f. addToAcc section f a) a fs)))
   \<and> set (paLayers (foldl (\<lambda>a f. addToAcc section f a) a fs)) = set (paLayers a) \<union> fdLayerDiffID ` set fs
   \<and> (distinct (paLayers a) \<longrightarrow> distinct (paLayers (foldl (\<lambda>a f. addToAcc section f a) a fs)))"
  by (induction fs arbitrary: a) (auto simp: addToAcc_def setAdd_def)

definition accOk :: "string \<Rightarrow> package_ref \<Rightarrow> pkg_acc \<Rightarrow> bool" where
  "accOk section ref a \<longleftrightarrow>
     PackageGroup_PackageRef (paGroup a) = ref \<and> pgStatus (paGroup a) = section \<and> pgVulns (paGroup a) = []
     \<and> pgPriority (paGroup a) = PriorityNone \<and> PackageGroup_Total (paGroup a) = 0
     \<and> pgInstances (paGroup a) = [] \<and> pgLayerDiffIDs (paGroup a) = [] \<and> \<not> pgMuted (paGroup a)
     \<and> map_ok (paVulns a) \<and> paVulns a \<noteq> []
     \<and> distinct (paInstances a) \<and> (\<forall>i \<in> set (paInstances a). icPackageRef i = ref) \<and> distinct (paLayers a)"

lemma newGroup_ok:
  "PackageGroup_PackageRef (newGroup section f) = Finding_PackageRef f" "pgStatus (newGroup section f) = section"
  "pgVulns (newGroup section f) = []" "pgPriority (newGroup section f) = PriorityNone"
  "PackageGroup_Total (newGroup section f) = 0" "pgInstances (newGroup section f) = []"
  "pgLayerDiffIDs (newGroup section f) = []" "\<not> pgMuted (newGroup section f)"
  by (auto simp: newGroup_def PackageGroup_PackageRef_def Finding_PackageRef_def PackageGroup_Total_def
      PackageGroup_Counts_def SeverityCounts_Total_def)

lemma collect_ok:
  assumes "collect section fs = Some a" "\<forall>f \<in> set fs. Finding_PackageRef f = ref"
  shows "accOk section ref a \<and> dom (map_of (paVulns a)) = fdVulnID ` set fs"
proof -
  obtain f gs where fs: "fs = f # gs" using assms(1) by (cases fs) auto
  have a: "a = foldl (\<lambda>a f. addToAcc section f a) (newAcc section f) fs" using assms(1) fs by simp
  note l = foldl_addToAcc [of "section" "newAcc section f" fs, folded a]
  have d: "dom (map_of (paVulns a)) = fdVulnID ` set fs" using l by (simp add: newAcc_def)
  have "paVulns a \<noteq> []" using d fs by auto
  moreover have "\<forall>i \<in> set (paInstances a). icPackageRef i = ref"
    using l assms(2) by (auto simp: newAcc_def instanceFor_def)
  moreover have "paGroup a = newGroup section f" "map_ok (paVulns a)" "distinct (paInstances a)" "distinct (paLayers a)"
    using l by (auto simp: newAcc_def)
  ultimately show ?thesis
    using d assms(2) fs by (simp add: accOk_def newGroup_ok)
qed

subsection \<open>What a finalized group shows\<close>

definition maxOf :: "string \<Rightarrow> vuln_ref list \<Rightarrow> string" where
  "maxOf p vs = foldl (\<lambda>p v. if Rank (vrPriority v) > Rank p then vrPriority v else p) p vs"

lemma countSeverity_frame [simp]:
  "pgPackage (countSeverity s g) = pgPackage g" "pgClass (countSeverity s g) = pgClass g"
  "pgInstalledVer (countSeverity s g) = pgInstalledVer g" "pgFixedVer (countSeverity s g) = pgFixedVer g"
  "pgStatus (countSeverity s g) = pgStatus g" "pgVulns (countSeverity s g) = pgVulns g"
  "pgPriority (countSeverity s g) = pgPriority g" "pgURL (countSeverity s g) = pgURL g"
  "pgEcosystem (countSeverity s g) = pgEcosystem g" "pgInstances (countSeverity s g) = pgInstances g"
  "pgLayerDiffIDs (countSeverity s g) = pgLayerDiffIDs g" "pgRisk (countSeverity s g) = pgRisk g"
  "pgRuntime (countSeverity s g) = pgRuntime g" "pgMuted (countSeverity s g) = pgMuted g"
  "pgMutedReason (countSeverity s g) = pgMutedReason g"
  "PackageGroup_Total (countSeverity s g) = Suc (PackageGroup_Total g)"
  by (simp_all add: countSeverity_def PackageGroup_Total_def PackageGroup_Counts_def SeverityCounts_Total_def)

lemma countSeverity_vulns [simp]: "countSeverity s (g\<lparr>pgVulns := vs\<rparr>) = (countSeverity s g)\<lparr>pgVulns := vs\<rparr>"
  "countSeverity s (g\<lparr>pgPriority := p\<rparr>) = (countSeverity s g)\<lparr>pgPriority := p\<rparr>"
  by (simp_all add: countSeverity_def)

lemma foldl_finalizeVuln:
  "foldl (finalizeVuln tr) g ivs =
     (foldl (\<lambda>g iv. countSeverity (viSev (snd iv)) g) g ivs)
       \<lparr>pgVulns := pgVulns g @ map (vulnRefOf tr (pgStatus g)) ivs,
        pgPriority := maxOf (pgPriority g) (map (vulnRefOf tr (pgStatus g)) ivs)\<rparr>"
proof (induction ivs arbitrary: g)
  case Nil
  then show ?case by (simp add: maxOf_def)
next
  case (Cons iv ivs)
  have c: "foldl (\<lambda>g iv. countSeverity (viSev (snd iv)) g) (g\<lparr>pgVulns := vs\<rparr>) is
      = (foldl (\<lambda>g iv. countSeverity (viSev (snd iv)) g) g is)\<lparr>pgVulns := vs\<rparr>"
    "foldl (\<lambda>g iv. countSeverity (viSev (snd iv)) g) (g\<lparr>pgPriority := p\<rparr>) is
      = (foldl (\<lambda>g iv. countSeverity (viSev (snd iv)) g) g is)\<lparr>pgPriority := p\<rparr>" for g vs p "is"
    by (induction "is" arbitrary: g) auto
  have "foldl (finalizeVuln tr) g (iv # ivs) = foldl (finalizeVuln tr) (finalizeVuln tr g iv) ivs"
    by (simp only: foldl_Cons)
  also have "\<dots> = (foldl (\<lambda>g iv. countSeverity (viSev (snd iv)) g) g (iv # ivs))
       \<lparr>pgVulns := pgVulns g @ map (vulnRefOf tr (pgStatus g)) (iv # ivs),
        pgPriority := maxOf (pgPriority g) (map (vulnRefOf tr (pgStatus g)) (iv # ivs))\<rparr>"
    unfolding Cons.IH by (simp add: finalizeVuln_def Let_def c maxOf_def)
  finally show ?case .
qed

lemma foldl_countSeverity:
  "PackageGroup_Total (foldl (\<lambda>g iv. countSeverity (viSev (snd iv)) g) g ivs) = PackageGroup_Total g + length ivs"
  "PackageGroup_PackageRef (foldl (\<lambda>g iv. countSeverity (viSev (snd iv)) g) g ivs) = PackageGroup_PackageRef g"
  "pgStatus (foldl (\<lambda>g iv. countSeverity (viSev (snd iv)) g) g ivs) = pgStatus g"
  "pgInstances (foldl (\<lambda>g iv. countSeverity (viSev (snd iv)) g) g ivs) = pgInstances g"
  "pgLayerDiffIDs (foldl (\<lambda>g iv. countSeverity (viSev (snd iv)) g) g ivs) = pgLayerDiffIDs g"
  by (induction ivs arbitrary: g) (auto simp: PackageGroup_PackageRef_def)

lemma maxOf_spec:
  "Rank p \<le> Rank (maxOf p vs) \<and> (\<forall>v \<in> set vs. Rank (vrPriority v) \<le> Rank (maxOf p vs))
   \<and> (maxOf p vs = p \<or> maxOf p vs \<in> vrPriority ` set vs)"
proof (induction vs arbitrary: p)
  case (Cons v vs)
  show ?case using Cons.IH [of p] Cons.IH [of "vrPriority v"] by (auto simp: maxOf_def)
qed (simp add: maxOf_def)

lemma vrID_vulnRefOf [simp]: "vrID (vulnRefOf tr status iv) = fst iv"
  by (cases iv) (simp add: vulnRefOf_def Let_def)

lemma finalize_simps:
  "PackageGroup_PackageRef (finalize tr a) = PackageGroup_PackageRef (paGroup a)"
  "pgStatus (finalize tr a) = pgStatus (paGroup a)"
  "PackageGroup_Total (finalize tr a) = PackageGroup_Total (paGroup a) + length (paVulns a)"
  "pgVulns (finalize tr a) = sortVulns (pgVulns (paGroup a) @ map (vulnRefOf tr (pgStatus (paGroup a))) (paVulns a))"
  "pgPriority (finalize tr a) = maxOf (pgPriority (paGroup a)) (map (vulnRefOf tr (pgStatus (paGroup a))) (paVulns a))"
  using foldl_countSeverity
  by (auto simp: finalize_def Let_def foldl_finalizeVuln PackageGroup_PackageRef_def PackageGroup_Total_def
      PackageGroup_Counts_def SeverityCounts_Total_def)

lemma finalize_muted: "pgMuted (finalize tr a) = pgMuted (paGroup a)"
proof -
  have "pgMuted (foldl (\<lambda>g iv. countSeverity (viSev (snd iv)) g) g ivs) = pgMuted g" for g and ivs :: "(string \<times> vuln_info) list"
    by (induction ivs arbitrary: g) auto
  then show ?thesis by (simp add: finalize_def Let_def foldl_finalizeVuln)
qed

lemma finalize_ids:
  assumes "accOk s ref a"
  shows "vrID ` set (pgVulns (finalize tr a)) = dom (map_of (paVulns a))"
proof -
  have "vrID ` set (pgVulns (finalize tr a)) = fst ` set (paVulns a)"
    using assms by (simp add: finalize_simps accOk_def image_image)
  then show ?thesis by (simp add: dom_map_of_conv_image_fst)
qed

lemma mset_map_sortVulns: "mset (map f (sortVulns vs)) = mset (map f vs)"
  by (simp add: sortVulns_def)

lemma finalize_group:
  assumes "accOk s ref a"
  shows "PackageGroup_PackageRef (finalize tr a) = ref" "pgStatus (finalize tr a) = s"
    "PackageGroup_Total (finalize tr a) = length (pgVulns (finalize tr a))"
    "distinct (map vrID (pgVulns (finalize tr a)))" "pgVulns (finalize tr a) \<noteq> []"
    "v \<in> set (pgVulns (finalize tr a)) \<Longrightarrow> Rank (vrPriority v) \<le> Rank (pgPriority (finalize tr a))"
    "pgPriority (finalize tr a) \<in> insert PriorityNone (vrPriority ` set (pgVulns (finalize tr a)))"
proof -
  let ?vs = "map (vulnRefOf tr s) (paVulns a)"
  have v: "pgVulns (finalize tr a) = sortVulns ?vs" "pgPriority (finalize tr a) = maxOf PriorityNone ?vs"
    using assms by (simp_all add: finalize_simps accOk_def)
  show "PackageGroup_PackageRef (finalize tr a) = ref" "pgStatus (finalize tr a) = s"
    using assms by (simp_all add: finalize_simps accOk_def)
  show "PackageGroup_Total (finalize tr a) = length (pgVulns (finalize tr a))"
    using assms by (simp add: v finalize_simps accOk_def sortVulns_def)
  have "distinct (map vrID ?vs)" using assms by (simp add: accOk_def map_ok_def comp_def)
  then show "distinct (map vrID (pgVulns (finalize tr a)))"
    unfolding v using mset_map_sortVulns [of vrID ?vs] mset_eq_imp_distinct_iff by metis
  show "pgVulns (finalize tr a) \<noteq> []"
    using assms unfolding v accOk_def sortVulns_def by (metis length_0_conv length_map length_sortBy)
  show "v \<in> set (pgVulns (finalize tr a)) \<Longrightarrow> Rank (vrPriority v) \<le> Rank (pgPriority (finalize tr a))"
    using maxOf_spec [of PriorityNone ?vs] v by auto
  show "pgPriority (finalize tr a) \<in> insert PriorityNone (vrPriority ` set (pgVulns (finalize tr a)))"
    using maxOf_spec [of PriorityNone ?vs] v by auto
qed

subsection \<open>What the sections show\<close>

definition reportSection :: "report \<Rightarrow> string \<Rightarrow> image_findings list" where
  "reportSection r s =
     (if s = StatusFixed then rpActionable r else if s = StatusAffected then rpWatch r
      else if s = StatusWontFix then rpWontFix r else if s = StatusEndOfLife then rpEOLPackages r else [])"

definition reportStatuses :: "string list" where
  "reportStatuses = [StatusFixed, StatusAffected, StatusWontFix, StatusEndOfLife]"

lemma sectionOf_status: "sectionOf x = Some s \<Longrightarrow> s \<in> set reportStatuses"
  by (auto simp: sectionOf_def reportStatuses_def split: if_splits)

definition finalState :: "image_scan list \<Rightarrow> build_state" where
  "finalState scans = foldl buildScan startBuild scans"

lemma reportSection_Build:
  "s \<in> set reportStatuses \<Longrightarrow> reportSection (Build scans cs tr now) s =
     buildSection (mget [] (bsByStatus (finalState scans)) s) tr (fst (indexContainers cs)) (bsMeta (finalState scans))"
  by (auto simp: Build_def Let_def reportSection_def reportStatuses_def finalState_def case_prod_beta)

lemma bsMeta_key:
  assumes "\<exists>s \<in> set scans. snErr s = None \<and> scanKey s = k"
  shows "isKey (emSubject (mget zeroMeta (bsMeta (finalState scans)) k)) = snd k"
  using assms unfolding finalState_def
proof (induction scans rule: rev_induct)
  case (snoc s scans)
  then show ?case
    by (cases "snErr s") (auto simp: buildScan_def Let_def scanKey_def)
qed simp

lemma accAt_final:
  "accAt (bsByStatus (finalState scans)) s k ref = collect s (map snd (filter (goesTo s k ref) (events scans)))"
  by (simp add: finalState_def byStatus_events accAt_events)

lemma accAt_ok:
  assumes "accAt (bsByStatus (finalState scans)) s k ref = Some a"
  shows "accOk s ref a"
    "dom (map_of (paVulns a)) = {fdVulnID f | f. (k, f) \<in> set (events scans) \<and> sectionOf (fdStatus f) = Some s
       \<and> Finding_PackageRef f = ref}"
    "\<exists>sc \<in> set scans. snErr sc = None \<and> scanKey sc = k"
proof -
  let ?fs = "map snd (filter (goesTo s k ref) (events scans))"
  have c: "collect s ?fs = Some a" using assms by (simp add: accAt_final)
  have "\<forall>f \<in> set ?fs. Finding_PackageRef f = ref" by (auto simp: goesTo_def)
  note ok = collect_ok [OF c this]
  show "accOk s ref a" using ok by blast
  have "f \<in> set ?fs \<longleftrightarrow> (k, f) \<in> set (events scans) \<and> goesTo s k ref (k, f)" for f
  proof -
    have "f \<in> set ?fs \<longleftrightarrow> (\<exists>e \<in> set (events scans). goesTo s k ref e \<and> e = (k, f))"
      by (auto simp: goesTo_def image_iff Bex_def simp del: split_paired_Ex)
    then show ?thesis by blast
  qed
  then have "fdVulnID ` set ?fs = {fdVulnID f | f. (k, f) \<in> set (events scans) \<and> sectionOf (fdStatus f) = Some s
       \<and> Finding_PackageRef f = ref}"
    unfolding goesTo_def by auto
  with ok show "dom (map_of (paVulns a)) = {fdVulnID f | f. (k, f) \<in> set (events scans)
       \<and> sectionOf (fdStatus f) = Some s \<and> Finding_PackageRef f = ref}" by simp
  have "filter (goesTo s k ref) (events scans) \<noteq> []" using c by auto
  then obtain f where "(k, f) \<in> set (events scans)" unfolding filter_empty_conv goesTo_def by (metis prod.collapse)
  then show "\<exists>sc \<in> set scans. snErr sc = None \<and> scanKey sc = k" unfolding set_events by blast
qed

lemma mapsOk_final: "mapsOk (bsByStatus (finalState scans))"
  by (simp add: finalState_def byStatus_events mapsOk_events)

text \<open>A group of a section is the finalized accumulator of its entity and package.\<close>

lemma section_groups:
  assumes "s \<in> set reportStatuses"
  shows "(\<exists>img \<in> set (reportSection (Build scans cs tr now) s).
            ifImage img = fst k \<and> isKey (ifSubject img) = snd k \<and> g \<in> set (ifPackages img))
     \<longleftrightarrow> (\<exists>ref a. accAt (bsByStatus (finalState scans)) s k ref = Some a \<and> g = finalize tr a)"
    (is "?L \<longleftrightarrow> ?R")
proof -
  let ?m = "bsByStatus (finalState scans)" and ?meta = "bsMeta (finalState scans)"
  let ?images = "mget [] ?m s"
  have ok: "map_ok ?images" "\<And>k. map_ok (mget [] ?images k)"
    using mapsOk_final [of scans] unfolding mapsOk_def by blast+
  have entry: "map_of ?images k' = Some pkgs \<Longrightarrow> (ref, a) \<in> set pkgs \<longleftrightarrow> accAt ?m s k' ref = Some a" for k' pkgs ref a
    using gm.entries_iff ok(2) [of k'] by (simp add: accAt_def)
  have key: "isKey (emSubject (mget zeroMeta ?meta k')) = snd k'" if "accAt ?m s k' ref = Some a" for k' ref a
    using accAt_ok(3) [OF that] bsMeta_key by blast
  show ?thesis
  proof
    assume ?L
    then obtain k' pkgs ref a where p: "(k', pkgs) \<in> set ?images" "(ref, a) \<in> set pkgs" "g = finalize tr a"
      "fst k' = fst k" "isKey (emSubject (mget zeroMeta ?meta k')) = snd k"
      unfolding reportSection_Build [OF assms]
      by (auto simp: buildSection_def sortImages_def findingsOf_def sortPackages_def Let_def)
    then have "accAt ?m s k' ref = Some a" using entry gm.entries_iff [OF ok(1)] by blast
    moreover from this have "k' = k" using key p(4,5) by (metis prod.expand)
    ultimately show ?R using p(3) by blast
  next
    assume ?R
    then obtain ref a where r: "accAt ?m s k ref = Some a" "g = finalize tr a" by blast
    then obtain pkgs where p: "map_of ?images k = Some pkgs" "map_of pkgs ref = Some a"
      by (cases "map_of ?images k") (auto simp: accAt_def)
    then have "(k, pkgs) \<in> set ?images" "(ref, a) \<in> set pkgs"
      using r(1) entry [OF p(1)] gm.entries_iff [OF ok(1)] by blast+
    moreover have "isKey (emSubject (mget zeroMeta ?meta k)) = snd k" using key r(1) by blast
    ultimately show ?L
      unfolding reportSection_Build [OF assms] using r(2)
      by (auto simp: buildSection_def sortImages_def findingsOf_def sortPackages_def Let_def
          intro!: bexI [of _ "(k, pkgs)"] image_eqI [of _ _ "(ref, a)"])
  qed
qed

lemma Build_shown_iff:
  "(\<exists>img \<in> set (reportSection (Build scans cs tr now) s).
      ifImage img = ref \<and> isKey (ifSubject img) = key
      \<and> (\<exists>g \<in> set (ifPackages img). PackageGroup_PackageRef g = pr \<and> (\<exists>v \<in> set (pgVulns g). vrID v = i)))
   \<longleftrightarrow> (\<exists>sc \<in> set scans. snErr sc = None \<and> snImage sc = ref \<and> isKey (snSubject sc) = key
      \<and> (\<exists>f \<in> set (snFindings sc). sectionOf (fdStatus f) = Some s \<and> Finding_PackageRef f = pr \<and> fdVulnID f = i))"
  (is "?L \<longleftrightarrow> ?R")
proof (cases "s \<in> set reportStatuses")
  case True
  let ?m = "bsByStatus (finalState scans)" and ?k = "(ref, key)"
  have grp: "PackageGroup_PackageRef (finalize tr a) = q \<and> vrID ` set (pgVulns (finalize tr a)) =
      {fdVulnID f | f. (?k, f) \<in> set (events scans) \<and> sectionOf (fdStatus f) = Some s \<and> Finding_PackageRef f = q}"
    if "accAt ?m s ?k q = Some a" for q a
    using accAt_ok [OF that] finalize_group(1) finalize_ids by blast
  have "?L \<longleftrightarrow> (\<exists>g. (\<exists>img \<in> set (reportSection (Build scans cs tr now) s).
      ifImage img = fst ?k \<and> isKey (ifSubject img) = snd ?k \<and> g \<in> set (ifPackages img))
      \<and> PackageGroup_PackageRef g = pr \<and> i \<in> vrID ` set (pgVulns g))" by auto
  also have "\<dots> \<longleftrightarrow> (\<exists>a. accAt ?m s ?k pr = Some a \<and> i \<in> vrID ` set (pgVulns (finalize tr a)))"
    unfolding section_groups [OF True] using grp by blast
  also have "\<dots> \<longleftrightarrow> (\<exists>f. (?k, f) \<in> set (events scans) \<and> sectionOf (fdStatus f) = Some s \<and> Finding_PackageRef f = pr \<and> fdVulnID f = i)"
  proof
    assume "\<exists>f. (?k, f) \<in> set (events scans) \<and> sectionOf (fdStatus f) = Some s \<and> Finding_PackageRef f = pr \<and> fdVulnID f = i"
    then obtain f where f: "(?k, f) \<in> set (events scans)" "sectionOf (fdStatus f) = Some s" "Finding_PackageRef f = pr" "fdVulnID f = i"
      by blast
    then have "goesTo s ?k pr (?k, f)" by (simp add: goesTo_def)
    with f(1) have "filter (goesTo s ?k pr) (events scans) \<noteq> []" unfolding filter_empty_conv by blast
    then obtain a where "accAt ?m s ?k pr = Some a"
      by (cases "filter (goesTo s ?k pr) (events scans)") (auto simp: accAt_final)
    with grp f show "\<exists>a. accAt ?m s ?k pr = Some a \<and> i \<in> vrID ` set (pgVulns (finalize tr a))" by blast
  next
    assume "\<exists>a. accAt ?m s ?k pr = Some a \<and> i \<in> vrID ` set (pgVulns (finalize tr a))"
    then obtain a where a: "accAt ?m s ?k pr = Some a" "i \<in> vrID ` set (pgVulns (finalize tr a))" by blast
    from a(2) show "\<exists>f. (?k, f) \<in> set (events scans) \<and> sectionOf (fdStatus f) = Some s
        \<and> Finding_PackageRef f = pr \<and> fdVulnID f = i"
      unfolding grp [OF a(1), THEN conjunct2] by auto
  qed
  also have "\<dots> \<longleftrightarrow> ?R" by (auto simp: set_events scanKey_def)
  finally show ?thesis .
next
  case False
  then have "reportSection (Build scans cs tr now) s = []" by (auto simp: reportSection_def reportStatuses_def)
  moreover have "\<not> ?R" using False sectionOf_status by blast
  ultimately show ?thesis by simp
qed

text \<open>
  C19. The report shows exactly what the scans found: a vulnerability is listed under a section, an
  entity and a package if and only if a successful scan of that entity holds a finding of that
  vulnerability and package whose status belongs to the section. Only findings the vendor marks as
  not affecting the package belong to no section; an unknown status joins the affected ones.
\<close>

theorem Build_exact:
  "(\<exists>img \<in> set (reportSection (Build scans cs tr now) s).
      ifImage img = ref \<and> isKey (ifSubject img) = key
      \<and> (\<exists>g \<in> set (ifPackages img). PackageGroup_PackageRef g = pr \<and> (\<exists>v \<in> set (pgVulns g). vrID v = i)))
   \<longleftrightarrow> (\<exists>sc \<in> set scans. snErr sc = None \<and> snImage sc = ref \<and> isKey (snSubject sc) = key
      \<and> (\<exists>f \<in> set (snFindings sc). sectionOf (fdStatus f) = Some s \<and> Finding_PackageRef f = pr \<and> fdVulnID f = i))"
  by (rule Build_shown_iff)

lemma section_group_ok:
  assumes "s \<in> set reportStatuses" "img \<in> set (reportSection (Build scans cs tr now) s)" "g \<in> set (ifPackages img)"
  shows "\<exists>ref a. accOk s ref a \<and> g = finalize tr a"
proof -
  have "\<exists>img' \<in> set (reportSection (Build scans cs tr now) s).
      ifImage img' = fst (ifImage img, isKey (ifSubject img))
      \<and> isKey (ifSubject img') = snd (ifImage img, isKey (ifSubject img)) \<and> g \<in> set (ifPackages img')"
    using assms(2,3) by auto
  then obtain ref a where "accAt (bsByStatus (finalState scans)) s (ifImage img, isKey (ifSubject img)) ref = Some a"
    "g = finalize tr a"
    unfolding section_groups [OF assms(1)] by blast
  then show ?thesis using accAt_ok(1) by blast
qed

lemma Build_unmuted:
  assumes "img \<in> set (reportSection (Build scans cs tr now) s)" "g \<in> set (ifPackages img)"
  shows "\<not> pgMuted g"
proof -
  have s: "s \<in> set reportStatuses"
    using assms(1) by (auto simp: reportSection_def reportStatuses_def split: if_splits)
  show ?thesis using section_group_ok [OF s assms] by (auto simp: finalize_muted accOk_def)
qed

text \<open>
  What a package group of a report says about itself: its status is its section's, its severity
  counts add up to the number of its vulnerabilities, which are distinct and at least one, and its
  priority is the strongest among them, which the first one listed carries (scores being numbers).
\<close>

lemma Build_group_consistent:
  assumes "img \<in> set (reportSection (Build scans cs tr now) s)" "g \<in> set (ifPackages img)"
    and "\<forall>e \<in> snd ` set (trEnrich tr). erEPSS e \<noteq> NaN"
  shows "pgStatus g = s \<and> PackageGroup_Total g = length (pgVulns g) \<and> distinct (map vrID (pgVulns g))
    \<and> pgVulns g \<noteq> [] \<and> (\<forall>v \<in> set (pgVulns g). Rank (vrPriority v) \<le> Rank (pgPriority g))
    \<and> Rank (pgPriority g) = Rank (vrPriority (TopVuln g))"
proof -
  have s: "s \<in> set reportStatuses"
    using assms(1) by (auto simp: reportSection_def reportStatuses_def split: if_splits)
  obtain ref a where a: "accOk s ref a" "g = finalize tr a" using section_group_ok [OF s assms(1,2)] by blast
  note f = finalize_group [OF a(1), where tr = tr, folded a(2)]
  let ?vs = "map (vulnRefOf tr s) (paVulns a)"
  have v: "pgVulns g = sortVulns ?vs" using a by (simp add: finalize_simps accOk_def)
  have nan: "\<forall>v \<in> set ?vs. vrEPSS v \<noteq> NaN"
    using assms(3) by (fastforce simp: vulnRefOf_def Let_def mget_def zeroEnrichment_def dest: map_of_SomeD split: option.splits)
  have "Rank (pgPriority g) \<le> Rank (vrPriority (TopVuln g))"
  proof (cases "pgPriority g = PriorityNone")
    case True
    then show ?thesis by (simp add: Rank_def)
  next
    case False
    then obtain w where w: "w \<in> set (pgVulns g)" "pgPriority g = vrPriority w" using f(7) by blast
    then show ?thesis using sortVulns_head [OF nan, of w] v f(5) by (simp add: TopVuln_def)
  qed
  moreover have "Rank (vrPriority (TopVuln g)) \<le> Rank (pgPriority g)"
    using f(5,6) by (simp add: TopVuln_def)
  ultimately show ?thesis using f by simp
qed

definition sampleFinding :: finding where
  "sampleFinding = \<lparr>fdImage = ''app:1'', fdClass = ClassOS, fdPackage = ''openssl'', fdInstalledVer = ''3.0'',
     fdFixedVer = ''3.1'', fdStatus = StatusFixed, fdSeverity = SeverityHigh, fdVulnID = ''CVE-1'', fdURL = '''',
     fdTitle = '''', fdType = ''debian'', fdTarget = '''', fdPkgPath = '''', fdLayerDiffID = '''', fdLayerDigest = ''''\<rparr>"

definition sampleScan :: image_scan where
  "sampleScan = \<lparr>snImage = ''app:1'', snOSFamily = ''debian'', snOSName = ''12'', snOSEOSL = False,
     snFindings = [sampleFinding], snErr = None, snCause = '''', snRegistryHost = '''', snSubject = zeroSubject,
     snScannedKey = zeroEntityKey, snRegistryDigests = [], snPlatform = zeroPlatform, snPinned = False,
     snSource = SourceLocal, snComposeProject = '''', snComposeService = '''', snDiffIDs = [], snTrivyVersion = '''',
     snPackages = [], snPackagesTruncated = False, snConfigEnv = [], snRuntimeUnchecked = []\<rparr>"

subsection \<open>What the identity inventory says\<close>

definition obsStep :: "obs_acc \<Rightarrow> image_scan \<Rightarrow> obs_acc" where
  "obsStep a s =
     (let b = observeIdentity s a in
      case snErr s of Some err \<Rightarrow> b\<lparr>oaFailed := oaFailed b + 1\<rparr> | None \<Rightarrow> observeResult s b)"

definition scansOf :: "string \<Rightarrow> image_scan list \<Rightarrow> image_scan list" where
  "scansOf ref scans = filter (\<lambda>s. snImage s = ref) scans"

definition unconfirmedScan :: "image_scan \<Rightarrow> bool" where
  "unconfirmedScan s \<longleftrightarrow> snErr s = None \<and> \<not> snPinned s \<and> snSource s = SourceRemote"

definition configScan :: "image_scan \<Rightarrow> bool" where
  "configScan s \<longleftrightarrow> isResolved (snSubject s) \<and> dgKind (ekDigest (isKey (snSubject s))) = DigestConfig"

lemma buildScan_obs: "bsObs (buildScan st s) = mput (snImage s) (obsStep (mget zeroObs (bsObs st) (snImage s)) s) (bsObs st)"
  by (auto simp: buildScan_def obsStep_def Let_def split: option.splits)

lemma map_ok_obs: "map_ok (bsObs (finalState scans))"
  unfolding finalState_def
  by (induction scans rule: rev_induct) (simp_all add: startBuild_def buildScan_obs)

lemma obs_final:
  "map_of (bsObs (finalState scans)) ref =
     (if scansOf ref scans = [] then None else Some (foldl obsStep zeroObs (scansOf ref scans)))"
  unfolding finalState_def
proof (induction scans rule: rev_induct)
  case Nil
  then show ?case by (simp add: startBuild_def scansOf_def)
next
  case (snoc s scans)
  then show ?case by (auto simp: buildScan_obs scansOf_def mget_def)
qed

lemma setAdd_simps [simp]: "set (setAdd x xs) = insert x (set xs)" "distinct (setAdd x xs) \<longleftrightarrow> distinct xs"
  by (auto simp: setAdd_def)

lemma observeIdentity_facts:
  "oaTotal (observeIdentity s a) = Suc (oaTotal a)" "oaFailed (observeIdentity s a) = oaFailed a"
  "oaUnconfirmed (observeIdentity s a) = oaUnconfirmed a"
  "set (oaEntityKeys (observeIdentity s a)) =
     set (oaEntityKeys a) \<union> (if isResolved (snSubject s) then {isKey (snSubject s)} else {})"
  "distinct (oaEntityKeys (observeIdentity s a)) = distinct (oaEntityKeys a)"
  "set (oaContentIDs (observeIdentity s a)) =
     set (oaContentIDs a) \<union> (if configScan s then {Digest_String (ekDigest (isKey (snSubject s)))} else {})"
  "distinct (oaContentIDs (observeIdentity s a)) = distinct (oaContentIDs a)"
  "oaAnyWithoutConfig (observeIdentity s a) \<longleftrightarrow> oaAnyWithoutConfig a \<or> \<not> configScan s"
  by (auto simp: observeIdentity_def Let_def configScan_def)

lemma observeResult_facts:
  "oaTotal (observeResult s a) = oaTotal a" "oaFailed (observeResult s a) = oaFailed a"
  "oaUnconfirmed (observeResult s a) = oaUnconfirmed a + (if \<not> snPinned s \<and> snSource s = SourceRemote then 1 else 0)"
  "oaEntityKeys (observeResult s a) = oaEntityKeys a" "oaContentIDs (observeResult s a) = oaContentIDs a"
  "oaAnyWithoutConfig (observeResult s a) = oaAnyWithoutConfig a"
  by (auto simp: observeResult_def Let_def)

lemma obsStep_facts:
  "oaTotal (obsStep a s) = Suc (oaTotal a)"
  "oaFailed (obsStep a s) = oaFailed a + (if snErr s \<noteq> None then 1 else 0)"
  "oaUnconfirmed (obsStep a s) = oaUnconfirmed a + (if unconfirmedScan s then 1 else 0)"
  "set (oaEntityKeys (obsStep a s)) = set (oaEntityKeys a) \<union> (if isResolved (snSubject s) then {isKey (snSubject s)} else {})"
  "distinct (oaEntityKeys (obsStep a s)) = distinct (oaEntityKeys a)"
  "set (oaContentIDs (obsStep a s)) =
     set (oaContentIDs a) \<union> (if configScan s then {Digest_String (ekDigest (isKey (snSubject s)))} else {})"
  "distinct (oaContentIDs (obsStep a s)) = distinct (oaContentIDs a)"
  "oaAnyWithoutConfig (obsStep a s) \<longleftrightarrow> oaAnyWithoutConfig a \<or> \<not> configScan s"
  by (auto simp: obsStep_def Let_def unconfirmedScan_def observeIdentity_facts observeResult_facts split: option.splits)

lemma foldl_obsStep:
  fixes ss :: "image_scan list"
  defines "a \<equiv> foldl obsStep zeroObs ss"
  shows "oaTotal a = length ss" "oaFailed a = length (filter (\<lambda>s. snErr s \<noteq> None) ss)"
    "oaUnconfirmed a = length (filter unconfirmedScan ss)"
    "set (oaEntityKeys a) = {isKey (snSubject s) | s. s \<in> set ss \<and> isResolved (snSubject s)}"
    "distinct (oaEntityKeys a)"
    "set (oaContentIDs a) = {Digest_String (ekDigest (isKey (snSubject s))) | s. s \<in> set ss \<and> configScan s}"
    "distinct (oaContentIDs a)"
    "oaAnyWithoutConfig a \<longleftrightarrow> (\<exists>s \<in> set ss. \<not> configScan s)"
  unfolding a_def
  by (induction ss rule: rev_induct) (auto simp: zeroObs_def obsStep_facts)

lemma distinct_two: "distinct xs \<Longrightarrow> 1 < length xs \<longleftrightarrow> (\<exists>a \<in> set xs. \<exists>b \<in> set xs. a \<noteq> b)"
proof (induction xs)
  case (Cons x xs)
  then show ?case by (cases xs) auto
qed simp

lemma set_rpImages:
  "set (rpImages (Build scans cs tr now)) =
     {observationOf (snd (indexContainers cs)) (ref, foldl obsStep zeroObs (scansOf ref scans)) | ref. ref \<in> snImage ` set scans}"
proof -
  have "(ref, a) \<in> set (bsObs (finalState scans)) \<longleftrightarrow>
      ref \<in> snImage ` set scans \<and> a = foldl obsStep zeroObs (scansOf ref scans)" for ref a
    using gm.entries_iff [OF map_ok_obs [of scans], of ref a] obs_final [of scans ref]
    by (auto simp: scansOf_def filter_empty_conv image_iff)
  then show ?thesis
    by (force simp: Build_def Let_def finalState_def buildInventory_def case_prod_beta)
qed

text \<open>
  The identity inventory has one entry per scanned reference, and each entry is exact about the
  scans under its reference: it failed when all of them failed, it failed in part when some failed
  and some did not or when one was not confirmed, it is ambiguous when two of them resolved to
  different entities, and its content identifiers are those the caller resolved, whether or not the
  scan succeeded.
\<close>

lemma Build_inventory:
  "obRef ` set (rpImages (Build scans cs tr now)) = snImage ` set scans
   \<and> (\<forall>o' \<in> set (rpImages (Build scans cs tr now)). let ss = scansOf (obRef o') scans in
        (obScanFailed o' \<longleftrightarrow> (\<forall>s \<in> set ss. snErr s \<noteq> None))
      \<and> (obUnconfirmed o' \<longleftrightarrow> (\<exists>s \<in> set ss. unconfirmedScan s))
      \<and> (obPartialFailure o' \<longleftrightarrow> ((\<exists>s \<in> set ss. snErr s \<noteq> None) \<and> (\<exists>s \<in> set ss. snErr s = None)) \<or> obUnconfirmed o')
      \<and> (obAmbiguous o' \<longleftrightarrow> (\<exists>s \<in> set ss. \<exists>t \<in> set ss. isResolved (snSubject s) \<and> isResolved (snSubject t)
            \<and> isKey (snSubject s) \<noteq> isKey (snSubject t)))
      \<and> (obConfigIdentityResolved o' \<longleftrightarrow> (\<forall>s \<in> set ss. configScan s))
      \<and> set (obContentIDs o') = {Digest_String (ekDigest (isKey (snSubject s))) | s. s \<in> set ss \<and> configScan s})"
proof (intro conjI ballI)
  show "obRef ` set (rpImages (Build scans cs tr now)) = snImage ` set scans"
    unfolding set_rpImages by (force simp: observationOf_def)
  fix o' assume "o' \<in> set (rpImages (Build scans cs tr now))"
  then obtain ref where ref: "ref \<in> snImage ` set scans"
    and o: "o' = observationOf (snd (indexContainers cs)) (ref, foldl obsStep zeroObs (scansOf ref scans))"
    unfolding set_rpImages by blast
  let ?ss = "scansOf ref scans"
  have r: "obRef o' = ref" using o by (simp add: observationOf_def)
  have ne: "?ss \<noteq> []" using ref by (auto simp: scansOf_def filter_empty_conv)
  note f = foldl_obsStep [of ?ss]
  have all: "length (filter P ?ss) = length ?ss \<longleftrightarrow> (\<forall>s \<in> set ?ss. P s)" for P
    by (metis filter_True length_filter_less nat_less_le)
  have some: "0 < length (filter P ?ss) \<longleftrightarrow> (\<exists>s \<in> set ?ss. P s)" for P
    by (auto simp: filter_empty_conv)
  have less: "length (filter P ?ss) < length ?ss \<longleftrightarrow> (\<exists>s \<in> set ?ss. \<not> P s)" for P
    using all [of P] length_filter_le [of P ?ss] by (metis le_neq_implies_less nat_neq_iff)
  have amb: "obAmbiguous o' \<longleftrightarrow> (\<exists>s \<in> set ?ss. \<exists>t \<in> set ?ss. isResolved (snSubject s) \<and> isResolved (snSubject t)
        \<and> isKey (snSubject s) \<noteq> isKey (snSubject t))"
    using distinct_two [OF f(5)] f(4) by (auto simp: o observationOf_def)
  show "let ss = scansOf (obRef o') scans in
        (obScanFailed o' \<longleftrightarrow> (\<forall>s \<in> set ss. snErr s \<noteq> None))
      \<and> (obUnconfirmed o' \<longleftrightarrow> (\<exists>s \<in> set ss. unconfirmedScan s))
      \<and> (obPartialFailure o' \<longleftrightarrow> ((\<exists>s \<in> set ss. snErr s \<noteq> None) \<and> (\<exists>s \<in> set ss. snErr s = None)) \<or> obUnconfirmed o')
      \<and> (obAmbiguous o' \<longleftrightarrow> (\<exists>s \<in> set ss. \<exists>t \<in> set ss. isResolved (snSubject s) \<and> isResolved (snSubject t)
            \<and> isKey (snSubject s) \<noteq> isKey (snSubject t)))
      \<and> (obConfigIdentityResolved o' \<longleftrightarrow> (\<forall>s \<in> set ss. configScan s))
      \<and> set (obContentIDs o') = {Digest_String (ekDigest (isKey (snSubject s))) | s. s \<in> set ss \<and> configScan s}"
    unfolding r Let_def amb
    using f ne all [of "\<lambda>s. snErr s \<noteq> None"] some [of "\<lambda>s. snErr s \<noteq> None"] less [of "\<lambda>s. snErr s \<noteq> None"] some [of unconfirmedScan]
    by (simp add: o observationOf_def)
qed

subsection \<open>The report does not depend on map iteration orders\<close>

lemma mset_set_eq: "distinct xs \<Longrightarrow> distinct ys \<Longrightarrow> set xs = set ys \<Longrightarrow> mset xs = mset ys"
  by (simp add: set_eq_iff_mset_eq_distinct)

text \<open>Two accumulators with the same content, their maps and sets walked in different orders.\<close>

definition accSame :: "pkg_acc \<Rightarrow> pkg_acc \<Rightarrow> bool" where
  "accSame a b \<longleftrightarrow> paGroup a = paGroup b \<and> same_map (paVulns a) (paVulns b)
     \<and> mset (paInstances a) = mset (paInstances b) \<and> mset (paLayers a) = mset (paLayers b)"

lemma if_five: "x = (if A then a else if B then b else if C then c else if D then d else e) \<Longrightarrow> x \<in> {a, b, c, d, e}"
  by (auto split: if_splits)

lemma countSeverity_bump:
  "countSeverity s \<in> {\<lambda>g. g\<lparr>pgCritical := pgCritical g + 1\<rparr>, \<lambda>g. g\<lparr>pgHigh := pgHigh g + 1\<rparr>,
      \<lambda>g. g\<lparr>pgMedium := pgMedium g + 1\<rparr>, \<lambda>g. g\<lparr>pgLow := pgLow g + 1\<rparr>, \<lambda>g. g\<lparr>pgUnknown := pgUnknown g + 1\<rparr>}"
proof -
  have "countSeverity s = (if toUpper s = SeverityCritical then (\<lambda>g. g\<lparr>pgCritical := pgCritical g + 1\<rparr>)
      else if toUpper s = SeverityHigh then (\<lambda>g. g\<lparr>pgHigh := pgHigh g + 1\<rparr>)
      else if toUpper s = SeverityMedium then (\<lambda>g. g\<lparr>pgMedium := pgMedium g + 1\<rparr>)
      else if toUpper s = SeverityLow then (\<lambda>g. g\<lparr>pgLow := pgLow g + 1\<rparr>)
      else (\<lambda>g. g\<lparr>pgUnknown := pgUnknown g + 1\<rparr>))"
    by (rule ext) (simp add: countSeverity_def)
  then show ?thesis by (rule if_five)
qed

lemma foldl_countSeverity_perm:
  assumes "mset xs = mset ys"
  shows "foldl (\<lambda>g iv. countSeverity (viSev (snd iv)) g) g xs = foldl (\<lambda>g iv. countSeverity (viSev (snd iv)) g) g ys"
proof -
  have "(countSeverity x \<circ> countSeverity y) g = (countSeverity y \<circ> countSeverity x) g" for x y g
    using countSeverity_bump [of x] countSeverity_bump [of y]
    by (elim insertE emptyE) (simp_all only: comp_def, simp_all)
  then have "fold (\<lambda>iv. countSeverity (viSev (snd iv))) xs = fold (\<lambda>iv. countSeverity (viSev (snd iv))) ys"
    using assms by (intro fold_multiset_equiv) auto
  then show ?thesis by (simp add: foldl_conv_fold)
qed

definition priorities :: "string set" where
  "priorities = {PriorityNone, PriorityLow, PriorityWatch, PriorityActNow}"

lemma Rank_inject: "p \<in> priorities \<Longrightarrow> q \<in> priorities \<Longrightarrow> Rank p = Rank q \<Longrightarrow> p = q"
  by (auto simp: priorities_def)

lemma maxOf_perm:
  assumes "mset vs = mset ws" "\<forall>v \<in> set vs. vrPriority v \<in> priorities" "p \<in> priorities"
  shows "maxOf p vs = maxOf p ws"
proof (rule Rank_inject)
  have s: "set vs = set ws" using assms(1) by (metis set_mset_mset)
  show "maxOf p vs \<in> priorities" "maxOf p ws \<in> priorities"
    using maxOf_spec [of p vs] maxOf_spec [of p ws] assms s by auto
  show "Rank (maxOf p vs) = Rank (maxOf p ws)"
    using maxOf_spec [of p vs] maxOf_spec [of p ws] s by (intro order.antisym) auto
qed

lemma vulnRefOf_priority: "vrPriority (vulnRefOf tr s iv) \<in> priorities"
  by (cases iv) (auto simp: vulnRefOf_def Let_def priorityOf_def priorities_def)

definition enrichOk :: "triage \<Rightarrow> bool" where
  "enrichOk tr \<longleftrightarrow> (\<forall>e \<in> snd ` set (trEnrich tr). erEPSS e \<noteq> NaN)"

lemma vulnRefOf_epss: "enrichOk tr \<Longrightarrow> vrEPSS (vulnRefOf tr s iv) \<noteq> NaN"
  by (cases iv) (fastforce simp: enrichOk_def vulnRefOf_def Let_def mget_def zeroEnrichment_def
      dest: map_of_SomeD split: option.splits)

lemma strict_weak_lessInstance: "strict_weak lessInstance"
proof -
  have eq: "lessInstance = ltThen (\<lambda>a b. icType a < icType b) (ltThen (\<lambda>a b. icTarget a < icTarget b) (\<lambda>a b. icPkgPath a < icPkgPath b))"
    by (intro ext) (auto simp: lessInstance_def ltThen_def)
  show ?thesis unfolding eq by (intro strict_weak_ltThen strict_weak_key)
qed

interpretation instance_order: strict_weak lessInstance
  by (rule strict_weak_lessInstance)

lemma sortInstances_perm:
  assumes "mset xs = mset ys" "\<forall>i \<in> set xs. icPackageRef i = ref"
  shows "sortInstances xs = sortInstances ys"
  unfolding sortInstances_def
proof (rule instance_order.sortBy_perm_eq [OF assms(1)])
  fix a b assume "a \<in> set xs" "b \<in> set xs" "\<not> lessInstance a b" "\<not> lessInstance b a"
  then have "icType a = icType b" "icTarget a = icTarget b" "icPkgPath a = icPkgPath b"
    "icPackageRef a = icPackageRef b"
    using assms(2) by (auto simp: lessInstance_def split: if_splits)
  then show "a = b" by (cases a, cases b) simp
qed

lemma finalize_same:
  assumes "accSame a b" "accOk s ref a" "enrichOk tr"
  shows "finalize tr a = finalize tr b"
proof -
  have g: "paGroup b = paGroup a" and m: "mset (paVulns a) = mset (paVulns b)"
    and i: "mset (paInstances a) = mset (paInstances b)" and l: "mset (paLayers a) = mset (paLayers b)"
    using assms(1) same_map_mset by (auto simp: accSame_def)
  let ?v = "vulnRefOf tr s"
  have mv: "mset (map ?v (paVulns a)) = mset (map ?v (paVulns b))" using m by (simp add: mset_map)
  have "distinct (map vrID (map ?v (paVulns a)))" using assms(2) by (simp add: accOk_def map_ok_def comp_def)
  then have v: "sortVulns (map ?v (paVulns a)) = sortVulns (map ?v (paVulns b))"
    using vulnRefOf_epss [OF assms(3)] by (intro sortVulns_perm [OF mv]) auto
  have p: "maxOf PriorityNone (map ?v (paVulns a)) = maxOf PriorityNone (map ?v (paVulns b))"
    using vulnRefOf_priority by (intro maxOf_perm [OF mv]) (auto simp: priorities_def)
  have c: "foldl (\<lambda>g iv. countSeverity (viSev (snd iv)) g) (paGroup a) (paVulns a)
      = foldl (\<lambda>g iv. countSeverity (viSev (snd iv)) g) (paGroup a) (paVulns b)"
    by (rule foldl_countSeverity_perm [OF m])
  have "sortInstances (paInstances a) = sortInstances (paInstances b)" "sort (paLayers a) = sort (paLayers b)"
    using assms(2) sortInstances_perm [OF i] sort_strings_perm [OF l] by (auto simp: accOk_def)
  then show ?thesis
    using assms(2)
    by (simp add: finalize_def Let_def foldl_finalizeVuln foldl_countSeverity g c v p accOk_def)
qed

lemma strict_weak_lessPackage: "strict_weak lessPackage"
proof -
  have eq: "lessPackage = ltThen (\<lambda>a b. severityTier a < severityTier b)
      (ltThen (\<lambda>a b. PackageGroup_Total b < PackageGroup_Total a)
        (ltThen (\<lambda>a b. pgPackage a < pgPackage b)
          (ltThen (\<lambda>a b. pgEcosystem a < pgEcosystem b)
            (ltThen (\<lambda>a b. pgInstalledVer a < pgInstalledVer b) (\<lambda>a b. pgClass a < pgClass b)))))"
    by (intro ext) (auto simp: lessPackage_def ltThen_def)
  show ?thesis unfolding eq by (intro strict_weak_ltThen strict_weak_key strict_weak_key_rev)
qed

interpretation package_order: strict_weak lessPackage
  by (rule strict_weak_lessPackage)

lemma lessPackage_ties:
  "\<not> lessPackage a b \<Longrightarrow> \<not> lessPackage b a \<Longrightarrow> PackageGroup_PackageRef a = PackageGroup_PackageRef b"
  by (auto simp: lessPackage_def PackageGroup_PackageRef_def split: if_splits)

lemma sortPackages_perm:
  assumes "mset xs = mset ys" "distinct (map PackageGroup_PackageRef xs)"
  shows "sortPackages xs = sortPackages ys"
  unfolding sortPackages_def
  by (rule package_order.sortBy_perm_eq [OF assms(1)])
    (use assms(2) lessPackage_ties in \<open>metis distinct_map inj_onD\<close>)

lemma analyze_lessEntityKey_eq: "analyze_lessEntityKey = lessEntityKey"
  by (intro ext) (simp add: analyze_lessEntityKey_def lessEntityKey_def)

lemma strict_weak_lessImage: "strict_weak lessImage"
proof -
  have eq: "lessImage = ltThen (\<lambda>a b. CriticalCount b < CriticalCount a)
      (ltThen (\<lambda>a b. (svHigh (ImageFindings_Counts b) > 0) < (svHigh (ImageFindings_Counts a) > 0))
        (ltThen (\<lambda>a b. TotalCount b < TotalCount a)
          (ltThen (\<lambda>a b. ifImage a < ifImage b)
            (\<lambda>a b. lessEntityKey (isKey (ifSubject a)) (isKey (ifSubject b))))))"
    by (intro ext) (auto simp: lessImage_def ltThen_def analyze_lessEntityKey_eq)
  show ?thesis
    unfolding eq by (intro strict_weak_ltThen strict_weak_key strict_weak_key_rev
        strict_weak_comp [OF strict_weak_lessEntityKey])
qed

interpretation image_order: strict_weak lessImage
  by (rule strict_weak_lessImage)

text \<open>
  Entity keys that tie are equal when their digests have one algorithm, as every resolved key has.
\<close>

lemma lessImage_ties:
  "\<not> lessImage a b \<Longrightarrow> \<not> lessImage b a \<Longrightarrow> ifImage a = ifImage b
     \<and> \<not> lessEntityKey (isKey (ifSubject a)) (isKey (ifSubject b))
     \<and> \<not> lessEntityKey (isKey (ifSubject b)) (isKey (ifSubject a))"
  by (auto simp: lessImage_def analyze_lessEntityKey_eq split: if_splits)

lemma relMap_mem:
  "relMap R m n \<Longrightarrow> map_of m k = Some a \<Longrightarrow> \<exists>b. map_of n k = Some b \<and> R a b"
  unfolding relMap_def by (metis option.rel_cases option.simps(3) option.inject)

lemma findingsOf_same:
  assumes "relMap accSame pkgs pkgs'" "\<And>ref a. map_of pkgs ref = Some a \<Longrightarrow> accOk s ref a" "enrichOk tr"
  shows "findingsOf tr byKey meta (k, pkgs) = findingsOf tr byKey meta (k, pkgs')"
proof -
  have "mset (map (\<lambda>(r, a). finalize tr a) pkgs) = mset (map (\<lambda>(r, a). finalize tr a) pkgs')"
    by (rule relMap_mset [OF assms(1)]) (use finalize_same assms in blast)
  moreover have "(\<lambda>(r :: package_ref, a). finalize tr a) = finalize tr \<circ> snd" by auto
  ultimately have m: "mset (map (finalize tr \<circ> snd) pkgs) = mset (map (finalize tr \<circ> snd) pkgs')"
    by (simp only:)
  have ok: "map_ok pkgs" using assms(1) by (simp add: relMap_def)
  have "map (PackageGroup_PackageRef \<circ> (finalize tr \<circ> snd)) pkgs = map fst pkgs"
  proof (rule map_cong [OF refl])
    fix e assume "e \<in> set pkgs"
    then have "map_of pkgs (fst e) = Some (snd e)" using ok by (simp add: map_ok_def)
    then show "(PackageGroup_PackageRef \<circ> (finalize tr \<circ> snd)) e = fst e"
      using assms(2) finalize_group(1) by fastforce
  qed
  then have "distinct (map PackageGroup_PackageRef (map (finalize tr \<circ> snd) pkgs))"
    using ok unfolding map_ok_def map_map by (simp only:)
  from sortPackages_perm [OF m this] show ?thesis by (simp add: findingsOf_def)
qed

text \<open>Every key of a running entity comes from \<open>EntityKeyOf\<close>, so all digests have one algorithm.\<close>

definition keysFromImages :: "image_scan list \<Rightarrow> bool" where
  "keysFromImages scans \<longleftrightarrow> (\<forall>s \<in> set scans. \<exists>img. isKey (snSubject s) = fst (EntityKeyOf img))"

lemma entry_scanned:
  assumes "map_of (mget [] (bsByStatus (finalState scans)) s) k = Some pkgs" "pkgs \<noteq> []"
  shows "\<exists>sc \<in> set scans. snErr sc = None \<and> scanKey sc = k"
proof -
  have "map_of pkgs (fst (hd pkgs)) = Some (snd (hd pkgs))" using assms(2) by (cases pkgs) auto
  then have "accAt (bsByStatus (finalState scans)) s k (fst (hd pkgs)) = Some (snd (hd pkgs))"
    using assms(1) by (simp add: accAt_def)
  then show ?thesis by (rule accAt_ok(3))
qed

lemma mput_nonempty [simp]: "mput k v m \<noteq> []"
  by (simp add: mput_def)

lemma addFinding_nonempty:
  assumes "\<And>s k. map_of (mget [] m s) k \<noteq> Some []"
  shows "map_of (mget [] (addFinding k' m f) s) k \<noteq> Some []"
  using assms [of s k] by (cases "sectionOf (fdStatus f)") (auto simp: addFinding_def Let_def)

lemma entries_nonempty: "map_of (mget [] (bsByStatus (finalState scans)) s) k \<noteq> Some []"
proof -
  have "map_of (mget [] (foldl (\<lambda>m (k, f). addFinding k m f) [] es) s) k \<noteq> Some []" for es
  proof (induction es arbitrary: s k rule: rev_induct)
    case (snoc e es)
    then show ?case by (cases e) (simp add: addFinding_nonempty)
  qed simp
  then show ?thesis by (simp add: finalState_def byStatus_events)
qed

lemma keysFromImages_inject:
  assumes "keysFromImages scans" "sc \<in> set scans" "sc' \<in> set scans"
    and "\<not> lessEntityKey (isKey (snSubject sc)) (isKey (snSubject sc'))"
    and "\<not> lessEntityKey (isKey (snSubject sc')) (isKey (snSubject sc))"
  shows "isKey (snSubject sc) = isKey (snSubject sc')"
proof (rule lessEntityKey_ties [OF assms(4,5)])
  obtain i j where k: "isKey (snSubject sc) = fst (EntityKeyOf i)" "isKey (snSubject sc') = fst (EntityKeyOf j)"
    using assms(1-3) unfolding keysFromImages_def by blast
  have "dgKind (ekDigest (isKey (snSubject sc))) = dgKind (ekDigest (isKey (snSubject sc')))"
    using assms(4,5) by (auto simp: lessEntityKey_def split: if_splits)
  then show "dgAlgorithm (ekDigest (isKey (snSubject sc))) = dgAlgorithm (ekDigest (isKey (snSubject sc')))"
    using EntityKeyOf_algorithm [of i] EntityKeyOf_algorithm [of j] k by simp
qed

text \<open>
  C21. The sections do not depend on the order in which Go walks its maps: whatever order the entities
  of a section, the packages of an entity, and the vulnerabilities, instances and layers of a package
  are visited in, the section built from them is the one of the report. Running entities have keys
  made by \<open>EntityKeyOf\<close>, and scores are numbers.
\<close>

theorem Build_map_order:
  assumes "keysFromImages scans" "enrichOk tr" "s \<in> set reportStatuses"
    and "relMap (relMap accSame) (mget [] (bsByStatus (finalState scans)) s) images'"
  shows "buildSection images' tr (fst (indexContainers cs)) (bsMeta (finalState scans))
    = reportSection (Build scans cs tr now) s"
proof -
  let ?images = "mget [] (bsByStatus (finalState scans)) s" and ?meta = "bsMeta (finalState scans)"
  let ?f = "findingsOf tr (fst (indexContainers cs)) ?meta"
  have ok: "map_ok ?images" using mapsOk_final [of scans] unfolding mapsOk_def by blast
  have acc: "accOk s ref a" if "map_of ?images k = Some pkgs" "map_of pkgs ref = Some a" for k pkgs ref a
    using that accAt_ok(1) [of scans s k ref a] by (simp add: accAt_def)
  have "mset (map (\<lambda>(k, pkgs). ?f (k, pkgs)) ?images) = mset (map (\<lambda>(k, pkgs). ?f (k, pkgs)) images')"
    by (rule relMap_mset [OF assms(4)]) (use findingsOf_same acc assms(2) in blast)
  then have m: "mset (map ?f ?images) = mset (map ?f images')" by simp
  have key: "ifImage (?f e) = fst (fst e) \<and> isKey (ifSubject (?f e)) = snd (fst e)
      \<and> (\<exists>sc \<in> set scans. isKey (snSubject sc) = snd (fst e))" if "e \<in> set ?images" for e
  proof -
    have "map_of ?images (fst e) = Some (snd e)" using that ok by (simp add: map_ok_def)
    then obtain sc where sc: "sc \<in> set scans" "snErr sc = None" "scanKey sc = fst e"
      using entry_scanned entries_nonempty by metis
    then have "isKey (snSubject sc) = snd (fst e)" by (metis scanKey_def snd_conv)
    with sc show ?thesis using bsMeta_key [of scans "fst e"]
      by (auto simp: findingsOf_def Let_def case_prod_beta)
  qed
  have "sortImages (map ?f ?images) = sortImages (map ?f images')"
    unfolding sortImages_def
  proof (rule image_order.sortBy_perm_eq [OF m])
    fix a b assume "a \<in> set (map ?f ?images)" "b \<in> set (map ?f ?images)"
      and t: "\<not> lessImage a b" "\<not> lessImage b a"
    then obtain e d where e: "e \<in> set ?images" "a = ?f e" and d: "d \<in> set ?images" "b = ?f d" by auto
    have "fst e = fst d"
      using key [OF e(1)] key [OF d(1)] e(2) d(2) lessImage_ties [OF t] keysFromImages_inject [OF assms(1)]
      by (metis prod.expand)
    then have "e = d" using e(1) d(1) ok unfolding map_ok_def by (metis eq_key_imp_eq_value prod.collapse)
    with e d show "a = b" by simp
  qed
  then show ?thesis by (simp add: reportSection_Build [OF assms(3)] buildSection_def)
qed

definition sampleScan2 :: image_scan where
  "sampleScan2 = sampleScan\<lparr>snFindings := [sampleFinding, sampleFinding\<lparr>fdPackage := ''zlib''\<rparr>]\<rparr>"

theorem Build_map_order_witness:
  "(let images = mget [] (bsByStatus (finalState [sampleScan2])) StatusFixed;
        images' = map (\<lambda>(k, pkgs). (k, rev pkgs)) images in
      images' \<noteq> images \<and> buildSection images' sampleTriage [] (bsMeta (finalState [sampleScan2]))
        = reportSection (Build [sampleScan2] [] sampleTriage 0) StatusFixed)"
proof -
  let ?images = "mget [] (bsByStatus (finalState [sampleScan2])) StatusFixed"
  let ?images' = "map (\<lambda>(k, pkgs). (k, rev pkgs)) ?images"
  have ne: "?images' \<noteq> ?images" by code_simp
  have ok: "map_ok ?images" "\<And>k. map_ok (mget [] ?images k)"
    using mapsOk_final [of "[sampleScan2]"] unfolding mapsOk_def by blast+
  have accs: "\<forall>e \<in> set ?images. \<forall>r \<in> set (snd e). map_ok (paVulns (snd r))"
    by code_simp
  have same: "accSame a a" if "map_ok (paVulns a)" for a using that by (simp add: accSame_def same_map_def)
  have "relMap accSame pkgs (rev pkgs)" if "map_of ?images k = Some pkgs" for k pkgs
  proof -
    have o: "map_ok pkgs" using ok(2) [of k] that by simp
    then have "map_of (rev pkgs) = map_of pkgs" by (rule map_of_rev)
    moreover have "rel_option accSame (map_of pkgs r) (map_of pkgs r)" for r
      using accs that same by (cases "map_of pkgs r") (force dest: map_of_SomeD)+
    ultimately show ?thesis using o by (simp add: relMap_def)
  qed
  then have "relMap (relMap accSame) ?images ?images'"
    using ok(1) unfolding relMap_def
    by (auto simp: map_of_map_key map_ok_def comp_def case_prod_beta option.rel_map intro!: option.rel_refl_strong)
  moreover have "keysFromImages [sampleScan2]"
    unfolding keysFromImages_def
    by (auto intro!: exI [of _ sampleImage]) code_simp
  moreover have "enrichOk sampleTriage" by (simp add: enrichOk_def sampleTriage_def)
  moreover have "StatusFixed \<in> set reportStatuses" by (simp add: reportStatuses_def)
  ultimately have "buildSection ?images' sampleTriage (fst (indexContainers [])) (bsMeta (finalState [sampleScan2]))
      = reportSection (Build [sampleScan2] [] sampleTriage 0) StatusFixed"
    by (rule Build_map_order [rotated 3])
  then show ?thesis using ne by (simp add: Let_def indexContainers_def)
qed

end
