(* ===== verification/Priority_View.thy ===== *)
theory Priority_View
  imports Analyze
begin

section \<open>The report by priority\<close>

text \<open>
  \<open>internal/analyze/triage.go\<close>, \<open>ByPriority\<close>: the groups of the status sections regrouped by
  priority, entity by entity, as the messages show them. The lemmas show that regrouping loses,
  duplicates and moves nothing, that end-of-life groups join only the act-now bucket, and that within
  a bucket what is in use comes first.
\<close>

subsection \<open>Definitions\<close>

record priority_view =
  pvActNow :: "image_findings list"
  pvWatch :: "image_findings list"
  pvLow :: "image_findings list"

definition GroupCount :: "image_findings list \<Rightarrow> nat" where
  "GroupCount imgs = sum_list (map (\<lambda>img. length (ifPackages img)) imgs)"

definition anyPackageInUse :: "package_group list \<Rightarrow> bool" where
  "anyPackageInUse groups = list_ex (\<lambda>g. rtUsage (pgRuntime g) = UsageInUse) groups"

definition lessRuntimePackage :: "package_group \<Rightarrow> package_group \<Rightarrow> bool" where
  "lessRuntimePackage a b =
     (let ui = (rtUsage (pgRuntime a) = UsageInUse); uj = (rtUsage (pgRuntime b) = UsageInUse);
          ei = exposureRank (rtExposure (pgRuntime a)); ej = exposureRank (rtExposure (pgRuntime b)) in
      if ui \<noteq> uj then ui
      else if \<not> ui then False
      else if ei \<noteq> ej then ei > ej
      else rtHighPrivilege (pgRuntime a) \<and> \<not> rtHighPrivilege (pgRuntime b))"

definition runtimeSortPackages :: "package_group list \<Rightarrow> package_group list" where
  "runtimeSortPackages g = sortBy lessRuntimePackage g"

definition runtimeSortImages :: "image_findings list \<Rightarrow> image_findings list" where
  "runtimeSortImages imgs = sortBy (\<lambda>a b. anyPackageInUse (ifPackages a) \<and> \<not> anyPackageInUse (ifPackages b)) imgs"

definition bucketImage :: "(imgKey, container list) gmap \<Rightarrow> (imgKey, entity_meta) gmap \<Rightarrow> bool
    \<Rightarrow> imgKey \<times> package_group list \<Rightarrow> image_findings" where
  "bucketImage containers meta runtimeEnabled = (\<lambda>(k, groups).
     (let m = mget zeroMeta meta k; gs = sortPackages groups in
      \<lparr>ifImage = fst k, ifSubject = emSubject m, ifPinned = emPinned m,
       ifPackages = (if runtimeEnabled then runtimeSortPackages gs else gs), ifContainers = mget [] containers k\<rparr>))"

definition bucketSection :: "(imgKey, package_group list) gmap \<Rightarrow> (imgKey, container list) gmap
    \<Rightarrow> (imgKey, entity_meta) gmap \<Rightarrow> bool \<Rightarrow> image_findings list" where
  "bucketSection images containers meta runtimeEnabled =
     (if images = [] then []
      else (let out = sortImages (map (bucketImage containers meta runtimeEnabled) images) in
            if runtimeEnabled then runtimeSortImages out else out))"

record view_state =
  vwBuckets :: "(string, (imgKey, package_group list) gmap) gmap"
  vwContainers :: "(imgKey, container list) gmap"
  vwMeta :: "(imgKey, entity_meta) gmap"

definition bucketGroup :: "imgKey \<Rightarrow> (string, (imgKey, package_group list) gmap) gmap \<Rightarrow> package_group
    \<Rightarrow> (string, (imgKey, package_group list) gmap) gmap" where
  "bucketGroup k buckets g =
     (if IsEOL g \<and> pgPriority g \<noteq> PriorityActNow then buckets
      else mput (pgPriority g) (appendAt k g (mget [] buckets (pgPriority g))) buckets)"

definition viewImage :: "view_state \<Rightarrow> image_findings \<Rightarrow> view_state" where
  "viewImage st img =
     (let k = (ifImage img, isKey (ifSubject img)) in
      \<lparr>vwBuckets = foldl (bucketGroup k) (vwBuckets st) (ifPackages img),
       vwContainers = mput k (ifContainers img) (vwContainers st),
       vwMeta = mput k \<lparr>emSubject = ifSubject img, emPinned = ifPinned img\<rparr> (vwMeta st)\<rparr>)"

definition viewState :: "report \<Rightarrow> view_state" where
  "viewState r = foldl (\<lambda>st sec. foldl viewImage st sec) \<lparr>vwBuckets = [], vwContainers = [], vwMeta = []\<rparr> (sections r)"

definition viewBucket :: "report \<Rightarrow> string \<Rightarrow> image_findings list" where
  "viewBucket r p =
     (let st = viewState r in
      bucketSection (mget [] (vwBuckets st) p) (vwContainers st) (vwMeta st) (rpRuntime r \<noteq> None))"

definition ByPriority :: "report \<Rightarrow> priority_view" where
  "ByPriority r =
     \<lparr>pvActNow = viewBucket r PriorityActNow, pvWatch = viewBucket r PriorityWatch, pvLow = viewBucket r PriorityLow\<rparr>"

subsection \<open>Regrouping keeps every group\<close>

text \<open>The groups of a list of images, each with the entity it belongs to.\<close>

definition keyedEntities :: "image_findings list \<Rightarrow> (imgKey \<times> package_group) list" where
  "keyedEntities imgs = concat (map (\<lambda>img. map (Pair (ifImage img, isKey (ifSubject img))) (ifPackages img)) imgs)"

definition shownIn :: "string \<Rightarrow> package_group \<Rightarrow> bool" where
  "shownIn p g \<longleftrightarrow> pgPriority g = p \<and> (IsEOL g \<longrightarrow> p = PriorityActNow)"

definition bucketEntries :: "(imgKey, package_group list) gmap \<Rightarrow> (imgKey \<times> package_group) multiset" where
  "bucketEntries m = mset (concat (map (\<lambda>(k, gs). map (Pair k) gs) m))"

lemma bucketEntries_appendAt: "bucketEntries (appendAt k g m) = add_mset (k, g) (bucketEntries m)"
proof -
  have "bucketEntries (mput k (mget [] m k @ [g]) m) = add_mset (k, g) (bucketEntries m)"
  proof (induction m)
    case (Cons e m)
    then show ?case by (cases e) (auto simp: bucketEntries_def mget_def mput_def)
  qed (simp add: bucketEntries_def mget_def mput_def)
  then show ?thesis by (simp add: appendAt_def)
qed

lemma bucketGroup_entries:
  "bucketEntries (mget [] (bucketGroup k b g) p) =
     bucketEntries (mget [] b p) + (if shownIn p g then {#(k, g)#} else {#})"
  by (auto simp: bucketGroup_def shownIn_def bucketEntries_appendAt mget_def)

lemma viewImage_entries:
  "bucketEntries (mget [] (vwBuckets (viewImage st img)) p) =
     bucketEntries (mget [] (vwBuckets st) p) + mset (filter (\<lambda>e. shownIn p (snd e)) (keyedEntities [img]))"
proof -
  have "bucketEntries (mget [] (foldl (bucketGroup k) b gs) p) =
      bucketEntries (mget [] b p) + mset (filter (\<lambda>e. shownIn p (snd e)) (map (Pair k) gs))" for k b gs
    by (induction gs arbitrary: b) (auto simp: bucketGroup_entries)
  then show ?thesis by (simp add: viewImage_def Let_def keyedEntities_def)
qed

lemma viewState_entries:
  "bucketEntries (mget [] (vwBuckets (viewState r)) p) = mset (filter (\<lambda>e. shownIn p (snd e)) (keyedEntities (concat (sections r))))"
proof -
  have one: "bucketEntries (mget [] (vwBuckets (foldl viewImage st imgs)) p) =
      bucketEntries (mget [] (vwBuckets st) p) + mset (filter (\<lambda>e. shownIn p (snd e)) (keyedEntities imgs))" for st imgs
    by (induction imgs arbitrary: st) (auto simp: viewImage_entries, auto simp: keyedEntities_def)
  have "foldl (\<lambda>st sec. foldl viewImage st sec) st ss = foldl viewImage st (concat ss)" for st ss
    by (induction ss arbitrary: st) simp_all
  then show ?thesis by (simp add: viewState_def one) (simp add: bucketEntries_def mget_def)
qed

text \<open>Every entity of a bucket has its subject recorded, and the subject has the entity's key.\<close>

definition viewOk :: "view_state \<Rightarrow> bool" where
  "viewOk st \<longleftrightarrow> (\<forall>k m. map_of (vwMeta st) k = Some m \<longrightarrow> isKey (emSubject m) = snd k)
     \<and> (\<forall>p k. mhas (mget [] (vwBuckets st) p) k \<longrightarrow> mhas (vwMeta st) k)"

lemma bucketGroups_has: "mhas (mget [] (foldl (bucketGroup k) b gs) p) k' \<Longrightarrow> mhas (mget [] b p) k' \<or> k' = k"
proof (induction gs arbitrary: b)
  case (Cons g gs)
  have "mhas (mget [] (bucketGroup k b g) p) k' \<Longrightarrow> mhas (mget [] b p) k' \<or> k' = k"
    by (auto simp: bucketGroup_def appendAt_def mget_def mhas_def split: if_splits option.splits)
  with Cons show ?case by auto
qed simp

lemma viewOk_state: "viewOk (viewState r)"
proof -
  have step: "viewOk (viewImage st img)" if ok: "viewOk st" for st img
    using ok bucketGroups_has by (fastforce simp: viewOk_def viewImage_def Let_def mhas_def [of "vwMeta st"] mhas_def [of "mput _ _ _"])
  have "viewOk st \<Longrightarrow> viewOk (foldl viewImage st imgs)" for st imgs
    by (induction imgs arbitrary: st) (auto simp: step)
  then have "viewOk st \<Longrightarrow> viewOk (foldl (\<lambda>st sec. foldl viewImage st sec) st ss)" for st ss
    by (induction ss arbitrary: st) auto
  moreover have "viewOk \<lparr>vwBuckets = [], vwContainers = [], vwMeta = []\<rparr>" by (simp add: viewOk_def mhas_def mget_def)
  ultimately show ?thesis by (simp add: viewState_def)
qed

lemma bucketSection_entries:
  assumes "\<And>k. mhas m k \<Longrightarrow> isKey (emSubject (mget zeroMeta meta k)) = snd k"
  shows "mset (keyedEntities (bucketSection m cs meta rt)) = bucketEntries m"
proof -
  have perm: "mset xs = mset ys \<Longrightarrow> mset (keyedEntities xs) = mset (keyedEntities ys)" for xs ys
    by (simp add: keyedEntities_def mset_concat flip: sum_mset_sum_list)
  have key: "(ifImage (bucketImage cs meta rt e), isKey (ifSubject (bucketImage cs meta rt e))) = fst e" if "e \<in> set m" for e
  proof -
    have "mhas m (fst e)" using that by (auto simp: mhas_iff)
    from assms [OF this] show ?thesis by (simp add: bucketImage_def Let_def case_prod_unfold)
  qed
  have pk: "mset (ifPackages (bucketImage cs meta rt e)) = mset (snd e)" for e
    by (cases e) (simp add: bucketImage_def Let_def runtimeSortPackages_def sortPackages_def)
  have "mset (map (bucketImage cs meta rt) m) = mset (bucketSection m cs meta rt)"
    by (simp add: bucketSection_def Let_def runtimeSortImages_def sortImages_def)
  then have "mset (keyedEntities (bucketSection m cs meta rt)) = mset (keyedEntities (map (bucketImage cs meta rt) m))"
    by (metis perm)
  also have "\<dots> = bucketEntries m"
    using key unfolding keyedEntities_def bucketEntries_def
  proof (induction m)
    case (Cons e m)
    have "mset (map (Pair (ifImage (bucketImage cs meta rt e), isKey (ifSubject (bucketImage cs meta rt e)))) (ifPackages (bucketImage cs meta rt e)))
        = mset (map (Pair (fst e)) (snd e))" using Cons.prems [of e] pk [of e] by simp
    with Cons show ?case by (cases e) simp
  qed simp
  finally show ?thesis .
qed

lemma viewBucket_exact:
  "mset (keyedEntities (viewBucket r p)) = mset (filter (\<lambda>e. shownIn p (snd e)) (keyedEntities (concat (sections r))))
   \<and> GroupCount (viewBucket r p) = length (filter (\<lambda>e. shownIn p (snd e)) (keyedEntities (concat (sections r))))"
proof -
  have "isKey (emSubject (mget zeroMeta (vwMeta (viewState r)) k)) = snd k" if "mhas (mget [] (vwBuckets (viewState r)) p) k" for k
  proof -
    note ok = viewOk_state [of r, unfolded viewOk_def]
    have "mhas (vwMeta (viewState r)) k" using ok that by blast
    then obtain m where m: "map_of (vwMeta (viewState r)) k = Some m" unfolding mhas_def by blast
    then have "isKey (emSubject m) = snd k" using ok by blast
    then show ?thesis by (simp add: mget_def m)
  qed
  then have eq: "mset (keyedEntities (viewBucket r p)) = mset (filter (\<lambda>e. shownIn p (snd e)) (keyedEntities (concat (sections r))))"
    unfolding viewBucket_def Let_def by (subst bucketSection_entries) (auto simp: viewState_entries)
  have "GroupCount imgs = length (keyedEntities imgs)" for imgs
    by (simp add: GroupCount_def keyedEntities_def length_concat o_def)
  then have "GroupCount (viewBucket r p) = length (filter (\<lambda>e. shownIn p (snd e)) (keyedEntities (concat (sections r))))"
    using mset_eq_length [OF eq] by simp
  with eq show ?thesis by simp
qed

text \<open>
  C36. The view by priority is the report regrouped: each bucket holds, entity by entity and as often,
  exactly the groups of the status sections with its priority, except that an end-of-life group is
  shown in the act-now bucket or nowhere; so the number of groups of a bucket is the number of those
  groups.
\<close>

theorem ByPriority_exact:
  "mset (keyedEntities (pvActNow (ByPriority r))) = mset (filter (\<lambda>e. pgPriority (snd e) = PriorityActNow) (keyedEntities (concat (sections r))))
   \<and> mset (keyedEntities (pvWatch (ByPriority r))) = mset (filter (\<lambda>e. pgPriority (snd e) = PriorityWatch \<and> \<not> IsEOL (snd e)) (keyedEntities (concat (sections r))))
   \<and> mset (keyedEntities (pvLow (ByPriority r))) = mset (filter (\<lambda>e. pgPriority (snd e) = PriorityLow \<and> \<not> IsEOL (snd e)) (keyedEntities (concat (sections r))))
   \<and> GroupCount (pvActNow (ByPriority r)) = length (filter (\<lambda>e. pgPriority (snd e) = PriorityActNow) (keyedEntities (concat (sections r))))"
proof -
  have act: "shownIn PriorityActNow g \<longleftrightarrow> pgPriority g = PriorityActNow" for g by (simp add: shownIn_def)
  have rest: "p \<noteq> PriorityActNow \<Longrightarrow> shownIn p g \<longleftrightarrow> pgPriority g = p \<and> \<not> IsEOL g" for p g by (auto simp: shownIn_def)
  show ?thesis
    using viewBucket_exact [of r PriorityActNow] viewBucket_exact [of r PriorityWatch] viewBucket_exact [of r PriorityLow]
    by (simp add: ByPriority_def act rest)
qed

subsection \<open>What is in use comes first\<close>

interpretation runtime_order: strict_weak lessRuntimePackage
  by unfold_locales (auto simp: lessRuntimePackage_def Let_def split: if_splits)

interpretation in_use_order: strict_weak "\<lambda>a b. anyPackageInUse (ifPackages a) \<and> \<not> anyPackageInUse (ifPackages b)"
  by unfold_locales auto

lemma viewBucket_in_use_first:
  assumes "rpRuntime r \<noteq> None"
  shows "sorted_wrt (\<lambda>a b. anyPackageInUse (ifPackages b) \<longrightarrow> anyPackageInUse (ifPackages a)) (viewBucket r p)"
    "img \<in> set (viewBucket r p) \<Longrightarrow> sorted_wrt (\<lambda>a b. \<not> lessRuntimePackage b a) (ifPackages img)"
proof -
  show "sorted_wrt (\<lambda>a b. anyPackageInUse (ifPackages b) \<longrightarrow> anyPackageInUse (ifPackages a)) (viewBucket r p)"
    using assms in_use_order.sorted_sortBy
    by (auto simp: viewBucket_def bucketSection_def Let_def runtimeSortImages_def elim!: sorted_wrt_mono_rel [rotated])
  assume "img \<in> set (viewBucket r p)"
  then obtain e where "img = bucketImage (vwContainers (viewState r)) (vwMeta (viewState r)) True e"
    using assms by (auto simp: viewBucket_def bucketSection_def Let_def runtimeSortImages_def sortImages_def split: if_splits)
  then show "sorted_wrt (\<lambda>a b. \<not> lessRuntimePackage b a) (ifPackages img)"
    using runtime_order.sorted_sortBy by (cases e) (simp add: bucketImage_def Let_def runtimeSortPackages_def)
qed

end
