(* ===== verification/State_Data.thy ===== *)
theory State_Data
  imports Analyze
begin

section \<open>The state kept between scan cycles\<close>

text \<open>
  \<open>internal/state/state.go\<close>, the data: what one cycle remembers for the next (\<open>State\<close>), the
  difference it reports (\<open>Diff\<close>), and the small functions on keys and sorted identifier lists.
  A finding is remembered under its image and package, joined by a tab. A \<open>map[string]bool\<close> that
  is only read by membership is a list.
\<close>

subsection \<open>Records\<close>

record entry =
  etFirstSeen :: gtime
  etFixable :: bool
  etPriority :: string
  etVulnIDs :: "string list"
  etContentID :: string

definition zeroEntry :: entry where
  "zeroEntry = \<lparr>etFirstSeen = 0, etFixable = False, etPriority = '''', etVulnIDs = [], etContentID = ''''\<rparr>"

record eol_entry =
  elFirstSeen :: gtime
  elPriority :: string
  elVulnIDs :: "string list"

definition zeroEOLEntry :: eol_entry where
  "zeroEOLEntry = \<lparr>elFirstSeen = 0, elPriority = '''', elVulnIDs = []\<rparr>"

record image_meta =
  imContentIDs :: "string list"
  imRegistryDigests :: "string list"
  imAmbiguous :: bool
  imLastSeen :: gtime
  imWorkloads :: "string list"

definition zeroImageMeta :: image_meta where
  "zeroImageMeta = \<lparr>imContentIDs = [], imRegistryDigests = [], imAmbiguous = False, imLastSeen = 0, imWorkloads = []\<rparr>"

record environment_record =
  evrName :: string
  evrKind :: string

record report_ref =
  frChannel :: string
  frTS :: string
  frPermalink :: string

definition ReportRef_ValidFor :: "report_ref option \<Rightarrow> string \<Rightarrow> bool" where
  "ReportRef_ValidFor r channel =
     (case r of None \<Rightarrow> False
      | Some f \<Rightarrow> frTS f \<noteq> '''' \<and> frPermalink f \<noteq> '''' \<and> frChannel f = channel)"

record state =
  stVersion :: int
  stFindings :: "(string, entry) gmap"
  stEOSL :: "(string, gtime) gmap"
  stEOLPackages :: "(string, eol_entry) gmap"
  stImages :: "(string, image_meta) gmap"
  stLastFullReport :: "report_ref option"
  stMuted :: "(string, bool) gmap"
  stEnvironment :: "environment_record option"

definition stateVersion :: int where
  "stateVersion = 1"

definition emptyState :: state where
  "emptyState = \<lparr>stVersion = stateVersion, stFindings = [], stEOSL = [], stEOLPackages = [], stImages = [],
     stLastFullReport = None, stMuted = [], stEnvironment = None\<rparr>"

abbreviation KindNew :: string where "KindNew \<equiv> ''new''"
abbreviation KindEscalated :: string where "KindEscalated \<equiv> ''escalated''"
abbreviation KindNewCVEs :: string where "KindNewCVEs \<equiv> ''new_cves''"
abbreviation KindNowFixable :: string where "KindNowFixable \<equiv> ''now_fixable''"
abbreviation KindUnmuted :: string where "KindUnmuted \<equiv> ''unmuted''"

record change =
  cgImage :: string
  cgPackage :: string
  cgKind :: string
  cgNewCVEs :: nat
  cgNewIDs :: "string list"
  cgGroups :: "package_group list"
  cgEOLGroups :: "package_group list"

record resolved =
  rvImage :: string
  rvPackage :: string

abbreviation EOLKindNew :: string where "EOLKindNew \<equiv> ''eol_new''"
abbreviation EOLKindNewCVEs :: string where "EOLKindNewCVEs \<equiv> ''eol_new_cves''"
abbreviation EOLKindEscalated :: string where "EOLKindEscalated \<equiv> ''eol_escalated''"

record eol_change =
  ecImage :: string
  ecPackage :: string
  ecKind :: string
  ecNewIDs :: "string list"
  ecGroups :: "package_group list"

record resolved_eol =
  rlImage :: string
  rlPackage :: string
  rlStillOpen :: bool

record image_replacement =
  irRef :: string
  irPrevContentIDs :: "string list"
  irContentIDs :: "string list"

record ref_change =
  rcRepository :: string
  rcPreviousRef :: string
  rcRef :: string
  rcWorkloads :: "string list"

record diff =
  dfNewEOSL :: "string list"
  dfResolvedEOSL :: "string list"
  dfChanges :: "change list"
  dfResolved :: "resolved list"
  dfReplaced :: "image_replacement list"
  dfRefChanges :: "ref_change list"
  dfOpenCritical :: nat
  dfOpenHigh :: nat
  dfOpenSevMedium :: nat
  dfOpenSevLow :: nat
  dfOpenSevUnknown :: nat
  dfOpenImages :: nat
  dfOldestOpen :: gtime
  dfOpenActNow :: nat
  dfOpenWatch :: nat
  dfOpenLow :: nat
  dfOldestUrgent :: gtime
  dfNewEOLPackages :: "eol_change list"
  dfResolvedEOLPackages :: "resolved_eol list"
  dfOpenEOSL :: "string list"
  dfOpenEOLPackages :: nat
  dfAnyOpen :: bool

definition HasChanges :: "diff \<Rightarrow> bool" where
  "HasChanges d \<longleftrightarrow> dfChanges d \<noteq> [] \<or> dfResolved d \<noteq> [] \<or> dfNewEOSL d \<noteq> [] \<or> dfResolvedEOSL d \<noteq> []
     \<or> dfReplaced d \<noteq> [] \<or> dfRefChanges d \<noteq> [] \<or> dfNewEOLPackages d \<noteq> [] \<or> dfResolvedEOLPackages d \<noteq> []"

subsection \<open>Keys\<close>

definition key :: "string \<Rightarrow> string \<Rightarrow> string" where
  "key img pkg = img @ [tab] @ pkg"

definition keyImage :: "string \<Rightarrow> string" where
  "keyImage k = (case indexByte k tab of Some i \<Rightarrow> take i k | None \<Rightarrow> k)"

definition keyPackage :: "string \<Rightarrow> string" where
  "keyPackage k = (case indexByte k tab of Some i \<Rightarrow> drop (i + 1) k | None \<Rightarrow> '''')"

definition FirstSeen :: "state \<Rightarrow> string \<Rightarrow> string \<Rightarrow> gtime option" where
  "FirstSeen s img pkg = map_option etFirstSeen (map_of (stFindings s) (key img pkg))"

definition EOLFirstSeen :: "state \<Rightarrow> string \<Rightarrow> string \<Rightarrow> gtime option" where
  "EOLFirstSeen s img pkg = map_option elFirstSeen (map_of (stEOLPackages s) (key img pkg))"

definition HasFindingsFor :: "state \<Rightarrow> string \<Rightarrow> bool" where
  "HasFindingsFor s ref \<longleftrightarrow>
     (\<exists>k \<in> set (mkeys (stFindings s)). keyImage k = ref) \<or> (\<exists>k \<in> set (mkeys (stEOLPackages s)). keyImage k = ref)"

subsection \<open>Lists of identifiers\<close>

definition sortedIDs :: "string list \<Rightarrow> string list" where
  "sortedIDs ids = sort ids"

definition equalStrings :: "string list \<Rightarrow> string list \<Rightarrow> bool" where
  "equalStrings a b \<longleftrightarrow> length a = length b \<and> (\<forall>i < length a. a ! i = b ! i)"

definition mergeSorted :: "string list \<Rightarrow> string list \<Rightarrow> string list" where
  "mergeSorted a b = sort (foldl (\<lambda>out i. setAdd i out) (foldl (\<lambda>out i. setAdd i out) [] a) b)"

definition newIDs :: "string list \<Rightarrow> string list \<Rightarrow> string list" where
  "newIDs ids prev = filter (\<lambda>i. i \<notin> set prev) ids"

fun intersectSorted :: "string list \<Rightarrow> string list \<Rightarrow> string list" where
  "intersectSorted (a # as) (b # bs) =
     (if a = b then a # intersectSorted as bs
      else if a < b then intersectSorted as (b # bs)
      else intersectSorted (a # as) bs)"
| "intersectSorted as [] = []"
| "intersectSorted [] bs = []"

definition urgent :: "string \<Rightarrow> bool" where
  "urgent p \<longleftrightarrow> p = PriorityActNow \<or> p = PriorityWatch"

definition allMuted :: "package_group list \<Rightarrow> bool" where
  "allMuted groups = (if groups = [] then False else (\<forall>g \<in> set groups. pgMuted g))"

definition older :: "gtime \<Rightarrow> gtime \<Rightarrow> gtime" where
  "older cur t = (if cur = 0 \<or> t < cur then t else cur)"

subsection \<open>Lemmas on keys and identifier lists\<close>

lemma keyImage_key [simp]: "tab \<notin> set img \<Longrightarrow> keyImage (key img pkg) = img"
  and keyPackage_key [simp]: "tab \<notin> set img \<Longrightarrow> keyPackage (key img pkg) = pkg"
  by (simp_all add: keyImage_def keyPackage_def key_def indexByte_append)

lemma keyImage_no_tab: "tab \<notin> set (keyImage k)"
  by (auto simp: keyImage_def indexByte_None_iff dest!: indexByte_Some split: option.splits)

lemma set_mergeSorted [simp]: "set (mergeSorted a b) = set a \<union> set b"
proof -
  have "set (foldl (\<lambda>out i. setAdd i out) xs ys) = set xs \<union> set ys" for xs ys :: "string list"
    by (induction ys arbitrary: xs) auto
  then show ?thesis by (simp add: mergeSorted_def)
qed

lemma newIDs_empty: "newIDs ids prev = [] \<longleftrightarrow> set ids \<subseteq> set prev"
  by (auto simp: newIDs_def filter_empty_conv)

lemma equalStrings_iff [simp]: "equalStrings a b \<longleftrightarrow> a = b"
  by (auto simp: equalStrings_def intro: nth_equalityI)

lemma set_sortedIDs [simp]: "set (sortedIDs ids) = set ids"
  by (simp add: sortedIDs_def)

lemma set_intersectSorted:
  "sorted as \<Longrightarrow> distinct as \<Longrightarrow> sorted bs \<Longrightarrow> distinct bs \<Longrightarrow> set (intersectSorted as bs) = set as \<inter> set bs"
proof (induction as bs rule: intersectSorted.induct)
  case (1 a as b bs)
  consider "a = b" | "a < b" | "b < a" by fastforce
  then show ?case
  proof cases
    case 1
    then show ?thesis using 1 "1.IH"(1) "1.prems" by auto
  next
    case 2
    then have "a \<notin> set (b # bs)" using "1.prems" by auto
    then show ?thesis using 2 "1.IH"(2) "1.prems" by auto
  next
    case 3
    then have "b \<notin> set (a # as)" using "1.prems" by auto
    then show ?thesis using 3 "1.IH"(3) "1.prems" by auto
  qed
qed auto

end
