(* ===== verification/Retag.thy ===== *)
theory Retag
  imports State_Data
begin

section \<open>Carrying history over a reference change\<close>

text \<open>
  \<open>internal/state/retag.go\<close>: a workload that moved to another reference of the same repository
  keeps its recorded history. The vanished and the appeared references are paired by the workloads
  that ran them; a pair counts only when it is unambiguous and the new entity is confirmed. The
  lemmas show that the pairing is one to one, between references that really vanished and really
  appeared, and that carrying over moves the records of a paired reference and nothing else.
\<close>

subsection \<open>Definitions\<close>

definition workloadKeys :: "container list \<Rightarrow> string list" where
  "workloadKeys containers =
     sortedIDs (foldl (\<lambda>ks c. if WorkloadKey c \<noteq> '''' then setAdd (WorkloadKey c) ks else ks) [] containers)"

definition entityConfirmed :: "image_observation \<Rightarrow> bool" where
  "entityConfirmed o' =
     (if obScanFailed o' \<or> obPartialFailure o' \<or> obUnconfirmed o' \<or> obAmbiguous o' \<or> obContainers o' = [] then False
      else (\<forall>c \<in> set (obContainers o'). snd (EntityKeyOf (ctImage c))
              \<and> fst (EntityKeyOf (ctImage c)) = fst (EntityKeyOf (ctImage (hd (obContainers o'))))))"

definition goneRefs :: "state \<Rightarrow> image_observation list \<Rightarrow> string list" where
  "goneRefs prev obs = sort (filter (\<lambda>ref. ref \<notin> obRef ` set obs) (mkeys (stImages prev)))"

definition appearedObs :: "state \<Rightarrow> image_observation list \<Rightarrow> (image_observation \<times> string list) list" where
  "appearedObs prev obs =
     map (\<lambda>o'. (o', workloadKeys (obContainers o'))) (filter (\<lambda>o'. \<not> mhas (stImages prev) (obRef o')) obs)"

definition recordedWorkloads :: "state \<Rightarrow> string \<Rightarrow> string list" where
  "recordedWorkloads prev ref = imWorkloads (mget zeroImageMeta (stImages prev) ref)"

text \<open>The two indexes from a workload key to the references carrying it.\<close>

definition goneBy :: "state \<Rightarrow> image_observation list \<Rightarrow> (string, string list) gmap" where
  "goneBy prev obs =
     foldl (\<lambda>m ref. foldl (\<lambda>m w. appendAt w ref m) m (recordedWorkloads prev ref)) [] (goneRefs prev obs)"

definition appearedBy :: "state \<Rightarrow> image_observation list \<Rightarrow> (string, string list) gmap" where
  "appearedBy prev obs =
     foldl (\<lambda>m (o', ws). foldl (\<lambda>m w. appendAt w (obRef o') m) m ws) [] (appearedObs prev obs)"

definition candidate :: "state \<Rightarrow> string \<Rightarrow> image_observation \<times> string list \<Rightarrow> ref_change option" where
  "candidate prev oldRef a =
     (case RepositoryKey oldRef of
        None \<Rightarrow> None
      | Some oldRepo \<Rightarrow>
          (case RepositoryKey (obRef (fst a)) of
             None \<Rightarrow> None
           | Some newRepo \<Rightarrow>
               if newRepo \<noteq> oldRepo then None
               else (let shared = intersectSorted (recordedWorkloads prev oldRef) (snd a) in
                     if shared = [] then None
                     else Some \<lparr>rcRepository = (case RepositoryOf (obRef (fst a)) of Some r \<Rightarrow> r | None \<Rightarrow> ''''),
                       rcPreviousRef = oldRef, rcRef = obRef (fst a), rcWorkloads = shared\<rparr>)))"

definition candidates :: "state \<Rightarrow> image_observation list \<Rightarrow> ref_change list" where
  "candidates prev obs =
     concat (map (\<lambda>oldRef. concat (map (\<lambda>a. case candidate prev oldRef a of Some c \<Rightarrow> [c] | None \<Rightarrow> [])
       (appearedObs prev obs))) (goneRefs prev obs))"

definition hasHistory :: "state \<Rightarrow> string \<Rightarrow> bool" where
  "hasHistory prev ref \<longleftrightarrow>
     mhas (stEOSL prev) ref \<or> HasFindingsFor prev ref \<or> (\<exists>k \<in> set (mkeys (stMuted prev)). keyImage k = ref)"

text \<open>\<open>byRef\<close>: the last appeared observation of a reference.\<close>

definition appearedAt :: "state \<Rightarrow> image_observation list \<Rightarrow> string \<Rightarrow> image_observation option" where
  "appearedAt prev obs ref = map_of (rev (map (\<lambda>(o', ws). (obRef o', o')) (appearedObs prev obs))) ref"

definition uniquePair :: "state \<Rightarrow> image_observation list \<Rightarrow> ref_change list \<Rightarrow> ref_change \<Rightarrow> bool" where
  "uniquePair prev obs cands c \<longleftrightarrow>
     length (filter (\<lambda>d. rcPreviousRef d = rcPreviousRef c) cands) = 1
     \<and> length (filter (\<lambda>d. rcRef d = rcRef c) cands) = 1
     \<and> (\<forall>w \<in> set (rcWorkloads c). length (mget [] (goneBy prev obs) w) = 1 \<and> length (mget [] (appearedBy prev obs) w) = 1)"

definition eligiblePair :: "state \<Rightarrow> image_observation list \<Rightarrow> ref_change \<Rightarrow> bool" where
  "eligiblePair prev obs c \<longleftrightarrow>
     (case appearedAt prev obs (rcRef c) of Some o' \<Rightarrow> entityConfirmed o' | None \<Rightarrow> False) \<and> \<not> hasHistory prev (rcRef c)"

definition lessRefChange :: "ref_change \<Rightarrow> ref_change \<Rightarrow> bool" where
  "lessRefChange a b = (if rcRef a \<noteq> rcRef b then rcRef a < rcRef b else rcPreviousRef a < rcPreviousRef b)"

definition pairRefChanges :: "state \<Rightarrow> image_observation list \<Rightarrow> ref_change list" where
  "pairRefChanges prev obs =
     (let cands = candidates prev obs in
      sortBy lessRefChange (filter (\<lambda>c. uniquePair prev obs cands c \<and> eligiblePair prev obs c) cands))"

definition movedRefs :: "ref_change list \<Rightarrow> (string, string) gmap" where
  "movedRefs changes = foldl (\<lambda>m c. mput (rcPreviousRef c) (rcRef c) m) [] changes"

definition rekey :: "(string, string) gmap \<Rightarrow> string \<Rightarrow> string" where
  "rekey moved k = (case map_of moved (keyImage k) of Some n \<Rightarrow> key n (keyPackage k) | None \<Rightarrow> k)"

definition movedEntry :: "(string, string) gmap \<Rightarrow> string \<Rightarrow> entry \<Rightarrow> entry" where
  "movedEntry moved k e = (if mhas moved (keyImage k) then e\<lparr>etContentID := ''''\<rparr> else e)"

definition carryOverRefChanges :: "state \<Rightarrow> image_observation list \<Rightarrow> state \<times> ref_change list" where
  "carryOverRefChanges prev obs =
     (let changes = pairRefChanges prev obs in
      if changes = [] then (prev, [])
      else (let moved = movedRefs changes in
        (prev\<lparr>stFindings := foldl (\<lambda>m (k, e). mput (rekey moved k) (movedEntry moved k e) m) [] (stFindings prev),
              stEOLPackages := foldl (\<lambda>m (k, e). mput (rekey moved k) e m) [] (stEOLPackages prev),
              stMuted := foldl (\<lambda>m (k, v). mput (rekey moved k) v m) [] (stMuted prev),
              stEOSL := foldl (\<lambda>m (img, t). mput (mget img moved img) t m) [] (stEOSL prev),
              stImages := foldl (\<lambda>m (ref, v). if mhas moved ref then m else mput ref v m) [] (stImages prev)\<rparr>,
         changes)))"

subsection \<open>The pairing is one to one\<close>

lemma strict_weak_lessRefChange: "strict_weak lessRefChange"
proof -
  have eq: "lessRefChange = ltThen (\<lambda>a b. rcRef a < rcRef b) (\<lambda>a b. rcPreviousRef a < rcPreviousRef b)"
    by (intro ext) (auto simp: lessRefChange_def ltThen_def)
  show ?thesis unfolding eq by (intro strict_weak_ltThen strict_weak_key)
qed

lemma set_pairRefChanges:
  "c \<in> set (pairRefChanges prev obs) \<longleftrightarrow>
     c \<in> set (candidates prev obs) \<and> uniquePair prev obs (candidates prev obs) c \<and> eligiblePair prev obs c"
  by (auto simp: pairRefChanges_def Let_def)

lemma set_candidates:
  "c \<in> set (candidates prev obs) \<longleftrightarrow>
     (\<exists>oldRef \<in> set (goneRefs prev obs). \<exists>a \<in> set (appearedObs prev obs). candidate prev oldRef a = Some c)"
proof -
  have "c \<in> set (case candidate prev oldRef a of Some c \<Rightarrow> [c] | None \<Rightarrow> []) \<longleftrightarrow> candidate prev oldRef a = Some c"
    for oldRef a by (cases "candidate prev oldRef a") auto
  then show ?thesis unfolding candidates_def by simp
qed

lemma candidate_refs:
  "candidate prev oldRef a = Some c \<Longrightarrow> rcPreviousRef c = oldRef \<and> rcRef c = obRef (fst a)
     \<and> RepositoryKey oldRef = RepositoryKey (obRef (fst a)) \<and> RepositoryKey oldRef \<noteq> None
     \<and> rcWorkloads c = intersectSorted (recordedWorkloads prev oldRef) (snd a) \<and> rcWorkloads c \<noteq> []"
  by (auto simp: candidate_def Let_def split: option.splits if_splits)

text \<open>In a list where a value of \<open>f\<close> occurs once, two elements with that value are one position.\<close>

lemma filter_one_distinct:
  assumes "\<And>c. c \<in> set xs \<Longrightarrow> P c \<Longrightarrow> length (filter (\<lambda>d. f d = f c) xs) = 1"
  shows "distinct (map f (filter P xs))"
  using assms
proof (induction xs)
  case (Cons x xs)
  have other: "f x \<noteq> f c \<and> length (filter (\<lambda>d. f d = f c) xs) = 1" if c: "c \<in> set xs" "P c" for c
  proof -
    have "c \<in> set (filter (\<lambda>d. f d = f c) xs)" using c by simp
    then have "0 < length (filter (\<lambda>d. f d = f c) xs)" by (metis length_pos_if_in_set)
    then show ?thesis using Cons.prems [of c] c by (auto split: if_splits)
  qed
  then have "distinct (map f (filter P xs))" by (intro Cons.IH) blast
  with other show ?case by auto
qed simp

lemma distinct_map_sortBy: "distinct (map f (sortBy lt xs)) = distinct (map f xs)"
  by (rule mset_eq_imp_distinct_iff) simp

lemma pairs_distinct:
  "distinct (map rcPreviousRef (pairRefChanges prev obs))" "distinct (map rcRef (pairRefChanges prev obs))"
  unfolding pairRefChanges_def Let_def distinct_map_sortBy
  by (rule filter_one_distinct; simp add: uniquePair_def)+

lemma pair_refs:
  assumes "c \<in> set (pairRefChanges prev obs)"
  shows "mhas (stImages prev) (rcPreviousRef c)" "rcPreviousRef c \<notin> obRef ` set obs"
    "rcRef c \<in> obRef ` set obs" "\<not> mhas (stImages prev) (rcRef c)"
    "RepositoryKey (rcPreviousRef c) = RepositoryKey (rcRef c)" "RepositoryKey (rcRef c) \<noteq> None"
    "rcWorkloads c \<noteq> []" "\<not> hasHistory prev (rcRef c)"
    "\<exists>o' \<in> set obs. obRef o' = rcRef c \<and> entityConfirmed o'"
proof -
  obtain oldRef a where a: "oldRef \<in> set (goneRefs prev obs)" "a \<in> set (appearedObs prev obs)"
    "candidate prev oldRef a = Some c" "eligiblePair prev obs c"
    using assms unfolding set_pairRefChanges set_candidates by blast
  note r = candidate_refs [OF a(3)]
  show "mhas (stImages prev) (rcPreviousRef c)" "rcPreviousRef c \<notin> obRef ` set obs"
    using a(1) r by (auto simp: goneRefs_def mhas_def)
  show "rcRef c \<in> obRef ` set obs" "\<not> mhas (stImages prev) (rcRef c)"
    using a(2) r by (auto simp: appearedObs_def)
  show "RepositoryKey (rcPreviousRef c) = RepositoryKey (rcRef c)" "RepositoryKey (rcRef c) \<noteq> None" "rcWorkloads c \<noteq> []"
    using r by metis+
  show "\<not> hasHistory prev (rcRef c)" using a(4) by (simp add: eligiblePair_def)
  obtain o' where o: "appearedAt prev obs (rcRef c) = Some o'" "entityConfirmed o'"
    using a(4) by (auto simp: eligiblePair_def split: option.splits)
  then have "o' \<in> set obs \<and> obRef o' = rcRef c"
    by (auto simp: appearedAt_def appearedObs_def dest!: map_of_SomeD)
  with o show "\<exists>o' \<in> set obs. obRef o' = rcRef c \<and> entityConfirmed o'" by blast
qed

text \<open>
  C23. The pairing of vanished with appeared references is one to one: no reference is in two pairs,
  the old one was recorded and is no longer observed, the new one is observed, was not recorded, has
  no history of its own and runs a confirmed entity, and both belong to one repository.
\<close>

theorem pairRefChanges_one_to_one:
  "distinct (map rcPreviousRef (pairRefChanges prev obs)) \<and> distinct (map rcRef (pairRefChanges prev obs))
   \<and> (\<forall>c \<in> set (pairRefChanges prev obs).
        mhas (stImages prev) (rcPreviousRef c) \<and> rcPreviousRef c \<notin> obRef ` set obs
      \<and> rcRef c \<in> obRef ` set obs \<and> \<not> mhas (stImages prev) (rcRef c) \<and> \<not> hasHistory prev (rcRef c)
      \<and> (\<exists>o' \<in> set obs. obRef o' = rcRef c \<and> entityConfirmed o')
      \<and> RepositoryKey (rcPreviousRef c) = RepositoryKey (rcRef c) \<and> RepositoryKey (rcRef c) \<noteq> None)"
  using pairs_distinct [of prev obs] pair_refs [of _ prev obs] by blast

subsection \<open>What carrying over keeps\<close>

lemma movedRefs_lookup:
  assumes "distinct (map rcPreviousRef cs)"
  shows "map_of (movedRefs cs) r = Some n \<longleftrightarrow> (\<exists>c \<in> set cs. rcPreviousRef c = r \<and> rcRef c = n)"
  using assms
proof (induction cs rule: rev_induct)
  case (snoc c cs)
  then have "rcPreviousRef c \<notin> rcPreviousRef ` set cs" by simp
  with snoc show ?case by (auto simp: movedRefs_def image_iff)
qed (simp add: movedRefs_def)

text \<open>A map rebuilt under new keys that do not collide.\<close>

lemma foldl_mput: "map_of (foldl (\<lambda>m (k, v). mput k v m) m ys) = map_of m ++ map_of (rev ys)"
proof (induction ys rule: rev_induct)
  case (snoc y ys)
  then show ?case by (cases y) (auto simp: map_add_def fun_eq_iff split: option.splits)
qed simp

lemma rekey_lookup:
  assumes "map_ok m" "inj_on f (dom (map_of m))"
  shows "map_of (foldl (\<lambda>n (k, v). mput (f k) (g k v) n) [] m) j = Some w \<longleftrightarrow>
     (\<exists>k v. map_of m k = Some v \<and> f k = j \<and> g k v = w)"
proof -
  let ?ys = "map (\<lambda>(k, v). (f k, g k v)) m"
  have k: "map fst ?ys = map f (map fst m)" by (auto simp: case_prod_beta)
  have ok: "map_ok ?ys"
    using assms by (simp only: map_ok_def k distinct_map [of f] set_map dom_map_of_conv_image_fst simp_thms)
  have "foldl (\<lambda>n (k, v). mput (f k) (g k v) n) n m = foldl (\<lambda>m (k, v). mput k v m) n ?ys" for n
    by (induction m arbitrary: n) auto
  then have "map_of (foldl (\<lambda>n (k, v). mput (f k) (g k v) n) [] m) = map_of ?ys"
    using foldl_mput [of "[]" ?ys] map_of_rev [OF ok] by simp
  then have "map_of (foldl (\<lambda>n (k, v). mput (f k) (g k v) n) [] m) j = Some w \<longleftrightarrow> (j, w) \<in> set ?ys"
    using gm.entries_iff [OF ok] by simp
  also have "\<dots> \<longleftrightarrow> (\<exists>(k, v) \<in> set m. f k = j \<and> g k v = w)" by force
  also have "\<dots> \<longleftrightarrow> (\<exists>k v. map_of m k = Some v \<and> f k = j \<and> g k v = w)"
    using gm.entries_iff [OF assms(1)] by auto
  finally show ?thesis .
qed

text \<open>The keys of a state were made by \<open>key\<close>, and its maps have one entry per key.\<close>

definition stateOk :: "state \<Rightarrow> bool" where
  "stateOk s \<longleftrightarrow> map_ok (stFindings s) \<and> map_ok (stEOSL s) \<and> map_ok (stEOLPackages s) \<and> map_ok (stImages s) \<and> map_ok (stMuted s)
     \<and> (\<forall>k \<in> dom (map_of (stFindings s)) \<union> dom (map_of (stEOLPackages s)) \<union> dom (map_of (stMuted s)). tab \<in> set k)"

lemma key_decompose: "tab \<in> set k \<Longrightarrow> key (keyImage k) (keyPackage k) = k"
proof -
  assume "tab \<in> set k"
  then obtain i where i: "indexByte k tab = Some i" by (metis indexByte_None_iff not_None_eq)
  then have "i < length k" "k ! i = tab" using indexByte_Some by blast+
  then have "take i k @ tab # drop (Suc i) k = k" by (metis id_take_nth_drop)
  with i show ?thesis by (simp add: key_def keyImage_def keyPackage_def)
qed

lemma RepositoryKey_no_tab: "RepositoryKey ref \<noteq> None \<Longrightarrow> tab \<notin> set ref"
proof
  assume r: "RepositoryKey ref \<noteq> None" and t: "tab \<in> set ref"
  then obtain repo tag digest where "splitReference ref = Some (repo, tag, digest)"
    by (auto simp: RepositoryKey_def RepositoryOf_def split: option.splits)
  from splitReference_no_space [OF this] t show False by (auto simp: isSpaceByte_def tab_def)
qed

lemma hasHistory_keys:
  assumes "\<not> hasHistory prev ref"
    "k \<in> dom (map_of (stFindings prev)) \<union> dom (map_of (stEOLPackages prev)) \<union> dom (map_of (stMuted prev))"
  shows "keyImage k \<noteq> ref"
  using assms unfolding hasHistory_def HasFindingsFor_def by auto

lemma rekey_inj:
  assumes "stateOk prev" and moved_def: "moved = movedRefs (pairRefChanges prev obs)"
  shows "inj_on (rekey moved) (dom (map_of (stFindings prev)) \<union> dom (map_of (stEOLPackages prev)) \<union> dom (map_of (stMuted prev)))"
proof (rule inj_onI)
  let ?cs = "pairRefChanges prev obs"
  let ?K = "dom (map_of (stFindings prev)) \<union> dom (map_of (stEOLPackages prev)) \<union> dom (map_of (stMuted prev))"
  have lk: "map_of moved r = Some n \<longleftrightarrow> (\<exists>c \<in> set ?cs. rcPreviousRef c = r \<and> rcRef c = n)" for r n
    unfolding moved_def by (rule movedRefs_lookup [OF pairs_distinct(1)])
  have new: "tab \<notin> set n \<and> (\<forall>k \<in> ?K. keyImage k \<noteq> n)" if "map_of moved r = Some n" for r n
    using that lk pair_refs(6,8) RepositoryKey_no_tab hasHistory_keys by metis
  fix x y assume x: "x \<in> ?K" and y: "y \<in> ?K" and eq: "rekey moved x = rekey moved y"
  have dec: "key (keyImage x) (keyPackage x) = x" "key (keyImage y) (keyPackage y) = y"
    using x y assms(1) key_decompose by (auto simp: stateOk_def)
  show "x = y"
  proof (cases "map_of moved (keyImage x)"; cases "map_of moved (keyImage y)")
    fix n assume n: "map_of moved (keyImage x) = Some n" "map_of moved (keyImage y) = None"
    then have "key n (keyPackage x) = y" using eq by (simp add: rekey_def)
    then show ?thesis using new [OF n(1)] y by (metis keyImage_key)
  next
    fix n assume n: "map_of moved (keyImage x) = None" "map_of moved (keyImage y) = Some n"
    then have "key n (keyPackage y) = x" using eq by (simp add: rekey_def)
    then show ?thesis using new [OF n(2)] x by (metis keyImage_key)
  next
    fix n m assume n: "map_of moved (keyImage x) = Some n" "map_of moved (keyImage y) = Some m"
    then have k: "key n (keyPackage x) = key m (keyPackage y)" using eq by (simp add: rekey_def)
    then have "n = m" "keyPackage x = keyPackage y"
      using new [OF n(1)] new [OF n(2)] by (metis keyImage_key, metis keyPackage_key)
    moreover have "keyImage x = keyImage y"
      using n \<open>n = m\<close> pairs_distinct(2) [of prev obs] unfolding lk
      by (metis (mono_tags, lifting) distinct_map inj_onD)
    ultimately show ?thesis using dec by metis
  qed (use eq in \<open>simp add: rekey_def\<close>)
qed

lemma rekey_iff:
  assumes "stateOk prev" and moved_def: "moved = movedRefs (pairRefChanges prev obs)"
    and k: "k \<in> dom (map_of (stFindings prev)) \<union> dom (map_of (stEOLPackages prev)) \<union> dom (map_of (stMuted prev))"
  shows "c \<in> set (pairRefChanges prev obs) \<Longrightarrow> rekey moved k = key (rcRef c) p \<longleftrightarrow> k = key (rcPreviousRef c) p"
    "c \<in> set (pairRefChanges prev obs) \<Longrightarrow> rekey moved k \<noteq> key (rcPreviousRef c) p"
    "tab \<notin> set ref \<Longrightarrow> ref \<notin> rcRef ` set (pairRefChanges prev obs) \<Longrightarrow> ref \<notin> rcPreviousRef ` set (pairRefChanges prev obs)
       \<Longrightarrow> rekey moved k = key ref p \<longleftrightarrow> k = key ref p"
proof -
  let ?cs = "pairRefChanges prev obs"
  have lk: "map_of moved r = Some n \<longleftrightarrow> (\<exists>c \<in> set ?cs. rcPreviousRef c = r \<and> rcRef c = n)" for r n
    unfolding moved_def by (rule movedRefs_lookup [OF pairs_distinct(1)])
  have dec: "key (keyImage k) (keyPackage k) = k" using k assms(1) key_decompose by (auto simp: stateOk_def)
  have notab: "tab \<notin> set (rcRef d)" "tab \<notin> set (rcPreviousRef d)" if "d \<in> set ?cs" for d
    using pair_refs(5,6) [OF that] RepositoryKey_no_tab by metis+
  show "rekey moved k = key (rcRef c) p \<longleftrightarrow> k = key (rcPreviousRef c) p" if c: "c \<in> set ?cs"
  proof
    assume r: "rekey moved k = key (rcRef c) p"
    show "k = key (rcPreviousRef c) p"
    proof (cases "map_of moved (keyImage k)")
      case None
      then have "keyImage k = rcRef c" using r notab(1) [OF c] by (simp add: rekey_def)
      then show ?thesis using hasHistory_keys [OF pair_refs(8) [OF c] k] by simp
    next
      case (Some n)
      then obtain d where d: "d \<in> set ?cs" "rcPreviousRef d = keyImage k" "rcRef d = n" using lk by blast
      have eq: "key n (keyPackage k) = key (rcRef c) p" using r Some by (simp add: rekey_def)
      then have "n = rcRef c" "keyPackage k = p"
        using notab(1) [OF c] notab(1) [OF d(1)] d(3) by (metis keyImage_key, metis keyPackage_key)
      moreover have "d = c" using d c \<open>n = rcRef c\<close> pairs_distinct(2) [of prev obs]
        by (metis distinct_map inj_onD)
      ultimately show ?thesis using dec d(2) by simp
    qed
  next
    assume "k = key (rcPreviousRef c) p"
    then have "keyImage k = rcPreviousRef c" "keyPackage k = p" using notab(2) [OF c] by simp_all
    moreover have "map_of moved (rcPreviousRef c) = Some (rcRef c)" using lk c by blast
    ultimately show "rekey moved k = key (rcRef c) p" by (simp add: rekey_def)
  qed
  show "rekey moved k \<noteq> key (rcPreviousRef c) p" if c: "c \<in> set ?cs"
  proof (cases "map_of moved (keyImage k)")
    case None
    then have "keyImage k \<noteq> rcPreviousRef c" using lk c by (metis option.distinct(1))
    then show ?thesis using None notab(2) [OF c] by (auto simp: rekey_def)
  next
    case (Some n)
    then obtain d where d: "d \<in> set ?cs" "rcRef d = n" using lk by blast
    then have "n \<noteq> rcPreviousRef c" using pair_refs(2) [OF c] pair_refs(3) [OF d(1)] by metis
    moreover have "tab \<notin> set n" using notab(1) [OF d(1)] d(2) by simp
    ultimately have "key n (keyPackage k) \<noteq> key (rcPreviousRef c) p"
      using notab(2) [OF c] by (metis keyImage_key)
    then show ?thesis using Some by (simp add: rekey_def)
  qed
  show "rekey moved k = key ref p \<longleftrightarrow> k = key ref p"
    if r: "tab \<notin> set ref" "ref \<notin> rcRef ` set ?cs" "ref \<notin> rcPreviousRef ` set ?cs"
  proof (cases "map_of moved (keyImage k)")
    case None
    then show ?thesis by (simp add: rekey_def)
  next
    case (Some n)
    then obtain d where d: "d \<in> set ?cs" "rcRef d = n" "rcPreviousRef d = keyImage k" using lk by blast
    have "key n (keyPackage k) \<noteq> key ref p"
      using r d notab(1) [OF d(1)] by (metis image_eqI keyImage_key)
    moreover have "k \<noteq> key ref p" using r d by (metis image_eqI keyImage_key)
    ultimately show ?thesis using Some by (simp add: rekey_def)
  qed
qed

lemma option_eqI: "(\<And>w. x = Some w \<longleftrightarrow> y = Some w) \<Longrightarrow> x = y"
  by (metis not_None_eq)

text \<open>One of the maps of the state, rebuilt under the new keys.\<close>

lemma moved_map:
  assumes "stateOk prev" "moved = movedRefs (pairRefChanges prev obs)" "map_ok m"
    and d: "dom (map_of m) \<subseteq> dom (map_of (stFindings prev)) \<union> dom (map_of (stEOLPackages prev)) \<union> dom (map_of (stMuted prev))"
  shows "c \<in> set (pairRefChanges prev obs) \<Longrightarrow>
      map_of (foldl (\<lambda>n (k, v). mput (rekey moved k) (g k v) n) [] m) (key (rcRef c) p)
        = map_option (g (key (rcPreviousRef c) p)) (map_of m (key (rcPreviousRef c) p))"
    "c \<in> set (pairRefChanges prev obs) \<Longrightarrow>
      map_of (foldl (\<lambda>n (k, v). mput (rekey moved k) (g k v) n) [] m) (key (rcPreviousRef c) p) = None"
    "tab \<notin> set ref \<Longrightarrow> ref \<notin> rcRef ` set (pairRefChanges prev obs) \<Longrightarrow> ref \<notin> rcPreviousRef ` set (pairRefChanges prev obs) \<Longrightarrow>
      map_of (foldl (\<lambda>n (k, v). mput (rekey moved k) (g k v) n) [] m) (key ref p)
        = map_option (g (key ref p)) (map_of m (key ref p))"
proof -
  have inj: "inj_on (rekey moved) (dom (map_of m))" using rekey_inj [OF assms(1,2)] d by (rule inj_on_subset)
  note lk = rekey_lookup [OF assms(3) inj, of g]
  have in_k: "k \<in> dom (map_of (stFindings prev)) \<union> dom (map_of (stEOLPackages prev)) \<union> dom (map_of (stMuted prev))"
    if "map_of m k = Some v" for k v using d that by blast
  note iff = rekey_iff [OF assms(1,2) in_k]
  show "map_of (foldl (\<lambda>n (k, v). mput (rekey moved k) (g k v) n) [] m) (key (rcRef c) p)
        = map_option (g (key (rcPreviousRef c) p)) (map_of m (key (rcPreviousRef c) p))"
    if "c \<in> set (pairRefChanges prev obs)"
    by (rule option_eqI) (use iff(1) [OF _ that] in \<open>auto simp: lk intro!: exI [of _ "key (rcPreviousRef c) p"]\<close>)
  show "map_of (foldl (\<lambda>n (k, v). mput (rekey moved k) (g k v) n) [] m) (key (rcPreviousRef c) p) = None"
    if "c \<in> set (pairRefChanges prev obs)"
    using iff(2) [OF _ that] by (intro option_eqI) (auto simp: lk)
  show "map_of (foldl (\<lambda>n (k, v). mput (rekey moved k) (g k v) n) [] m) (key ref p)
        = map_option (g (key ref p)) (map_of m (key ref p))"
    if "tab \<notin> set ref" "ref \<notin> rcRef ` set (pairRefChanges prev obs)" "ref \<notin> rcPreviousRef ` set (pairRefChanges prev obs)"
    by (rule option_eqI) (use iff(3) [OF _ that] in \<open>auto simp: lk intro!: exI [of _ "key ref p"]\<close>)
qed

text \<open>
  C22. Carrying over moves the history of each paired reference and touches nothing else: a finding
  or an end-of-life package recorded under the old reference is found under the new one with the
  same dates, priority and vulnerabilities (a finding without its content identifier), nothing is
  left under the old reference, and the records of every other reference are unchanged.
\<close>

theorem carryOverRefChanges_moves:
  assumes "stateOk prev" "carryOverRefChanges prev obs = (prev', cs)"
  shows "(\<forall>c \<in> set cs. \<forall>p.
       map_of (stFindings prev') (key (rcRef c) p)
         = map_option (\<lambda>e. e\<lparr>etContentID := ''''\<rparr>) (map_of (stFindings prev) (key (rcPreviousRef c) p))
     \<and> map_of (stEOLPackages prev') (key (rcRef c) p) = map_of (stEOLPackages prev) (key (rcPreviousRef c) p)
     \<and> map_of (stFindings prev') (key (rcPreviousRef c) p) = None
     \<and> map_of (stEOLPackages prev') (key (rcPreviousRef c) p) = None)
   \<and> (\<forall>ref p. tab \<notin> set ref \<and> ref \<notin> rcRef ` set cs \<and> ref \<notin> rcPreviousRef ` set cs \<longrightarrow>
       map_of (stFindings prev') (key ref p) = map_of (stFindings prev) (key ref p)
     \<and> map_of (stEOLPackages prev') (key ref p) = map_of (stEOLPackages prev) (key ref p))"
proof (cases "pairRefChanges prev obs = []")
  case True
  then show ?thesis using assms(2) by (simp add: carryOverRefChanges_def)
next
  case False
  define moved where "moved = movedRefs (pairRefChanges prev obs)"
  have cs: "cs = pairRefChanges prev obs"
    and f: "stFindings prev' = foldl (\<lambda>m (k, e). mput (rekey moved k) (movedEntry moved k e) m) [] (stFindings prev)"
    and e: "stEOLPackages prev' = foldl (\<lambda>m (k, e). mput (rekey moved k) e m) [] (stEOLPackages prev)"
    using False assms(2) by (auto simp: carryOverRefChanges_def Let_def moved_def)
  have ok: "map_ok (stFindings prev)" "map_ok (stEOLPackages prev)" using assms(1) by (auto simp: stateOk_def)
  have d: "dom (map_of (stFindings prev)) \<subseteq> dom (map_of (stFindings prev)) \<union> dom (map_of (stEOLPackages prev)) \<union> dom (map_of (stMuted prev))"
    "dom (map_of (stEOLPackages prev)) \<subseteq> dom (map_of (stFindings prev)) \<union> dom (map_of (stEOLPackages prev)) \<union> dom (map_of (stMuted prev))"
    by auto
  note mf = moved_map [OF assms(1) moved_def ok(1) d(1), where g = "movedEntry moved", folded f]
  note me = moved_map [OF assms(1) moved_def ok(2) d(2), where g = "\<lambda>k v. v", folded e]
  have lk: "mhas moved r \<longleftrightarrow> r \<in> rcPreviousRef ` set cs" for r
    using movedRefs_lookup [OF pairs_distinct(1), of prev obs r] unfolding mhas_def moved_def cs by fastforce
  have notab: "tab \<notin> set (rcPreviousRef d)" if "d \<in> set cs" for d
    using pair_refs(5,6) [of d prev obs] that RepositoryKey_no_tab unfolding cs by metis
  have old: "movedEntry moved (key (rcPreviousRef c) p) = (\<lambda>e. e\<lparr>etContentID := ''''\<rparr>)" if "c \<in> set cs" for c p
    using that lk notab by (intro ext) (simp add: movedEntry_def)
  have other: "movedEntry moved (key ref p) = (\<lambda>e. e)" if "tab \<notin> set ref" "ref \<notin> rcPreviousRef ` set cs" for ref p
    using that lk by (intro ext) (simp add: movedEntry_def)
  show ?thesis
    using mf me old other by (simp add: cs option.map_ident)
qed

subsection \<open>A reference change\<close>

definition sampleRunning :: container where
  "sampleRunning = sampleContainer\<lparr>ctWorkload := \<lparr>wlKind = ''compose'', wlGroup = ''shop'', wlName = ''web''\<rparr>,
     ctImage := sampleImage\<lparr>riRef := ''app:2'', riConfig :=
       \<lparr>dgKind = DigestConfig, dgAlgorithm = ''sha256'', dgHex = replicate 64 (CHR ''a'')\<rparr>\<rparr>\<rparr>"

definition sampleObservation :: image_observation where
  "sampleObservation = \<lparr>obRef = ''app:2'', obContentIDs = [], obRegistryDigests = [], obAmbiguous = False,
     obConfigIdentityResolved = True, obScanFailed = False, obPartialFailure = False, obUnconfirmed = False,
     obContainers = [sampleRunning]\<rparr>"

definition samplePrev :: state where
  "samplePrev = emptyState\<lparr>
     stFindings := [(key ''app:1'' ''openssl'', zeroEntry\<lparr>etFirstSeen := 7, etVulnIDs := [''CVE-1'']\<rparr>)],
     stImages := [(''app:1'', zeroImageMeta\<lparr>imWorkloads := [''compose/shop/web'']\<rparr>)]\<rparr>"

lemma sample_entity: "snd (EntityKeyOf (ctImage sampleRunning))"
  by (simp add: EntityKeyOf_def sampleRunning_def sampleContainer_def sampleImage_def Digest_Valid_iff isHexByte_def
      isDigitByte_def less_eq_char_def)

lemma sample_repositories:
  "RepositoryKey ''app:1'' = Some ''docker.io/library/app''" "RepositoryKey ''app:2'' = Some ''docker.io/library/app''"
  "RepositoryOf ''app:2'' = Some ''app''"
  by code_simp+

lemma sample_workloads: "workloadKeys (obContainers sampleObservation) = [''compose/shop/web'']"
  by code_simp

lemma sample_candidates:
  "candidates samplePrev [sampleObservation] =
     [\<lparr>rcRepository = ''app'', rcPreviousRef = ''app:1'', rcRef = ''app:2'', rcWorkloads = [''compose/shop/web'']\<rparr>]"
proof -
  have g: "goneRefs samplePrev [sampleObservation] = [''app:1'']" by code_simp
  have a: "appearedObs samplePrev [sampleObservation] = [(sampleObservation, [''compose/shop/web''])]"
    unfolding appearedObs_def by (simp add: sample_workloads) (simp add: samplePrev_def sampleObservation_def mhas_def)
  have r: "recordedWorkloads samplePrev ''app:1'' = [''compose/shop/web'']" by code_simp
  have o: "obRef sampleObservation = ''app:2''" by (simp add: sampleObservation_def)
  have i: "intersectSorted [''compose/shop/web''] [''compose/shop/web''] = [''compose/shop/web'']" by code_simp
  show ?thesis by (simp add: candidates_def g a candidate_def o sample_repositories r i)
qed

lemma sample_unique: "uniquePair samplePrev [sampleObservation] (candidates samplePrev [sampleObservation])
     \<lparr>rcRepository = ''app'', rcPreviousRef = ''app:1'', rcRef = ''app:2'', rcWorkloads = [''compose/shop/web'']\<rparr>"
proof -
  have "goneBy samplePrev [sampleObservation] = [(''compose/shop/web'', [''app:1''])]" by code_simp
  moreover have "appearedBy samplePrev [sampleObservation] = [(''compose/shop/web'', [''app:2''])]" by code_simp
  ultimately show ?thesis by (simp add: uniquePair_def sample_candidates mget_def)
qed

lemma sample_eligible: "eligiblePair samplePrev [sampleObservation]
     \<lparr>rcRepository = ''app'', rcPreviousRef = ''app:1'', rcRef = ''app:2'', rcWorkloads = [''compose/shop/web'']\<rparr>"
proof -
  have "entityConfirmed sampleObservation"
    using sample_entity by (simp add: entityConfirmed_def sampleObservation_def)
  moreover have "appearedAt samplePrev [sampleObservation] ''app:2'' = Some sampleObservation"
    by (simp add: appearedAt_def appearedObs_def samplePrev_def sampleObservation_def mhas_def)
  moreover have "\<not> hasHistory samplePrev ''app:2''" by code_simp
  ultimately show ?thesis by (simp add: eligiblePair_def)
qed

lemma sample_pair:
  "pairRefChanges samplePrev [sampleObservation] =
     [\<lparr>rcRepository = ''app'', rcPreviousRef = ''app:1'', rcRef = ''app:2'', rcWorkloads = [''compose/shop/web'']\<rparr>]"
  using sample_unique sample_eligible by (simp add: pairRefChanges_def Let_def sample_candidates sortBy_def)

theorem pairRefChanges_one_to_one_witness:
  "\<exists>c \<in> set (pairRefChanges samplePrev [sampleObservation]).
     rcPreviousRef c = ''app:1'' \<and> rcRef c = ''app:2'' \<and> \<not> hasHistory samplePrev (rcRef c)"
proof -
  define c where "c = hd (pairRefChanges samplePrev [sampleObservation])"
  have c: "c \<in> set (pairRefChanges samplePrev [sampleObservation])" by (simp add: c_def sample_pair)
  have "rcPreviousRef c = ''app:1'' \<and> rcRef c = ''app:2''" by (simp add: c_def sample_pair)
  moreover have "\<not> hasHistory samplePrev (rcRef c)" using pairRefChanges_one_to_one c by blast
  ultimately show ?thesis using c by blast
qed

theorem carryOverRefChanges_moves_witness:
  "map_of (stFindings (fst (carryOverRefChanges samplePrev [sampleObservation]))) (key ''app:2'' ''openssl'')
     = Some (zeroEntry\<lparr>etFirstSeen := 7, etVulnIDs := [''CVE-1''], etContentID := ''''\<rparr>)"
proof -
  obtain prev' cs where p: "carryOverRefChanges samplePrev [sampleObservation] = (prev', cs)" by fastforce
  then have "cs = pairRefChanges samplePrev [sampleObservation]"
    by (auto simp: carryOverRefChanges_def Let_def split: if_splits)
  then have c: "\<lparr>rcRepository = ''app'', rcPreviousRef = ''app:1'', rcRef = ''app:2'', rcWorkloads = [''compose/shop/web'']\<rparr> \<in> set cs"
    by (simp add: sample_pair)
  have "stateOk samplePrev" by (simp add: stateOk_def samplePrev_def emptyState_def map_ok_def key_def)
  from carryOverRefChanges_moves [OF this p, THEN conjunct1, THEN bspec, OF c] show ?thesis
    by (simp add: p) (simp add: samplePrev_def)
qed

end
