(* ===== verification/State_Diff.thy ===== *)
theory State_Diff
  imports Retag
begin

section \<open>The difference between two scan cycles\<close>

text \<open>
  \<open>internal/state/state.go\<close>, \<open>Compute\<close>: a report is compared with the remembered state and gives
  the difference to announce and the state to persist. Each loop of the Go function is a fold of a
  step of its own over the same list or map, threading the state under construction, the held keys
  and the difference. The lemmas show that no finding leaves the state unannounced and that a failed
  scan never resolves one, that ages survive, that a partially failed reference never regresses, that
  a repeated report announces nothing, and that the open counts are exact.
\<close>

subsection \<open>The merged view of a report\<close>

record current =
  cuGroups :: "package_group list"
  cuIds :: "string list"
  cuFixable :: bool

definition zeroCurrent :: current where
  "zeroCurrent = \<lparr>cuGroups = [], cuIds = [], cuFixable = False\<rparr>"

type_synonym merged = "(string, current) gmap \<times> string list"

definition mergeGroup :: "string \<Rightarrow> merged \<Rightarrow> package_group \<Rightarrow> merged" where
  "mergeGroup img m g =
     (let k = key img (pgPackage g); c = mget zeroCurrent (fst m) k in
      (mput k \<lparr>cuGroups = cuGroups c @ [g],
               cuIds = foldl (\<lambda>ids i. setAdd i ids) (cuIds c) (VulnIDs g),
               cuFixable = (cuFixable c \<or> pgStatus g = StatusFixed)\<rparr> (fst m),
       if mhas (fst m) k then snd m else snd m @ [k]))"

definition mergeSections :: "image_findings list list \<Rightarrow> merged" where
  "mergeSections ss =
     foldl (\<lambda>m sec. foldl (\<lambda>m img. foldl (mergeGroup (ifImage img)) m (ifPackages img)) m sec) ([], []) ss"

subsection \<open>What a cycle knows about its references\<close>

text \<open>The local variables of \<open>Compute\<close> that its loops only read.\<close>

record cycle_env =
  cxPrev :: state
  cxNow :: gtime
  cxDegraded :: bool
  cxRefContentID :: "(string, string) gmap"
  cxFullyFailed :: "string list"
  cxPartiallyFailed :: "string list"
  cxUnchecked :: "runtime_unchecked_ref list"
  cxCur :: "(string, current) gmap"
  cxCurEOL :: "(string, current) gmap"

definition fullyFailedRef :: "image_observation list \<Rightarrow> string list" where
  "fullyFailedRef obs = foldl (\<lambda>s ob. if obScanFailed ob then setAdd (obRef ob) s else s) [] obs"

definition partiallyFailedRef :: "image_observation list \<Rightarrow> string list" where
  "partiallyFailedRef obs = foldl (\<lambda>s ob. if obPartialFailure ob then setAdd (obRef ob) s else s) [] obs"

definition refContentID :: "image_observation list \<Rightarrow> (string, string) gmap" where
  "refContentID obs = foldl (\<lambda>m ob.
     if obConfigIdentityResolved ob \<and> \<not> obAmbiguous ob \<and> \<not> obScanFailed ob \<and> \<not> obPartialFailure ob
        \<and> length (obContentIDs ob) = 1
     then mput (obRef ob) (hd (obContentIDs ob)) m else m) [] obs"

definition runtimeUnchecked :: "report \<Rightarrow> runtime_unchecked_ref list" where
  "runtimeUnchecked r = foldl (\<lambda>s u. setAdd u s) [] (rpRuntimeUnchecked r)"

definition fullyFailed :: "cycle_env \<Rightarrow> string \<Rightarrow> bool" where
  "fullyFailed cx k \<longleftrightarrow> keyImage k \<in> set (cxFullyFailed cx)"

definition partiallyFailed :: "cycle_env \<Rightarrow> string \<Rightarrow> bool" where
  "partiallyFailed cx k \<longleftrightarrow> keyImage k \<in> set (cxPartiallyFailed cx)"

definition uncheckedKey :: "cycle_env \<Rightarrow> string \<Rightarrow> bool" where
  "uncheckedKey cx k \<longleftrightarrow> \<lparr>ruImage = keyImage k, ruPackage = keyPackage k\<rparr> \<in> set (cxUnchecked cx)"

definition nextImageMeta :: "(string, image_meta) gmap \<Rightarrow> gtime \<Rightarrow> image_observation \<Rightarrow> image_meta" where
  "nextImageMeta prevImages now ob =
     \<lparr>imContentIDs = obContentIDs ob, imRegistryDigests = obRegistryDigests ob, imAmbiguous = obAmbiguous ob,
      imLastSeen = (if \<not> obScanFailed ob \<and> \<not> obPartialFailure ob then now
                    else (case map_of prevImages (obRef ob) of Some m \<Rightarrow> imLastSeen m | None \<Rightarrow> 0)),
      imWorkloads = workloadKeys (obContainers ob)\<rparr>"

definition nextImages :: "(string, image_meta) gmap \<Rightarrow> image_observation list \<Rightarrow> gtime \<Rightarrow> (string, image_meta) gmap" where
  "nextImages prevImages obs now = foldl (\<lambda>m ob. mput (obRef ob) (nextImageMeta prevImages now ob) m) [] obs"

definition replacedImages :: "(string, image_meta) gmap \<Rightarrow> image_observation list \<Rightarrow> image_replacement list" where
  "replacedImages prevImages obs =
     sortBy (\<lambda>a b. irRef a < irRef b) (concat (map (\<lambda>ob.
       case map_of prevImages (obRef ob) of
         None \<Rightarrow> []
       | Some pm \<Rightarrow>
           if imContentIDs pm = [] \<or> obContentIDs ob = [] then []
           else if \<not> equalStrings (imContentIDs pm) (obContentIDs ob)
           then [\<lparr>irRef = obRef ob, irPrevContentIDs = imContentIDs pm, irContentIDs = obContentIDs ob\<rparr>]
           else []) obs))"

subsection \<open>The cycle under construction\<close>

record cycle =
  cyNext :: state
  cyHeld :: "string list"
  cyDiff :: diff

definition carryMuted :: "(string, bool) gmap \<Rightarrow> (string, bool) gmap \<Rightarrow> string \<Rightarrow> (string, bool) gmap" where
  "carryMuted nxt prv k = (if mget False prv k then mput k True nxt else nxt)"

definition putFinding :: "string \<Rightarrow> entry \<Rightarrow> cycle \<Rightarrow> cycle" where
  "putFinding k e c = c\<lparr>cyNext := (cyNext c)\<lparr>stFindings := mput k e (stFindings (cyNext c))\<rparr>\<rparr>"

definition putEOL :: "string \<Rightarrow> eol_entry \<Rightarrow> cycle \<Rightarrow> cycle" where
  "putEOL k e c = c\<lparr>cyNext := (cyNext c)\<lparr>stEOLPackages := mput k e (stEOLPackages (cyNext c))\<rparr>\<rparr>"

definition putMuted :: "(string, bool) gmap \<Rightarrow> cycle \<Rightarrow> cycle" where
  "putMuted m c = c\<lparr>cyNext := (cyNext c)\<lparr>stMuted := m\<rparr>\<rparr>"

definition hold :: "string \<Rightarrow> cycle \<Rightarrow> cycle" where
  "hold k c = c\<lparr>cyHeld := setAdd k (cyHeld c)\<rparr>"

subsection \<open>Ordinary findings\<close>

text \<open>What the history says of a key: the previous ordinary and end-of-life records together.\<close>

definition prevEntry :: "cycle_env \<Rightarrow> string \<Rightarrow> entry" where
  "prevEntry cx k = mget zeroEntry (stFindings (cxPrev cx)) k"

definition prevEOLEntry :: "cycle_env \<Rightarrow> string \<Rightarrow> eol_entry" where
  "prevEOLEntry cx k = mget zeroEOLEntry (stEOLPackages (cxPrev cx)) k"

definition knownE :: "cycle_env \<Rightarrow> string \<Rightarrow> bool" where
  "knownE cx k = mhas (stFindings (cxPrev cx)) k"

definition knownEOL :: "cycle_env \<Rightarrow> string \<Rightarrow> bool" where
  "knownEOL cx k = mhas (stEOLPackages (cxPrev cx)) k"

definition firstSeenOf :: "cycle_env \<Rightarrow> string \<Rightarrow> gtime" where
  "firstSeenOf cx k =
     (if knownE cx k then etFirstSeen (prevEntry cx k)
      else if knownEOL cx k then elFirstSeen (prevEOLEntry cx k) else cxNow cx)"

definition baseIDs :: "cycle_env \<Rightarrow> string \<Rightarrow> string list" where
  "baseIDs cx k =
     (if knownEOL cx k then mergeSorted (etVulnIDs (prevEntry cx k)) (elVulnIDs (prevEOLEntry cx k))
      else etVulnIDs (prevEntry cx k))"

definition basePrio :: "cycle_env \<Rightarrow> string \<Rightarrow> string" where
  "basePrio cx k =
     (if Rank (elPriority (prevEOLEntry cx k)) > Rank (etPriority (prevEntry cx k))
      then elPriority (prevEOLEntry cx k) else etPriority (prevEntry cx k))"

definition heldNow :: "cycle_env \<Rightarrow> string \<Rightarrow> bool" where
  "heldNow cx k \<longleftrightarrow> partiallyFailed cx k \<and> knownE cx k"

definition storedEntry :: "cycle_env \<Rightarrow> string \<Rightarrow> current \<Rightarrow> entry" where
  "storedEntry cx k c =
     (let ids = sortedIDs (cuIds c); prio = MaxPriority (cuGroups c); p = prevEntry cx k in
      if heldNow cx k then
        \<lparr>etFirstSeen = firstSeenOf cx k, etFixable = (cuFixable c \<or> etFixable p),
         etPriority = (if Rank (etPriority p) > Rank prio then etPriority p else prio),
         etVulnIDs = mergeSorted ids (etVulnIDs p), etContentID = mget '''' (cxRefContentID cx) (keyImage k)\<rparr>
      else
        \<lparr>etFirstSeen = firstSeenOf cx k, etFixable = cuFixable c, etPriority = prio,
         etVulnIDs = ids, etContentID = mget '''' (cxRefContentID cx) (keyImage k)\<rparr>)"

text \<open>The ordinary kind of a change; the empty string when none applies.\<close>

definition changeKind :: "cycle_env \<Rightarrow> string \<Rightarrow> current \<Rightarrow> string" where
  "changeKind cx k c =
     (let prio = MaxPriority (cuGroups c) in
      if \<not> (knownE cx k \<or> knownEOL cx k) then KindNew
      else if \<not> cxDegraded cx \<and> basePrio cx k \<noteq> PriorityNone \<and> Rank prio > Rank (basePrio cx k) then KindEscalated
      else if newIDs (sortedIDs (cuIds c)) (baseIDs cx k) \<noteq> [] then KindNewCVEs
      else if cuFixable c \<and> \<not> etFixable (prevEntry cx k) then KindNowFixable
      else '''')"

definition wasMuted :: "cycle_env \<Rightarrow> string \<Rightarrow> bool" where
  "wasMuted cx k = mget False (stMuted (cxPrev cx)) k"

definition mutedNow :: "cycle_env \<Rightarrow> string \<Rightarrow> current \<Rightarrow> bool" where
  "mutedNow cx k c = (if \<not> heldNow cx k then allMuted (cuGroups c) else wasMuted cx k)"

definition becameUnmuted :: "cycle_env \<Rightarrow> string \<Rightarrow> current \<Rightarrow> bool" where
  "becameUnmuted cx k c \<longleftrightarrow> wasMuted cx k \<and> \<not> heldNow cx k \<and> \<not> mutedNow cx k c"

definition changeFor :: "cycle_env \<Rightarrow> string \<Rightarrow> current \<Rightarrow> change list" where
  "changeFor cx k c =
     (let kind = (if changeKind cx k c \<noteq> '''' then changeKind cx k c
                  else if becameUnmuted cx k c then KindUnmuted else '''');
          added = newIDs (sortedIDs (cuIds c)) (baseIDs cx k) in
      if kind = '''' then []
      else [\<lparr>cgImage = keyImage k, cgPackage = keyPackage k, cgKind = kind,
             cgNewCVEs = (if kind = KindNewCVEs then length added else 0),
             cgNewIDs = (if kind = KindNewCVEs then added else []),
             cgGroups = cuGroups c,
             cgEOLGroups = (case map_of (cxCurEOL cx) k of Some e \<Rightarrow> cuGroups e | None \<Rightarrow> [])\<rparr>])"

definition findingStep :: "cycle_env \<Rightarrow> cycle \<Rightarrow> string \<Rightarrow> cycle" where
  "findingStep cx c k =
     (let cu = mget zeroCurrent (cxCur cx) k;
          c1 = putFinding k (storedEntry cx k cu) c;
          c2 = (if heldNow cx k then hold k c1 else c1);
          c3 = (if mutedNow cx k cu then putMuted (mput k True (stMuted (cyNext c2))) c2 else c2) in
      c3\<lparr>cyDiff := (cyDiff c3)\<lparr>dfChanges := dfChanges (cyDiff c3) @ changeFor cx k cu\<rparr>\<rparr>)"

text \<open>The findings of the previous state the report does not show.\<close>

definition keepFinding :: "cycle_env \<Rightarrow> string \<Rightarrow> entry \<Rightarrow> cycle \<Rightarrow> cycle" where
  "keepFinding cx k e c =
     (let c1 = putFinding k e c in
      hold k (putMuted (carryMuted (stMuted (cyNext c1)) (stMuted (cxPrev cx)) k) c1))"

definition carryStep :: "cycle_env \<Rightarrow> cycle \<Rightarrow> string \<times> entry \<Rightarrow> cycle" where
  "carryStep cx c ke =
     (let k = fst ke; e = snd ke in
      if mhas (cxCur cx) k then c
      else if fullyFailed cx k then keepFinding cx k e c
      else if partiallyFailed cx k then keepFinding cx k (e\<lparr>etContentID := ''''\<rparr>) c
      else if uncheckedKey cx k then keepFinding cx k (e\<lparr>etContentID := ''''\<rparr>) c
      else if mhas (cxCurEOL cx) k then c
      else c\<lparr>cyDiff := (cyDiff c)\<lparr>dfResolved :=
             dfResolved (cyDiff c) @ [\<lparr>rvImage = keyImage k, rvPackage = keyPackage k\<rparr>]\<rparr>\<rparr>)"

definition lessResolved :: "resolved \<Rightarrow> resolved \<Rightarrow> bool" where
  "lessResolved a b = (if rvImage a \<noteq> rvImage b then rvImage a < rvImage b else rvPackage a < rvPackage b)"

subsection \<open>End-of-life packages\<close>

definition storedEOL :: "cycle_env \<Rightarrow> string \<Rightarrow> current \<Rightarrow> eol_entry" where
  "storedEOL cx k c =
     (let ids = sortedIDs (cuIds c); prio = MaxPriority (cuGroups c); p = prevEOLEntry cx k;
          firstSeen = (if knownEOL cx k then elFirstSeen p else cxNow cx) in
      if partiallyFailed cx k \<and> knownEOL cx k then
        \<lparr>elFirstSeen = firstSeen, elPriority = (if Rank (elPriority p) > Rank prio then elPriority p else prio),
         elVulnIDs = mergeSorted ids (elVulnIDs p)\<rparr>
      else \<lparr>elFirstSeen = firstSeen, elPriority = prio, elVulnIDs = ids\<rparr>)"

definition eolChangeFor :: "cycle_env \<Rightarrow> string \<Rightarrow> current \<Rightarrow> eol_change list" where
  "eolChangeFor cx k c =
     (let prio = MaxPriority (cuGroups c); p = prevEOLEntry cx k;
          added = newIDs (sortedIDs (cuIds c)) (elVulnIDs p);
          change = \<lparr>ecImage = keyImage k, ecPackage = keyPackage k, ecKind = '''', ecNewIDs = [], ecGroups = cuGroups c\<rparr> in
      if \<not> knownEOL cx k then [change\<lparr>ecKind := EOLKindNew\<rparr>]
      else if \<not> cxDegraded cx \<and> elPriority p \<noteq> PriorityNone \<and> prio = PriorityActNow \<and> Rank prio > Rank (elPriority p)
      then [change\<lparr>ecKind := EOLKindEscalated\<rparr>]
      else if added \<noteq> [] then [change\<lparr>ecKind := EOLKindNewCVEs, ecNewIDs := added\<rparr>]
      else [])"

definition eolStep :: "cycle_env \<Rightarrow> cycle \<Rightarrow> string \<Rightarrow> cycle" where
  "eolStep cx c k =
     (let cu = mget zeroCurrent (cxCurEOL cx) k; c1 = putEOL k (storedEOL cx k cu) c in
      c1\<lparr>cyDiff := (cyDiff c1)\<lparr>dfNewEOLPackages := dfNewEOLPackages (cyDiff c1) @ eolChangeFor cx k cu\<rparr>\<rparr>)"

definition computeEOL :: "cycle_env \<Rightarrow> string list \<Rightarrow> cycle \<Rightarrow> cycle" where
  "computeEOL cx order c = foldl (eolStep cx) c order"

definition carryEOLStep :: "cycle_env \<Rightarrow> cycle \<Rightarrow> string \<times> eol_entry \<Rightarrow> cycle" where
  "carryEOLStep cx c ke =
     (let k = fst ke; e = snd ke in
      if mhas (cxCurEOL cx) k then c
      else if fullyFailed cx k \<or> partiallyFailed cx k then putEOL k e c
      else if uncheckedKey cx k then
        (let c1 = hold k (putEOL k e c) in putMuted (carryMuted (stMuted (cyNext c1)) (stMuted (cxPrev cx)) k) c1)
      else c\<lparr>cyDiff := (cyDiff c)\<lparr>dfResolvedEOLPackages := dfResolvedEOLPackages (cyDiff c) @
             [\<lparr>rlImage = keyImage k, rlPackage = keyPackage k, rlStillOpen = mhas (cxCur cx) k\<rparr>]\<rparr>\<rparr>)"

definition lessResolvedEOL :: "resolved_eol \<Rightarrow> resolved_eol \<Rightarrow> bool" where
  "lessResolvedEOL a b = (if rlImage a \<noteq> rlImage b then rlImage a < rlImage b else rlPackage a < rlPackage b)"

subsection \<open>End-of-life base images\<close>

definition putEOSL :: "string \<Rightarrow> gtime \<Rightarrow> cycle \<Rightarrow> cycle" where
  "putEOSL img t c = c\<lparr>cyNext := (cyNext c)\<lparr>stEOSL := mput img t (stEOSL (cyNext c))\<rparr>\<rparr>"

definition eoslStep :: "cycle_env \<Rightarrow> cycle \<Rightarrow> string \<Rightarrow> cycle" where
  "eoslStep cx c img =
     (case map_of (stEOSL (cxPrev cx)) img of
        Some t \<Rightarrow> putEOSL img t c
      | None \<Rightarrow> putEOSL img (cxNow cx) (c\<lparr>cyDiff := (cyDiff c)\<lparr>dfNewEOSL := dfNewEOSL (cyDiff c) @ [img]\<rparr>\<rparr>))"

definition carryEOSLStep :: "cycle_env \<Rightarrow> cycle \<Rightarrow> string \<times> gtime \<Rightarrow> cycle" where
  "carryEOSLStep cx c it =
     (let img = fst it in
      if mhas (stEOSL (cyNext c)) img then c
      else if img \<in> set (cxFullyFailed cx) \<or> img \<in> set (cxPartiallyFailed cx)
      then putEOSL img (mget 0 (stEOSL (cxPrev cx)) img) c
      else c\<lparr>cyDiff := (cyDiff c)\<lparr>dfResolvedEOSL := dfResolvedEOSL (cyDiff c) @ [img]\<rparr>\<rparr>)"

subsection \<open>What is open now\<close>

definition hiddenKey :: "cycle \<Rightarrow> string \<Rightarrow> bool" where
  "hiddenKey c k \<longleftrightarrow> mget False (stMuted (cyNext c)) k \<and> k \<notin> set (cyHeld c)"

definition openFindingStep :: "cycle \<Rightarrow> diff \<Rightarrow> string \<times> entry \<Rightarrow> diff" where
  "openFindingStep c d ke =
     (let k = fst ke; e = snd ke; muted = hiddenKey c k;
          d1 = d\<lparr>dfOldestOpen := older (dfOldestOpen d) (etFirstSeen e)\<rparr>;
          d2 = (if urgent (etPriority e) \<and> \<not> muted
                then d1\<lparr>dfOldestUrgent := older (dfOldestUrgent d1) (etFirstSeen e)\<rparr> else d1);
          eolActNow = elPriority (mget zeroEOLEntry (stEOLPackages (cyNext c)) k) = PriorityActNow in
      if (etPriority e = PriorityActNow \<and> \<not> muted) \<or> eolActNow then d2\<lparr>dfOpenActNow := dfOpenActNow d2 + 1\<rparr>
      else if etPriority e = PriorityWatch \<and> \<not> muted then d2\<lparr>dfOpenWatch := dfOpenWatch d2 + 1\<rparr>
      else if etPriority e = PriorityLow \<and> \<not> muted then d2\<lparr>dfOpenLow := dfOpenLow d2 + 1\<rparr>
      else d2)"

definition openEOLStep :: "state \<Rightarrow> string list \<Rightarrow> diff \<Rightarrow> string \<times> eol_entry \<Rightarrow> diff" where
  "openEOLStep nxt folded d ke =
     (let k = fst ke; e = snd ke; actNow = (elPriority e = PriorityActNow); isFolded = (keyImage k \<in> set folded);
          d1 = (if \<not> isFolded then d\<lparr>dfOpenEOLPackages := dfOpenEOLPackages d + 1\<rparr> else d);
          d2 = (if \<not> mhas (stFindings nxt) k \<and> actNow then d1\<lparr>dfOpenActNow := dfOpenActNow d1 + 1\<rparr> else d1) in
      if \<not> isFolded \<or> actNow
      then d2\<lparr>dfOldestOpen := older (dfOldestOpen d2) (elFirstSeen e),
              dfOldestUrgent := older (dfOldestUrgent d2) (elFirstSeen e)\<rparr>
      else d2)"

definition openEOSLStep :: "diff \<Rightarrow> string \<times> gtime \<Rightarrow> diff" where
  "openEOSLStep d it =
     d\<lparr>dfOldestOpen := older (dfOldestOpen d) (snd it), dfOldestUrgent := older (dfOldestUrgent d) (snd it)\<rparr>"

definition addGroupCounts :: "diff \<Rightarrow> package_group \<Rightarrow> diff" where
  "addGroupCounts d g =
     (if pgMuted g then d
      else d\<lparr>dfOpenCritical := dfOpenCritical d + pgCritical g, dfOpenHigh := dfOpenHigh d + pgHigh g,
             dfOpenSevMedium := dfOpenSevMedium d + pgMedium g, dfOpenSevLow := dfOpenSevLow d + pgLow g,
             dfOpenSevUnknown := dfOpenSevUnknown d + pgUnknown g\<rparr>)"

definition heartbeat :: "report \<Rightarrow> cycle \<Rightarrow> diff" where
  "heartbeat r c =
     (let nxt = cyNext c;
          openEOSL = sort (mkeys (stEOSL nxt));
          d0 = (cyDiff c)\<lparr>dfOpenImages := AffectedImageCount r, dfOpenEOSL := openEOSL\<rparr>;
          d1 = foldl (openFindingStep c) d0 (stFindings nxt);
          d2 = foldl (openEOLStep nxt openEOSL) d1 (stEOLPackages nxt);
          d3 = foldl openEOSLStep d2 (stEOSL nxt);
          d4 = d3\<lparr>dfAnyOpen := (stFindings nxt \<noteq> [] \<or> stEOLPackages nxt \<noteq> [] \<or> stEOSL nxt \<noteq> [])\<rparr> in
      foldl (\<lambda>d sec. foldl (\<lambda>d img. foldl addGroupCounts d (ifPackages img)) d sec) d4 (sections r))"

subsection \<open>Compute\<close>

definition zeroDiff :: diff where
  "zeroDiff = \<lparr>dfNewEOSL = [], dfResolvedEOSL = [], dfChanges = [], dfResolved = [], dfReplaced = [], dfRefChanges = [],
     dfOpenCritical = 0, dfOpenHigh = 0, dfOpenSevMedium = 0, dfOpenSevLow = 0, dfOpenSevUnknown = 0, dfOpenImages = 0,
     dfOldestOpen = 0, dfOpenActNow = 0, dfOpenWatch = 0, dfOpenLow = 0, dfOldestUrgent = 0, dfNewEOLPackages = [],
     dfResolvedEOLPackages = [], dfOpenEOSL = [], dfOpenEOLPackages = 0, dfAnyOpen = False\<rparr>"

definition cycleEnv :: "state \<Rightarrow> report \<Rightarrow> cycle_env" where
  "cycleEnv prev r =
     \<lparr>cxPrev = prev, cxNow = rpGeneratedAt r, cxDegraded = Degraded (rpIntel r),
      cxRefContentID = refContentID (rpImages r), cxFullyFailed = fullyFailedRef (rpImages r),
      cxPartiallyFailed = partiallyFailedRef (rpImages r), cxUnchecked = runtimeUnchecked r,
      cxCur = fst (mergeSections [rpActionable r, rpWatch r, rpWontFix r]),
      cxCurEOL = fst (mergeSections [rpEOLPackages r])\<rparr>"

definition computeFindings :: "cycle_env \<Rightarrow> string list \<Rightarrow> cycle \<Rightarrow> cycle" where
  "computeFindings cx order c0 =
     (let c1 = foldl (findingStep cx) c0 order; c2 = foldl (carryStep cx) c1 (stFindings (cxPrev cx)) in
      c2\<lparr>cyDiff := (cyDiff c2)\<lparr>dfResolved := sortBy lessResolved (dfResolved (cyDiff c2))\<rparr>\<rparr>)"

definition computeEOLPackages :: "cycle_env \<Rightarrow> string list \<Rightarrow> cycle \<Rightarrow> cycle" where
  "computeEOLPackages cx order c0 =
     (let c1 = computeEOL cx order c0; c2 = foldl (carryEOLStep cx) c1 (stEOLPackages (cxPrev cx)) in
      c2\<lparr>cyDiff := (cyDiff c2)\<lparr>dfResolvedEOLPackages := sortBy lessResolvedEOL (dfResolvedEOLPackages (cyDiff c2))\<rparr>\<rparr>)"

definition computeEOSL :: "cycle_env \<Rightarrow> string list \<Rightarrow> cycle \<Rightarrow> cycle" where
  "computeEOSL cx imgs c0 =
     (let c1 = foldl (eoslStep cx) c0 imgs; c2 = foldl (carryEOSLStep cx) c1 (stEOSL (cxPrev cx)) in
      c2\<lparr>cyDiff := (cyDiff c2)\<lparr>dfResolvedEOSL := sort (dfResolvedEOSL (cyDiff c2))\<rparr>\<rparr>)"

definition computeCycle :: "state \<Rightarrow> ref_change list \<Rightarrow> report \<Rightarrow> cycle" where
  "computeCycle prev refChanges r =
     (let cx = cycleEnv prev r;
          c0 = \<lparr>cyNext = emptyState\<lparr>stImages := nextImages (stImages prev) (rpImages r) (rpGeneratedAt r)\<rparr>, cyHeld = [],
                cyDiff = zeroDiff\<lparr>dfReplaced := replacedImages (stImages prev) (rpImages r), dfRefChanges := refChanges\<rparr>\<rparr>;
          c1 = computeFindings cx (snd (mergeSections [rpActionable r, rpWatch r, rpWontFix r])) c0;
          c2 = computeEOLPackages cx (snd (mergeSections [rpEOLPackages r])) c1 in
      computeEOSL cx (rpEOSLImages r) c2)"

definition Compute :: "state \<Rightarrow> report \<Rightarrow> diff \<times> state" where
  "Compute prev0 r =
     (let (prev, refChanges) = carryOverRefChanges prev0 (rpImages r); c = computeCycle prev refChanges r in
      (heartbeat r c, cyNext c))"

subsection \<open>The loops in closed form\<close>

lemma map_of_foldl_keys:
  "map_of (foldl (\<lambda>m k. if P k then mput k (g k) m else m) m0 ks) x =
     (if x \<in> set ks \<and> P x then Some (g x) else map_of m0 x)"
  by (induction ks arbitrary: m0) auto

lemma map_of_foldl_entries:
  assumes "map_ok es"
  shows "map_of (foldl (\<lambda>m ke. if P (fst ke) then mput (fst ke) (g (fst ke) (snd ke)) m else m) m0 es) x =
     (case map_of es x of Some e \<Rightarrow> if P x then Some (g x e) else map_of m0 x | None \<Rightarrow> map_of m0 x)"
  using assms
proof (induction es arbitrary: m0)
  case (Cons a es)
  obtain k e where a: "a = (k, e)" by (cases a)
  have "map_of es k = None" using Cons.prems by (auto simp: a map_ok_def map_of_eq_None_iff)
  then show ?case using Cons by (auto simp: a map_ok_def split: option.splits)
qed auto

lemma map_ok_foldl_if: "map_ok m0 \<Longrightarrow> map_ok (foldl (\<lambda>m x. if P x then mput (f x) (g x) m else m) m0 xs)"
  by (induction xs arbitrary: m0) auto

lemma set_foldl_setAdd: "set (foldl (\<lambda>s x. if P x then setAdd (f x) s else s) s0 xs) = set s0 \<union> f ` {x \<in> set xs. P x}"
  by (induction xs arbitrary: s0) auto

lemma findings_loop:
  "foldl (findingStep cx) c ks = c\<lparr>
     cyNext := (cyNext c)\<lparr>
       stFindings := foldl (\<lambda>m k. if True then mput k (storedEntry cx k (mget zeroCurrent (cxCur cx) k)) m else m)
          (stFindings (cyNext c)) ks,
       stMuted := foldl (\<lambda>m k. if mutedNow cx k (mget zeroCurrent (cxCur cx) k) then mput k True m else m)
          (stMuted (cyNext c)) ks\<rparr>,
     cyHeld := foldl (\<lambda>s k. if heldNow cx k then setAdd k s else s) (cyHeld c) ks,
     cyDiff := (cyDiff c)\<lparr>dfChanges := dfChanges (cyDiff c) @
          concat (map (\<lambda>k. changeFor cx k (mget zeroCurrent (cxCur cx) k)) ks)\<rparr>\<rparr>"
  by (induction ks arbitrary: c)
     (simp_all add: findingStep_def Let_def putFinding_def putMuted_def hold_def)

definition keeps :: "cycle_env \<Rightarrow> string \<Rightarrow> bool" where
  "keeps cx k \<longleftrightarrow> \<not> mhas (cxCur cx) k \<and> (fullyFailed cx k \<or> partiallyFailed cx k \<or> uncheckedKey cx k)"

definition keptEntry :: "cycle_env \<Rightarrow> string \<Rightarrow> entry \<Rightarrow> entry" where
  "keptEntry cx k e = (if fullyFailed cx k then e else e\<lparr>etContentID := ''''\<rparr>)"

definition resolves :: "cycle_env \<Rightarrow> string \<Rightarrow> bool" where
  "resolves cx k \<longleftrightarrow> \<not> mhas (cxCur cx) k \<and> \<not> mhas (cxCurEOL cx) k
     \<and> \<not> fullyFailed cx k \<and> \<not> partiallyFailed cx k \<and> \<not> uncheckedKey cx k"

lemma carry_loop:
  "foldl (carryStep cx) c es = c\<lparr>
     cyNext := (cyNext c)\<lparr>
       stFindings := foldl (\<lambda>m ke. if keeps cx (fst ke) then mput (fst ke) (keptEntry cx (fst ke) (snd ke)) m else m)
          (stFindings (cyNext c)) es,
       stMuted := foldl (\<lambda>m ke. if keeps cx (fst ke) \<and> mget False (stMuted (cxPrev cx)) (fst ke)
          then mput (fst ke) True m else m) (stMuted (cyNext c)) es\<rparr>,
     cyHeld := foldl (\<lambda>s ke. if keeps cx (fst ke) then setAdd (fst ke) s else s) (cyHeld c) es,
     cyDiff := (cyDiff c)\<lparr>dfResolved := dfResolved (cyDiff c) @
          map (\<lambda>ke. \<lparr>rvImage = keyImage (fst ke), rvPackage = keyPackage (fst ke)\<rparr>) (filter (\<lambda>ke. resolves cx (fst ke)) es)\<rparr>\<rparr>"
  by (induction es arbitrary: c)
     (simp_all add: carryStep_def keepFinding_def carryMuted_def keeps_def keptEntry_def resolves_def Let_def
        putFinding_def putMuted_def hold_def)

lemma eol_loop:
  "foldl (eolStep cx) c ks = c\<lparr>
     cyNext := (cyNext c)\<lparr>
       stEOLPackages := foldl (\<lambda>m k. if True then mput k (storedEOL cx k (mget zeroCurrent (cxCurEOL cx) k)) m else m)
          (stEOLPackages (cyNext c)) ks\<rparr>,
     cyDiff := (cyDiff c)\<lparr>dfNewEOLPackages := dfNewEOLPackages (cyDiff c) @
          concat (map (\<lambda>k. eolChangeFor cx k (mget zeroCurrent (cxCurEOL cx) k)) ks)\<rparr>\<rparr>"
  by (induction ks arbitrary: c) (simp_all add: eolStep_def Let_def putEOL_def)

definition keepsEOL :: "cycle_env \<Rightarrow> string \<Rightarrow> bool" where
  "keepsEOL cx k \<longleftrightarrow> \<not> mhas (cxCurEOL cx) k \<and> (fullyFailed cx k \<or> partiallyFailed cx k \<or> uncheckedKey cx k)"

definition holdsEOL :: "cycle_env \<Rightarrow> string \<Rightarrow> bool" where
  "holdsEOL cx k \<longleftrightarrow> \<not> mhas (cxCurEOL cx) k \<and> \<not> fullyFailed cx k \<and> \<not> partiallyFailed cx k \<and> uncheckedKey cx k"

definition resolvesEOL :: "cycle_env \<Rightarrow> string \<Rightarrow> bool" where
  "resolvesEOL cx k \<longleftrightarrow> \<not> mhas (cxCurEOL cx) k \<and> \<not> fullyFailed cx k \<and> \<not> partiallyFailed cx k \<and> \<not> uncheckedKey cx k"

lemma carry_eol_loop:
  "foldl (carryEOLStep cx) c es = c\<lparr>
     cyNext := (cyNext c)\<lparr>
       stEOLPackages := foldl (\<lambda>m ke. if keepsEOL cx (fst ke) then mput (fst ke) (snd ke) m else m)
          (stEOLPackages (cyNext c)) es,
       stMuted := foldl (\<lambda>m ke. if holdsEOL cx (fst ke) \<and> mget False (stMuted (cxPrev cx)) (fst ke)
          then mput (fst ke) True m else m) (stMuted (cyNext c)) es\<rparr>,
     cyHeld := foldl (\<lambda>s ke. if holdsEOL cx (fst ke) then setAdd (fst ke) s else s) (cyHeld c) es,
     cyDiff := (cyDiff c)\<lparr>dfResolvedEOLPackages := dfResolvedEOLPackages (cyDiff c) @
          map (\<lambda>ke. \<lparr>rlImage = keyImage (fst ke), rlPackage = keyPackage (fst ke), rlStillOpen = mhas (cxCur cx) (fst ke)\<rparr>)
            (filter (\<lambda>ke. resolvesEOL cx (fst ke)) es)\<rparr>\<rparr>"
  by (induction es arbitrary: c)
     (simp_all add: carryEOLStep_def carryMuted_def keepsEOL_def holdsEOL_def resolvesEOL_def Let_def
        putEOL_def putMuted_def hold_def)

lemma eosl_loop:
  "foldl (eoslStep cx) c is = c\<lparr>
     cyNext := (cyNext c)\<lparr>stEOSL := foldl (\<lambda>m i. if True then mput i (mget (cxNow cx) (stEOSL (cxPrev cx)) i) m else m)
        (stEOSL (cyNext c)) is\<rparr>,
     cyDiff := (cyDiff c)\<lparr>dfNewEOSL := dfNewEOSL (cyDiff c) @ filter (\<lambda>i. \<not> mhas (stEOSL (cxPrev cx)) i) is\<rparr>\<rparr>"
  by (induction "is" arbitrary: c) (simp_all add: eoslStep_def putEOSL_def mhas_def split: option.split)

definition failedRef :: "cycle_env \<Rightarrow> string \<Rightarrow> bool" where
  "failedRef cx img \<longleftrightarrow> img \<in> set (cxFullyFailed cx) \<or> img \<in> set (cxPartiallyFailed cx)"

lemma carry_eosl_loop:
  assumes "map_ok es" "\<forall>i \<in> fst ` set es. mhas (stEOSL (cyNext c)) i = P i"
  shows "foldl (carryEOSLStep cx) c es = c\<lparr>
     cyNext := (cyNext c)\<lparr>stEOSL := foldl (\<lambda>m it. if \<not> P (fst it) \<and> failedRef cx (fst it)
        then mput (fst it) (mget 0 (stEOSL (cxPrev cx)) (fst it)) m else m) (stEOSL (cyNext c)) es\<rparr>,
     cyDiff := (cyDiff c)\<lparr>dfResolvedEOSL := dfResolvedEOSL (cyDiff c) @
        map fst (filter (\<lambda>it. \<not> P (fst it) \<and> \<not> failedRef cx (fst it)) es)\<rparr>\<rparr>"
  using assms
proof (induction es arbitrary: c)
  case (Cons a es)
  have fresh: "i \<noteq> fst a" if "i \<in> fst ` set es" for i using that Cons.prems(1) by (auto simp: map_ok_def image_iff)
  have p: "mhas (stEOSL (cyNext c)) (fst a) = P (fst a)" using Cons.prems(2) by simp
  have "\<forall>i \<in> fst ` set es. mhas (stEOSL (cyNext (carryEOSLStep cx c a))) i = P i"
    using Cons.prems(2) fresh by (auto simp: carryEOSLStep_def Let_def putEOSL_def mhas_def)
  from Cons.IH [OF _ this] Cons.prems(1) p show ?case
    by (simp add: map_ok_def carryEOSLStep_def Let_def putEOSL_def failedRef_def)
qed simp

text \<open>The part of a difference that is announced; the rest are the open counts.\<close>

definition announced where
  "announced d = (dfChanges d, dfResolved d, dfNewEOSL d, dfResolvedEOSL d, dfReplaced d, dfRefChanges d,
     dfNewEOLPackages d, dfResolvedEOLPackages (d :: diff))"

lemma foldl_frame: "(\<And>d x. F (f d x) = F d) \<Longrightarrow> F (foldl f d xs) = F d"
  by (induction xs arbitrary: d) auto

lemma announced_steps:
  "announced (openFindingStep c d ke) = announced d" "announced (openEOLStep nxt folded d le) = announced d"
  "announced (openEOSLStep d it) = announced d" "announced (addGroupCounts d g) = announced d"
  by (simp_all add: announced_def openFindingStep_def openEOLStep_def openEOSLStep_def addGroupCounts_def Let_def)

lemma announced_heartbeat: "announced (heartbeat r c) = announced (cyDiff c)"
proof -
  have groups: "announced (foldl (\<lambda>d sec. foldl (\<lambda>d img. foldl addGroupCounts d (ifPackages img)) d sec) d ss) = announced d"
    for d ss by (intro foldl_frame) (rule announced_steps)
  have any: "announced (d\<lparr>dfAnyOpen := b\<rparr>) = announced d" for d b by (simp add: announced_def)
  have start: "announced (d\<lparr>dfOpenImages := n, dfOpenEOSL := l\<rparr>) = announced d" for d n l by (simp add: announced_def)
  show ?thesis
    by (simp add: heartbeat_def Let_def groups any start foldl_frame [where F = announced] announced_steps)
qed

lemma announced_fields:
  assumes "announced a = announced b"
  shows "dfChanges a = dfChanges b" "dfResolved a = dfResolved b" "dfNewEOSL a = dfNewEOSL b"
    "dfResolvedEOSL a = dfResolvedEOSL b" "dfReplaced a = dfReplaced b" "dfRefChanges a = dfRefChanges b"
    "dfNewEOLPackages a = dfNewEOLPackages b" "dfResolvedEOLPackages a = dfResolvedEOLPackages b"
  using assms by (simp_all add: announced_def)

lemmas heartbeat_fields [simp] = announced_fields [OF announced_heartbeat]

subsection \<open>The merged view holds every group once\<close>

definition keyedGroups :: "image_findings list list \<Rightarrow> (string \<times> package_group) list" where
  "keyedGroups ss = concat (map (\<lambda>img. map (\<lambda>g. (key (ifImage img) (pgPackage g), g)) (ifPackages img)) (concat ss))"

definition groupsAt :: "image_findings list list \<Rightarrow> string \<Rightarrow> package_group list" where
  "groupsAt ss k = map snd (filter (\<lambda>kg. fst kg = k) (keyedGroups ss))"

definition mergeKeyed :: "merged \<Rightarrow> string \<times> package_group \<Rightarrow> merged" where
  "mergeKeyed m kg =
     (let k = fst kg; g = snd kg; c = mget zeroCurrent (fst m) k in
      (mput k \<lparr>cuGroups = cuGroups c @ [g], cuIds = foldl (\<lambda>ids i. setAdd i ids) (cuIds c) (VulnIDs g),
               cuFixable = (cuFixable c \<or> pgStatus g = StatusFixed)\<rparr> (fst m),
       if mhas (fst m) k then snd m else snd m @ [k]))"

definition mergedOf :: "package_group list \<Rightarrow> current option" where
  "mergedOf gs = (if gs = [] then None
     else Some \<lparr>cuGroups = gs, cuIds = foldl (\<lambda>ids i. setAdd i ids) [] (concat (map VulnIDs gs)),
                cuFixable = (\<exists>g \<in> set gs. pgStatus g = StatusFixed)\<rparr>)"

lemma mergeSections_keyed: "mergeSections ss = foldl mergeKeyed ([], []) (keyedGroups ss)"
proof -
  have inner: "foldl (mergeGroup img) m gs = foldl mergeKeyed m (map (\<lambda>g. (key img (pgPackage g), g)) gs)" for img m gs
    by (induction gs arbitrary: m) (simp_all add: mergeGroup_def mergeKeyed_def)
  have sec: "foldl (\<lambda>m img. foldl (mergeGroup (ifImage img)) m (ifPackages img)) m sec = foldl mergeKeyed m (keyedGroups [sec])"
    for m sec by (induction sec arbitrary: m) (simp_all add: keyedGroups_def inner)
  have split: "keyedGroups (sec # ss) = keyedGroups [sec] @ keyedGroups ss" for sec ss by (simp add: keyedGroups_def)
  have "foldl (\<lambda>m sec. foldl (\<lambda>m img. foldl (mergeGroup (ifImage img)) m (ifPackages img)) m sec) m ss
      = foldl mergeKeyed m (keyedGroups ss)" for m
    by (induction ss arbitrary: m) (simp_all add: sec split [of _ "_ # _"] split [of _ "[]"] foldl_append keyedGroups_def)
  then show ?thesis by (simp add: mergeSections_def)
qed

lemma mergedOf_snoc:
  "mergedOf (gs @ [g]) = (let c = (case mergedOf gs of Some c \<Rightarrow> c | None \<Rightarrow> zeroCurrent) in
     Some \<lparr>cuGroups = cuGroups c @ [g], cuIds = foldl (\<lambda>ids i. setAdd i ids) (cuIds c) (VulnIDs g),
           cuFixable = (cuFixable c \<or> pgStatus g = StatusFixed)\<rparr>)"
  by (auto simp: mergedOf_def zeroCurrent_def Let_def)

lemma mergeKeyed_spec:
  "map_of (fst (foldl mergeKeyed ([], []) ps)) k = mergedOf (map snd (filter (\<lambda>kg. fst kg = k) ps))
   \<and> map_ok (fst (foldl mergeKeyed ([], []) ps)) \<and> distinct (snd (foldl mergeKeyed ([], []) ps))
   \<and> set (snd (foldl mergeKeyed ([], []) ps)) = dom (map_of (fst (foldl mergeKeyed ([], []) ps)))"
proof (induction ps arbitrary: k rule: rev_induct)
  case Nil
  show ?case by (simp add: mergedOf_def)
next
  case (snoc p ps)
  define m where "m = foldl mergeKeyed ([], []) ps"
  obtain kp g where p: "p = (kp, g)" by (cases p)
  have IH: "map_of (fst m) k = mergedOf (map snd (filter (\<lambda>kg. fst kg = k) ps))" for k
    using snoc.IH [of k] by (simp add: m_def)
  have rest: "map_ok (fst m)" "distinct (snd m)" "set (snd m) = dom (map_of (fst m))"
    using snoc.IH [of k] by (simp_all add: m_def)
  have "map_of (fst (mergeKeyed m p)) k = mergedOf (map snd (filter (\<lambda>kg. fst kg = k) (ps @ [p])))"
  proof (cases "k = kp")
    case True
    then show ?thesis
      by (simp add: p mergeKeyed_def Let_def mergedOf_snoc IH [of kp, symmetric] mget_def)
  next
    case False
    then show ?thesis using IH by (simp add: p mergeKeyed_def Let_def)
  qed
  moreover have "map_ok (fst (mergeKeyed m p)) \<and> distinct (snd (mergeKeyed m p))
      \<and> set (snd (mergeKeyed m p)) = dom (map_of (fst (mergeKeyed m p)))"
    using rest by (auto simp: mergeKeyed_def Let_def mhas_def dom_def)
  ultimately show ?case by (simp add: m_def)
qed

lemma mergeSections_at: "map_of (fst (mergeSections ss)) k = mergedOf (groupsAt ss k)"
  and mergeSections_ok: "map_ok (fst (mergeSections ss))"
  and mergeSections_order: "distinct (snd (mergeSections ss))" "set (snd (mergeSections ss)) = dom (map_of (fst (mergeSections ss)))"
  using mergeKeyed_spec [of "keyedGroups ss"] by (simp_all add: mergeSections_keyed groupsAt_def)

subsection \<open>What a cycle leaves behind\<close>

definition curAt :: "cycle_env \<Rightarrow> string \<Rightarrow> current" where
  "curAt cx k = mget zeroCurrent (cxCur cx) k"

definition curEOLAt :: "cycle_env \<Rightarrow> string \<Rightarrow> current" where
  "curEOLAt cx k = mget zeroCurrent (cxCurEOL cx) k"

definition ordinaryOrder :: "report \<Rightarrow> string list" where
  "ordinaryOrder r = snd (mergeSections [rpActionable r, rpWatch r, rpWontFix r])"

definition eolOrder :: "report \<Rightarrow> string list" where
  "eolOrder r = snd (mergeSections [rpEOLPackages r])"

lemma cycleEnv_simps [simp]:
  "cxPrev (cycleEnv prev r) = prev" "cxNow (cycleEnv prev r) = rpGeneratedAt r"
  "cxDegraded (cycleEnv prev r) = Degraded (rpIntel r)"
  by (simp_all add: cycleEnv_def)

lemma set_ordinaryOrder: "k \<in> set (ordinaryOrder r) \<longleftrightarrow> mhas (cxCur (cycleEnv prev r)) k"
  and set_eolOrder: "k \<in> set (eolOrder r) \<longleftrightarrow> mhas (cxCurEOL (cycleEnv prev r)) k"
  by (auto simp: ordinaryOrder_def eolOrder_def mergeSections_order cycleEnv_def mhas_def)

lemma distinct_orders [simp]: "distinct (ordinaryOrder r)" "distinct (eolOrder r)"
  by (simp_all add: ordinaryOrder_def eolOrder_def mergeSections_order)

lemma mget_foldl_True:
  "mget False (foldl (\<lambda>m x. if P x then mput (f x) True m else m) m0 xs) k \<longleftrightarrow> mget False m0 k \<or> (\<exists>x \<in> set xs. P x \<and> f x = k)"
  by (induction xs arbitrary: m0) auto

lemma eosl_has: "mhas (foldl (\<lambda>m i. mput i (g i) m) m0 is) i \<longleftrightarrow> mhas m0 i \<or> i \<in> set is"
  by (induction "is" arbitrary: m0) (auto simp: mhas_def)

lemma keys_where: "k \<in> fst ` {x \<in> set m. P (fst x)} \<longleftrightarrow> P k \<and> mhas m k"
  by (force simp: mhas_iff)

lemma computeEOSL_closed:
  assumes "map_ok (stEOSL (cxPrev cx))" "stEOSL (cyNext c) = []"
  shows "computeEOSL cx imgs c = c\<lparr>
     cyNext := (cyNext c)\<lparr>stEOSL := foldl (\<lambda>m it. if fst it \<notin> set imgs \<and> failedRef cx (fst it)
        then mput (fst it) (mget 0 (stEOSL (cxPrev cx)) (fst it)) m else m)
        (foldl (\<lambda>m i. mput i (mget (cxNow cx) (stEOSL (cxPrev cx)) i) m) [] imgs) (stEOSL (cxPrev cx))\<rparr>,
     cyDiff := (cyDiff c)\<lparr>
       dfNewEOSL := dfNewEOSL (cyDiff c) @ filter (\<lambda>i. \<not> mhas (stEOSL (cxPrev cx)) i) imgs,
       dfResolvedEOSL := sort (dfResolvedEOSL (cyDiff c) @
         map fst (filter (\<lambda>it. fst it \<notin> set imgs \<and> \<not> failedRef cx (fst it)) (stEOSL (cxPrev cx))))\<rparr>\<rparr>"
proof -
  define c1 where "c1 = foldl (eoslStep cx) c imgs"
  have c1: "c1 = c\<lparr>
     cyNext := (cyNext c)\<lparr>stEOSL := foldl (\<lambda>m i. mput i (mget (cxNow cx) (stEOSL (cxPrev cx)) i) m) [] imgs\<rparr>,
     cyDiff := (cyDiff c)\<lparr>dfNewEOSL := dfNewEOSL (cyDiff c) @ filter (\<lambda>i. \<not> mhas (stEOSL (cxPrev cx)) i) imgs\<rparr>\<rparr>"
    by (simp add: c1_def eosl_loop assms(2))
  have "\<forall>i \<in> fst ` set (stEOSL (cxPrev cx)). mhas (stEOSL (cyNext c1)) i = (i \<in> set imgs)"
    by (simp add: c1 eosl_has mhas_def [of "[]"])
  from carry_eosl_loop [OF assms(1) this, of cx] show ?thesis
    by (simp add: computeEOSL_def Let_def c1_def [symmetric]) (simp add: c1)
qed

lemma cycle_diff:
  fixes prev r cs
  defines "cx \<equiv> cycleEnv prev r"
  assumes "map_ok (stEOSL prev)"
  shows "announced (cyDiff (computeCycle prev cs r)) =
     (concat (map (\<lambda>k. changeFor cx k (curAt cx k)) (ordinaryOrder r)),
      sortBy lessResolved (map (\<lambda>ke. \<lparr>rvImage = keyImage (fst ke), rvPackage = keyPackage (fst ke)\<rparr>)
        (filter (\<lambda>ke. resolves cx (fst ke)) (stFindings prev))),
      filter (\<lambda>i. \<not> mhas (stEOSL prev) i) (rpEOSLImages r),
      sort (map fst (filter (\<lambda>it. fst it \<notin> set (rpEOSLImages r) \<and> \<not> failedRef cx (fst it)) (stEOSL prev))),
      replacedImages (stImages prev) (rpImages r), cs,
      concat (map (\<lambda>k. eolChangeFor cx k (curEOLAt cx k)) (eolOrder r)),
      sortBy lessResolvedEOL (map (\<lambda>ke. \<lparr>rlImage = keyImage (fst ke), rlPackage = keyPackage (fst ke), rlStillOpen = mhas (cxCur cx) (fst ke)\<rparr>)
        (filter (\<lambda>ke. resolvesEOL cx (fst ke)) (stEOLPackages prev))))"
  using assms(2)
  by (simp add: announced_def computeCycle_def computeFindings_def computeEOLPackages_def computeEOL_def Let_def
      findings_loop carry_loop eol_loop carry_eol_loop emptyState_def zeroDiff_def
      ordinaryOrder_def [symmetric] eolOrder_def [symmetric] curAt_def curEOLAt_def
      computeEOSL_closed cx_def)

lemma cycle_next:
  fixes prev r cs
  defines "cx \<equiv> cycleEnv prev r"
  assumes "map_ok (stEOSL prev)"
  shows "cyNext (computeCycle prev cs r) = emptyState\<lparr>
     stFindings := foldl (\<lambda>m ke. if keeps cx (fst ke) then mput (fst ke) (keptEntry cx (fst ke) (snd ke)) m else m)
       (foldl (\<lambda>m k. mput k (storedEntry cx k (curAt cx k)) m) [] (ordinaryOrder r)) (stFindings prev),
     stEOLPackages := foldl (\<lambda>m ke. if keepsEOL cx (fst ke) then mput (fst ke) (snd ke) m else m)
       (foldl (\<lambda>m k. mput k (storedEOL cx k (curEOLAt cx k)) m) [] (eolOrder r)) (stEOLPackages prev),
     stEOSL := foldl (\<lambda>m it. if fst it \<notin> set (rpEOSLImages r) \<and> failedRef cx (fst it)
        then mput (fst it) (mget 0 (stEOSL prev) (fst it)) m else m)
        (foldl (\<lambda>m i. mput i (mget (rpGeneratedAt r) (stEOSL prev) i) m) [] (rpEOSLImages r)) (stEOSL prev),
     stImages := nextImages (stImages prev) (rpImages r) (rpGeneratedAt r),
     stMuted := foldl (\<lambda>m ke. if holdsEOL cx (fst ke) \<and> wasMuted cx (fst ke) then mput (fst ke) True m else m)
       (foldl (\<lambda>m ke. if keeps cx (fst ke) \<and> wasMuted cx (fst ke) then mput (fst ke) True m else m)
         (foldl (\<lambda>m k. if mutedNow cx k (curAt cx k) then mput k True m else m) [] (ordinaryOrder r))
         (stFindings prev)) (stEOLPackages prev)\<rparr>"
  and "cyHeld (computeCycle prev cs r) =
     foldl (\<lambda>s ke. if holdsEOL cx (fst ke) then setAdd (fst ke) s else s)
       (foldl (\<lambda>s ke. if keeps cx (fst ke) then setAdd (fst ke) s else s)
         (foldl (\<lambda>s k. if heldNow cx k then setAdd k s else s) [] (ordinaryOrder r)) (stFindings prev)) (stEOLPackages prev)"
  using assms(2) unfolding cx_def
  by (simp_all add: computeCycle_def computeFindings_def computeEOLPackages_def computeEOL_def Let_def
      findings_loop carry_loop eol_loop carry_eol_loop emptyState_def
      ordinaryOrder_def [symmetric] eolOrder_def [symmetric] curAt_def curEOLAt_def wasMuted_def computeEOSL_closed cong: if_cong)

lemma map_of_foldl_all:
  "map_of (foldl (\<lambda>m k. mput k (g k) m) m0 ks) x = (if x \<in> set ks then Some (g x) else map_of m0 x)"
  by (induction ks arbitrary: m0) auto

definition stateMaps :: "state \<Rightarrow> bool" where
  "stateMaps s \<longleftrightarrow> map_ok (stFindings s) \<and> map_ok (stEOSL s) \<and> map_ok (stEOLPackages s) \<and> map_ok (stImages s) \<and> map_ok (stMuted s)"

lemma cycle_findings:
  fixes prev r cs
  defines "cx \<equiv> cycleEnv prev r"
  assumes ok: "stateMaps prev"
  shows "map_of (stFindings (cyNext (computeCycle prev cs r))) k =
     (if mhas (cxCur cx) k then Some (storedEntry cx k (curAt cx k))
      else if keeps cx k then map_option (keptEntry cx k) (map_of (stFindings prev) k) else None)"
proof -
  have m: "map_ok (stEOSL prev)" "map_ok (stFindings prev)" using ok by (auto simp: stateMaps_def)
  have n: "mhas (cxCur cx) k \<Longrightarrow> \<not> keeps cx k" by (simp add: keeps_def)
  show ?thesis
    using n by (auto simp: cycle_next(1) [OF m(1)] map_of_foldl_entries [OF m(2)] map_of_foldl_all cx_def set_ordinaryOrder [where prev = prev] split: option.split)
qed

lemma cycle_eol:
  fixes prev r cs
  defines "cx \<equiv> cycleEnv prev r"
  assumes ok: "stateMaps prev"
  shows "map_of (stEOLPackages (cyNext (computeCycle prev cs r))) k =
     (if mhas (cxCurEOL cx) k then Some (storedEOL cx k (curEOLAt cx k))
      else if keepsEOL cx k then map_of (stEOLPackages prev) k else None)"
proof -
  have m: "map_ok (stEOSL prev)" "map_ok (stEOLPackages prev)" using ok by (auto simp: stateMaps_def)
  have n: "mhas (cxCurEOL cx) k \<Longrightarrow> \<not> keepsEOL cx k" by (simp add: keepsEOL_def)
  show ?thesis
    using n by (auto simp: cycle_next(1) [OF m(1)] map_of_foldl_entries [OF m(2), where g = "\<lambda>k e. e"] map_of_foldl_all cx_def
        set_eolOrder [where prev = prev] split: option.split)
qed

lemma cycle_eosl:
  fixes prev r cs
  defines "cx \<equiv> cycleEnv prev r"
  assumes ok: "stateMaps prev"
  shows "map_of (stEOSL (cyNext (computeCycle prev cs r))) i =
     (if i \<in> set (rpEOSLImages r) then Some (mget (rpGeneratedAt r) (stEOSL prev) i)
      else if failedRef cx i then map_of (stEOSL prev) i else None)"
proof -
  have m: "map_ok (stEOSL prev)" using ok by (auto simp: stateMaps_def)
  have e: "map_of (foldl (\<lambda>m it. if fst it \<notin> set (rpEOSLImages r) \<and> failedRef cx (fst it)
        then mput (fst it) (mget 0 (stEOSL prev) (fst it)) m else m) m0 (stEOSL prev)) i =
     (case map_of (stEOSL prev) i of Some e \<Rightarrow> if i \<notin> set (rpEOSLImages r) \<and> failedRef cx i then Some (mget 0 (stEOSL prev) i)
        else map_of m0 i | None \<Rightarrow> map_of m0 i)" for m0
    by (rule map_of_foldl_entries [OF m, where P = "\<lambda>i. i \<notin> set (rpEOSLImages r) \<and> failedRef cx i" and
          g = "\<lambda>i e. mget 0 (stEOSL prev) i"])
  show ?thesis
    by (auto simp: cycle_next(1) [OF m] e [unfolded cx_def] map_of_foldl_all cx_def split: option.split)
qed

lemma cycle_muted:
  fixes prev r cs
  defines "cx \<equiv> cycleEnv prev r"
  assumes ok: "stateMaps prev"
  shows "mget False (stMuted (cyNext (computeCycle prev cs r))) k \<longleftrightarrow>
     (mhas (cxCur cx) k \<and> mutedNow cx k (curAt cx k))
     \<or> (keeps cx k \<and> mhas (stFindings prev) k \<and> wasMuted cx k)
     \<or> (holdsEOL cx k \<and> mhas (stEOLPackages prev) k \<and> wasMuted cx k)"
proof -
  have m: "map_ok (stEOSL prev)" using ok by (auto simp: stateMaps_def)
  show ?thesis
    by (auto simp: cycle_next(1) [OF m] mget_foldl_True mhas_iff cx_def image_iff set_ordinaryOrder [where prev = prev])
qed

lemma cycle_held:
  fixes prev r cs
  defines "cx \<equiv> cycleEnv prev r"
  assumes ok: "stateMaps prev"
  shows "k \<in> set (cyHeld (computeCycle prev cs r)) \<longleftrightarrow>
     (mhas (cxCur cx) k \<and> heldNow cx k) \<or> (keeps cx k \<and> mhas (stFindings prev) k)
     \<or> (holdsEOL cx k \<and> mhas (stEOLPackages prev) k)"
proof -
  have m: "map_ok (stEOSL prev)" using ok by (auto simp: stateMaps_def)
  show ?thesis
    by (auto simp: cycle_next(2) [OF m] set_foldl_setAdd set_foldl_setAdd [where f = "\<lambda>k. k"] keys_where cx_def
        set_ordinaryOrder [where prev = prev] simp del: mem_Collect_eq)
qed

subsection \<open>The state stays well formed\<close>

lemma map_ok_foldl: "map_ok m0 \<Longrightarrow> map_ok (foldl (\<lambda>m x. mput (f x) (g x) m) m0 xs)"
  using map_ok_foldl_if [where P = "\<lambda>_. True"] by auto

lemma map_ok_foldl_case: "map_ok m0 \<Longrightarrow> map_ok (foldl (\<lambda>m (k, v). mput (f k) (g k v) m) m0 xs)"
  by (induction xs arbitrary: m0) auto

lemma foldl_case: "foldl (\<lambda>m (k, v). mput (f k) (g k v) m) m0 xs = foldl (\<lambda>m x. mput (f (fst x)) (g (fst x) (snd x)) m) m0 xs"
  by (simp add: case_prod_unfold)

lemma dom_foldl_put: "dom (map_of (foldl (\<lambda>m x. mput (f x) (g x) m) m0 xs)) = dom (map_of m0) \<union> f ` set xs"
  by (induction xs arbitrary: m0) auto

lemma rekey_tab: "tab \<in> set k \<Longrightarrow> tab \<in> set (rekey moved k)"
  by (auto simp: rekey_def key_def split: option.splits)

lemma carryOver_ok:
  assumes "stateMaps prev"
  shows "stateMaps (fst (carryOverRefChanges prev obs))"
proof -
  have "map_ok m0 \<Longrightarrow> map_ok (foldl (\<lambda>m (ref, v). if mhas moved ref then m else mput ref v m) m0 xs)"
    for moved :: "(string, string) gmap" and m0 and xs :: "(string \<times> image_meta) list"
    by (induction xs arbitrary: m0) auto
  with assms show ?thesis
    by (simp add: carryOverRefChanges_def Let_def stateMaps_def map_ok_foldl_case)
qed

lemma cycle_maps:
  assumes "stateMaps prev"
  shows "stateMaps (cyNext (computeCycle prev cs r))"
  using assms by (simp add: stateMaps_def cycle_next(1) emptyState_def nextImages_def map_ok_foldl map_ok_foldl_if)

lemma mergeSections_tab: "mhas (fst (mergeSections ss)) k \<Longrightarrow> tab \<in> set k"
proof -
  assume "mhas (fst (mergeSections ss)) k"
  then have "groupsAt ss k \<noteq> []" by (simp add: mhas_def mergeSections_at mergedOf_def split: if_splits)
  then obtain g where "(k, g) \<in> set (keyedGroups ss)" by (force simp: groupsAt_def filter_empty_conv)
  then show ?thesis by (auto simp: keyedGroups_def key_def)
qed

definition keysTabbed :: "state \<Rightarrow> bool" where
  "keysTabbed s \<longleftrightarrow> (\<forall>k. mhas (stFindings s) k \<or> mhas (stEOLPackages s) k \<or> mhas (stMuted s) k \<longrightarrow> tab \<in> set k)"

lemma stateOk_split: "stateOk s \<longleftrightarrow> stateMaps s \<and> keysTabbed s"
  by (auto simp: stateOk_def stateMaps_def keysTabbed_def mhas_def)

lemma mhas_foldl_put: "mhas (foldl (\<lambda>m x. mput (f x) (g x) m) m0 xs) k \<longleftrightarrow> mhas m0 k \<or> k \<in> f ` set xs"
  using dom_foldl_put [of f g m0 xs] by (auto simp: mhas_def dom_def)

lemma mhas_foldl_if: "mhas (foldl (\<lambda>m x. if P x then mput (f x) (g x) m else m) m0 xs) k \<longleftrightarrow> mhas m0 k \<or> (\<exists>x \<in> set xs. P x \<and> f x = k)"
  by (induction xs arbitrary: m0) (auto simp: mhas_def)

lemma mhas_Nil [simp]: "\<not> mhas [] k"
  by (simp add: mhas_def)

lemma mhas_fst: "x \<in> set m \<Longrightarrow> mhas m (fst x)"
  by (auto simp: mhas_iff)

lemma carryOver_tabbed:
  assumes "keysTabbed prev"
  shows "keysTabbed (fst (carryOverRefChanges prev obs))"
proof -
  have "\<And>x. x \<in> set (stFindings prev) \<Longrightarrow> tab \<in> set (fst x)" "\<And>x. x \<in> set (stEOLPackages prev) \<Longrightarrow> tab \<in> set (fst x)"
      "\<And>x. x \<in> set (stMuted prev) \<Longrightarrow> tab \<in> set (fst x)"
    using assms mhas_fst unfolding keysTabbed_def by metis+
  then show ?thesis using assms rekey_tab
    unfolding keysTabbed_def carryOverRefChanges_def Let_def by (auto simp: foldl_case mhas_foldl_put)
qed

lemma cycle_tabbed:
  assumes "stateMaps prev" "keysTabbed prev"
  shows "keysTabbed (cyNext (computeCycle prev cs r))"
proof -
  have m: "map_ok (stEOSL prev)" using assms(1) by (simp add: stateMaps_def)
  have "tab \<in> set k" if "k \<in> set (ordinaryOrder r) \<or> k \<in> set (eolOrder r)" for k
    using that mergeSections_tab by (auto simp: ordinaryOrder_def eolOrder_def mergeSections_order mhas_def)
  moreover have "tab \<in> set (fst x)" if "x \<in> set (stFindings prev)" for x
    using assms(2) mhas_fst [OF that] unfolding keysTabbed_def by blast
  moreover have "tab \<in> set (fst x)" if "x \<in> set (stEOLPackages prev)" for x
    using assms(2) mhas_fst [OF that] unfolding keysTabbed_def by blast
  ultimately show ?thesis
    unfolding keysTabbed_def by (auto simp: cycle_next(1) [OF m] mhas_foldl_put mhas_foldl_if emptyState_def)
qed

lemma Compute_stateOk:
  assumes "stateOk prev"
  shows "stateOk (snd (Compute prev r))"
proof -
  have "stateOk (fst (carryOverRefChanges prev (rpImages r)))"
    using assms carryOver_ok carryOver_tabbed by (simp add: stateOk_split)
  then show ?thesis
    using cycle_maps cycle_tabbed by (auto simp: Compute_def stateOk_split case_prod_unfold Let_def)
qed

subsection \<open>Every change of the records is announced\<close>

text \<open>The state a cycle is compared with: the previous one, with history carried over.\<close>

definition carried :: "state \<Rightarrow> report \<Rightarrow> state" where
  "carried prev r = fst (carryOverRefChanges prev (rpImages r))"

definition carriedCycle :: "state \<Rightarrow> report \<Rightarrow> cycle" where
  "carriedCycle prev r = computeCycle (carried prev r) (snd (carryOverRefChanges prev (rpImages r))) r"

lemma Compute_parts: "Compute prev r = (heartbeat r (carriedCycle prev r), cyNext (carriedCycle prev r))"
  by (simp add: Compute_def carried_def carriedCycle_def case_prod_unfold Let_def)

lemma Compute_announced:
  fixes prev r
  defines "p \<equiv> carried prev r" and "cx \<equiv> cycleEnv (carried prev r) r"
  assumes "stateMaps prev"
  shows "announced (fst (Compute prev r)) =
     (concat (map (\<lambda>k. changeFor cx k (curAt cx k)) (ordinaryOrder r)),
      sortBy lessResolved (map (\<lambda>ke. \<lparr>rvImage = keyImage (fst ke), rvPackage = keyPackage (fst ke)\<rparr>)
        (filter (\<lambda>ke. resolves cx (fst ke)) (stFindings p))),
      filter (\<lambda>i. \<not> mhas (stEOSL p) i) (rpEOSLImages r),
      sort (map fst (filter (\<lambda>it. fst it \<notin> set (rpEOSLImages r) \<and> \<not> failedRef cx (fst it)) (stEOSL p))),
      replacedImages (stImages p) (rpImages r), snd (carryOverRefChanges prev (rpImages r)),
      concat (map (\<lambda>k. eolChangeFor cx k (curEOLAt cx k)) (eolOrder r)),
      sortBy lessResolvedEOL (map (\<lambda>ke. \<lparr>rlImage = keyImage (fst ke), rlPackage = keyPackage (fst ke), rlStillOpen = mhas (cxCur cx) (fst ke)\<rparr>)
        (filter (\<lambda>ke. resolvesEOL cx (fst ke)) (stEOLPackages p))))"
  using carryOver_ok [OF assms(3), of "rpImages r"]
  by (simp add: Compute_parts announced_heartbeat carriedCycle_def cycle_diff p_def cx_def stateMaps_def carried_def)

lemma carried_maps: "stateOk prev \<Longrightarrow> stateMaps (carried prev r)"
  by (simp add: carried_def carryOver_ok stateOk_split)

lemma Compute_has_finding:
  assumes "stateOk prev"
  shows "mhas (stFindings (snd (Compute prev r))) k \<longleftrightarrow>
     mhas (cxCur (cycleEnv (carried prev r) r)) k
     \<or> mhas (stFindings (carried prev r)) k \<and> keeps (cycleEnv (carried prev r) r) k"
  by (auto simp: Compute_parts carriedCycle_def mhas_def [of "stFindings _"] cycle_findings [OF carried_maps [OF assms]])

lemma Compute_has_eol:
  assumes "stateOk prev"
  shows "mhas (stEOLPackages (snd (Compute prev r))) k \<longleftrightarrow>
     mhas (cxCurEOL (cycleEnv (carried prev r) r)) k
     \<or> mhas (stEOLPackages (carried prev r)) k \<and> keepsEOL (cycleEnv (carried prev r) r) k"
  by (auto simp: Compute_parts carriedCycle_def mhas_def [of "stEOLPackages _"] cycle_eol [OF carried_maps [OF assms]])

lemma Compute_has_eosl:
  assumes "stateOk prev"
  shows "mhas (stEOSL (snd (Compute prev r))) i \<longleftrightarrow>
     i \<in> set (rpEOSLImages r) \<or> mhas (stEOSL (carried prev r)) i \<and> failedRef (cycleEnv (carried prev r) r) i"
  by (auto simp: Compute_parts carriedCycle_def mhas_def cycle_eosl [OF carried_maps [OF assms]])

lemma changeFor_new:
  "{(cgImage c, cgPackage c) | c. c \<in> set (changeFor cx k cu) \<and> cgKind c = KindNew}
     = (if knownE cx k \<or> knownEOL cx k then {} else {(keyImage k, keyPackage k)})"
  by (auto simp: changeFor_def changeKind_def Let_def split: if_splits)

lemma new_changes:
  "{(cgImage c, cgPackage c) | c. c \<in> set (concat (map (\<lambda>k. changeFor cx k (f k)) ks)) \<and> cgKind c = KindNew}
     = {(keyImage k, keyPackage k) | k. k \<in> set ks \<and> \<not> knownE cx k \<and> \<not> knownEOL cx k}"
proof -
  have "{(cgImage c, cgPackage c) | c. c \<in> set (concat (map (\<lambda>k. changeFor cx k (f k)) ks)) \<and> cgKind c = KindNew}
     = (\<Union>k \<in> set ks. {(cgImage c, cgPackage c) | c. c \<in> set (changeFor cx k (f k)) \<and> cgKind c = KindNew})" by auto
  then show ?thesis unfolding changeFor_new by (auto split: if_splits)
qed

lemma eolChangeFor_new:
  "{(ecImage c, ecPackage c) | c. c \<in> set (eolChangeFor cx k cu) \<and> ecKind c = EOLKindNew}
     = (if knownEOL cx k then {} else {(keyImage k, keyPackage k)})"
  by (auto simp: eolChangeFor_def Let_def split: if_splits)

lemma new_eol_changes:
  "{(ecImage c, ecPackage c) | c. c \<in> set (concat (map (\<lambda>k. eolChangeFor cx k (f k)) ks)) \<and> ecKind c = EOLKindNew}
     = {(keyImage k, keyPackage k) | k. k \<in> set ks \<and> \<not> knownEOL cx k}"
proof -
  have "{(ecImage c, ecPackage c) | c. c \<in> set (concat (map (\<lambda>k. eolChangeFor cx k (f k)) ks)) \<and> ecKind c = EOLKindNew}
     = (\<Union>k \<in> set ks. {(ecImage c, ecPackage c) | c. c \<in> set (eolChangeFor cx k (f k)) \<and> ecKind c = EOLKindNew})" by auto
  then show ?thesis unfolding eolChangeFor_new by (auto split: if_splits)
qed

lemma Compute_resolved:
  assumes "stateOk prev" "Compute prev r = (d, nxt)" "p = carried prev r"
  shows "set (dfResolved d) = {\<lparr>rvImage = keyImage k, rvPackage = keyPackage k\<rparr> | k.
            mhas (stFindings p) k \<and> \<not> mhas (stFindings nxt) k \<and> \<not> mhas (stEOLPackages nxt) k}"
proof -
  define cx where "cx = cycleEnv p r"
  have d: "d = fst (Compute prev r)" and n: "nxt = snd (Compute prev r)" using assms(2) by simp_all
  have a: "dfResolved d = sortBy lessResolved (map (\<lambda>ke. \<lparr>rvImage = keyImage (fst ke), rvPackage = keyPackage (fst ke)\<rparr>)
        (filter (\<lambda>ke. resolves cx (fst ke)) (stFindings p)))"
    using Compute_announced [of prev r, folded assms(3), folded cx_def d] assms(1) by (simp add: announced_def stateOk_split)
  note has = Compute_has_finding [OF assms(1), of r, folded n assms(3), folded cx_def]
    Compute_has_eol [OF assms(1), of r, folded n assms(3), folded cx_def]
  have res: "resolves cx k \<and> mhas (stFindings p) k \<longleftrightarrow>
      mhas (stFindings p) k \<and> \<not> mhas (stFindings nxt) k \<and> \<not> mhas (stEOLPackages nxt) k" for k
    by (auto simp: has resolves_def keeps_def keepsEOL_def)
  have "set (dfResolved d) = (\<lambda>k. \<lparr>rvImage = keyImage k, rvPackage = keyPackage k\<rparr>) ` {k. resolves cx k \<and> mhas (stFindings p) k}"
    unfolding a by (force simp: mhas_iff)
  then show ?thesis unfolding res by blast
qed

lemma Compute_new:
  assumes "stateOk prev" "Compute prev r = (d, nxt)" "p = carried prev r"
  shows "{(cgImage c, cgPackage c) | c. c \<in> set (dfChanges d) \<and> cgKind c = KindNew}
       = {(keyImage k, keyPackage k) | k. mhas (stFindings nxt) k \<and> \<not> mhas (stFindings p) k \<and> \<not> mhas (stEOLPackages p) k}"
proof -
  define cx where "cx = cycleEnv p r"
  have d: "d = fst (Compute prev r)" and n: "nxt = snd (Compute prev r)" using assms(2) by simp_all
  have b: "dfChanges d = concat (map (\<lambda>k. changeFor cx k (curAt cx k)) (ordinaryOrder r))"
    using Compute_announced [of prev r, folded assms(3), folded cx_def d] assms(1) by (simp add: announced_def stateOk_split)
  have "{(cgImage c, cgPackage c) | c. c \<in> set (dfChanges d) \<and> cgKind c = KindNew}
     = {(keyImage k, keyPackage k) | k. mhas (cxCur cx) k \<and> \<not> mhas (stFindings p) k \<and> \<not> mhas (stEOLPackages p) k}"
    unfolding b new_changes set_ordinaryOrder [where prev = p] by (simp add: cx_def knownE_def knownEOL_def)
  then show ?thesis
    by (auto simp: Compute_has_finding [OF assms(1), of r, folded n assms(3), folded cx_def])
qed

lemma Compute_eol_resolved:
  assumes "stateOk prev" "Compute prev r = (d, nxt)" "p = carried prev r"
  shows "set (dfResolvedEOLPackages d) = {\<lparr>rlImage = keyImage k, rlPackage = keyPackage k, rlStillOpen = mhas (stFindings nxt) k\<rparr> | k.
            mhas (stEOLPackages p) k \<and> \<not> mhas (stEOLPackages nxt) k}"
proof -
  define cx where "cx = cycleEnv p r"
  have d: "d = fst (Compute prev r)" and n: "nxt = snd (Compute prev r)" using assms(2) by simp_all
  have a: "dfResolvedEOLPackages d = sortBy lessResolvedEOL (map (\<lambda>ke. \<lparr>rlImage = keyImage (fst ke),
        rlPackage = keyPackage (fst ke), rlStillOpen = mhas (cxCur cx) (fst ke)\<rparr>) (filter (\<lambda>ke. resolvesEOL cx (fst ke)) (stEOLPackages p)))"
    using Compute_announced [of prev r, folded assms(3), folded cx_def d] assms(1) by (simp add: announced_def stateOk_split)
  note has = Compute_has_finding [OF assms(1), of r, folded n assms(3), folded cx_def]
    Compute_has_eol [OF assms(1), of r, folded n assms(3), folded cx_def]
  have "set (dfResolvedEOLPackages d) = (\<lambda>k. \<lparr>rlImage = keyImage k, rlPackage = keyPackage k, rlStillOpen = mhas (cxCur cx) k\<rparr>) `
      {k. resolvesEOL cx k \<and> mhas (stEOLPackages p) k}" unfolding a by (force simp: mhas_iff)
  also have "\<dots> = (\<lambda>k. \<lparr>rlImage = keyImage k, rlPackage = keyPackage k, rlStillOpen = mhas (stFindings nxt) k\<rparr>) `
      {k. resolvesEOL cx k \<and> mhas (stEOLPackages p) k}"
    by (rule image_cong) (auto simp: has resolvesEOL_def keeps_def)
  also have "{k. resolvesEOL cx k \<and> mhas (stEOLPackages p) k} = {k. mhas (stEOLPackages p) k \<and> \<not> mhas (stEOLPackages nxt) k}"
    by (auto simp: has resolvesEOL_def keepsEOL_def)
  finally show ?thesis by blast
qed

lemma Compute_eol_new:
  assumes "stateOk prev" "Compute prev r = (d, nxt)" "p = carried prev r"
  shows "{(ecImage c, ecPackage c) | c. c \<in> set (dfNewEOLPackages d) \<and> ecKind c = EOLKindNew}
       = {(keyImage k, keyPackage k) | k. mhas (stEOLPackages nxt) k \<and> \<not> mhas (stEOLPackages p) k}"
proof -
  define cx where "cx = cycleEnv p r"
  have d: "d = fst (Compute prev r)" and n: "nxt = snd (Compute prev r)" using assms(2) by simp_all
  have b: "dfNewEOLPackages d = concat (map (\<lambda>k. eolChangeFor cx k (curEOLAt cx k)) (eolOrder r))"
    using Compute_announced [of prev r, folded assms(3), folded cx_def d] assms(1) by (simp add: announced_def stateOk_split)
  show ?thesis unfolding b new_eol_changes set_eolOrder [where prev = p]
    by (auto simp: Compute_has_eol [OF assms(1), of r, folded n assms(3), folded cx_def] cx_def knownEOL_def)
qed

text \<open>
  C11. What the difference says of findings is exact. Against the previous state with its history
  carried over to moved references: the findings reported as resolved are exactly those recorded before that the new
  state holds neither as a finding nor as an end-of-life package, and the changes of kind new are
  exactly those for the keys the new state holds and the old one knew in neither form.
\<close>

theorem Compute_findings_accounted:
  assumes "stateOk prev" "Compute prev r = (d, nxt)" "p = carried prev r"
  shows "set (dfResolved d) = {\<lparr>rvImage = keyImage k, rvPackage = keyPackage k\<rparr> | k.
            mhas (stFindings p) k \<and> \<not> mhas (stFindings nxt) k \<and> \<not> mhas (stEOLPackages nxt) k}
   \<and> {(cgImage c, cgPackage c) | c. c \<in> set (dfChanges d) \<and> cgKind c = KindNew}
       = {(keyImage k, keyPackage k) | k. mhas (stFindings nxt) k \<and> \<not> mhas (stFindings p) k \<and> \<not> mhas (stEOLPackages p) k}"
  using Compute_resolved [OF assms] Compute_new [OF assms] by blast

lemma Compute_eosl:
  assumes "stateOk prev" "Compute prev r = (d, nxt)" "p = carried prev r"
  shows "set (dfResolvedEOSL d) = {i. mhas (stEOSL p) i \<and> \<not> mhas (stEOSL nxt) i}"
    "set (dfNewEOSL d) = {i. mhas (stEOSL nxt) i \<and> \<not> mhas (stEOSL p) i}"
proof -
  define cx where "cx = cycleEnv p r"
  have d: "d = fst (Compute prev r)" and n: "nxt = snd (Compute prev r)" using assms(2) by simp_all
  have e: "dfResolvedEOSL d = sort (map fst (filter (\<lambda>it. fst it \<notin> set (rpEOSLImages r) \<and> \<not> failedRef cx (fst it)) (stEOSL p)))"
    and f: "dfNewEOSL d = filter (\<lambda>i. \<not> mhas (stEOSL p) i) (rpEOSLImages r)"
    using Compute_announced [of prev r, folded assms(3), folded cx_def d] assms(1) by (simp_all add: announced_def stateOk_split)
  note has = Compute_has_eosl [OF assms(1), of r, folded n assms(3), folded cx_def]
  show "set (dfResolvedEOSL d) = {i. mhas (stEOSL p) i \<and> \<not> mhas (stEOSL nxt) i}"
    unfolding e using keys_where [of _ "stEOSL p" "\<lambda>i. i \<notin> set (rpEOSLImages r) \<and> \<not> failedRef cx i"]
    by (auto simp: has)
  show "set (dfNewEOSL d) = {i. mhas (stEOSL nxt) i \<and> \<not> mhas (stEOSL p) i}"
    unfolding f by (auto simp: has)
qed

text \<open>
  C24. The same account for end-of-life records: the packages reported as no longer end-of-life are
  exactly those whose record the new state dropped, marked as still open exactly when the new state
  holds an ordinary finding for them; the new ones are exactly those it added; and the base images
  announced as newly or no longer end-of-life are exactly those whose record was added or dropped.
\<close>

theorem Compute_eol_accounted:
  assumes "stateOk prev" "Compute prev r = (d, nxt)" "p = carried prev r"
  shows "set (dfResolvedEOLPackages d) = {\<lparr>rlImage = keyImage k, rlPackage = keyPackage k, rlStillOpen = mhas (stFindings nxt) k\<rparr> | k.
            mhas (stEOLPackages p) k \<and> \<not> mhas (stEOLPackages nxt) k}
   \<and> {(ecImage c, ecPackage c) | c. c \<in> set (dfNewEOLPackages d) \<and> ecKind c = EOLKindNew}
       = {(keyImage k, keyPackage k) | k. mhas (stEOLPackages nxt) k \<and> \<not> mhas (stEOLPackages p) k}
   \<and> set (dfResolvedEOSL d) = {i. mhas (stEOSL p) i \<and> \<not> mhas (stEOSL nxt) i}
   \<and> set (dfNewEOSL d) = {i. mhas (stEOSL nxt) i \<and> \<not> mhas (stEOSL p) i}"
  using Compute_eosl [OF assms] Compute_eol_resolved [OF assms] Compute_eol_new [OF assms] by blast

text \<open>A key is recorded as a finding or as an end-of-life package; how a difference mentions it.\<close>

definition recorded :: "state \<Rightarrow> string \<Rightarrow> bool" where
  "recorded s k \<longleftrightarrow> mhas (stFindings s) k \<or> mhas (stEOLPackages s) k"

definition announcesNew :: "diff \<Rightarrow> string \<Rightarrow> bool" where
  "announcesNew d k \<longleftrightarrow>
     (\<exists>c \<in> set (dfChanges d). cgImage c = keyImage k \<and> cgPackage c = keyPackage k \<and> cgKind c = KindNew)
     \<or> (\<exists>c \<in> set (dfNewEOLPackages d). ecImage c = keyImage k \<and> ecPackage c = keyPackage k \<and> ecKind c = EOLKindNew)
     \<or> (\<exists>c \<in> set (dfRefChanges d). rcRef c = keyImage k)"

definition announcesGone :: "diff \<Rightarrow> string \<Rightarrow> bool" where
  "announcesGone d k \<longleftrightarrow>
     \<lparr>rvImage = keyImage k, rvPackage = keyPackage k\<rparr> \<in> set (dfResolved d)
     \<or> \<lparr>rlImage = keyImage k, rlPackage = keyPackage k, rlStillOpen = False\<rparr> \<in> set (dfResolvedEOLPackages d)
     \<or> (\<exists>c \<in> set (dfRefChanges d). rcPreviousRef c = keyImage k)"

text \<open>The same for an image recorded as end of life.\<close>

definition announcesNewEOSL :: "diff \<Rightarrow> string \<Rightarrow> bool" where
  "announcesNewEOSL d i \<longleftrightarrow> i \<in> set (dfNewEOSL d) \<or> (\<exists>c \<in> set (dfRefChanges d). rcRef c = i)"

definition announcesGoneEOSL :: "diff \<Rightarrow> string \<Rightarrow> bool" where
  "announcesGoneEOSL d i \<longleftrightarrow> i \<in> set (dfResolvedEOSL d) \<or> (\<exists>c \<in> set (dfRefChanges d). rcPreviousRef c = i)"

lemma image_keys: "k \<in> (\<lambda>x. f (fst x)) ` set m \<longleftrightarrow> (\<exists>j. mhas m j \<and> k = f j)"
  by (force simp: mhas_iff)

lemma carried_recorded:
  assumes "d = fst (Compute prev r)" "stateOk prev"
  shows "recorded (carried prev r) k \<Longrightarrow> recorded prev k \<or> (\<exists>c \<in> set (dfRefChanges d). rcRef c = keyImage k)"
    "recorded prev k \<Longrightarrow> recorded (carried prev r) k \<or> (\<exists>c \<in> set (dfRefChanges d). rcPreviousRef c = keyImage k)"
proof -
  let ?cs = "pairRefChanges prev (rpImages r)"
  have rc: "dfRefChanges d = ?cs"
    using Compute_announced [of prev r] assms by (simp add: announced_def stateOk_split carryOverRefChanges_def Let_def)
  have lk: "map_of (movedRefs ?cs) i = Some n \<longleftrightarrow> (\<exists>c \<in> set ?cs. rcPreviousRef c = i \<and> rcRef c = n)" for i n
    by (rule movedRefs_lookup [OF pairs_distinct(1)])
  have has: "recorded (carried prev r) k \<longleftrightarrow> (if ?cs = [] then recorded prev k
      else (\<exists>j. recorded prev j \<and> k = rekey (movedRefs ?cs) j))" for k
    by (auto simp: recorded_def carried_def carryOverRefChanges_def Let_def foldl_case mhas_foldl_put image_keys)
  have there: "rekey (movedRefs ?cs) j = j \<or> (\<exists>c \<in> set ?cs. rcPreviousRef c = keyImage j \<and> rcRef c = keyImage (rekey (movedRefs ?cs) j))" for j
  proof (cases "map_of (movedRefs ?cs) (keyImage j)")
    case (Some n)
    then obtain c where c: "c \<in> set ?cs" "rcPreviousRef c = keyImage j" "rcRef c = n" using lk by blast
    then have "tab \<notin> set n" using pair_refs(6) [OF c(1)] RepositoryKey_no_tab by blast
    then show ?thesis using c Some by (auto simp: rekey_def)
  qed (simp add: rekey_def)
  show "recorded (carried prev r) k \<Longrightarrow> recorded prev k \<or> (\<exists>c \<in> set (dfRefChanges d). rcRef c = keyImage k)"
    using there unfolding has rc by (metis (no_types))
  show "recorded prev k \<Longrightarrow> recorded (carried prev r) k \<or> (\<exists>c \<in> set (dfRefChanges d). rcPreviousRef c = keyImage k)"
    using there unfolding has rc by (metis (no_types))
qed

lemma Compute_announces:
  assumes "stateOk prev" "Compute prev r = (d, nxt)"
  shows "recorded nxt k \<Longrightarrow> \<not> recorded prev k \<Longrightarrow> announcesNew d k"
    "recorded prev k \<Longrightarrow> \<not> recorded nxt k \<Longrightarrow> announcesGone d k"
proof -
  have d: "d = fst (Compute prev r)" using assms(2) by simp
  note cr = carried_recorded [OF d assms(1), of k]
  note new = Compute_new [OF assms refl] Compute_eol_new [OF assms refl]
  show "announcesNew d k" if "recorded nxt k" "\<not> recorded prev k"
  proof (cases "recorded (carried prev r) k")
    case False
    have "(keyImage k, keyPackage k) \<in> {(cgImage c, cgPackage c) | c. c \<in> set (dfChanges d) \<and> cgKind c = KindNew}
       \<or> (keyImage k, keyPackage k) \<in> {(ecImage c, ecPackage c) | c. c \<in> set (dfNewEOLPackages d) \<and> ecKind c = EOLKindNew}"
      unfolding new using False that by (auto simp: recorded_def)
    then show ?thesis by (auto simp: announcesNew_def)
  qed (use cr(1) that in \<open>auto simp: announcesNew_def\<close>)
  show "announcesGone d k" if "recorded prev k" "\<not> recorded nxt k"
    using cr(2) that Compute_resolved [OF assms refl] Compute_eol_resolved [OF assms refl]
    by (auto simp: announcesGone_def recorded_def)
qed

lemma carried_eosl:
  assumes "d = fst (Compute prev r)" "stateOk prev"
  shows "mhas (stEOSL (carried prev r)) i \<Longrightarrow> mhas (stEOSL prev) i \<or> (\<exists>c \<in> set (dfRefChanges d). rcRef c = i)"
    "mhas (stEOSL prev) i \<Longrightarrow> mhas (stEOSL (carried prev r)) i \<or> (\<exists>c \<in> set (dfRefChanges d). rcPreviousRef c = i)"
proof -
  let ?cs = "pairRefChanges prev (rpImages r)"
  have rc: "dfRefChanges d = ?cs"
    using Compute_announced [of prev r] assms by (simp add: announced_def stateOk_split carryOverRefChanges_def Let_def)
  have has: "mhas (stEOSL (carried prev r)) i \<longleftrightarrow> (if ?cs = [] then mhas (stEOSL prev) i
      else (\<exists>j. mhas (stEOSL prev) j \<and> i = mget j (movedRefs ?cs) j))" for i
    by (auto simp: carried_def carryOverRefChanges_def Let_def case_prod_unfold mhas_foldl_put image_keys [of _ "\<lambda>j. mget j (movedRefs ?cs) j"])
  have there: "mget j (movedRefs ?cs) j = j \<or> (\<exists>c \<in> set ?cs. rcPreviousRef c = j \<and> rcRef c = mget j (movedRefs ?cs) j)" for j
  proof (cases "map_of (movedRefs ?cs) j")
    case (Some n)
    then obtain c where "c \<in> set ?cs" "rcPreviousRef c = j" "rcRef c = n" using movedRefs_lookup [OF pairs_distinct(1)] by blast
    then show ?thesis using Some by auto
  qed simp
  show "mhas (stEOSL (carried prev r)) i \<Longrightarrow> mhas (stEOSL prev) i \<or> (\<exists>c \<in> set (dfRefChanges d). rcRef c = i)"
    using there unfolding has rc by (metis (no_types))
  show "mhas (stEOSL prev) i \<Longrightarrow> mhas (stEOSL (carried prev r)) i \<or> (\<exists>c \<in> set (dfRefChanges d). rcPreviousRef c = i)"
    using there unfolding has rc by (metis (no_types))
qed

lemma Compute_announces_eosl:
  assumes "stateOk prev" "Compute prev r = (d, nxt)"
  shows "mhas (stEOSL nxt) i \<Longrightarrow> \<not> mhas (stEOSL prev) i \<Longrightarrow> announcesNewEOSL d i"
    "mhas (stEOSL prev) i \<Longrightarrow> \<not> mhas (stEOSL nxt) i \<Longrightarrow> announcesGoneEOSL d i"
  using carried_eosl [of d prev r i] Compute_eosl [OF assms refl] assms by (auto simp: announcesNewEOSL_def announcesGoneEOSL_def)

lemma announces_changes:
  "announcesNew d k \<Longrightarrow> HasChanges d" "announcesGone d k \<Longrightarrow> HasChanges d" "announcesNewEOSL d i \<Longrightarrow> HasChanges d" "announcesGoneEOSL d i \<Longrightarrow> HasChanges d"
  by (auto simp: announcesNew_def announcesGone_def announcesNewEOSL_def announcesGoneEOSL_def HasChanges_def)

subsection \<open>Ages, and what a failed scan may not change\<close>

lemma Compute_finding_at:
  assumes "stateOk prev"
  shows "map_of (stFindings (snd (Compute prev r))) k =
     (let cx = cycleEnv (carried prev r) r in
      if mhas (cxCur cx) k then Some (storedEntry cx k (curAt cx k))
      else if keeps cx k then map_option (keptEntry cx k) (map_of (stFindings (carried prev r)) k) else None)"
  by (simp add: Compute_parts carriedCycle_def cycle_findings [OF carried_maps [OF assms]] Let_def)

lemma Compute_eol_at:
  assumes "stateOk prev"
  shows "map_of (stEOLPackages (snd (Compute prev r))) k =
     (let cx = cycleEnv (carried prev r) r in
      if mhas (cxCurEOL cx) k then Some (storedEOL cx k (curEOLAt cx k))
      else if keepsEOL cx k then map_of (stEOLPackages (carried prev r)) k else None)"
  by (simp add: Compute_parts carriedCycle_def cycle_eol [OF carried_maps [OF assms]] Let_def)

lemma Compute_muted_at:
  assumes "stateOk prev"
  shows "mget False (stMuted (snd (Compute prev r))) k \<longleftrightarrow>
     (let p = carried prev r; cx = cycleEnv p r in
      (mhas (cxCur cx) k \<and> mutedNow cx k (curAt cx k))
      \<or> (keeps cx k \<and> mhas (stFindings p) k \<and> wasMuted cx k)
      \<or> (holdsEOL cx k \<and> mhas (stEOLPackages p) k \<and> wasMuted cx k))"
  by (simp add: Compute_parts carriedCycle_def cycle_muted [OF carried_maps [OF assms]] Let_def)

lemma carried_key_inj:
  assumes "stateOk prev" "mhas (stFindings (carried prev r)) j" "mhas (stFindings (carried prev r)) k"
    "keyImage j = keyImage k" "keyPackage j = keyPackage k"
  shows "j = k"
proof -
  have "keysTabbed (carried prev r)" using assms(1) carryOver_tabbed by (simp add: carried_def stateOk_split)
  then have "tab \<in> set j" "tab \<in> set k" using assms(2,3) by (auto simp: keysTabbed_def)
  then show ?thesis using assms(4,5) by (metis key_decompose)
qed

lemma storedEntry_firstSeen [simp]: "etFirstSeen (storedEntry cx k cu) = firstSeenOf cx k"
  by (simp add: storedEntry_def Let_def)

lemma keptEntry_simps [simp]:
  "etFirstSeen (keptEntry cx k e) = etFirstSeen e" "etVulnIDs (keptEntry cx k e) = etVulnIDs e"
  "etPriority (keptEntry cx k e) = etPriority e" "etFixable (keptEntry cx k e) = etFixable e"
  by (simp_all add: keptEntry_def)

text \<open>
  Ages survive: a finding of the new state was first seen when the old state first saw it, as a
  finding or else as an end-of-life package, and now when the old state knew it in neither form; an
  end-of-life record and a base image likewise keep the date of their own previous record.
\<close>

lemma Compute_first_seen:
  assumes "stateOk prev" "Compute prev r = (d, nxt)" "p = carried prev r"
  shows "(map_of (stFindings nxt) k = Some e \<longrightarrow> etFirstSeen e =
       (case map_of (stFindings p) k of Some pe \<Rightarrow> etFirstSeen pe
        | None \<Rightarrow> (case map_of (stEOLPackages p) k of Some pl \<Rightarrow> elFirstSeen pl | None \<Rightarrow> rpGeneratedAt r)))
   \<and> (map_of (stEOLPackages nxt) k = Some l \<longrightarrow> elFirstSeen l =
       (case map_of (stEOLPackages p) k of Some pl \<Rightarrow> elFirstSeen pl | None \<Rightarrow> rpGeneratedAt r))
   \<and> (map_of (stEOSL nxt) i = Some t \<longrightarrow> t = (case map_of (stEOSL p) i of Some pt \<Rightarrow> pt | None \<Rightarrow> rpGeneratedAt r))"
proof -
  have n: "nxt = snd (Compute prev r)" using assms(2) by simp
  have first: "firstSeenOf (cycleEnv p r) k = (case map_of (stFindings p) k of Some pe \<Rightarrow> etFirstSeen pe
        | None \<Rightarrow> (case map_of (stEOLPackages p) k of Some pl \<Rightarrow> elFirstSeen pl | None \<Rightarrow> rpGeneratedAt r))"
    by (auto simp: firstSeenOf_def knownE_def knownEOL_def prevEntry_def prevEOLEntry_def mhas_def split: option.split)
  have eol: "elFirstSeen (storedEOL (cycleEnv p r) k cu) =
        (case map_of (stEOLPackages p) k of Some pl \<Rightarrow> elFirstSeen pl | None \<Rightarrow> rpGeneratedAt r)" for cu
    by (auto simp: storedEOL_def Let_def knownEOL_def prevEOLEntry_def mhas_def split: option.split)
  have eosl: "map_of (stEOSL nxt) i = (if i \<in> set (rpEOSLImages r) then Some (mget (rpGeneratedAt r) (stEOSL p) i)
      else if failedRef (cycleEnv p r) i then map_of (stEOSL p) i else None)"
    unfolding n assms(3) by (simp add: Compute_parts carriedCycle_def cycle_eosl [OF carried_maps [OF assms(1)]])
  show ?thesis
    unfolding eosl unfolding n
    by (auto simp: Compute_finding_at [OF assms(1)] Compute_eol_at [OF assms(1)] assms(3) [symmetric] Let_def first eol mget_def
        split: if_splits option.splits)
qed

text \<open>
  C18. A failed scan never regresses a record. When some entity of the reference failed this cycle,
  or the scan of the whole reference failed or left this runtime unchecked and shows nothing for
  the key, the finding recorded before is still recorded, with the same first date, at least the same
  vulnerabilities, at least the same priority, still fixable if it was, and it is not reported
  resolved; its muting is also what it was.
\<close>

theorem Compute_failed_scan_holds:
  assumes "stateOk prev" "Compute prev r = (d, nxt)" "p = carried prev r" "cx = cycleEnv p r"
    and known: "map_of (stFindings p) k = Some e"
    and failed: "partiallyFailed cx k \<or> (\<not> mhas (cxCur cx) k \<and> (fullyFailed cx k \<or> uncheckedKey cx k))"
  shows "\<exists>e'. map_of (stFindings nxt) k = Some e' \<and> etFirstSeen e' = etFirstSeen e
     \<and> set (etVulnIDs e) \<subseteq> set (etVulnIDs e') \<and> Rank (etPriority e) \<le> Rank (etPriority e')
     \<and> (etFixable e \<longrightarrow> etFixable e') \<and> (mget False (stMuted p) k \<longrightarrow> mget False (stMuted nxt) k)
     \<and> \<lparr>rvImage = keyImage k, rvPackage = keyPackage k\<rparr> \<notin> set (dfResolved d)"
proof -
  have n: "nxt = snd (Compute prev r)" and dd: "d = fst (Compute prev r)" using assms(2) by simp_all
  have pe: "prevEntry cx k = e" "knownE cx k" using known by (simp_all add: prevEntry_def knownE_def assms(4) mhas_def)
  have at: "map_of (stFindings nxt) k = (if mhas (cxCur cx) k then Some (storedEntry cx k (curAt cx k)) else Some (keptEntry cx k e))"
    using failed known unfolding n by (auto simp: Compute_finding_at [OF assms(1)] assms(3,4) [symmetric] Let_def keeps_def)
  have muted: "mget False (stMuted nxt) k" if "mget False (stMuted p) k"
    using that failed known pe unfolding n
    by (auto simp: Compute_muted_at [OF assms(1)] assms(3,4) [symmetric] Let_def keeps_def mutedNow_def heldNow_def wasMuted_def mhas_def)
       (simp_all add: assms(4))
  have res: "dfResolved d = sortBy lessResolved (map (\<lambda>ke. \<lparr>rvImage = keyImage (fst ke), rvPackage = keyPackage (fst ke)\<rparr>)
        (filter (\<lambda>ke. resolves cx (fst ke)) (stFindings p)))"
    using Compute_announced [of prev r] assms(1) unfolding dd by (simp add: announced_def assms(3,4) stateOk_split)
  have "\<not> resolves cx k" using failed by (auto simp: resolves_def)
  moreover have "j = k" if "(j, ej) \<in> set (stFindings p)" "keyImage k = keyImage j" "keyPackage k = keyPackage j" for j ej
    using carried_key_inj [OF assms(1), of r j k, folded assms(3)] mhas_fst [OF that(1)] that(2,3) known
    by (simp add: mhas_def)
  ultimately have "\<lparr>rvImage = keyImage k, rvPackage = keyPackage k\<rparr> \<notin> set (dfResolved d)"
    unfolding res by auto
  then show ?thesis
    using at muted pe failed
    by (cases "mhas (cxCur cx) k") (auto simp: storedEntry_def heldNow_def firstSeenOf_def Let_def)
qed

subsection \<open>A repeated report announces nothing\<close>

lemma nextImages_at:
  assumes "distinct (map obRef obs)" "ob \<in> set obs"
  shows "map_of (nextImages pim obs now) (obRef ob) = Some (nextImageMeta pim now ob)"
proof -
  have "map_of (foldl (\<lambda>m ob. mput (obRef ob) (nextImageMeta pim now ob) m) m0 obs) (obRef ob) = Some (nextImageMeta pim now ob)" for m0
    using assms
  proof (induction obs arbitrary: m0)
    case (Cons a obs)
    have other: "obRef ob \<notin> obRef ` set obs \<Longrightarrow>
      map_of (foldl (\<lambda>m ob. mput (obRef ob) (nextImageMeta pim now ob) m) m1 obs) (obRef ob) = map_of m1 (obRef ob)" for m1
      by (induction obs arbitrary: m1) auto
    show ?case using Cons other by (cases "ob = a") auto
  qed simp
  then show ?thesis by (simp add: nextImages_def)
qed

lemma nextImages_refs: "mhas (nextImages pim obs now) ref \<longleftrightarrow> ref \<in> obRef ` set obs"
  by (simp add: nextImages_def mhas_foldl_put)

lemma no_ref_changes:
  assumes "\<And>ref. mhas (stImages s) ref \<Longrightarrow> ref \<in> obRef ` set obs"
  shows "carryOverRefChanges s obs = (s, [])"
proof -
  have "filter (\<lambda>ref. ref \<notin> obRef ` set obs) (mkeys (stImages s)) = []"
    using assms by (auto simp: mhas_def filter_empty_conv)
  then have "goneRefs s obs = []" by (simp add: goneRefs_def)
  then show ?thesis by (simp add: carryOverRefChanges_def Let_def pairRefChanges_def candidates_def)
qed

lemma no_replacement:
  assumes "distinct (map obRef obs)"
  shows "replacedImages (nextImages pim obs now) obs = []"
proof -
  have "(case map_of (nextImages pim obs now) (obRef ob) of None \<Rightarrow> [] | Some pm \<Rightarrow>
           if imContentIDs pm = [] \<or> obContentIDs ob = [] then []
           else if \<not> equalStrings (imContentIDs pm) (obContentIDs ob)
           then [\<lparr>irRef = obRef ob, irPrevContentIDs = imContentIDs pm, irContentIDs = obContentIDs ob\<rparr>] else []) = []"
    if "ob \<in> set obs" for ob using nextImages_at [OF assms that] by (simp add: nextImageMeta_def)
  then show ?thesis by (simp add: replacedImages_def concat_eq_Nil_conv [THEN iffD2])
qed

lemma Rank_basePrio: "Rank (etPriority (prevEntry cx k)) \<le> Rank (basePrio cx k)"
  by (simp add: basePrio_def)

lemma stored_quiet:
  assumes "knownE cx' k" "prevEntry cx' k = storedEntry cx k cu"
  shows "changeKind cx' k cu = ''''"
proof -
  have "Rank (MaxPriority (cuGroups cu)) \<le> Rank (basePrio cx' k)"
    using Rank_basePrio [of cx' k] assms(2) by (simp add: storedEntry_def Let_def split: if_splits)
  moreover have "set (cuIds cu) \<subseteq> set (baseIDs cx' k)"
    using assms(2) by (auto simp: baseIDs_def storedEntry_def Let_def)
  moreover have "cuFixable cu \<longrightarrow> etFixable (prevEntry cx' k)"
    using assms(2) by (simp add: storedEntry_def Let_def)
  ultimately show ?thesis using assms(1) by (simp add: changeKind_def Let_def newIDs_empty)
qed

lemma stored_eol_quiet:
  assumes "knownEOL cx' k" "prevEOLEntry cx' k = storedEOL cx k cu"
  shows "eolChangeFor cx' k cu = []"
proof -
  have "Rank (MaxPriority (cuGroups cu)) \<le> Rank (elPriority (prevEOLEntry cx' k))"
    using assms(2) by (simp add: storedEOL_def Let_def split: if_splits)
  moreover have "newIDs (sortedIDs (cuIds cu)) (elVulnIDs (prevEOLEntry cx' k)) = []"
    using assms(2) by (auto simp: newIDs_empty storedEOL_def Let_def)
  ultimately show ?thesis using assms(1) by (simp add: eolChangeFor_def Let_def)
qed

lemma same_report_env:
  fixes s s' r t
  defines "cx \<equiv> cycleEnv s r" and "cx' \<equiv> cycleEnv s' (r\<lparr>rpGeneratedAt := t\<rparr>)"
  shows "cxCur cx' = cxCur cx" "cxCurEOL cx' = cxCurEOL cx" "fullyFailed cx' = fullyFailed cx"
    "partiallyFailed cx' = partiallyFailed cx" "uncheckedKey cx' = uncheckedKey cx" "failedRef cx' = failedRef cx"
    "curAt cx' = curAt cx" "curEOLAt cx' = curEOLAt cx"
  by (auto simp: cx_def cx'_def cycleEnv_def fullyFailed_def partiallyFailed_def uncheckedKey_def failedRef_def curAt_def
      curEOLAt_def runtimeUnchecked_def)

lemma same_report_orders [simp]:
  "ordinaryOrder (r\<lparr>rpGeneratedAt := t\<rparr>) = ordinaryOrder r" "eolOrder (r\<lparr>rpGeneratedAt := t\<rparr>) = eolOrder r"
  by (simp_all add: ordinaryOrder_def eolOrder_def)

lemma uncheckedKey_iff: "uncheckedKey (cycleEnv s r) k \<longleftrightarrow> \<lparr>ruImage = keyImage k, ruPackage = keyPackage k\<rparr> \<in> set (rpRuntimeUnchecked r)"
proof -
  have "set (foldl (\<lambda>s u. setAdd u s) s0 us) = set s0 \<union> set us" for s0 us :: "runtime_unchecked_ref list"
    by (induction us arbitrary: s0) auto
  then show ?thesis by (simp add: uncheckedKey_def cycleEnv_def runtimeUnchecked_def)
qed

lemma repeated_change:
  fixes prev r t
  defines "nxt \<equiv> snd (Compute prev r)"
  assumes "stateOk prev" "k \<in> set (ordinaryOrder r)"
    and "\<lparr>ruImage = keyImage k, ruPackage = keyPackage k\<rparr> \<notin> set (rpRuntimeUnchecked r)"
  shows "changeFor (cycleEnv nxt (r\<lparr>rpGeneratedAt := t\<rparr>)) k (curAt (cycleEnv nxt (r\<lparr>rpGeneratedAt := t\<rparr>)) k) = []"
proof -
  define cx where "cx = cycleEnv (carried prev r) r"
  define cx' where "cx' = cycleEnv nxt (r\<lparr>rpGeneratedAt := t\<rparr>)"
  note same = same_report_env [where s = "carried prev r" and s' = nxt and r = r and t = t, folded cx_def cx'_def]
  have cur: "mhas (cxCur cx) k" using assms(3) set_ordinaryOrder cx_def by metis
  have at: "map_of (stFindings nxt) k = Some (storedEntry cx k (curAt cx k))"
    using cur by (simp add: nxt_def Compute_finding_at [OF assms(2)] cx_def Let_def)
  then have prev: "knownE cx' k" "prevEntry cx' k = storedEntry cx k (curAt cx' k)"
    using same by (simp_all add: knownE_def prevEntry_def cx'_def mhas_def)
  have "\<not> uncheckedKey cx k" using assms(4) by (simp add: cx_def uncheckedKey_iff)
  then have "mget False (stMuted nxt) k = mutedNow cx k (curAt cx k)"
    using cur by (auto simp: nxt_def Compute_muted_at [OF assms(2)] cx_def Let_def keeps_def holdsEOL_def)
  then have "\<not> becameUnmuted cx' k (curAt cx' k)"
    using prev(1) same by (auto simp: becameUnmuted_def mutedNow_def heldNow_def wasMuted_def cx'_def)
  with stored_quiet [OF prev] show ?thesis by (simp add: changeFor_def cx'_def)
qed

text \<open>
  C12. A repeated report announces nothing. Computing the same report again, at whatever time, on the
  state the first computation left, gives a difference without changes: no finding is new,
  escalated, newly fixable, unmuted or resolved, no end-of-life record appears or goes, no image was
  replaced and no reference changed. The report has one observation per reference, and no finding
  it shows belongs to a runtime it calls unchecked.
\<close>

theorem Compute_repeated_quiet:
  assumes "stateOk prev" "distinct (map obRef (rpImages r))"
    and "\<forall>k \<in> set (ordinaryOrder r). \<lparr>ruImage = keyImage k, ruPackage = keyPackage k\<rparr> \<notin> set (rpRuntimeUnchecked r)"
  shows "\<not> HasChanges (fst (Compute (snd (Compute prev r)) (r\<lparr>rpGeneratedAt := t\<rparr>)))"
proof -
  define nxt where "nxt = snd (Compute prev r)"
  define r' where "r' = r\<lparr>rpGeneratedAt := t\<rparr>"
  define cx where "cx = cycleEnv (carried prev r) r"
  define cx' where "cx' = cycleEnv nxt r'"
  note same = same_report_env [where s = "carried prev r" and s' = nxt and r = r and t = t, folded cx_def r'_def, folded cx'_def]
  have ok: "stateMaps nxt" using assms(1) carried_maps by (simp add: nxt_def Compute_parts carriedCycle_def cycle_maps)
  have images: "stImages nxt = nextImages (stImages (carried prev r)) (rpImages r) (rpGeneratedAt r)"
    using carried_maps [OF assms(1), of r]
    by (simp add: nxt_def Compute_parts carriedCycle_def cycle_next(1) stateMaps_def)
  have carry: "carryOverRefChanges nxt (rpImages r') = (nxt, [])"
    using no_ref_changes [of nxt "rpImages r"] by (simp add: images nextImages_refs r'_def)
  then have c: "carried nxt r' = nxt" by (simp add: carried_def)
  have changes: "concat (map (\<lambda>k. changeFor cx' k (curAt cx' k)) (ordinaryOrder r')) = []"
    using repeated_change [OF assms(1)] assms(3) by (simp add: cx'_def nxt_def r'_def)
  have eols: "concat (map (\<lambda>k. eolChangeFor cx' k (curEOLAt cx' k)) (eolOrder r')) = []"
  proof -
    have "eolChangeFor cx' k (curEOLAt cx' k) = []" if "k \<in> set (eolOrder r)" for k
    proof (rule stored_eol_quiet [where cx = cx])
      have "map_of (stEOLPackages nxt) k = Some (storedEOL cx k (curEOLAt cx k))"
        using that by (simp add: nxt_def Compute_eol_at [OF assms(1)] cx_def Let_def set_eolOrder [where prev = "carried prev r"])
      then show "knownEOL cx' k" "prevEOLEntry cx' k = storedEOL cx k (curEOLAt cx' k)"
        using same by (simp_all add: knownEOL_def prevEOLEntry_def cx'_def mhas_def)
    qed
    then show ?thesis by (simp add: r'_def)
  qed
  have "\<not> resolves cx' k" if "mhas (stFindings nxt) k" for k
    using that same by (auto simp: nxt_def Compute_has_finding [OF assms(1)] cx_def [symmetric] resolves_def keeps_def)
  then have res: "filter (\<lambda>ke. resolves cx' (fst ke)) (stFindings nxt) = []"
    using mhas_fst by (fastforce simp: filter_empty_conv)
  have "\<not> resolvesEOL cx' k" if "mhas (stEOLPackages nxt) k" for k
    using that same by (auto simp: nxt_def Compute_has_eol [OF assms(1)] cx_def [symmetric] resolvesEOL_def keepsEOL_def)
  then have reseol: "filter (\<lambda>ke. resolvesEOL cx' (fst ke)) (stEOLPackages nxt) = []"
    using mhas_fst by (fastforce simp: filter_empty_conv)
  have eosl: "mhas (stEOSL nxt) i \<longleftrightarrow> i \<in> set (rpEOSLImages r) \<or> mhas (stEOSL (carried prev r)) i \<and> failedRef cx' i" for i
    using Compute_has_eosl [OF assms(1), of r i] same by (simp add: nxt_def cx_def)
  have reseosl: "filter (\<lambda>it. fst it \<notin> set (rpEOSLImages r') \<and> \<not> failedRef cx' (fst it)) (stEOSL nxt) = []"
    using mhas_fst [of _ "stEOSL nxt"] by (fastforce simp: filter_empty_conv eosl r'_def)
  have neweosl: "filter (\<lambda>i. \<not> mhas (stEOSL nxt) i) (rpEOSLImages r') = []"
    by (simp add: filter_empty_conv eosl r'_def)
  have repl: "replacedImages (stImages nxt) (rpImages r') = []"
    by (simp add: images r'_def no_replacement [OF assms(2)])
  have "announced (fst (Compute nxt r')) = ([], [], [], [], [], [], [], [])"
    unfolding Compute_announced [OF ok] c cx'_def [symmetric] changes eols res reseol reseosl neweosl repl by (simp add: carry)
  then show ?thesis by (simp add: announced_def HasChanges_def nxt_def r'_def)
qed

subsection \<open>The open counts\<close>

lemma card_entries:
  assumes "map_ok m"
  shows "length (filter P m) = card {k. \<exists>e. map_of m k = Some e \<and> P (k, e)}"
proof -
  have d: "distinct (map fst (filter P m))" using assms distinct_map_filter by (auto simp: map_ok_def)
  have "length (filter P m) = card (set (map fst (filter P m)))" using distinct_card [OF d] by simp
  also have "set (map fst (filter P m)) = {k. \<exists>e. map_of m k = Some e \<and> P (k, e)}"
    using assms by (force simp: map_ok_def)
  finally show ?thesis .
qed

definition eolActNow :: "state \<Rightarrow> string \<Rightarrow> bool" where
  "eolActNow s k \<longleftrightarrow> elPriority (mget zeroEOLEntry (stEOLPackages s) k) = PriorityActNow"

lemma open_findings_loop:
  "dfOpenActNow (foldl (openFindingStep c) d es) = dfOpenActNow d
     + length (filter (\<lambda>ke. etPriority (snd ke) = PriorityActNow \<and> \<not> hiddenKey c (fst ke) \<or> eolActNow (cyNext c) (fst ke)) es)"
  "dfOpenWatch (foldl (openFindingStep c) d es) = dfOpenWatch d
     + length (filter (\<lambda>ke. etPriority (snd ke) = PriorityWatch \<and> \<not> hiddenKey c (fst ke) \<and> \<not> eolActNow (cyNext c) (fst ke)) es)"
  "dfOpenLow (foldl (openFindingStep c) d es) = dfOpenLow d
     + length (filter (\<lambda>ke. etPriority (snd ke) = PriorityLow \<and> \<not> hiddenKey c (fst ke) \<and> \<not> eolActNow (cyNext c) (fst ke)) es)"
  "dfOpenEOLPackages (foldl (openFindingStep c) d es) = dfOpenEOLPackages d"
  by (induction es arbitrary: d) (auto simp: openFindingStep_def eolActNow_def Let_def)

lemma open_eol_loop:
  "dfOpenActNow (foldl (openEOLStep s folded) d es) = dfOpenActNow d
     + length (filter (\<lambda>ke. elPriority (snd ke) = PriorityActNow \<and> \<not> mhas (stFindings s) (fst ke)) es)"
  "dfOpenEOLPackages (foldl (openEOLStep s folded) d es) = dfOpenEOLPackages d
     + length (filter (\<lambda>ke. keyImage (fst ke) \<notin> set folded) es)"
  "dfOpenWatch (foldl (openEOLStep s folded) d es) = dfOpenWatch d"
  "dfOpenLow (foldl (openEOLStep s folded) d es) = dfOpenLow d"
  by (induction es arbitrary: d) (auto simp: openEOLStep_def Let_def)

definition openCounts :: "diff \<Rightarrow> nat \<times> nat \<times> nat \<times> nat" where
  "openCounts d = (dfOpenActNow d, dfOpenWatch d, dfOpenLow d, dfOpenEOLPackages d)"

lemma openCounts_steps:
  "openCounts (foldl openEOSLStep d ts) = openCounts d"
  "openCounts (foldl (\<lambda>d sec. foldl (\<lambda>d img. foldl addGroupCounts d (ifPackages img)) d sec) d ss) = openCounts d"
  by (intro foldl_frame, simp add: openCounts_def openEOSLStep_def addGroupCounts_def)+

lemma cycle_diff_open: "openCounts (cyDiff (computeCycle prev cs r)) = (0, 0, 0, 0)" if "map_ok (stEOSL prev)"
  using that
  by (simp add: openCounts_def computeCycle_def computeFindings_def computeEOLPackages_def computeEOL_def Let_def
      findings_loop carry_loop eol_loop carry_eol_loop emptyState_def zeroDiff_def computeEOSL_closed)

lemma eolActNow_iff: "eolActNow s k \<longleftrightarrow> (\<exists>l. map_of (stEOLPackages s) k = Some l \<and> elPriority l = PriorityActNow)"
  by (cases "map_of (stEOLPackages s) k") (simp_all add: eolActNow_def zeroEOLEntry_def)

lemma finite_entries: "finite {k. \<exists>e. map_of m k = Some e \<and> P k e}"
  by (rule finite_subset [OF _ finite_dom_map_of [of m]]) auto

lemma act_now_card:
  "card {k. \<exists>e. map_of (stFindings s) k = Some e \<and> (P k e \<or> eolActNow s k)}
     + card {k. \<exists>l. map_of (stEOLPackages s) k = Some l \<and> elPriority l = PriorityActNow \<and> \<not> mhas (stFindings s) k}
   = card {k. (\<exists>e. map_of (stFindings s) k = Some e \<and> P k e) \<or> eolActNow s k}"
  (is "card ?A + card ?B = card ?C")
proof -
  have "?C = ?A \<union> ?B" "?A \<inter> ?B = {}" by (auto simp: eolActNow_iff mhas_def)
  then show ?thesis using card_Un_disjoint [of ?A ?B] finite_entries [of "stFindings s"] finite_entries [of "stEOLPackages s"] by simp
qed

lemma heartbeat_counts:
  assumes "stateMaps (cyNext c)" "openCounts (cyDiff c) = (0, 0, 0, 0)"
  shows "openCounts (heartbeat r c) =
     (card {k. (\<exists>e. map_of (stFindings (cyNext c)) k = Some e \<and> etPriority e = PriorityActNow \<and> \<not> hiddenKey c k) \<or> eolActNow (cyNext c) k},
      card {k. \<exists>e. map_of (stFindings (cyNext c)) k = Some e \<and> etPriority e = PriorityWatch \<and> \<not> hiddenKey c k \<and> \<not> eolActNow (cyNext c) k},
      card {k. \<exists>e. map_of (stFindings (cyNext c)) k = Some e \<and> etPriority e = PriorityLow \<and> \<not> hiddenKey c k \<and> \<not> eolActNow (cyNext c) k},
      card {k. \<exists>l. map_of (stEOLPackages (cyNext c)) k = Some l \<and> \<not> mhas (stEOSL (cyNext c)) (keyImage k)})"
proof -
  define n where "n = cyNext c"
  have mo: "map_ok (stFindings n)" "map_ok (stEOLPackages n)" using assms(1) by (simp_all add: stateMaps_def n_def)
  define d0 where "d0 = (cyDiff c)\<lparr>dfOpenImages := AffectedImageCount r, dfOpenEOSL := sort (mkeys (stEOSL n))\<rparr>"
  define d2 where "d2 = foldl (openEOLStep n (sort (mkeys (stEOSL n)))) (foldl (openFindingStep c) d0 (stFindings n)) (stEOLPackages n)"
  have any: "openCounts (d\<lparr>dfAnyOpen := b\<rparr>) = openCounts d" for d b by (simp add: openCounts_def)
  have dd: "openCounts (heartbeat r c) = openCounts d2"
    by (simp add: heartbeat_def Let_def n_def [symmetric] d0_def [symmetric] d2_def [symmetric] openCounts_steps any)
  have folded: "keyImage k \<notin> set (sort (mkeys (stEOSL n))) \<longleftrightarrow> \<not> mhas (stEOSL n) (keyImage k)" for k
    by (simp add: mhas_def dom_def)
  show ?thesis
    using assms(2) unfolding dd n_def [symmetric] act_now_card [symmetric, where s = n]
    by (simp add: d2_def openCounts_def d0_def open_findings_loop open_eol_loop card_entries [OF mo(1)] card_entries [OF mo(2)]
        n_def [symmetric] folded del: set_sort)
qed

lemma hidden_shown:
  assumes "stateOk prev" "hiddenKey (carriedCycle prev r) k" "cx = cycleEnv (carried prev r) r"
  shows "mhas (cxCur cx) k" "\<not> heldNow cx k" "cuGroups (curAt cx k) = groupsAt [rpActionable r, rpWatch r, rpWontFix r] k"
    "allMuted (groupsAt [rpActionable r, rpWatch r, rpWontFix r] k)"
proof -
  note m = cycle_muted [OF carried_maps [OF assms(1)], where r = r] cycle_held [OF carried_maps [OF assms(1)], where r = r]
  have h: "mhas (cxCur cx) k" "mutedNow cx k (curAt cx k)" "\<not> heldNow cx k"
    using assms(2) by (auto simp: hiddenKey_def carriedCycle_def m assms(3))
  have "mergedOf (groupsAt [rpActionable r, rpWatch r, rpWontFix r] k) = Some (curAt cx k)"
    using h(1) by (auto simp: assms(3) curAt_def mhas_def cycleEnv_def mergeSections_at [symmetric] mget_def)
  then have g: "cuGroups (curAt cx k) = groupsAt [rpActionable r, rpWatch r, rpWontFix r] k"
    by (auto simp: mergedOf_def split: if_splits dest!: sym [of _ "curAt cx k"])
  show "mhas (cxCur cx) k" "\<not> heldNow cx k" "cuGroups (curAt cx k) = groupsAt [rpActionable r, rpWatch r, rpWontFix r] k"
    "allMuted (groupsAt [rpActionable r, rpWatch r, rpWontFix r] k)"
    using h g by (simp_all add: mutedNow_def)
qed

lemma hidden_priority:
  assumes "stateOk prev" "hiddenKey (carriedCycle prev r) k" "map_of (stFindings (snd (Compute prev r))) k = Some e"
  shows "etPriority e = MaxPriority (groupsAt [rpActionable r, rpWatch r, rpWontFix r] k)"
  using hidden_shown [OF assms(1,2) refl] assms(3)
  by (auto simp: Compute_finding_at [OF assms(1)] Let_def storedEntry_def)

lemma Compute_counts:
  assumes "stateOk prev" "Compute prev r = (d, nxt)"
  shows "openCounts d =
     (card {k. (\<exists>e. map_of (stFindings nxt) k = Some e \<and> etPriority e = PriorityActNow \<and> \<not> hiddenKey (carriedCycle prev r) k) \<or> eolActNow nxt k},
      card {k. \<exists>e. map_of (stFindings nxt) k = Some e \<and> etPriority e = PriorityWatch \<and> \<not> hiddenKey (carriedCycle prev r) k \<and> \<not> eolActNow nxt k},
      card {k. \<exists>e. map_of (stFindings nxt) k = Some e \<and> etPriority e = PriorityLow \<and> \<not> hiddenKey (carriedCycle prev r) k \<and> \<not> eolActNow nxt k},
      card {k. \<exists>l. map_of (stEOLPackages nxt) k = Some l \<and> \<not> mhas (stEOSL nxt) (keyImage k)})"
proof -
  define c where "c = carriedCycle prev r"
  have n: "nxt = cyNext c" and d: "d = heartbeat r c" using assms(2) by (simp_all add: Compute_parts c_def)
  have ok: "stateMaps (cyNext c)" using carried_maps [OF assms(1)] by (simp add: c_def carriedCycle_def cycle_maps)
  have zero: "openCounts (cyDiff c) = (0, 0, 0, 0)"
    using cycle_diff_open [of "carried prev r"] carried_maps [OF assms(1), of r] by (simp add: c_def carriedCycle_def stateMaps_def)
  show ?thesis using heartbeat_counts [OF ok zero, of r] by (simp only: n d c_def)
qed

text \<open>
  C20. The open counts are exact. Act-now counts the keys of the new state with an act-now finding that
  is not hidden or an act-now end-of-life record, each once; watch and low count the findings of that
  priority not hidden and not already counted; the end-of-life count is the records whose base image
  is not itself recorded end-of-life. A key is hidden only when this report shows it and every one of
  its groups is muted, and never when its record was held over from a failed scan.
\<close>

theorem Compute_open_counts:
  assumes "stateOk prev" "Compute prev r = (d, nxt)" "hid = hiddenKey (carriedCycle prev r)"
  shows "dfOpenActNow d = card {k. (\<exists>e. map_of (stFindings nxt) k = Some e \<and> etPriority e = PriorityActNow \<and> \<not> hid k)
            \<or> (\<exists>l. map_of (stEOLPackages nxt) k = Some l \<and> elPriority l = PriorityActNow)}
   \<and> dfOpenWatch d = card {k. (\<exists>e. map_of (stFindings nxt) k = Some e \<and> etPriority e = PriorityWatch \<and> \<not> hid k) \<and> \<not> eolActNow nxt k}
   \<and> dfOpenLow d = card {k. (\<exists>e. map_of (stFindings nxt) k = Some e \<and> etPriority e = PriorityLow \<and> \<not> hid k) \<and> \<not> eolActNow nxt k}
   \<and> dfOpenEOLPackages d = card {k. mhas (stEOLPackages nxt) k \<and> \<not> mhas (stEOSL nxt) (keyImage k)}
   \<and> (\<forall>k. hid k \<longrightarrow> allMuted (groupsAt [rpActionable r, rpWatch r, rpWontFix r] k)
        \<and> \<not> heldNow (cycleEnv (carried prev r) r) k)"
proof -
  have has: "mhas (stEOLPackages nxt) k \<longleftrightarrow> (\<exists>l. map_of (stEOLPackages nxt) k = Some l)" for k by (simp add: mhas_def)
  have "{k. (\<exists>e. map_of (stFindings nxt) k = Some e \<and> etPriority e = q \<and> \<not> hid k) \<and> \<not> eolActNow nxt k}
      = {k. \<exists>e. map_of (stFindings nxt) k = Some e \<and> etPriority e = q \<and> \<not> hid k \<and> \<not> eolActNow nxt k}" for q by auto
  then show ?thesis
    using Compute_counts [OF assms(1,2), folded assms(3)] hidden_shown(2,4) [OF assms(1) _ refl, where r = r, folded assms(3)]
    by (simp add: openCounts_def has eolActNow_iff)
qed

subsection \<open>Two cycles\<close>

definition sampleGroup :: "string \<Rightarrow> string \<Rightarrow> package_group" where
  "sampleGroup name cve = \<lparr>pgPackage = name, pgClass = ''os-pkgs'', pgInstalledVer = ''1'', pgFixedVer = ''2'', pgStatus = StatusFixed,
     pgRisk = RiskSafe, pgCritical = 1, pgHigh = 0, pgMedium = 0, pgLow = 0, pgUnknown = 0,
     pgVulns = [zeroVulnRef\<lparr>vrID := cve, vrPriority := PriorityActNow\<rparr>], pgPriority = PriorityActNow, pgURL = '''',
     pgEcosystem = ''debian'', pgInstances = [], pgLayerDiffIDs = [], pgRuntime = zeroRuntime, pgMuted = False, pgMutedReason = ''''\<rparr>"

definition sampleSeen :: "string \<Rightarrow> image_observation" where
  "sampleSeen ref = \<lparr>obRef = ref, obContentIDs = [], obRegistryDigests = [], obAmbiguous = False,
     obConfigIdentityResolved = False, obScanFailed = False, obPartialFailure = False, obUnconfirmed = False, obContainers = []\<rparr>"

definition sampleReport :: report where
  "sampleReport = \<lparr>rpImagesTotal = 2, rpEOSLImages = [], rpActionable =
       [\<lparr>ifImage = ''app:1'', ifSubject = zeroSubject, ifPinned = False, ifPackages = [sampleGroup ''openssl'' ''CVE-1''], ifContainers = []\<rparr>],
     rpWatch = [], rpWontFix = [], rpEOLPackages = [], rpScanErrors = [],
     rpImages = [sampleSeen ''app:1'', (sampleSeen ''db:1'')\<lparr>obScanFailed := True\<rparr>],
     rpUnconfirmedRefs = [], rpRuntimeUnchecked = [], rpTriage = True,
     rpIntel = \<lparr>itKEVOK = True, itEPSSOK = True, itStaleDays = 0\<rparr>, rpGeneratedAt = 9, rpEnvironment = zeroEnvironment,
     rpRuntime = None, rpGenericWebhookConfigured = False\<rparr>"

text \<open>Before: the finding the report shows, one it does not show, and one of an image whose scan failed.\<close>

definition sampleBefore :: state where
  "sampleBefore = emptyState\<lparr>
     stFindings := [(key ''app:1'' ''openssl'', zeroEntry\<lparr>etFirstSeen := 7, etVulnIDs := [''CVE-1''], etPriority := PriorityLow\<rparr>),
       (key ''app:1'' ''curl'', zeroEntry\<lparr>etFirstSeen := 5, etVulnIDs := [''CVE-2'']\<rparr>),
       (key ''db:1'' ''zlib'', zeroEntry\<lparr>etFirstSeen := 6, etVulnIDs := [''CVE-3'']\<rparr>)],
     stImages := [(''app:1'', zeroImageMeta), (''db:1'', zeroImageMeta)]\<rparr>"

lemma sampleBefore_ok: "stateOk sampleBefore"
  by (simp add: stateOk_def sampleBefore_def emptyState_def map_ok_def key_def)

lemma sampleBefore_cycle:
  "carried sampleBefore sampleReport = sampleBefore"
  "mkeys (stFindings (snd (Compute sampleBefore sampleReport))) = [key ''app:1'' ''openssl'', key ''db:1'' ''zlib'']"
  "mkeys (stEOLPackages (snd (Compute sampleBefore sampleReport))) = []"
  "map (\<lambda>c. (cgImage c, cgPackage c, cgKind c)) (dfChanges (fst (Compute sampleBefore sampleReport))) = [(''app:1'', ''openssl'', KindEscalated)]"
  "dfResolved (fst (Compute sampleBefore sampleReport)) = [\<lparr>rvImage = ''app:1'', rvPackage = ''curl''\<rparr>]"
  by code_simp+

theorem Compute_findings_accounted_witness:
  "{\<lparr>rvImage = keyImage k, rvPackage = keyPackage k\<rparr> | k. mhas (stFindings sampleBefore) k
       \<and> \<not> mhas (stFindings (snd (Compute sampleBefore sampleReport))) k
       \<and> \<not> mhas (stEOLPackages (snd (Compute sampleBefore sampleReport))) k}
     = {\<lparr>rvImage = ''app:1'', rvPackage = ''curl''\<rparr>}"
  using Compute_findings_accounted [OF sampleBefore_ok prod.collapse [symmetric] refl, of sampleReport] sampleBefore_cycle(1,5)
  by simp

theorem Compute_eol_accounted_witness:
  "{k. mhas (stEOSL (snd (Compute sampleBefore (sampleReport\<lparr>rpEOSLImages := [''app:1'']\<rparr>)))) k \<and> \<not> mhas (stEOSL sampleBefore) k} = {''app:1''}"
proof -
  define r where "r = sampleReport\<lparr>rpEOSLImages := [''app:1'']\<rparr>"
  have "carried sampleBefore r = sampleBefore" "dfNewEOSL (fst (Compute sampleBefore r)) = [''app:1'']"
    unfolding r_def by code_simp+
  with Compute_eol_accounted [OF sampleBefore_ok prod.collapse [symmetric] refl, of r] show ?thesis
    by (simp add: r_def)
qed

theorem Compute_failed_scan_holds_witness:
  "\<exists>e'. map_of (stFindings (snd (Compute sampleBefore sampleReport))) (key ''db:1'' ''zlib'') = Some e' \<and> etFirstSeen e' = 6"
proof -
  let ?cx = "cycleEnv (carried sampleBefore sampleReport) sampleReport" and ?k = "key ''db:1'' ''zlib''"
  have "map_of (stFindings (carried sampleBefore sampleReport)) ?k = Some (zeroEntry\<lparr>etFirstSeen := 6, etVulnIDs := [''CVE-3'']\<rparr>)"
    unfolding sampleBefore_cycle(1) by code_simp
  moreover have "\<not> mhas (cxCur ?cx) ?k \<and> fullyFailed ?cx ?k" unfolding sampleBefore_cycle(1) by code_simp
  ultimately show ?thesis
    using Compute_failed_scan_holds [OF sampleBefore_ok prod.collapse [symmetric] refl refl, of sampleReport ?k] by auto
qed

theorem Compute_repeated_quiet_witness:
  "HasChanges (fst (Compute sampleBefore sampleReport))
   \<and> \<not> HasChanges (fst (Compute (snd (Compute sampleBefore sampleReport)) (sampleReport\<lparr>rpGeneratedAt := 10\<rparr>)))"
proof
  show "HasChanges (fst (Compute sampleBefore sampleReport))" by (simp add: HasChanges_def sampleBefore_cycle(5))
  have "distinct (map obRef (rpImages sampleReport))" "rpRuntimeUnchecked sampleReport = []"
    by (simp_all add: sampleReport_def sampleSeen_def)
  then show "\<not> HasChanges (fst (Compute (snd (Compute sampleBefore sampleReport)) (sampleReport\<lparr>rpGeneratedAt := 10\<rparr>)))"
    by (intro Compute_repeated_quiet [OF sampleBefore_ok]) simp_all
qed

theorem Compute_open_counts_witness:
  "dfOpenActNow (fst (Compute sampleBefore sampleReport)) = 1
   \<and> (\<exists>A. card A = 1 \<and> key ''app:1'' ''openssl'' \<in> A
        \<and> (\<forall>k \<in> A. mhas (stFindings (snd (Compute sampleBefore sampleReport))) k \<or> mhas (stEOLPackages (snd (Compute sampleBefore sampleReport))) k))"
proof -
  have one: "dfOpenActNow (fst (Compute sampleBefore sampleReport)) = 1" by code_simp
  have act: "map_option etPriority (map_of (stFindings (snd (Compute sampleBefore sampleReport))) (key ''app:1'' ''openssl'')) = Some PriorityActNow"
    by code_simp
  have shown: "\<not> hiddenKey (carriedCycle sampleBefore sampleReport) (key ''app:1'' ''openssl'')" by code_simp
  let ?A = "{k. (\<exists>e. map_of (stFindings (snd (Compute sampleBefore sampleReport))) k = Some e \<and> etPriority e = PriorityActNow
       \<and> \<not> hiddenKey (carriedCycle sampleBefore sampleReport) k)
     \<or> (\<exists>l. map_of (stEOLPackages (snd (Compute sampleBefore sampleReport))) k = Some l \<and> elPriority l = PriorityActNow)}"
  have "card ?A = 1"
    using Compute_open_counts [OF sampleBefore_ok prod.collapse [symmetric] refl, of sampleReport] one by simp
  moreover have "key ''app:1'' ''openssl'' \<in> ?A" using act shown by auto
  moreover have "\<forall>k \<in> ?A. mhas (stFindings (snd (Compute sampleBefore sampleReport))) k \<or> mhas (stEOLPackages (snd (Compute sampleBefore sampleReport))) k"
    by (auto simp: mhas_def)
  ultimately show ?thesis using one by blast
qed

subsection \<open>A notice that repeats\<close>

definition sampleMutedBefore :: state where
  "sampleMutedBefore = emptyState\<lparr>
     stFindings := [(key ''app:1'' ''node'', zeroEntry\<lparr>etFirstSeen := 7, etFixable := True, etVulnIDs := [''CVE-1''], etPriority := PriorityActNow\<rparr>)],
     stEOLPackages := [(key ''app:1'' ''node'', zeroEOLEntry)], stMuted := [(key ''app:1'' ''node'', True)],
     stImages := [(''app:1'', zeroImageMeta)]\<rparr>"

definition sampleUncheckedReport :: report where
  "sampleUncheckedReport = sampleReport\<lparr>
     rpActionable := [\<lparr>ifImage = ''app:1'', ifSubject = zeroSubject, ifPinned = False, ifPackages = [sampleGroup ''node'' ''CVE-1''], ifContainers = []\<rparr>],
     rpImages := [sampleSeen ''app:1''], rpRuntimeUnchecked := [\<lparr>ruImage = ''app:1'', ruPackage = ''node''\<rparr>]\<rparr>"

text \<open>
  The hypothesis of the quiet repetition on unchecked runtimes is needed. A key that this report
  shows without muting, whose end-of-life record is held because its runtime was not checked, keeps
  its muting flag through the end-of-life carry-over although it was judged unmuted: the same report
  announces it as unmuted again on every cycle, and the flag never goes.
\<close>

lemma Compute_unmuted_repeats:
  "stateOk sampleMutedBefore
   \<and> map cgKind (dfChanges (fst (Compute sampleMutedBefore sampleUncheckedReport))) = [KindUnmuted]
   \<and> map cgKind (dfChanges (fst (Compute (snd (Compute sampleMutedBefore sampleUncheckedReport)) sampleUncheckedReport))) = [KindUnmuted]
   \<and> stMuted (snd (Compute (snd (Compute sampleMutedBefore sampleUncheckedReport)) sampleUncheckedReport))
       = stMuted (snd (Compute sampleMutedBefore sampleUncheckedReport))"
proof (intro conjI)
  show "stateOk sampleMutedBefore"
    by (simp add: stateOk_def sampleMutedBefore_def emptyState_def map_ok_def key_def)
  show "map cgKind (dfChanges (fst (Compute sampleMutedBefore sampleUncheckedReport))) = [KindUnmuted]" by code_simp
  show "map cgKind (dfChanges (fst (Compute (snd (Compute sampleMutedBefore sampleUncheckedReport)) sampleUncheckedReport))) = [KindUnmuted]"
    by code_simp
  show "stMuted (snd (Compute (snd (Compute sampleMutedBefore sampleUncheckedReport)) sampleUncheckedReport))
       = stMuted (snd (Compute sampleMutedBefore sampleUncheckedReport))" by code_simp
qed

end
