(* ===== verification/Exposure.thy ===== *)
theory Exposure
  imports Report "HOL-Library.Word"
begin

section \<open>Exposure and privilege of a running process\<close>

text \<open>
  \<open>internal/analyze/runtime_exposure.go\<close>: how far a process is reachable, from the listeners the
  sensor saw and the ports the container engine publishes, and whether it is highly privileged, from
  its capability mask. The standard library functions used here (\<open>strconv.ParseUint\<close>,
  \<open>strconv.Atoi\<close>, \<open>net.ParseIP\<close>, \<open>IP.IsLoopback\<close>) are defined first. The lemmas show that the
  verdicts are maxima: no listener, observation or record that is stronger is left out, and the order
  they are listed in does not matter.
\<close>

unbundle bit_operations_syntax

subsection \<open>Numbers as text\<close>

definition hexDigit :: "char \<Rightarrow> nat option" where
  "hexDigit c =
     (if isDigitByte c then Some (digitVal c)
      else if CHR ''a'' \<le> c \<and> c \<le> CHR ''f'' then Some (of_char c - 87)
      else if CHR ''A'' \<le> c \<and> c \<le> CHR ''F'' then Some (of_char c - 55)
      else None)"

fun hexVal :: "int \<Rightarrow> string \<Rightarrow> int option" where
  "hexVal acc [] = Some acc"
| "hexVal acc (c # cs) = (case hexDigit c of None \<Rightarrow> None | Some d \<Rightarrow> hexVal (16 * acc + int d) cs)"

definition ParseUint16_64 :: "string \<Rightarrow> 64 word option" where
  "ParseUint16_64 s =
     (if s = '''' then None
      else (case hexVal 0 s of None \<Rightarrow> None | Some n \<Rightarrow> if n < 2 ^ 64 then Some (of_int n) else None))"

definition Atoi :: "string \<Rightarrow> int option" where
  "Atoi s =
     (let neg = (s \<noteq> '''' \<and> hd s = CHR ''-'');
          ds = (if s \<noteq> '''' \<and> (hd s = CHR ''-'' \<or> hd s = CHR ''+'') then tl s else s) in
      if ds = '''' \<or> \<not> list_all isDigitByte ds then None
      else (let n = (if neg then - int (decVal ds) else int (decVal ds)) in
            if - (2 ^ 63) \<le> n \<and> n < 2 ^ 63 then Some n else None))"

definition ItoaInt :: "int \<Rightarrow> string" where
  "ItoaInt n = (if n < 0 then CHR ''-'' # itoa (nat (- n)) else itoa (nat n))"

subsection \<open>IP addresses\<close>

definition octet :: "string \<Rightarrow> nat option" where
  "octet s =
     (if s = '''' \<or> \<not> list_all isDigitByte s \<or> (length s > 1 \<and> hd s = CHR ''0'') \<or> decVal s > 255 then None
      else Some (decVal s))"

definition parseIPv4 :: "string \<Rightarrow> nat list option" where
  "parseIPv4 s =
     (case map octet (splitOn (CHR ''.'') s) of
        [Some a, Some b, Some c, Some d] \<Rightarrow> Some [a, b, c, d]
      | _ \<Rightarrow> None)"

text \<open>
  The loop of \<open>parseIPv6\<close>: \<open>ip\<close> holds the bytes so far and \<open>ell\<close> the position of a double colon. A
  group is at most four hexadecimal digits; a group followed by a dot starts a trailing IPv4 address.
\<close>

function ipv6Loop :: "nat list \<Rightarrow> nat option \<Rightarrow> string \<Rightarrow> (nat list \<times> nat option) option" where
  "ipv6Loop ip ell s =
     (if length ip \<ge> 16 then (if s = '''' then Some (ip, ell) else None)
      else (let digits = takeWhile (\<lambda>c. hexDigit c \<noteq> None) s; rest = dropWhile (\<lambda>c. hexDigit c \<noteq> None) s in
        if digits = '''' \<or> length digits > 4 then None
        else if rest \<noteq> '''' \<and> hd rest = CHR ''.'' then
          (if (ell = None \<and> length ip \<noteq> 12) \<or> length ip + 4 > 16 then None
           else (case parseIPv4 s of None \<Rightarrow> None | Some v4 \<Rightarrow> Some (ip @ v4, ell)))
        else (let v = (case hexVal 0 digits of Some n \<Rightarrow> nat n | None \<Rightarrow> 0); ip' = ip @ [v div 256, v mod 256] in
          if rest = '''' then Some (ip', ell)
          else if hd rest \<noteq> CHR '':'' \<or> length rest = 1 then None
          else (let s1 = tl rest in
            if hd s1 = CHR '':'' then
              (if ell \<noteq> None then None
               else if tl s1 = '''' then Some (ip', Some (length ip'))
               else ipv6Loop ip' (Some (length ip')) (tl s1))
            else ipv6Loop ip' ell s1))))"
  by pat_completeness auto

termination ipv6Loop
  by (relation "measure (\<lambda>(ip, ell, s). 16 - length ip)") auto

definition expandEllipsis :: "nat list \<times> nat option \<Rightarrow> nat list option" where
  "expandEllipsis r =
     (case r of (ip, ell) \<Rightarrow>
        if length ip < 16 then
          (case ell of None \<Rightarrow> None | Some e \<Rightarrow> Some (take e ip @ replicate (16 - length ip) 0 @ drop e ip))
        else if ell \<noteq> None then None else Some ip)"

definition parseIPv6 :: "string \<Rightarrow> nat list option" where
  "parseIPv6 s =
     (if take 2 s = ''::'' then
        (if length s = 2 then Some (replicate 16 0)
         else Option.bind (ipv6Loop [] (Some 0) (drop 2 s)) expandEllipsis)
      else Option.bind (ipv6Loop [] None s) expandEllipsis)"

definition v4In6Prefix :: "nat list" where
  "v4In6Prefix = replicate 10 0 @ [255, 255]"

text \<open>The first of the separators decides the family; an address with a zone is no IP for \<open>net.ParseIP\<close>.\<close>

definition ParseIP :: "string \<Rightarrow> nat list option" where
  "ParseIP s =
     (case dropWhile (\<lambda>c. c \<noteq> CHR ''.'' \<and> c \<noteq> CHR '':'' \<and> c \<noteq> CHR ''%'') s of
        [] \<Rightarrow> None
      | c # _ \<Rightarrow>
          if c = CHR ''.'' then map_option (\<lambda>v4. v4In6Prefix @ v4) (parseIPv4 s)
          else if c = CHR '':'' then (if CHR ''%'' \<in> set s then None else parseIPv6 s)
          else None)"

definition IsLoopback :: "nat list \<Rightarrow> bool" where
  "IsLoopback ip = (if take 12 ip = v4In6Prefix then ip ! 12 = 127 else ip = replicate 15 0 @ [1])"

subsection \<open>Capabilities\<close>

definition dangerousCapBits :: "nat list" where
  "dangerousCapBits = [21, 19, 16, 12, 2, 1, 7, 6]"

definition hasDangerousCapability :: "string \<Rightarrow> bool" where
  "hasDangerousCapability capEffHex =
     (case ParseUint16_64 capEffHex of
        None \<Rightarrow> False
      | Some v \<Rightarrow> list_ex (\<lambda>b. v AND push_bit b 1 \<noteq> 0) dangerousCapBits)"

definition dangerousCapNamesTable :: "(nat \<times> string) list" where
  "dangerousCapNamesTable =
     [(21, ''CAP_SYS_ADMIN''), (19, ''CAP_SYS_PTRACE''), (16, ''CAP_SYS_MODULE''), (12, ''CAP_NET_ADMIN''),
      (2, ''CAP_DAC_READ_SEARCH''), (1, ''CAP_DAC_OVERRIDE''), (7, ''CAP_SETUID''), (6, ''CAP_SETGID'')]"

definition dangerousCapNames :: "string \<Rightarrow> string list" where
  "dangerousCapNames capEffHex =
     (case ParseUint16_64 capEffHex of
        None \<Rightarrow> []
      | Some v \<Rightarrow> sort (map snd (filter (\<lambda>(b, name). v AND push_bit b 1 \<noteq> 0) dangerousCapNamesTable)))"

definition highPrivilege :: "process_observation \<Rightarrow> bool \<Rightarrow> bool" where
  "highPrivilege obs privileged =
     (if privileged then True
      else if hasDangerousCapability (poCapEff obs) then True
      else poEffectiveUID obs = 0 \<and> \<not> poUserns obs)"

subsection \<open>Listeners and published ports\<close>

record port_binding =
  pbHostIP :: string
  pbHostPort :: string

record inspect_result =
  nsID :: string
  nsImage :: digest
  nsNetworkMode :: string
  nsPrivileged :: bool
  nsPorts :: "(string, port_binding list) gmap"
  nsStartedAt :: gtime
  nsPid :: int

definition parseListener :: "string \<Rightarrow> (string \<times> string \<times> int) option" where
  "parseListener s =
     (case indexByte s (CHR '':'') of
        None \<Rightarrow> None
      | Some i \<Rightarrow>
          (let kind = take i s; rest = drop (i + 1) s in
           case lastIndexByte rest (CHR '':'') of
             None \<Rightarrow> None
           | Some j \<Rightarrow>
               (case Atoi (drop (j + 1) rest) of None \<Rightarrow> None | Some p \<Rightarrow> Some (kind, take j rest, p))))"

definition dockerProto :: "string \<Rightarrow> string" where
  "dockerProto kind = (if kind = ''tcp6'' \<or> kind = '''' then ''tcp'' else kind)"

definition formatPort :: "string \<Rightarrow> string" where
  "formatPort l =
     (case parseListener l of
        None \<Rightarrow> l
      | Some (kind, addr, port) \<Rightarrow> addr @ '':'' @ ItoaInt port @ ''/'' @ dockerProto kind)"

definition formatPorts :: "string list \<Rightarrow> string list" where
  "formatPorts listeners = map formatPort listeners"

definition dockerPortKey :: "string \<Rightarrow> int \<Rightarrow> string" where
  "dockerPortKey kind port =
     (let proto = (if kind = ''tcp6'' \<or> kind = '''' then ''tcp'' else kind) in ItoaInt port @ ''/'' @ proto)"

definition anyAllInterfaces :: "port_binding list \<Rightarrow> bool" where
  "anyAllInterfaces bindings =
     list_ex (\<lambda>b. pbHostIP b = '''' \<or> pbHostIP b = ''0.0.0.0'' \<or> pbHostIP b = ''::'') bindings"

definition allLoopback :: "port_binding list \<Rightarrow> bool" where
  "allLoopback bindings =
     (if bindings = [] then False
      else list_all (\<lambda>b. case ParseIP (pbHostIP b) of None \<Rightarrow> False | Some ip \<Rightarrow> IsLoopback ip) bindings)"

definition listenerStage :: "inspect_result \<Rightarrow> string \<times> string \<times> int \<Rightarrow> string" where
  "listenerStage insp = (\<lambda>(kind, addr, port).
     (case map_of (nsPorts insp) (dockerPortKey kind port) of
        None \<Rightarrow> ExposureUnknown
      | Some bindings \<Rightarrow>
          if bindings = [] then ExposureContainerListening
          else if anyAllInterfaces bindings then ExposureHostPublishedAll
          else if allLoopback bindings then ExposureHostPublishedLoopback
          else ExposureUnknown))"

definition exposureStep :: "inspect_result \<Rightarrow> string \<Rightarrow> string \<Rightarrow> string" where
  "exposureStep insp best l =
     (case parseListener l of
        None \<Rightarrow> best
      | Some p \<Rightarrow>
          if exposureRank (listenerStage insp p) > exposureRank best then listenerStage insp p else best)"

definition exposureOfListeners :: "string list \<Rightarrow> inspect_result \<Rightarrow> string" where
  "exposureOfListeners listeners insp =
     (if nsNetworkMode insp = ''host'' then ExposureUnknown
      else if nsNetworkMode insp = ''none'' then
        (if listeners \<noteq> [] then ExposureContainerListening else ExposureUnknown)
      else foldl (exposureStep insp) ExposureUnknown listeners)"

subsection \<open>The strongest observation\<close>

record combo =
  coObs :: process_observation
  coExposure :: string
  coHighPriv :: bool

definition comboOf :: "inspect_result \<Rightarrow> process_observation \<Rightarrow> combo" where
  "comboOf insp ob =
     \<lparr>coObs = ob, coExposure = exposureOfListeners (poListeners ob) insp, coHighPriv = highPrivilege ob (nsPrivileged insp)\<rparr>"

definition strongerCombo :: "combo \<Rightarrow> combo \<Rightarrow> bool" where
  "strongerCombo a b =
     (if exposureRank (coExposure a) \<noteq> exposureRank (coExposure b)
      then exposureRank (coExposure a) > exposureRank (coExposure b)
      else if coHighPriv a \<noteq> coHighPriv b then coHighPriv a
      else False)"

definition comboScore :: "string \<Rightarrow> bool \<Rightarrow> int" where
  "comboScore exposure highPriv = (let score = exposureRank exposure * 2 in if highPriv then score + 1 else score)"

definition strongestCombo :: "process_observation list \<Rightarrow> inspect_result \<Rightarrow> combo option" where
  "strongestCombo observations insp =
     (case observations of
        [] \<Rightarrow> None
      | ob # obs \<Rightarrow>
          Some (foldl (\<lambda>best ob'. if strongerCombo (comboOf insp ob') best then comboOf insp ob' else best) (comboOf insp ob) obs))"

record evidence_source =
  esKinds :: "string list"
  esObservations :: "process_observation list"
  esLastSeen :: gtime
  esAmbiguous :: bool

definition sourceStep :: "inspect_result \<Rightarrow> (combo \<times> evidence_source) option \<Rightarrow> evidence_source \<Rightarrow> (combo \<times> evidence_source) option" where
  "sourceStep insp acc s =
     (case strongestCombo (esObservations s) insp of
        None \<Rightarrow> acc
      | Some c \<Rightarrow>
          (case acc of
             None \<Rightarrow> Some (c, s)
           | Some (best, src) \<Rightarrow> if strongerCombo c best then Some (c, s) else acc))"

definition strongestSource :: "evidence_source list \<Rightarrow> inspect_result \<Rightarrow> (combo \<times> evidence_source) option" where
  "strongestSource sources insp = foldl (sourceStep insp) None sources"

subsection \<open>The verdicts are maxima\<close>

lemma exposureRank_simps [simp]:
  "exposureRank ExposureUnknown = 0" "exposureRank ExposureContainerListening = 1"
  "exposureRank ExposureHostPublishedLoopback = 2" "exposureRank ExposureHostPublishedAll = 3"
  by (simp_all add: exposureRank_def exposureRanks_def mget_def)

lemma exposureRank_bounds: "0 \<le> exposureRank e \<and> exposureRank e \<le> 3"
  by (simp add: exposureRank_def exposureRanks_def mget_def)

lemma Max_insert_max: "finite A \<Longrightarrow> Max (insert (max a b) A) = Max (insert a (insert b (A :: int set)))"
  by (cases "A = {}") (simp_all add: max.assoc)

lemma foldl_max:
  fixes rank :: "'a \<Rightarrow> int"
  assumes "\<And>b x. rank (f b x) = (if D x then max (rank b) (val x) else rank b)"
  shows "rank (foldl f b xs) = Max (insert (rank b) (val ` {x \<in> set xs. D x}))"
proof (induction xs arbitrary: b)
  case (Cons x xs)
  have "{y \<in> set (x # xs). D y} = (if D x then insert x {y \<in> set xs. D y} else {y \<in> set xs. D y})" by auto
  then show ?case using Cons.IH [of "f b x"] assms Max_insert_max [of "val ` {y \<in> set xs. D y}" "rank b" "val x"]
    by (simp del: set_simps Max_insert)
qed simp

text \<open>
  The exposure of a process is the strongest stage any of its listeners reaches: its rank is the
  maximum over the listeners that parse, at least unknown, whatever order the sensor listed them in;
  on a host network it is always unknown.
\<close>

lemma exposureOfListeners_strongest:
  "exposureRank (exposureOfListeners ls insp) =
     (if nsNetworkMode insp = ''host'' then 0
      else if nsNetworkMode insp = ''none'' then (if ls = [] then 0 else 1)
      else Max (insert 0 {exposureRank (listenerStage insp p) | l p. l \<in> set ls \<and> parseListener l = Some p}))"
proof -
  let ?val = "\<lambda>l. exposureRank (listenerStage insp (the (parseListener l)))"
  have step: "exposureRank (exposureStep insp b l) = (if parseListener l \<noteq> None then max (exposureRank b) (?val l) else exposureRank b)"
    for b l by (auto simp: exposureStep_def split: option.split)
  have "?val ` {l \<in> set ls. parseListener l \<noteq> None} =
      {exposureRank (listenerStage insp p) | l p. l \<in> set ls \<and> parseListener l = Some p}" by force
  then show ?thesis
    using foldl_max [where rank = exposureRank and f = "exposureStep insp" and D = "\<lambda>l. parseListener l \<noteq> None" and val = ?val, OF step]
    by (simp add: exposureOfListeners_def)
qed

lemma strongerCombo_score:
  "strongerCombo a b \<longleftrightarrow> comboScore (coExposure a) (coHighPriv a) > comboScore (coExposure b) (coHighPriv b)"
  by (auto simp: strongerCombo_def comboScore_def Let_def)

definition scoreOf :: "inspect_result \<Rightarrow> process_observation \<Rightarrow> int" where
  "scoreOf insp ob = comboScore (coExposure (comboOf insp ob)) (coHighPriv (comboOf insp ob))"

lemma strongest_fold:
  assumes "c = foldl (\<lambda>best ob'. if strongerCombo (comboOf insp ob') best then comboOf insp ob' else best) (comboOf insp ob) obs"
  shows "(\<exists>ob' \<in> set (ob # obs). c = comboOf insp ob')
     \<and> (\<forall>ob' \<in> set (ob # obs). scoreOf insp ob' \<le> comboScore (coExposure c) (coHighPriv c))"
  using assms
proof (induction obs arbitrary: c rule: rev_induct)
  case (snoc x xs)
  show ?case
    using snoc.IH [OF refl] snoc.prems by (force simp: strongerCombo_score scoreOf_def)
qed (simp add: scoreOf_def)

lemma strongestCombo_max:
  "strongestCombo obs insp = Some c \<Longrightarrow>
     (\<exists>ob \<in> set obs. c = comboOf insp ob) \<and> (\<forall>ob \<in> set obs. scoreOf insp ob \<le> comboScore (coExposure c) (coHighPriv c))"
  "strongestCombo obs insp = None \<longleftrightarrow> obs = []"
  using strongest_fold by (auto simp: strongestCombo_def split: list.splits)

definition picked :: "inspect_result \<Rightarrow> evidence_source list \<Rightarrow> (combo \<times> evidence_source) option \<Rightarrow> bool" where
  "picked insp srcs r =
     (case r of
        None \<Rightarrow> (\<forall>s \<in> set srcs. esObservations s = [])
      | Some (c, s) \<Rightarrow> s \<in> set srcs \<and> (\<exists>ob \<in> set (esObservations s). c = comboOf insp ob)
          \<and> (\<forall>s' \<in> set srcs. \<forall>ob \<in> set (esObservations s'). scoreOf insp ob \<le> comboScore (coExposure c) (coHighPriv c)))"

lemma picked_step:
  assumes "picked insp xs acc"
  shows "picked insp (xs @ [x]) (sourceStep insp acc x)"
proof (cases "strongestCombo (esObservations x) insp")
  case None
  then have "esObservations x = []" by (simp add: strongestCombo_max(2))
  with assms None show ?thesis by (auto simp: sourceStep_def picked_def split: option.splits)
next
  case (Some c)
  note best = strongestCombo_max(1) [OF Some]
  show ?thesis
  proof (cases acc)
    case None
    with assms Some best show ?thesis by (auto simp: sourceStep_def picked_def)
  next
    case acc: (Some r)
    obtain c0 s0 where r: "r = (c0, s0)" by (cases r)
    show ?thesis
    proof (cases "strongerCombo c c0")
      case True
      then have "picked insp (xs @ [x]) (Some (c, x))"
        using assms acc r best by (fastforce simp: picked_def strongerCombo_score)
      with Some acc r True show ?thesis by (simp add: sourceStep_def)
    next
      case False
      then have "picked insp (xs @ [x]) acc"
        using assms acc r best by (fastforce simp: picked_def strongerCombo_score not_less)
      with Some acc r False show ?thesis by (simp add: sourceStep_def)
    qed
  qed
qed

lemma picked_strongest: "picked insp srcs (strongestSource srcs insp)"
proof (induction srcs rule: rev_induct)
  case Nil
  show ?case by (simp add: strongestSource_def picked_def)
next
  case (snoc x xs)
  then show ?case using picked_step by (simp add: strongestSource_def)
qed

text \<open>
  The process shown for a package is the strongest one observed, together with the record it came
  from: whatever is picked is one of the sources, with one of that source's own observations, and no
  observation of any source has a higher exposure, or the same exposure and a higher privilege.
  Nothing is picked only when no source has an observation.
\<close>

lemma strongestSource_strongest:
  "(strongestSource srcs insp = None \<longleftrightarrow> (\<forall>s \<in> set srcs. esObservations s = []))
   \<and> (\<forall>c s. strongestSource srcs insp = Some (c, s) \<longrightarrow>
        s \<in> set srcs \<and> (\<exists>ob \<in> set (esObservations s). c = comboOf insp ob)
        \<and> (\<forall>s' \<in> set srcs. \<forall>ob \<in> set (esObservations s'). \<not> strongerCombo (comboOf insp ob) c))"
proof -
  have some: "s \<in> set srcs \<and> (\<exists>ob \<in> set (esObservations s). c = comboOf insp ob)
        \<and> (\<forall>s' \<in> set srcs. \<forall>ob \<in> set (esObservations s'). \<not> strongerCombo (comboOf insp ob) c)"
    if "strongestSource srcs insp = Some (c, s)" for c s
    using picked_strongest [of insp srcs] that by (auto simp: picked_def strongerCombo_score scoreOf_def not_less)
  moreover have "strongestSource srcs insp = None \<longleftrightarrow> (\<forall>s \<in> set srcs. esObservations s = [])"
  proof (cases "strongestSource srcs insp")
    case None
    then show ?thesis using picked_strongest [of insp srcs] by (simp add: picked_def)
  next
    case (Some cs)
    then obtain c s where "strongestSource srcs insp = Some (c, s)" by (cases cs) auto
    from some [OF this] this show ?thesis by fastforce
  qed
  ultimately show ?thesis by blast
qed

text \<open>
  The names reported for a capability mask are exactly the dangerous capabilities whose bit is set
  in the 64-bit mask, and there is one to report exactly when the mask counts as dangerous. A text
  that is no 64-bit hexadecimal number is neither.
\<close>

lemma dangerousCapNames_bits:
  "(name \<in> set (dangerousCapNames s) \<longleftrightarrow>
      (\<exists>v b. ParseUint16_64 s = Some v \<and> (b, name) \<in> set dangerousCapNamesTable \<and> bit v b))
   \<and> (hasDangerousCapability s \<longleftrightarrow> dangerousCapNames s \<noteq> [])"
proof -
  have b: "v AND push_bit n 1 \<noteq> 0 \<longleftrightarrow> bit v n" for v :: "64 word" and n
    by (simp add: bit_iff_and_push_bit_not_eq_0)
  have bits: "map fst dangerousCapNamesTable = dangerousCapBits" by (simp add: dangerousCapNamesTable_def dangerousCapBits_def)
  have names: "name \<in> set (dangerousCapNames s) \<longleftrightarrow>
      (\<exists>v b. ParseUint16_64 s = Some v \<and> (b, name) \<in> set dangerousCapNamesTable \<and> bit v b)" for name
    using b by (force simp: dangerousCapNames_def split: option.split)
  have "hasDangerousCapability s \<longleftrightarrow> (\<exists>v. ParseUint16_64 s = Some v \<and> (\<exists>e \<in> set dangerousCapNamesTable. bit v (fst e)))"
    using b by (auto simp: hasDangerousCapability_def bits [symmetric] list_ex_iff split: option.split)
  moreover have "dangerousCapNames s \<noteq> [] \<longleftrightarrow> (\<exists>name. name \<in> set (dangerousCapNames s))" by (cases "dangerousCapNames s") auto
  ultimately have "hasDangerousCapability s \<longleftrightarrow> dangerousCapNames s \<noteq> []" unfolding names by fastforce
  then show ?thesis using names by simp
qed

subsection \<open>A published service\<close>

definition sampleInspect :: inspect_result where
  "sampleInspect = \<lparr>nsID = ''c1'', nsImage = zeroDigest, nsNetworkMode = ''bridge'', nsPrivileged = False,
     nsPorts = [(''443/tcp'', [\<lparr>pbHostIP = ''0.0.0.0'', pbHostPort = ''443''\<rparr>]),
                (''80/tcp'', [\<lparr>pbHostIP = ''127.0.0.1'', pbHostPort = ''80''\<rparr>, \<lparr>pbHostIP = ''::1'', pbHostPort = ''80''\<rparr>])],
     nsStartedAt = 0, nsPid = 17\<rparr>"

definition sampleProcess :: "string \<Rightarrow> string list \<Rightarrow> process_observation" where
  "sampleProcess exe listeners =
     \<lparr>poExe = exe, poEffectiveUID = 1000, poUserns = False, poCapEff = ''0000000000000000'', poListeners = listeners, poLastSeen = 3\<rparr>"

definition sampleSource :: evidence_source where
  "sampleSource = \<lparr>esKinds = [''exe''], esObservations = [sampleProcess ''/bin/worker'' [''tcp:127.0.0.1:80''],
     sampleProcess ''/bin/web'' [''tcp6:::443'', ''tcp:0.0.0.0:81'']], esLastSeen = 3, esAmbiguous = False\<rparr>"

lemma sample_exposures:
  "exposureOfListeners [''tcp:127.0.0.1:80''] sampleInspect = ExposureHostPublishedLoopback"
  "exposureOfListeners [''tcp6:::443'', ''tcp:0.0.0.0:81''] sampleInspect = ExposureHostPublishedAll"
  by code_simp+

end
