(* ===== verification/Runtime_Attach.thy ===== *)
theory Runtime_Attach
  imports Analyze Exposure
begin

section \<open>Runtime verdicts on a report\<close>

text \<open>
  \<open>internal/analyze/runtime.go\<close>, \<open>AttachRuntime\<close>: each package group of a report gets the usage
  verdict of the containers that run its image. A container is judged only by the evidence
  generation that is verified to be the one running now, and a verdict weaker than in use is
  withdrawn when the sensor cannot support it. The lemmas show when a group counts as in use, as not
  observed or as unknown, that only a verified generation is used, and where the verification of the
  start time fails.
\<close>

subsection \<open>Matching a generation\<close>

definition starttimeTick :: int where
  "starttimeTick = 10 * 1000000"

definition starttimeMatchTolerance :: int where
  "starttimeMatchTolerance = 2 * second"

definition unavailableReason :: "runtime_info \<Rightarrow> string" where
  "unavailableReason rt = (if inNotReporting rt then ReasonSensorNotReporting else ReasonEvidenceInvalid)"

record generation_inspect =
  giByContainer :: "(string, inspect_result) gmap"
  giBootTime :: gtime

definition zeroInspect :: inspect_result where
  "zeroInspect = \<lparr>nsID = '''', nsImage = zeroDigest, nsNetworkMode = '''', nsPrivileged = False, nsPorts = [],
     nsStartedAt = 0, nsPid = 0\<rparr>"

definition inspect :: "generation_inspect \<Rightarrow> string \<Rightarrow> inspect_result \<times> bool" where
  "inspect gi i = (mget zeroInspect (giByContainer gi) i, mhas (giByContainer gi) i)"

definition imageMatchesSubject :: "inspect_result \<Rightarrow> image_subject \<Rightarrow> bool" where
  "imageMatchesSubject insp subject =
     (if \<not> isResolved subject \<or> dgKind (ekDigest (isKey subject)) \<noteq> DigestConfig then False
      else dgKind (nsImage insp) = DigestConfig \<and> Digest_String (nsImage insp) = Digest_String (ekDigest (isKey subject)))"

text \<open>The distance of the two start times in 64-bit nanoseconds; the negation wraps at the least value.\<close>

definition startDiff :: "gtime \<Rightarrow> int \<Rightarrow> gtime \<Rightarrow> int" where
  "startDiff bootTime starttime startedAt =
     (let wallStart = bootTime + wrap64 (starttime * starttimeTick); diff = timeSub wallStart startedAt in
      if diff < 0 then wrap64 (- diff) else diff)"

fun matchLoop :: "bool \<Rightarrow> generation list \<Rightarrow> string \<Rightarrow> inspect_result \<Rightarrow> image_subject \<Rightarrow> gtime \<Rightarrow> string + generation" where
  "matchLoop sawID [] i insp subject bootTime =
     (if sawID then Inl ReasonGenerationUnverified else Inl ReasonContainerNotObserved)"
| "matchLoop sawID (g # gens) i insp subject bootTime =
     (if crRuntime (gnContainer g) \<noteq> ''docker'' \<or> crID (gnContainer g) \<noteq> i then matchLoop sawID gens i insp subject bootTime
      else if ipPID (gnInit g) \<noteq> nsPid insp then matchLoop True gens i insp subject bootTime
      else if startDiff bootTime (ipStarttime (gnInit g)) (nsStartedAt insp) > starttimeMatchTolerance
      then matchLoop True gens i insp subject bootTime
      else if \<not> imageMatchesSubject insp subject then Inl ReasonGenerationUnverified
      else Inr g)"

definition matchGeneration ::
    "generation list \<Rightarrow> string \<Rightarrow> inspect_result \<Rightarrow> image_subject \<Rightarrow> gtime \<Rightarrow> string + generation" where
  "matchGeneration gens i insp subject bootTime =
     (if i = '''' then Inl ReasonContainerNotObserved
      else if bootTime = 0 then Inl ReasonGenerationUnverified
      else matchLoop False gens i insp subject bootTime)"

subsection \<open>Sources of an in-use verdict\<close>

definition maxKindLastSeen :: "(string, kind_observation) gmap \<Rightarrow> gtime" where
  "maxKindLastSeen kinds = foldl (\<lambda>latest (k, ob). if koLastSeen ob > latest then koLastSeen ob else latest) 0 kinds"

definition maxLangKindLastSeen :: "(string, kind_observation) gmap \<Rightarrow> gtime" where
  "maxLangKindLastSeen kinds =
     (let l1 = (case map_of kinds KindExe of Some k \<Rightarrow> if koLastSeen k > 0 then koLastSeen k else 0 | None \<Rightarrow> 0) in
      case map_of kinds KindExecEvent of Some k \<Rightarrow> if koLastSeen k > l1 then koLastSeen k else l1 | None \<Rightarrow> l1)"

definition maxSourceLastSeen :: "evidence_source list \<Rightarrow> gtime" where
  "maxSourceLastSeen sources = foldl (\<lambda>latest s. if esLastSeen s > latest then esLastSeen s else latest) 0 sources"

definition mergedSourceKinds :: "evidence_source list \<Rightarrow> string list" where
  "mergedSourceKinds sources = sort (foldl (\<lambda>set s. foldl (\<lambda>set k. setAdd k set) set (esKinds s)) [] sources)"

fun distinctExesLoop :: "string list \<Rightarrow> process_observation list \<Rightarrow> string list" where
  "distinctExesLoop out [] = out"
| "distinctExesLoop out (ob # obs) =
     (if poExe ob = '''' \<or> poExe ob \<in> set out then distinctExesLoop out obs else distinctExesLoop (out @ [poExe ob]) obs)"

definition distinctExes :: "process_observation list \<Rightarrow> string list" where
  "distinctExes obs = distinctExesLoop [] obs"

definition evidenceKindsOf :: "(string, kind_observation) gmap \<Rightarrow> string list" where
  "evidenceKindsOf kinds = sort (mkeys kinds)"

definition langKindsOf :: "(string, kind_observation) gmap \<Rightarrow> bool \<Rightarrow> string list" where
  "langKindsOf kinds embedded =
     (if mhas kinds KindExe then [if embedded then KindBinaryRunning else KindRuntimeRunning] else [])
     @ (if mhas kinds KindExecEvent then [if embedded then KindBinaryExecuted else KindRuntimeExecuted] else [])"

fun osPackageSourcesLoop :: "os_package_evidence list \<Rightarrow> package_ref \<Rightarrow> evidence_source list" where
  "osPackageSourcesLoop [] ref = []"
| "osPackageSourcesLoop (p # ps) ref =
     (if oeName p = prName ref \<and> oeVersion p = prVersion ref then
        [\<lparr>esKinds = evidenceKindsOf (oeKinds p), esObservations = oeObservations p, esLastSeen = maxKindLastSeen (oeKinds p),
          esAmbiguous = (length (evidenceKindsOf (oeKinds p)) > 1)\<rparr>]
      else osPackageSourcesLoop ps ref)"

definition osPackageSources :: "generation \<Rightarrow> package_ref \<Rightarrow> evidence_source list" where
  "osPackageSources gen ref = osPackageSourcesLoop (gnOSPackages gen) ref"

definition normalizeRuntimePath :: "string \<Rightarrow> string" where
  "normalizeRuntimePath p = (if p \<noteq> '''' \<and> hd p = CHR ''/'' then tl p else p)"

definition executableSource :: "bool \<Rightarrow> executable_evidence \<Rightarrow> evidence_source" where
  "executableSource embedded exe =
     \<lparr>esKinds = langKindsOf (eeKinds exe) embedded, esObservations = eeObservations exe,
      esLastSeen = maxLangKindLastSeen (eeKinds exe), esAmbiguous = False\<rparr>"

definition executableSourcesForTarget :: "generation \<Rightarrow> string \<Rightarrow> bool \<Rightarrow> evidence_source list" where
  "executableSourcesForTarget gen target embedded =
     (if target = '''' then []
      else (let norm = normalizeRuntimePath target in
        map (executableSource embedded) (filter (\<lambda>exe. normalizeRuntimePath (eePath exe) = norm) (gnExecutables gen))))"

definition executableSourcesForEcosystem :: "generation \<Rightarrow> string \<Rightarrow> evidence_source list" where
  "executableSourcesForEcosystem gen eco =
     map (executableSource False) (filter (\<lambda>exe. RuntimeNameMatches eco (eePath exe)) (gnExecutables gen))"

definition instanceVerdictAndSources :: "package_group \<Rightarrow> instanceOf \<Rightarrow> generation \<Rightarrow> verdict \<times> evidence_source list" where
  "instanceVerdictAndSources g inst gen =
     (if pgClass g = ClassOS then
        (let v = JudgeOSPackage gen (PackageGroup_PackageRef g) in
         (v, if vdUsage v = UsageInUse then osPackageSources gen (PackageGroup_PackageRef g) else []))
      else if IsEmbeddedEcosystem (pgEcosystem g) then
        (let v = JudgeEmbeddedBinary gen (icTarget inst) in
         (v, if vdUsage v = UsageInUse then executableSourcesForTarget gen (icTarget inst) True else []))
      else
        (let v = JudgeRuntimeLoaded gen (pgEcosystem g) in
         (v, if vdUsage v = UsageInUse then executableSourcesForEcosystem gen (pgEcosystem g) else [])))"

subsection \<open>Judging a group\<close>

definition sensorWideStatus :: "runtime_info \<Rightarrow> gtime \<Rightarrow> string option \<times> bool" where
  "sensorWideStatus rt now =
     (let stale = IsStale (siHeartbeatAt (inSensor rt)) now (siIntervalSeconds (inSensor rt)) in
      if siStatus (inSensor rt) = SensorIsolationFailed then (Some ReasonIsolationFailed, stale)
      else if siStatus (inSensor rt) = SensorPermissionDenied then (Some ReasonPermissionDenied, stale)
      else (None, stale))"

definition zeroProcess :: container_process where
  "zeroProcess = \<lparr>cpExe = '''', cpEffectiveUID = 0, cpUserns = False, cpDangerousCaps = [], cpPrivileged = False\<rparr>"

definition zeroContainerRuntime :: container_runtime where
  "zeroContainerRuntime = \<lparr>cnContainerID = '''', cnName = '''', cnGenerationStartedAt = 0, cnUsage = '''', cnReason = '''',
     cnEvidenceKinds = [], cnKindsAmbiguous = False, cnProcessExes = [], cnLastSeen = 0, cnPorts = [], cnExposure = '''',
     cnHighPrivilege = False, cnHasProcess = False, cnProcess = zeroProcess, cnInstances = []\<rparr>"

definition buildContainerRuntime ::
    "container \<Rightarrow> generation option \<Rightarrow> verdict \<Rightarrow> evidence_source list \<Rightarrow> inspect_result \<Rightarrow> container_runtime" where
  "buildContainerRuntime c gen cv sources insp =
     (let cr0 = zeroContainerRuntime\<lparr>cnContainerID := ctID c, cnName := ctName c, cnUsage := vdUsage cv, cnReason := vdReason cv\<rparr>;
          cr = (case gen of
                  Some g \<Rightarrow> cr0\<lparr>cnGenerationStartedAt := gnStartedAt g, cnLastSeen := gnLastVerifiedAt g\<rparr>
                | None \<Rightarrow> cr0) in
      if vdUsage cv \<noteq> UsageInUse then cr
      else (case strongestSource sources insp of
              None \<Rightarrow> cr\<lparr>cnEvidenceKinds := mergedSourceKinds sources, cnLastSeen := maxSourceLastSeen sources\<rparr>
            | Some (best, src) \<Rightarrow>
                cr\<lparr>cnEvidenceKinds := esKinds src, cnKindsAmbiguous := esAmbiguous src,
                   cnProcessExes := (if esAmbiguous src then distinctExes (esObservations src) else []),
                   cnExposure := coExposure best, cnHighPrivilege := coHighPriv best, cnLastSeen := poLastSeen (coObs best),
                   cnPorts := formatPorts (poListeners (coObs best)), cnHasProcess := True,
                   cnProcess := \<lparr>cpExe = poExe (coObs best), cpEffectiveUID = poEffectiveUID (coObs best),
                     cpUserns = poUserns (coObs best), cpDangerousCaps = dangerousCapNames (poCapEff (coObs best)),
                     cpPrivileged = nsPrivileged insp\<rparr>\<rparr>))"

text \<open>The inputs of a cycle every container is judged with.\<close>

record runtime_env =
  reInfo :: runtime_info
  reSnap :: snapshot
  reInspect :: generation_inspect
  reNow :: gtime

definition withdraw :: "runtime_env \<Rightarrow> generation \<Rightarrow> verdict \<Rightarrow> verdict" where
  "withdraw env gen v =
     (case sensorWideStatus (reInfo env) (reNow env) of (forced, sensorStale) \<Rightarrow>
        if vdUsage v \<noteq> UsageInUse then
          (case forced of
             Some reason \<Rightarrow> unavailableVerdict reason (gnEventsCoverage gen)
           | None \<Rightarrow>
               if vdUsage v = UsageNotObserved
                  \<and> (sensorStale \<or> \<not> GenerationFresh gen (reNow env) (siIntervalSeconds (ssSensor (reSnap env))))
               then unavailableVerdict ReasonSensorStale (gnEventsCoverage gen) else v)
        else v)"

definition instanceRuntime :: "instanceOf \<Rightarrow> verdict \<Rightarrow> instance_runtime" where
  "instanceRuntime inst v =
     \<lparr>nrType = icType inst, nrTarget = icTarget inst, nrPkgPath = icPkgPath inst, nrUsage = vdUsage v, nrReason = vdReason v\<rparr>"

definition judgeInstances :: "runtime_env \<Rightarrow> package_group \<Rightarrow> generation \<Rightarrow> (instanceOf \<times> verdict \<times> evidence_source list) list" where
  "judgeInstances env g gen =
     map (\<lambda>inst. case instanceVerdictAndSources g inst gen of (v, srcs) \<Rightarrow> (inst, withdraw env gen v, srcs)) (pgInstances g)"

definition matchFor :: "runtime_env \<Rightarrow> image_subject \<Rightarrow> container \<Rightarrow> string + generation" where
  "matchFor env subject c =
     matchGeneration (ssGenerations (reSnap env)) (ctID c) (fst (inspect (reInspect env) (ctID c))) subject
       (giBootTime (reInspect env))"

definition judgeContainer :: "runtime_env \<Rightarrow> package_group \<Rightarrow> image_subject \<Rightarrow> container \<Rightarrow> verdict \<times> container_runtime" where
  "judgeContainer env g subject c =
     (let insp = fst (inspect (reInspect env) (ctID c)) in
      case matchFor env subject c of
        Inr gen \<Rightarrow>
          (let js = judgeInstances env g gen;
               cv = ProjectGroup (map (\<lambda>(inst, v, srcs). v) js);
               pool = concat (map (\<lambda>(inst, v, srcs). if vdUsage v = UsageInUse then srcs else []) js);
               cr = buildContainerRuntime c (Some gen) cv pool insp in
           (cv, cr\<lparr>cnInstances := (if pgClass g = ClassLang then map (\<lambda>(inst, v, srcs). instanceRuntime inst v) js else [])\<rparr>))
      | Inl reason0 \<Rightarrow>
          (let reason = (case fst (sensorWideStatus (reInfo env) (reNow env)) of Some f \<Rightarrow> f | None \<Rightarrow> reason0);
               v = unavailableVerdict reason '''';
               cv = ProjectGroup [v];
               cr = buildContainerRuntime c None cv [] insp in
           (cv, cr\<lparr>cnInstances := (if pgClass g = ClassLang then map (\<lambda>inst. instanceRuntime inst v) (pgInstances g) else [])\<rparr>)))"

definition lessContainerRT :: "container_runtime \<Rightarrow> container_runtime \<Rightarrow> bool" where
  "lessContainerRT a b =
     (let ai = (cnUsage a = UsageInUse); bi = (cnUsage b = UsageInUse) in
      if ai \<noteq> bi then ai
      else if ai \<and> comboScore (cnExposure a) (cnHighPrivilege a) \<noteq> comboScore (cnExposure b) (cnHighPrivilege b)
      then comboScore (cnExposure a) (cnHighPrivilege a) > comboScore (cnExposure b) (cnHighPrivilege b)
      else cnContainerID a < cnContainerID b)"

definition groupRuntime :: "runtime_env \<Rightarrow> package_group \<Rightarrow> image_subject \<Rightarrow> container list \<Rightarrow> runtime_verdict" where
  "groupRuntime env g subject containers =
     (if inLoadFailed (reInfo env) \<or> inNotReporting (reInfo env) then
        zeroRuntime\<lparr>rtUsage := UsageUnavailable, rtReason := unavailableReason (reInfo env)\<rparr>
      else
        (let judged = map (judgeContainer env g subject) (filter (\<lambda>c. \<not> ctRuntimeExcluded c) containers);
             rts = sortBy lessContainerRT (map snd judged);
             agg = ProjectGroup (map fst judged);
             shown = (vdUsage agg = UsageInUse \<and> rts \<noteq> [] \<and> cnUsage (hd rts) = UsageInUse) in
         \<lparr>rtUsage = vdUsage agg, rtReason = vdReason agg, rtEvidenceKinds = vdEvidenceKinds agg,
          rtEventsCoverage = vdEventsCoverage agg,
          rtExposure = (if shown then cnExposure (hd rts) else ExposureUnknown),
          rtHighPrivilege = (if shown then cnHighPrivilege (hd rts) else False),
          rtContainers = rts\<rparr>))"

definition attachImage :: "runtime_env \<Rightarrow> image_findings \<Rightarrow> image_findings" where
  "attachImage env img =
     img\<lparr>ifPackages := map (\<lambda>g. g\<lparr>pgRuntime := groupRuntime env g (ifSubject img) (ifContainers img)\<rparr>) (ifPackages img)\<rparr>"

definition AttachRuntime :: "report \<Rightarrow> runtime_info \<Rightarrow> snapshot \<Rightarrow> generation_inspect \<Rightarrow> gtime \<Rightarrow> report" where
  "AttachRuntime r rt snap insp now =
     (let env = \<lparr>reInfo = rt, reSnap = snap, reInspect = insp, reNow = now\<rparr> in
      r\<lparr>rpRuntime := Some rt, rpActionable := map (attachImage env) (rpActionable r),
        rpWatch := map (attachImage env) (rpWatch r), rpWontFix := map (attachImage env) (rpWontFix r),
        rpEOLPackages := map (attachImage env) (rpEOLPackages r)\<rparr>)"

subsection \<open>When a group counts as in use\<close>

lemma ProjectGroup_usage:
  "vdUsage (ProjectGroup vs) = UsageInUse \<longleftrightarrow> (\<exists>v \<in> set vs. vdUsage v = UsageInUse)"
  "vdUsage (ProjectGroup vs) = UsageNotObserved \<longleftrightarrow>
     vs \<noteq> [] \<and> (\<forall>v \<in> set vs. vdUsage v \<noteq> UsageInUse \<and> vdUsage v \<noteq> UsageUnavailable)"
  "vdUsage (ProjectGroup vs) \<in> {UsageInUse, UsageUnavailable, UsageNotObserved}"
  using mergeInUse_spec [OF kindsState_start, of False vs] strongestLoop_least [of None vs]
  by (auto simp: ProjectGroup_def strongestUnavailableReason_def split: option.splits)

lemma judge_usages:
  "vdUsage (JudgeOSPackage gen ref) \<in> {UsageInUse, UsageUnavailable, UsageNotObserved}"
  "vdUsage (languageVerdict gen r) \<in> {UsageInUse, UsageUnavailable, UsageNotObserved}"
  by (simp_all add: JudgeOSPackage_def languageVerdict_def split: option.split prod.split)

lemma instanceVerdict_usage:
  "vdUsage (fst (instanceVerdictAndSources g inst gen)) \<in> {UsageInUse, UsageUnavailable, UsageNotObserved}"
proof -
  have "vdUsage (JudgeEmbeddedBinary gen t) \<in> {UsageInUse, UsageUnavailable, UsageNotObserved}" for t
    unfolding JudgeEmbeddedBinary_def Let_def using judge_usages(2) by simp
  moreover have "vdUsage (JudgeRuntimeLoaded gen e) \<in> {UsageInUse, UsageUnavailable, UsageNotObserved}" for e
    unfolding JudgeRuntimeLoaded_def using judge_usages(2) by simp
  ultimately show ?thesis
    using judge_usages(1) by (simp only: instanceVerdictAndSources_def Let_def fst_conv split: if_split) blast
qed

lemma withdraw_usage:
  "vdUsage (withdraw env gen v) = UsageInUse \<longleftrightarrow> vdUsage v = UsageInUse"
  "vdUsage v \<in> {UsageInUse, UsageUnavailable, UsageNotObserved} \<Longrightarrow>
     vdUsage (withdraw env gen v) \<noteq> UsageInUse \<and> vdUsage (withdraw env gen v) \<noteq> UsageUnavailable \<longleftrightarrow>
       vdUsage v = UsageNotObserved \<and> sensorWideStatus (reInfo env) (reNow env) = (None, False)
          \<and> GenerationFresh gen (reNow env) (siIntervalSeconds (ssSensor (reSnap env)))"
  by (auto simp: withdraw_def split: option.splits prod.splits)

lemma judgeContainer_verdict:
  "fst (judgeContainer env g subject c) =
     (case matchFor env subject c of
        Inr gen \<Rightarrow> ProjectGroup (map (\<lambda>inst. withdraw env gen (fst (instanceVerdictAndSources g inst gen))) (pgInstances g))
      | Inl reason \<Rightarrow> ProjectGroup [unavailableVerdict (case fst (sensorWideStatus (reInfo env) (reNow env)) of Some f \<Rightarrow> f | None \<Rightarrow> reason) ''''])"
  by (auto simp: judgeContainer_def Let_def judgeInstances_def case_prod_unfold comp_def split: sum.splits intro!: arg_cong [where f = ProjectGroup])

lemma container_in_use:
  "vdUsage (fst (judgeContainer env g subject c)) = UsageInUse \<longleftrightarrow>
     (\<exists>gen. matchFor env subject c = Inr gen
        \<and> (\<exists>inst \<in> set (pgInstances g). vdUsage (fst (instanceVerdictAndSources g inst gen)) = UsageInUse))"
  by (auto simp: judgeContainer_verdict ProjectGroup_usage withdraw_usage split: sum.splits)

lemma container_not_observed:
  "vdUsage (fst (judgeContainer env g subject c)) = UsageNotObserved \<longleftrightarrow>
     (\<exists>gen. matchFor env subject c = Inr gen \<and> pgInstances g \<noteq> []
        \<and> (\<forall>inst \<in> set (pgInstances g). vdUsage (fst (instanceVerdictAndSources g inst gen)) = UsageNotObserved)
        \<and> sensorWideStatus (reInfo env) (reNow env) = (None, False)
        \<and> GenerationFresh gen (reNow env) (siIntervalSeconds (ssSensor (reSnap env))))"
proof (cases "matchFor env subject c")
  case (Inr gen)
  have "(\<forall>v \<in> set (map (\<lambda>inst. withdraw env gen (fst (instanceVerdictAndSources g inst gen))) (pgInstances g)).
        vdUsage v \<noteq> UsageInUse \<and> vdUsage v \<noteq> UsageUnavailable)
      \<longleftrightarrow> (\<forall>inst \<in> set (pgInstances g). vdUsage (fst (instanceVerdictAndSources g inst gen)) = UsageNotObserved
        \<and> sensorWideStatus (reInfo env) (reNow env) = (None, False)
        \<and> GenerationFresh gen (reNow env) (siIntervalSeconds (ssSensor (reSnap env))))"
    using withdraw_usage(2) [OF instanceVerdict_usage] by simp
  with Inr show ?thesis by (cases "pgInstances g") (auto simp: judgeContainer_verdict ProjectGroup_usage)
qed (simp add: judgeContainer_verdict ProjectGroup_usage)

text \<open>
  C34. With evidence loaded, a group is in use exactly when some container of its image, not excluded
  and matched to its running generation, shows one of its instances in use; sensor trouble never
  hides that. It is not observed exactly when there is a container to judge and every one of them is
  matched to a fresh generation that observed no instance, from a healthy sensor with a recent
  heartbeat. In every other case the usage is unknown.
\<close>

theorem groupRuntime_usage:
  assumes "\<not> inLoadFailed (reInfo env)" "\<not> inNotReporting (reInfo env)"
  shows "(rtUsage (groupRuntime env g subject cs) = UsageInUse \<longleftrightarrow>
       (\<exists>c \<in> set cs. \<not> ctRuntimeExcluded c \<and> (\<exists>gen. matchFor env subject c = Inr gen
          \<and> (\<exists>inst \<in> set (pgInstances g). vdUsage (fst (instanceVerdictAndSources g inst gen)) = UsageInUse))))
    \<and> (rtUsage (groupRuntime env g subject cs) = UsageNotObserved \<longleftrightarrow>
       (\<exists>c \<in> set cs. \<not> ctRuntimeExcluded c)
       \<and> (\<forall>c \<in> set cs. \<not> ctRuntimeExcluded c \<longrightarrow> (\<exists>gen. matchFor env subject c = Inr gen \<and> pgInstances g \<noteq> []
            \<and> (\<forall>inst \<in> set (pgInstances g). vdUsage (fst (instanceVerdictAndSources g inst gen)) = UsageNotObserved)
            \<and> sensorWideStatus (reInfo env) (reNow env) = (None, False)
            \<and> GenerationFresh gen (reNow env) (siIntervalSeconds (ssSensor (reSnap env))))))
    \<and> rtUsage (groupRuntime env g subject cs) \<in> {UsageInUse, UsageUnavailable, UsageNotObserved}"
proof -
  let ?vs = "map (\<lambda>c. fst (judgeContainer env g subject c)) (filter (\<lambda>c. \<not> ctRuntimeExcluded c) cs)"
  have u: "rtUsage (groupRuntime env g subject cs) = vdUsage (ProjectGroup ?vs)"
    using assms by (simp add: groupRuntime_def Let_def comp_def)
  have three: "vdUsage (fst (judgeContainer env g subject c)) \<in> {UsageInUse, UsageUnavailable, UsageNotObserved}" for c
    using ProjectGroup_usage(3) by (simp add: judgeContainer_verdict split: sum.split)
  have not: "(vdUsage (fst (judgeContainer env g subject c)) \<noteq> UsageInUse \<and> vdUsage (fst (judgeContainer env g subject c)) \<noteq> UsageUnavailable)
      \<longleftrightarrow> vdUsage (fst (judgeContainer env g subject c)) = UsageNotObserved" for c
    using three [of c] by auto
  show ?thesis
  proof (intro conjI)
    show "rtUsage (groupRuntime env g subject cs) = UsageInUse \<longleftrightarrow> (\<exists>c \<in> set cs. \<not> ctRuntimeExcluded c \<and> (\<exists>gen. matchFor env subject c = Inr gen
          \<and> (\<exists>inst \<in> set (pgInstances g). vdUsage (fst (instanceVerdictAndSources g inst gen)) = UsageInUse)))"
      unfolding u ProjectGroup_usage(1) container_in_use [symmetric] by auto
    have "rtUsage (groupRuntime env g subject cs) = UsageNotObserved \<longleftrightarrow> (\<exists>c \<in> set cs. \<not> ctRuntimeExcluded c)
        \<and> (\<forall>c \<in> set cs. \<not> ctRuntimeExcluded c \<longrightarrow> vdUsage (fst (judgeContainer env g subject c)) = UsageNotObserved)"
      unfolding u ProjectGroup_usage(2) not [symmetric] by (auto simp: filter_empty_conv)
    then show "rtUsage (groupRuntime env g subject cs) = UsageNotObserved \<longleftrightarrow> (\<exists>c \<in> set cs. \<not> ctRuntimeExcluded c)
       \<and> (\<forall>c \<in> set cs. \<not> ctRuntimeExcluded c \<longrightarrow> (\<exists>gen. matchFor env subject c = Inr gen \<and> pgInstances g \<noteq> []
            \<and> (\<forall>inst \<in> set (pgInstances g). vdUsage (fst (instanceVerdictAndSources g inst gen)) = UsageNotObserved)
            \<and> sensorWideStatus (reInfo env) (reNow env) = (None, False)
            \<and> GenerationFresh gen (reNow env) (siIntervalSeconds (ssSensor (reSnap env)))))"
      unfolding container_not_observed .
    show "rtUsage (groupRuntime env g subject cs) \<in> {UsageInUse, UsageUnavailable, UsageNotObserved}"
      unfolding u by (rule ProjectGroup_usage(3))
  qed
qed

subsection \<open>One container speaks for the group\<close>

lemma strict_weak_lessContainerRT: "strict_weak lessContainerRT"
proof -
  let ?f = "\<lambda>a. if cnUsage a = UsageInUse then 0 else 1 :: int"
  let ?g = "\<lambda>a. if cnUsage a = UsageInUse then - comboScore (cnExposure a) (cnHighPrivilege a) else 0"
  have eq: "lessContainerRT = ltThen (\<lambda>a b. ?f a < ?f b) (ltThen (\<lambda>a b. ?g a < ?g b) (\<lambda>a b. cnContainerID a < cnContainerID b))"
    by (intro ext) (auto simp: lessContainerRT_def ltThen_def Let_def)
  show ?thesis unfolding eq by (intro strict_weak_ltThen strict_weak_key)
qed

lemma judgeContainer_usage: "cnUsage (snd (judgeContainer env g subject c)) = vdUsage (fst (judgeContainer env g subject c))"
  by (simp add: judgeContainer_def Let_def buildContainerRuntime_def split: sum.split option.split prod.split)

text \<open>
  When a group is in use, the exposure and privilege shown for it are those of one and the same
  container that is in use, and no other in-use container has a stronger combination; when it is not
  in use, none is shown.
\<close>

lemma groupRuntime_display:
  "(if rtUsage (groupRuntime env g subject cs) = UsageInUse
    then \<exists>cr \<in> set (rtContainers (groupRuntime env g subject cs)).
       cnUsage cr = UsageInUse \<and> cnExposure cr = rtExposure (groupRuntime env g subject cs)
       \<and> cnHighPrivilege cr = rtHighPrivilege (groupRuntime env g subject cs)
       \<and> (\<forall>cr' \<in> set (rtContainers (groupRuntime env g subject cs)). cnUsage cr' = UsageInUse \<longrightarrow>
            comboScore (cnExposure cr') (cnHighPrivilege cr') \<le> comboScore (cnExposure cr) (cnHighPrivilege cr))
    else exposureRank (rtExposure (groupRuntime env g subject cs)) = 0 \<and> \<not> rtHighPrivilege (groupRuntime env g subject cs))"
proof (cases "inLoadFailed (reInfo env) \<or> inNotReporting (reInfo env)")
  case True
  then show ?thesis by (simp add: groupRuntime_def zeroRuntime_def exposureRank_def exposureRanks_def mget_def)
next
  case False
  define judged where "judged = map (judgeContainer env g subject) (filter (\<lambda>c. \<not> ctRuntimeExcluded c) cs)"
  define rts where "rts = sortBy lessContainerRT (map snd judged)"
  have r: "groupRuntime env g subject cs = (let agg = ProjectGroup (map fst judged);
        shown = (vdUsage agg = UsageInUse \<and> rts \<noteq> [] \<and> cnUsage (hd rts) = UsageInUse) in
         \<lparr>rtUsage = vdUsage agg, rtReason = vdReason agg, rtEvidenceKinds = vdEvidenceKinds agg,
          rtEventsCoverage = vdEventsCoverage agg,
          rtExposure = (if shown then cnExposure (hd rts) else ExposureUnknown),
          rtHighPrivilege = (if shown then cnHighPrivilege (hd rts) else False), rtContainers = rts\<rparr>)"
    using False by (simp add: groupRuntime_def judged_def rts_def Let_def)
  show ?thesis
  proof (cases "vdUsage (ProjectGroup (map fst judged)) = UsageInUse")
    case True
    have "\<exists>j \<in> set judged. cnUsage (snd j) = UsageInUse"
      using True by (auto simp: ProjectGroup_usage judged_def judgeContainer_usage)
    then obtain x where x: "x \<in> set rts" "cnUsage x = UsageInUse" by (auto simp: rts_def)
    then obtain y ys where ys: "rts = y # ys" by (cases rts) auto
    have sorted: "sorted_wrt (\<lambda>a b. \<not> lessContainerRT b a) (y # ys)"
      using strict_weak.sorted_sortBy [OF strict_weak_lessContainerRT, of "map snd judged"] unfolding rts_def [symmetric] ys .
    then have first: "\<not> lessContainerRT z y" if "z \<in> set ys" for z using that by simp
    have y: "cnUsage y = UsageInUse" using first [of x] x ys by (auto simp: lessContainerRT_def Let_def split: if_splits)
    have "comboScore (cnExposure z) (cnHighPrivilege z) \<le> comboScore (cnExposure y) (cnHighPrivilege y)"
      if "z \<in> set rts" "cnUsage z = UsageInUse" for z
      using first [of z] that y ys by (auto simp: lessContainerRT_def Let_def split: if_splits)
    then show ?thesis using True y by (auto simp: r Let_def ys)
  qed (simp add: r Let_def)
qed

subsection \<open>Only the running generation is used\<close>

lemma matchLoop_Inr:
  "matchLoop saw gens i insp subject bt = Inr g \<Longrightarrow>
     g \<in> set gens \<and> crRuntime (gnContainer g) = ''docker'' \<and> crID (gnContainer g) = i \<and> ipPID (gnInit g) = nsPid insp
     \<and> startDiff bt (ipStarttime (gnInit g)) (nsStartedAt insp) \<le> starttimeMatchTolerance \<and> imageMatchesSubject insp subject"
  by (induction gens arbitrary: saw) (auto split: if_splits)

lemma startDiff_exact:
  assumes "0 \<le> st" "st * starttimeTick < 2 ^ 62" "\<bar>bt - sa\<bar> < 2 ^ 62"
  shows "startDiff bt st sa = \<bar>bt + st * starttimeTick - sa\<bar>"
proof -
  have "0 \<le> st * starttimeTick" using assms(1) by (simp add: starttimeTick_def)
  then have w: "wrap64 (st * starttimeTick) = st * starttimeTick" using assms(2) by (intro wrap64_id) auto
  have "\<bar>bt + st * starttimeTick - sa\<bar> < 2 ^ 63" using assms \<open>0 \<le> st * starttimeTick\<close> by auto
  then show ?thesis by (simp add: startDiff_def Let_def w timeSub_def wrap64_id)
qed

text \<open>The 64-bit test without bounds: near the wrapped start, or so far before that the negation wraps.\<close>

lemma startDiff_near:
  "startDiff bt st sa \<le> starttimeMatchTolerance \<longleftrightarrow>
     \<bar>bt + wrap64 (st * starttimeTick) - sa\<bar> \<le> starttimeMatchTolerance \<or> bt + wrap64 (st * starttimeTick) - sa \<le> - (2 ^ 63)"
proof -
  define x where "x = bt + wrap64 (st * starttimeTick) - sa"
  have t: "starttimeMatchTolerance < (2::int) ^ 62" "0 \<le> starttimeMatchTolerance" by (simp_all add: starttimeMatchTolerance_def second_def)
  have d: "startDiff bt st sa = (let y = timeSub x 0 in if y < 0 then wrap64 (- y) else y)"
    by (simp add: startDiff_def Let_def timeSub_def x_def)
  consider "x \<le> - (2 ^ 63)" | "- (2 ^ 63) < x" "x < 2 ^ 63" | "2 ^ 63 \<le> x" by linarith
  then show ?thesis
  proof cases
    case 1
    then show ?thesis using t unfolding d x_def [symmetric] by (simp add: timeSub_def wrap64_def)
  next
    case 2
    then have "startDiff bt st sa = \<bar>x\<bar>" unfolding d by (simp add: timeSub_def wrap64_id)
    then show ?thesis using 2 by (simp add: x_def)
  next
    case 3
    then show ?thesis using t unfolding d x_def [symmetric] by (simp add: timeSub_def)
  qed
qed

text \<open>
  C35. A container is judged only by evidence checked to be its own: the generation matched is one of
  the snapshot's, of the same container and init process, and the engine runs exactly the image that was
  scanned. A container the engine does not report, or an unknown boot time, matches nothing. The start is
  compared in 64-bit nanoseconds: in general the wrapped start is within the tolerance of the time the engine
  reports or at least \<open>2^63\<close> nanoseconds before it; with a start time below \<open>2^62\<close> nanoseconds and clocks less
  than that apart, the true start is within the tolerance.
\<close>

theorem matchGeneration_verified:
  assumes "matchGeneration gens i insp subject bt = Inr g" "st = ipStarttime (gnInit g)" "sa = nsStartedAt insp"
  shows "g \<in> set gens \<and> crRuntime (gnContainer g) = ''docker'' \<and> crID (gnContainer g) = i \<and> i \<noteq> '''' \<and> bt \<noteq> 0
    \<and> insp \<noteq> zeroInspect \<and> ipPID (gnInit g) = nsPid insp
    \<and> (\<bar>bt + wrap64 (st * starttimeTick) - sa\<bar> \<le> starttimeMatchTolerance \<or> bt + wrap64 (st * starttimeTick) - sa \<le> - (2 ^ 63))
    \<and> (0 \<le> st \<and> st * starttimeTick < 2 ^ 62 \<and> \<bar>bt - sa\<bar> < 2 ^ 62 \<longrightarrow> \<bar>bt + st * starttimeTick - sa\<bar> \<le> starttimeMatchTolerance)
    \<and> isResolved subject \<and> Digest_String (nsImage insp) = Digest_String (ekDigest (isKey subject))
    \<and> dgKind (nsImage insp) = DigestConfig"
proof -
  have m: "matchLoop False gens i insp subject bt = Inr g" "i \<noteq> ''''" "bt \<noteq> 0"
    using assms(1) by (auto simp: matchGeneration_def split: if_splits)
  note l = matchLoop_Inr [OF m(1), folded assms(2,3)]
  have "imageMatchesSubject insp subject" using l by blast
  then have im: "isResolved subject" "dgKind (nsImage insp) = DigestConfig" "Digest_String (nsImage insp) = Digest_String (ekDigest (isKey subject))"
    by (auto simp: imageMatchesSubject_def split: if_splits)
  then have "insp \<noteq> zeroInspect" by (auto simp: zeroInspect_def zeroDigest_def DigestUnknown_def DigestConfig_def)
  moreover have "\<bar>bt + st * starttimeTick - sa\<bar> \<le> starttimeMatchTolerance" if "0 \<le> st" "st * starttimeTick < 2 ^ 62" "\<bar>bt - sa\<bar> < 2 ^ 62"
    using l startDiff_exact [OF that] by simp
  ultimately show ?thesis using l m im startDiff_near [of bt st sa] by simp
qed

subsection \<open>A running container\<close>

definition sampleDigest :: digest where
  "sampleDigest = \<lparr>dgKind = DigestConfig, dgAlgorithm = ''sha256'', dgHex = ''aa''\<rparr>"

definition sampleSubject :: image_subject where
  "sampleSubject = \<lparr>isRef = ''app:1'', isKey = \<lparr>ekDigest = sampleDigest, ekPlatform = zeroPlatform\<rparr>, isResolved = True\<rparr>"

definition sampleGeneration :: "int \<Rightarrow> generation" where
  "sampleGeneration ticks = \<lparr>gnContainer = \<lparr>crRuntime = ''docker'', crID = ''c1'', crNamespace = '''', crPod = '''', crContainer = ''''\<rparr>,
     gnInit = \<lparr>ipPID = 17, ipStarttime = ticks\<rparr>, gnStartedAt = 1, gnEndedAt = None, gnLastVerifiedAt = 60 * second, gnState = StateObserving,
     gnPackageDB = \<lparr>dbKind = ''dpkg'', dbStatus = DBStatusOK, dbNoFileList = []\<rparr>, gnIncomplete = False, gnTruncated = False,
     gnEventsCoverage = CoverageSinceStart, gnEventsLost = 0, gnParseFailed = [],
     gnOSPackages = [\<lparr>oeName = ''openssl'', oeVersion = ''1'', oeKinds = [(KindExe, \<lparr>koFirstSeen = 1, koLastSeen = 2, koSamples = 1, koCount = 1\<rparr>)],
       oeObservations = [sampleProcess ''/bin/web'' [''tcp6:::443'']]\<rparr>],
     gnUnavailable = [], gnExecutables = []\<rparr>"

definition sampleEngine :: inspect_result where
  "sampleEngine = sampleInspect\<lparr>nsImage := sampleDigest, nsStartedAt := 51 * second\<rparr>"

lemma sample_match: "matchGeneration [sampleGeneration 100] ''c1'' sampleEngine sampleSubject (50 * second) = Inr (sampleGeneration 100)"
  by (simp add: matchGeneration_def sampleGeneration_def sampleEngine_def sampleInspect_def startDiff_def Let_def timeSub_def
      wrap64_def starttimeTick_def starttimeMatchTolerance_def second_def imageMatchesSubject_def sampleSubject_def sampleDigest_def)

theorem matchGeneration_verified_witness:
  "\<bar>50 * second + 100 * starttimeTick - 51 * second\<bar> \<le> starttimeMatchTolerance \<and> sampleEngine \<noteq> zeroInspect"
  using matchGeneration_verified [OF sample_match refl refl]
  by (simp add: sampleGeneration_def sampleEngine_def starttimeTick_def second_def)

text \<open>
  The bounds on the start time are needed. The evidence file is not bounded in this field, the
  multiplication by the tick wraps in 64 bits, and negating the least 64-bit duration leaves it
  negative: with the start time below, about 292 years after boot in ticks, the wrapped start lies
  more than the range of a duration before the start the engine reports, and the generation is
  accepted as the running one.
\<close>

lemma matchGeneration_overflow:
  "matchGeneration [sampleGeneration 922337203686] ''c1'' sampleEngine sampleSubject (50 * second) = Inr (sampleGeneration 922337203686)
   \<and> 50 * second + 922337203686 * starttimeTick - nsStartedAt sampleEngine > 292 * 365 * 24 * 60 * 60 * second"
  by (simp add: matchGeneration_def sampleGeneration_def sampleEngine_def sampleInspect_def startDiff_def Let_def timeSub_def
      wrap64_def starttimeTick_def starttimeMatchTolerance_def second_def imageMatchesSubject_def sampleSubject_def sampleDigest_def)

definition sampleSensor :: sensor_info where
  "sampleSensor = \<lparr>siVersion = ''1'', siSessionID = ''s'', siSessionStartedAt = 1, siHeartbeatAt = 60 * second, siIntervalSeconds = 10,
     siIsolation = \<lparr>ioNoNewPrivs = True, ioNonDumpable = True, ioSeccomp = True, ioLandlockABI = 1\<rparr>, siStatus = ''observing'',
     siEvents = \<lparr>evStatus = '''', evReason = '''', evAttachedAt = 0, evLost = 0, evUnclassified = 0, evKernelLost = 0\<rparr>\<rparr>"

definition sampleEnv :: runtime_env where
  "sampleEnv = \<lparr>reInfo = \<lparr>inSensor = sampleSensor, inLoadFailed = False, inNotReporting = False\<rparr>,
     reSnap = \<lparr>ssSchema = 1, ssSensor = sampleSensor, ssGenerations = [sampleGeneration 100]\<rparr>,
     reInspect = \<lparr>giByContainer = [(''c1'', sampleEngine)], giBootTime = 50 * second\<rparr>, reNow = 61 * second\<rparr>"

definition sampleGroupOf :: "string \<Rightarrow> package_group" where
  "sampleGroupOf version = (newGroup StatusAffected sampleFinding)\<lparr>pgPackage := ''openssl'', pgClass := ClassOS, pgInstalledVer := version,
     pgInstances := [instanceFor sampleFinding]\<rparr>"

definition sampleWeb :: container where
  "sampleWeb = sampleContainer\<lparr>ctID := ''c1''\<rparr>"

lemma sample_matchFor: "matchFor sampleEnv sampleSubject sampleWeb = Inr (sampleGeneration 100)"
  using sample_match by (simp add: matchFor_def sampleEnv_def inspect_def sampleWeb_def sampleContainer_def mget_def)

lemma sample_judge: "vdUsage (fst (instanceVerdictAndSources (sampleGroupOf ''1'') (instanceFor sampleFinding) (sampleGeneration 100))) = UsageInUse"
  by code_simp

theorem groupRuntime_usage_witness:
  "rtUsage (groupRuntime sampleEnv (sampleGroupOf ''1'') sampleSubject [sampleWeb]) = UsageInUse"
proof -
  have "\<not> inLoadFailed (reInfo sampleEnv)" "\<not> inNotReporting (reInfo sampleEnv)" "\<not> ctRuntimeExcluded sampleWeb"
    "pgInstances (sampleGroupOf ''1'') = [instanceFor sampleFinding]"
    by (simp_all add: sampleEnv_def sampleWeb_def sampleContainer_def sampleGroupOf_def)
  with groupRuntime_usage [of sampleEnv "sampleGroupOf ''1''" sampleSubject "[sampleWeb]"] sample_matchFor sample_judge
  show ?thesis by simp
qed

end
