(* ===== verification/Muting.thy ===== *)
theory Muting
  imports Runtime_Attach State_Data
begin

section \<open>Muting what has no fix and is not in use\<close>

text \<open>
  \<open>internal/analyze/runtime.go\<close>, \<open>ApplyMuting\<close>: the groups of an image and package are muted
  together, when every one of them qualifies and the reference was scanned completely. The lemmas show
  that the two passes over the report implement this all-or-nothing rule, and that nothing urgent,
  fixable, end-of-life, in use or too young is ever muted.
\<close>

definition muteObservationWindow :: int where
  "muteObservationWindow = 7 * 24 * 60 * 60 * second"

abbreviation MutedNoFixNotInUse7d :: string where "MutedNoFixNotInUse7d \<equiv> ''no_fix_not_in_use_7d''"

definition muteKey :: "string \<Rightarrow> string \<Rightarrow> string" where
  "muteKey img pkg = img @ [tab] @ pkg"

definition eligibleForMuting :: "package_group \<Rightarrow> gtime \<Rightarrow> bool" where
  "eligibleForMuting g now =
     (if pgStatus g \<noteq> StatusAffected \<and> pgStatus g \<noteq> StatusWontFix then False
      else if rtUsage (pgRuntime g) \<noteq> UsageNotObserved then False
      else if pgPriority g = PriorityActNow then False
      else if rtContainers (pgRuntime g) = [] then False
      else list_all (\<lambda>c. \<not> (cnGenerationStartedAt c = 0 \<or> timeSub now (cnGenerationStartedAt c) < muteObservationWindow))
             (rtContainers (pgRuntime g)))"

definition heldRefs :: "image_observation list \<Rightarrow> string list" where
  "heldRefs obs =
     foldl (\<lambda>s ob. if obScanFailed ob \<or> obPartialFailure ob \<or> obUnconfirmed ob then setAdd (obRef ob) s else s) [] obs"

definition eligibleStep :: "string list \<Rightarrow> gtime \<Rightarrow> string \<Rightarrow> (string, bool) gmap \<Rightarrow> package_group \<Rightarrow> (string, bool) gmap" where
  "eligibleStep held now img m g =
     (let k = muteKey img (pgPackage g); m1 = (if mhas m k then m else mput k True m) in
      if img \<in> set held \<or> \<not> eligibleForMuting g now then mput k False m1 else m1)"

definition keyEligible :: "report \<Rightarrow> gtime \<Rightarrow> (string, bool) gmap" where
  "keyEligible r now =
     foldl (\<lambda>m sec. foldl (\<lambda>m img. foldl (eligibleStep (heldRefs (rpImages r)) now (ifImage img)) m (ifPackages img)) m sec)
       [] (sections r)"

definition muteImage :: "(string, bool) gmap \<Rightarrow> image_findings \<Rightarrow> image_findings" where
  "muteImage elig img =
     img\<lparr>ifPackages := map (\<lambda>g. if mget False elig (muteKey (ifImage img) (pgPackage g))
        then g\<lparr>pgMuted := True, pgMutedReason := MutedNoFixNotInUse7d\<rparr> else g) (ifPackages img)\<rparr>"

definition ApplyMuting :: "report \<Rightarrow> gtime \<Rightarrow> report" where
  "ApplyMuting r now =
     (if rpRuntime r = None then r
      else (let elig = keyEligible r now in
        r\<lparr>rpActionable := map (muteImage elig) (rpActionable r), rpWatch := map (muteImage elig) (rpWatch r),
          rpWontFix := map (muteImage elig) (rpWontFix r), rpEOLPackages := map (muteImage elig) (rpEOLPackages r)\<rparr>))"

subsection \<open>The rule\<close>

lemma muteKey_key: "muteKey = key"
  by (intro ext) (simp add: muteKey_def key_def)

definition groupsOf :: "report \<Rightarrow> (string \<times> package_group) list" where
  "groupsOf r = concat (map (\<lambda>img. map (\<lambda>g. (ifImage img, g)) (ifPackages img)) (concat (sections r)))"

definition qualifies :: "report \<Rightarrow> gtime \<Rightarrow> string \<times> package_group \<Rightarrow> bool" where
  "qualifies r now ig \<longleftrightarrow>
     \<not> (\<exists>ob \<in> set (rpImages r). obRef ob = fst ig \<and> (obScanFailed ob \<or> obPartialFailure ob \<or> obUnconfirmed ob))
     \<and> eligibleForMuting (snd ig) now"

lemma foldl_concat_eq: "foldl (\<lambda>m xs. foldl f m xs) m xss = foldl f m (concat xss)"
  by (induction xss arbitrary: m) simp_all

lemma keyEligible_fold:
  "keyEligible r now = foldl (\<lambda>m ig. eligibleStep (heldRefs (rpImages r)) now (fst ig) m (snd ig)) [] (groupsOf r)"
proof -
  have "foldl (\<lambda>m img. foldl (f (ifImage img)) m (ifPackages img)) m imgs
      = foldl (\<lambda>m ig. f (fst ig) m (snd ig)) m (concat (map (\<lambda>img. map (\<lambda>g. (ifImage img, g)) (ifPackages img)) imgs))"
    for f :: "string \<Rightarrow> (string, bool) gmap \<Rightarrow> package_group \<Rightarrow> (string, bool) gmap" and m imgs
    by (induction imgs arbitrary: m) (simp_all add: foldl_map)
  then show ?thesis by (simp only: keyEligible_def groupsOf_def foldl_concat_eq)
qed

lemma eligibleStep_at:
  "map_of (eligibleStep held now img m g) k =
     (if k = muteKey img (pgPackage g)
      then Some ((case map_of m k of Some b \<Rightarrow> b | None \<Rightarrow> True) \<and> img \<notin> set held \<and> eligibleForMuting g now)
      else map_of m k)"
  by (auto simp: eligibleStep_def Let_def mhas_def split: option.split)

lemma heldRefs_iff: "img \<in> set (heldRefs obs) \<longleftrightarrow>
    (\<exists>ob \<in> set obs. obRef ob = img \<and> (obScanFailed ob \<or> obPartialFailure ob \<or> obUnconfirmed ob))"
proof -
  have "set (foldl (\<lambda>s ob. if P ob then setAdd (obRef ob) s else s) s0 obs) = set s0 \<union> obRef ` {ob \<in> set obs. P ob}" for P s0
    by (induction obs arbitrary: s0) auto
  then show ?thesis by (auto simp: heldRefs_def)
qed

lemma keyEligible_at:
  assumes "ig \<in> set (groupsOf r)"
  shows "mget False (keyEligible r now) (muteKey (fst ig) (pgPackage (snd ig))) \<longleftrightarrow>
    (\<forall>jg \<in> set (groupsOf r). muteKey (fst jg) (pgPackage (snd jg)) = muteKey (fst ig) (pgPackage (snd ig)) \<longrightarrow> qualifies r now jg)"
proof -
  let ?k = "\<lambda>jg. muteKey (fst jg) (pgPackage (snd jg))"
  have step: "map_of (foldl (\<lambda>m ig. eligibleStep (heldRefs (rpImages r)) now (fst ig) m (snd ig)) [] gs) k =
      (if k \<in> ?k ` set gs then Some (\<forall>jg \<in> set gs. ?k jg = k \<longrightarrow> qualifies r now jg) else None)" for gs k
  proof (induction gs rule: rev_induct)
    case (snoc x xs)
    have q: "fst x \<notin> set (heldRefs (rpImages r)) \<and> eligibleForMuting (snd x) now \<longleftrightarrow> qualifies r now x"
      by (simp add: qualifies_def heldRefs_iff)
    show ?case
    proof (cases "k = ?k x")
      case True
      then have "(case map_of (foldl (\<lambda>m ig. eligibleStep (heldRefs (rpImages r)) now (fst ig) m (snd ig)) [] xs) k of
          Some b \<Rightarrow> b | None \<Rightarrow> True) \<longleftrightarrow> (\<forall>jg \<in> set xs. ?k jg = k \<longrightarrow> qualifies r now jg)"
        unfolding snoc.IH by (force simp: image_iff)
      with True q show ?thesis by (auto simp: eligibleStep_at)
    next
      case False
      then show ?thesis using snoc.IH by (auto simp: eligibleStep_at)
    qed
  qed simp
  have "?k ig \<in> ?k ` set (groupsOf r)" using assms by blast
  then show ?thesis unfolding keyEligible_fold using step [of "groupsOf r" "?k ig"] by simp
qed

text \<open>
  C29. The two passes implement the all-or-nothing rule: with runtime verdicts attached, a group becomes
  muted exactly when every group of the report under the same image and package qualifies, in whatever
  section, and the image has no failed, partial or unconfirmed scan; nothing else of the report
  changes. Without runtime verdicts nothing changes at all.
\<close>

theorem ApplyMuting_rule:
  "sections (ApplyMuting r now) =
     map (map (\<lambda>img. img\<lparr>ifPackages := map (\<lambda>g.
        if rpRuntime r \<noteq> None
           \<and> (\<forall>jg \<in> set (groupsOf r). key (fst jg) (pgPackage (snd jg)) = key (ifImage img) (pgPackage g) \<longrightarrow> qualifies r now jg)
        then g\<lparr>pgMuted := True, pgMutedReason := MutedNoFixNotInUse7d\<rparr> else g) (ifPackages img)\<rparr>)) (sections r)
   \<and> ApplyMuting r now = r\<lparr>rpActionable := rpActionable (ApplyMuting r now), rpWatch := rpWatch (ApplyMuting r now),
       rpWontFix := rpWontFix (ApplyMuting r now), rpEOLPackages := rpEOLPackages (ApplyMuting r now)\<rparr>"
proof (cases "rpRuntime r")
  case None
  have "map (map (\<lambda>img. img\<lparr>ifPackages := map (\<lambda>g. g) (ifPackages img)\<rparr>)) ss = ss" for ss
    by (simp add: map_idI)
  with None show ?thesis by (simp add: ApplyMuting_def)
next
  case (Some rt)
  let ?m = "\<lambda>img. img\<lparr>ifPackages := map (\<lambda>g. if rpRuntime r \<noteq> None
        \<and> (\<forall>jg \<in> set (groupsOf r). key (fst jg) (pgPackage (snd jg)) = key (ifImage img) (pgPackage g) \<longrightarrow> qualifies r now jg)
      then g\<lparr>pgMuted := True, pgMutedReason := MutedNoFixNotInUse7d\<rparr> else g) (ifPackages img)\<rparr>"
  have img: "muteImage (keyEligible r now) img = ?m img" if "img \<in> set (concat (sections r))" for img
  proof -
    have "(ifImage img, g) \<in> set (groupsOf r)" if "g \<in> set (ifPackages img)" for g
      using that \<open>img \<in> set (concat (sections r))\<close> by (auto simp: groupsOf_def)
    from keyEligible_at [OF this] show ?thesis
      using Some by (auto simp: muteImage_def muteKey_key [symmetric] intro!: image_findings.equality map_cong)
  qed
  have sec: "map (muteImage (keyEligible r now)) s = map ?m s" if "s \<in> set (sections r)" for s
    by (rule map_cong [OF refl]) (use img that in auto)
  have "sections (ApplyMuting r now) = map (map (muteImage (keyEligible r now))) (sections r)"
    using Some by (simp add: ApplyMuting_def Let_def sections_def)
  also have "\<dots> = map (map ?m) (sections r)" by (rule map_cong [OF refl]) (rule sec)
  finally show ?thesis using Some by (simp add: ApplyMuting_def Let_def)
qed

lemma set_groupsOf: "(ref, g) \<in> set (groupsOf r) \<longleftrightarrow>
    (\<exists>sec \<in> set (sections r). \<exists>img \<in> set sec. ifImage img = ref \<and> g \<in> set (ifPackages img))"
  by (auto simp: groupsOf_def)

lemma muted_groups:
  assumes "\<forall>ig \<in> set (groupsOf r). \<not> pgMuted (snd ig)" "(ref, g') \<in> set (groupsOf (ApplyMuting r now))" "pgMuted g'"
  shows "\<exists>g. (ref, g) \<in> set (groupsOf r) \<and> qualifies r now (ref, g)
     \<and> g' = g\<lparr>pgMuted := True, pgMutedReason := MutedNoFixNotInUse7d\<rparr>"
proof (cases "rpRuntime r")
  case None
  then show ?thesis using assms by (auto simp: ApplyMuting_def)
next
  case (Some rt)
  have "sections (ApplyMuting r now) = map (map (muteImage (keyEligible r now))) (sections r)"
    using Some by (simp add: ApplyMuting_def Let_def sections_def)
  then obtain img where img: "img \<in> set (concat (sections r))" "ifImage img = ref"
      "g' \<in> set (ifPackages (muteImage (keyEligible r now) img))"
    using assms(2) by (auto simp: set_groupsOf muteImage_def)
  then obtain g where g: "g \<in> set (ifPackages img)"
      "g' = (if mget False (keyEligible r now) (muteKey ref (pgPackage g)) then g\<lparr>pgMuted := True, pgMutedReason := MutedNoFixNotInUse7d\<rparr> else g)"
    by (auto simp: muteImage_def)
  have mem: "(ref, g) \<in> set (groupsOf r)" using img(1,2) g(1) by (auto simp: groupsOf_def)
  then have un: "\<not> pgMuted g" using assms(1) by fastforce
  then have "mget False (keyEligible r now) (muteKey ref (pgPackage g))" using g(2) assms(3) by (auto split: if_splits)
  then show ?thesis using mem g(2) keyEligible_at [OF mem, of now] by auto
qed

lemma eligible_not_urgent:
  "eligibleForMuting g now \<Longrightarrow> pgPriority g \<noteq> PriorityActNow \<and> pgStatus g \<in> {StatusAffected, StatusWontFix}
     \<and> rtUsage (pgRuntime g) = UsageNotObserved"
  by (auto simp: eligibleForMuting_def split: if_splits)

subsection \<open>A muted package\<close>

definition sampleIdle :: package_group where
  "sampleIdle = (sampleGroupOf ''1'')\<lparr>pgPriority := PriorityLow, pgRuntime := zeroRuntime\<lparr>rtUsage := UsageNotObserved,
     rtContainers := [zeroContainerRuntime\<lparr>cnGenerationStartedAt := 1\<rparr>]\<rparr>\<rparr>"

definition sampleIdleReport :: report where
  "sampleIdleReport = (Build [] [] sampleTriage 0)\<lparr>rpRuntime := Some (reInfo sampleEnv),
     rpWatch := [\<lparr>ifImage = ''app:1'', ifSubject = sampleSubject, ifPinned = False, ifPackages = [sampleIdle], ifContainers = []\<rparr>]\<rparr>"

lemma sampleIdle_groups:
  "groupsOf sampleIdleReport = [(''app:1'', sampleIdle)]"
  "rpRuntime sampleIdleReport \<noteq> None" "rpImages sampleIdleReport = []"
  by (simp_all add: groupsOf_def sections_def sampleIdleReport_def Build_def Let_def startBuild_def buildSection_def
      buildInventory_def indexContainers_def mget_def sortImages_def)

lemma sampleIdle_eligible: "eligibleForMuting sampleIdle (8 * 24 * 60 * 60 * second)"
  by (simp add: eligibleForMuting_def sampleIdle_def sampleGroupOf_def newGroup_def timeSub_def muteObservationWindow_def second_def)

theorem ApplyMuting_rule_witness:
  "map (\<lambda>img. map pgMuted (ifPackages img)) (sections (ApplyMuting sampleIdleReport (8 * 24 * 60 * 60 * second)) ! 1) = [[True]]"
proof -
  have q: "qualifies sampleIdleReport (8 * 24 * 60 * 60 * second) (''app:1'', sampleIdle)"
    using sampleIdle_eligible by (simp add: qualifies_def sampleIdle_groups)
  have w: "sections sampleIdleReport ! 1 =
      [\<lparr>ifImage = ''app:1'', ifSubject = sampleSubject, ifPinned = False, ifPackages = [sampleIdle], ifContainers = []\<rparr>]"
    and l: "length (sections sampleIdleReport) = 4" by (simp_all add: sections_def sampleIdleReport_def)
  show ?thesis
    using ApplyMuting_rule [of sampleIdleReport "8 * 24 * 60 * 60 * second", THEN conjunct1] q sampleIdle_groups
    by (simp add: l) (simp add: w [simplified])
qed

end
