(* ===== verification/Scanning.thy ===== *)
theory Scanning
  imports Muting "HOL-Library.Sublist"
begin

section \<open>Collecting what a cycle reports on\<close>

text \<open>
  \<open>internal/runner/runner.go\<close>, the first half of a cycle: scanning the running images, looking up
  exploitation intel and reading the runtime evidence. The scanner, the intel source, the evidence
  provider and the container engine are arguments. A scanner may answer the same target differently
  each time it is asked, so it is a function of the number of the call. The lemmas show that every
  image gets a result of its own entity, that only confirmed results are shared, and which identifiers
  ever leave the host.
\<close>

subsection \<open>Scanning the images\<close>

record scan_target =
  tgSubject :: image_subject
  tgRegistry :: registry_ref
  tgSource :: string

type_synonym image_scanner = "nat \<Rightarrow> scan_target \<Rightarrow> image_scan"

definition retarget :: "image_scan \<Rightarrow> string \<Rightarrow> image_scan" where
  "retarget s ref =
     s\<lparr>snImage := ref, snSubject := (snSubject s)\<lparr>isRef := ref\<rparr>,
       snFindings := map (\<lambda>f. f\<lparr>fdImage := ref\<rparr>) (snFindings s)\<rparr>"

definition runnerSource :: "string \<Rightarrow> string" where
  "runnerSource s = (if s = '''' then SourceLocal else s)"

definition targetOf :: "string \<Rightarrow> running_image \<Rightarrow> scan_target" where
  "targetOf source img =
     \<lparr>tgSubject = \<lparr>isRef = riRef img, isKey = fst (EntityKeyOf img), isResolved = snd (EntityKeyOf img)\<rparr>,
      tgRegistry = riRegistry img, tgSource = source\<rparr>"

text \<open>The loop's variables, and the targets the scanner was called with so far.\<close>

record scan_run =
  srScans :: "image_scan list"
  srTargets :: "scan_target list"
  srByKey :: "(entity_key, image_scan) gmap"
  srCalls :: "scan_target list"

definition scanStep :: "image_scanner \<Rightarrow> string \<Rightarrow> scan_run \<Rightarrow> running_image \<Rightarrow> scan_run" where
  "scanStep sc source st img =
     (let target = targetOf source img; key = isKey (tgSubject target);
          result = sc (length (srCalls st)) target;
          called = st\<lparr>srTargets := srTargets st @ [target], srCalls := srCalls st @ [target]\<rparr>;
          scanned = called\<lparr>srScans := srScans st @ [retarget result (riRef img)],
            srByKey := (if snPinned result then mput key result (srByKey st) else srByKey st)\<rparr> in
      if \<not> isResolved (tgSubject target) then called\<lparr>srScans := srScans st @ [result]\<rparr>
      else (case map_of (srByKey st) key of
          None \<Rightarrow> scanned
        | Some cached \<Rightarrow>
            if \<not> snPinned cached then scanned
            else st\<lparr>srScans := srScans st @ [retarget cached (riRef img)], srTargets := srTargets st @ [target]\<rparr>))"

definition scanImages :: "image_scanner \<Rightarrow> string \<Rightarrow> running_image list \<Rightarrow> scan_run" where
  "scanImages sc source images =
     foldl (scanStep sc (runnerSource source)) \<lparr>srScans = [], srTargets = [], srByKey = [], srCalls = []\<rparr> images"

subsection \<open>Exploitation intel\<close>

record discussion =
  dsTitle :: string
  dsURL :: string
  dsPoints :: int
  dsComments :: int

record triage_config =
  tcActNowEPSS :: float64
  tcWatchEPSS :: float64
  tcDiscussionLinks :: bool

text \<open>What the intel source answers: to a lookup, and to a search for discussions.\<close>

record intel_source =
  inLookup :: "string list \<Rightarrow> (string, enrichment) gmap \<times> intel_status"
  inDiscussions :: "string list \<Rightarrow> (string, discussion) gmap"

definition zeroTriage :: triage where
  "zeroTriage = \<lparr>trEnabled = False, trActNowEPSS = Fin 0, trWatchEPSS = Fin 0, trEnrich = [], trRefs = [],
     trIntel = \<lparr>itKEVOK = False, itEPSSOK = False, itStaleDays = 0\<rparr>\<rparr>"

definition vulnIDsOf :: "image_scan list \<Rightarrow> string list" where
  "vulnIDsOf scans = foldl (\<lambda>ids s. foldl (\<lambda>ids f. setAdd (fdVulnID f) ids) ids (snFindings s)) [] scans"

text \<open>The identifiers sent as search queries, \<open>None\<close> when nothing is asked.\<close>

definition discussionQuery :: "triage_config \<Rightarrow> triage \<Rightarrow> string list option" where
  "discussionQuery cfg tr =
     (if \<not> tcDiscussionLinks cfg \<or> Degraded (trIntel tr) then None
      else (let ids = map fst (filter (\<lambda>(i, e). SignalsActNow tr e) (trEnrich tr)) in
            if ids = [] then None else Some (sort ids)))"

definition discussionRefs :: "triage_config \<Rightarrow> intel_source \<Rightarrow> triage \<Rightarrow> (string, ref_link list) gmap" where
  "discussionRefs cfg src tr =
     (case discussionQuery cfg tr of
        None \<Rightarrow> []
      | Some ids \<Rightarrow>
          foldl (\<lambda>m (i, d). mput i [\<lparr>rfKind = ''discussion'',
              rfLabel = ''HN ('' @ ItoaInt (dsPoints d) @ '' pts)'', rfURL = dsURL d\<rparr>] m) [] (inDiscussions src ids))"

definition runnerTriage :: "triage_config \<Rightarrow> intel_source option \<Rightarrow> image_scan list \<Rightarrow> triage" where
  "runnerTriage cfg intel scans =
     (case intel of
        None \<Rightarrow> zeroTriage
      | Some src \<Rightarrow>
          (case inLookup src (vulnIDsOf scans) of (enrich, fresh) \<Rightarrow>
             (let tr = \<lparr>trEnabled = True, trActNowEPSS = tcActNowEPSS cfg, trWatchEPSS = tcWatchEPSS cfg,
                        trEnrich = enrich, trRefs = [], trIntel = fresh\<rparr> in
              tr\<lparr>trRefs := discussionRefs cfg src tr\<rparr>)))"

subsection \<open>Runtime evidence\<close>

datatype evidence_error = NotReporting | OtherEvidenceError

text \<open>
  \<open>evLoad\<close> is the snapshot with the error beside it, as \<open>Load\<close> returns them; \<open>evInspect\<close> is absent
  when no inspector is configured.
\<close>

record evidence_world =
  evLoad :: "snapshot \<times> evidence_error option"
  evBootTime :: "gtime option"
  evInspect :: "(string \<Rightarrow> inspect_result option) option"

definition inspectStep :: "(string \<Rightarrow> inspect_result option) \<Rightarrow> string list \<times> (string, inspect_result) gmap \<Rightarrow> container
    \<Rightarrow> string list \<times> (string, inspect_result) gmap" where
  "inspectStep ask acc c =
     (if ctID c = '''' \<or> ctID c \<in> set (fst acc) then acc
      else (setAdd (ctID c) (fst acc),
            case ask (ctID c) of Some res \<Rightarrow> mput (ctID c) res (snd acc) | None \<Rightarrow> snd acc))"

definition evidenceInputs :: "evidence_world \<Rightarrow> container list \<Rightarrow> runtime_info \<times> snapshot \<times> generation_inspect" where
  "evidenceInputs ev containers =
     (case evLoad ev of (snap, err) \<Rightarrow>
       (\<lparr>inSensor = ssSensor snap, inLoadFailed = (err \<noteq> None), inNotReporting = (err = Some NotReporting)\<rparr>, snap,
        \<lparr>giByContainer = (case evInspect ev of None \<Rightarrow> [] | Some f \<Rightarrow> snd (foldl (inspectStep f) ([], []) containers)),
         giBootTime = (case evBootTime ev of Some t \<Rightarrow> t | None \<Rightarrow> 0)\<rparr>))"

subsection \<open>Where a scan result comes from\<close>

text \<open>Result \<open>s\<close> of image \<open>img\<close> comes from the call \<open>n\<close> of the scanner.\<close>

definition scannedBy :: "image_scanner \<Rightarrow> string \<Rightarrow> scan_target list \<Rightarrow> nat \<Rightarrow> running_image \<Rightarrow> image_scan \<Rightarrow> bool" where
  "scannedBy sc source calls n img s \<longleftrightarrow>
     (let target = targetOf source img; c = calls ! n in
      n < length calls
      \<and> (if isResolved (tgSubject target)
         then s = retarget (sc n c) (riRef img) \<and> isResolved (tgSubject c) \<and> isKey (tgSubject c) = isKey (tgSubject target)
              \<and> (c = target \<or> snPinned (sc n c))
         else s = sc n c \<and> c = target))"

definition confirmed :: "image_scanner \<Rightarrow> scan_target list \<Rightarrow> entity_key \<Rightarrow> nat \<Rightarrow> bool" where
  "confirmed sc calls ek n \<longleftrightarrow>
     n < length calls \<and> isResolved (tgSubject (calls ! n)) \<and> isKey (tgSubject (calls ! n)) = ek \<and> snPinned (sc n (calls ! n))"

text \<open>What holds of the loop after the images \<open>seen\<close>.\<close>

definition scanInv :: "image_scanner \<Rightarrow> string \<Rightarrow> running_image list \<Rightarrow> scan_run \<Rightarrow> bool" where
  "scanInv sc source seen st \<longleftrightarrow>
     srTargets st = map (targetOf source) seen
   \<and> list_all2 (\<lambda>img s. \<exists>n. scannedBy sc source (srCalls st) n img s) seen (srScans st)
   \<and> (\<forall>ek res. map_of (srByKey st) ek = Some res \<longleftrightarrow> (\<exists>n. confirmed sc (srCalls st) ek n \<and> res = sc n (srCalls st ! n)))
   \<and> (\<forall>ek n m. confirmed sc (srCalls st) ek n \<and> n < m \<and> m < length (srCalls st)
        \<longrightarrow> \<not> (isResolved (tgSubject (srCalls st ! m)) \<and> isKey (tgSubject (srCalls st ! m)) = ek))
   \<and> subseq (srCalls st) (srTargets st)"

lemma scannedBy_more: "scannedBy sc source calls n img s \<Longrightarrow> scannedBy sc source (calls @ [t]) n img s"
  by (simp add: scannedBy_def Let_def nth_append)

lemma confirmed_snoc: "confirmed sc (calls @ [t]) ek n \<longleftrightarrow> confirmed sc calls ek n
    \<or> n = length calls \<and> isResolved (tgSubject t) \<and> isKey (tgSubject t) = ek \<and> snPinned (sc n t)"
  by (auto simp: confirmed_def nth_append less_Suc_eq)

lemma subseq_snoc: "subseq xs ys \<Longrightarrow> subseq xs (ys @ [y])" "subseq xs ys \<Longrightarrow> subseq (xs @ [y]) (ys @ [y])"
  by (auto intro: list_emb_append_mono)

lemma scanInv_called:
  assumes inv: "scanInv sc source seen st" and t: "t = targetOf source img" and res: "res = sc (length (srCalls st)) t"
    and fresh: "isResolved (tgSubject t) \<Longrightarrow> map_of (srByKey st) (isKey (tgSubject t)) = None"
  shows "scanInv sc source (seen @ [img])
     \<lparr>srScans = srScans st @ [if isResolved (tgSubject t) then retarget res (riRef img) else res], srTargets = srTargets st @ [t],
      srByKey = (if isResolved (tgSubject t) \<and> snPinned res then mput (isKey (tgSubject t)) res (srByKey st) else srByKey st),
      srCalls = srCalls st @ [t]\<rparr>"
proof -
  let ?c = "srCalls st"
  note i = inv [unfolded scanInv_def]
  have none: "\<not> confirmed sc ?c (isKey (tgSubject t)) n" if "isResolved (tgSubject t)" for n
    using i fresh [OF that] by (metis option.distinct(1))
  have all: "list_all2 (\<lambda>img s. \<exists>n. scannedBy sc source (?c @ [t]) n img s) (seen @ [img])
      (srScans st @ [if isResolved (tgSubject t) then retarget res (riRef img) else res])"
  proof (rule list_all2_appendI)
    show "list_all2 (\<lambda>img s. \<exists>n. scannedBy sc source (?c @ [t]) n img s) seen (srScans st)"
      by (rule list_all2_mono [OF i [THEN conjunct2, THEN conjunct1]]) (blast intro: scannedBy_more)
    have "scannedBy sc source (?c @ [t]) (length ?c) img (if isResolved (tgSubject t) then retarget res (riRef img) else res)"
      by (simp add: scannedBy_def Let_def t [symmetric] res)
    then show "list_all2 (\<lambda>img s. \<exists>n. scannedBy sc source (?c @ [t]) n img s) [img]
        [if isResolved (tgSubject t) then retarget res (riRef img) else res]" by auto
  qed
  have cache: "map_of (if isResolved (tgSubject t) \<and> snPinned res then mput (isKey (tgSubject t)) res (srByKey st) else srByKey st) ek = Some r
      \<longleftrightarrow> (\<exists>n. confirmed sc (?c @ [t]) ek n \<and> r = sc n ((?c @ [t]) ! n))" for ek r
  proof -
    have old: "map_of (srByKey st) ek = Some r \<longleftrightarrow> (\<exists>n. confirmed sc ?c ek n \<and> r = sc n (?c ! n))" for ek r using i by blast
    have nth: "confirmed sc ?c ek n \<Longrightarrow> (?c @ [t]) ! n = ?c ! n" for n by (simp add: confirmed_def nth_append)
    show ?thesis
      using old none nth res by (auto simp: confirmed_snoc)
  qed
  have once: "\<not> (isResolved (tgSubject ((?c @ [t]) ! m)) \<and> isKey (tgSubject ((?c @ [t]) ! m)) = ek)"
    if "confirmed sc (?c @ [t]) ek n" "n < m" "m < length (?c @ [t])" for ek n m
  proof (cases "m < length ?c")
    case True
    then have "confirmed sc ?c ek n" using that by (auto simp: confirmed_snoc)
    then show ?thesis using i True that(2) by (simp add: nth_append)
  next
    case False
    then have m: "m = length ?c" using that(3) by simp
    then have "confirmed sc ?c ek n" using that by (auto simp: confirmed_snoc)
    then show ?thesis using none m by auto
  qed
  have "srTargets st @ [t] = map (targetOf source) (seen @ [img])" using i by (simp add: t)
  moreover have "subseq (?c @ [t]) (srTargets st @ [t])" using i by (intro subseq_snoc(2)) blast
  ultimately show ?thesis using all cache once unfolding scanInv_def scan_run.simps by blast
qed

lemma scanInv_step:
  assumes inv: "scanInv sc source seen st"
  shows "scanInv sc source (seen @ [img]) (scanStep sc source st img)"
proof -
  define t where "t = targetOf source img"
  note i = inv [unfolded scanInv_def]
  show ?thesis
  proof (cases "isResolved (tgSubject t) \<and> map_of (srByKey st) (isKey (tgSubject t)) \<noteq> None")
    case False
    then have "scanStep sc source st img =
       \<lparr>srScans = srScans st @ [if isResolved (tgSubject t) then retarget (sc (length (srCalls st)) t) (riRef img) else sc (length (srCalls st)) t],
        srTargets = srTargets st @ [t], srByKey = (if isResolved (tgSubject t) \<and> snPinned (sc (length (srCalls st)) t)
          then mput (isKey (tgSubject t)) (sc (length (srCalls st)) t) (srByKey st) else srByKey st), srCalls = srCalls st @ [t]\<rparr>"
      by (auto simp: scanStep_def Let_def t_def [symmetric])
    then show ?thesis using scanInv_called [OF inv t_def refl] False by auto
  next
    case True
    then obtain cached where c: "map_of (srByKey st) (isKey (tgSubject t)) = Some cached" "isResolved (tgSubject t)" by blast
    then obtain n where n: "confirmed sc (srCalls st) (isKey (tgSubject t)) n" "cached = sc n (srCalls st ! n)" using i by blast
    then have eq: "scanStep sc source st img =
        st\<lparr>srScans := srScans st @ [retarget cached (riRef img)], srTargets := srTargets st @ [t]\<rparr>"
      using c by (simp add: scanStep_def Let_def t_def [symmetric] confirmed_def)
    have "scannedBy sc source (srCalls st) n img (retarget cached (riRef img))"
      using n c(2) by (simp add: scannedBy_def Let_def t_def [symmetric] confirmed_def)
    then have "list_all2 (\<lambda>img s. \<exists>n. scannedBy sc source (srCalls st) n img s) (seen @ [img]) (srScans st @ [retarget cached (riRef img)])"
      using i by (intro list_all2_appendI) auto
    then show ?thesis unfolding eq scanInv_def using i t_def subseq_snoc(1) [of "srCalls st" "srTargets st" t] by auto
  qed
qed

lemma scanImages_inv: "scanInv sc (runnerSource source) images (scanImages sc source images)"
proof -
  have "scanInv sc src seen st \<Longrightarrow> scanInv sc src (seen @ imgs) (foldl (scanStep sc src) st imgs)" for src seen st imgs
  proof (induction imgs arbitrary: seen st)
    case (Cons img imgs)
    then show ?case using Cons.IH [OF scanInv_step [OF Cons.prems]] by simp
  qed simp
  moreover have "scanInv sc src [] \<lparr>srScans = [], srTargets = [], srByKey = [], srCalls = []\<rparr>" for src
    by (simp add: scanInv_def confirmed_def)
  ultimately show ?thesis unfolding scanImages_def by (metis append_Nil)
qed

text \<open>
  C28. Every image gets the result of a scan of its own entity. The results are in the order of the
  images, one each. An image without a confirmed identity has the answer to its own call; an image
  with one has, under its own reference, the answer to a call for the same entity, which was its own
  call or had confirmed the entity; and once a call has confirmed an entity, no later call asks for it.
\<close>

theorem scanImages_exact:
  assumes "st = scanImages sc source images"
  shows "srTargets st = map (targetOf (runnerSource source)) images
   \<and> list_all2 (\<lambda>img s. \<exists>n. scannedBy sc (runnerSource source) (srCalls st) n img s) images (srScans st)
   \<and> subseq (srCalls st) (srTargets st)
   \<and> (\<forall>ek n m. confirmed sc (srCalls st) ek n \<and> n < m \<and> m < length (srCalls st)
        \<longrightarrow> \<not> (isResolved (tgSubject (srCalls st ! m)) \<and> isKey (tgSubject (srCalls st ! m)) = ek))"
  using scanImages_inv [of sc source images] unfolding scanInv_def assms by blast

text \<open>
  With a scanner that labels its results with the target it was given and pins only what it
  confirmed, as the scanner documents, every image's result carries that image's own reference and
  identity, and is pinned only when the entity scanned is the one the image runs.
\<close>

lemma scanImages_identity:
  assumes "\<And>n t. snSubject (sc n t) = tgSubject t \<and> snImage (sc n t) = isRef (tgSubject t)"
    and "\<And>n t. snPinned (sc n t) \<Longrightarrow> isResolved (tgSubject t) \<and> snErr (sc n t) = None \<and> snScannedKey (sc n t) = isKey (tgSubject t)"
  shows "list_all2 (\<lambda>img s. snImage s = riRef img \<and> snSubject s = tgSubject (targetOf (runnerSource source) img)
       \<and> (snPinned s \<longrightarrow> snd (EntityKeyOf img) \<and> snErr s = None \<and> snScannedKey s = fst (EntityKeyOf img)))
     images (srScans (scanImages sc source images))"
proof -
  have "list_all2 (\<lambda>img s. \<exists>n. scannedBy sc (runnerSource source) (srCalls (scanImages sc source images)) n img s)
      images (srScans (scanImages sc source images))"
    using scanImages_inv [of sc source images] unfolding scanInv_def by blast
  moreover have "snImage s = riRef img \<and> snSubject s = tgSubject (targetOf (runnerSource source) img)
       \<and> (snPinned s \<longrightarrow> snd (EntityKeyOf img) \<and> snErr s = None \<and> snScannedKey s = fst (EntityKeyOf img))"
    if "scannedBy sc (runnerSource source) calls n img s" for calls n img s
    using that assms(1) [of n "calls ! n"] assms(2) [of n "calls ! n"]
    by (auto simp: scannedBy_def Let_def retarget_def targetOf_def split: if_splits)
  ultimately show ?thesis by (auto elim: list_all2_mono)
qed

subsection \<open>What leaves the host\<close>

lemma vulnIDsOf_set: "set (vulnIDsOf scans) = {fdVulnID f | f s. s \<in> set scans \<and> f \<in> set (snFindings s)}" "distinct (vulnIDsOf scans)"
proof -
  have inner: "set (foldl (\<lambda>ids f. setAdd (fdVulnID f) ids) ids fs) = set ids \<union> fdVulnID ` set fs"
    "distinct ids \<Longrightarrow> distinct (foldl (\<lambda>ids f. setAdd (fdVulnID f) ids) ids fs)" for ids fs
    by (induction fs arbitrary: ids) auto
  have "set (foldl (\<lambda>ids s. foldl (\<lambda>ids f. setAdd (fdVulnID f) ids) ids (snFindings s)) ids scans)
      = set ids \<union> {fdVulnID f | f s. s \<in> set scans \<and> f \<in> set (snFindings s)}" for ids
    by (induction scans arbitrary: ids) (auto simp: inner)
  moreover have "distinct ids \<Longrightarrow> distinct (foldl (\<lambda>ids s. foldl (\<lambda>ids f. setAdd (fdVulnID f) ids) ids (snFindings s)) ids scans)" for ids
    by (induction scans arbitrary: ids) (auto simp: inner)
  ultimately show "set (vulnIDsOf scans) = {fdVulnID f | f s. s \<in> set scans \<and> f \<in> set (snFindings s)}" "distinct (vulnIDsOf scans)"
    by (simp_all add: vulnIDsOf_def)
qed

text \<open>
  Nothing but the identifiers of vulnerabilities known to be exploited leaves the host. With a
  lookup that answers only for the identifiers it was asked about, one entry each, a search is made
  only when discussion links are on and intel is usable, and it asks, sorted and once each, for
  exactly the identifiers found by this cycle's scans whose intel signals act-now.
\<close>

lemma discussionQuery_only_act_now:
  assumes "inLookup src (vulnIDsOf scans) = (enrich, fresh)" "map_ok enrich" "set (mkeys enrich) \<subseteq> set (vulnIDsOf scans)"
    and "tr = runnerTriage cfg (Some src) scans" "discussionQuery cfg tr = Some ids"
  shows "tcDiscussionLinks cfg \<and> \<not> Degraded fresh \<and> sorted ids \<and> distinct ids \<and> ids \<noteq> []
   \<and> set ids = {i. \<exists>e. map_of enrich i = Some e \<and> SignalsActNow tr e}
   \<and> set ids \<subseteq> {fdVulnID f | f s. s \<in> set scans \<and> f \<in> set (snFindings s)}"
proof -
  have tr: "trEnrich tr = enrich" "trIntel tr = fresh"
    using assms(1,4) by (simp_all add: runnerTriage_def Let_def)
  let ?sel = "filter (\<lambda>(i, e). SignalsActNow tr e) enrich"
  have ids: "tcDiscussionLinks cfg" "\<not> Degraded fresh" "map fst ?sel \<noteq> []" "ids = sort (map fst ?sel)"
    using assms(5) by (auto simp: discussionQuery_def tr Let_def split: if_splits)
  have "distinct (map fst ?sel)" using assms(2) by (simp add: map_ok_def distinct_map_filter)
  moreover have set: "fst ` set ?sel = {i. \<exists>e. map_of enrich i = Some e \<and> SignalsActNow tr e}"
    using gm.entries_iff [OF assms(2)] by force
  moreover have "{i. \<exists>e. map_of enrich i = Some e \<and> SignalsActNow tr e} \<subseteq> {fdVulnID f | f s. s \<in> set scans \<and> f \<in> set (snFindings s)}"
    using assms(3) unfolding vulnIDsOf_set(1) by (auto dest: domI)
  moreover have "ids \<noteq> []" using ids(3,4) by (metis length_0_conv length_sort)
  ultimately show ?thesis using ids by simp
qed

subsection \<open>Two references to one image\<close>

definition sampleScanner :: image_scanner where
  "sampleScanner n t = sampleScan\<lparr>snImage := isRef (tgSubject t), snSubject := tgSubject t,
     snScannedKey := isKey (tgSubject t), snPinned := isResolved (tgSubject t)\<rparr>"

definition sampleConfigDigest :: digest where
  "sampleConfigDigest = \<lparr>dgKind = DigestConfig, dgAlgorithm = ''sha256'', dgHex = replicate 64 (CHR ''a'')\<rparr>"

definition samplePinned :: "string \<Rightarrow> running_image" where
  "samplePinned ref = sampleImage\<lparr>riRef := ref, riConfig := sampleConfigDigest\<rparr>"

lemma samplePinned_key: "EntityKeyOf (samplePinned ref) = (\<lparr>ekDigest = sampleConfigDigest, ekPlatform = zeroPlatform\<rparr>, True)"
  by (simp add: EntityKeyOf_def samplePinned_def sampleConfigDigest_def Digest_Valid_iff isHexByte_def isDigitByte_def less_eq_char_def)

lemma samplePinned_ref [simp]: "riRef (samplePinned ref) = ref"
  by (simp add: samplePinned_def)

lemma sample_shared:
  "length (srCalls (scanImages sampleScanner '''' [samplePinned ''app:1'', samplePinned ''app:2''])) = 1"
  by (simp add: scanImages_def scanStep_def Let_def targetOf_def samplePinned_key sampleScanner_def)

theorem scanImages_exact_witness:
  "length (srCalls (scanImages sampleScanner '''' [samplePinned ''app:1'', samplePinned ''app:2''])) = 1
   \<and> length (srScans (scanImages sampleScanner '''' [samplePinned ''app:1'', samplePinned ''app:2''])) = 2"
  using scanImages_exact [OF refl, of sampleScanner "''''" "[samplePinned ''app:1'', samplePinned ''app:2'']"] sample_shared
  by (auto dest: list_all2_lengthD)

definition sampleIntel :: intel_source where
  "sampleIntel = \<lparr>inLookup = (\<lambda>ids. ([(''CVE-1'', zeroEnrichment\<lparr>erKEV := True\<rparr>)], \<lparr>itKEVOK = True, itEPSSOK = True, itStaleDays = 0\<rparr>)),
     inDiscussions = (\<lambda>ids. [])\<rparr>"

definition sampleLinks :: triage_config where
  "sampleLinks = \<lparr>tcActNowEPSS = Fin 1, tcWatchEPSS = Fin 1, tcDiscussionLinks = True\<rparr>"

end
