(* ===== verification/Cycle.thy ===== *)
theory Cycle
  imports State_Diff Scanning
begin

section \<open>The scan cycle\<close>

text \<open>
  \<open>internal/runner/runner.go\<close>, the second half of a cycle: it builds its report, compares it with the stored state, sends
  a message when one is due and stores the new state only after the message was delivered or found
  not to be due. What the outside world does is an argument: the stored state or the failure to load
  it, the weekday, the fix plan's own due flag, the outcome of sending and of saving. The lemmas show
  that no change of the stored records goes unsent whatever fails, that a failed delivery is repeated
  and that silence means that nothing is open, up to one gap that is proved as such.
\<close>

subsection \<open>Building the report\<close>

record runner =
  rnSource :: string
  rnTriage :: triage_config
  rnEnvironment :: environment
  rnGenericWebhookConfigured :: bool
  rnMuteUnfixableNotInUse :: bool
  rnNotifyOnClean :: bool
  rnHasStore :: bool

text \<open>
  \<open>None\<close> when no evidence provider is configured. The clock is read for each step: at the build,
  when attaching and when muting.
\<close>

definition buildReport ::
    "runner \<Rightarrow> image_scan list \<Rightarrow> container list \<Rightarrow> triage \<Rightarrow> (runtime_info \<times> snapshot \<times> generation_inspect) option
       \<Rightarrow> gtime \<Rightarrow> gtime \<Rightarrow> gtime \<Rightarrow> report" where
  "buildReport rn scans cs tr evid t1 t2 t3 =
     (let r0 = (Build scans cs tr t1)\<lparr>rpEnvironment := rnEnvironment rn, rpGenericWebhookConfigured := rnGenericWebhookConfigured rn\<rparr> in
      case evid of
        None \<Rightarrow> r0
      | Some (rt, snap, insp) \<Rightarrow>
          (let r1 = AttachRuntime r0 rt snap insp t2 in
           if rnMuteUnfixableNotInUse rn then ApplyMuting r1 t3 else r1))"

subsection \<open>Sending the difference\<close>

definition holdingUnconfirmed :: "state \<Rightarrow> report \<Rightarrow> bool" where
  "holdingUnconfirmed prev r = list_ex (\<lambda>ref. HasFindingsFor prev ref) (rpUnconfirmedRefs r)"

definition reportDue :: "runner \<Rightarrow> report \<Rightarrow> diff \<Rightarrow> bool \<Rightarrow> bool" where
  "reportDue rn r d holding \<longleftrightarrow>
     HasIssues r \<or> HasChanges d \<or> rnNotifyOnClean rn \<or> holding \<or> rpRuntimeUnchecked r \<noteq> []"

record message =
  msReport :: report
  msDiff :: "diff option"
  msFullReport :: bool
  msHolding :: bool
  msThread :: bool
  msFirstSeen :: "(string \<Rightarrow> string \<Rightarrow> gtime option) option"
  msEOLFirstSeen :: "(string \<Rightarrow> string \<Rightarrow> gtime option) option"
  msLastReport :: "report_ref option"
  msSkipReport :: bool

record cycle_world =
  cwLoaded :: "string + state"
  cwFullToday :: bool
  cwPlanDue :: bool
  cwSendFails :: bool
  cwThreadRef :: report_ref
  cwSaveFails :: bool

datatype cycle_error = ListFailed | SendFailed | SaveFailed

record cycle_result =
  rsSent :: "message option"
  rsSaved :: "state option"
  rsError :: "cycle_error option"

definition loadedState :: "cycle_world \<Rightarrow> state" where
  "loadedState w = (case cwLoaded w of Inl err \<Rightarrow> emptyState | Inr s \<Rightarrow> s)"

definition saveState :: "cycle_world \<Rightarrow> message option \<Rightarrow> state \<Rightarrow> cycle_result" where
  "saveState w m nxt =
     (if cwSaveFails w then \<lparr>rsSent = m, rsSaved = None, rsError = Some SaveFailed\<rparr>
      else \<lparr>rsSent = m, rsSaved = Some nxt, rsError = None\<rparr>)"

definition messageFor :: "runner \<Rightarrow> report \<Rightarrow> cycle_world \<Rightarrow> message" where
  "messageFor rn r w =
     (let prev = loadedState w; (d, nxt) = Compute prev r; holding = holdingUnconfirmed prev r in
      \<lparr>msReport = r, msDiff = Some d, msFullReport = cwFullToday w, msHolding = holding,
       msThread = (HasChanges d \<or> cwFullToday w), msFirstSeen = Some (FirstSeen nxt), msEOLFirstSeen = Some (EOLFirstSeen nxt),
       msLastReport = stLastFullReport prev, msSkipReport = (\<not> reportDue rn r d holding)\<rparr>)"

definition sendDiff :: "runner \<Rightarrow> report \<Rightarrow> cycle_world \<Rightarrow> cycle_result" where
  "sendDiff rn r w =
     (let prev = loadedState w; (d, n0) = Compute prev r;
          nxt = n0\<lparr>stLastFullReport := stLastFullReport prev\<rparr>;
          due = reportDue rn r d (holdingUnconfirmed prev r) in
      if \<not> due \<and> \<not> cwPlanDue w then saveState w None nxt
      else if cwSendFails w then \<lparr>rsSent = None, rsSaved = None, rsError = Some SendFailed\<rparr>
      else saveState w (Some (messageFor rn r w))
             (if frTS (cwThreadRef w) \<noteq> '''' then nxt\<lparr>stLastFullReport := Some (cwThreadRef w)\<rparr> else nxt))"

subsection \<open>The stateless mode and the whole cycle\<close>

definition fullDue :: "runner \<Rightarrow> report \<Rightarrow> bool" where
  "fullDue rn r \<longleftrightarrow> HasIssues r \<or> rnNotifyOnClean rn \<or> rpRuntimeUnchecked r \<noteq> []"

definition sendFull :: "runner \<Rightarrow> report \<Rightarrow> cycle_world \<Rightarrow> cycle_result" where
  "sendFull rn r w =
     (if \<not> fullDue rn r \<and> \<not> cwPlanDue w then \<lparr>rsSent = None, rsSaved = None, rsError = None\<rparr>
      else if cwSendFails w then \<lparr>rsSent = None, rsSaved = None, rsError = Some SendFailed\<rparr>
      else \<lparr>rsSent = Some \<lparr>msReport = r, msDiff = None, msFullReport = False, msHolding = False, msThread = False,
              msFirstSeen = None, msEOLFirstSeen = None, msLastReport = None, msSkipReport = (\<not> fullDue rn r)\<rparr>,
            rsSaved = None, rsError = None\<rparr>)"

text \<open>
  What a cycle reads from outside before it reports: the list of running containers or its failure, the
  scanner, the intel source and the runtime evidence, when they are configured, and the clock. The
  fix plan is not part of the model; without one, the scans are the scanner's own.
\<close>

record outside =
  owContainers :: "string + container list"
  owScanner :: image_scanner
  owIntel :: "intel_source option"
  owEvidence :: "evidence_world option"
  owBuildTime :: gtime
  owAttachTime :: gtime
  owMuteTime :: gtime

definition cycleScans :: "runner \<Rightarrow> outside \<Rightarrow> container list \<Rightarrow> image_scan list" where
  "cycleScans rn ow cs = srScans (scanImages (owScanner ow) (rnSource rn) (DistinctImages cs))"

definition cycleReport :: "runner \<Rightarrow> outside \<Rightarrow> container list \<Rightarrow> report" where
  "cycleReport rn ow cs =
     (let scans = cycleScans rn ow cs in
      buildReport rn scans cs (runnerTriage (rnTriage rn) (owIntel ow) scans)
        (map_option (\<lambda>ev. evidenceInputs ev cs) (owEvidence ow)) (owBuildTime ow) (owAttachTime ow) (owMuteTime ow))"

definition RunOnce :: "runner \<Rightarrow> outside \<Rightarrow> cycle_world \<Rightarrow> cycle_result" where
  "RunOnce rn ow w =
     (case owContainers ow of
        Inl err \<Rightarrow> \<lparr>rsSent = None, rsSaved = None, rsError = Some ListFailed\<rparr>
      | Inr cs \<Rightarrow>
          (let r = cycleReport rn ow cs in
           if \<not> rnHasStore rn then sendFull rn r w else sendDiff rn r w))"

subsection \<open>Runs\<close>

text \<open>
  The stored state over a sequence of cycles. A cycle reads what is stored, or fails to, and replaces
  it when it saves; \<open>Save\<close> also stamps the environment it was configured with.
\<close>

definition stored :: "runner \<Rightarrow> environment_record option \<Rightarrow> state \<Rightarrow> report \<times> cycle_world \<Rightarrow> state" where
  "stored rn env s rw = (case rsSaved (sendDiff rn (fst rw) (snd rw)) of Some n \<Rightarrow> n\<lparr>stEnvironment := env\<rparr> | None \<Rightarrow> s)"

inductive cycles :: "runner \<Rightarrow> environment_record option \<Rightarrow> state \<Rightarrow> (report \<times> cycle_world) list \<Rightarrow> state \<Rightarrow> bool"
  for rn env where
  idle: "cycles rn env s [] s"
| cycle: "cwLoaded w = Inl err \<or> cwLoaded w = Inr s \<Longrightarrow> cycles rn env (stored rn env s (r, w)) rws s'' \<Longrightarrow>
     cycles rn env s ((r, w) # rws) s''"

inductive_simps cycles_Nil [simp]: "cycles rn env s [] s'"
inductive_simps cycles_Cons: "cycles rn env s (rw # rws) s'"

subsection \<open>What is stored and what was sent\<close>

lemma sendDiff_saved:
  assumes "rsSaved (sendDiff rn r w) = Some n" "Compute (loadedState w) r = (d, nxt)"
  shows "\<exists>ref. n = nxt\<lparr>stLastFullReport := ref\<rparr>"
    "reportDue rn r d (holdingUnconfirmed (loadedState w) r) \<Longrightarrow> rsSent (sendDiff rn r w) = Some (messageFor rn r w)"
    "msDiff (messageFor rn r w) = Some d" "msReport (messageFor rn r w) = r"
    "msSkipReport (messageFor rn r w) \<longleftrightarrow> \<not> reportDue rn r d (holdingUnconfirmed (loadedState w) r)"
  using assms by (auto simp: sendDiff_def saveState_def messageFor_def Let_def split: if_splits)

lemma stored_frame [simp]:
  "recorded (s\<lparr>stLastFullReport := ref\<rparr>) = recorded s" "recorded (s\<lparr>stEnvironment := env\<rparr>) = recorded s"
  "stateOk (s\<lparr>stLastFullReport := ref\<rparr>) = stateOk s" "stateOk (s\<lparr>stEnvironment := env\<rparr>) = stateOk s"
  by (simp_all add: fun_eq_iff recorded_def stateOk_def)

lemma emptyState_ok [simp]: "stateOk emptyState" "\<not> recorded emptyState k"
  by (simp_all add: emptyState_def stateOk_def recorded_def map_ok_def)

text \<open>A delivered message whose vulnerability part is not left out.\<close>

definition delivered :: "runner \<Rightarrow> report \<times> cycle_world \<Rightarrow> message \<Rightarrow> bool" where
  "delivered rn rw m \<longleftrightarrow> rsSent (sendDiff rn (fst rw) (snd rw)) = Some m \<and> \<not> msSkipReport m"

lemma stored_ok:
  assumes "stateOk s" "cwLoaded w = Inl err \<or> cwLoaded w = Inr s"
  shows "stateOk (stored rn env s (r, w))"
proof (cases "rsSaved (sendDiff rn r w)")
  case (Some n)
  have "stateOk (loadedState w)" using assms by (auto simp: loadedState_def)
  then have "stateOk (snd (Compute (loadedState w) r))" by (rule Compute_stateOk)
  moreover obtain ref where "n = (snd (Compute (loadedState w) r))\<lparr>stLastFullReport := ref\<rparr>"
    using sendDiff_saved(1) [OF Some prod.collapse [symmetric]] by blast
  ultimately show ?thesis by (simp add: stored_def Some)
qed (simp add: stored_def assms(1))

lemma saved_delivered:
  assumes "rsSaved (sendDiff rn r w) = Some n" "HasChanges (fst (Compute (loadedState w) r))"
  shows "delivered rn (r, w) (messageFor rn r w) \<and> msDiff (messageFor rn r w) = Some (fst (Compute (loadedState w) r))"
  using sendDiff_saved(2,3,5) [OF assms(1) prod.collapse [symmetric]] assms(2) by (simp add: delivered_def reportDue_def)

lemma cycles_stateOk: "cycles rn env s rws s' \<Longrightarrow> stateOk s \<Longrightarrow> stateOk s'"
  by (induction rule: cycles.induct) (use stored_ok in blast)+

lemma emptyState_no_eosl: "\<not> mhas (stEOSL emptyState) i"
  by (simp add: emptyState_def mhas_def)

text \<open>
  A kind of record that the difference announces: \<open>held\<close> says whether a state has it, and a computation that
  adds or drops it says so in its difference, as a change. Whatever kind it is, a run of cycles then
  announces it in a delivered message.
\<close>

locale announced_record =
  fixes held :: "state \<Rightarrow> bool"
    and added :: "diff \<Rightarrow> bool"
    and dropped :: "diff \<Rightarrow> bool"
  assumes frame: "held (s\<lparr>stLastFullReport := ref\<rparr>) = held s" "held (s\<lparr>stEnvironment := e\<rparr>) = held s"
    and none_at_first: "\<not> held emptyState"
    and adds: "stateOk prev \<Longrightarrow> Compute prev r = (d, nxt) \<Longrightarrow> held nxt \<Longrightarrow> \<not> held prev \<Longrightarrow> added d \<and> HasChanges d"
    and drops: "stateOk prev \<Longrightarrow> Compute prev r = (d, nxt) \<Longrightarrow> held prev \<Longrightarrow> \<not> held nxt \<Longrightarrow> dropped d \<and> HasChanges d"
begin

lemma stored_held:
  assumes "held (stored rn env s (r, w)) \<noteq> held s"
  obtains n where "rsSaved (sendDiff rn r w) = Some n" "held (stored rn env s (r, w)) = held (snd (Compute (loadedState w) r))"
proof (cases "rsSaved (sendDiff rn r w)")
  case None
  then show ?thesis using assms by (simp add: stored_def)
next
  case (Some n)
  then obtain ref where "n = (snd (Compute (loadedState w) r))\<lparr>stLastFullReport := ref\<rparr>"
    using sendDiff_saved(1) [OF Some prod.collapse [symmetric]] by blast
  then show ?thesis using that [OF Some] by (simp add: stored_def Some frame)
qed

lemma stored_announced:
  assumes "stateOk s" "cwLoaded w = Inl err \<or> cwLoaded w = Inr s"
  shows "held (stored rn env s (r, w)) \<Longrightarrow> \<not> held s \<Longrightarrow> \<exists>m d. delivered rn (r, w) m \<and> msDiff m = Some d \<and> added d"
    "held s \<Longrightarrow> \<not> held (stored rn env s (r, w)) \<Longrightarrow>
       (\<exists>m d. delivered rn (r, w) m \<and> msDiff m = Some d \<and> dropped d) \<or> (\<exists>err. cwLoaded w = Inl err) \<and> rsSaved (sendDiff rn r w) \<noteq> None"
proof -
  note C = prod.collapse [of "Compute (loadedState w) r", symmetric]
  have ok: "stateOk (loadedState w)" and less: "held (loadedState w) \<Longrightarrow> held s"
    using assms none_at_first by (auto simp: loadedState_def)
  show "\<exists>m d. delivered rn (r, w) m \<and> msDiff m = Some d \<and> added d" if h: "held (stored rn env s (r, w))" "\<not> held s"
  proof -
    have "held (stored rn env s (r, w)) \<noteq> held s" using h by simp
    then obtain n where n: "rsSaved (sendDiff rn r w) = Some n" "held (snd (Compute (loadedState w) r))" using h by (elim stored_held) blast
    then show ?thesis using adds [OF ok C] less h(2) saved_delivered [OF n(1)] by blast
  qed
  show "(\<exists>m d. delivered rn (r, w) m \<and> msDiff m = Some d \<and> dropped d) \<or> (\<exists>err. cwLoaded w = Inl err) \<and> rsSaved (sendDiff rn r w) \<noteq> None"
    if h: "held s" "\<not> held (stored rn env s (r, w))"
  proof -
    have "held (stored rn env s (r, w)) \<noteq> held s" using h by simp
    then obtain n where n: "rsSaved (sendDiff rn r w) = Some n" "\<not> held (snd (Compute (loadedState w) r))" using h by (elim stored_held) blast
    then show ?thesis using drops [OF ok C] h(1) saved_delivered [OF n(1)] assms(2) by (auto simp: loadedState_def)
  qed
qed

lemma cycles_announced:
  assumes "cycles rn env s rws s'" "stateOk s"
  shows "(held s' \<and> \<not> held s \<longrightarrow> (\<exists>rw \<in> set rws. \<exists>m d. delivered rn rw m \<and> msDiff m = Some d \<and> added d))
   \<and> (held s \<and> \<not> held s' \<longrightarrow> (\<exists>rw \<in> set rws. (\<exists>m d. delivered rn rw m \<and> msDiff m = Some d \<and> dropped d)
        \<or> (\<exists>err. cwLoaded (snd rw) = Inl err) \<and> rsSaved (sendDiff rn (fst rw) (snd rw)) \<noteq> None))"
  using assms
proof (induction rule: cycles.induct)
  case (cycle w err s r rws s'')
  note step = stored_announced [OF cycle.prems cycle.hyps(1), where r = r and rn = rn and env = env]
    and later = cycle.IH [OF stored_ok [OF cycle.prems cycle.hyps(1)]]
  show ?case using step later by (cases "held (stored rn env s (r, w))"; cases "held s") auto
qed simp

end

interpretation key_record: announced_record "\<lambda>s. recorded s k" "\<lambda>d. announcesNew d k" "\<lambda>d. announcesGone d k" for k
  by unfold_locales (simp_all, metis Compute_announces(1) announces_changes(1), metis Compute_announces(2) announces_changes(2))

interpretation eosl_record: announced_record "\<lambda>s. mhas (stEOSL s) i" "\<lambda>d. announcesNewEOSL d i" "\<lambda>d. announcesGoneEOSL d i" for i
  by unfold_locales (simp_all add: emptyState_no_eosl, metis Compute_announces_eosl(1) announces_changes(3),
      metis Compute_announces_eosl(2) announces_changes(4))

text \<open>
  C2. Nothing enters or leaves the stored records behind the reader's back. Over any sequence of
  cycles, whatever loads, deliveries and saves fail in between: a package that was recorded neither as a
  finding nor as end of life before and is after was announced as new, as a new end-of-life package or as
  a moved reference by a message that was delivered with its vulnerability part, and a base image that
  is newly recorded as end of life was announced so. A package or a base image that was recorded and no
  longer is was announced as gone by such a message, with one exception: a cycle could not load the
  stored state, went on from an empty one and saved, which replaces what was stored.
\<close>

theorem cycles_no_silent_change:
  assumes "cycles rn env s rws s'" "stateOk s"
  shows "(recorded s' k \<and> \<not> recorded s k \<longrightarrow> (\<exists>rw \<in> set rws. \<exists>m d. delivered rn rw m \<and> msDiff m = Some d \<and> announcesNew d k))
   \<and> (recorded s k \<and> \<not> recorded s' k \<longrightarrow> (\<exists>rw \<in> set rws. (\<exists>m d. delivered rn rw m \<and> msDiff m = Some d \<and> announcesGone d k)
        \<or> (\<exists>err. cwLoaded (snd rw) = Inl err) \<and> rsSaved (sendDiff rn (fst rw) (snd rw)) \<noteq> None))
   \<and> (mhas (stEOSL s') i \<and> \<not> mhas (stEOSL s) i \<longrightarrow> (\<exists>rw \<in> set rws. \<exists>m d. delivered rn rw m \<and> msDiff m = Some d \<and> announcesNewEOSL d i))
   \<and> (mhas (stEOSL s) i \<and> \<not> mhas (stEOSL s') i \<longrightarrow> (\<exists>rw \<in> set rws. (\<exists>m d. delivered rn rw m \<and> msDiff m = Some d \<and> announcesGoneEOSL d i)
        \<or> (\<exists>err. cwLoaded (snd rw) = Inl err) \<and> rsSaved (sendDiff rn (fst rw) (snd rw)) \<noteq> None))"
  using key_record.cycles_announced [OF assms] eosl_record.cycles_announced [OF assms] by blast

text \<open>
  C27. A difference that was not delivered is not lost. After any number of cycles that failed to send
  or to save, with whatever reports, the stored state is the one before them; the first cycle on it
  whose delivery works sends the whole difference between that state and its report, and when saving
  works too the records of that report are stored.
\<close>

theorem sendDiff_redelivers:
  assumes "cycles rn env s failed s'" "\<forall>rw \<in> set failed. rsError (sendDiff rn (fst rw) (snd rw)) \<noteq> None"
    "cwLoaded w = Inr s'" "\<not> cwSendFails w" "Compute s r = (d, nxt)" "HasChanges d"
  shows "s' = s \<and> (\<exists>m. delivered rn (r, w) m \<and> msDiff m = Some d)
   \<and> (\<not> cwSaveFails w \<longrightarrow> stFindings (stored rn env s (r, w)) = stFindings nxt
        \<and> stEOLPackages (stored rn env s (r, w)) = stEOLPackages nxt \<and> stEOSL (stored rn env s (r, w)) = stEOSL nxt)"
proof -
  have "s' = s" using assms(1,2)
  proof (induction rule: cycles.induct)
    case (cycle w err s r rws s'')
    have "rsSaved (sendDiff rn r w) = None" using cycle.prems
      by (auto simp: sendDiff_def saveState_def Let_def split: if_splits prod.splits)
    then have "stored rn env s (r, w) = s" by (simp add: stored_def)
    with cycle show ?case by simp
  qed simp
  moreover have "delivered rn (r, w) (messageFor rn r w) \<and> msDiff (messageFor rn r w) = Some d"
    using assms(3-6) \<open>s' = s\<close>
    by (simp add: delivered_def sendDiff_def messageFor_def saveState_def loadedState_def Let_def reportDue_def)
  moreover have "\<not> cwSaveFails w \<Longrightarrow> \<exists>ref. stored rn env s (r, w) = nxt\<lparr>stLastFullReport := ref, stEnvironment := env\<rparr>"
    using assms(3-6) \<open>s' = s\<close> by (auto simp: stored_def sendDiff_def saveState_def loadedState_def Let_def reportDue_def)
  ultimately show ?thesis by fastforce
qed

subsection \<open>What a report says of its scans\<close>

text \<open>Every failed reference has a scan error, every unconfirmed one is listed.\<close>

definition reportSound :: "report \<Rightarrow> bool" where
  "reportSound r \<longleftrightarrow> (\<forall>ob \<in> set (rpImages r).
     (obScanFailed ob \<longrightarrow> rpScanErrors r \<noteq> [])
   \<and> (obPartialFailure ob \<longrightarrow> rpScanErrors r \<noteq> [] \<or> obRef ob \<in> set (rpUnconfirmedRefs r)))"

lemma Build_scan_errors: "s \<in> set scans \<Longrightarrow> snErr s \<noteq> None \<Longrightarrow> rpScanErrors (Build scans cs tr now) \<noteq> []"
proof -
  define errs where "errs s = (case snErr s of Some err \<Rightarrow> [scanErrorOf s err] | None \<Rightarrow> [])" for s
  have step: "bsScanErrors (buildScan st s) = bsScanErrors st @ errs s" for st s
    by (simp add: buildScan_def Let_def errs_def split: option.split)
  have "bsScanErrors (foldl buildScan st scans) = bsScanErrors st @ concat (map errs scans)" for st
    by (induction scans arbitrary: st) (simp_all add: step)
  then have "rpScanErrors (Build scans cs tr now) = concat (map errs scans)"
    by (simp add: Build_def Let_def case_prod_unfold startBuild_def)
  then show "s \<in> set scans \<Longrightarrow> snErr s \<noteq> None \<Longrightarrow> rpScanErrors (Build scans cs tr now) \<noteq> []"
    by (auto simp: errs_def intro!: bexI [of _ s])
qed

lemma Build_sound: "reportSound (Build scans cs tr now)"
proof -
  have flags: "(obScanFailed ob \<longrightarrow> (\<exists>s \<in> set scans. snErr s \<noteq> None))
      \<and> (obPartialFailure ob \<longrightarrow> (\<exists>s \<in> set scans. snErr s \<noteq> None) \<or> obUnconfirmed ob)"
    if "ob \<in> set (rpImages (Build scans cs tr now))" for ob
  proof -
    obtain ref where ob: "ob = observationOf (snd (indexContainers cs)) (ref, foldl obsStep zeroObs (scansOf ref scans))"
      using \<open>ob \<in> _\<close> unfolding set_rpImages by blast
    have "filter (\<lambda>s. snErr s \<noteq> None) (scansOf ref scans) = []" if "\<not> (\<exists>s \<in> set scans. snErr s \<noteq> None)"
      using that by (auto simp: scansOf_def filter_empty_conv)
    then show ?thesis unfolding ob
      by (cases "\<exists>s \<in> set scans. snErr s \<noteq> None") (auto simp: observationOf_def foldl_obsStep(1-3))
  qed
  have "rpUnconfirmedRefs (Build scans cs tr now) = map obRef (filter obUnconfirmed (rpImages (Build scans cs tr now)))"
    by (simp add: Build_def Let_def case_prod_unfold)
  with flags Build_scan_errors [of _ scans cs tr now] show ?thesis unfolding reportSound_def by auto
qed

lemma buildReport_frame:
  "rpImages (buildReport rn scans cs tr evid t1 t2 t3) = rpImages (Build scans cs tr t1)"
  "rpScanErrors (buildReport rn scans cs tr evid t1 t2 t3) = rpScanErrors (Build scans cs tr t1)"
  "rpUnconfirmedRefs (buildReport rn scans cs tr evid t1 t2 t3) = rpUnconfirmedRefs (Build scans cs tr t1)"
  by (simp_all add: buildReport_def AttachRuntime_def ApplyMuting_def Let_def split: option.split)

lemma buildReport_sound: "reportSound (buildReport rn scans cs tr evid t1 t2 t3)"
  using Build_sound [of scans cs tr t1] by (simp add: reportSound_def buildReport_frame)

subsection \<open>Silence\<close>

lemma mhas_empty: "(\<forall>k. \<not> mhas m k) \<longleftrightarrow> m = []"
  by (cases m) (auto simp: mhas_iff)

lemma no_findings_current:
  assumes "\<not> HasFindings r"
  shows "\<not> mhas (cxCur (cycleEnv p r)) k" "\<not> mhas (cxCurEOL (cycleEnv p r)) k" "rpEOSLImages r = []"
  using assms by (simp_all add: HasFindings_def cycleEnv_def mhas_def mergeSections_at groupsAt_def keyedGroups_def mergedOf_def)

lemma failed_unconfirmed:
  assumes "reportSound r" "rpScanErrors r = []" "failedRef (cycleEnv p r) img"
  shows "img \<in> set (rpUnconfirmedRefs r)"
  using assms by (auto simp: failedRef_def cycleEnv_def fullyFailedRef_def partiallyFailedRef_def set_foldl_setAdd reportSound_def)

text \<open>
  C26. Silence means that nothing is open. When a cycle saves without sending anything, the report
  built from its scans, attached evidence and muting included, and the stored state have no finding
  and no end-of-life package, of references that failed or could not be confirmed too; what may remain
  is the end-of-life record of a base image, only for a reference this cycle could not confirm.
\<close>

theorem silence_all_clear:
  assumes "r = buildReport rn scans cs tr evid t1 t2 t3" "stateOk (loadedState w)"
    "rsSent (sendDiff rn r w) = None" "rsSaved (sendDiff rn r w) = Some n"
  shows "\<not> HasIssues r \<and> stFindings n = [] \<and> stEOLPackages n = [] \<and> (\<forall>img. mhas (stEOSL n) img \<longrightarrow> img \<in> set (rpUnconfirmedRefs r))"
proof -
  define prev d nxt where "prev = loadedState w" and "d = fst (Compute prev r)" and "nxt = snd (Compute prev r)"
  have C: "Compute prev r = (d, nxt)" by (simp add: d_def nxt_def)
  have quiet: "\<not> reportDue rn r d (holdingUnconfirmed prev r)"
    using sendDiff_saved(2) [OF assms(4) C [unfolded prev_def]] assms(3) by (auto simp: prev_def)
  obtain ref where n: "n = nxt\<lparr>stLastFullReport := ref\<rparr>" using sendDiff_saved(1) [OF assms(4) C [unfolded prev_def]] by blast
  have q: "\<not> HasFindings r" "rpScanErrors r = []" "\<not> HasChanges d" "rpRuntimeUnchecked r = []"
    "\<And>img. img \<in> set (rpUnconfirmedRefs r) \<Longrightarrow> \<not> HasFindingsFor prev img"
    using quiet by (auto simp: reportDue_def HasIssues_def holdingUnconfirmed_def list_ex_iff)
  have ok: "stateOk prev" "reportSound r" using assms(1,2) by (simp_all add: prev_def buildReport_sound)
  note none = no_findings_current(1,2) [OF q(1), of "carried prev r"] no_findings_current(3) [OF q(1)]
  note held = failed_unconfirmed [OF ok(2) q(2), of "carried prev r"]
  have un: "keyImage k \<in> set (rpUnconfirmedRefs r) \<and> recorded (carried prev r) k" if "recorded nxt k" for k
    using that none held q(4)
    by (auto simp: recorded_def nxt_def Compute_has_finding [OF ok(1)] Compute_has_eol [OF ok(1)] keeps_def keepsEOL_def
        fullyFailed_def partiallyFailed_def failedRef_def uncheckedKey_iff)
  have "\<not> recorded nxt k" for k
  proof
    assume "recorded nxt k"
    note u = un [OF this]
    then have "recorded prev k" using carried_recorded(1) [OF d_def ok(1)] q(3) by (auto simp: HasChanges_def)
    then have "HasFindingsFor prev (keyImage k)" by (auto simp: recorded_def HasFindingsFor_def mhas_def)
    with u q(5) show False by blast
  qed
  then have "stFindings nxt = []" "stEOLPackages nxt = []"
    using mhas_empty [of "stFindings nxt"] mhas_empty [of "stEOLPackages nxt"] by (simp_all add: recorded_def)
  moreover have "mhas (stEOSL nxt) img \<Longrightarrow> img \<in> set (rpUnconfirmedRefs r)" for img
    using held none(3) by (auto simp: nxt_def Compute_has_eosl [OF ok(1)])
  ultimately show ?thesis using q(1,2) by (simp add: n HasIssues_def)
qed

subsection \<open>What muting may hide\<close>

lemma sections_statuses: "sections r = map (reportSection r) reportStatuses"
  by (simp only: sections_def reportStatuses_def list.map) (simp add: reportSection_def)

lemma Build_groups_unmuted: "ig \<in> set (groupsOf (Build scans cs tr now)) \<Longrightarrow> \<not> pgMuted (snd ig)"
proof -
  assume "ig \<in> set (groupsOf (Build scans cs tr now))"
  then obtain sec img where s: "sec \<in> set (sections (Build scans cs tr now))" "img \<in> set sec" "snd ig \<in> set (ifPackages img)"
    using set_groupsOf [of "fst ig" "snd ig"] by auto
  obtain st where "sec = reportSection (Build scans cs tr now) st" using s(1) by (auto simp: sections_statuses)
  with s(2,3) show ?thesis using Build_unmuted by blast
qed

lemma groupsOf_attach: "ig \<in> set (groupsOf (AttachRuntime r rt snap insp t)) \<Longrightarrow>
    \<exists>g rtm. (fst ig, g) \<in> set (groupsOf r) \<and> snd ig = g\<lparr>pgRuntime := rtm\<rparr>"
proof -
  assume a: "ig \<in> set (groupsOf (AttachRuntime r rt snap insp t))"
  define env where "env = \<lparr>reInfo = rt, reSnap = snap, reInspect = insp, reNow = t\<rparr>"
  have "sections (AttachRuntime r rt snap insp t) = map (map (attachImage env)) (sections r)"
    by (simp add: sections_def AttachRuntime_def Let_def env_def)
  then obtain sec img where s: "sec \<in> set (sections r)" "img \<in> set sec" "ifImage img = fst ig"
      "snd ig \<in> set (ifPackages (attachImage env img))"
    using a set_groupsOf [of "fst ig" "snd ig"] by (auto simp: attachImage_def)
  then obtain g where "g \<in> set (ifPackages img)" "snd ig = g\<lparr>pgRuntime := groupRuntime env g (ifSubject img) (ifContainers img)\<rparr>"
    by (auto simp: attachImage_def)
  with s show ?thesis using set_groupsOf by blast
qed

lemma buildReport_muted:
  assumes "(ref, g) \<in> set (groupsOf (buildReport rn scans cs tr evid t1 t2 t3))" "pgMuted g"
  shows "pgPriority g \<noteq> PriorityActNow \<and> pgStatus g \<in> {StatusAffected, StatusWontFix} \<and> rtUsage (pgRuntime g) = UsageNotObserved"
proof -
  define r0 where "r0 = (Build scans cs tr t1)\<lparr>rpEnvironment := rnEnvironment rn, rpGenericWebhookConfigured := rnGenericWebhookConfigured rn\<rparr>"
  have "groupsOf r0 = groupsOf (Build scans cs tr t1)" by (simp add: r0_def groupsOf_def sections_def)
  then have un: "\<not> pgMuted (snd ig)" if "ig \<in> set (groupsOf r0)" for ig using Build_groups_unmuted that by simp
  then have un1: "\<forall>ig \<in> set (groupsOf (AttachRuntime r0 rt snap insp t2)). \<not> pgMuted (snd ig)" for rt snap insp
    using groupsOf_attach by fastforce
  then obtain rt snap insp where "(ref, g) \<in> set (groupsOf (ApplyMuting (AttachRuntime r0 rt snap insp t2) t3))"
    using assms un by (fastforce simp: buildReport_def Let_def r0_def [symmetric] split: option.splits if_splits)
  from muted_groups [OF un1 this assms(2)] show ?thesis
    using eligible_not_urgent by (fastforce simp: qualifies_def)
qed

lemma shown_groups:
  "g \<in> set (groupsAt [rpActionable r, rpWatch r, rpWontFix r] k) \<Longrightarrow> \<exists>ref. (ref, g) \<in> set (groupsOf r)"
  by (fastforce simp: groupsAt_def keyedGroups_def set_groupsOf sections_def)

lemma hidden_harmless:
  assumes "r = buildReport rn scans cs tr evid t1 t2 t3" "stateOk prev" "hiddenKey (carriedCycle prev r) k"
    "g \<in> set (groupsAt [rpActionable r, rpWatch r, rpWontFix r] k)"
  shows "pgPriority g \<noteq> PriorityActNow \<and> pgStatus g \<in> {StatusAffected, StatusWontFix} \<and> rtUsage (pgRuntime g) = UsageNotObserved"
proof -
  have "pgMuted g" using hidden_shown(4) [OF assms(2,3) refl] assms(4) by (auto simp: allMuted_def split: if_splits)
  then show ?thesis using shown_groups [OF assms(4)] buildReport_muted unfolding assms(1) by blast
qed

lemma hidden_not_act_now:
  assumes "r = buildReport rn scans cs tr evid t1 t2 t3" "stateOk prev" "hiddenKey (carriedCycle prev r) k"
    "map_of (stFindings (snd (Compute prev r))) k = Some e"
  shows "etPriority e \<noteq> PriorityActNow"
proof
  assume "etPriority e = PriorityActNow"
  then have "MaxPriority (groupsAt [rpActionable r, rpWatch r, rpWontFix r] k) = PriorityActNow"
    using hidden_priority [OF assms(2-4)] by simp
  then obtain g where "g \<in> set (groupsAt [rpActionable r, rpWatch r, rpWontFix r] k)" "pgPriority g = PriorityActNow"
    using MaxPriority_in [of "groupsAt [rpActionable r, rpWatch r, rpWontFix r] k"] by auto
  then show False using hidden_harmless [OF assms(1-3)] by blast
qed

subsection \<open>From a scan to the stored record\<close>

lemma reportSection_attach:
  "reportSection (AttachRuntime r rt snap insp t) s =
     map (attachImage \<lparr>reInfo = rt, reSnap = snap, reInspect = insp, reNow = t\<rparr>) (reportSection r s)"
  by (simp add: reportSection_def AttachRuntime_def Let_def)

lemma reportSection_mute:
  "reportSection (ApplyMuting r t) s = (if rpRuntime r = None then reportSection r s else map (muteImage (keyEligible r t)) (reportSection r s))"
  by (cases "rpRuntime r") (simp_all add: reportSection_def ApplyMuting_def Let_def)

text \<open>A section of the finished report is the section \<open>Build\<close> made, image by image and group by group.\<close>

definition sameGroups :: "image_findings \<Rightarrow> image_findings \<Rightarrow> bool" where
  "sameGroups a b \<longleftrightarrow> ifImage b = ifImage a
     \<and> map (\<lambda>g. (pgPackage g, pgVulns g)) (ifPackages b) = map (\<lambda>g. (pgPackage g, pgVulns g)) (ifPackages a)"

lemma sameGroups_steps [simp]:
  "sameGroups a a" "sameGroups a (attachImage env b) = sameGroups a b" "sameGroups a (muteImage elig b) = sameGroups a b"
proof -
  have "map (\<lambda>g. (pgPackage g, pgVulns g)) (ifPackages (muteImage elig b)) = map (\<lambda>g. (pgPackage g, pgVulns g)) (ifPackages b)"
    by (simp add: muteImage_def)
  moreover have "ifImage (muteImage elig b) = ifImage b" by (simp add: muteImage_def)
  ultimately show "sameGroups a a" "sameGroups a (attachImage env b) = sameGroups a b" "sameGroups a (muteImage elig b) = sameGroups a b"
    by (simp_all add: sameGroups_def attachImage_def o_def)
qed

lemma buildReport_section:
  "list_all2 sameGroups (reportSection (Build scans cs tr t1) s) (reportSection (buildReport rn scans cs tr evid t1 t2 t3) s)"
proof -
  have r0: "reportSection ((Build scans cs tr t1)\<lparr>rpEnvironment := e, rpGenericWebhookConfigured := b\<rparr>) s
      = reportSection (Build scans cs tr t1) s" for e b by (simp add: reportSection_def)
  show ?thesis
    by (auto simp: buildReport_def Let_def reportSection_attach reportSection_mute r0 list.rel_map list_all2_same split: option.split)
qed

lemma mergedOf_ids:
  assumes "g \<in> set gs" "v \<in> set (pgVulns g)"
  shows "\<exists>c. mergedOf gs = Some c \<and> vrID v \<in> set (cuIds c)"
proof -
  have "set (foldl (\<lambda>ids i. setAdd i ids) [] xs) = set xs" for xs :: "string list"
    using set_foldl_setAdd [where P = "\<lambda>_. True" and f = "\<lambda>x. x" and ?s0.0 = "[]"] by simp
  then show ?thesis using assms by (auto simp: mergedOf_def VulnIDs_def)
qed

lemma groupsAt_mem:
  assumes "sec \<in> set ss" "img \<in> set sec" "g \<in> set (ifPackages img)"
  shows "g \<in> set (groupsAt ss (key (ifImage img) (pgPackage g)))"
  using assms by (force simp: groupsAt_def keyedGroups_def)

lemma Compute_records:
  assumes "stateOk prev" "img \<in> set (reportSection r s)" "g \<in> set (ifPackages img)" "v \<in> set (pgVulns g)"
    "k = key (ifImage img) (pgPackage g)" "nxt = snd (Compute prev r)"
  shows "(\<exists>e. map_of (stFindings nxt) k = Some e \<and> vrID v \<in> set (etVulnIDs e))
    \<or> (\<exists>l. map_of (stEOLPackages nxt) k = Some l \<and> vrID v \<in> set (elVulnIDs l))"
proof -
  define cx where "cx = cycleEnv (carried prev r) r"
  have ids: "vrID v \<in> set (etVulnIDs (storedEntry cx k c))" "vrID v \<in> set (elVulnIDs (storedEOL cx k c))" if "vrID v \<in> set (cuIds c)" for c
    using that by (auto simp: storedEntry_def storedEOL_def Let_def sortedIDs_def)
  show ?thesis
  proof (cases "s = StatusEndOfLife")
    case False
    then have "g \<in> set (groupsAt [rpActionable r, rpWatch r, rpWontFix r] k)"
      using assms(2,3) unfolding assms(5) by (intro groupsAt_mem) (auto simp: reportSection_def split: if_splits)
    then obtain c where "mergedOf (groupsAt [rpActionable r, rpWatch r, rpWontFix r] k) = Some c" "vrID v \<in> set (cuIds c)"
      using mergedOf_ids assms(4) by blast
    then have "map_of (cxCur cx) k = Some c" by (simp add: cx_def cycleEnv_def mergeSections_at)
    with ids(1) \<open>vrID v \<in> set (cuIds c)\<close> show ?thesis
      by (simp add: assms(6) Compute_finding_at [OF assms(1)] cx_def [symmetric] Let_def mhas_def curAt_def mget_def)
  next
    case True
    then have "g \<in> set (groupsAt [rpEOLPackages r] k)"
      using assms(2,3) unfolding assms(5) by (intro groupsAt_mem) (auto simp: reportSection_def)
    then obtain c where "mergedOf (groupsAt [rpEOLPackages r] k) = Some c" "vrID v \<in> set (cuIds c)"
      using mergedOf_ids assms(4) by blast
    then have "map_of (cxCurEOL cx) k = Some c" by (simp add: cx_def cycleEnv_def mergeSections_at)
    with ids(2) \<open>vrID v \<in> set (cuIds c)\<close> show ?thesis
      by (simp add: assms(6) Compute_eol_at [OF assms(1)] cx_def [symmetric] Let_def mhas_def curEOLAt_def mget_def)
  qed
qed

lemma buildReport_shows:
  assumes "sc \<in> set scans" "snErr sc = None" "f \<in> set (snFindings sc)" "sectionOf (fdStatus f) = Some s"
  shows "\<exists>img \<in> set (reportSection (buildReport rn scans cs tr evid t1 t2 t3) s). ifImage img = snImage sc
     \<and> (\<exists>g \<in> set (ifPackages img). pgPackage g = fdPackage f \<and> (\<exists>v \<in> set (pgVulns g). vrID v = fdVulnID f))"
proof -
  obtain a g where a: "a \<in> set (reportSection (Build scans cs tr t1) s)" "ifImage a = snImage sc" "g \<in> set (ifPackages a)"
      "PackageGroup_PackageRef g = Finding_PackageRef f" "\<exists>v \<in> set (pgVulns g). vrID v = fdVulnID f"
    using Build_shown_iff [of scans cs tr t1 s "snImage sc" "isKey (snSubject sc)" "Finding_PackageRef f" "fdVulnID f"] assms by blast
  have pkg: "pgPackage g = fdPackage f" using a(4) by (simp add: PackageGroup_PackageRef_def Finding_PackageRef_def)
  obtain b where b: "b \<in> set (reportSection (buildReport rn scans cs tr evid t1 t2 t3) s)" "sameGroups a b"
    using buildReport_section a(1) by (metis in_set_conv_nth list_all2_conv_all_nth)
  then have "(fdPackage f, pgVulns g) \<in> set (map (\<lambda>g. (pgPackage g, pgVulns g)) (ifPackages b))"
    using a(3) pkg by (force simp: sameGroups_def)
  then obtain h where "h \<in> set (ifPackages b)" "pgPackage h = fdPackage f" "pgVulns h = pgVulns g" by auto
  moreover have "ifImage b = snImage sc" using b(2) a(2) by (simp add: sameGroups_def)
  ultimately show ?thesis using b(1) a(5) by (metis (no_types))
qed

subsection \<open>Runs of two cycles\<close>

definition sampleRunner :: runner where
  "sampleRunner = \<lparr>rnSource = '''', rnTriage = sampleLinks, rnEnvironment = zeroEnvironment, rnGenericWebhookConfigured = False,
     rnMuteUnfixableNotInUse = True, rnNotifyOnClean = False, rnHasStore = True\<rparr>"

definition sampleWorld :: "state \<Rightarrow> cycle_world" where
  "sampleWorld s = \<lparr>cwLoaded = Inr s, cwFullToday = False, cwPlanDue = False, cwSendFails = False,
     cwThreadRef = \<lparr>frChannel = '''', frTS = '''', frPermalink = ''''\<rparr>, cwSaveFails = False\<rparr>"

text \<open>A cycle whose message cannot be delivered, and the one that repeats it.\<close>

definition sampleFailed :: "(report \<times> cycle_world) list" where
  "sampleFailed = [(sampleReport, (sampleWorld sampleBefore)\<lparr>cwSendFails := True\<rparr>)]"

definition sampleAfter :: state where
  "sampleAfter = stored sampleRunner None sampleBefore (sampleReport, sampleWorld sampleBefore)"

lemma sample_failed:
  "cycles sampleRunner None sampleBefore sampleFailed sampleBefore"
  "\<forall>rw \<in> set sampleFailed. rsError (sendDiff sampleRunner (fst rw) (snd rw)) \<noteq> None"
proof -
  have e: "rsError (sendDiff sampleRunner sampleReport ((sampleWorld sampleBefore)\<lparr>cwSendFails := True\<rparr>)) = Some SendFailed"
    "rsSaved (sendDiff sampleRunner sampleReport ((sampleWorld sampleBefore)\<lparr>cwSendFails := True\<rparr>)) = None" by code_simp+
  show "cycles sampleRunner None sampleBefore sampleFailed sampleBefore"
    by (simp add: sampleFailed_def cycles_Cons stored_def e) (simp add: sampleWorld_def)
  show "\<forall>rw \<in> set sampleFailed. rsError (sendDiff sampleRunner (fst rw) (snd rw)) \<noteq> None"
    by (simp add: sampleFailed_def e)
qed

lemma sample_run:
  "cycles sampleRunner None sampleBefore (sampleFailed @ [(sampleReport, sampleWorld sampleBefore)]) sampleAfter"
proof -
  have "rsSaved (sendDiff sampleRunner sampleReport ((sampleWorld sampleBefore)\<lparr>cwSendFails := True\<rparr>)) = None" by code_simp
  then have "stored sampleRunner None sampleBefore (sampleReport, (sampleWorld sampleBefore)\<lparr>cwSendFails := True\<rparr>) = sampleBefore"
    by (simp add: stored_def)
  then show ?thesis
    by (simp add: sampleFailed_def cycles_Cons sampleAfter_def) (simp add: sampleWorld_def)
qed

theorem cycles_no_silent_change_witness:
  "\<exists>rw \<in> set (sampleFailed @ [(sampleReport, sampleWorld sampleBefore)]). \<exists>m d. delivered sampleRunner rw m
     \<and> msDiff m = Some d \<and> announcesGone d (key ''app:1'' ''curl'')"
proof -
  have "recorded sampleBefore (key ''app:1'' ''curl'')" "\<not> recorded sampleAfter (key ''app:1'' ''curl'')" by code_simp+
  with cycles_no_silent_change [OF sample_run sampleBefore_ok, of "key ''app:1'' ''curl''"] show ?thesis
    by (auto simp: sampleFailed_def sampleWorld_def)
qed

theorem sendDiff_redelivers_witness:
  "\<exists>m d. delivered sampleRunner (sampleReport, sampleWorld sampleBefore) m
     \<and> msDiff m = Some d \<and> dfResolved d = [\<lparr>rvImage = ''app:1'', rvPackage = ''curl''\<rparr>]"
proof -
  have w: "cwLoaded (sampleWorld sampleBefore) = Inr sampleBefore" "\<not> cwSendFails (sampleWorld sampleBefore)"
    by (simp_all add: sampleWorld_def)
  have "HasChanges (fst (Compute sampleBefore sampleReport))" by (simp add: HasChanges_def sampleBefore_cycle(5))
  from sendDiff_redelivers [OF sample_failed w prod.collapse [symmetric] this] show ?thesis
    using sampleBefore_cycle(5) by auto
qed

definition sampleCleanWorld :: cycle_world where
  "sampleCleanWorld = sampleWorld (emptyState\<lparr>stImages := [(''app:1'', zeroImageMeta)]\<rparr>)"

theorem silence_all_clear_witness:
  "\<exists>n. rsSaved (sendDiff sampleRunner (buildReport sampleRunner [sampleScan\<lparr>snFindings := []\<rparr>] [] sampleTriage None 9 9 9) sampleCleanWorld) = Some n
     \<and> stFindings n = [] \<and> stEOSL n = []"
proof -
  let ?r = "buildReport sampleRunner [sampleScan\<lparr>snFindings := []\<rparr>] [] sampleTriage None 9 9 9"
  have q: "rsSent (sendDiff sampleRunner ?r sampleCleanWorld) = None" "rsSaved (sendDiff sampleRunner ?r sampleCleanWorld) \<noteq> None"
    "rpUnconfirmedRefs ?r = []" by code_simp+
  have ok: "stateOk (loadedState sampleCleanWorld)"
    by (simp add: sampleCleanWorld_def loadedState_def sampleWorld_def stateOk_def emptyState_def map_ok_def)
  obtain n where n: "rsSaved (sendDiff sampleRunner ?r sampleCleanWorld) = Some n" using q(2) by blast
  from silence_all_clear [OF refl ok q(1) n] q(3) show ?thesis using mhas_empty [of "stEOSL n"] by (auto simp: n)
qed

text \<open>The only image could not be confirmed, and its base image is recorded as end of life.\<close>

definition sampleGapReport :: report where
  "sampleGapReport = buildReport sampleRunner [sampleScan\<lparr>snFindings := [], snSource := SourceRemote\<rparr>] [] sampleTriage None 9 9 9"

definition sampleGapWorld :: cycle_world where
  "sampleGapWorld = sampleWorld (emptyState\<lparr>stEOSL := [(''app:1'', 5)], stImages := [(''app:1'', zeroImageMeta)]\<rparr>)"

text \<open>
  The exception of the silence property is real: with one image whose scan could not be confirmed
  and whose base image is recorded end of life, the difference says that something is open, the record
  stays in the saved state, and yet no message is sent.
\<close>

lemma silence_gap:
  "rsSent (sendDiff sampleRunner sampleGapReport sampleGapWorld) = None
   \<and> map_option stEOSL (rsSaved (sendDiff sampleRunner sampleGapReport sampleGapWorld)) = Some [(''app:1'', 5)]
   \<and> dfAnyOpen (fst (Compute (loadedState sampleGapWorld) sampleGapReport))
   \<and> rpUnconfirmedRefs sampleGapReport = [''app:1'']"
proof (intro conjI)
  show "rsSent (sendDiff sampleRunner sampleGapReport sampleGapWorld) = None" by code_simp
  show "map_option stEOSL (rsSaved (sendDiff sampleRunner sampleGapReport sampleGapWorld)) = Some [(''app:1'', 5)]" by code_simp
  show "dfAnyOpen (fst (Compute (loadedState sampleGapWorld) sampleGapReport))" by code_simp
  show "rpUnconfirmedRefs sampleGapReport = [''app:1'']" by code_simp
qed

end
