(* ===== verification/Scan_Compare.thy ===== *)
theory Scan_Compare
  imports Analyze
begin

section \<open>Comparing the running image with a candidate\<close>

text \<open>
  \<open>internal/remediation/compare.go\<close> with the scan conditions of \<open>internal/scanner/conditions.go\<close>:
  whether two scans may be compared at all, and what happened to every pair of a vulnerability and a
  package between them. The lemmas show that a result is comparable exactly under the entry
  conditions, that a result that is not comparable claims nothing, and that each verdict is the one
  the two finding sets and the kinds of package the candidate scan analysed call for.

  Details are rendered with \<open>%q\<close> on ASCII text; bytes outside ASCII are kept as they are. The order
  of two occurrences of one pair that agree in version, target and path is the order of the findings
  here; \<open>sort.Slice\<close> leaves it open.
\<close>

subsection \<open>Scan conditions (conditions.go)\<close>

record db_info =
  dbVersion :: int
  dbUpdatedAt :: gtime

definition DBInfo_Known :: "db_info \<Rightarrow> bool" where
  "DBInfo_Known d \<longleftrightarrow> dbVersion d \<noteq> 0 \<and> dbUpdatedAt d \<noteq> 0"

definition DBInfo_equal :: "db_info \<Rightarrow> db_info \<Rightarrow> bool" where
  "DBInfo_equal d e \<longleftrightarrow> dbVersion d = dbVersion e \<and> dbUpdatedAt d = dbUpdatedAt e"

record scan_conditions =
  scTrivyVersion :: string
  scVulnerabilityDB :: db_info
  scJavaDB :: db_info
  scSeverities :: "string list"
  scAnalysisSettings :: string
  scVulnerabilityDBSHA :: string
  scJavaDBSHA :: string
  scTrivySHA :: string

definition ScanConditions_Known :: "scan_conditions \<Rightarrow> bool" where
  "ScanConditions_Known c \<longleftrightarrow>
     scTrivyVersion c \<noteq> '''' \<and> DBInfo_Known (scVulnerabilityDB c) \<and> DBInfo_Known (scJavaDB c) \<and>
     length (scSeverities c) > 0 \<and> scAnalysisSettings c \<noteq> '''' \<and>
     scVulnerabilityDBSHA c \<noteq> '''' \<and> scJavaDBSHA c \<noteq> '''' \<and> scTrivySHA c \<noteq> ''''"

definition ScanConditions_Equal :: "scan_conditions \<Rightarrow> scan_conditions \<Rightarrow> bool" where
  "ScanConditions_Equal c e =
     (if \<not> ScanConditions_Known c \<or> \<not> ScanConditions_Known e then False
      else if scTrivyVersion c \<noteq> scTrivyVersion e \<or> scAnalysisSettings c \<noteq> scAnalysisSettings e \<or>
        scVulnerabilityDBSHA c \<noteq> scVulnerabilityDBSHA e \<or> scJavaDBSHA c \<noteq> scJavaDBSHA e \<or>
        scTrivySHA c \<noteq> scTrivySHA e \<or> \<not> DBInfo_equal (scVulnerabilityDB c) (scVulnerabilityDB e) \<or>
        \<not> DBInfo_equal (scJavaDB c) (scJavaDB e) \<or> length (scSeverities c) \<noteq> length (scSeverities e) then False
      else list_all (\<lambda>(s, t). s = t) (zip (scSeverities c) (scSeverities e)))"

definition normalizeSeverities :: "string list \<Rightarrow> string list" where
  "normalizeSeverities inp =
     sort (fold (\<lambda>e out. fold (\<lambda>p out. let s = toUpper (trimSpace p) in
                if s \<noteq> '''' \<and> s \<notin> set out then out @ [s] else out) (splitOn (CHR '','') e) out) inp [])"

subsection \<open>Results of a comparison\<close>

abbreviation ReasonScanFailed :: string where "ReasonScanFailed \<equiv> ''scan_failed''"
abbreviation ReasonEntityUnverified :: string where "ReasonEntityUnverified \<equiv> ''entity_unverified''"
abbreviation ReasonConditionsUnknown :: string where "ReasonConditionsUnknown \<equiv> ''conditions_unknown''"
abbreviation ReasonConditionsDiffer :: string where "ReasonConditionsDiffer \<equiv> ''conditions_differ''"
abbreviation ReasonPlatformUnknown :: string where "ReasonPlatformUnknown \<equiv> ''platform_unknown''"
abbreviation ReasonPlatformDiffer :: string where "ReasonPlatformDiffer \<equiv> ''platform_differ''"
abbreviation ReasonVariantUnsupported :: string where "ReasonVariantUnsupported \<equiv> ''variant_unsupported''"
abbreviation ReasonPackagesMissing :: string where "ReasonPackagesMissing \<equiv> ''packages_missing''"
abbreviation ReasonPackagesTruncated :: string where "ReasonPackagesTruncated \<equiv> ''packages_truncated''"
abbreviation ReasonUnknownPackageType :: string where "ReasonUnknownPackageType \<equiv> ''unknown_package_type''"
abbreviation ReasonTypeNotAnalysed :: string where "ReasonTypeNotAnalysed \<equiv> ''type_not_analysed''"

abbreviation OutcomeResolved :: string where "OutcomeResolved \<equiv> ''resolved''"
abbreviation OutcomeRemaining :: string where "OutcomeRemaining \<equiv> ''remaining''"
abbreviation OutcomeIntroduced :: string where "OutcomeIntroduced \<equiv> ''introduced''"
abbreviation OutcomeUnknown :: string where "OutcomeUnknown \<equiv> ''unknown''"

abbreviation DispositionNone :: string where "DispositionNone \<equiv> ''''"
abbreviation DispositionRemoved :: string where "DispositionRemoved \<equiv> ''package_removed''"
abbreviation DispositionVersionChanged :: string where "DispositionVersionChanged \<equiv> ''version_changed''"
abbreviation DispositionSameVersion :: string where "DispositionSameVersion \<equiv> ''same_version''"

record package_coord =
  pcEcosystem :: string
  pcClass :: string
  pcName :: string

record occurrence =
  ocPackage :: package_ref
  ocType :: string
  ocTarget :: string
  ocPkgPath :: string
  ocStatus :: string
  ocFixedVer :: string

record vuln_verdict =
  vvVulnID :: string
  vvPackage :: package_coord
  vvSeverity :: string
  vvBefore :: "occurrence list"
  vvAfter :: "occurrence list"
  vvOutcome :: string
  vvDisposition :: string
  vvReason :: string

definition appendNew :: "'a list \<Rightarrow> 'a \<Rightarrow> 'a list" where
  "appendNew out x = (if x \<in> set out then out else out @ [x])"

definition Occurrence_Versions :: "occurrence list \<Rightarrow> string list" where
  "Occurrence_Versions occ = sort (foldl (\<lambda>out oc. appendNew out (prVersion (ocPackage oc))) [] occ)"

record scan_record =
  srScan :: image_scan
  srConditions :: scan_conditions

record verification_result =
  vrComparable :: bool
  vrReason :: string
  vrDetail :: string
  vrBaselineEntity :: string
  vrCandidateEntity :: string
  vrSeverities :: "string list"
  vrScope :: string
  vrVerdicts :: "vuln_verdict list"
  vrIntroduced :: "vuln_verdict list"

definition VerificationResult_Counts :: "verification_result \<Rightarrow> nat \<times> nat \<times> nat" where
  "VerificationResult_Counts r =
     (length (filter (\<lambda>v. vvOutcome v = OutcomeResolved) (vrVerdicts r)),
      length (filter (\<lambda>v. vvOutcome v = OutcomeRemaining) (vrVerdicts r)),
      length (vrIntroduced r))"

subsection \<open>Grouping the findings of a scan\<close>

record verdict_key =
  vkVuln :: string
  vkCoord :: package_coord

text \<open>A \<open>map[Occurrence]bool\<close> that only ever stores \<open>true\<close> is the list of its keys.\<close>

record pair_acc =
  paSeverity :: string
  paOcc :: "occurrence list"
  paSeen :: "occurrence list"

definition coordOf :: "finding \<Rightarrow> package_coord" where
  "coordOf f = (let r = Finding_PackageRef f in
     \<lparr>pcEcosystem = prEcosystem r, pcClass = prClass r, pcName = prName r\<rparr>)"

definition keyOfFinding :: "finding \<Rightarrow> verdict_key" where
  "keyOfFinding f = \<lparr>vkVuln = fdVulnID f, vkCoord = coordOf f\<rparr>"

definition occurrenceOf :: "finding \<Rightarrow> occurrence" where
  "occurrenceOf f = \<lparr>ocPackage = Finding_PackageRef f, ocType = fdType f, ocTarget = fdTarget f,
     ocPkgPath = fdPkgPath f, ocStatus = fdStatus f, ocFixedVer = fdFixedVer f\<rparr>"

definition inRange :: "string list \<Rightarrow> finding \<Rightarrow> bool" where
  "inRange rng f \<longleftrightarrow> toUpper (fdSeverity f) \<in> set rng"

definition addOccurrence :: "pair_acc option \<Rightarrow> finding \<Rightarrow> pair_acc" where
  "addOccurrence a f =
     (let acc = (case a of None \<Rightarrow> \<lparr>paSeverity = fdSeverity f, paOcc = [], paSeen = []\<rparr> | Some acc \<Rightarrow> acc);
          oc = occurrenceOf f in
      if oc \<in> set (paSeen acc) then acc
      else acc\<lparr>paSeen := oc # paSeen acc, paOcc := paOcc acc @ [oc]\<rparr>)"

definition collectStep :: "string list \<Rightarrow> (verdict_key, pair_acc) gmap \<Rightarrow> finding \<Rightarrow> (verdict_key, pair_acc) gmap" where
  "collectStep rng out f =
     (if \<not> inRange rng f then out
      else mput (keyOfFinding f) (addOccurrence (map_of out (keyOfFinding f)) f) out)"

definition lessOccurrence :: "occurrence \<Rightarrow> occurrence \<Rightarrow> bool" where
  "lessOccurrence a b =
     (if prVersion (ocPackage a) \<noteq> prVersion (ocPackage b) then prVersion (ocPackage a) < prVersion (ocPackage b)
      else if ocTarget a \<noteq> ocTarget b then ocTarget a < ocTarget b
      else ocPkgPath a < ocPkgPath b)"

definition sortAcc :: "pair_acc \<Rightarrow> pair_acc" where
  "sortAcc acc = acc\<lparr>paOcc := sortBy lessOccurrence (paOcc acc)\<rparr>"

definition collectPairs :: "image_scan \<Rightarrow> string list \<Rightarrow> (verdict_key, pair_acc) gmap" where
  "collectPairs scan rng = map (\<lambda>(k, acc). (k, sortAcc acc)) (foldl (collectStep rng) [] (snFindings scan))"

definition lessVerdictKey :: "verdict_key \<Rightarrow> verdict_key \<Rightarrow> bool" where
  "lessVerdictKey a b =
     (if vkVuln a \<noteq> vkVuln b then vkVuln a < vkVuln b
      else if pcName (vkCoord a) \<noteq> pcName (vkCoord b) then pcName (vkCoord a) < pcName (vkCoord b)
      else if pcClass (vkCoord a) \<noteq> pcClass (vkCoord b) then pcClass (vkCoord a) < pcClass (vkCoord b)
      else pcEcosystem (vkCoord a) < pcEcosystem (vkCoord b))"

definition sortedKeys :: "(verdict_key, pair_acc) gmap \<Rightarrow> verdict_key list" where
  "sortedKeys m = sortBy lessVerdictKey (mkeys m)"

subsection \<open>The comparison\<close>

definition Unconfirmed :: string where "Unconfirmed = ''unconfirmed''"

definition entityString :: "entity_key \<Rightarrow> string" where
  "entityString k =
     (if \<not> Digest_Valid (ekDigest k) then Unconfirmed
      else (let s = dgKind (ekDigest k) @ '':'' @ Digest_String (ekDigest k) in
            if Platform_Known (ekPlatform k)
            then s @ ''@'' @ plOS (ekPlatform k) @ ''/'' @ plArchitecture (ekPlatform k) else s))"

definition comparisonScope :: "string list \<Rightarrow> string" where
  "comparisonScope sev =
     (if sev = [] then ''no severity range known: nothing was evaluated''
      else ''only findings of severity '' @ joinWith '', '' sev
             @ '' were evaluated; other severities are not covered'')"

definition zeroPairAcc :: pair_acc where
  "zeroPairAcc = \<lparr>paSeverity = '''', paOcc = [], paSeen = []\<rparr>"

definition unknownVerdict :: "(verdict_key, pair_acc) gmap \<Rightarrow> verdict_key \<Rightarrow> vuln_verdict" where
  "unknownVerdict bm k =
     \<lparr>vvVulnID = vkVuln k, vvPackage = vkCoord k, vvSeverity = paSeverity (mget zeroPairAcc bm k),
      vvBefore = paOcc (mget zeroPairAcc bm k), vvAfter = [], vvOutcome = OutcomeUnknown,
      vvDisposition = DispositionNone, vvReason = ''''\<rparr>"

definition notComparable :: "scan_record \<Rightarrow> string \<Rightarrow> string \<Rightarrow> string list \<Rightarrow> string list \<Rightarrow> verification_result" where
  "notComparable base reason detail rng sev =
     (let bm = collectPairs (srScan base) rng; ok = (snErr (srScan base) = None) in
      \<lparr>vrComparable = False, vrReason = reason, vrDetail = detail,
       vrBaselineEntity = (if ok then entityString (isKey (snSubject (srScan base))) else ''''),
       vrCandidateEntity = '''', vrSeverities = sev, vrScope = comparisonScope sev,
       vrVerdicts = (if ok then map (unknownVerdict bm) (sortedKeys bm) else []), vrIntroduced = []\<rparr>)"

text \<open>\<open>strconv.Quote\<close>, the \<open>%q\<close> verb.\<close>

definition hexDigits :: string where "hexDigits = ''0123456789abcdef''"

definition quoteByte :: "char \<Rightarrow> string" where
  "quoteByte c = (let n = (of_char c :: nat); bs = CHR 0x5C in
     if n = 34 then [bs, c] else if n = 92 then [bs, bs]
     else if n = 7 then bs # ''a'' else if n = 8 then bs # ''b'' else if n = 12 then bs # ''f''
     else if n = 10 then bs # ''n'' else if n = 13 then bs # ''r'' else if n = 9 then bs # ''t''
     else if n = 11 then bs # ''v''
     else if n < 32 \<or> n = 127 then bs # CHR ''x'' # [hexDigits ! (n div 16), hexDigits ! (n mod 16)]
     else [c])"

definition quote :: "string \<Rightarrow> string" where
  "quote s = CHR 0x22 # concat (map quoteByte s) @ [CHR 0x22]"

fun firstSome :: "('a \<Rightarrow> 'b option) \<Rightarrow> 'a list \<Rightarrow> 'b option" where
  "firstSome f [] = None"
| "firstSome f (x # xs) = (case f x of Some y \<Rightarrow> Some y | None \<Rightarrow> firstSome f xs)"

definition orElse :: "'a option \<Rightarrow> 'a option \<Rightarrow> 'a option" where
  "orElse a b = (case a of Some x \<Rightarrow> Some x | None \<Rightarrow> b)"

text \<open>The checks of \<open>Compare\<close> in their order; a failed check gives the reason and the detail.\<close>

definition failedCheck :: "string \<times> scan_record \<Rightarrow> (string \<times> string) option" where
  "failedCheck = (\<lambda>(name, rec).
     case snErr (srScan rec) of None \<Rightarrow> None
     | Some e \<Rightarrow> Some (ReasonScanFailed, name @ '' scan failed: '' @ e))"

definition entityCheck :: "string \<times> scan_record \<Rightarrow> (string \<times> string) option" where
  "entityCheck = (\<lambda>(name, rec).
     if \<not> isResolved (snSubject (srScan rec)) \<or> \<not> snPinned (srScan rec)
     then Some (ReasonEntityUnverified, name @ '' scan did not confirm the image it scanned'') else None)"

definition conditionsCheck :: "scan_conditions \<Rightarrow> scan_conditions \<Rightarrow> (string \<times> string) option" where
  "conditionsCheck b c =
     (if \<not> ScanConditions_Known b \<or> \<not> ScanConditions_Known c
      then Some (ReasonConditionsUnknown, ''scan conditions are not known for both scans'')
      else if \<not> ScanConditions_Equal b c
      then Some (ReasonConditionsDiffer, ''the scans ran under different conditions'') else None)"

definition platformCheck :: "platform \<Rightarrow> platform \<Rightarrow> (string \<times> string) option" where
  "platformCheck bp cp =
     (if \<not> Platform_Known bp \<or> \<not> Platform_Known cp
      then Some (ReasonPlatformUnknown, ''the platform of a scan is not known'')
      else if plVariant bp \<noteq> '''' \<or> plVariant cp \<noteq> ''''
      then Some (ReasonVariantUnsupported, ''a platform variant is involved'')
      else if plOS bp \<noteq> plOS cp \<or> plArchitecture bp \<noteq> plArchitecture cp
      then Some (ReasonPlatformDiffer, ''the scans cover different platforms'') else None)"

definition packagesCheck :: "string \<times> scan_record \<Rightarrow> (string \<times> string) option" where
  "packagesCheck = (\<lambda>(name, rec).
     if length (snPackages (srScan rec)) = 0
     then Some (ReasonPackagesMissing, name @ '' scan has no package list'')
     else if snPackagesTruncated (srScan rec)
     then Some (ReasonPackagesTruncated, name @ '' package list is truncated'') else None)"

definition findingTypeCheck :: "string \<Rightarrow> string list \<Rightarrow> finding \<Rightarrow> (string \<times> string) option" where
  "findingTypeCheck name rng f =
     (if inRange rng f \<and> ParseEcosystem (fdType f) = EcosystemUnknown
      then Some (ReasonUnknownPackageType, name @ '' finding '' @ fdVulnID f @ '' in '' @ quote (fdPackage f)
             @ '' has package type '' @ quote (fdType f)) else None)"

definition listTypeCheck :: "result_packages \<Rightarrow> (string \<times> string) option" where
  "listTypeCheck rp =
     (if ParseEcosystem (rsType rp) = EcosystemUnknown
      then Some (ReasonUnknownPackageType, ''candidate package list has result type '' @ quote (rsType rp)) else None)"

definition compareChecks :: "scan_record \<Rightarrow> scan_record \<Rightarrow> string list \<Rightarrow> (string \<times> string) option" where
  "compareChecks baseline candidate rng =
     (let sides = [(''baseline'', baseline), (''candidate'', candidate)] in
      orElse (firstSome failedCheck sides)
      (orElse (firstSome entityCheck sides)
      (orElse (conditionsCheck (srConditions baseline) (srConditions candidate))
      (orElse (platformCheck (snPlatform (srScan baseline)) (snPlatform (srScan candidate)))
      (orElse (firstSome packagesCheck sides)
      (orElse (firstSome (findingTypeCheck ''baseline'' rng) (snFindings (srScan baseline)))
      (orElse (firstSome listTypeCheck (snPackages (srScan candidate)))
        (firstSome (findingTypeCheck ''candidate'' rng) (snFindings (srScan candidate))))))))))"

definition packageVersions :: "image_scan \<Rightarrow> (package_coord, string list) gmap" where
  "packageVersions scan =
     foldl (\<lambda>out rp. foldl (\<lambda>out p.
         (let c = \<lparr>pcEcosystem = ParseEcosystem (rsType rp), pcClass = rsClass rp, pcName = pkName p\<rparr> in
          mput c (appendNew (mget [] out c) (pkVersion p)) out)) out (rsPackages rp)) [] (snPackages scan)"

definition dispositionOf :: "package_coord \<Rightarrow> string list \<Rightarrow> (package_coord, string list) gmap \<Rightarrow> string" where
  "dispositionOf c before cand =
     (let have = mget [] cand c in
      if length have = 0 then DispositionRemoved
      else if list_ex (\<lambda>v. v \<in> set have) before then DispositionSameVersion
      else DispositionVersionChanged)"

definition analysedKinds :: "image_scan \<Rightarrow> (string \<times> string) list" where
  "analysedKinds scan =
     foldl (\<lambda>out rp. if rsClass rp = ClassOS \<and> snOSFamily scan = '''' then out
                     else appendNew out (rsType rp, rsClass rp)) [] (snPackages scan)"

fun unanalysed :: "occurrence list \<Rightarrow> (string \<times> string) list \<Rightarrow> string" where
  "unanalysed [] analysed = ''''"
| "unanalysed (oc # occ) analysed =
     (if (ocType oc, prClass (ocPackage oc)) \<notin> set analysed then ocType oc else unanalysed occ analysed)"

definition verdictFor :: "(verdict_key, pair_acc) gmap \<Rightarrow> (verdict_key, pair_acc) gmap
    \<Rightarrow> (package_coord, string list) gmap \<Rightarrow> (string \<times> string) list \<Rightarrow> verdict_key \<Rightarrow> vuln_verdict" where
  "verdictFor bm cm candPkgs analysed k =
     (let b = mget zeroPairAcc bm k;
          v = \<lparr>vvVulnID = vkVuln k, vvPackage = vkCoord k, vvSeverity = paSeverity b, vvBefore = paOcc b, vvAfter = [],
               vvOutcome = '''', vvDisposition = DispositionNone, vvReason = ''''\<rparr> in
      case map_of cm k of
        Some c \<Rightarrow> v\<lparr>vvAfter := paOcc c, vvOutcome := OutcomeRemaining\<rparr>
      | None \<Rightarrow>
          if unanalysed (paOcc b) analysed \<noteq> ''''
          then v\<lparr>vvOutcome := OutcomeUnknown, vvReason := ReasonTypeNotAnalysed\<rparr>
          else v\<lparr>vvOutcome := OutcomeResolved,
                 vvDisposition := dispositionOf (vkCoord k) (Occurrence_Versions (paOcc b)) candPkgs\<rparr>)"

definition introducedFor :: "(verdict_key, pair_acc) gmap \<Rightarrow> verdict_key \<Rightarrow> vuln_verdict" where
  "introducedFor cm k =
     \<lparr>vvVulnID = vkVuln k, vvPackage = vkCoord k, vvSeverity = paSeverity (mget zeroPairAcc cm k), vvBefore = [],
      vvAfter = paOcc (mget zeroPairAcc cm k), vvOutcome = OutcomeIntroduced, vvDisposition = DispositionNone,
      vvReason = ''''\<rparr>"

definition comparedSeverities :: "scan_record \<Rightarrow> scan_record \<Rightarrow> string list" where
  "comparedSeverities baseline candidate =
     (let sev = scSeverities (srConditions baseline) in
      if length sev = 0 then scSeverities (srConditions candidate) else sev)"

definition Compare :: "scan_record \<Rightarrow> scan_record \<Rightarrow> verification_result" where
  "Compare baseline candidate =
     (let sev = comparedSeverities baseline candidate; rng = map toUpper sev in
      case compareChecks baseline candidate rng of
        Some (reason, detail) \<Rightarrow> notComparable baseline reason detail rng sev
      | None \<Rightarrow>
         (let bm = collectPairs (srScan baseline) rng; cm = collectPairs (srScan candidate) rng;
              candPkgs = packageVersions (srScan candidate); analysed = analysedKinds (srScan candidate) in
          \<lparr>vrComparable = True, vrReason = '''', vrDetail = '''',
           vrBaselineEntity = entityString (isKey (snSubject (srScan baseline))),
           vrCandidateEntity = entityString (isKey (snSubject (srScan candidate))),
           vrSeverities = sev, vrScope = comparisonScope sev,
           vrVerdicts = map (verdictFor bm cm candPkgs analysed) (sortedKeys bm),
           vrIntroduced = map (introducedFor cm) (filter (\<lambda>k. \<not> mhas bm k) (sortedKeys cm))\<rparr>))"

subsection \<open>Specification vocabulary\<close>

text \<open>
  The findings of a scan that speak of a pair, in the evaluated range; the kinds of package a scan
  analysed; the versions of a package it lists; and the entry conditions of a comparison.
\<close>

definition findingsFor :: "string list \<Rightarrow> image_scan \<Rightarrow> verdict_key \<Rightarrow> finding list" where
  "findingsFor rng scan k = filter (\<lambda>f. inRange rng f \<and> keyOfFinding f = k) (snFindings scan)"

definition analysedKind :: "image_scan \<Rightarrow> string \<Rightarrow> string \<Rightarrow> bool" where
  "analysedKind scan typ cls \<longleftrightarrow> (cls = ClassOS \<longrightarrow> snOSFamily scan \<noteq> '''') \<and>
     (\<exists>rp \<in> set (snPackages scan). rsType rp = typ \<and> rsClass rp = cls)"

definition lists :: "image_scan \<Rightarrow> package_coord \<Rightarrow> string \<Rightarrow> bool" where
  "lists scan c ver \<longleftrightarrow> (\<exists>rp \<in> set (snPackages scan). ParseEcosystem (rsType rp) = pcEcosystem c \<and>
     rsClass rp = pcClass c \<and> (\<exists>p \<in> set (rsPackages rp). pkName p = pcName c \<and> pkVersion p = ver))"

definition scanUsable :: "image_scan \<Rightarrow> bool" where
  "scanUsable s \<longleftrightarrow> snErr s = None \<and> isResolved (snSubject s) \<and> snPinned s \<and> Platform_Known (snPlatform s) \<and>
     plVariant (snPlatform s) = '''' \<and> snPackages s \<noteq> [] \<and> \<not> snPackagesTruncated s"

definition typesKnown :: "string list \<Rightarrow> image_scan \<Rightarrow> bool" where
  "typesKnown rng s \<longleftrightarrow> (\<forall>f \<in> set (snFindings s). inRange rng f \<longrightarrow> ParseEcosystem (fdType f) \<noteq> EcosystemUnknown)"

definition comparablePair :: "scan_record \<Rightarrow> scan_record \<Rightarrow> bool" where
  "comparablePair b c \<longleftrightarrow> (let rng = map toUpper (scSeverities (srConditions b)) in
     scanUsable (srScan b) \<and> scanUsable (srScan c) \<and> ScanConditions_Known (srConditions b) \<and>
     srConditions b = srConditions c \<and> snPlatform (srScan b) = snPlatform (srScan c) \<and>
     typesKnown rng (srScan b) \<and> typesKnown rng (srScan c) \<and>
     (\<forall>rp \<in> set (snPackages (srScan c)). ParseEcosystem (rsType rp) \<noteq> EcosystemUnknown))"

subsection \<open>Grouping by a key\<close>

text \<open>
  A loop that keeps, per key, an accumulator updated by every element picked for that key. What it
  holds for a key depends only on the elements of that key, in their order.
\<close>

locale grouping =
  fixes pick :: "'x \<Rightarrow> bool"
    and keyOf :: "'x \<Rightarrow> 'k"
    and upd :: "'v option \<Rightarrow> 'x \<Rightarrow> 'v"
    and step :: "('k, 'v) gmap \<Rightarrow> 'x \<Rightarrow> ('k, 'v) gmap"
  assumes step_pick: "pick x \<Longrightarrow> step m x = mput (keyOf x) (upd (map_of m (keyOf x)) x) m"
    and step_skip: "\<not> pick x \<Longrightarrow> step m x = m"
begin

lemma lookup_loop:
  "map_of (foldl step m xs) k =
     foldl (\<lambda>v x. Some (upd v x)) (map_of m k) (filter (\<lambda>x. pick x \<and> keyOf x = k) xs)"
proof (induction xs arbitrary: m)
  case (Cons x xs)
  then show ?case by (cases "pick x") (auto simp: step_pick step_skip)
qed simp

lemma loop_ok: "map_ok m \<Longrightarrow> map_ok (foldl step m xs)"
proof (induction xs arbitrary: m)
  case (Cons x xs)
  then show ?case by (cases "pick x") (auto simp: step_pick step_skip)
qed simp

lemma foldl_Some: "xs \<noteq> [] \<Longrightarrow> foldl (\<lambda>v x. Some (upd v x)) v xs \<noteq> None"
  by (induction xs rule: rev_induct) auto

lemma loop_keys: "map_of (foldl step [] xs) k = None \<longleftrightarrow> filter (\<lambda>x. pick x \<and> keyOf x = k) xs = []"
  using foldl_Some [of "filter (\<lambda>x. pick x \<and> keyOf x = k) xs" None]
  by (cases "filter (\<lambda>x. pick x \<and> keyOf x = k) xs = []") (simp_all add: lookup_loop)

end

interpretation pairs: grouping "inRange rng" keyOfFinding addOccurrence "collectStep rng" for rng
  by unfold_locales (auto simp: collectStep_def)

subsection \<open>What the grouped findings hold\<close>

lemma set_appendNew [simp]: "set (appendNew out x) = insert x (set out)"
  by (auto simp: appendNew_def)

lemma distinct_appendNew [simp]: "distinct (appendNew out x) = distinct out"
  by (auto simp: appendNew_def)

lemma set_foldl_appendNew: "set (foldl (\<lambda>out x. appendNew out (f x)) out xs) = set out \<union> f ` set xs"
  by (induction xs arbitrary: out) auto

lemma distinct_foldl_appendNew: "distinct (foldl (\<lambda>out x. appendNew out (f x)) out xs) = distinct out"
  by (induction xs arbitrary: out) auto

lemma distinct_sortBy [simp]: "distinct (sortBy lt xs) = distinct xs"
  by (metis distinct_count_atmost_1 mset_sortBy set_mset_mset)

lemma addOccurrence_loop:
  assumes "fs \<noteq> []"
  shows "\<exists>acc. foldl (\<lambda>v f. Some (addOccurrence v f)) None fs = Some acc \<and> paSeverity acc = fdSeverity (hd fs) \<and>
    set (paOcc acc) = occurrenceOf ` set fs \<and> distinct (paOcc acc) \<and> set (paSeen acc) = set (paOcc acc)"
  using assms
proof (induction fs rule: rev_nonempty_induct)
  case (single f)
  then show ?case by (simp add: addOccurrence_def Let_def)
next
  case (snoc f fs)
  then show ?case by (auto simp: addOccurrence_def Let_def)
qed

lemma map_of_collectPairs:
  "map_of (collectPairs scan rng) k = map_option sortAcc (map_of (foldl (collectStep rng) [] (snFindings scan)) k)"
  unfolding collectPairs_def by (rule map_of_map_key)

lemma collectPairs_None: "map_of (collectPairs scan rng) k = None \<longleftrightarrow> findingsFor rng scan k = []"
  by (simp add: map_of_collectPairs pairs.loop_keys findingsFor_def)

lemma collectPairs_Some:
  assumes "findingsFor rng scan k \<noteq> []"
  shows "\<exists>acc. map_of (collectPairs scan rng) k = Some acc \<and>
    paSeverity acc = fdSeverity (hd (findingsFor rng scan k)) \<and>
    set (paOcc acc) = occurrenceOf ` set (findingsFor rng scan k) \<and> distinct (paOcc acc)"
proof -
  obtain acc where "map_of (foldl (collectStep rng) [] (snFindings scan)) k = Some acc"
    "paSeverity acc = fdSeverity (hd (findingsFor rng scan k))"
    "set (paOcc acc) = occurrenceOf ` set (findingsFor rng scan k)" "distinct (paOcc acc)"
    using addOccurrence_loop [OF assms] unfolding pairs.lookup_loop findingsFor_def by auto
  then show ?thesis by (auto simp: map_of_collectPairs sortAcc_def)
qed

lemma map_ok_collectPairs: "map_ok (collectPairs scan rng)"
proof -
  have "map_ok (foldl (collectStep rng) [] (snFindings scan))" by (rule pairs.loop_ok) simp
  then show ?thesis by (simp add: map_ok_def collectPairs_def comp_def case_prod_beta)
qed

lemma set_sortedKeys [simp]: "set (sortedKeys m) = dom (map_of m)"
  by (simp add: sortedKeys_def)

lemma distinct_sortedKeys: "map_ok m \<Longrightarrow> distinct (sortedKeys m)"
  by (simp add: sortedKeys_def)

lemma dom_collectPairs: "dom (map_of (collectPairs scan rng)) = {k. findingsFor rng scan k \<noteq> []}"
  by (simp add: dom_def collectPairs_None)

lemma strict_weak_lessVerdictKey: "strict_weak lessVerdictKey"
proof -
  have eq: "lessVerdictKey = ltThen (\<lambda>a b. vkVuln a < vkVuln b) (ltThen (\<lambda>a b. pcName (vkCoord a) < pcName (vkCoord b))
      (ltThen (\<lambda>a b. pcClass (vkCoord a) < pcClass (vkCoord b)) (\<lambda>a b. pcEcosystem (vkCoord a) < pcEcosystem (vkCoord b))))"
    by (intro ext) (auto simp: lessVerdictKey_def ltThen_def)
  show ?thesis unfolding eq by (intro strict_weak_ltThen strict_weak_key)
qed

interpretation verdict_key_order: strict_weak lessVerdictKey
  by (rule strict_weak_lessVerdictKey)

lemma lessVerdictKey_tie: "\<not> lessVerdictKey a b \<Longrightarrow> \<not> lessVerdictKey b a \<Longrightarrow> a = b"
  by (cases a; cases b; cases "vkCoord a"; cases "vkCoord b") (auto simp: lessVerdictKey_def split: if_splits)

lemma set_analysedKinds: "(typ, cls) \<in> set (analysedKinds scan) \<longleftrightarrow> analysedKind scan typ cls"
proof -
  have "set (foldl (\<lambda>out rp. if rsClass rp = ClassOS \<and> snOSFamily scan = '''' then out
            else appendNew out (rsType rp, rsClass rp)) out rps) =
        set out \<union> (\<lambda>rp. (rsType rp, rsClass rp)) ` {rp \<in> set rps. \<not> (rsClass rp = ClassOS \<and> snOSFamily scan = '''')}" for out rps
    by (induction rps arbitrary: out) auto
  then show ?thesis by (auto simp: analysedKinds_def analysedKind_def)
qed

lemma unanalysed_Nil: "\<forall>oc \<in> set occ. (ocType oc, prClass (ocPackage oc)) \<in> set an \<Longrightarrow> unanalysed occ an = ''''"
  by (induction occ) auto

lemma unanalysed_iff:
  "\<forall>oc \<in> set occ. ocType oc \<noteq> '''' \<Longrightarrow>
   unanalysed occ an = '''' \<longleftrightarrow> (\<forall>oc \<in> set occ. (ocType oc, prClass (ocPackage oc)) \<in> set an)"
  by (induction occ) auto

lemma packageVersions_inner:
  "v \<in> set (mget [] (foldl (\<lambda>out p. (let c = \<lparr>pcEcosystem = e, pcClass = cl, pcName = pkName p\<rparr> in
          mput c (appendNew (mget [] out c) (pkVersion p)) out)) m ps) c) \<longleftrightarrow>
   v \<in> set (mget [] m c) \<or> (e = pcEcosystem c \<and> cl = pcClass c \<and> (\<exists>p \<in> set ps. pkName p = pcName c \<and> pkVersion p = v))"
  by (induction ps arbitrary: m) (auto simp: Let_def split: if_splits)

lemma packageVersions_lists: "v \<in> set (mget [] (packageVersions scan) c) \<longleftrightarrow> lists scan c v"
proof -
  let ?step = "\<lambda>out rp. foldl (\<lambda>out p. (let c = \<lparr>pcEcosystem = ParseEcosystem (rsType rp), pcClass = rsClass rp, pcName = pkName p\<rparr> in
          mput c (appendNew (mget [] out c) (pkVersion p)) out)) out (rsPackages rp)"
  have "v \<in> set (mget [] (foldl ?step m rps) c) \<longleftrightarrow>
      v \<in> set (mget [] m c) \<or> (\<exists>rp \<in> set rps. ParseEcosystem (rsType rp) = pcEcosystem c \<and>
     rsClass rp = pcClass c \<and> (\<exists>p \<in> set (rsPackages rp). pkName p = pcName c \<and> pkVersion p = v))" for m rps
    by (induction rps arbitrary: m) (auto simp: packageVersions_inner)
  from this [of "[]" "snPackages scan"] show ?thesis unfolding packageVersions_def lists_def by (simp only: mget_Nil list.set empty_iff simp_thms)
qed

lemma set_Occurrence_Versions [simp]: "set (Occurrence_Versions occ) = (\<lambda>oc. prVersion (ocPackage oc)) ` set occ"
  by (simp add: Occurrence_Versions_def set_foldl_appendNew)

subsection \<open>The entry conditions\<close>

lemma firstSome_None [simp]: "firstSome f xs = None \<longleftrightarrow> (\<forall>x \<in> set xs. f x = None)"
  by (induction xs) (auto split: option.splits)

lemma orElse_None [simp]: "orElse a b = None \<longleftrightarrow> a = None \<and> b = None"
  by (simp add: orElse_def split: option.splits)

lemma ScanConditions_Equal_iff: "ScanConditions_Equal c e \<longleftrightarrow> ScanConditions_Known c \<and> c = e"
proof -
  have "list_all (\<lambda>(s, t). s = t) (zip xs ys) \<and> length xs = length ys \<longleftrightarrow> xs = ys" for xs ys :: "string list"
    by (auto simp: list_all_iff list_all2_eq list_all2_iff)
  then show ?thesis
    by (cases c; cases e; cases "scVulnerabilityDB c"; cases "scVulnerabilityDB e"; cases "scJavaDB c"; cases "scJavaDB e")
      (auto simp: ScanConditions_Equal_def DBInfo_equal_def)
qed

lemma compareChecks_None:
  "compareChecks b c (map toUpper (comparedSeverities b c)) = None \<longleftrightarrow> comparablePair b c"
proof -
  have sev: "comparedSeverities b c = scSeverities (srConditions b)" if "ScanConditions_Known (srConditions b)"
    using that by (auto simp: comparedSeverities_def ScanConditions_Known_def)
  have "snPlatform (srScan b) = snPlatform (srScan c)" if "plVariant (snPlatform (srScan b)) = ''''"
    "plVariant (snPlatform (srScan c)) = ''''" "plOS (snPlatform (srScan b)) = plOS (snPlatform (srScan c))"
    "plArchitecture (snPlatform (srScan b)) = plArchitecture (snPlatform (srScan c))"
    using that by (cases "snPlatform (srScan b)"; cases "snPlatform (srScan c)") simp
  then show ?thesis
    unfolding compareChecks_def comparablePair_def scanUsable_def typesKnown_def Let_def
    by (auto simp: failedCheck_def entityCheck_def conditionsCheck_def platformCheck_def packagesCheck_def
        findingTypeCheck_def listTypeCheck_def ScanConditions_Equal_iff Platform_Known_def sev split: if_splits option.splits)
qed

subsection \<open>The verdicts\<close>

definition verdictKeyOf :: "vuln_verdict \<Rightarrow> verdict_key" where
  "verdictKeyOf v = \<lparr>vkVuln = vvVulnID v, vkCoord = vvPackage v\<rparr>"

definition outcomeSpec :: "string list \<Rightarrow> image_scan \<Rightarrow> image_scan \<Rightarrow> verdict_key \<Rightarrow> string" where
  "outcomeSpec rng bs cs k =
     (if findingsFor rng cs k \<noteq> [] then OutcomeRemaining
      else if \<forall>f \<in> set (findingsFor rng bs k). analysedKind cs (fdType f) (fdClass f) then OutcomeResolved
      else OutcomeUnknown)"

definition dispositionSpec :: "image_scan \<Rightarrow> package_coord \<Rightarrow> string set \<Rightarrow> string" where
  "dispositionSpec cs c before =
     (if \<exists>ver \<in> before. lists cs c ver then DispositionSameVersion
      else if \<exists>ver. lists cs c ver then DispositionVersionChanged
      else DispositionRemoved)"

lemma occurrence_kind [simp]:
  "ocType (occurrenceOf f) = fdType f" "prClass (ocPackage (occurrenceOf f)) = fdClass f"
  "prVersion (ocPackage (occurrenceOf f)) = fdInstalledVer f"
  by (simp_all add: occurrenceOf_def Finding_PackageRef_def)

lemma verdictKeyOf_simps [simp]:
  "verdictKeyOf (verdictFor bm cm pk an k) = k" "verdictKeyOf (introducedFor cm k) = k"
  "verdictKeyOf (unknownVerdict bm k) = k"
  by (auto simp: verdictKeyOf_def verdictFor_def introducedFor_def unknownVerdict_def Let_def split: option.splits)

lemma ParseEcosystem_empty: "ParseEcosystem t \<noteq> EcosystemUnknown \<Longrightarrow> t \<noteq> ''''"
  by (auto simp: ParseEcosystem_def EcosystemUnknown_def split: if_splits)

lemma dispositionOf_spec:
  "dispositionOf c before (packageVersions cs) = dispositionSpec cs c (set before)"
proof -
  have "length (mget [] (packageVersions cs) c) = 0 \<longleftrightarrow> (\<nexists>ver. lists cs c ver)"
    by (cases "mget [] (packageVersions cs) c") (use packageVersions_lists [of _ cs c] in fastforce)+
  moreover have "list_ex (\<lambda>v. v \<in> set (mget [] (packageVersions cs) c)) before \<longleftrightarrow> (\<exists>ver \<in> set before. lists cs c ver)"
    by (simp add: packageVersions_lists list_ex_iff)
  ultimately show ?thesis unfolding dispositionOf_def dispositionSpec_def Let_def by auto
qed

text \<open>What a verdict says of the two scans.\<close>

definition verdictSpec :: "string list \<Rightarrow> image_scan \<Rightarrow> image_scan \<Rightarrow> vuln_verdict \<Rightarrow> bool" where
  "verdictSpec rng bs cs v \<longleftrightarrow> (let k = verdictKeyOf v; fs = findingsFor rng bs k in
     vvOutcome v = outcomeSpec rng bs cs k \<and>
     set (vvBefore v) = occurrenceOf ` set fs \<and>
     set (vvAfter v) = occurrenceOf ` set (findingsFor rng cs k) \<and>
     vvDisposition v = (if vvOutcome v = OutcomeResolved
       then dispositionSpec cs (vvPackage v) (fdInstalledVer ` set fs) else DispositionNone) \<and>
     vvReason v = (if vvOutcome v = OutcomeUnknown then ReasonTypeNotAnalysed else '''') \<and>
     vvSeverity v = fdSeverity (hd fs))"

lemma verdictFor_package [simp]: "vvPackage (verdictFor bm cm pk an k) = vkCoord k"
  by (auto simp: verdictFor_def Let_def split: option.splits)

lemma verdictFor_spec:
  assumes "typesKnown rng bs" "findingsFor rng bs k \<noteq> []"
  shows "verdictSpec rng bs cs
    (verdictFor (collectPairs bs rng) (collectPairs cs rng) (packageVersions cs) (analysedKinds cs) k)"
proof -
  obtain a where a: "map_of (collectPairs bs rng) k = Some a" "set (paOcc a) = occurrenceOf ` set (findingsFor rng bs k)"
    "paSeverity a = fdSeverity (hd (findingsFor rng bs k))"
    using collectPairs_Some [OF assms(2)] by auto
  have "\<forall>oc \<in> set (paOcc a). ocType oc \<noteq> ''''"
    using assms(1) ParseEcosystem_empty unfolding a(2) by (auto simp: typesKnown_def findingsFor_def)
  then have un: "unanalysed (paOcc a) (analysedKinds cs) = '''' \<longleftrightarrow>
      (\<forall>f \<in> set (findingsFor rng bs k). analysedKind cs (fdType f) (fdClass f))"
    by (simp add: unanalysed_iff a(2) set_analysedKinds)
  show ?thesis
  proof (cases "findingsFor rng cs k = []")
    case True
    then have "map_of (collectPairs cs rng) k = None" by (simp add: collectPairs_None)
    with True show ?thesis unfolding verdictSpec_def Let_def verdictKeyOf_simps verdictFor_package
      by (simp add: verdictFor_def outcomeSpec_def Let_def a un dispositionOf_spec image_image)
  next
    case False
    from collectPairs_Some [OF this] obtain b where "map_of (collectPairs cs rng) k = Some b"
      "set (paOcc b) = occurrenceOf ` set (findingsFor rng cs k)" by auto
    with False show ?thesis unfolding verdictSpec_def Let_def verdictKeyOf_simps verdictFor_package
      by (simp add: verdictFor_def outcomeSpec_def Let_def a)
  qed
qed

lemma Compare_comparable:
  assumes "comparablePair b c"
  defines "rng \<equiv> map toUpper (scSeverities (srConditions b))"
  shows "vrComparable (Compare b c)"
    and "vrVerdicts (Compare b c) = map (verdictFor (collectPairs (srScan b) rng) (collectPairs (srScan c) rng)
      (packageVersions (srScan c)) (analysedKinds (srScan c))) (sortedKeys (collectPairs (srScan b) rng))"
    and "vrIntroduced (Compare b c) = map (introducedFor (collectPairs (srScan c) rng))
      (filter (\<lambda>k. \<not> mhas (collectPairs (srScan b) rng) k) (sortedKeys (collectPairs (srScan c) rng)))"
proof -
  have "comparedSeverities b c = scSeverities (srConditions b)"
    using assms(1) by (auto simp: comparedSeverities_def comparablePair_def Let_def)
  then have "compareChecks b c rng = None" "comparedSeverities b c = scSeverities (srConditions b)"
    using assms(1) compareChecks_None [of b c] by (simp_all add: rng_def)
  then show "vrComparable (Compare b c)"
    "vrVerdicts (Compare b c) = map (verdictFor (collectPairs (srScan b) rng) (collectPairs (srScan c) rng)
      (packageVersions (srScan c)) (analysedKinds (srScan c))) (sortedKeys (collectPairs (srScan b) rng))"
    "vrIntroduced (Compare b c) = map (introducedFor (collectPairs (srScan c) rng))
      (filter (\<lambda>k. \<not> mhas (collectPairs (srScan b) rng) k) (sortedKeys (collectPairs (srScan c) rng)))"
    by (simp_all add: Compare_def Let_def rng_def)
qed

lemma Compare_keys:
  assumes "comparablePair b c"
  defines "rng \<equiv> map toUpper (scSeverities (srConditions b))"
  shows "distinct (map verdictKeyOf (vrVerdicts (Compare b c)))"
    and "verdictKeyOf ` set (vrVerdicts (Compare b c)) = {k. findingsFor rng (srScan b) k \<noteq> []}"
    and "distinct (map verdictKeyOf (vrIntroduced (Compare b c)))"
    and "verdictKeyOf ` set (vrIntroduced (Compare b c)) =
      {k. findingsFor rng (srScan c) k \<noteq> [] \<and> findingsFor rng (srScan b) k = []}"
  using Compare_comparable [OF assms(1)]
  by (auto simp: rng_def comp_def image_image distinct_sortedKeys map_ok_collectPairs dom_collectPairs
      mhas_def collectPairs_None)

lemma Compare_verdict:
  assumes "comparablePair b c" "v \<in> set (vrVerdicts (Compare b c))"
  shows "verdictSpec (map toUpper (scSeverities (srConditions b))) (srScan b) (srScan c) v"
proof -
  have "typesKnown (map toUpper (scSeverities (srConditions b))) (srScan b)"
    using assms(1) unfolding comparablePair_def Let_def by blast
  then show ?thesis
    using assms(2) unfolding Compare_comparable(2) [OF assms(1)] by (auto simp: dom_collectPairs intro: verdictFor_spec)
qed

lemma firstSome_in: "firstSome f xs = Some y \<Longrightarrow> \<exists>x \<in> set xs. f x = Some y"
  by (induction xs) (auto split: option.splits)

lemma orElse_SomeE: "orElse a b = Some y \<Longrightarrow> (a = Some y \<Longrightarrow> P) \<Longrightarrow> (b = Some y \<Longrightarrow> P) \<Longrightarrow> P"
  by (auto simp: orElse_def split: option.splits)

lemma check_reasons:
  "failedCheck s = Some (reason, detail) \<Longrightarrow> reason \<noteq> ''''"
  "entityCheck s = Some (reason, detail) \<Longrightarrow> reason \<noteq> ''''"
  "conditionsCheck cb cc = Some (reason, detail) \<Longrightarrow> reason \<noteq> ''''"
  "platformCheck pb pc = Some (reason, detail) \<Longrightarrow> reason \<noteq> ''''"
  "packagesCheck s = Some (reason, detail) \<Longrightarrow> reason \<noteq> ''''"
  "findingTypeCheck name rng f = Some (reason, detail) \<Longrightarrow> reason \<noteq> ''''"
  "listTypeCheck rp = Some (reason, detail) \<Longrightarrow> reason \<noteq> ''''"
  by (auto simp: failedCheck_def entityCheck_def conditionsCheck_def platformCheck_def packagesCheck_def
      findingTypeCheck_def listTypeCheck_def split: if_splits option.splits prod.splits)

lemma compareChecks_reason: "compareChecks b c rng = Some (reason, detail) \<Longrightarrow> reason \<noteq> ''''"
  unfolding compareChecks_def Let_def
  by (elim orElse_SomeE) (blast dest: firstSome_in check_reasons)+

lemma Compare_refused:
  assumes "\<not> comparablePair b c"
  obtains reason detail where "reason \<noteq> ''''" "Compare b c = notComparable b reason detail
    (map toUpper (comparedSeverities b c)) (comparedSeverities b c)"
proof -
  obtain reason detail where *: "compareChecks b c (map toUpper (comparedSeverities b c)) = Some (reason, detail)"
    using compareChecks_None [of b c] assms by (metis not_None_eq surj_pair)
  show ?thesis by (rule that [OF compareChecks_reason [OF *]]) (simp add: Compare_def Let_def *)
qed

lemma notComparable_verdicts:
  "snErr (srScan b) = None \<Longrightarrow>
   vrVerdicts (notComparable b reason detail rng sev) =
     map (unknownVerdict (collectPairs (srScan b) rng)) (sortedKeys (collectPairs (srScan b) rng))"
  by (simp add: notComparable_def Let_def)

text \<open>The severities of prepared conditions are sorted, without duplicates and exactly the entries named.\<close>

lemma normalizeSeverities_spec:
  "sorted (normalizeSeverities inp) \<and> distinct (normalizeSeverities inp) \<and>
   set (normalizeSeverities inp) = {toUpper (trimSpace p) | p e. e \<in> set inp \<and> p \<in> set (splitOn (CHR '','') e)} - {''''}"
proof -
  let ?add = "\<lambda>p out. let s = toUpper (trimSpace p) in if s \<noteq> '''' \<and> s \<notin> set out then out @ [s] else out"
  have inner: "set (fold ?add ps out) = set out \<union> ((\<lambda>p. toUpper (trimSpace p)) ` set ps - {''''}) \<and>
      (distinct out \<longrightarrow> distinct (fold ?add ps out))" for ps out
    by (induction ps arbitrary: out) (auto simp: Let_def)
  have "set (fold (\<lambda>e out. fold ?add (splitOn (CHR '','') e) out) es out) =
      set out \<union> ({toUpper (trimSpace p) | p e. e \<in> set es \<and> p \<in> set (splitOn (CHR '','') e)} - {''''}) \<and>
      (distinct out \<longrightarrow> distinct (fold (\<lambda>e out. fold ?add (splitOn (CHR '','') e) out) es out))" for es out
  proof (induction es arbitrary: out)
    case (Cons e es)
    show ?case using Cons [of "fold ?add (splitOn (CHR '','') e) out"] inner [of "splitOn (CHR '','') e" out] by auto
  qed simp
  from this [of inp "[]"] show ?thesis by (simp add: normalizeSeverities_def)
qed

subsection \<open>Properties\<close>

definition sampleConditions :: scan_conditions where
  "sampleConditions = \<lparr>scTrivyVersion = ''0.60'', scVulnerabilityDB = \<lparr>dbVersion = 2, dbUpdatedAt = 5\<rparr>,
     scJavaDB = \<lparr>dbVersion = 1, dbUpdatedAt = 5\<rparr>, scSeverities = [''HIGH''], scAnalysisSettings = ''image'',
     scVulnerabilityDBSHA = ''a'', scJavaDBSHA = ''b'', scTrivySHA = ''c''\<rparr>"

definition sampleListing :: "string \<Rightarrow> result_packages" where
  "sampleListing ver = \<lparr>rsTarget = ''app'', rsClass = ClassOS, rsType = ''debian'',
     rsPackages = [\<lparr>pkName = ''openssl'', pkVersion = ver, pkPkgPath = '''', pkRelationship = '''', pkID = '''', pkDependsOn = []\<rparr>]\<rparr>"

definition samplePinnedScan :: "finding list \<Rightarrow> string \<Rightarrow> image_scan" where
  "samplePinnedScan fs ver = sampleScan\<lparr>snFindings := fs, snSubject := zeroSubject\<lparr>isResolved := True\<rparr>, snPinned := True,
     snPlatform := \<lparr>plOS = ''linux'', plArchitecture = ''amd64'', plVariant = ''''\<rparr>, snPackages := [sampleListing ver]\<rparr>"

definition sampleBaseline :: scan_record where
  "sampleBaseline = \<lparr>srScan = samplePinnedScan [sampleFinding] ''3.0'', srConditions = sampleConditions\<rparr>"

definition sampleCandidate :: scan_record where
  "sampleCandidate = \<lparr>srScan = samplePinnedScan [] ''3.1'', srConditions = sampleConditions\<rparr>"

lemma sample_comparable: "comparablePair sampleBaseline sampleCandidate"
  by code_simp

text \<open>
  C14. A comparison under the entry conditions is exact. Its verdicts are one per pair of a
  vulnerability and a package the baseline reports in the evaluated range, each once; a pair remains
  exactly when the candidate reports it too, is resolved exactly when it does not and the candidate
  scan analysed every kind of package the pair was reported in, and is unknown otherwise. The
  occurrences, the severity and the disposition of a resolved pair are those of the two scans, and the
  introduced pairs are those only the candidate reports.
\<close>

theorem Compare_exact:
  assumes "comparablePair b c" "rng = map toUpper (scSeverities (srConditions b))"
  shows "vrComparable (Compare b c) \<and>
    distinct (map verdictKeyOf (vrVerdicts (Compare b c) @ vrIntroduced (Compare b c))) \<and>
    verdictKeyOf ` set (vrVerdicts (Compare b c)) = {k. findingsFor rng (srScan b) k \<noteq> []} \<and>
    (\<forall>v \<in> set (vrVerdicts (Compare b c)). verdictSpec rng (srScan b) (srScan c) v) \<and>
    verdictKeyOf ` set (vrIntroduced (Compare b c)) =
      {k. findingsFor rng (srScan c) k \<noteq> [] \<and> findingsFor rng (srScan b) k = []}"
  using Compare_comparable(1) [OF assms(1)] Compare_keys [OF assms(1)] Compare_verdict [OF assms(1)]
  unfolding assms(2) by auto

theorem Compare_exact_witness:
  "vrComparable (Compare sampleBaseline sampleCandidate) \<and>
   list_all (verdictSpec [''HIGH''] (srScan sampleBaseline) (srScan sampleCandidate))
     (vrVerdicts (Compare sampleBaseline sampleCandidate)) \<and>
   map vvOutcome (vrVerdicts (Compare sampleBaseline sampleCandidate)) = [OutcomeResolved] \<and>
   map vvDisposition (vrVerdicts (Compare sampleBaseline sampleCandidate)) = [DispositionVersionChanged]"
proof -
  have rng: "[''HIGH''] = map toUpper (scSeverities (srConditions sampleBaseline))" by code_simp
  have "map vvOutcome (vrVerdicts (Compare sampleBaseline sampleCandidate)) = [OutcomeResolved]"
    "map vvDisposition (vrVerdicts (Compare sampleBaseline sampleCandidate)) = [DispositionVersionChanged]" by code_simp+
  with Compare_exact [OF sample_comparable rng] show ?thesis unfolding list_all_iff by blast
qed

text \<open>
  A result is comparable exactly when both scans succeeded on a confirmed image under known and
  equal conditions on the same platform without a variant, with complete package lists and only known
  package types. A result that is not comparable gives a reason and claims nothing: no pair is
  introduced, every verdict is unknown, and when the baseline scan succeeded there is a verdict for
  every pair it reported.
\<close>

lemma Compare_refuses:
  "(vrComparable (Compare b c) \<longleftrightarrow> comparablePair b c) \<and>
   (\<not> vrComparable (Compare b c) \<longrightarrow>
      vrReason (Compare b c) \<noteq> '''' \<and> vrIntroduced (Compare b c) = [] \<and>
      (\<forall>v \<in> set (vrVerdicts (Compare b c)). vvOutcome v = OutcomeUnknown \<and> vvDisposition v = DispositionNone) \<and>
      (snErr (srScan b) = None \<longrightarrow> verdictKeyOf ` set (vrVerdicts (Compare b c)) =
         {k. findingsFor (map toUpper (comparedSeverities b c)) (srScan b) k \<noteq> []}))"
proof (cases "comparablePair b c")
  case True
  then show ?thesis by (simp add: Compare_comparable(1))
next
  case False
  then obtain reason detail where "reason \<noteq> ''''" and eq: "Compare b c = notComparable b reason detail
      (map toUpper (comparedSeverities b c)) (comparedSeverities b c)" by (rule Compare_refused)
  moreover have "vvOutcome v = OutcomeUnknown \<and> vvDisposition v = DispositionNone" if "v \<in> set (vrVerdicts (Compare b c))" for v
    using that unfolding eq by (auto simp: notComparable_def Let_def unknownVerdict_def split: if_splits)
  moreover have "verdictKeyOf ` set (vrVerdicts (Compare b c)) =
      {k. findingsFor (map toUpper (comparedSeverities b c)) (srScan b) k \<noteq> []}" if "snErr (srScan b) = None"
    unfolding eq notComparable_verdicts [OF that] by (simp add: image_image dom_collectPairs)
  ultimately show ?thesis using False by (auto simp: notComparable_def Let_def)
qed

end
