(* ===== verification/Adoption.thy ===== *)
theory Adoption
  imports Scan_Compare
begin

section \<open>Which candidate is proposed\<close>

text \<open>
  \<open>internal/remediation/adopt.go\<close> (the targets of an update and the adoption rule) and
  \<open>ApplyCoverage\<close> of \<open>compare.go\<close>, composed as \<open>planner.go\<close> composes them: targets are selected from
  the findings of the running image, the comparison is restricted to what both scans analysed, and
  the decision is taken on the result. The lemmas show that the targets are exactly the fixable
  findings and that a candidate is proposed exactly when the comparison holds, nothing is introduced,
  no target is left unjudged and at least one is resolved.
\<close>

subsection \<open>Targets\<close>

definition Priority_Rank :: "string \<Rightarrow> nat" where
  "Priority_Rank p =
     (if p = PriorityActNow then 3 else if p = PriorityWatch then 2 else if p = PriorityLow then 1 else 0)"

record vuln_intel =
  viPriority :: string
  viKEV :: bool

type_synonym intel_func = "(string \<Rightarrow> vuln_intel option) option"

definition IntelFunc_lookup :: "intel_func \<Rightarrow> string \<Rightarrow> vuln_intel option" where
  "IntelFunc_lookup f vid = (case f of None \<Rightarrow> None | Some g \<Rightarrow> g vid)"

record target =
  tgVulnID :: string
  tgPackage :: package_coord
  tgSeverity :: string
  tgFixedVers :: "string list"
  tgPriority :: string
  tgKEV :: bool
  tgTypes :: "string list"
  tgLayers :: "string list"

fun containsString :: "string list \<Rightarrow> string \<Rightarrow> bool" where
  "containsString [] v = False"
| "containsString (e # s) v = (if e = v then True else containsString s v)"

definition fixable :: "finding \<Rightarrow> bool" where
  "fixable f \<longleftrightarrow> \<not> (fdStatus f \<noteq> StatusFixed \<or> fdFixedVer f = '''')"

definition newTarget :: "intel_func \<Rightarrow> finding \<Rightarrow> target" where
  "newTarget intel f =
     (let t = \<lparr>tgVulnID = fdVulnID f, tgPackage = coordOf f, tgSeverity = fdSeverity f, tgFixedVers = [],
               tgPriority = PriorityNone, tgKEV = False, tgTypes = [], tgLayers = []\<rparr> in
      case IntelFunc_lookup intel (fdVulnID f) of None \<Rightarrow> t
      | Some i \<Rightarrow> t\<lparr>tgPriority := viPriority i, tgKEV := viKEV i\<rparr>)"

definition updTarget :: "intel_func \<Rightarrow> target option \<Rightarrow> finding \<Rightarrow> target" where
  "updTarget intel old f =
     (let t = (case old of None \<Rightarrow> newTarget intel f | Some t \<Rightarrow> t);
          t = (if \<not> containsString (tgFixedVers t) (fdFixedVer f)
               then t\<lparr>tgFixedVers := tgFixedVers t @ [fdFixedVer f]\<rparr> else t) in
      if fdType f \<noteq> '''' \<and> \<not> containsString (tgTypes t) (fdType f)
      then t\<lparr>tgTypes := tgTypes t @ [fdType f]\<rparr> else t)"

definition selectIdx :: "intel_func \<Rightarrow> (verdict_key, target) gmap \<Rightarrow> finding \<Rightarrow> (verdict_key, target) gmap" where
  "selectIdx intel idx f =
     (if \<not> fixable f then idx
      else mput (keyOfFinding f) (updTarget intel (map_of idx (keyOfFinding f)) f) idx)"

definition selectStep :: "intel_func \<Rightarrow> (verdict_key, target) gmap \<times> verdict_key list \<Rightarrow> finding
    \<Rightarrow> (verdict_key, target) gmap \<times> verdict_key list" where
  "selectStep intel = (\<lambda>(idx, order) f.
     (selectIdx intel idx f,
      if fixable f \<and> \<not> mhas idx (keyOfFinding f) then order @ [keyOfFinding f] else order))"

definition sortTarget :: "target \<Rightarrow> target" where
  "sortTarget t = t\<lparr>tgFixedVers := sort (tgFixedVers t), tgTypes := sort (tgTypes t)\<rparr>"

definition lessTarget :: "target \<Rightarrow> target \<Rightarrow> bool" where
  "lessTarget a b =
     (if Priority_Rank (tgPriority a) \<noteq> Priority_Rank (tgPriority b)
      then Priority_Rank (tgPriority a) > Priority_Rank (tgPriority b)
      else if tgVulnID a \<noteq> tgVulnID b then tgVulnID a < tgVulnID b
      else pcName (tgPackage a) < pcName (tgPackage b))"

definition SelectTargets :: "finding list \<Rightarrow> intel_func \<Rightarrow> target list" where
  "SelectTargets findings intel =
     (let (idx, order) = foldl (selectStep intel) ([], []) findings in
      sortBy lessTarget (map (\<lambda>k. sortTarget (the (map_of idx k))) order))"

definition maxTargetPriority :: "target list \<Rightarrow> string" where
  "maxTargetPriority ts =
     foldl (\<lambda>m t. if Priority_Rank (tgPriority t) > Priority_Rank m then tgPriority t else m) PriorityNone ts"

subsection \<open>Coverage of the targets\<close>

definition targetKey :: "target \<Rightarrow> verdict_key" where
  "targetKey t = \<lparr>vkVuln = tgVulnID t, vkCoord = tgPackage t\<rparr>"

definition coverageGap :: "(string \<times> string) list list \<Rightarrow> target \<Rightarrow> bool" where
  "coverageGap sides t =
     list_ex (\<lambda>typ. list_ex (\<lambda>analysed. (typ, pcClass (tgPackage t)) \<notin> set analysed) sides) (tgTypes t)"

definition markGap :: "vuln_verdict list \<Rightarrow> target \<Rightarrow> vuln_verdict list" where
  "markGap vs t =
     (let matches = (\<lambda>v. vvVulnID v = tgVulnID t \<and> vvPackage v = tgPackage t);
          out = map (\<lambda>v. if matches v then v\<lparr>vvOutcome := OutcomeUnknown, vvReason := ReasonTypeNotAnalysed,
                                             vvDisposition := DispositionNone\<rparr> else v) vs in
      if list_ex matches vs then out
      else out @ [\<lparr>vvVulnID = tgVulnID t, vvPackage = tgPackage t, vvSeverity = tgSeverity t, vvBefore = [], vvAfter = [],
                   vvOutcome = OutcomeUnknown, vvDisposition = DispositionNone, vvReason = ReasonTypeNotAnalysed\<rparr>])"

definition ApplyCoverage :: "verification_result \<Rightarrow> target list \<Rightarrow> scan_record \<Rightarrow> scan_record \<Rightarrow> verification_result" where
  "ApplyCoverage r targets baseline candidate =
     (if \<not> vrComparable r then r
      else (let sides = [analysedKinds (srScan baseline), analysedKinds (srScan candidate)];
                gaps = filter (coverageGap sides) targets in
            if length gaps = 0 then r else r\<lparr>vrVerdicts := foldl markGap (vrVerdicts r) gaps\<rparr>))"

subsection \<open>The adoption rule\<close>

abbreviation DecisionAdopt :: string where "DecisionAdopt \<equiv> ''adopt''"
abbreviation DecisionAdoptPartial :: string where "DecisionAdoptPartial \<equiv> ''adopt_partial''"
abbreviation DecisionNotResolving :: string where "DecisionNotResolving \<equiv> ''not_resolving''"
abbreviation DecisionIntroduced :: string where "DecisionIntroduced \<equiv> ''introduced''"
abbreviation DecisionNewKEV :: string where "DecisionNewKEV \<equiv> ''new_kev''"
abbreviation DecisionAnalysisIncomplete :: string where "DecisionAnalysisIncomplete \<equiv> ''analysis_incomplete''"
abbreviation DecisionTargetsNotDetected :: string where "DecisionTargetsNotDetected \<equiv> ''targets_not_detected''"
abbreviation DecisionNotComparable :: string where "DecisionNotComparable \<equiv> ''not_comparable''"

record decision =
  dcKind :: string
  dcPropose :: bool
  dcTargets :: nat
  dcResolved :: nat
  dcRemaining :: nat
  dcUnknown :: nat
  dcUndetected :: nat
  dcIntroduced :: nat
  dcIntroducedKEV :: "string list"
  dcIntroducedTopPriority :: string
  dcIntroducedUnknownIntel :: nat
  dcNote :: string

definition startDecision :: "nat \<Rightarrow> decision" where
  "startDecision n = \<lparr>dcKind = '''', dcPropose = False, dcTargets = n, dcResolved = 0, dcRemaining = 0, dcUnknown = 0,
     dcUndetected = 0, dcIntroduced = 0, dcIntroducedKEV = [], dcIntroducedTopPriority = PriorityNone,
     dcIntroducedUnknownIntel = 0, dcNote = ''''\<rparr>"

definition outcomesOf :: "vuln_verdict list \<Rightarrow> (verdict_key, string) gmap" where
  "outcomesOf vs = foldl (\<lambda>m v. mput \<lparr>vkVuln = vvVulnID v, vkCoord = vvPackage v\<rparr> (vvOutcome v) m) [] vs"

definition tallyTarget :: "(verdict_key, string) gmap \<Rightarrow> decision \<Rightarrow> target \<Rightarrow> decision" where
  "tallyTarget outcomes d t =
     (let oc = mget '''' outcomes (targetKey t) in
      if oc = OutcomeResolved then d\<lparr>dcResolved := Suc (dcResolved d)\<rparr>
      else if oc = OutcomeRemaining then d\<lparr>dcRemaining := Suc (dcRemaining d)\<rparr>
      else if oc = OutcomeUnknown then d\<lparr>dcUnknown := Suc (dcUnknown d)\<rparr>
      else d\<lparr>dcUndetected := Suc (dcUndetected d)\<rparr>)"

definition introducedStep :: "intel_func \<Rightarrow> decision \<times> string list \<Rightarrow> vuln_verdict \<Rightarrow> decision \<times> string list" where
  "introducedStep intel = (\<lambda>(d, kev) v.
     case IntelFunc_lookup intel (vvVulnID v) of
       None \<Rightarrow> (d\<lparr>dcIntroducedUnknownIntel := Suc (dcIntroducedUnknownIntel d)\<rparr>, kev)
     | Some i \<Rightarrow>
         (let d = (if Priority_Rank (viPriority i) > Priority_Rank (dcIntroducedTopPriority d)
                   then d\<lparr>dcIntroducedTopPriority := viPriority i\<rparr> else d) in
          if viKEV i \<and> vvVulnID v \<notin> set kev
          then (d\<lparr>dcIntroducedKEV := dcIntroducedKEV d @ [vvVulnID v]\<rparr>, vvVulnID v # kev) else (d, kev)))"

definition decideKind :: "decision \<Rightarrow> decision" where
  "decideKind d =
     (if length (dcIntroducedKEV d) > 0 then d\<lparr>dcKind := DecisionNewKEV\<rparr>
      else if dcIntroduced d > 0 then d\<lparr>dcKind := DecisionIntroduced\<rparr>
      else if dcTargets d = 0 then d\<lparr>dcKind := DecisionNotResolving\<rparr>
      else if dcUnknown d > 0 then d\<lparr>dcKind := DecisionAnalysisIncomplete\<rparr>
      else if dcResolved d = 0 \<and> dcRemaining d = 0 then d\<lparr>dcKind := DecisionTargetsNotDetected\<rparr>
      else if dcResolved d = 0 then d\<lparr>dcKind := DecisionNotResolving\<rparr>
      else if dcResolved d < dcTargets d then d\<lparr>dcKind := DecisionAdoptPartial, dcPropose := True\<rparr>
      else d\<lparr>dcKind := DecisionAdopt, dcPropose := True\<rparr>)"

definition Decide :: "target list \<Rightarrow> verification_result \<Rightarrow> intel_func \<Rightarrow> decision" where
  "Decide targets vr intel =
     (let d = startDecision (length targets) in
      if \<not> vrComparable vr then d\<lparr>dcKind := DecisionNotComparable, dcNote := vrReason vr\<rparr>
      else (let d = foldl (tallyTarget (outcomesOf (vrVerdicts vr))) d targets;
                d = d\<lparr>dcIntroduced := length (vrIntroduced vr)\<rparr>;
                d = fst (foldl (introducedStep intel) (d, []) (vrIntroduced vr));
                d = d\<lparr>dcIntroducedKEV := sort (dcIntroducedKEV d)\<rparr>
            in decideKind d))"

text \<open>The end of \<open>compareImage\<close> (planner.go): the result recorded and the decision on it.\<close>

definition compareDecide :: "scan_record \<Rightarrow> scan_record \<Rightarrow> target list \<Rightarrow> intel_func
    \<Rightarrow> verification_result \<times> decision" where
  "compareDecide baseline candidate targets intel =
     (let vr = ApplyCoverage (Compare baseline candidate) targets baseline candidate in
      (vr, Decide targets vr intel))"

subsection \<open>The targets of a scan\<close>

lemma containsString_iff [simp]: "containsString s v \<longleftrightarrow> v \<in> set s"
  by (induction s) auto

interpretation targets: grouping fixable keyOfFinding "updTarget intel" "selectIdx intel" for intel
  by unfold_locales (auto simp: selectIdx_def)

definition fixableFor :: "finding list \<Rightarrow> verdict_key \<Rightarrow> finding list" where
  "fixableFor findings k = filter (\<lambda>f. fixable f \<and> keyOfFinding f = k) findings"

definition targetSpec :: "finding list \<Rightarrow> intel_func \<Rightarrow> target \<Rightarrow> bool" where
  "targetSpec findings intel t \<longleftrightarrow> (let fs = fixableFor findings (targetKey t) in
     fs \<noteq> [] \<and> tgSeverity t = fdSeverity (hd fs) \<and>
     sorted (tgFixedVers t) \<and> distinct (tgFixedVers t) \<and> set (tgFixedVers t) = fdFixedVer ` set fs \<and>
     sorted (tgTypes t) \<and> distinct (tgTypes t) \<and> set (tgTypes t) = fdType ` set fs - {''''} \<and>
     (tgPriority t, tgKEV t) = (case IntelFunc_lookup intel (tgVulnID t) of None \<Rightarrow> (PriorityNone, False)
        | Some i \<Rightarrow> (viPriority i, viKEV i)) \<and> tgLayers t = [])"

lemma updTarget_loop:
  assumes "fs \<noteq> []" "\<forall>f \<in> set fs. keyOfFinding f = k"
  shows "\<exists>t. foldl (\<lambda>v f. Some (updTarget intel v f)) None fs = Some t \<and> targetKey t = k \<and>
    tgSeverity t = fdSeverity (hd fs) \<and> distinct (tgFixedVers t) \<and> set (tgFixedVers t) = fdFixedVer ` set fs \<and>
    distinct (tgTypes t) \<and> set (tgTypes t) = fdType ` set fs - {''''} \<and>
    (tgPriority t, tgKEV t) = (case IntelFunc_lookup intel (tgVulnID t) of None \<Rightarrow> (PriorityNone, False)
        | Some i \<Rightarrow> (viPriority i, viKEV i)) \<and> tgLayers t = []"
  using assms
proof (induction fs rule: rev_nonempty_induct)
  case (single f)
  then show ?case
    by (auto simp: updTarget_def newTarget_def Let_def targetKey_def keyOfFinding_def split: option.splits)
next
  case (snoc f fs)
  then obtain t where "foldl (\<lambda>v f. Some (updTarget intel v f)) None fs = Some t" "targetKey t = k"
    "tgSeverity t = fdSeverity (hd fs)" "distinct (tgFixedVers t)" "set (tgFixedVers t) = fdFixedVer ` set fs"
    "distinct (tgTypes t)" "set (tgTypes t) = fdType ` set fs - {''''}"
    "(tgPriority t, tgKEV t) = (case IntelFunc_lookup intel (tgVulnID t) of None \<Rightarrow> (PriorityNone, False)
        | Some i \<Rightarrow> (viPriority i, viKEV i))" "tgLayers t = []"
    by auto
  with snoc.hyps show ?case by (auto simp: updTarget_def Let_def targetKey_def)
qed

lemma selectStep_loop:
  "\<exists>order. foldl (selectStep intel) ([], []) fs = (foldl (selectIdx intel) [] fs, order) \<and> distinct order \<and>
     set order = dom (map_of (foldl (selectIdx intel) [] fs))"
proof (induction fs rule: rev_induct)
  case (snoc f fs)
  let ?m = "foldl (selectIdx intel) [] fs"
  from snoc obtain order where o: "foldl (selectStep intel) ([], []) fs = (?m, order)" "distinct order"
    "set order = dom (map_of ?m)" by blast
  have d: "dom (map_of (selectIdx intel ?m f)) =
      (if fixable f then insert (keyOfFinding f) (dom (map_of ?m)) else dom (map_of ?m))" by (simp add: selectIdx_def)
  have "mhas ?m (keyOfFinding f) \<longleftrightarrow> keyOfFinding f \<in> dom (map_of ?m)" by (simp add: mhas_def domIff)
  then show ?case using o d by (simp add: selectStep_def insert_absorb)
qed simp

lemma targetKey_sortTarget [simp]: "targetKey (sortTarget t) = targetKey t"
  by (simp add: targetKey_def sortTarget_def)

lemma selected_target:
  assumes "fixableFor findings k \<noteq> []"
  shows "\<exists>t. map_of (foldl (selectIdx intel) [] findings) k = Some t \<and> targetKey t = k \<and>
    targetSpec findings intel (sortTarget t)"
proof -
  have "\<forall>f \<in> set (fixableFor findings k). keyOfFinding f = k" by (simp add: fixableFor_def)
  from updTarget_loop [OF assms this, of intel] show ?thesis
    unfolding targets.lookup_loop
    by (auto simp: fixableFor_def targetSpec_def Let_def targetKey_def sortTarget_def)
qed

lemma SelectTargets_keys:
  "mset (map targetKey (SelectTargets findings intel)) = mset_set {k. fixableFor findings k \<noteq> []} \<and>
   finite {k. fixableFor findings k \<noteq> []} \<and> (\<forall>t \<in> set (SelectTargets findings intel). targetSpec findings intel t)"
proof -
  let ?idx = "foldl (selectIdx intel) [] findings"
  obtain order where o: "foldl (selectStep intel) ([], []) findings = (?idx, order)" "distinct order"
    "set order = dom (map_of ?idx)"
    using selectStep_loop by blast
  have dom: "dom (map_of ?idx) = {k. fixableFor findings k \<noteq> []}"
    by (simp add: dom_def targets.loop_keys fixableFor_def)
  have sel: "SelectTargets findings intel = sortBy lessTarget (map (\<lambda>k. sortTarget (the (map_of ?idx k))) order)"
    by (simp add: SelectTargets_def o(1))
  have spec: "targetKey (the (map_of ?idx k)) = k \<and> targetSpec findings intel (sortTarget (the (map_of ?idx k)))"
    if "k \<in> set order" for k
    using selected_target [of findings k intel] that o(3) dom by auto
  have "mset (map targetKey (SelectTargets findings intel)) = mset (map (\<lambda>k. targetKey (the (map_of ?idx k))) order)"
    by (simp add: sel mset_map image_mset.compositionality comp_def)
  also have "map (\<lambda>k. targetKey (the (map_of ?idx k))) order = order" using spec by (simp add: map_idI)
  also have "mset order = mset_set {k. fixableFor findings k \<noteq> []}"
    using o(2,3) dom by (metis mset_set_set)
  moreover have "finite {k. fixableFor findings k \<noteq> []}" using o(3) dom by (metis List.finite_set)
  ultimately show ?thesis using spec by (auto simp: sel)
qed

lemma strict_weak_lessTarget: "strict_weak lessTarget"
proof -
  have eq: "lessTarget = ltThen (\<lambda>a b. Priority_Rank (tgPriority b) < Priority_Rank (tgPriority a))
      (ltThen (\<lambda>a b. tgVulnID a < tgVulnID b) (\<lambda>a b. pcName (tgPackage a) < pcName (tgPackage b)))"
    by (intro ext) (auto simp: lessTarget_def ltThen_def)
  show ?thesis unfolding eq by (intro strict_weak_ltThen strict_weak_key strict_weak_key_rev)
qed

interpretation target_order: strict_weak lessTarget
  by (rule strict_weak_lessTarget)

subsection \<open>Outcomes after the coverage check\<close>

lemma outcomesOf_snoc [simp]:
  "map_of (outcomesOf (vs @ [v])) = (map_of (outcomesOf vs))(verdictKeyOf v \<mapsto> vvOutcome v)"
  by (simp add: outcomesOf_def verdictKeyOf_def)

lemma outcomesOf_Nil [simp]: "outcomesOf [] = []"
  by (simp add: outcomesOf_def)

lemma outcomesOf_None: "map_of (outcomesOf vs) k = None \<longleftrightarrow> k \<notin> verdictKeyOf ` set vs"
  by (induction vs rule: rev_induct) auto

lemma outcomesOf_distinct:
  "distinct (map verdictKeyOf vs) \<Longrightarrow> v \<in> set vs \<Longrightarrow> map_of (outcomesOf vs) (verdictKeyOf v) = Some (vvOutcome v)"
  by (induction vs rule: rev_induct) (auto simp: image_iff)

lemma outcomesOf_mark:
  "map_of (outcomesOf (map (\<lambda>v. if verdictKeyOf v = k then v\<lparr>vvOutcome := oc, vvReason := r, vvDisposition := d\<rparr> else v) vs)) k' =
     (if k' = k \<and> k \<in> verdictKeyOf ` set vs then Some oc else map_of (outcomesOf vs) k')"
  by (induction vs rule: rev_induct) (auto simp: verdictKeyOf_def)

lemma markGap_outcome:
  "map_of (outcomesOf (markGap vs t)) k =
     (if k = targetKey t then Some OutcomeUnknown else map_of (outcomesOf vs) k)"
proof -
  have m: "vvVulnID v = tgVulnID t \<and> vvPackage v = tgPackage t \<longleftrightarrow> verdictKeyOf v = targetKey t" for v
    by (simp add: verdictKeyOf_def targetKey_def)
  have ex: "list_ex (\<lambda>v. verdictKeyOf v = targetKey t) vs \<longleftrightarrow> targetKey t \<in> verdictKeyOf ` set vs"
    by (force simp: list_ex_iff)
  show ?thesis
    unfolding markGap_def Let_def m ex
    by (auto simp: outcomesOf_mark) (simp_all add: verdictKeyOf_def targetKey_def)
qed

lemma markGaps_outcome:
  "map_of (outcomesOf (foldl markGap vs gaps)) k =
     (if k \<in> targetKey ` set gaps then Some OutcomeUnknown else map_of (outcomesOf vs) k)"
  by (induction gaps arbitrary: vs) (auto simp: markGap_outcome)

definition uncovered :: "image_scan \<Rightarrow> image_scan \<Rightarrow> target \<Rightarrow> bool" where
  "uncovered bs cs t \<longleftrightarrow> (\<exists>typ \<in> set (tgTypes t).
     \<not> analysedKind bs typ (pcClass (tgPackage t)) \<or> \<not> analysedKind cs typ (pcClass (tgPackage t)))"

lemma coverageGap_iff: "coverageGap [analysedKinds bs, analysedKinds cs] t \<longleftrightarrow> uncovered bs cs t"
  by (auto simp: coverageGap_def uncovered_def list_ex_iff set_analysedKinds)

lemma ApplyCoverage_fields [simp]:
  "vrComparable (ApplyCoverage r ts b c) = vrComparable r" "vrIntroduced (ApplyCoverage r ts b c) = vrIntroduced r"
  "vrReason (ApplyCoverage r ts b c) = vrReason r"
  by (auto simp: ApplyCoverage_def Let_def)

lemma ApplyCoverage_outcome:
  assumes "vrComparable r"
  shows "map_of (outcomesOf (vrVerdicts (ApplyCoverage r ts b c))) k =
    (if k \<in> targetKey ` {t \<in> set ts. uncovered (srScan b) (srScan c) t} then Some OutcomeUnknown
     else map_of (outcomesOf (vrVerdicts r)) k)"
  using assms by (auto simp: ApplyCoverage_def Let_def markGaps_outcome coverageGap_iff filter_empty_conv)

subsection \<open>The decision\<close>

text \<open>How a target stands in a comparison, from the two scans alone; the empty text is \<open>undetected\<close>.\<close>

definition targetOutcome :: "scan_record \<Rightarrow> scan_record \<Rightarrow> target list \<Rightarrow> target \<Rightarrow> string" where
  "targetOutcome b c ts t = (let rng = map toUpper (scSeverities (srConditions b)) in
     if \<exists>u \<in> set ts. targetKey u = targetKey t \<and> uncovered (srScan b) (srScan c) u then OutcomeUnknown
     else if findingsFor rng (srScan b) (targetKey t) = [] then ''''
     else outcomeSpec rng (srScan b) (srScan c) (targetKey t))"

definition outcomeCount :: "scan_record \<Rightarrow> scan_record \<Rightarrow> target list \<Rightarrow> string \<Rightarrow> nat" where
  "outcomeCount b c ts oc = length (filter (\<lambda>t. targetOutcome b c ts t = oc) ts)"

lemma covered_outcome:
  assumes "comparablePair b c" "t \<in> set ts"
  shows "mget '''' (outcomesOf (vrVerdicts (ApplyCoverage (Compare b c) ts b c))) (targetKey t) = targetOutcome b c ts t"
proof -
  let ?rng = "map toUpper (scSeverities (srConditions b))" and ?vs = "vrVerdicts (Compare b c)"
  have out: "map_of (outcomesOf ?vs) k = (if findingsFor ?rng (srScan b) k = [] then None
      else Some (outcomeSpec ?rng (srScan b) (srScan c) k))" for k
  proof (cases "k \<in> verdictKeyOf ` set ?vs")
    case True
    then obtain v where v: "v \<in> set ?vs" "k = verdictKeyOf v" by blast
    with True show ?thesis
      using Compare_keys(2) [OF assms(1)] outcomesOf_distinct [OF Compare_keys(1) [OF assms(1)] v(1)]
        Compare_verdict [OF assms(1) v(1)] by (auto simp: verdictSpec_def Let_def)
  next
    case False
    then show ?thesis using outcomesOf_None [of ?vs k] Compare_keys(2) [OF assms(1)] by auto
  qed
  have gap: "targetKey t \<in> targetKey ` {u \<in> set ts. uncovered (srScan b) (srScan c) u} \<longleftrightarrow>
      (\<exists>u \<in> set ts. targetKey u = targetKey t \<and> uncovered (srScan b) (srScan c) u)"
    unfolding image_iff by (metis (mono_tags, lifting) mem_Collect_eq)
  show ?thesis
    unfolding mget_def ApplyCoverage_outcome [OF Compare_comparable(1) [OF assms(1)]] gap out targetOutcome_def Let_def
    by auto
qed

lemma tally_loop:
  defines "oc \<equiv> \<lambda>outcomes t. mget '''' outcomes (targetKey t)"
  shows "foldl (tallyTarget outcomes) d ts =
    d\<lparr>dcResolved := dcResolved d + length (filter (\<lambda>t. oc outcomes t = OutcomeResolved) ts),
      dcRemaining := dcRemaining d + length (filter (\<lambda>t. oc outcomes t = OutcomeRemaining) ts),
      dcUnknown := dcUnknown d + length (filter (\<lambda>t. oc outcomes t = OutcomeUnknown) ts),
      dcUndetected := dcUndetected d + length (filter (\<lambda>t. oc outcomes t \<notin>
        {OutcomeResolved, OutcomeRemaining, OutcomeUnknown}) ts)\<rparr>"
  unfolding oc_def by (induction ts arbitrary: d) (auto simp: tallyTarget_def Let_def)

definition decisionCounts :: "decision \<Rightarrow> bool \<times> nat list" where
  "decisionCounts d = (dcPropose d, [dcTargets d, dcResolved d, dcRemaining d, dcUnknown d, dcUndetected d, dcIntroduced d])"

definition kevOf :: "intel_func \<Rightarrow> vuln_verdict list \<Rightarrow> string set" where
  "kevOf intel vs = {vid \<in> vvVulnID ` set vs. \<exists>i. IntelFunc_lookup intel vid = Some i \<and> viKEV i}"

lemma introducedStep_keeps:
  "decisionCounts (fst (introducedStep intel (d, kev) v)) = decisionCounts d"
  by (auto simp: introducedStep_def Let_def decisionCounts_def split: option.splits)

lemma introducedStep_kev:
  assumes "set (dcIntroducedKEV d) = set kev" "introducedStep intel (d, kev) v = (d', kev')"
  shows "set (dcIntroducedKEV d') = set kev' \<and> set kev' = set kev \<union> kevOf intel [v]"
proof (cases "IntelFunc_lookup intel (vvVulnID v)")
  case None
  then have "kevOf intel [v] = {}" by (auto simp: kevOf_def)
  moreover have "dcIntroducedKEV d' = dcIntroducedKEV d" "kev' = kev"
    using assms(2) None by (auto simp: introducedStep_def)
  ultimately show ?thesis using assms(1) by simp
next
  case (Some i)
  let ?C = "viKEV i \<and> vvVulnID v \<notin> set kev"
  have "kevOf intel [v] = (if viKEV i then {vvVulnID v} else {})" using Some by (auto simp: kevOf_def)
  moreover have "dcIntroducedKEV d' = (if ?C then dcIntroducedKEV d @ [vvVulnID v] else dcIntroducedKEV d)"
    "kev' = (if ?C then vvVulnID v # kev else kev)"
    using assms(2) Some by (auto simp: introducedStep_def Let_def split: if_splits)
  ultimately show ?thesis using assms(1) by auto
qed

lemma introduced_counts: "decisionCounts (fst (foldl (introducedStep intel) (d, kev) vs)) = decisionCounts d"
proof (induction vs arbitrary: d kev)
  case (Cons v vs)
  then show ?case using introducedStep_keeps [of intel d kev v] by (cases "introducedStep intel (d, kev) v") simp
qed simp

lemma introduced_kev:
  "set (dcIntroducedKEV d) = set kev \<Longrightarrow>
   set (dcIntroducedKEV (fst (foldl (introducedStep intel) (d, kev) vs))) = set kev \<union> kevOf intel vs"
proof (induction vs arbitrary: d kev)
  case Nil
  then show ?case by (simp add: kevOf_def)
next
  case (Cons v vs)
  obtain d1 kev1 where s: "introducedStep intel (d, kev) v = (d1, kev1)" by fastforce
  have "kevOf intel (v # vs) = kevOf intel [v] \<union> kevOf intel vs" by (auto simp: kevOf_def)
  with introducedStep_kev [OF Cons.prems s] Cons.IH [of d1 kev1] show ?case by (simp add: s Un_assoc)
qed

lemma decideKind_keeps [simp]:
  "dcTargets (decideKind d) = dcTargets d" "dcResolved (decideKind d) = dcResolved d"
  "dcRemaining (decideKind d) = dcRemaining d" "dcUnknown (decideKind d) = dcUnknown d"
  "dcUndetected (decideKind d) = dcUndetected d" "dcIntroduced (decideKind d) = dcIntroduced d"
  "dcIntroducedKEV (decideKind d) = dcIntroducedKEV d"
  by (simp_all add: decideKind_def)

lemma decideKind_propose:
  assumes "\<not> dcPropose d"
  shows "dcPropose (decideKind d) \<longleftrightarrow> dcIntroducedKEV d = [] \<and> dcIntroduced d = 0 \<and> dcTargets d \<noteq> 0 \<and> dcUnknown d = 0 \<and>
      dcResolved d \<noteq> 0"
    and "dcKind (decideKind d) = DecisionAdopt \<longleftrightarrow> dcPropose (decideKind d) \<and> dcResolved d \<ge> dcTargets d"
  using assms by (simp_all add: decideKind_def)

lemma decided:
  assumes "comparablePair b c"
  obtains d where "snd (compareDecide b c ts intel) = decideKind d" "\<not> dcPropose d" "dcTargets d = length ts"
    "dcResolved d = outcomeCount b c ts OutcomeResolved" "dcRemaining d = outcomeCount b c ts OutcomeRemaining"
    "dcUnknown d = outcomeCount b c ts OutcomeUnknown" "dcUndetected d = outcomeCount b c ts ''''"
    "dcIntroduced d = length (vrIntroduced (Compare b c))"
    "set (dcIntroducedKEV d) = kevOf intel (vrIntroduced (Compare b c))"
proof -
  let ?vr = "ApplyCoverage (Compare b c) ts b c"
  let ?d0 = "(foldl (tallyTarget (outcomesOf (vrVerdicts ?vr))) (startDecision (length ts)) ts)
     \<lparr>dcIntroduced := length (vrIntroduced ?vr)\<rparr>"
  let ?d1 = "fst (foldl (introducedStep intel) (?d0, []) (vrIntroduced ?vr))"
  define d where "d = ?d1\<lparr>dcIntroducedKEV := sort (dcIntroducedKEV ?d1)\<rparr>"
  have out: "mget '''' (outcomesOf (vrVerdicts ?vr)) (targetKey t) = targetOutcome b c ts t" if "t \<in> set ts" for t
    using covered_outcome [OF assms that] .
  have f: "filter (\<lambda>t. mget '''' (outcomesOf (vrVerdicts ?vr)) (targetKey t) = oc) ts = filter (\<lambda>t. targetOutcome b c ts t = oc) ts"
    for oc using out by (intro filter_cong) auto
  have u: "filter (\<lambda>t. mget '''' (outcomesOf (vrVerdicts ?vr)) (targetKey t) \<notin> {OutcomeResolved, OutcomeRemaining, OutcomeUnknown}) ts =
      filter (\<lambda>t. targetOutcome b c ts t = '''') ts"
    using out by (intro filter_cong) (auto simp: targetOutcome_def outcomeSpec_def Let_def)
  have "decisionCounts d = decisionCounts ?d0"
    using introduced_counts [of intel ?d0 "[]" "vrIntroduced ?vr"] by (simp add: d_def decisionCounts_def)
  also have "decisionCounts ?d0 = (False, [length ts, outcomeCount b c ts OutcomeResolved,
      outcomeCount b c ts OutcomeRemaining, outcomeCount b c ts OutcomeUnknown, outcomeCount b c ts '''',
      length (vrIntroduced (Compare b c))])"
    unfolding tally_loop f u outcomeCount_def by (simp add: decisionCounts_def startDecision_def)
  finally have counts: "decisionCounts d = \<dots>" .
  have "dcIntroducedKEV ?d0 = []" unfolding tally_loop by (simp add: startDecision_def)
  then have "set (dcIntroducedKEV d) = kevOf intel (vrIntroduced (Compare b c))"
    using introduced_kev [of ?d0 "[]" intel "vrIntroduced ?vr"] by (simp add: d_def)
  moreover have "snd (compareDecide b c ts intel) = decideKind d"
    using Compare_comparable(1) [OF assms] by (simp add: compareDecide_def Decide_def Let_def d_def)
  ultimately show ?thesis using that counts by (simp add: decisionCounts_def)
qed

lemma outcomeCount_zero: "outcomeCount b c ts oc = 0 \<longleftrightarrow> (\<forall>t \<in> set ts. targetOutcome b c ts t \<noteq> oc)"
  by (simp add: outcomeCount_def filter_empty_conv)

lemma outcomeCount_all: "outcomeCount b c ts oc \<ge> length ts \<longleftrightarrow> (\<forall>t \<in> set ts. targetOutcome b c ts t = oc)"
proof (intro iffI ballI)
  fix t assume "length ts \<le> outcomeCount b c ts oc" "t \<in> set ts"
  then show "targetOutcome b c ts t = oc"
    using length_filter_less [of t ts "\<lambda>t. targetOutcome b c ts t = oc"] unfolding outcomeCount_def by fastforce
qed (simp add: outcomeCount_def)

lemma introduced_none:
  assumes "comparablePair b c" "rng = map toUpper (scSeverities (srConditions b))"
  shows "vrIntroduced (Compare b c) = [] \<longleftrightarrow>
    (\<forall>k. findingsFor rng (srScan c) k \<noteq> [] \<longrightarrow> findingsFor rng (srScan b) k \<noteq> [])"
proof -
  have "vrIntroduced (Compare b c) = [] \<longleftrightarrow> verdictKeyOf ` set (vrIntroduced (Compare b c)) = {}" by simp
  then show ?thesis unfolding Compare_keys(4) [OF assms(1)] assms(2) by auto
qed

lemma kevOf_Nil [simp]: "kevOf intel [] = {}"
  by (simp add: kevOf_def)

lemma Decide_not_comparable: "\<not> comparablePair b c \<Longrightarrow>
  snd (compareDecide b c ts intel) = (startDecision (length ts))\<lparr>dcKind := DecisionNotComparable, dcNote := vrReason (Compare b c)\<rparr>"
  by (erule Compare_refused) (simp add: compareDecide_def ApplyCoverage_def Decide_def notComparable_def Let_def)

lemma outcomeCount_sum:
  "outcomeCount b c ts OutcomeResolved + outcomeCount b c ts OutcomeRemaining + outcomeCount b c ts OutcomeUnknown +
   outcomeCount b c ts '''' = length ts"
proof -
  have "targetOutcome b c ts t \<in> {OutcomeResolved, OutcomeRemaining, OutcomeUnknown, ''''}" for t
    by (simp add: targetOutcome_def outcomeSpec_def Let_def)
  then have "length (filter (\<lambda>t. targetOutcome b c ts t = OutcomeResolved) us) +
      length (filter (\<lambda>t. targetOutcome b c ts t = OutcomeRemaining) us) +
      length (filter (\<lambda>t. targetOutcome b c ts t = OutcomeUnknown) us) +
      length (filter (\<lambda>t. targetOutcome b c ts t = '''') us) = length us" for us
    by (induction us) auto
  then show ?thesis by (simp add: outcomeCount_def)
qed

subsection \<open>Properties\<close>

lemma Priority_Rank_mono_sorted:
  "sorted_wrt (\<lambda>a b. \<not> lessTarget b a) ts \<Longrightarrow>
   sorted_wrt (\<lambda>a b. Priority_Rank (tgPriority a) \<ge> Priority_Rank (tgPriority b)) ts"
  by (erule sorted_wrt_mono_rel [rotated]) (auto simp: lessTarget_def split: if_splits)

text \<open>
  The targets of a scan are exactly its fixable findings: there is one target per pair of a
  vulnerability and a package that some finding reports as fixed with a fixed version, each once. A
  target carries every fixed version and every result type its findings name, sorted and without
  duplicates, and the priority intel knows; more urgent targets come first.
\<close>

lemma SelectTargets_exact:
  "distinct (map targetKey (SelectTargets findings intel)) \<and>
   targetKey ` set (SelectTargets findings intel) = {k. fixableFor findings k \<noteq> []} \<and>
   (\<forall>t \<in> set (SelectTargets findings intel). targetSpec findings intel t) \<and>
   sorted_wrt (\<lambda>a b. Priority_Rank (tgPriority a) \<ge> Priority_Rank (tgPriority b)) (SelectTargets findings intel)"
proof -
  let ?K = "{k. fixableFor findings k \<noteq> []}" and ?ts = "SelectTargets findings intel"
  have *: "mset (map targetKey ?ts) = mset_set ?K" "finite ?K" "\<forall>t \<in> set ?ts. targetSpec findings intel t"
    using SelectTargets_keys [of findings intel] by blast+
  have "distinct (map targetKey ?ts)"
    using *(1,2) by (metis distinct_count_atmost_1 count_mset_set(1,3) finite_set_mset_mset_set set_mset_mset)
  moreover have "set (map targetKey ?ts) = ?K" using *(1,2) by (metis finite_set_mset_mset_set set_mset_mset)
  moreover have "sorted_wrt (\<lambda>a b. Priority_Rank (tgPriority a) \<ge> Priority_Rank (tgPriority b)) ?ts"
    by (intro Priority_Rank_mono_sorted) (auto simp: SelectTargets_def split: prod.splits intro: target_order.sorted_sortBy)
  ultimately show ?thesis using *(3) by simp
qed

definition sampleIntelFunc :: intel_func where
  "sampleIntelFunc = Some (\<lambda>vid. if vid = ''CVE-1'' then Some \<lparr>viPriority = PriorityActNow, viKEV = True\<rparr> else None)"

text \<open>
  C13. A candidate is proposed exactly when the two scans are comparable, the candidate reports no pair
  the baseline does not, no target is left unjudged (every kind of package it was reported in was
  analysed by both scans) and at least one target is resolved; it is adopted in full exactly when it
  is proposed and every target is resolved. The counts of the decision are those of the targets so
  judged, they add up to the number of targets, and the vulnerabilities called newly introduced and
  known to be exploited are exactly those.
\<close>

theorem adoption_exact:
  assumes "d = snd (compareDecide b c ts intel)" "rng = map toUpper (scSeverities (srConditions b))"
  shows "(dcPropose d \<longleftrightarrow> comparablePair b c \<and>
        (\<forall>k. findingsFor rng (srScan c) k \<noteq> [] \<longrightarrow> findingsFor rng (srScan b) k \<noteq> []) \<and>
        (\<forall>t \<in> set ts. targetOutcome b c ts t \<noteq> OutcomeUnknown) \<and>
        (\<exists>t \<in> set ts. targetOutcome b c ts t = OutcomeResolved)) \<and>
    (dcKind d = DecisionAdopt \<longleftrightarrow> dcPropose d \<and> (\<forall>t \<in> set ts. targetOutcome b c ts t = OutcomeResolved)) \<and>
    (comparablePair b c \<longrightarrow>
       dcResolved d = outcomeCount b c ts OutcomeResolved \<and> dcRemaining d = outcomeCount b c ts OutcomeRemaining \<and>
       dcUnknown d = outcomeCount b c ts OutcomeUnknown \<and>
       dcResolved d + dcRemaining d + dcUnknown d + dcUndetected d = length ts \<and>
       set (dcIntroducedKEV d) = kevOf intel (vrIntroduced (Compare b c)))"
proof (cases "comparablePair b c")
  case False
  then show ?thesis using Decide_not_comparable [OF False, of ts intel] by (simp add: assms startDecision_def)
next
  case True
  from decided [OF True, of ts intel] obtain d0 where d: "d = decideKind d0" "\<not> dcPropose d0" "dcTargets d0 = length ts"
    "dcResolved d0 = outcomeCount b c ts OutcomeResolved" "dcRemaining d0 = outcomeCount b c ts OutcomeRemaining"
    "dcUnknown d0 = outcomeCount b c ts OutcomeUnknown" "dcUndetected d0 = outcomeCount b c ts ''''"
    "dcIntroduced d0 = length (vrIntroduced (Compare b c))"
    "set (dcIntroducedKEV d0) = kevOf intel (vrIntroduced (Compare b c))" unfolding assms by metis
  have none: "dcIntroducedKEV d0 = [] \<and> dcIntroduced d0 = 0 \<longleftrightarrow>
      (\<forall>k. findingsFor rng (srScan c) k \<noteq> [] \<longrightarrow> findingsFor rng (srScan b) k \<noteq> [])"
    unfolding introduced_none [OF True assms(2), symmetric] using d(8,9) by auto
  have "ts \<noteq> []" if "\<exists>t \<in> set ts. targetOutcome b c ts t = OutcomeResolved" using that by auto
  then have "dcPropose d \<longleftrightarrow> (\<forall>k. findingsFor rng (srScan c) k \<noteq> [] \<longrightarrow> findingsFor rng (srScan b) k \<noteq> []) \<and>
        (\<forall>t \<in> set ts. targetOutcome b c ts t \<noteq> OutcomeUnknown) \<and>
        (\<exists>t \<in> set ts. targetOutcome b c ts t = OutcomeResolved)"
    unfolding d(1) decideKind_propose(1) [OF d(2)] none [symmetric] d(3,4,6) outcomeCount_zero by auto
  moreover have "dcKind d = DecisionAdopt \<longleftrightarrow> dcPropose d \<and> (\<forall>t \<in> set ts. targetOutcome b c ts t = OutcomeResolved)"
    unfolding d(1) decideKind_propose(2) [OF d(2)] d(3,4) outcomeCount_all ..
  moreover have "outcomeCount b c ts OutcomeResolved + outcomeCount b c ts OutcomeRemaining +
      outcomeCount b c ts OutcomeUnknown + outcomeCount b c ts '''' = length ts"
    by (rule outcomeCount_sum)
  ultimately show ?thesis using True d by simp
qed

theorem adoption_exact_witness:
  "(let ts = SelectTargets (snFindings (srScan sampleBaseline)) sampleIntelFunc;
        d = snd (compareDecide sampleBaseline sampleCandidate ts sampleIntelFunc) in
    dcPropose d \<and> dcKind d = DecisionAdopt \<and>
    list_all (\<lambda>t. targetOutcome sampleBaseline sampleCandidate ts t = OutcomeResolved) ts)"
proof -
  let ?ts = "SelectTargets (snFindings (srScan sampleBaseline)) sampleIntelFunc"
  let ?d = "snd (compareDecide sampleBaseline sampleCandidate ?ts sampleIntelFunc)"
  have "dcKind ?d = DecisionAdopt" by code_simp
  with adoption_exact [OF refl refl, of sampleBaseline sampleCandidate ?ts sampleIntelFunc] show ?thesis
    unfolding Let_def list_all_iff by blast
qed

text \<open>
  The comment on \<open>DecisionAnalysisIncomplete\<close> says that no target is positively known to remain. The
  rule does not check that: here one target remains and another is unjudged, and the kind is the same.
\<close>

definition jarFinding :: finding where
  "jarFinding = sampleFinding\<lparr>fdVulnID := ''CVE-2'', fdClass := ClassLang, fdType := ''jar'', fdPackage := ''log''\<rparr>"

definition mixedBaseline :: scan_record where
  "mixedBaseline = sampleBaseline\<lparr>srScan := samplePinnedScan [sampleFinding, jarFinding] ''3.0''\<rparr>"

lemma incomplete_although_remaining:
  "(let ts = SelectTargets (snFindings (srScan mixedBaseline)) None;
        d = snd (compareDecide mixedBaseline (sampleCandidate\<lparr>srScan := samplePinnedScan [sampleFinding] ''3.0''\<rparr>) ts None) in
    dcKind d = DecisionAnalysisIncomplete \<and> dcRemaining d = 1 \<and> dcUnknown d = 1)"
  by code_simp

end
