(* ===== verification/Image_Tags.thy ===== *)
theory Image_Tags
  imports Inventory
begin

section \<open>Image tags and the newer patch of a series\<close>

text \<open>
  \<open>internal/remediation/tag.go\<close> (what a running reference is and what its tag says),
  \<open>tag_series.go\<close> (reading only the part of a tag listing around one series) and \<open>candidate.go\<close>
  (the highest patch of the series). The registry is a parameter: a listing request is answered by
  any function of the number of requests made so far and the position asked for.

  The lemmas show that a pinned tag is parsed exactly when it renders a version and back again, that
  the walk over a series always returns and stays within its allowance, and that against a registry
  that lists in order the candidate chosen from the walk is the one the whole listing would give, even
  where the registry drops the first tag after a position that is not itself a tag.
\<close>

subsection \<open>Tags (tag.go)\<close>

abbreviation TagPinned :: string where "TagPinned \<equiv> ''pinned''"
abbreviation TagFloating :: string where "TagFloating \<equiv> ''floating''"
abbreviation TagExcluded :: string where "TagExcluded \<equiv> ''excluded''"

abbreviation ExcludeNone :: string where "ExcludeNone \<equiv> ''''"
abbreviation ExcludeDigestOnly :: string where "ExcludeDigestOnly \<equiv> ''digest_only''"
abbreviation ExcludeTagAndDigest :: string where "ExcludeTagAndDigest \<equiv> ''tag_and_digest''"
abbreviation ExcludePrerelease :: string where "ExcludePrerelease \<equiv> ''prerelease''"
abbreviation ExcludeBareDigest :: string where "ExcludeBareDigest \<equiv> ''bare_digest''"
abbreviation ExcludeUnparsable :: string where "ExcludeUnparsable \<equiv> ''unparsable''"
abbreviation ExcludeUnsupportedTag :: string where "ExcludeUnsupportedTag \<equiv> ''unsupported_tag_format''"

record tag_version =
  tvPrefix :: string
  tvMajor :: nat
  tvMinor :: nat
  tvPatch :: nat
  tvSuffix :: string

definition zeroTagVersion :: tag_version where
  "zeroTagVersion = \<lparr>tvPrefix = '''', tvMajor = 0, tvMinor = 0, tvPatch = 0, tvSuffix = ''''\<rparr>"

definition TagVersion_String :: "tag_version \<Rightarrow> string" where
  "TagVersion_String v =
     tvPrefix v @ itoa (tvMajor v) @ ''.'' @ itoa (tvMinor v) @ ''.'' @ itoa (tvPatch v) @ tvSuffix v"

record image_ref =
  irRaw :: string
  irRepository :: string
  irTag :: string
  irImplicitTag :: bool
  irDigest :: string
  irKind :: string
  irExclude :: string
  irVersion :: tag_version

definition isLetterByte :: "char \<Rightarrow> bool" where
  "isLetterByte c \<longleftrightarrow> isLowerByte c \<or> isUpperByte c"

definition isPrefixByte :: "char \<Rightarrow> bool" where
  "isPrefixByte c \<longleftrightarrow> isLetterByte c \<or> c = CHR ''_'' \<or> c = CHR ''-''"

definition notNewline :: "char \<Rightarrow> bool" where
  "notNewline c \<longleftrightarrow> c \<noteq> newline"

definition numericTagRE :: re where
  "numericTagRE =
     Cat (opt (Grp 1 (Cat (Cls isLetterByte) (Star (Cls isPrefixByte)))))
     (Cat (Grp 2 (Cat (plus digitRE) (Star (Cat (chr (CHR ''.'')) (plus digitRE)))))
          (Grp 3 (Star (Cls notNewline))))"

definition prereleaseTokenRE :: re where
  "prereleaseTokenRE = altOf (map lit [''alpha'', ''beta'', ''rc'', ''dev'', ''preview'', ''pre'', ''nightly'',
     ''snapshot'', ''canary'', ''unstable''])"

definition attachedPreRE :: re where
  "attachedPreRE = Cat digitRE (Cat (oneOf ''ab'') (plus digitRE))"

definition tokenRE :: re where
  "tokenRE = Alt (plus (Cls isLowerByte)) (plus digitRE)"

definition bareDigestRE :: re where
  "bareDigestRE = Cat (lit ''sha256:'') (Star (Cls (\<lambda>c. isDigitByte c \<or> isLetterByte c)))"

definition maxVersionDigits :: nat where
  "maxVersionDigits = 9"

definition IsPrerelease :: "string \<Rightarrow> bool" where
  "IsPrerelease tag =
     (let lower = toLower tag in
      list_ex (matchFull prereleaseTokenRE) (findAll tokenRE lower) \<or> searchMatch attachedPreRE lower)"

text \<open>The texts are runs of digits of at most nine bytes, which \<open>strconv.Atoi\<close> reads without overflow.\<close>

definition canonicalNumber :: "string \<Rightarrow> nat option" where
  "canonicalNumber s =
     (if length s > maxVersionDigits \<or> (length s > 1 \<and> s ! 0 = CHR ''0'') then None
      else if s \<noteq> '''' \<and> list_all isDigitByte s then Some (decVal s) else None)"

definition classifyTag :: "string \<Rightarrow> string \<times> tag_version \<times> string" where
  "classifyTag tag =
     (case fullMatch numericTagRE tag of
        None \<Rightarrow> if hasPrefix tag ''.'' then (TagExcluded, zeroTagVersion, ExcludeUnsupportedTag)
                else (TagFloating, zeroTagVersion, ExcludeNone)
      | Some m \<Rightarrow>
         (let parts = splitOn (CHR ''.'') (group m 2); rest = group m 3 in
          if length parts \<le> 2 \<and> hasPrefix rest ''.'' then (TagExcluded, zeroTagVersion, ExcludeUnsupportedTag)
          else if length parts \<le> 2 then (TagFloating, zeroTagVersion, ExcludeNone)
          else if length parts > 3 then (TagExcluded, zeroTagVersion, ExcludeUnsupportedTag)
          else if rest \<noteq> '''' \<and> \<not> (hasPrefix rest ''-'' \<and> length rest > 1)
          then (TagExcluded, zeroTagVersion, ExcludeUnsupportedTag)
          else (case (canonicalNumber (parts ! 0), canonicalNumber (parts ! 1), canonicalNumber (parts ! 2)) of
                  (Some a, Some b, Some c) \<Rightarrow>
                    (TagPinned, \<lparr>tvPrefix = group m 1, tvMajor = a, tvMinor = b, tvPatch = c, tvSuffix = rest\<rparr>, ExcludeNone)
                | _ \<Rightarrow> (TagExcluded, zeroTagVersion, ExcludeUnsupportedTag))))"

text \<open>\<open>ParseTagVersion\<close>: the version where \<open>ok\<close> is true.\<close>

definition ParseTagVersion :: "string \<Rightarrow> tag_version option" where
  "ParseTagVersion tag = (let (kind, v, why) = classifyTag tag in if kind = TagPinned then Some v else None)"

definition ParseImageRef :: "string \<Rightarrow> image_ref" where
  "ParseImageRef ref =
     (let out = \<lparr>irRaw = ref, irRepository = '''', irTag = '''', irImplicitTag = False, irDigest = '''',
                 irKind = TagExcluded, irExclude = '''', irVersion = zeroTagVersion\<rparr> in
      if \<not> list_ex (\<lambda>c. c \<in> set ''/@'') ref \<and> matchFull bareDigestRE ref then out\<lparr>irExclude := ExcludeBareDigest\<rparr>
      else (case RepositoryOf ref of
          None \<Rightarrow> out\<lparr>irExclude := ExcludeUnparsable\<rparr>
        | Some repo \<Rightarrow>
          (let out = out\<lparr>irRepository := repo, irDigest := DigestOf ref\<rparr>; tag = TagOf ref in
           if tag \<noteq> '''' \<and> irDigest out \<noteq> '''' then out\<lparr>irTag := tag, irExclude := ExcludeTagAndDigest\<rparr>
           else if irDigest out \<noteq> '''' then out\<lparr>irExclude := ExcludeDigestOnly\<rparr>
           else (let (tag, out) = (if tag = '''' then (''latest'', out\<lparr>irImplicitTag := True\<rparr>) else (tag, out));
                     out = out\<lparr>irTag := tag\<rparr> in
                 if IsPrerelease tag then out\<lparr>irExclude := ExcludePrerelease\<rparr>
                 else (let (kind, v, why) = classifyTag tag; out = out\<lparr>irKind := kind, irExclude := why\<rparr> in
                       if kind = TagPinned then out\<lparr>irVersion := v\<rparr> else out)))))"

subsection \<open>Reading one series of a listing (tag\_series.go)\<close>

record tags_after =
  taTags :: "string list"
  taMore :: bool
  taSent :: bool

record tag_list =
  tlTags :: "string list"
  tlTruncated :: bool
  tlPages :: nat

text \<open>
  A pager answers the request with the given number for the tags after a position; an answer may come
  with an error. A registry is its full listing and, where it has one, its pager.
\<close>

type_synonym tag_pager = "nat \<Rightarrow> string \<Rightarrow> tags_after \<times> string option"

record tag_registry =
  rgPager :: "tag_pager option"
  rgListTagsUpTo :: "nat \<Rightarrow> tag_list \<times> string option"

definition maxStartMinors :: nat where
  "maxStartMinors = 3"

definition seriesBase :: "tag_version \<Rightarrow> string" where
  "seriesBase cur = tvPrefix cur @ itoa (tvMajor cur) @ ''.'' @ itoa (tvMinor cur) @ ''.''"

definition seriesKey :: "tag_version \<Rightarrow> string" where
  "seriesKey cur = seriesBase cur @ tvSuffix cur"

definition sameSeries :: "tag_version \<Rightarrow> tag_version \<Rightarrow> bool" where
  "sameSeries v cur \<longleftrightarrow> tvPrefix v = tvPrefix cur \<and> tvSuffix v = tvSuffix cur \<and> tvMajor v = tvMajor cur \<and> tvMinor v = tvMinor cur"

definition inSeries :: "string \<Rightarrow> tag_version \<Rightarrow> bool" where
  "inSeries tag cur = (case ParseTagVersion tag of None \<Rightarrow> False | Some v \<Rightarrow> sameSeries v cur)"

definition tagBefore :: "string \<Rightarrow> string" where
  "tagBefore x = butlast x @ [char_of (of_char (last x) - 1 :: nat)] @ ''~''"

fun startMinors :: "tag_version \<Rightarrow> nat \<Rightarrow> nat \<Rightarrow> string list" where
  "startMinors cur 0 n = []"
| "startMinors cur (Suc k) 0 = []"
| "startMinors cur (Suc k) (Suc n) =
     tagBefore (tvPrefix cur @ itoa (tvMajor cur) @ ''.'' @ itoa k @ ''.'') # startMinors cur k n"

definition seriesStarts :: "tag_version \<Rightarrow> string list" where
  "seriesStarts cur = startMinors cur (tvMinor cur) maxStartMinors
     @ [tagBefore (tvPrefix cur @ itoa (tvMajor cur) @ ''.''), '''']"

record series_walk =
  swTags :: "string list"
  swComplete :: bool
  swUnreliable :: bool
  swRequests :: nat

definition zeroWalk :: series_walk where
  "zeroWalk = \<lparr>swTags = [], swComplete = False, swUnreliable = False, swRequests = 0\<rparr>"

text \<open>The order check of a page: \<open>None\<close> at a tag that does not sort after the one before it.\<close>

fun pageOrder :: "string \<Rightarrow> string list \<Rightarrow> string option" where
  "pageOrder prev [] = Some prev"
| "pageOrder prev (tag # tags) = (if tag \<le> prev then None else pageOrder tag tags)"

text \<open>The tags of a page that belong to the series, and whether a tag after the series was reached.\<close>

fun pageSeries :: "tag_version \<Rightarrow> string list \<Rightarrow> string list \<times> bool" where
  "pageSeries cur [] = ([], False)"
| "pageSeries cur (tag # tags) =
     (if hasPrefix tag (seriesBase cur)
      then (let (found, past) = pageSeries cur tags in (if inSeries tag cur then tag # found else found, past))
      else if tag > seriesBase cur then ([], True)
      else pageSeries cur tags)"

text \<open>The loop of \<open>walkFrom\<close>; \<open>n\<close> counts the requests. The result is \<open>done\<close>, the error, the walk and \<open>n\<close>.\<close>

partial_function (option) walkLoop :: "tag_pager \<Rightarrow> tag_version \<Rightarrow> string \<Rightarrow> nat \<Rightarrow> nat \<Rightarrow> string \<Rightarrow> bool \<Rightarrow> series_walk
    \<Rightarrow> (bool \<times> string option \<times> series_walk \<times> nat) option" where
  "walkLoop pager cur start maxRequests n lst first w =
     (if swRequests w \<ge> maxRequests then Some (True, None, w, n)
      else (let (page, err) = pager n lst;
                w = (if taSent page then w\<lparr>swRequests := Suc (swRequests w)\<rparr> else w) in
        if err \<noteq> None then Some (True, err, w, Suc n)
        else if first \<and> start \<noteq> '''' \<and> (taTags page = [] \<or> taTags page ! 0 \<ge> seriesBase cur) then Some (False, None, w, Suc n)
        else if taTags page = []
        then Some (True, None, if taMore page then w\<lparr>swUnreliable := True\<rparr> else w\<lparr>swComplete := True\<rparr>, Suc n)
        else (case pageOrder lst (taTags page) of
            None \<Rightarrow> Some (True, None, w\<lparr>swUnreliable := True\<rparr>, Suc n)
          | Some prev \<Rightarrow>
             (let (found, past) = pageSeries cur (taTags page); w = w\<lparr>swTags := swTags w @ found\<rparr> in
              if past \<or> \<not> taMore page then Some (True, None, w\<lparr>swComplete := True\<rparr>, Suc n)
              else walkLoop pager cur start maxRequests (Suc n) prev False w))))"

definition walkFrom :: "tag_pager \<Rightarrow> tag_version \<Rightarrow> string \<Rightarrow> nat \<Rightarrow> nat \<Rightarrow> series_walk
    \<Rightarrow> (bool \<times> string option \<times> series_walk \<times> nat) option" where
  "walkFrom pager cur start maxRequests n w =
     walkLoop pager cur start maxRequests n start True
       (w\<lparr>swTags := [], swComplete := False, swUnreliable := False\<rparr>)"

fun walkStarts :: "tag_pager \<Rightarrow> tag_version \<Rightarrow> nat \<Rightarrow> string list \<Rightarrow> nat \<Rightarrow> series_walk
    \<Rightarrow> (series_walk \<times> string option) option" where
  "walkStarts pager cur maxRequests [] n w = Some (w, None)"
| "walkStarts pager cur maxRequests (start # starts) n w =
     (case walkFrom pager cur start maxRequests n w of
        None \<Rightarrow> None
      | Some (fin, err, w, n) \<Rightarrow>
          if err \<noteq> None \<or> fin then Some (w, err) else walkStarts pager cur maxRequests starts n w)"

definition walkSeries :: "tag_pager \<Rightarrow> tag_version \<Rightarrow> nat \<Rightarrow> (series_walk \<times> string option) option" where
  "walkSeries pager cur maxRequests = walkStarts pager cur maxRequests (seriesStarts cur) 0 zeroWalk"

text \<open>\<open>listPinnedSeries\<close>: the list, whether it is the whole listing, and the error.\<close>

definition listPinnedSeries :: "tag_registry \<Rightarrow> tag_version \<Rightarrow> nat \<Rightarrow> (tag_list \<times> bool \<times> string option) option" where
  "listPinnedSeries reg cur allowance =
     (case rgPager reg of
        None \<Rightarrow> (let (l, err) = rgListTagsUpTo reg allowance in Some (l, True, err))
      | Some pager \<Rightarrow>
         (case walkSeries pager cur allowance of
            None \<Rightarrow> None
          | Some (w, err) \<Rightarrow>
             if err \<noteq> None then Some (\<lparr>tlTags = [], tlTruncated = False, tlPages = swRequests w\<rparr>, False, err)
             else if swUnreliable w then
               (if allowance \<le> swRequests w
                then Some (\<lparr>tlTags = [], tlTruncated = True, tlPages = swRequests w\<rparr>, False, None)
                else (let (l, err) = rgListTagsUpTo reg (allowance - swRequests w) in
                      Some (l\<lparr>tlPages := tlPages l + swRequests w\<rparr>, True, err)))
             else Some (\<lparr>tlTags = swTags w, tlTruncated = \<not> swComplete w, tlPages = swRequests w\<rparr>, False, None)))"

subsection \<open>The newer patch (candidate.go)\<close>

abbreviation SelectionFound :: string where "SelectionFound \<equiv> ''found''"
abbreviation SelectionNone :: string where "SelectionNone \<equiv> ''none''"
abbreviation SelectionIncomplete :: string where "SelectionIncomplete \<equiv> ''incomplete''"

record selection =
  slOutcome :: string
  slTag :: string
  slVersion :: tag_version

definition pickPatch :: "tag_version \<Rightarrow> selection \<Rightarrow> string \<Rightarrow> selection" where
  "pickPatch cur best tag =
     (if IsPrerelease tag then best
      else (case ParseTagVersion tag of
          None \<Rightarrow> best
        | Some v \<Rightarrow>
            if \<not> sameSeries v cur then best
            else if tvPatch v \<le> tvPatch cur then best
            else if slOutcome best = SelectionNone \<or> tvPatch v > tvPatch (slVersion best)
            then \<lparr>slOutcome = SelectionFound, slTag = tag, slVersion = v\<rparr> else best))"

definition SelectPinned :: "tag_version \<Rightarrow> tag_list \<Rightarrow> selection" where
  "SelectPinned cur tags =
     (if tlTruncated tags then \<lparr>slOutcome = SelectionIncomplete, slTag = '''', slVersion = zeroTagVersion\<rparr>
      else foldl (pickPatch cur) \<lparr>slOutcome = SelectionNone, slTag = '''', slVersion = zeroTagVersion\<rparr> (tlTags tags))"

subsection \<open>Preferred matches\<close>

text \<open>The match Go prefers is the first one of the search; it is found greedily.\<close>

definition prefers :: "re \<Rightarrow> string \<Rightarrow> caps \<Rightarrow> string \<times> caps \<Rightarrow> bool" where
  "prefers r s c x \<longleftrightarrow> (\<exists>xs. run r s c = x # xs)"

lemma prefers_Cls: "p a \<Longrightarrow> prefers (Cls p) (a # s) c (s, c)"
  by (simp add: prefers_def)

lemma prefers_Cat: "prefers r1 s c (s1, c1) \<Longrightarrow> prefers r2 s1 c1 x \<Longrightarrow> prefers (Cat r1 r2) s c x"
  by (auto simp: prefers_def)

lemma prefers_Grp: "prefers r s c (s', c') \<Longrightarrow> prefers (Grp i r) s c (s', (i, take (length s - length s') s) # c')"
  by (auto simp: prefers_def)

lemma prefers_opt: "prefers r s c x \<Longrightarrow> prefers (opt r) s c x"
  by (auto simp: prefers_def opt_def)

lemma prefers_opt_none: "run r s c = [] \<Longrightarrow> prefers (opt r) s c (s, c)"
  by (auto simp: prefers_def opt_def)

lemma prefers_Star_more:
  "prefers r s c (s1, c1) \<Longrightarrow> length s1 < length s \<Longrightarrow> prefers (Star r) s1 c1 x \<Longrightarrow> prefers (Star r) s c x"
  by (auto simp: prefers_def run.simps(5) [of r s])

lemma prefers_Star_done: "run r s c = [] \<Longrightarrow> prefers (Star r) s c (s, c)"
  by (auto simp: prefers_def run.simps(5))

lemma prefers_Star_Cls:
  "list_all p w \<Longrightarrow> (s = [] \<or> \<not> p (hd s)) \<Longrightarrow> prefers (Star (Cls p)) (w @ s) c (s, c)"
proof (induction w)
  case Nil
  then have "run (Cls p) s c = []" by (auto split: list.splits)
  then show ?case by (simp add: prefers_Star_done)
next
  case (Cons a w)
  then have "prefers (Cls p) (a # w @ s) c (w @ s, c)" "prefers (Star (Cls p)) (w @ s) c (s, c)"
    by (auto intro: prefers_Cls)
  then have "prefers (Star (Cls p)) (a # w @ s) c (s, c)" by (metis prefers_Star_more length_Cons lessI)
  then show ?case by simp
qed

lemma prefers_plus_Cls:
  "list_all p w \<Longrightarrow> w \<noteq> [] \<Longrightarrow> (s = [] \<or> \<not> p (hd s)) \<Longrightarrow> prefers (plus (Cls p)) (w @ s) c (s, c)"
proof -
  assume w: "list_all p w" "w \<noteq> []" and s: "s = [] \<or> \<not> p (hd s)"
  then obtain a v where v: "w = a # v" "p a" "list_all p v" by (cases w) auto
  have "prefers (Cls p) (w @ s) c (v @ s, c)" using v by (simp add: prefers_Cls)
  then show ?thesis unfolding plus_def using prefers_Star_Cls [OF v(3) s] by (rule prefers_Cat)
qed

lemma prefers_full: "prefers r s [] ([], c) \<Longrightarrow> fullMatch r s = Some c"
  by (auto simp: prefers_def fullMatch_def)

subsection \<open>Pinned tags render versions\<close>

text \<open>The versions a pinned tag can carry.\<close>

definition tagVersionOk :: "tag_version \<Rightarrow> bool" where
  "tagVersionOk v \<longleftrightarrow>
     (tvPrefix v = '''' \<or> isLetterByte (hd (tvPrefix v)) \<and> list_all isPrefixByte (tl (tvPrefix v))) \<and>
     tvMajor v < 10 ^ 9 \<and> tvMinor v < 10 ^ 9 \<and> tvPatch v < 10 ^ 9 \<and>
     (tvSuffix v = '''' \<or> hd (tvSuffix v) = CHR ''-'' \<and> length (tvSuffix v) > 1 \<and> list_all notNewline (tvSuffix v))"

lemma itoa_length: "length (itoa n) \<le> k \<longleftrightarrow> n < 10 ^ k" if "k > 0"
proof
  assume "length (itoa n) \<le> k"
  moreover have "n < 10 ^ length (itoa n)" using decVal_bound [of "itoa n"] itoa_digits [of n] by (auto simp: decVal_itoa)
  ultimately show "n < 10 ^ k" by (meson less_le_trans one_le_numeral power_increasing)
next
  assume n: "n < 10 ^ k"
  show "length (itoa n) \<le> k"
  proof (rule ccontr)
    assume "\<not> length (itoa n) \<le> k"
    then have "10 ^ k \<le> (10 :: nat) ^ (length (itoa n) - 1)" "length (itoa n) > 1"
      using that by (auto intro: power_increasing)
    moreover have "10 ^ (length (itoa n) - 1) \<le> n"
      using canonicalDec_lower_bound [of "itoa n"] calculation(2) by (simp add: decVal_itoa)
    ultimately show False using n by linarith
  qed
qed

lemma canonicalNumber_Some: "canonicalNumber s = Some n \<longleftrightarrow> s = itoa n \<and> n < 10 ^ 9"
proof
  assume "canonicalNumber s = Some n"
  then have s: "canonicalDec s" "n = decVal s" "length s \<le> 9"
    by (auto simp: canonicalNumber_def canonicalDec_def maxVersionDigits_def list_all_iff hd_conv_nth split: if_splits)
  then have "s = itoa n" by (simp add: canonicalDec_eq_itoa)
  with s(3) itoa_length [of 9 n] show "s = itoa n \<and> n < 10 ^ 9" by simp
next
  assume a: "s = itoa n \<and> n < 10 ^ 9"
  then have "length s \<le> 9" using itoa_length [of 9 n] by simp
  with a canonicalDec_itoa [of n] show "canonicalNumber s = Some n"
    by (auto simp: canonicalNumber_def canonicalDec_def maxVersionDigits_def list_all_iff hd_conv_nth decVal_itoa)
qed

lemma numericTagRE_sound:
  assumes "fullMatch numericTagRE tag = Some m"
  shows "tag = group m 1 @ group m 2 @ group m 3"
    and "group m 1 = '''' \<or> isLetterByte (hd (group m 1)) \<and> list_all isPrefixByte (tl (group m 1))"
    and "list_all notNewline (group m 3)"
proof -
  have "md numericTagRE tag [] m" using assms by (rule fullMatch_md)
  then have "tag = group m 1 @ group m 2 @ group m 3 \<and>
    (group m 1 = '''' \<or> isLetterByte (hd (group m 1)) \<and> list_all isPrefixByte (tl (group m 1))) \<and>
    list_all notNewline (group m 3)"
    unfolding numericTagRE_def md_simps by (auto simp: group_def mget_def list_all_iff md_Star_sep)
  then show "tag = group m 1 @ group m 2 @ group m 3"
    "group m 1 = '''' \<or> isLetterByte (hd (group m 1)) \<and> list_all isPrefixByte (tl (group m 1))"
    "list_all notNewline (group m 3)" by blast+
qed

lemma itoa_plus: "s = [] \<or> \<not> isDigitByte (hd s) \<Longrightarrow> prefers (plus digitRE) (itoa n @ s) c (s, c)"
  using canonicalDec_itoa [of n] by (intro prefers_plus_Cls) (auto simp: canonicalDec_def list_all_iff)

lemma dot_itoa:
  "s = [] \<or> \<not> isDigitByte (hd s) \<Longrightarrow> prefers (Cat (chr (CHR ''.'')) (plus digitRE)) (CHR ''.'' # itoa n @ s) c (s, c)"
  unfolding chr_def by (rule prefers_Cat [OF prefers_Cls]) (auto intro: itoa_plus)

lemma not_digit: "\<not> isDigitByte (CHR ''.'')" "\<not> isDigitByte (CHR ''-'')"
  by (simp_all add: isDigitByte_def less_eq_char_def)

lemma letter_not_digit: "isLetterByte c \<Longrightarrow> \<not> isDigitByte c"
  by (auto simp: isLetterByte_def isLowerByte_def isUpperByte_def isDigitByte_def less_eq_char_def)

lemma prefix_byte_digit: "isDigitByte c \<Longrightarrow> \<not> isPrefixByte c"
  by (auto simp: isPrefixByte_def dest: letter_not_digit) (auto simp: isDigitByte_def less_eq_char_def)

lemma hd_itoa_digit: "isDigitByte (hd (itoa n))" and itoa_not_Nil: "itoa n \<noteq> []"
  using canonicalDec_itoa [of n] by (auto simp: canonicalDec_def)

lemma numericTagRE_greedy:
  assumes "tagVersionOk v"
  shows "\<exists>m. fullMatch numericTagRE (TagVersion_String v) = Some m \<and> group m 1 = tvPrefix v \<and>
    group m 2 = itoa (tvMajor v) @ ''.'' @ itoa (tvMinor v) @ ''.'' @ itoa (tvPatch v) \<and> group m 3 = tvSuffix v"
proof -
  let ?n = "itoa (tvMajor v) @ ''.'' @ itoa (tvMinor v) @ ''.'' @ itoa (tvPatch v)" and ?s = "tvSuffix v"
  define c1 :: caps where "c1 = (if tvPrefix v = '''' then [] else [(1, tvPrefix v)])"
  have suf: "?s = [] \<or> \<not> isDigitByte (hd ?s)" "list_all notNewline ?s"
    using assms not_digit by (auto simp: tagVersionOk_def)
  have hd_n: "isDigitByte (hd (?n @ ?s))" using hd_itoa_digit itoa_not_Nil by simp
  have "prefers (opt (Grp 1 (Cat (Cls isLetterByte) (Star (Cls isPrefixByte))))) (tvPrefix v @ ?n @ ?s) [] (?n @ ?s, c1)"
  proof (cases "tvPrefix v = ''''")
    case True
    obtain a w where aw: "?n @ ?s = a # w" using itoa_not_Nil by (metis append_is_Nil_conv neq_Nil_conv)
    have "isDigitByte a" using hd_n unfolding aw by simp
    then have "run (Cls isLetterByte) (?n @ ?s) [] = []" unfolding aw using letter_not_digit by auto
    then show ?thesis using True by (simp add: c1_def prefers_opt_none)
  next
    case False
    then obtain a w where p: "tvPrefix v = a # w" "isLetterByte a" "list_all isPrefixByte w"
      using assms by (cases "tvPrefix v") (auto simp: tagVersionOk_def)
    have eq: "tvPrefix v @ ?n @ ?s = a # w @ (?n @ ?s)" using p(1) by simp
    have np: "?n @ ?s = [] \<or> \<not> isPrefixByte (hd (?n @ ?s))" using hd_n prefix_byte_digit by blast
    have "prefers (Cat (Cls isLetterByte) (Star (Cls isPrefixByte))) (tvPrefix v @ ?n @ ?s) [] (?n @ ?s, [])"
      unfolding eq by (rule prefers_Cat [OF prefers_Cls [of isLetterByte, OF p(2)] prefers_Star_Cls [OF p(3) np]])
    from prefers_opt [OF prefers_Grp [OF this, of 1]] show ?thesis using False by (simp add: c1_def)
  qed
  moreover have "prefers (Cat (plus digitRE) (Star (Cat (chr (CHR ''.'')) (plus digitRE)))) (?n @ ?s) c1 (?s, c1)"
  proof (rule prefers_Cat)
    show "prefers (plus digitRE) (?n @ ?s) c1 (CHR ''.'' # itoa (tvMinor v) @ CHR ''.'' # itoa (tvPatch v) @ ?s, c1)"
      using itoa_plus [of "CHR ''.'' # itoa (tvMinor v) @ CHR ''.'' # itoa (tvPatch v) @ ?s" "tvMajor v" c1] not_digit by simp
    have "run (Cat (chr (CHR ''.'')) (plus digitRE)) ?s c1 = []"
      using assms by (cases ?s) (auto simp: tagVersionOk_def chr_def)
    then have last: "prefers (Star (Cat (chr (CHR ''.'')) (plus digitRE))) ?s c1 (?s, c1)" by (rule prefers_Star_done)
    show "prefers (Star (Cat (chr (CHR ''.'')) (plus digitRE)))
        (CHR ''.'' # itoa (tvMinor v) @ CHR ''.'' # itoa (tvPatch v) @ ?s) c1 (?s, c1)"
      by (rule prefers_Star_more [OF dot_itoa _ prefers_Star_more [OF dot_itoa _ last]]) (use suf not_digit in auto)
  qed
  from prefers_Grp [OF this, of 2]
  have "prefers (Grp 2 (Cat (plus digitRE) (Star (Cat (chr (CHR ''.'')) (plus digitRE))))) (?n @ ?s) c1 (?s, (2, ?n) # c1)"
    by simp
  moreover have "prefers (Grp 3 (Star (Cls notNewline))) ?s ((2, ?n) # c1) ([], (3, ?s) # (2, ?n) # c1)"
    using prefers_Grp [OF prefers_Star_Cls [OF suf(2), of "[]"], of 3] by simp
  ultimately have "prefers numericTagRE (tvPrefix v @ ?n @ ?s) [] ([], (3, ?s) # (2, ?n) # c1)"
    unfolding numericTagRE_def by (blast intro: prefers_Cat)
  from prefers_full [OF this] show ?thesis by (simp add: TagVersion_String_def group_def mget_def c1_def)
qed
lemma three_parts: "length ps = 3 \<Longrightarrow> joinWith sep ps = ps ! 0 @ sep @ ps ! 1 @ sep @ ps ! 2"
  by (auto simp: length_Suc_conv eval_nat_numeral)

lemma ParseTagVersion_String: "tagVersionOk v \<Longrightarrow> ParseTagVersion (TagVersion_String v) = Some v"
proof -
  assume ok: "tagVersionOk v"
  then obtain m where m: "fullMatch numericTagRE (TagVersion_String v) = Some m" "group m 1 = tvPrefix v"
    "group m 2 = itoa (tvMajor v) @ ''.'' @ itoa (tvMinor v) @ ''.'' @ itoa (tvPatch v)" "group m 3 = tvSuffix v"
    using numericTagRE_greedy by blast
  have "CHR ''.'' \<notin> set (itoa n)" for n using canonicalDec_digits [OF canonicalDec_itoa] not_digit by blast
  then have parts: "splitOn (CHR ''.'') (group m 2) = [itoa (tvMajor v), itoa (tvMinor v), itoa (tvPatch v)]"
    by (simp add: m(3) splitOn_append splitOn_plain)
  have "hasPrefix (tvSuffix v) ''-'' \<and> length (tvSuffix v) > 1" if "tvSuffix v \<noteq> ''''"
    using ok that by (cases "tvSuffix v") (auto simp: tagVersionOk_def hasPrefix_def)
  moreover have "canonicalNumber (itoa (tvMajor v)) = Some (tvMajor v)" "canonicalNumber (itoa (tvMinor v)) = Some (tvMinor v)"
    "canonicalNumber (itoa (tvPatch v)) = Some (tvPatch v)" using ok by (auto simp: canonicalNumber_Some tagVersionOk_def)
  ultimately show ?thesis
    using m(2) by (auto simp: ParseTagVersion_def classifyTag_def m(1,4) parts Let_def intro!: tag_version.equality)
qed

lemma ParseTagVersion_sound:
  assumes "ParseTagVersion tag = Some v"
  shows "tagVersionOk v \<and> tag = TagVersion_String v"
proof -
  obtain m where m: "fullMatch numericTagRE tag = Some m"
    using assms by (auto simp: ParseTagVersion_def classifyTag_def split: option.splits if_splits)
  let ?ps = "splitOn (CHR ''.'') (group m 2)" and ?rest = "group m 3"
  have p: "length ?ps = 3" "?rest = '''' \<or> hasPrefix ?rest ''-'' \<and> length ?rest > 1"
    "canonicalNumber (?ps ! 0) = Some (tvMajor v)" "canonicalNumber (?ps ! 1) = Some (tvMinor v)"
    "canonicalNumber (?ps ! 2) = Some (tvPatch v)" "tvPrefix v = group m 1" "tvSuffix v = ?rest"
    using assms m by (auto simp: ParseTagVersion_def classifyTag_def Let_def split: option.splits if_splits)
  have nums: "?ps ! 0 = itoa (tvMajor v)" "?ps ! 1 = itoa (tvMinor v)" "?ps ! 2 = itoa (tvPatch v)"
    "tvMajor v < 10 ^ 9" "tvMinor v < 10 ^ 9" "tvPatch v < 10 ^ 9"
    using p(3-5) by (auto simp: canonicalNumber_Some)
  have "group m 2 = itoa (tvMajor v) @ ''.'' @ itoa (tvMinor v) @ ''.'' @ itoa (tvPatch v)"
    using three_parts [OF p(1), of "''.''"] nums(1-3) by simp
  then have "tag = TagVersion_String v"
    using numericTagRE_sound(1) [OF m] p(6,7) by (simp add: TagVersion_String_def)
  moreover have "?rest = '''' \<or> hd ?rest = CHR ''-'' \<and> length ?rest > 1"
    using p(2) by (cases ?rest) (auto simp: hasPrefix_def)
  ultimately show ?thesis
    using numericTagRE_sound(2,3) [OF m] p(6,7) nums(4-6) by (simp add: tagVersionOk_def)
qed

lemma ParseTagVersion_exact: "ParseTagVersion tag = Some v \<longleftrightarrow> tagVersionOk v \<and> tag = TagVersion_String v"
  using ParseTagVersion_sound ParseTagVersion_String by blast

lemma inSeries_iff: "inSeries tag cur \<longleftrightarrow> (\<exists>v. tagVersionOk v \<and> tag = TagVersion_String v \<and> sameSeries v cur)"
  by (auto simp: inSeries_def ParseTagVersion_String split: option.splits dest: ParseTagVersion_sound)

lemma inSeries_base: "inSeries tag cur \<Longrightarrow> hasPrefix tag (seriesBase cur)"
  by (auto simp: inSeries_iff sameSeries_def TagVersion_String_def seriesBase_def hasPrefix_def)

subsection \<open>The order of tags\<close>

lemma less_append: "(p @ a < p @ b) = (a < (b :: string))"
  by (induction p) auto

lemma prefix_le: "hasPrefix t p \<Longrightarrow> p \<le> (t :: string)"
proof -
  have "p \<le> p @ r" for r by (induction p) auto
  then show "hasPrefix t p \<Longrightarrow> p \<le> t" by (auto simp: hasPrefix_iff)
qed

text \<open>The texts with a given beginning are an interval of the order.\<close>

lemma prefix_convex: "hasPrefix b p \<Longrightarrow> p \<le> a \<Longrightarrow> a \<le> b \<Longrightarrow> hasPrefix (a :: string) p"
proof (induction p arbitrary: a b)
  case Nil
  then show ?case by (simp add: hasPrefix_def)
next
  case (Cons x p)
  from Cons.prems(1) obtain r where "b = x # p @ r" by (auto simp: hasPrefix_iff)
  with Cons.prems(2,3) show ?case
    using Cons.IH [of "p @ r"] by (cases a) (auto simp: hasPrefix_iff)
qed
subsection \<open>What a registry that lists in order answers\<close>

definition tagsAfter :: "string list \<Rightarrow> string \<Rightarrow> string list" where
  "tagsAfter ts lst = filter (\<lambda>t. lst < t) ts"

text \<open>
  One page of a listing of \<open>ts\<close> after a position: a run of the tags after it, said to be followed by
  more whenever it is. Only after a position that is not itself a tag may the first tag be missing.
\<close>

definition pageOf :: "string list \<Rightarrow> string \<Rightarrow> tags_after \<Rightarrow> bool" where
  "pageOf ts lst page \<longleftrightarrow> (\<exists>d rest. tagsAfter ts lst = d @ taTags page @ rest \<and> length d \<le> 1 \<and>
     (lst = '''' \<or> lst \<in> set ts \<longrightarrow> d = []) \<and> (rest \<noteq> [] \<longrightarrow> taMore page))"

definition listsInOrder :: "string list \<Rightarrow> tag_pager \<Rightarrow> bool" where
  "listsInOrder ts pager \<longleftrightarrow> sorted_wrt (<) ts \<and> '''' \<notin> set ts \<and>
     (\<forall>n lst page. pager n lst = (page, None) \<longrightarrow> taSent page \<and> pageOf ts lst page)"

lemma tagsAfter_split: "sorted_wrt (<) ts \<Longrightarrow> ts = filter (\<lambda>t. t \<le> lst) ts @ tagsAfter ts lst"
proof (induction ts)
  case (Cons t ts)
  show ?case
  proof (cases "t \<le> lst")
    case True
    then show ?thesis using Cons by (simp add: tagsAfter_def)
  next
    case False
    then have "\<forall>u \<in> set ts. lst < u" using Cons.prems by auto
    with False show ?thesis by (auto simp: tagsAfter_def filter_empty_conv not_le)
  qed
qed (simp add: tagsAfter_def)

lemma sorted_tagsAfter: "sorted_wrt (<) ts \<Longrightarrow> sorted_wrt (<) (tagsAfter ts lst)"
  by (simp add: tagsAfter_def sorted_wrt_filter)

lemma pageOrder_sorted:
  "sorted_wrt (<) p \<Longrightarrow> \<forall>t \<in> set p. lst < t \<Longrightarrow> pageOrder lst p = Some (last (lst # p))"
  by (induction p arbitrary: lst) (auto simp: not_le)

lemma after_series: "\<not> hasPrefix t (seriesBase cur) \<Longrightarrow> seriesBase cur < t \<Longrightarrow> t \<le> u \<Longrightarrow> \<not> inSeries u cur"
  using prefix_convex [of u "seriesBase cur" t] inSeries_base [of u cur] less_imp_le by blast

lemma before_series: "t < seriesBase cur \<Longrightarrow> \<not> inSeries t cur"
  using prefix_le [of t "seriesBase cur"] inSeries_base [of t cur] by auto

lemma pageSeries_sorted:
  "sorted_wrt (<) p \<Longrightarrow> pageSeries cur p =
     (filter (\<lambda>t. inSeries t cur) p, \<exists>t \<in> set p. \<not> hasPrefix t (seriesBase cur) \<and> seriesBase cur < t)"
proof (induction p)
  case (Cons t p)
  show ?case
  proof (cases "hasPrefix t (seriesBase cur)")
    case True
    with Cons show ?thesis by simp
  next
    case False
    then have "\<not> inSeries t cur" using inSeries_base by blast
    moreover have "filter (\<lambda>u. inSeries u cur) p = []" if "seriesBase cur < t"
      using Cons.prems after_series [OF False that] by (auto simp: filter_empty_conv)
    ultimately show ?thesis using False Cons by auto
  qed
qed simp

text \<open>
  A page read at a safe position extends what was read so far to the last tag of the page; past the
  series nothing of it follows.
\<close>

lemma page_extends:
  assumes s: "sorted_wrt (<) ts" and p: "tagsAfter ts lst = d @ p @ rest" "p \<noteq> []"
    and d: "\<forall>t \<in> set d. \<not> inSeries t cur"
  shows "filter (\<lambda>t. inSeries t cur) (filter (\<lambda>t. t \<le> last p) ts) =
      filter (\<lambda>t. inSeries t cur) (filter (\<lambda>t. t \<le> lst) ts) @ filter (\<lambda>t. inSeries t cur) p"
    and "last p \<in> set ts" "\<forall>t \<in> set p. lst < t" "sorted_wrt (<) p"
    and "tagsAfter ts (last p) = rest"
    and "filter (\<lambda>t. inSeries t cur) ts =
      filter (\<lambda>t. inSeries t cur) (filter (\<lambda>t. t \<le> last p) ts) @ filter (\<lambda>t. inSeries t cur) rest"
proof -
  have srt: "sorted_wrt (<) (d @ p @ rest)" using sorted_tagsAfter [OF s, of lst] p(1) by simp
  define A where "A = filter (\<lambda>t. t \<le> lst) ts"
  have ts: "ts = A @ d @ p @ rest" using tagsAfter_split [OF s, of lst] p(1) by (simp add: A_def)
  have A: "\<forall>t \<in> set A. t \<le> lst" by (simp add: A_def)
  have gt: "\<forall>t \<in> set (d @ p @ rest). lst < t" using p(1) [symmetric] by (simp add: tagsAfter_def)
  then show "\<forall>t \<in> set p. lst < t" by simp
  show "sorted_wrt (<) p" using srt by (simp add: sorted_wrt_append)
  have lastp: "last p \<in> set p" using p(2) by simp
  then show "last p \<in> set ts" by (simp add: ts)
  have "t \<le> last p" if "t \<in> set p" for t
    using srt that p(2) by (cases p rule: rev_cases) (auto simp: sorted_wrt_append)
  moreover have "t \<le> last p" if "t \<in> set d" for t
    using srt that lastp by (auto simp: sorted_wrt_append less_imp_le)
  moreover have "last p < t" if "t \<in> set rest" for t
    using srt that lastp by (auto simp: sorted_wrt_append)
  moreover have "t \<le> last p" if "t \<le> lst" for t
  proof -
    have "lst < last p" using gt lastp by simp
    with that show ?thesis by simp
  qed
  ultimately have all: "\<forall>t \<in> set A \<union> set d \<union> set p. t \<le> last p" "\<forall>t \<in> set rest. last p < t" using A by auto
  have le: "filter (\<lambda>t. t \<le> last p) ts = A @ d @ p"
    using all unfolding ts filter_append by (simp add: filter_empty_conv filter_id_conv not_le)
  have af: "tagsAfter ts (last p) = rest"
    using all unfolding tagsAfter_def ts filter_append by (simp add: filter_empty_conv filter_id_conv not_less)
  show "filter (\<lambda>t. inSeries t cur) (filter (\<lambda>t. t \<le> last p) ts) =
      filter (\<lambda>t. inSeries t cur) (filter (\<lambda>t. t \<le> lst) ts) @ filter (\<lambda>t. inSeries t cur) p"
    using d unfolding le A_def [symmetric] by (simp add: filter_empty_conv)
  show "tagsAfter ts (last p) = rest" by (rule af)
  show "filter (\<lambda>t. inSeries t cur) ts =
      filter (\<lambda>t. inSeries t cur) (filter (\<lambda>t. t \<le> last p) ts) @ filter (\<lambda>t. inSeries t cur) rest"
    using arg_cong [OF tagsAfter_split [OF s, of "last p"], of "filter (\<lambda>t. inSeries t cur)"] by (simp add: af)
qed
subsection \<open>The walk returns within its allowance\<close>

lemma walkLoop_returns:
  assumes sent: "\<And>n lst page. pager n lst = (page, None) \<Longrightarrow> taSent page"
  shows "swRequests w \<le> maxRequests \<Longrightarrow> \<exists>fin err w' n'. walkLoop pager cur start maxRequests n lst first w = Some (fin, err, w', n') \<and>
    swRequests w' \<le> maxRequests"
proof (induction "maxRequests - swRequests w" arbitrary: n lst first w rule: less_induct)
  case less
  show ?case
  proof (cases "swRequests w \<ge> maxRequests")
    case True
    then show ?thesis using less.prems by (subst walkLoop.simps) auto
  next
    case False
    obtain page err where ans: "pager n lst = (page, err)" by fastforce
    let ?w = "if taSent page then w\<lparr>swRequests := Suc (swRequests w)\<rparr> else w"
    have le: "swRequests ?w \<le> maxRequests" using False by simp
    have again: "\<exists>fin err w'' n'. walkLoop pager cur start maxRequests (Suc n) prev False (?w\<lparr>swTags := tags\<rparr>) =
        Some (fin, err, w'', n') \<and> swRequests w'' \<le> maxRequests" if "err = None" for prev tags
      using less.hyps [of "?w\<lparr>swTags := tags\<rparr>" "Suc n" prev False] False le sent [of n lst page] ans that by auto
    show ?thesis
      using False le again by (subst walkLoop.simps) (auto simp: ans Let_def split: option.splits prod.splits)
  qed
qed

lemma walkStarts_returns:
  assumes sent: "\<And>n lst page. pager n lst = (page, None) \<Longrightarrow> taSent page"
  shows "swRequests w \<le> maxRequests \<Longrightarrow> \<exists>w' err. walkStarts pager cur maxRequests starts n w = Some (w', err) \<and>
    swRequests w' \<le> maxRequests"
proof (induction starts arbitrary: n w)
  case (Cons start starts)
  obtain fin err w' n' where "walkFrom pager cur start maxRequests n w = Some (fin, err, w', n')" "swRequests w' \<le> maxRequests"
    using walkLoop_returns [of pager "w\<lparr>swTags := [], swComplete := False, swUnreliable := False\<rparr>" maxRequests cur start n start True]
      sent Cons.prems by (auto simp: walkFrom_def)
  with Cons.IH show ?case by auto
qed simp

subsection \<open>The walk finds exactly the series\<close>

text \<open>What is known before a page is read: everything of the series up to the position, or nothing yet.\<close>

definition walkReady :: "string list \<Rightarrow> tag_version \<Rightarrow> string \<Rightarrow> string \<Rightarrow> bool \<Rightarrow> series_walk \<Rightarrow> bool" where
  "walkReady ts cur start lst first w \<longleftrightarrow> \<not> swComplete w \<and>
     (if first then lst = start \<and> swTags w = []
      else lst \<in> set ts \<and> swTags w = filter (\<lambda>t. inSeries t cur) (filter (\<lambda>t. t \<le> lst) ts))"

lemma walkReady_page:
  assumes "listsInOrder ts pager" "pager n lst = (page, None)" "walkReady ts cur start lst first w"
    and "\<not> (first \<and> start \<noteq> '''' \<and> (taTags page = [] \<or> taTags page ! 0 \<ge> seriesBase cur))"
  obtains d rest where "tagsAfter ts lst = d @ taTags page @ rest" "rest \<noteq> [] \<longrightarrow> taMore page"
    "\<forall>t \<in> set d. \<not> inSeries t cur" "swTags w = filter (\<lambda>t. inSeries t cur) (filter (\<lambda>t. t \<le> lst) ts)"
proof -
  obtain d rest where p: "tagsAfter ts lst = d @ taTags page @ rest" "lst = '''' \<or> lst \<in> set ts \<longrightarrow> d = []"
    "rest \<noteq> [] \<longrightarrow> taMore page"
    using assms(1,2) unfolding listsInOrder_def pageOf_def by blast
  have s: "sorted_wrt (<) ts" "'''' \<notin> set ts" using assms(1) by (auto simp: listsInOrder_def)
  have "(\<forall>t \<in> set d. \<not> inSeries t cur) \<and> swTags w = filter (\<lambda>t. inSeries t cur) (filter (\<lambda>t. t \<le> lst) ts)"
  proof (cases "first \<and> start \<noteq> ''''")
    case True
    with assms(3,4) have f: "lst = start" "swTags w = []" "taTags page \<noteq> []" "taTags page ! 0 < seriesBase cur"
      by (auto simp: walkReady_def not_le)
    have srt: "sorted_wrt (<) (d @ taTags page @ rest)" using sorted_tagsAfter [OF s(1), of lst] p(1) by simp
    have in0: "taTags page ! 0 \<in> set (taTags page)" using f(3) by simp
    have "t < taTags page ! 0" if "t \<in> set d" for t
      using srt that in0 by (auto simp: sorted_wrt_append)
    then have "t < seriesBase cur" if "t \<in> set d" for t using that f(4) by (blast intro: less_trans)
    moreover have "lst < taTags page ! 0"
    proof -
      have "taTags page ! 0 \<in> set (tagsAfter ts lst)" using in0 p(1) by simp
      then show ?thesis by (simp add: tagsAfter_def)
    qed
    then have "t < seriesBase cur" if "t \<le> lst" for t using that f(4) by simp
    ultimately show ?thesis using before_series f(2) by (auto simp: filter_empty_conv)
  next
    case False
    then have "d = []" using assms(3) p(2) by (auto simp: walkReady_def split: if_splits)
    moreover have "swTags w = filter (\<lambda>t. inSeries t cur) (filter (\<lambda>t. t \<le> lst) ts)"
      using False assms(3) s(2) by (auto simp: walkReady_def filter_empty_conv split: if_splits)
    ultimately show ?thesis by simp
  qed
  with p that show ?thesis by blast
qed

lemma walkLoop_step:
  assumes reg: "listsInOrder ts pager" and room: "\<not> swRequests w \<ge> maxRequests" and ans: "pager n lst = (page, None)"
    and ready: "walkReady ts cur start lst first w"
    and safe: "\<not> (first \<and> start \<noteq> '''' \<and> (taTags page = [] \<or> taTags page ! 0 \<ge> seriesBase cur))"
    and ne: "taTags page \<noteq> []"
  defines "w1 \<equiv> w\<lparr>swRequests := Suc (swRequests w), swTags := swTags w @ filter (\<lambda>t. inSeries t cur) (taTags page)\<rparr>"
  obtains past where
    "walkLoop pager cur start maxRequests n lst first w =
      (if past \<or> \<not> taMore page then Some (True, None, w1\<lparr>swComplete := True\<rparr>, Suc n)
       else walkLoop pager cur start maxRequests (Suc n) (last (taTags page)) False w1)"
    "past \<or> \<not> taMore page \<Longrightarrow> swTags w1 = filter (\<lambda>t. inSeries t cur) ts"
    "walkReady ts cur start (last (taTags page)) False w1"
    "length (tagsAfter ts (last (taTags page))) < length (tagsAfter ts lst)"
proof -
  from walkReady_page [OF reg ans ready safe] obtain d rest where
    p: "tagsAfter ts lst = d @ taTags page @ rest" "rest \<noteq> [] \<longrightarrow> taMore page"
    "\<forall>t \<in> set d. \<not> inSeries t cur" "swTags w = filter (\<lambda>t. inSeries t cur) (filter (\<lambda>t. t \<le> lst) ts)" by blast
  have srt: "sorted_wrt (<) ts" and sent: "taSent page" using reg ans by (auto simp: listsInOrder_def)
  note ext = page_extends [OF srt p(1) ne p(3)]
  let ?past = "\<exists>t \<in> set (taTags page). \<not> hasPrefix t (seriesBase cur) \<and> seriesBase cur < t"
  have tags: "swTags w1 = filter (\<lambda>t. inSeries t cur) (filter (\<lambda>t. t \<le> last (taTags page)) ts)"
    using ext(1) p(4) by (simp add: w1_def)
  have ord: "pageOrder lst (taTags page) = Some (last (taTags page))"
    using pageOrder_sorted [OF ext(4,3)] ne by simp
  have w1: "w1 = w\<lparr>swRequests := Suc (swRequests w)\<rparr>\<lparr>swTags := swTags (w\<lparr>swRequests := Suc (swRequests w)\<rparr>) @
      filter (\<lambda>t. inSeries t cur) (taTags page)\<rparr>" by (simp add: w1_def)
  have loop: "walkLoop pager cur start maxRequests n lst first w =
      (if ?past \<or> \<not> taMore page then Some (True, None, w1\<lparr>swComplete := True\<rparr>, Suc n)
       else walkLoop pager cur start maxRequests (Suc n) (last (taTags page)) False w1)"
    unfolding w1 by (subst walkLoop.simps)
      (simp only: if_not_P [OF room] ans prod.case Let_def if_P [OF sent] if_not_P [OF safe] if_not_P [OF ne] ord option.case
        pageSeries_sorted [OF ext(4)] simp_thms if_False)
  have "\<not> inSeries u cur" if past: "?past \<or> \<not> taMore page" and u: "u \<in> set rest" for u
  proof -
    from past u p(2) obtain t where t: "t \<in> set (taTags page)" "\<not> hasPrefix t (seriesBase cur)" "seriesBase cur < t" by auto
    have "sorted_wrt (<) (d @ taTags page @ rest)" using sorted_tagsAfter [OF srt, of lst] p(1) by simp
    then have "t < u" using t(1) u by (simp add: sorted_wrt_append)
    then show ?thesis using after_series [OF t(2,3)] less_imp_le by blast
  qed
  then have "swTags w1 = filter (\<lambda>t. inSeries t cur) ts" if "?past \<or> \<not> taMore page"
    using that tags ext(6) by (simp add: filter_empty_conv)
  moreover have "walkReady ts cur start (last (taTags page)) False w1"
    using ext(2) tags ready by (simp add: walkReady_def w1_def)
  moreover have "length (tagsAfter ts (last (taTags page))) < length (tagsAfter ts lst)"
    using ext(5) p(1) ne by simp
  ultimately show ?thesis using that loop by blast
qed

lemma walkLoop_empty:
  assumes "\<not> swRequests w \<ge> maxRequests" "pager n lst = (page, None)" "taSent page"
    "\<not> (first \<and> start \<noteq> '''' \<and> (taTags page = [] \<or> taTags page ! 0 \<ge> seriesBase cur))" "taTags page = []"
  shows "walkLoop pager cur start maxRequests n lst first w =
    Some (True, None, if taMore page then w\<lparr>swRequests := Suc (swRequests w), swUnreliable := True\<rparr>
      else w\<lparr>swRequests := Suc (swRequests w), swComplete := True\<rparr>, Suc n)"
  using assms by (subst walkLoop.simps) auto

lemma walkLoop_unsafe:
  assumes "\<not> swRequests w \<ge> maxRequests" "pager n lst = (page, None)" "taSent page"
    "first \<and> start \<noteq> '''' \<and> (taTags page = [] \<or> taTags page ! 0 \<ge> seriesBase cur)"
  shows "walkLoop pager cur start maxRequests n lst first w = Some (False, None, w\<lparr>swRequests := Suc (swRequests w)\<rparr>, Suc n)"
  using assms by (subst walkLoop.simps) auto

lemma walkLoop_exact:
  assumes reg: "listsInOrder ts pager"
  shows "walkReady ts cur start lst first w \<Longrightarrow>
    walkLoop pager cur start maxRequests n lst first w = Some (fin, None, w', n') \<Longrightarrow> swComplete w' \<Longrightarrow>
    swTags w' = filter (\<lambda>t. inSeries t cur) ts"
proof (induction "maxRequests - swRequests w" arbitrary: n lst first w rule: less_induct)
  case less
  note ready = less.prems(1)
  have room: "\<not> swRequests w \<ge> maxRequests"
    using less.prems by (subst (asm) walkLoop.simps) (auto simp: walkReady_def)
  obtain page err where ans: "pager n lst = (page, err)" by fastforce
  have "err = None" using less.prems(2) room by (subst (asm) walkLoop.simps) (auto simp: ans Let_def split: if_splits)
  then have ans: "pager n lst = (page, None)" using ans by simp
  then have sent: "taSent page" using reg by (auto simp: listsInOrder_def)
  have safe: "\<not> (first \<and> start \<noteq> '''' \<and> (taTags page = [] \<or> taTags page ! 0 \<ge> seriesBase cur))"
    using walkLoop_unsafe [of maxRequests w pager n lst page first start cur] room ans sent less.prems ready
    by (auto simp: walkReady_def)
  show ?case
  proof (cases "taTags page = []")
    case True
    have w': "w' = (if taMore page then w\<lparr>swRequests := Suc (swRequests w), swUnreliable := True\<rparr>
        else w\<lparr>swRequests := Suc (swRequests w), swComplete := True\<rparr>)"
      using less.prems(2) walkLoop_empty [of maxRequests w pager n lst page first start cur] room ans sent safe True by simp
    from walkReady_page [OF reg ans ready safe] obtain d rest where
      p: "tagsAfter ts lst = d @ taTags page @ rest" "rest \<noteq> [] \<longrightarrow> taMore page"
      "\<forall>t \<in> set d. \<not> inSeries t cur" "swTags w = filter (\<lambda>t. inSeries t cur) (filter (\<lambda>t. t \<le> lst) ts)" by blast
    have "\<not> taMore page" using w' less.prems(3) ready by (auto simp: walkReady_def split: if_splits)
    then have "tagsAfter ts lst = d" "swTags w' = swTags w" using p(1,2) True w' by auto
    moreover have "filter (\<lambda>t. inSeries t cur) ts = filter (\<lambda>t. inSeries t cur) (filter (\<lambda>t. t \<le> lst) ts) @
        filter (\<lambda>t. inSeries t cur) (tagsAfter ts lst)"
      using arg_cong [OF tagsAfter_split [of ts lst], of "filter (\<lambda>t. inSeries t cur)"] reg by (simp add: listsInOrder_def)
    ultimately show ?thesis using p(3,4) by (simp add: filter_empty_conv)
  next
    case False
    let ?w1 = "w\<lparr>swRequests := Suc (swRequests w), swTags := swTags w @ filter (\<lambda>t. inSeries t cur) (taTags page)\<rparr>"
    obtain past where loop: "walkLoop pager cur start maxRequests n lst first w =
        (if past \<or> \<not> taMore page then Some (True, None, ?w1\<lparr>swComplete := True\<rparr>, Suc n)
         else walkLoop pager cur start maxRequests (Suc n) (last (taTags page)) False ?w1)"
      and all: "past \<or> \<not> taMore page \<Longrightarrow> swTags ?w1 = filter (\<lambda>t. inSeries t cur) ts"
      and rdy: "walkReady ts cur start (last (taTags page)) False ?w1"
      using walkLoop_step [OF reg room ans ready safe False] by blast
    show ?thesis
    proof (cases "past \<or> \<not> taMore page")
      case True
      then show ?thesis using loop all less.prems(2) by auto
    next
      case more: False
      have "maxRequests - swRequests ?w1 < maxRequests - swRequests w" using room by simp
      from less.hyps [OF this rdy _ less.prems(3), of "Suc n"] show ?thesis using loop more less.prems(2) by simp
    qed
  qed
qed
lemma walkStarts_exact:
  assumes reg: "listsInOrder ts pager"
  shows "walkStarts pager cur maxRequests starts n w = Some (w', None) \<Longrightarrow> starts \<noteq> [] \<Longrightarrow> swComplete w' \<Longrightarrow>
    swTags w' = filter (\<lambda>t. inSeries t cur) ts"
proof (induction starts arbitrary: n w)
  case (Cons start starts)
  let ?w = "w\<lparr>swTags := [], swComplete := False, swUnreliable := False\<rparr>"
  have ready: "walkReady ts cur start start True ?w" by (simp add: walkReady_def)
  obtain fin err w1 n1 where f: "walkFrom pager cur start maxRequests n w = Some (fin, err, w1, n1)"
    using Cons.prems(1) by (auto split: option.splits)
  show ?case
  proof (cases "err \<noteq> None \<or> fin")
    case True
    then have "w' = w1" "err = None" using Cons.prems(1) f by auto
    with walkLoop_exact [OF reg ready] f Cons.prems(3) show ?thesis by (auto simp: walkFrom_def)
  next
    case False
    then have rest: "walkStarts pager cur maxRequests starts n1 w1 = Some (w', None)" "err = None"
      using Cons.prems(1) f by auto
    show ?thesis
    proof (cases "starts = []")
      case True
      with rest have "w' = w1" by simp
      with walkLoop_exact [OF reg ready] f rest(2) Cons.prems(3) show ?thesis by (auto simp: walkFrom_def)
    next
      case False
      with Cons.IH [OF rest(1)] Cons.prems(3) show ?thesis by simp
    qed
  qed
qed simp

lemma walkSeries_exact:
  "listsInOrder ts pager \<Longrightarrow> walkSeries pager cur maxRequests = Some (w, None) \<Longrightarrow> swComplete w \<Longrightarrow>
   swTags w = filter (\<lambda>t. inSeries t cur) ts"
  unfolding walkSeries_def by (rule walkStarts_exact) (auto simp: seriesStarts_def)

subsection \<open>A walk with enough requests is complete\<close>

text \<open>A registry that also answers every request, and says that more follow only after a page with tags.\<close>

definition answersAll :: "tag_pager \<Rightarrow> bool" where
  "answersAll pager \<longleftrightarrow> (\<forall>n lst. snd (pager n lst) = None \<and> (taTags (fst (pager n lst)) = [] \<longrightarrow> \<not> taMore (fst (pager n lst))))"

lemma walkLoop_complete:
  assumes reg: "listsInOrder ts pager" and all: "answersAll pager"
  shows "walkReady ts cur start lst first w \<Longrightarrow> \<not> swUnreliable w \<Longrightarrow>
    swRequests w + length (tagsAfter ts lst) < maxRequests \<Longrightarrow>
    \<exists>fin w' n'. walkLoop pager cur start maxRequests n lst first w = Some (fin, None, w', n') \<and>
      (if fin then swComplete w' \<and> \<not> swUnreliable w' else first \<and> start \<noteq> '''' \<and> swRequests w' = Suc (swRequests w))"
proof (induction "length (tagsAfter ts lst)" arbitrary: n lst first w rule: less_induct)
  case less
  have room: "\<not> swRequests w \<ge> maxRequests" using less.prems(3) by simp
  obtain page where ans: "pager n lst = (page, None)" using all by (metis answersAll_def prod.collapse)
  then have sent: "taSent page" using reg by (auto simp: listsInOrder_def)
  show ?case
  proof (cases "first \<and> start \<noteq> '''' \<and> (taTags page = [] \<or> taTags page ! 0 \<ge> seriesBase cur)")
    case True
    then show ?thesis using walkLoop_unsafe [of maxRequests w pager n lst page first start cur] room ans sent by auto
  next
    case safe: False
    show ?thesis
    proof (cases "taTags page = []")
      case True
      moreover have "\<not> taMore page" using all ans True by (metis answersAll_def fst_conv)
      ultimately show ?thesis
        using walkLoop_empty [of maxRequests w pager n lst page first start cur] room ans sent safe less.prems(2) by auto
    next
      case False
      let ?w1 = "w\<lparr>swRequests := Suc (swRequests w), swTags := swTags w @ filter (\<lambda>t. inSeries t cur) (taTags page)\<rparr>"
      obtain past where loop: "walkLoop pager cur start maxRequests n lst first w =
          (if past \<or> \<not> taMore page then Some (True, None, ?w1\<lparr>swComplete := True\<rparr>, Suc n)
           else walkLoop pager cur start maxRequests (Suc n) (last (taTags page)) False ?w1)"
        and rdy: "walkReady ts cur start (last (taTags page)) False ?w1"
        and len: "length (tagsAfter ts (last (taTags page))) < length (tagsAfter ts lst)"
        using walkLoop_step [OF reg room ans less.prems(1) safe False] by blast
      have "swRequests ?w1 + length (tagsAfter ts (last (taTags page))) < maxRequests" using len less.prems(3) by simp
      from less.hyps [OF len rdy _ this, of "Suc n"] less.prems(2) obtain w' n' where
        "walkLoop pager cur start maxRequests (Suc n) (last (taTags page)) False ?w1 = Some (True, None, w', n')"
        "swComplete w'" "\<not> swUnreliable w'" by (auto split: if_splits)
      then show ?thesis using loop less.prems(2) by (cases "past \<or> \<not> taMore page") auto
    qed
  qed
qed

lemma walkStarts_complete:
  assumes reg: "listsInOrder ts pager" and all: "answersAll pager"
  shows "swRequests w + length starts + length ts < maxRequests \<Longrightarrow>
    \<exists>w'. walkStarts pager cur maxRequests (starts @ ['''']) n w = Some (w', None) \<and> swComplete w' \<and> \<not> swUnreliable w'"
proof (induction starts arbitrary: n w)
  case Nil
  let ?w = "w\<lparr>swTags := [], swComplete := False, swUnreliable := False\<rparr>"
  have "length (tagsAfter ts '''') \<le> length ts" by (simp add: tagsAfter_def)
  then have "swRequests ?w + length (tagsAfter ts '''') < maxRequests" using Nil by simp
  from walkLoop_complete [OF reg all _ _ this, of cur "''''" True n] show ?case
    by (auto simp: walkFrom_def walkReady_def split: if_splits)
next
  case (Cons start starts)
  let ?w = "w\<lparr>swTags := [], swComplete := False, swUnreliable := False\<rparr>"
  have "length (tagsAfter ts start) \<le> length ts" by (simp add: tagsAfter_def)
  then have "swRequests ?w + length (tagsAfter ts start) < maxRequests" using Cons.prems by simp
  from walkLoop_complete [OF reg all _ _ this, of cur start True n] obtain fin w' n' where
    f: "walkFrom pager cur start maxRequests n w = Some (fin, None, w', n')"
    "if fin then swComplete w' \<and> \<not> swUnreliable w' else swRequests w' = Suc (swRequests w)"
    by (auto simp: walkFrom_def walkReady_def split: if_splits)
  then show ?case using Cons.IH [of w' n'] Cons.prems by (cases fin) auto
qed

lemma length_startMinors: "length (startMinors cur k n) \<le> n"
  by (induction cur k n rule: startMinors.induct) auto

lemma walkSeries_completes:
  assumes "listsInOrder ts pager" "answersAll pager" "length ts + 4 < maxRequests"
  shows "\<exists>w. walkSeries pager cur maxRequests = Some (w, None) \<and> swComplete w \<and> \<not> swUnreliable w"
proof -
  let ?s = "startMinors cur (tvMinor cur) maxStartMinors @ [tagBefore (tvPrefix cur @ itoa (tvMajor cur) @ ''.'')]"
  have "length ?s \<le> 4" using length_startMinors [of cur "tvMinor cur" maxStartMinors] by (simp add: maxStartMinors_def)
  then have "swRequests zeroWalk + length ?s + length ts < maxRequests" using assms(3) by (simp add: zeroWalk_def)
  from walkStarts_complete [OF assms(1,2) this, of cur 0] show ?thesis
    by (simp add: walkSeries_def seriesStarts_def)
qed

subsection \<open>The position before a text\<close>

text \<open>
  Among texts of characters below \<open>~\<close>, those after \<open>tagBefore x\<close> are exactly those from \<open>x\<close> on.
\<close>

lemma tagBefore_exact:
  assumes "x \<noteq> ''''" "of_char (last x) \<noteq> (0 :: nat)" "\<forall>c \<in> set t. c < CHR ''~''"
  shows "tagBefore x < t \<longleftrightarrow> x \<le> t"
proof -
  define b where "b = (char_of (of_char (last x) - 1 :: nat) :: char)"
  obtain y c where x: "x = y @ [c]" using assms(1) by (cases x rule: rev_cases) auto
  have bc: "of_char b = (of_char c - 1 :: nat)" "of_char c \<noteq> (0 :: nat)"
  proof -
    have "of_char c - 1 < (256 :: nat)" using nat_of_char_less_256 [of c] by linarith
    then show "of_char b = (of_char c - 1 :: nat)" by (simp add: b_def x)
  qed (use assms(2) x in simp)
  then have lt: "b < a \<longleftrightarrow> c \<le> a" for a by (auto simp: less_char_def less_eq_char_def)
  have tilde: "\<not> ''~'' < t" if "\<forall>c \<in> set t. c < CHR ''~''" for t using that by (cases t) auto
  have "y @ b # ''~'' < t \<longleftrightarrow> y @ [c] \<le> t"
    using assms(3)
  proof (induction y arbitrary: t)
    case Nil
    have "[] < us \<longleftrightarrow> us \<noteq> []" for us :: string by (cases us) auto
    then show ?case using Nil tilde lt by (cases t) (auto simp: order_le_less)
  next
    case (Cons a y)
    then show ?case by (cases t) auto
  qed
  then show ?thesis by (simp add: tagBefore_def x b_def [symmetric]) (simp add: b_def x)
qed

subsection \<open>The highest patch\<close>

text \<open>The versions of the series that are newer than the running one and tagged in \<open>S\<close>.\<close>

definition newerPatches :: "tag_version \<Rightarrow> string set \<Rightarrow> tag_version set" where
  "newerPatches cur S = {v. tagVersionOk v \<and> TagVersion_String v \<in> S \<and> sameSeries v cur \<and> tvPatch cur < tvPatch v \<and>
     \<not> IsPrerelease (TagVersion_String v)}"

definition selectionOf :: "tag_version set \<Rightarrow> selection \<Rightarrow> bool" where
  "selectionOf vs s \<longleftrightarrow>
     (if vs = {} then s = \<lparr>slOutcome = SelectionNone, slTag = '''', slVersion = zeroTagVersion\<rparr>
      else slOutcome s = SelectionFound \<and> slVersion s \<in> vs \<and> slTag s = TagVersion_String (slVersion s) \<and>
        (\<forall>v \<in> vs. tvPatch v \<le> tvPatch (slVersion s)))"

lemma newerPatches_empty: "newerPatches cur {} = {}"
  by (simp add: newerPatches_def)

lemma sameSeries_patch: "sameSeries v cur \<Longrightarrow> sameSeries u cur \<Longrightarrow> tvPatch v = tvPatch u \<Longrightarrow> v = u"
  by (auto simp: sameSeries_def intro: tag_version.equality)

lemma selectionOf_unique:
  assumes "selectionOf (newerPatches cur S) s" "selectionOf (newerPatches cur S) s'"
  shows "s = s'"
proof (cases "newerPatches cur S = {}")
  case False
  then have "tvPatch (slVersion s) = tvPatch (slVersion s')" "slVersion s \<in> newerPatches cur S" "slVersion s' \<in> newerPatches cur S"
    using assms by (auto simp: selectionOf_def intro: le_antisym)
  then have "slVersion s = slVersion s'" by (auto simp: newerPatches_def intro: sameSeries_patch)
  with False assms show ?thesis by (auto simp: selectionOf_def intro: selection.equality)
qed (use assms in \<open>simp add: selectionOf_def\<close>)

lemma newerPatches_insert:
  "newerPatches cur (insert t S) = newerPatches cur S \<union>
     (case ParseTagVersion t of None \<Rightarrow> {}
      | Some v \<Rightarrow> if \<not> IsPrerelease t \<and> sameSeries v cur \<and> tvPatch cur < tvPatch v then {v} else {})"
  by (auto simp: newerPatches_def ParseTagVersion_String split: option.splits if_splits dest: ParseTagVersion_sound)

lemma pickPatch_selection:
  assumes "selectionOf (newerPatches cur S) best"
  shows "selectionOf (newerPatches cur (insert t S)) (pickPatch cur best t)"
proof (cases "\<exists>v. ParseTagVersion t = Some v \<and> \<not> IsPrerelease t \<and> sameSeries v cur \<and> tvPatch cur < tvPatch v")
  case False
  then have "newerPatches cur (insert t S) = newerPatches cur S" "pickPatch cur best t = best"
    by (auto simp: newerPatches_insert pickPatch_def split: option.splits)
  with assms show ?thesis by simp
next
  case True
  then obtain v where v: "ParseTagVersion t = Some v" "\<not> IsPrerelease t" "sameSeries v cur" "tvPatch cur < tvPatch v" by blast
  then have t: "t = TagVersion_String v" using ParseTagVersion_sound by blast
  have ins: "newerPatches cur (insert t S) = insert v (newerPatches cur S)" using v by (simp add: newerPatches_insert)
  have pick: "pickPatch cur best t = (if slOutcome best = SelectionNone \<or> tvPatch v > tvPatch (slVersion best)
      then \<lparr>slOutcome = SelectionFound, slTag = t, slVersion = v\<rparr> else best)"
    using v by (simp add: pickPatch_def)
  show ?thesis unfolding ins pick using assms t by (auto simp: selectionOf_def not_less split: if_splits)
qed

lemma SelectPinned_selection:
  assumes "\<not> tlTruncated l"
  shows "selectionOf (newerPatches cur (set (tlTags l))) (SelectPinned cur l)"
proof -
  let ?start = "\<lparr>slOutcome = SelectionNone, slTag = '''', slVersion = zeroTagVersion\<rparr>"
  have "selectionOf (newerPatches cur (S \<union> set ts)) (foldl (pickPatch cur) best ts)"
    if "selectionOf (newerPatches cur S) best" for S best ts
    using that
  proof (induction ts arbitrary: S best)
    case (Cons t ts)
    from Cons.IH [OF pickPatch_selection [OF Cons.prems, of t]] show ?case by simp
  qed simp
  from this [of "{}" ?start "tlTags l"] have "selectionOf (newerPatches cur (set (tlTags l))) (foldl (pickPatch cur) ?start (tlTags l))"
    by (simp add: newerPatches_empty selectionOf_def [of "{}" ?start])
  then show ?thesis using assms by (simp add: SelectPinned_def)
qed

lemma newerPatches_series: "newerPatches cur {t \<in> S. inSeries t cur} = newerPatches cur S"
  by (auto simp: newerPatches_def inSeries_iff)
subsection \<open>Properties\<close>

text \<open>
  C39. \<open>ParseTagVersion\<close> accepts exactly the tags that render a version (an optional prefix of letters,
  three numbers below a thousand million without leading zeros, an optional suffix) and returns the
  version whose rendering the tag is.
\<close>

theorem ParseTagVersion_iff: "ParseTagVersion tag = Some v \<longleftrightarrow> tagVersionOk v \<and> tag = TagVersion_String v"
  by (rule ParseTagVersion_exact)

text \<open>
  C17. Reading a series always returns and never makes more requests than it may, whatever the registry
  answers: in any order, with any pages and with errors, as long as an answer without an error was
  really requested.
\<close>

theorem walkSeries_returns:
  assumes "\<And>n lst page. pager n lst = (page, None) \<Longrightarrow> taSent page"
  shows "\<exists>w err. walkSeries pager cur maxRequests = Some (w, err) \<and> swRequests w \<le> maxRequests"
  using walkStarts_returns [of pager zeroWalk maxRequests cur "seriesStarts cur" 0] assms
  by (auto simp: walkSeries_def zeroWalk_def)

definition sampleTags :: "string list" where
  "sampleTags = [''v1.1.0'', ''v1.1.9'', ''v1.2.1'', ''v1.2.10'', ''v1.2.10-rc1'', ''v1.2.2'', ''v1.3.0'']"

text \<open>Two tags a page; after a position that is not a tag the first one is dropped.\<close>

definition samplePager :: tag_pager where
  "samplePager n lst =
     (let ts = tagsAfter sampleTags lst;
          ts = (if lst = '''' \<or> lst \<in> set sampleTags then ts else drop 1 ts) in
      (\<lparr>taTags = take 2 ts, taMore = length ts > 2, taSent = True\<rparr>, None))"

definition sampleVersion :: tag_version where
  "sampleVersion = \<lparr>tvPrefix = ''v'', tvMajor = 1, tvMinor = 2, tvPatch = 1, tvSuffix = ''''\<rparr>"

theorem walkSeries_returns_witness:
  "\<exists>w err. walkSeries samplePager sampleVersion 3 = Some (w, err) \<and> swRequests w \<le> 3"
  by (rule walkSeries_returns) (auto simp: samplePager_def Let_def)

lemma samplePager_lists: "listsInOrder sampleTags samplePager"
proof -
  have "pageOf sampleTags lst (fst (samplePager n lst))" for n lst
  proof -
    let ?ts = "tagsAfter sampleTags lst" and ?at = "lst = '''' \<or> lst \<in> set sampleTags"
    let ?us = "if ?at then ?ts else drop 1 ?ts"
    have "?ts = (if ?at then [] else take 1 ?ts) @ take 2 ?us @ drop 2 ?us" by (simp add: append_assoc [symmetric] del: append_assoc)
    then show ?thesis unfolding pageOf_def samplePager_def Let_def fst_conv
      by (intro exI [of _ "if ?at then [] else take 1 ?ts"] exI [of _ "drop 2 ?us"]) auto
  qed
  then have "pageOf sampleTags lst page" if "samplePager n lst = (page, None)" for n lst page
    using that by (metis fst_conv)
  moreover have "sorted_wrt (<) sampleTags \<and> '''' \<notin> set sampleTags" by code_simp
  ultimately show ?thesis by (auto simp: listsInOrder_def samplePager_def Let_def)
qed

lemma samplePager_answers: "answersAll samplePager"
  by (auto simp: answersAll_def samplePager_def Let_def)

text \<open>
  C16. Against a registry that lists its tags in order, a walk that reports the end of the series holds
  exactly the tags of the series, in their order, even if the registry drops the first tag after a
  position that is not itself a tag; and a walk that may make five requests more than there are tags
  does report the end when every request is answered.
\<close>

theorem walkSeries_series:
  assumes "listsInOrder ts pager"
  shows "(walkSeries pager cur maxRequests = Some (w, None) \<and> swComplete w \<longrightarrow> swTags w = filter (\<lambda>t. inSeries t cur) ts) \<and>
    (answersAll pager \<and> length ts + 5 \<le> maxRequests \<longrightarrow>
      (\<exists>w. walkSeries pager cur maxRequests = Some (w, None) \<and> swComplete w \<and> \<not> swUnreliable w))"
  using walkSeries_exact [OF assms] walkSeries_completes [OF assms] by auto

theorem walkSeries_series_witness:
  "\<exists>w. walkSeries samplePager sampleVersion 12 = Some (w, None) \<and> swTags w = [''v1.2.1'', ''v1.2.10'', ''v1.2.2'']"
proof -
  have "length sampleTags + 5 \<le> 12" by code_simp
  then obtain w where "walkSeries samplePager sampleVersion 12 = Some (w, None)" "swComplete w"
    using walkSeries_series [OF samplePager_lists, of sampleVersion 12] samplePager_answers by auto
  moreover have "filter (\<lambda>t. inSeries t sampleVersion) sampleTags = [''v1.2.1'', ''v1.2.10'', ''v1.2.2'']" by code_simp
  ultimately show ?thesis using walkSeries_series [OF samplePager_lists, of sampleVersion 12 w] by auto
qed

text \<open>
  C15. The candidate chosen for a pinned image is the one the whole tag listing would give. Whether the
  list came from a walk over the series or from the full listing, when it is not cut short the
  selection equals the selection from all tags of the repository: the version of the series with the
  highest patch above the running one that is not a prerelease, or none when there is none. A list cut
  short is never read as a result.
\<close>

theorem pinned_candidate_exact:
  assumes "listPinnedSeries reg cur allowance = Some (l, whole, None)"
    and "\<And>pager. rgPager reg = Some pager \<Longrightarrow> listsInOrder ts pager"
    and "\<And>k l'. rgListTagsUpTo reg k = (l', None) \<Longrightarrow> \<not> tlTruncated l' \<Longrightarrow> set (tlTags l') = set ts"
  shows "(if tlTruncated l then slOutcome (SelectPinned cur l) = SelectionIncomplete
     else SelectPinned cur l = SelectPinned cur \<lparr>tlTags = ts, tlTruncated = False, tlPages = 0\<rparr> \<and>
       selectionOf (newerPatches cur (set ts)) (SelectPinned cur l))"
proof (cases "tlTruncated l")
  case True
  then show ?thesis by (simp add: SelectPinned_def)
next
  case False
  have "set (tlTags l) = set ts \<or> set (tlTags l) = {t \<in> set ts. inSeries t cur}"
    using assms False walkSeries_exact by (auto simp: listPinnedSeries_def Let_def split: option.splits prod.splits if_splits)
  then have "newerPatches cur (set (tlTags l)) = newerPatches cur (set ts)" using newerPatches_series by auto
  then have "selectionOf (newerPatches cur (set ts)) (SelectPinned cur l)" using SelectPinned_selection [OF False, of cur] by simp
  moreover have "selectionOf (newerPatches cur (set ts)) (SelectPinned cur \<lparr>tlTags = ts, tlTruncated = False, tlPages = 0\<rparr>)"
    using SelectPinned_selection [of "\<lparr>tlTags = ts, tlTruncated = False, tlPages = 0\<rparr>" cur] by simp
  ultimately show ?thesis using False selectionOf_unique by auto
qed

definition sampleRegistry :: tag_registry where
  "sampleRegistry = \<lparr>rgPager = Some samplePager, rgListTagsUpTo = (\<lambda>k. (\<lparr>tlTags = [], tlTruncated = True, tlPages = k\<rparr>, None))\<rparr>"

theorem pinned_candidate_exact_witness:
  "\<exists>l. listPinnedSeries sampleRegistry sampleVersion 12 = Some (l, False, None) \<and>
     slTag (SelectPinned sampleVersion l) = ''v1.2.10''"
proof -
  obtain w where w: "walkSeries samplePager sampleVersion 12 = Some (w, None)" "swComplete w" "\<not> swUnreliable w"
    using walkSeries_completes [OF samplePager_lists samplePager_answers, of 12 sampleVersion] by (auto simp: sampleTags_def)
  let ?l = "\<lparr>tlTags = swTags w, tlTruncated = False, tlPages = swRequests w\<rparr>"
  have l: "listPinnedSeries sampleRegistry sampleVersion 12 = Some (?l, False, None)"
    using w by (simp add: listPinnedSeries_def sampleRegistry_def)
  have "slTag (SelectPinned sampleVersion \<lparr>tlTags = sampleTags, tlTruncated = False, tlPages = 0\<rparr>) = ''v1.2.10''" by code_simp
  moreover have "SelectPinned sampleVersion ?l = SelectPinned sampleVersion \<lparr>tlTags = sampleTags, tlTruncated = False, tlPages = 0\<rparr>"
    using pinned_candidate_exact [OF l, of sampleTags] samplePager_lists by (simp add: sampleRegistry_def)
  ultimately show ?thesis using l by auto
qed

end
