(* ===== verification/PR_Keys.thy ===== *)
theory PR_Keys
  imports Adoption Image_Tags "HOL-Library.Sublist"
begin

section \<open>Keys, branches and markers of pull requests\<close>

text \<open>
  \<open>internal/github/validate.go\<close>, \<open>internal/remediation/pr_keys.go\<close>, the keys of
  \<open>pr_language_keys.go\<close> and the marker of \<open>pr_marker.go\<close>. A pull request is identified by three keys:
  the target (what is edited), the update (what it becomes) and the attempt (the commit that does it).
  Each is the hash of a canonical structure; \<open>hashCanonical\<close> is a parameter \<open>hsh\<close> on the datatype
  \<open>key_input\<close>, one constructor per hashed structure, so that everything before the hash (what goes in,
  sorted and normalised) is the code's. Texts are ASCII: control characters are those below a space and
  delete. Decoding the JSON of a marker is not modelled.
\<close>

subsection \<open>Names GitHub accepts (validate.go)\<close>

definition maxOwnerLen :: nat where "maxOwnerLen = 39"
definition maxRepoLen :: nat where "maxRepoLen = 100"
definition maxBranchLen :: nat where "maxBranchLen = 255"
definition maxPathLen :: nat where "maxPathLen = 1024"

definition hasSuffix :: "string \<Rightarrow> string \<Rightarrow> bool" where
  "hasSuffix s p \<longleftrightarrow> suffix p s"

definition containsSub :: "string \<Rightarrow> string \<Rightarrow> bool" where
  "containsSub s p \<longleftrightarrow> sublist p s"

record github_repo =
  grOwner :: string
  grName :: string

definition validOwner :: "string \<Rightarrow> bool" where
  "validOwner s \<longleftrightarrow>
     \<not> (s = '''' \<or> length s > maxOwnerLen \<or> s ! 0 = CHR ''-'' \<or> s ! (length s - 1) = CHR ''-'' \<or> containsSub s ''--'')
     \<and> list_all (\<lambda>c. c = CHR ''-'' \<or> isDigitByte c \<or> isLowerByte c \<or> isUpperByte c) s"

definition validRepoName :: "string \<Rightarrow> bool" where
  "validRepoName s \<longleftrightarrow>
     \<not> (s = '''' \<or> length s > maxRepoLen \<or> s = ''.'' \<or> s = ''..'' \<or> hasSuffix (toLower s) ''.git'')
     \<and> list_all (\<lambda>c. c = CHR ''-'' \<or> c = CHR ''_'' \<or> c = CHR ''.'' \<or> isDigitByte c \<or> isLowerByte c \<or> isUpperByte c) s"

definition ParseRepo :: "string \<Rightarrow> github_repo option" where
  "ParseRepo s =
     (case indexByte s (CHR ''/'') of
        None \<Rightarrow> None
      | Some i \<Rightarrow>
         (let owner = take i s; name = drop (Suc i) s in
          if CHR ''/'' \<in> set name then None
          else if \<not> validOwner owner then None
          else if \<not> validRepoName name then None
          else Some \<lparr>grOwner = owner, grName = name\<rparr>))"

definition Repo_String :: "github_repo \<Rightarrow> string" where
  "Repo_String r = grOwner r @ ''/'' @ grName r"

definition isControlByte :: "char \<Rightarrow> bool" where
  "isControlByte c \<longleftrightarrow> of_char c < (32 :: nat) \<or> of_char c = (127 :: nat)"

definition ValidBranch :: "string \<Rightarrow> bool" where
  "ValidBranch name \<longleftrightarrow>
     \<not> (name = '''' \<or> length name > maxBranchLen \<or> name = ''@'')
     \<and> \<not> (name ! 0 = CHR ''-'' \<or> name ! 0 = CHR ''/'' \<or> hasSuffix name ''/'' \<or> hasSuffix name ''.''
           \<or> containsSub name ''..'' \<or> containsSub name [CHR ''@'', CHR ''{''] \<or> containsSub name ''//'')
     \<and> list_all (\<lambda>c. \<not> (c = CHR '' '' \<or> isControlByte c \<or> c \<in> set ''~^:?*['' \<or> c = CHR 0x5C)) name
     \<and> list_all (\<lambda>comp. \<not> (hasPrefix comp ''.'' \<or> hasSuffix comp ''.lock'')) (splitOn (CHR ''/'') name)"

text \<open>\<open>path.Clean\<close> on the components of a path; the stack holds the kept ones, last first.\<close>

fun cleanComps :: "bool \<Rightarrow> string list \<Rightarrow> string list \<Rightarrow> string list" where
  "cleanComps rooted kept [] = rev kept"
| "cleanComps rooted kept (c # cs) =
     (if c = '''' \<or> c = ''.'' then cleanComps rooted kept cs
      else if c = ''..'' then
        (case kept of
           [] \<Rightarrow> cleanComps rooted (if rooted then [] else [c]) cs
         | k # ks \<Rightarrow> if k = ''..'' then cleanComps rooted (c # kept) cs else cleanComps rooted ks cs)
      else cleanComps rooted (c # kept) cs)"

definition pathClean :: "string \<Rightarrow> string" where
  "pathClean p =
     (let rooted = hasPrefix p ''/''; s = (if rooted then ''/'' else '''') @ joinWith ''/'' (cleanComps rooted [] (splitOn (CHR ''/'') p)) in
      if s = '''' then ''.'' else s)"

definition ValidPath :: "string \<Rightarrow> bool \<Rightarrow> bool" where
  "ValidPath p allowRoot =
     (if p = ''.'' then allowRoot
      else \<not> (p = '''' \<or> length p > maxPathLen \<or> hasPrefix p ''/'' \<or> CHR 0x5C \<in> set p \<or> pathClean p \<noteq> p)
        \<and> list_all (\<lambda>c. \<not> isControlByte c) p
        \<and> list_all (\<lambda>comp. \<not> (comp = ''.'' \<or> comp = ''..'' \<or> comp = '''')) (splitOn (CHR ''/'') p))"

subsection \<open>Kinds and branch prefixes (pr_keys.go)\<close>

definition branchPrefix :: string where "branchPrefix = ''kestrelynx/''"
definition composeBranchPrefix :: string where "composeBranchPrefix = branchPrefix @ ''compose/''"
definition dockerfileBranchPrefix :: string where "dockerfileBranchPrefix = branchPrefix @ ''dockerfile/''"
definition languageBranchPrefix :: string where "languageBranchPrefix = branchPrefix @ ''language/''"
definition kubernetesBranchPrefix :: string where "kubernetesBranchPrefix = branchPrefix @ ''kubernetes/''"
definition kustomizeBranchPrefix :: string where "kustomizeBranchPrefix = branchPrefix @ ''kustomize/''"
definition helmBranchPrefix :: string where "helmBranchPrefix = branchPrefix @ ''helm/''"

abbreviation prKindCompose :: string where "prKindCompose \<equiv> ''compose''"
abbreviation prKindDockerfile :: string where "prKindDockerfile \<equiv> ''dockerfile''"
abbreviation prKindLanguage :: string where "prKindLanguage \<equiv> ''language''"
abbreviation prKindKubernetes :: string where "prKindKubernetes \<equiv> ''kubernetes''"
abbreviation prKindKustomize :: string where "prKindKustomize \<equiv> ''kustomize''"
abbreviation prKindHelm :: string where "prKindHelm \<equiv> ''helm_values''"

definition kindHasAffected :: "string \<Rightarrow> bool" where
  "kindHasAffected kind \<longleftrightarrow> kind = prKindKubernetes \<or> kind = prKindKustomize \<or> kind = prKindHelm"

definition kindOf :: "string \<Rightarrow> string" where
  "kindOf recorded = (if recorded = '''' then prKindCompose else recorded)"

definition recordedKind :: "string \<Rightarrow> string" where
  "recordedKind kind = (if kind = prKindCompose then '''' else kind)"

definition branchPrefixOf :: "string \<Rightarrow> string" where
  "branchPrefixOf kind =
     (if kind = prKindDockerfile then dockerfileBranchPrefix
      else if kind = prKindLanguage then languageBranchPrefix
      else if kind = prKindKubernetes then kubernetesBranchPrefix
      else if kind = prKindKustomize then kustomizeBranchPrefix
      else if kind = prKindHelm then helmBranchPrefix
      else composeBranchPrefix)"

lemmas prefix_defs = branchPrefix_def composeBranchPrefix_def dockerfileBranchPrefix_def languageBranchPrefix_def
  kubernetesBranchPrefix_def kustomizeBranchPrefix_def helmBranchPrefix_def

subsection \<open>What a language update changes (pr_language_keys.go)\<close>

record lang_key_entry =
  leEcosystem :: string
  leName :: string
  lePositions :: "string list"
  leAdopted :: string
  leThrough :: "string list"

record lang_chain_move =
  lcName :: string
  lcFrom :: string
  lcTo :: string
  lcHeld :: string
  lcHeldRange :: string
  lcHeldBy :: string

record maven_bom_raise =
  mbBOM :: string
  mbProperty :: string
  mbFrom :: string
  mbTo :: string
  mbManages :: string

record lang_remaining =
  lrEcosystem :: string
  lrName :: string
  lrReason :: string
  lrMavenBOM :: "maven_bom_raise option"

record lang_edit =
  ldFile :: string
  ldSection :: string
  ldName :: string
  ldFrom :: string
  ldTo :: string
  ldMajor :: bool

text \<open>The runtime and the tool are kept as their identifying texts; the deprecation notes and followed
  entries, which are only shown, are left out.\<close>

record lang_record =
  lgManager :: string
  lgPackages :: "lang_key_entry list"
  lgManifestEdits :: "lang_edit list"
  lgChain :: "lang_chain_move list"
  lgRemaining :: "lang_remaining list"
  lgInputFingerprint :: string
  lgRuntime :: "(string \<times> string) option"
  lgTool :: "(string \<times> string \<times> string) option"

definition sortedCopy :: "string list \<Rightarrow> string list" where
  "sortedCopy s = sort s"

definition lessLangEntry :: "lang_key_entry \<Rightarrow> lang_key_entry \<Rightarrow> bool" where
  "lessLangEntry a b =
     (if leEcosystem a \<noteq> leEcosystem b then leEcosystem a < leEcosystem b
      else if leName a \<noteq> leName b then leName a < leName b
      else let pa = joinWith [CHR 0x00] (lePositions a); pb = joinWith [CHR 0x00] (lePositions b) in
        if pa \<noteq> pb then pa < pb else leAdopted a < leAdopted b)"

definition sortedLangEntries :: "lang_key_entry list \<Rightarrow> lang_key_entry list" where
  "sortedLangEntries entries =
     sortBy lessLangEntry (map (\<lambda>e. e\<lparr>lePositions := sortedCopy (lePositions e), leThrough := sortedCopy (leThrough e)\<rparr>) entries)"

definition lessLangEdit :: "lang_edit \<Rightarrow> lang_edit \<Rightarrow> bool" where
  "lessLangEdit a b =
     (if ldFile a \<noteq> ldFile b then ldFile a < ldFile b
      else if ldSection a \<noteq> ldSection b then ldSection a < ldSection b
      else if ldName a \<noteq> ldName b then ldName a < ldName b
      else if ldFrom a \<noteq> ldFrom b then ldFrom a < ldFrom b
      else ldTo a < ldTo b)"

definition sortedLangEdits :: "lang_edit list \<Rightarrow> lang_edit list" where
  "sortedLangEdits edits = sortBy lessLangEdit edits"

definition lessLangMove :: "lang_chain_move \<Rightarrow> lang_chain_move \<Rightarrow> bool" where
  "lessLangMove a b =
     (if lcName a \<noteq> lcName b then lcName a < lcName b
      else if lcFrom a \<noteq> lcFrom b then lcFrom a < lcFrom b
      else lcTo a < lcTo b)"

definition sortedLangChain :: "lang_chain_move list \<Rightarrow> lang_chain_move list" where
  "sortedLangChain moves = sortBy lessLangMove moves"

subsection \<open>Keys\<close>

record file_change =
  fcPath :: string
  fcMode :: string
  fcBlobSHA :: string

text \<open>The structures \<open>hashCanonical\<close> is called with, fields in their order.\<close>

datatype key_input =
    TargetInput int string string string "string list"
  | UpdateInput string string string string
  | KubernetesUpdateInput string string string string "string list"
  | LangUpdateInput string string "lang_key_entry list" "(string \<times> string \<times> string \<times> string \<times> string) list"
      "(string \<times> string \<times> string) list"
  | AttemptInput string string string "(string \<times> string) list"
  | LayersInput "string list"

type_synonym key_hash = "key_input \<Rightarrow> string"

definition normalizedRef :: "string \<Rightarrow> string" where
  "normalizedRef ref =
     (case RepositoryKey ref of
        None \<Rightarrow> ref
      | Some key \<Rightarrow> (let s = key @ '':'' @ TagOf ref in if DigestOf ref \<noteq> '''' then s @ ''@'' @ DigestOf ref else s))"

definition TargetKeyOf :: "key_hash \<Rightarrow> string \<Rightarrow> int \<Rightarrow> string \<Rightarrow> string \<Rightarrow> string list \<Rightarrow> string" where
  "TargetKeyOf hsh kind repoID baseBranch path locations = hsh (TargetInput repoID baseBranch kind path (sortedCopy locations))"

definition TargetKey :: "key_hash \<Rightarrow> int \<Rightarrow> string \<Rightarrow> string \<Rightarrow> string list \<Rightarrow> string" where
  "TargetKey hsh repoID baseBranch path locations = TargetKeyOf hsh prKindCompose repoID baseBranch path locations"

definition UpdateKey :: "key_hash \<Rightarrow> string \<Rightarrow> string \<Rightarrow> string \<Rightarrow> string \<Rightarrow> string" where
  "UpdateKey hsh tk currentRef candidateTag candidateDigest =
     hsh (UpdateInput tk (normalizedRef currentRef) candidateTag candidateDigest)"

definition KubernetesUpdateKey :: "key_hash \<Rightarrow> string \<Rightarrow> string \<Rightarrow> string \<Rightarrow> string \<Rightarrow> string list \<Rightarrow> string" where
  "KubernetesUpdateKey hsh tk currentRef candidateTag candidateDigest affected =
     hsh (KubernetesUpdateInput tk (normalizedRef currentRef) candidateTag candidateDigest (sortedCopy affected))"

definition LangUpdateKey :: "key_hash \<Rightarrow> string \<Rightarrow> lang_key_entry list \<Rightarrow> lang_edit list \<Rightarrow> lang_chain_move list \<Rightarrow> string" where
  "LangUpdateKey hsh tk packages edits chain =
     hsh (LangUpdateInput tk prKindLanguage (sortedLangEntries packages)
       (map (\<lambda>e. (ldFile e, ldSection e, ldName e, ldFrom e, ldTo e)) (sortedLangEdits edits))
       (map (\<lambda>m. (lcName m, lcFrom m, lcTo m)) (sortedLangChain chain)))"

definition lessChange :: "string \<times> string \<Rightarrow> string \<times> string \<Rightarrow> bool" where
  "lessChange a b = (if fst a \<noteq> fst b then fst a < fst b else snd a < snd b)"

definition AttemptKey :: "key_hash \<Rightarrow> string \<Rightarrow> string \<Rightarrow> string \<Rightarrow> file_change list \<Rightarrow> string" where
  "AttemptKey hsh updateKey baseSHA inputBlobSHA changes =
     hsh (AttemptInput updateKey baseSHA inputBlobSHA (sortBy lessChange (map (\<lambda>c. (fcPath c, fcBlobSHA c)) changes)))"

subsection \<open>Branch names\<close>

text \<open>The loop of \<open>branchSafe\<close>: \<open>out\<close> is what was written, last first, and \<open>dash\<close> that it ends in a hyphen.\<close>

fun branchSafeLoop :: "string \<Rightarrow> bool \<Rightarrow> string \<Rightarrow> string" where
  "branchSafeLoop out dash [] = rev out"
| "branchSafeLoop out dash (r # rs) =
     (if isLowerByte r \<or> isDigitByte r then branchSafeLoop (r # out) False rs
      else if \<not> dash \<and> out \<noteq> [] then branchSafeLoop (CHR ''-'' # out) True rs
      else branchSafeLoop out dash rs)"

definition trimRightDash :: "string \<Rightarrow> string" where
  "trimRightDash s = rev (dropWhile (\<lambda>c. c = CHR ''-'') (rev s))"

definition branchSafe :: "string \<Rightarrow> string" where
  "branchSafe s = trimRightDash (branchSafeLoop [] False (toLower s))"

text \<open>\<open>strings.ReplaceAll(tag, "..", ".")\<close>, and the loop that repeats it until no two dots are adjacent.\<close>

fun replaceDots :: "string \<Rightarrow> string" where
  "replaceDots (a # b # s) = (if a = CHR ''.'' \<and> b = CHR ''.'' then CHR ''.'' # replaceDots s else a # replaceDots (b # s))"
| "replaceDots s = s"

lemma replaceDots_le: "length (replaceDots s) \<le> length s"
  by (induction s rule: replaceDots.induct) (simp_all add: le_SucI)

lemma replaceDots_less: "sublist ''..'' s \<Longrightarrow> length (replaceDots s) < length s"
proof (induction s rule: replaceDots.induct)
  case (1 a b s)
  show ?case
  proof (cases "a = CHR ''.'' \<and> b = CHR ''.''")
    case True
    then show ?thesis using replaceDots_le [of s] by simp
  next
    case False
    then have "sublist ''..'' (b # s)" using "1.prems" by (auto simp: sublist_Cons_right)
    then show ?thesis using "1.IH" (2) False by auto
  qed
qed (auto simp: sublist_Cons_right)

function collapseDots :: "string \<Rightarrow> string" where
  "collapseDots tag = (if containsSub tag ''..'' then collapseDots (replaceDots tag) else tag)"
  by pat_completeness auto
termination
  by (relation "measure length") (auto simp: containsSub_def replaceDots_less)

declare collapseDots.simps [simp del]

definition displayOf :: "string list \<Rightarrow> string" where
  "displayOf services =
     (let ss = sortedCopy services;
          display = branchSafe (case ss of [] \<Rightarrow> ''service''
            | s # rest \<Rightarrow> if rest \<noteq> [] then s @ ''-and-'' @ itoa (length ss - 1) else s) in
      if display = '''' then ''service'' else display)"

definition fitDisplay :: "nat \<Rightarrow> string \<Rightarrow> string" where
  "fitDisplay room display =
     (if length display > room then (let d = trimRightDash (take room display) in if d = '''' then ''s'' else d) else display)"

definition branchNameFor :: "string \<Rightarrow> string list \<Rightarrow> string \<Rightarrow> string \<Rightarrow> string option" where
  "branchNameFor pre services tag attemptKey =
     (if length attemptKey < 12 then None
      else let suf = ''-'' @ collapseDots tag @ ''-'' @ take 12 attemptKey in
        if 255 - int (length pre) - int (length suf) < 1 then None
        else let name = pre @ fitDisplay (255 - length pre - length suf) (displayOf services) @ suf in
          if \<not> ValidBranch name then None else Some name)"

subsection \<open>Fix targets\<close>

record fix_target =
  ftLocation :: string
  ftVulnID :: string
  ftPackage :: package_coord
  ftLayers :: "string list"
  ftLayersDigest :: string
  ftEntities :: "string list"

definition layerSetDigest :: "key_hash \<Rightarrow> string list \<Rightarrow> string" where
  "layerSetDigest hsh layers = hsh (LayersInput (sortedCopy layers))"

definition layerSetKey :: "key_hash \<Rightarrow> fix_target \<Rightarrow> string" where
  "layerSetKey hsh f = (if ftLayers f \<noteq> [] then layerSetDigest hsh (ftLayers f) else ftLayersDigest f)"

definition pairKey :: "string \<Rightarrow> package_coord \<Rightarrow> string" where
  "pairKey vulnID p = vulnID @ [CHR 0x00] @ pcEcosystem p @ [CHR 0x00] @ pcClass p @ [CHR 0x00] @ pcName p"

definition FixTarget_key :: "key_hash \<Rightarrow> fix_target \<Rightarrow> string" where
  "FixTarget_key hsh f =
     (let k = ftLocation f @ [CHR 0x00] @ pairKey (ftVulnID f) (ftPackage f); l = layerSetKey hsh f in
      if l \<noteq> '''' then k @ [CHR 0x00] @ l else k)"

subsection \<open>The marker (pr_marker.go)\<close>

record pr_marker =
  pmV :: int
  pmKind :: string
  pmRepoID :: int
  pmBaseBranch :: string
  pmPath :: string
  pmLocations :: "string list"
  pmCurrentRef :: string
  pmCandidateTag :: string
  pmCandidateDigest :: string
  pmBaseSHA :: string
  pmHeadSHA :: string
  pmInputBlobSHA :: string
  pmChanges :: "file_change list"
  pmTargetKey :: string
  pmUpdateKey :: string
  pmAttemptKey :: string
  pmFixTargets :: "fix_target list"
  pmLang :: "lang_record option"
  pmAffected :: "string list"

definition isSHA :: "string \<Rightarrow> bool" where
  "isSHA s \<longleftrightarrow> length s = 40 \<and> list_all (\<lambda>r. isDigitByte r \<or> CHR ''a'' \<le> r \<and> r \<le> CHR ''f'') s"

definition langManagers :: "string list" where
  "langManagers = [''npm'', ''pnpm'', ''uv'', ''pip'', ''go'', ''maven'', ''gradle'']"

abbreviation ReasonMavenBOMSeriesUnreached :: string where "ReasonMavenBOMSeriesUnreached \<equiv> ''maven_bom_series_unreached''"

definition LangRecord_wellFormed :: "lang_record \<Rightarrow> bool" where
  "LangRecord_wellFormed l \<longleftrightarrow>
     lgManager l \<in> set langManagers \<and> lgPackages l \<noteq> []
     \<and> list_all (\<lambda>p. \<not> (leEcosystem p = '''' \<or> leName p = '''' \<or> leAdopted p = '''')) (lgPackages l)
     \<and> list_all (\<lambda>x. \<not> (lrEcosystem x = '''' \<or> lrName x = '''' \<or> lrReason x = '''')
          \<and> (case lrMavenBOM x of None \<Rightarrow> True
             | Some b \<Rightarrow> \<not> (lrReason x \<noteq> ReasonMavenBOMSeriesUnreached \<or> mbBOM b = '''' \<or> mbFrom b = '''' \<or> mbTo b = '''' \<or> mbManages b = '''')))
        (lgRemaining l)
     \<and> (case lgRuntime l of None \<Rightarrow> True | Some (rid, ver) \<Rightarrow> \<not> (rid = '''' \<or> ver = ''''))
     \<and> (case lgTool l of None \<Rightarrow> True | Some (nm, ver, sha) \<Rightarrow> \<not> (nm = '''' \<or> ver = '''' \<or> sha = ''''))
     \<and> list_all (\<lambda>c. \<not> (lcName c = '''' \<or> lcTo c = '''')) (lgChain l)
     \<and> list_all (\<lambda>e. \<not> (\<not> ValidPath (ldFile e) False \<or> ldSection e = '''' \<or> ldName e = '''' \<or> ldFrom e = '''' \<or> ldTo e = ''''))
        (lgManifestEdits l)"

fun affectedOk :: "string list \<Rightarrow> bool" where
  "affectedOk [] = True"
| "affectedOk [w] = (ParseKubernetesWorkloadKey w \<noteq> None)"
| "affectedOk (v # w # ws) = (ParseKubernetesWorkloadKey v \<noteq> None \<and> \<not> v \<ge> w \<and> affectedOk (w # ws))"

definition PRMarker_wellFormed :: "pr_marker \<Rightarrow> bool" where
  "PRMarker_wellFormed m \<longleftrightarrow>
     \<not> (pmKind m \<noteq> '''' \<and> pmKind m \<noteq> prKindDockerfile \<and> pmKind m \<noteq> prKindLanguage \<and> \<not> kindHasAffected (pmKind m))
     \<and> kindHasAffected (pmKind m) = (pmAffected m \<noteq> [])
     \<and> (pmKind m = prKindLanguage) = (pmLang m \<noteq> None)
     \<and> \<not> pmRepoID m \<le> 0
     \<and> ValidBranch (pmBaseBranch m)
     \<and> ValidPath (pmPath m) False
     \<and> pmLocations m \<noteq> []
     \<and> \<not> (pmKind m \<noteq> prKindLanguage \<and> (pmCurrentRef m = '''' \<or> pmCandidateTag m = '''' \<or> pmCandidateDigest m = ''''))
     \<and> isSHA (pmBaseSHA m) \<and> isSHA (pmHeadSHA m) \<and> isSHA (pmInputBlobSHA m)
     \<and> pmChanges m \<noteq> []
     \<and> \<not> (pmTargetKey m = '''' \<or> pmUpdateKey m = '''' \<or> pmAttemptKey m = '''')
     \<and> affectedOk (pmAffected m)
     \<and> list_all (\<lambda>c. ValidPath (fcPath c) False \<and> isSHA (fcBlobSHA c) \<and> (fcMode c = ''100644'' \<or> fcMode c = ''100755'')) (pmChanges m)
     \<and> (case pmLang m of None \<Rightarrow> True | Some l \<Rightarrow> LangRecord_wellFormed l)"

definition updateKeyOf :: "key_hash \<Rightarrow> string \<Rightarrow> string \<Rightarrow> lang_record option \<Rightarrow> string \<Rightarrow> string \<Rightarrow> string \<Rightarrow> string list \<Rightarrow> string" where
  "updateKeyOf hsh tk kind lang currentRef candidateTag candidateDigest affected =
     (case lang of
        Some l \<Rightarrow> LangUpdateKey hsh tk (lgPackages l) (lgManifestEdits l) (lgChain l)
      | None \<Rightarrow> if kindHasAffected kind then KubernetesUpdateKey hsh tk currentRef candidateTag candidateDigest affected
                else UpdateKey hsh tk currentRef candidateTag candidateDigest)"

definition PRMarker_verify :: "key_hash \<Rightarrow> pr_marker \<Rightarrow> int \<Rightarrow> bool" where
  "PRMarker_verify hsh m repoID =
     (if pmRepoID m \<noteq> repoID then False
      else let tk = TargetKeyOf hsh (kindOf (pmKind m)) (pmRepoID m) (pmBaseBranch m) (pmPath m) (pmLocations m);
        uk = updateKeyOf hsh tk (pmKind m) (pmLang m) (pmCurrentRef m) (pmCandidateTag m) (pmCandidateDigest m) (pmAffected m);
        ak = AttemptKey hsh uk (pmBaseSHA m) (pmInputBlobSHA m) (pmChanges m) in
      \<not> (tk \<noteq> pmTargetKey m \<or> uk \<noteq> pmUpdateKey m \<or> ak \<noteq> pmAttemptKey m))"

definition branchMatches :: "pr_marker \<Rightarrow> string \<Rightarrow> bool" where
  "branchMatches m ref \<longleftrightarrow> length (pmAttemptKey m) \<ge> 12 \<and> hasPrefix ref (branchPrefixOf (kindOf (pmKind m)))
     \<and> hasSuffix ref (''-'' @ take 12 (pmAttemptKey m))"

subsection \<open>Branch names are always found\<close>

definition tagByte :: "char \<Rightarrow> bool" where
  "tagByte c \<longleftrightarrow> isDigitByte c \<or> isLowerByte c \<or> isUpperByte c \<or> c = CHR ''_'' \<or> c = CHR ''.'' \<or> c = CHR ''-''"

definition noDots :: "string \<Rightarrow> bool" where
  "noDots s \<longleftrightarrow> \<not> containsSub s ''..''"

definition dashed :: "string \<Rightarrow> bool" where
  "dashed s \<longleftrightarrow> s \<noteq> [] \<and> (\<forall>c \<in> set s. isLowerByte c \<or> isDigitByte c \<or> c = CHR ''-'') \<and> hd s \<noteq> CHR ''-''"

lemma containsSub_pair:
  "containsSub (a @ b) [x, y] \<longleftrightarrow>
     containsSub a [x, y] \<or> containsSub b [x, y] \<or> (a \<noteq> [] \<and> b \<noteq> [] \<and> last a = x \<and> hd b = y)"
proof (induction a)
  case (Cons c a)
  then show ?case
    by (cases a; cases b) (auto simp: containsSub_def sublist_Cons_right)
qed (auto simp: containsSub_def)

lemma containsSub_set: "containsSub s [x, y] \<Longrightarrow> x \<in> set s \<and> y \<in> set s"
  by (auto simp: containsSub_def sublist_def)

lemma set_replaceDots: "set (replaceDots s) \<subseteq> set s"
  by (induction s rule: replaceDots.induct) auto

lemma collapseDots_props: "noDots (collapseDots s) \<and> set (collapseDots s) \<subseteq> set s \<and> length (collapseDots s) \<le> length s"
proof (induction s rule: collapseDots.induct)
  case (1 tag)
  show ?case
  proof (cases "containsSub tag ''..''")
    case True
    then have "collapseDots tag = collapseDots (replaceDots tag)" by (simp add: collapseDots.simps [of tag])
    then show ?thesis using "1.IH" [OF True] set_replaceDots [of tag] replaceDots_le [of tag] by auto
  next
    case False
    then show ?thesis by (simp add: collapseDots.simps [of tag] noDots_def)
  qed
qed

definition safeOut :: "string \<Rightarrow> bool" where
  "safeOut out \<longleftrightarrow> (\<forall>c \<in> set out. isLowerByte c \<or> isDigitByte c \<or> c = CHR ''-'') \<and> (out = [] \<or> last out \<noteq> CHR ''-'')"

lemma safeOut_Cons:
  "safeOut out \<Longrightarrow> isLowerByte r \<or> isDigitByte r \<Longrightarrow> safeOut (r # out)"
  "safeOut out \<Longrightarrow> out \<noteq> [] \<Longrightarrow> safeOut (CHR ''-'' # out)"
  by (auto simp: safeOut_def isLowerByte_def isDigitByte_def)

lemma branchSafeLoop_chars: "safeOut out \<Longrightarrow> safeOut (rev (branchSafeLoop out dash s))"
proof (induction out dash s rule: branchSafeLoop.induct)
  case (2 out dash r rs)
  then show ?case using safeOut_Cons [OF "2.prems"] by simp
qed simp

lemma trimRightDash_prefix: "\<exists>t. s = trimRightDash s @ t \<and> (\<forall>c \<in> set t. c = CHR ''-'')"
proof -
  have "rev s = takeWhile (\<lambda>c. c = CHR ''-'') (rev s) @ dropWhile (\<lambda>c. c = CHR ''-'') (rev s)" by simp
  then have "s = trimRightDash s @ rev (takeWhile (\<lambda>c. c = CHR ''-'') (rev s))"
    unfolding trimRightDash_def by (metis rev_append rev_rev_ident)
  moreover have "\<forall>c \<in> set (rev (takeWhile (\<lambda>c. c = CHR ''-'') (rev s))). c = CHR ''-''" by (auto dest: set_takeWhileD)
  ultimately show ?thesis by blast
qed

lemma dashed_prefix:
  assumes "dashed (a @ b)" "a \<noteq> []"
  shows "dashed a"
  using assms by (cases a) (auto simp: dashed_def)

lemma dashed_trim: "dashed s \<Longrightarrow> trimRightDash s = [] \<or> dashed (trimRightDash s)"
  using trimRightDash_prefix [of s] dashed_prefix by metis

lemma dashed_branchSafe: "branchSafe s = [] \<or> dashed (branchSafe s)"
proof -
  let ?u = "branchSafeLoop [] False (toLower s)"
  have "safeOut (rev ?u)" by (rule branchSafeLoop_chars) (simp add: safeOut_def)
  then have "?u = [] \<or> dashed ?u" by (auto simp: dashed_def safeOut_def last_rev)
  then show ?thesis unfolding branchSafe_def using dashed_trim by (auto simp: trimRightDash_def)
qed
definition hexByte :: "char \<Rightarrow> bool" where
  "hexByte c \<longleftrightarrow> isDigitByte c \<or> CHR ''a'' \<le> c \<and> c \<le> CHR ''f''"

lemma hexByte_tagByte: "hexByte c \<Longrightarrow> tagByte c"
  by (auto simp: hexByte_def tagByte_def isLowerByte_def less_eq_char_def)

lemma tagByte_not:
  assumes "tagByte c"
  shows "c \<noteq> CHR ''/''" "c \<noteq> CHR ''@''" "c \<noteq> CHR '' ''" "\<not> isControlByte c" "c \<notin> set ''~^:?*[''" "c \<noteq> CHR 0x5C"
  using assms
  by (auto simp: tagByte_def isLowerByte_def isDigitByte_def isUpperByte_def isControlByte_def less_eq_char_def)

definition branchWords :: "string list" where
  "branchWords = [''compose'', ''dockerfile'', ''language'', ''kubernetes'', ''kustomize'', ''helm'']"

lemma branchPrefixOf_words: "\<exists>w \<in> set branchWords. branchPrefixOf kind = ''kestrelynx/'' @ w @ ''/''"
  by (auto simp: branchPrefixOf_def prefix_defs branchWords_def)

lemma branchWords_plain: "w \<in> set branchWords \<Longrightarrow> list_all tagByte w \<and> w \<noteq> [] \<and> length w \<le> 10 \<and> CHR ''.'' \<notin> set w"
proof -
  have "list_all (\<lambda>w. list_all tagByte w \<and> w \<noteq> [] \<and> length w \<le> 10 \<and> CHR ''.'' \<notin> set w) branchWords" by code_simp
  then show "w \<in> set branchWords \<Longrightarrow> ?thesis" by (simp add: list_all_iff)
qed

lemma noDots_append: "noDots a \<Longrightarrow> noDots b \<Longrightarrow> (a = [] \<or> b = [] \<or> last a \<noteq> CHR ''.'' \<or> hd b \<noteq> CHR ''.'') \<Longrightarrow> noDots (a @ b)"
  by (auto simp: noDots_def containsSub_pair)

lemma noDots_plain: "CHR ''.'' \<notin> set s \<Longrightarrow> noDots s"
  using containsSub_set noDots_def by blast

text \<open>The last part of a branch name: the display, the tag and the key.\<close>

lemma branch_body:
  assumes "dashed d" "list_all tagByte t" "noDots t" "list_all hexByte k" "k \<noteq> []"
  defines "b \<equiv> d @ ''-'' @ t @ ''-'' @ k"
  shows "list_all tagByte b" "noDots b" "b \<noteq> []" "hd b \<noteq> CHR ''.''" "last b \<noteq> CHR ''.''" "\<not> hasSuffix b ''.lock''"
proof -
  have d: "list_all tagByte d" "CHR ''.'' \<notin> set d" "d \<noteq> []"
    using assms(1) by (auto simp: dashed_def tagByte_def list_all_iff isLowerByte_def isDigitByte_def)
  have k: "list_all tagByte k" "CHR ''.'' \<notin> set k" "last k \<in> set k"
    using assms(4,5) by (auto simp: list_all_iff hexByte_tagByte hexByte_def isDigitByte_def)
  show "list_all tagByte b" using d(1) k(1) assms(2) by (simp add: b_def tagByte_def)
  show "b \<noteq> []" by (simp add: b_def)
  show "hd b \<noteq> CHR ''.''" using d by (simp add: b_def) (metis hd_in_set)
  have last: "last b = last k" using assms(5) by (simp add: b_def)
  then show "last b \<noteq> CHR ''.''" using k by metis
  have "noDots (''-'' @ t @ ''-'' @ k)"
    using assms(3) noDots_plain [OF k(2)] noDots_plain [of "''-''"] noDots_plain [of "''-'' @ k"] k(2)
    by (intro noDots_append [of "''-''"] noDots_append [of t]) auto
  then show "noDots b" unfolding b_def using noDots_plain [OF d(2)] noDots_append [of d "''-'' @ t @ ''-'' @ k"] by simp
  have "hexByte (last b)" using last k(3) assms(4) by (simp add: list_all_iff)
  moreover have "last b = CHR ''k''" if "hasSuffix b ''.lock''" using that by (auto simp: hasSuffix_def suffix_def)
  ultimately show "\<not> hasSuffix b ''.lock''" by (auto simp: hexByte_def isDigitByte_def)
qed

lemma ValidBranch_built:
  assumes "w \<in> set branchWords" "list_all tagByte b" "noDots b" "b \<noteq> []" "hd b \<noteq> CHR ''.''" "last b \<noteq> CHR ''.''"
    "\<not> hasSuffix b ''.lock''" "length b + length w + 12 \<le> 255"
  shows "ValidBranch (''kestrelynx/'' @ w @ ''/'' @ b)" (is "ValidBranch ?n")
proof -
  note w = branchWords_plain [OF assms(1)]
  have slash_at: "\<not> tagByte (CHR ''/'')" "\<not> tagByte (CHR ''@'')" by code_simp+
  have "\<forall>c \<in> set w. tagByte c" "\<forall>c \<in> set b. tagByte c" using w assms(2) by (simp_all add: list_all_iff)
  then have nw: "CHR ''/'' \<notin> set w" "CHR ''/'' \<notin> set b" "CHR ''@'' \<notin> set w" "CHR ''@'' \<notin> set b"
    using slash_at by metis+
  have split: "splitOn (CHR ''/'') ?n = [''kestrelynx'', w, b]"
    using splitOn_append [of "CHR ''/''" "''kestrelynx''" "w @ CHR ''/'' # b"] splitOn_append [OF nw(1), of b] splitOn_plain [OF nw(2)]
    by (simp del: splitOn.simps)
  have lastn: "last ?n = last b" "?n \<noteq> []" using assms(4) by simp_all
  have suf: "hasSuffix ?n [c] \<Longrightarrow> last b = c" for c
    unfolding hasSuffix_def suffix_def lastn(1) [symmetric] by (elim exE) (simp only: last_snoc)
  have "last b \<noteq> CHR ''/''" using nw(2) last_in_set [OF assms(4)] by metis
  then have ends: "\<not> hasSuffix ?n ''/''" "\<not> hasSuffix ?n ''.''" using suf assms(6) by auto
  have dots: "\<not> containsSub ?n ''..''"
    using noDots_append [of "''kestrelynx/'' @ w @ ''/''" b] noDots_plain [of "''kestrelynx/'' @ w @ ''/''"] w assms(3)
    by (simp add: noDots_def)
  have at: "\<not> containsSub ?n [CHR ''@'', CHR ''{'']" using containsSub_set [of ?n "CHR ''@''"] nw by auto
  have hd: "hd b \<noteq> CHR ''/''" "hd w \<noteq> CHR ''/''" "last w \<noteq> CHR ''/''"
    using nw assms(4) w by (metis hd_in_set, metis hd_in_set, metis last_in_set)
  have noslash: "\<not> containsSub s ''//''" if "CHR ''/'' \<notin> set s" for s using that containsSub_set by blast
  have "\<not> containsSub ''/'' ''//''" by (simp add: containsSub_def sublist_Cons_right)
  then have slash: "\<not> containsSub ?n ''//''"
    using containsSub_pair [of "''kestrelynx''" "''/'' @ w @ ''/'' @ b"] containsSub_pair [of "''/''" "w @ ''/'' @ b"]
      containsSub_pair [of w "''/'' @ b"] containsSub_pair [of "''/''" b] noslash [of w] noslash [of b] noslash [of "''kestrelynx''"] nw hd w assms(4)
    by auto
  have chars: "list_all (\<lambda>c. \<not> (c = CHR '' '' \<or> isControlByte c \<or> c \<in> set ''~^:?*['' \<or> c = CHR 0x5C)) (w @ b)"
    unfolding list_all_iff
  proof
    fix c assume "c \<in> set (w @ b)"
    then have "tagByte c" using w assms(2) by (auto simp: list_all_iff)
    from tagByte_not [OF this] show "\<not> (c = CHR '' '' \<or> isControlByte c \<or> c \<in> set ''~^:?*['' \<or> c = CHR 0x5C)" by blast
  qed
  have kes: "list_all (\<lambda>c. \<not> (c = CHR '' '' \<or> isControlByte c \<or> c \<in> set ''~^:?*['' \<or> c = CHR 0x5C)) ''kestrelynx/''" by code_simp
  have "\<not> suffix ''.lock'' ''kestrelynx''" by (auto simp: suffix_Cons)
  then have comps: "\<not> hasSuffix ''kestrelynx'' ''.lock''" "\<not> hasPrefix w ''.''" "\<not> hasSuffix w ''.lock''" "\<not> hasPrefix b ''.''"
    using w assms(4,5) by (auto simp: hasPrefix_iff hasSuffix_def suffix_def [of _ w])
  show ?thesis
    unfolding ValidBranch_def split
    using assms(7,8) ends dots at slash chars kes comps
    by (simp add: maxBranchLen_def hasPrefix_def)
qed
lemma dashed_displayOf: "dashed (displayOf services)"
proof -
  have "dashed ''service''" by code_simp
  then have "dashed (if branchSafe x = '''' then ''service'' else branchSafe x)" for x using dashed_branchSafe [of x] by auto
  then show ?thesis unfolding displayOf_def Let_def .
qed

lemma fitDisplay_ok:
  assumes "dashed d" "1 \<le> room"
  shows "dashed (fitDisplay room d) \<and> length (fitDisplay room d) \<le> room"
proof -
  let ?e = "trimRightDash (take room d)"
  have "dashed (take room d)" using dashed_prefix [of "take room d" "drop room d"] assms by (auto simp: dashed_def)
  then have "?e = [] \<or> dashed ?e" by (rule dashed_trim)
  moreover have "length ?e \<le> room"
    using trimRightDash_prefix [of "take room d"] by (metis length_append le_add1 length_take min.cobounded2 le_trans)
  moreover have "dashed ''s''" by code_simp
  ultimately show ?thesis using assms by (auto simp: fitDisplay_def Let_def)
qed

lemma branchNameFor_found:
  assumes "list_all tagByte tag" "length tag \<le> 128" "list_all hexByte ak" "12 \<le> length ak"
  shows "\<exists>name. branchNameFor (branchPrefixOf kind) services tag ak = Some name"
proof -
  obtain w where w: "w \<in> set branchWords" "branchPrefixOf kind = ''kestrelynx/'' @ w @ ''/''" using branchPrefixOf_words by metis
  define suf where "suf = ''-'' @ collapseDots tag @ ''-'' @ take 12 ak"
  define d where "d = fitDisplay (255 - length (branchPrefixOf kind) - length suf) (displayOf services)"
  note t = collapseDots_props [of tag]
  have tag: "list_all tagByte (collapseDots tag)" using t assms(1) by (auto simp: list_all_iff)
  have key: "list_all hexByte (take 12 ak)" "take 12 ak \<noteq> []"
    using assms(3,4) by (auto simp: list_all_iff dest: in_set_takeD)
  have len: "length (branchPrefixOf kind) = 12 + length w" "length w \<le> 10" "length suf \<le> 142"
    using w branchWords_plain [OF w(1)] t assms(2,4) by (auto simp: suf_def)
  have d: "dashed d" "length d \<le> 255 - length (branchPrefixOf kind) - length suf"
    using fitDisplay_ok [OF dashed_displayOf] len by (auto simp: d_def)
  note b = branch_body [OF d(1) tag conjunct1 [OF t] key, folded suf_def]
  have "length (d @ suf) + length w + 12 \<le> 255" using d(2) len by auto
  with ValidBranch_built [OF w(1) b(1-6)] have "ValidBranch (branchPrefixOf kind @ d @ suf)" by (simp add: w(2))
  moreover have "\<not> 255 - int (length (branchPrefixOf kind)) - int (length suf) < 1" using len by simp
  ultimately show ?thesis
    using assms(4) unfolding branchNameFor_def Let_def suf_def [symmetric] d_def [symmetric] by simp
qed

lemma branchNameFor_shape:
  assumes "branchNameFor pre services tag ak = Some name"
  shows "ValidBranch name \<and> hasPrefix name pre \<and> hasSuffix name (''-'' @ take 12 ak) \<and> 12 \<le> length ak"
proof -
  have ends: "hasSuffix (pre @ d @ ''-'' @ t @ ''-'' @ k) (''-'' @ k)" for d t k
    unfolding hasSuffix_def suffix_def by (rule exI [of _ "pre @ d @ ''-'' @ t"]) simp
  define suf where "suf = ''-'' @ collapseDots tag @ ''-'' @ take 12 ak"
  obtain d where "name = pre @ d @ ''-'' @ collapseDots tag @ ''-'' @ take 12 ak" "ValidBranch name" "\<not> length ak < 12"
    using assms unfolding branchNameFor_def Let_def suf_def [symmetric] by (auto split: if_splits)
  then show ?thesis using ends [of d] hasPrefix_append [of pre] by simp
qed

subsection \<open>Keys do not depend on order\<close>

lemma TargetKeyOf_order: "mset l = mset l' \<Longrightarrow> TargetKeyOf hsh kind rid bb path l = TargetKeyOf hsh kind rid bb path l'"
  by (metis TargetKeyOf_def sortedCopy_def sort_strings_perm)

lemma lessChange_strict: "strict_weak lessChange"
proof -
  have "strict_weak (ltThen (\<lambda>a b :: string \<times> string. fst a < fst b) (\<lambda>a b. snd a < snd b))"
    by (intro strict_weak_ltThen strict_weak_key)
  moreover have "ltThen (\<lambda>a b :: string \<times> string. fst a < fst b) (\<lambda>a b. snd a < snd b) = lessChange"
    by (auto simp: ltThen_def lessChange_def fun_eq_iff)
  ultimately show ?thesis by simp
qed

lemma AttemptKey_order: "mset cs = mset cs' \<Longrightarrow> AttemptKey hsh uk b i cs = AttemptKey hsh uk b i cs'"
proof -
  assume "mset cs = mset cs'"
  then have "mset (map (\<lambda>c. (fcPath c, fcBlobSHA c)) cs) = mset (map (\<lambda>c. (fcPath c, fcBlobSHA c)) cs')" by simp
  then have "sortBy lessChange (map (\<lambda>c. (fcPath c, fcBlobSHA c)) cs) = sortBy lessChange (map (\<lambda>c. (fcPath c, fcBlobSHA c)) cs')"
    by (rule strict_weak.sortBy_perm_eq [OF lessChange_strict]) (auto simp: lessChange_def prod_eq_iff split: if_splits)
  then show ?thesis by (simp add: AttemptKey_def)
qed

text \<open>
  C32. A branch name is found for every kind of update, every set of services, every tag of a registry
  and every attempt key of hexadecimal digits. It is a name git accepts, of the kind's own prefix, and
  a marker of the attempt recognises it.
\<close>

theorem branch_recognised:
  assumes "list_all tagByte tag" "length tag \<le> 128" "list_all hexByte (pmAttemptKey m)" "12 \<le> length (pmAttemptKey m)"
  shows "\<exists>name. branchNameFor (branchPrefixOf (kindOf (pmKind m))) services tag (pmAttemptKey m) = Some name
    \<and> ValidBranch name \<and> branchMatches m name"
proof -
  from branchNameFor_found [OF assms] obtain name
    where "branchNameFor (branchPrefixOf (kindOf (pmKind m))) services tag (pmAttemptKey m) = Some name" by blast
  with branchNameFor_shape [OF this] show ?thesis by (auto simp: branchMatches_def)
qed

definition sampleMarker :: pr_marker where
  "sampleMarker = \<lparr>pmV = 1, pmKind = '''', pmRepoID = 7, pmBaseBranch = ''main'', pmPath = ''compose.yaml'',
     pmLocations = [''services.web.image''], pmCurrentRef = ''nginx:1.2.1'', pmCandidateTag = ''1.2.10'',
     pmCandidateDigest = ''sha256:ab'', pmBaseSHA = replicate 40 (CHR ''1''), pmHeadSHA = replicate 40 (CHR ''2''),
     pmInputBlobSHA = replicate 40 (CHR ''3''), pmChanges = [\<lparr>fcPath = ''compose.yaml'', fcMode = ''100644'', fcBlobSHA = replicate 40 (CHR ''4'')\<rparr>],
     pmTargetKey = ''t'', pmUpdateKey = ''u'', pmAttemptKey = ''0123456789abcdef'', pmFixTargets = [], pmLang = None, pmAffected = []\<rparr>"

theorem branch_recognised_witness:
  "\<exists>name. branchNameFor (branchPrefixOf (kindOf (pmKind sampleMarker))) [''web''] ''1.2..10'' (pmAttemptKey sampleMarker) = Some name
    \<and> ValidBranch name \<and> branchMatches sampleMarker name"
  by (rule branch_recognised; code_simp)

end
