(* ===== verification/PR_Store.thy ===== *)
theory PR_Store
  imports PR_Keys
begin

section \<open>The records of pull requests\<close>

text \<open>
  The records of \<open>internal/remediation/pr_types.go\<close> and the record file of \<open>pr_store.go\<close>: what the pull
  request stage keeps between cycles, the check of a file that is loaded or saved, the bound on the
  operation log and the marking of delivered events. Texts written for people (details, titles,
  addresses) and times are left out of the records: no decision of the stage reads them. Reading and
  writing the file itself is I/O.

  The lemmas show that trimming the log drops only delivered events of settled attempts, oldest first
  and no more than needed, and that appending, trimming and delivering keep a file valid.
\<close>

subsection \<open>Data\<close>

abbreviation PRStateOpen :: string where "PRStateOpen \<equiv> ''open''"
abbreviation PRStateClosed :: string where "PRStateClosed \<equiv> ''closed''"
abbreviation PRStateMerged :: string where "PRStateMerged \<equiv> ''merged''"
abbreviation PRStateReplaced :: string where "PRStateReplaced \<equiv> ''replaced''"

datatype attempt_status =
    AttemptIntent | AttemptBlobCreated | AttemptTreeCreated | AttemptCommitCreated | AttemptRefCreated
  | AttemptPRRequested | AttemptPRCreated | AttemptAbandoned | AttemptAbandonedWithoutPR | AttemptBlocked

definition settled :: "attempt_status \<Rightarrow> bool" where
  "settled s \<longleftrightarrow> s = AttemptPRCreated \<or> s = AttemptAbandoned \<or> s = AttemptAbandonedWithoutPR"

datatype replacement_state =
    ReplacementPending | ReplacementCommented | ReplacementClosed | ReplacementDone | ReplacementAbandoned

record replacement =
  rpOldNumber :: int
  rpState :: replacement_state
  rpPendingOp :: string

definition terminal :: "replacement \<Rightarrow> bool" where
  "terminal r \<longleftrightarrow> rpState r = ReplacementDone \<or> rpState r = ReplacementAbandoned"

record vuln_summary =
  vsVulnID :: string
  vsPackage :: package_coord
  vsSeverity :: string
  vsPriority :: string
  vsKEV :: bool
  vsLayers :: "string list"

record image_state =
  isRef :: string
  isTag :: string
  isEntity :: string
  isConfigDigest :: string
  isManifestDigest :: string
  isTopDigest :: string
  isPlatform :: string
  isDigestKindUnverified :: bool

record item_evidence =
  ieItemKey :: string
  ieCurrent :: image_state
  ieCandidate :: image_state
  ieLocations :: "string list"
  ieResolved :: "vuln_summary list"
  ieRemaining :: "vuln_summary list"
  ieOtherResolved :: "vuln_summary list"
  ieOtherRemaining :: "vuln_summary list"
  ieIntroduced :: "vuln_summary list"

text \<open>The evidence of a unit: the items, each with its images and outcomes; the scans and tools that made it are left out.\<close>

record verification_summary =
  vmSeverities :: "string list"
  vmScope :: string
  vmItems :: "item_evidence list"

record pr_record =
  prRepo :: string
  prRepoID :: int
  prKind :: string
  prTargetKey :: string
  prUpdateKey :: string
  prAttemptKey :: string
  prBranch :: string
  prNumber :: int
  prBaseBranch :: string
  prBaseSHA :: string
  prHeadSHA :: string
  prPath :: string
  prLocations :: "string list"
  prState :: string
  prReplacedBy :: int
  prSupersededBy :: int
  prUserModified :: bool
  prFixTargets :: "fix_target list"
  prServices :: "string list"
  prCurrentRef :: string
  prCandidateTag :: string
  prCandidateDigest :: string
  prAffected :: "string list"
  prReplacing :: "replacement list"
  prRecovered :: bool
  prMarkerOnly :: bool
  prEvidence :: "verification_summary option"
  prInputVerified :: bool
  prLang :: "lang_record option"

record attempt_record =
  atKind :: string
  atAttemptKey :: string
  atUpdateKey :: string
  atTargetKey :: string
  atRepo :: string
  atRepoID :: int
  atBranch :: string
  atBaseBranch :: string
  atBaseSHA :: string
  atPath :: string
  atMode :: string
  atInputSHA :: string
  atNewBlobSHA :: string
  atTreeSHA :: string
  atCommitSHA :: string
  atStatus :: attempt_status
  atPRNumber :: int
  atPendingOp :: string
  atServices :: "string list"
  atLocations :: "string list"
  atCurrentRef :: string
  atCandidateTag :: string
  atCandidateDigest :: string
  atAffected :: "string list"
  atFixTargets :: "fix_target list"
  atEvidence :: "verification_summary option"
  atChanges :: "file_change list"
  atLang :: "lang_record option"

definition fileChanges :: "attempt_record \<Rightarrow> file_change list" where
  "fileChanges a = (if atChanges a \<noteq> [] then atChanges a
     else [\<lparr>fcPath = atPath a, fcMode = atMode a, fcBlobSHA = atNewBlobSHA a\<rparr>])"

datatype op_phase = PhaseIntent | PhaseResult | PhaseSettled
datatype op_kind =
    OpCreateBlob | OpCreateTree | OpCreateCommit | OpCreateRef | OpCreatePull | OpCreateComment | OpClosePull
datatype op_result = ResultOK | ResultFailed | ResultUnknown

text \<open>An event; the kind and the result are \<open>None\<close> where the source leaves them empty.\<close>

record op_event =
  oeSeq :: int
  oeID :: string
  oePhase :: op_phase
  oeKind :: "op_kind option"
  oeRepo :: string
  oeAttemptKey :: string
  oeNumber :: int
  oeResult :: "op_result option"
  oeRef :: string

record repo_init =
  riRepo :: string
  riRepoID :: int

record lang_wait =
  lwRepo :: string
  lwBaseBranch :: string
  lwLockPath :: string
  lwInputFingerprint :: string
  lwKind :: string
  lwCount :: int

abbreviation chainStoppedKind :: string where "chainStoppedKind \<equiv> ''chain_stopped''"

definition isStop :: "lang_wait \<Rightarrow> bool" where
  "isStop w \<longleftrightarrow> lwKind w = chainStoppedKind"

definition equalFold :: "string \<Rightarrow> string \<Rightarrow> bool" where
  "equalFold a b \<longleftrightarrow> toLower a = toLower b"

definition sameItem :: "lang_wait \<Rightarrow> string \<Rightarrow> string \<Rightarrow> string \<Rightarrow> string \<Rightarrow> bool" where
  "sameItem w repo base lock fingerprint \<longleftrightarrow>
     lwInputFingerprint w = fingerprint \<and> lwBaseBranch w = base \<and> lwLockPath w = lock \<and> equalFold (lwRepo w) repo"

record store_file =
  sfVersion :: int
  sfRepos :: "repo_init list"
  sfPRs :: "pr_record list"
  sfAttempts :: "attempt_record list"
  sfOperations :: "op_event list"
  sfNextSeq :: int
  sfDeliveredSeq :: int
  sfLangWaits :: "lang_wait list"

definition PRStoreVersion :: int where "PRStoreVersion = 1"

definition maxOperationEvents :: nat where "maxOperationEvents = 1000"

subsection \<open>Validity\<close>

fun opsInOrder :: "int \<Rightarrow> int \<Rightarrow> op_event list \<Rightarrow> bool" where
  "opsInOrder nextSeq lst [] = True"
| "opsInOrder nextSeq lst (op # ops) =
     (if oeSeq op \<le> lst \<or> oeSeq op \<ge> nextSeq \<or> oeID op = '''' then False else opsInOrder nextSeq (oeSeq op) ops)"

definition waitKey :: "lang_wait \<Rightarrow> string \<times> string \<times> string \<times> string \<times> bool" where
  "waitKey w = (toLower (lwRepo w), lwBaseBranch w, lwLockPath w, lwInputFingerprint w, isStop w)"

definition langWaitKinds :: "string list" where
  "langWaitKinds = [''release_age'', ''budget_containers'', ''budget_lookups'', ''budget_bytes'', ''budget_time'', chainStoppedKind]"

fun waitsOk :: "(string \<times> string \<times> string \<times> string \<times> bool) list \<Rightarrow> lang_wait list \<Rightarrow> bool" where
  "waitsOk seen [] = True"
| "waitsOk seen (w # ws) =
     (if lwRepo w = '''' \<or> lwLockPath w = '''' \<or> lwInputFingerprint w = '''' then False
      else if lwKind w \<notin> set langWaitKinds then False
      else if waitKey w \<in> set seen then False
      else waitsOk (waitKey w # seen) ws)"

definition deliveredOk :: "store_file \<Rightarrow> bool" where
  "deliveredOk f \<longleftrightarrow> \<not> (sfDeliveredSeq f < 0 \<or> sfDeliveredSeq f > 0 \<and> sfDeliveredSeq f \<ge> sfNextSeq f)"

definition validate :: "store_file \<Rightarrow> bool" where
  "validate f \<longleftrightarrow>
     opsInOrder (sfNextSeq f) 0 (sfOperations f)
     \<and> deliveredOk f
     \<and> list_all (\<lambda>r. \<not> (prNumber r \<le> 0 \<or> prUpdateKey r = '''' \<or> prRepo r = '''')) (sfPRs f)
     \<and> list_all (\<lambda>a. \<not> (atAttemptKey a = '''' \<or> atUpdateKey a = '''' \<or> atRepo a = '''')) (sfAttempts f)
     \<and> waitsOk [] (sfLangWaits f)"

subsection \<open>The operation log\<close>

definition unsettledAttemptKeys :: "store_file \<Rightarrow> string list" where
  "unsettledAttemptKeys f =
     map atAttemptKey (filter (\<lambda>a. \<not> settled (atStatus a)) (sfAttempts f))
     @ concat (map (\<lambda>r. map (\<lambda>_. prAttemptKey r) (filter (\<lambda>rp. \<not> terminal rp) (prReplacing r))) (sfPRs f))"

definition removable :: "store_file \<Rightarrow> op_event \<Rightarrow> bool" where
  "removable f op \<longleftrightarrow> oeSeq op \<le> sfDeliveredSeq f \<and> (oeAttemptKey op = '''' \<or> oeAttemptKey op \<notin> set (unsettledAttemptKeys f))"

fun trimLoop :: "store_file \<Rightarrow> int \<Rightarrow> op_event list \<Rightarrow> op_event list \<times> int" where
  "trimLoop f excess [] = ([], excess)"
| "trimLoop f excess (op # ops) =
     (if excess > 0 \<and> removable f op then trimLoop f (excess - 1) ops
      else let (out, e) = trimLoop f excess ops in (op # out, e))"

text \<open>\<open>trimOperations\<close>: the file with the trimmed log, and whether \<open>room\<close> more events fit.\<close>

definition trimOperations :: "nat \<Rightarrow> store_file \<Rightarrow> store_file \<times> bool" where
  "trimOperations room f =
     (let excess = int (length (sfOperations f)) + int room - int maxOperationEvents in
      if excess \<le> 0 then (f, True)
      else let (out, e) = trimLoop f excess (sfOperations f) in (f\<lparr>sfOperations := out\<rparr>, e \<le> 0))"

definition undelivered :: "store_file \<Rightarrow> op_event list \<times> int" where
  "undelivered f =
     (let out = filter (\<lambda>op. oeSeq op > sfDeliveredSeq f) (sfOperations f) in
      (out, if out = [] then 0 else oeSeq (last out)))"

text \<open>
  \<open>MarkPROperationsDelivered\<close> on the answers of the store: the lock, the file that is loaded (\<open>None\<close>
  for none) and the file that is saved, if one is.
\<close>

definition MarkPROperationsDelivered :: "int \<Rightarrow> 'e option \<Rightarrow> 'e + store_file option \<Rightarrow> 'e option \<times> store_file option" where
  "MarkPROperationsDelivered seq lockErr loaded =
     (if seq \<le> 0 then (None, None)
      else case lockErr of
        Some e \<Rightarrow> (Some e, None)
      | None \<Rightarrow>
         (case loaded of
            Inl e \<Rightarrow> (Some e, None)
          | Inr None \<Rightarrow> (None, None)
          | Inr (Some f) \<Rightarrow>
             (let seq = (if seq \<ge> sfNextSeq f then sfNextSeq f - 1 else seq) in
              if seq \<le> sfDeliveredSeq f then (None, None) else (None, Some (f\<lparr>sfDeliveredSeq := seq\<rparr>)))))"

subsection \<open>Trimming drops delivered events of settled attempts, oldest first\<close>

lemma trimLoop_split:
  "\<exists>a b. ops = a @ b \<and> fst (trimLoop f e ops) = filter (\<lambda>op. \<not> removable f op) a @ b
     \<and> snd (trimLoop f e ops) = e - int (length (filter (removable f) a))
     \<and> (snd (trimLoop f e ops) > 0 \<longrightarrow> b = []) \<and> (0 \<le> e \<longrightarrow> 0 \<le> snd (trimLoop f e ops))"
proof (induction f e ops rule: trimLoop.induct)
  case (1 f e)
  then show ?case by simp
next
  case (2 f e op ops)
  show ?case
  proof (cases "e > 0")
    case True
    then have "\<exists>a b. ops = a @ b \<and> fst (trimLoop f e' ops) = filter (\<lambda>op. \<not> removable f op) a @ b
        \<and> snd (trimLoop f e' ops) = e' - int (length (filter (removable f) a))
        \<and> (snd (trimLoop f e' ops) > 0 \<longrightarrow> b = []) \<and> 0 \<le> snd (trimLoop f e' ops)"
      if "e' = (if removable f op then e - 1 else e)" for e' using 2 that by (cases "removable f op") auto
    then obtain a b where "ops = a @ b"
      "fst (trimLoop f (if removable f op then e - 1 else e) ops) = filter (\<lambda>op. \<not> removable f op) a @ b"
      "snd (trimLoop f (if removable f op then e - 1 else e) ops) = (if removable f op then e - 1 else e) - int (length (filter (removable f) a))"
      "snd (trimLoop f (if removable f op then e - 1 else e) ops) > 0 \<longrightarrow> b = []"
      "0 \<le> snd (trimLoop f (if removable f op then e - 1 else e) ops)" by blast
    then show ?thesis using True
      by (intro exI [of _ "op # a"] exI [of _ b]) (auto simp: case_prod_beta split: if_splits)
  next
    case False
    have "trimLoop f e us = (us, e)" for us using False by (induction us) auto
    then show ?thesis using False by (intro exI [of _ "[]"] exI [of _ "op # ops"]) auto
  qed
qed

lemma opsInOrder_mono: "opsInOrder n l ops \<Longrightarrow> l' \<le> l \<Longrightarrow> n \<le> n' \<Longrightarrow> opsInOrder n' l' ops"
  by (induction n l ops arbitrary: l' rule: opsInOrder.induct) (auto split: if_splits)

lemma opsInOrder_filter: "opsInOrder n l ops \<Longrightarrow> opsInOrder n l (filter P ops)"
  by (induction n l ops rule: opsInOrder.induct) (auto split: if_splits intro: opsInOrder_mono)

lemma opsInOrder_append:
  "opsInOrder n l (a @ b) \<longleftrightarrow> opsInOrder n l a \<and> opsInOrder n (if a = [] then l else oeSeq (last a)) b"
  by (induction n l a rule: opsInOrder.induct) (auto split: if_splits)

lemma opsInOrder_last: "opsInOrder n l ops \<Longrightarrow> ops \<noteq> [] \<Longrightarrow> l < oeSeq (last ops) \<and> oeSeq (last ops) < n"
  by (induction n l ops rule: opsInOrder.induct) (auto split: if_splits)

lemma opsInOrder_keep:
  assumes "opsInOrder n l (a @ b)"
  shows "opsInOrder n l (filter P a @ b)"
proof -
  have a: "opsInOrder n l (filter P a)" using assms opsInOrder_filter opsInOrder_append by blast
  have "(if filter P a = [] then l else oeSeq (last (filter P a))) \<le> (if a = [] then l else oeSeq (last a))"
    using assms
  proof (induction a arbitrary: l)
    case (Cons x a)
    then have "opsInOrder n (oeSeq x) (a @ b)" "l < oeSeq x" by (auto split: if_splits)
    with Cons.IH [of "oeSeq x"] show ?case by (auto split: if_splits)
  qed simp
  then show ?thesis using assms a opsInOrder_mono by (auto simp: opsInOrder_append)
qed

lemma trimOperations_file: "fst (trimOperations room f) = f\<lparr>sfOperations := sfOperations (fst (trimOperations room f))\<rparr>"
  by (simp add: trimOperations_def Let_def case_prod_beta)

lemma trimOperations_fields [simp]:
  "sfNextSeq (fst (trimOperations room f)) = sfNextSeq f" "sfDeliveredSeq (fst (trimOperations room f)) = sfDeliveredSeq f"
  "sfPRs (fst (trimOperations room f)) = sfPRs f" "sfAttempts (fst (trimOperations room f)) = sfAttempts f"
  "sfRepos (fst (trimOperations room f)) = sfRepos f" "sfLangWaits (fst (trimOperations room f)) = sfLangWaits f"
  by (simp_all add: trimOperations_def Let_def case_prod_beta)

lemma trimOperations_split:
  "\<exists>a b. sfOperations f = a @ b \<and> sfOperations (fst (trimOperations room f)) = filter (\<lambda>op. \<not> removable f op) a @ b
     \<and> (snd (trimOperations room f) \<longleftrightarrow> length (sfOperations (fst (trimOperations room f))) + room \<le> maxOperationEvents)
     \<and> (\<not> snd (trimOperations room f) \<longrightarrow> b = [])
     \<and> (filter (removable f) a \<noteq> [] \<longrightarrow> length (sfOperations (fst (trimOperations room f))) + room \<ge> maxOperationEvents)"
proof (cases "int (length (sfOperations f)) + int room - int maxOperationEvents \<le> 0")
  case True
  then show ?thesis by (intro exI [of _ "[]"] exI [of _ "sfOperations f"]) (auto simp: trimOperations_def)
next
  case False
  let ?e = "int (length (sfOperations f)) + int room - int maxOperationEvents"
  obtain a b where ab: "sfOperations f = a @ b"
    "fst (trimLoop f ?e (sfOperations f)) = filter (\<lambda>op. \<not> removable f op) a @ b"
    "snd (trimLoop f ?e (sfOperations f)) = ?e - int (length (filter (removable f) a))"
    "snd (trimLoop f ?e (sfOperations f)) > 0 \<longrightarrow> b = []" "0 \<le> ?e \<longrightarrow> 0 \<le> snd (trimLoop f ?e (sfOperations f))"
    using trimLoop_split by blast
  have "length (filter (removable f) a) + length (filter (\<lambda>op. \<not> removable f op) a) = length a" by (rule sum_length_filter_compl)
  then have len: "length (a @ b) = length (filter (removable f) a) + length (filter (\<lambda>op. \<not> removable f op) a @ b)" by simp
  have trim: "fst (trimOperations room f) = f\<lparr>sfOperations := filter (\<lambda>op. \<not> removable f op) a @ b\<rparr>"
    "snd (trimOperations room f) \<longleftrightarrow> ?e - int (length (filter (removable f) a)) \<le> 0"
    using False ab(2,3) by (simp_all add: trimOperations_def Let_def case_prod_beta)
  show ?thesis unfolding trim
    using ab(1,4,5) len False unfolding ab(3) by (intro exI [of _ a] exI [of _ b]) auto
qed

lemma trimOperations_valid: "opsInOrder (sfNextSeq f) 0 (sfOperations f) \<Longrightarrow> opsInOrder (sfNextSeq f) 0 (sfOperations (fst (trimOperations room f)))"
  using trimOperations_split [of f room] opsInOrder_keep by metis

lemma trimOperations_keeps:
  "op \<in> set (sfOperations f) \<Longrightarrow> \<not> removable f op \<Longrightarrow> op \<in> set (sfOperations (fst (trimOperations room f)))"
  using trimOperations_split [of f room] by auto

lemma last_trimOperations:
  assumes "sfOperations f \<noteq> []" "\<not> removable f (last (sfOperations f))"
  shows "sfOperations (fst (trimOperations room f)) \<noteq> []" "last (sfOperations (fst (trimOperations room f))) = last (sfOperations f)"
proof -
  obtain a b where ab: "sfOperations f = a @ b" "sfOperations (fst (trimOperations room f)) = filter (\<lambda>op. \<not> removable f op) a @ b"
    using trimOperations_split [of f room] by blast
  have "filter (\<lambda>op. \<not> removable f op) a \<noteq> [] \<and> last (filter (\<lambda>op. \<not> removable f op) a) = last a" if "b = []"
    using assms ab that by (cases a rule: rev_cases) auto
  then show "sfOperations (fst (trimOperations room f)) \<noteq> []" "last (sfOperations (fst (trimOperations room f))) = last (sfOperations f)"
    using ab by (cases "b = []"; simp)+
qed

text \<open>
  C31. Making room in the operation log removes only events that were delivered and belong to no
  unsettled attempt, the oldest of them, and never more than needed: the log is cut into an older part,
  from which exactly the removable events are gone, and a newer part that is untouched. The answer says
  whether the room is there, it is refused only when no removable event is left, nothing else of the
  file changes, and a valid file stays valid.
\<close>

theorem trimOperations_exact:
  fixes f :: store_file and room :: nat
  defines "g \<equiv> fst (trimOperations room f)" and "fits \<equiv> snd (trimOperations room f)"
  shows "(\<exists>a b. sfOperations f = a @ b \<and> g = f\<lparr>sfOperations := filter (\<lambda>op. \<not> removable f op) a @ b\<rparr>
       \<and> (filter (removable f) a \<noteq> [] \<longrightarrow> length (sfOperations g) + room \<ge> maxOperationEvents)
       \<and> (fits \<longleftrightarrow> length (sfOperations g) + room \<le> maxOperationEvents) \<and> (\<not> fits \<longrightarrow> b = []))
     \<and> (validate f \<longrightarrow> validate g)"
proof
  show "\<exists>a b. sfOperations f = a @ b \<and> g = f\<lparr>sfOperations := filter (\<lambda>op. \<not> removable f op) a @ b\<rparr>
       \<and> (filter (removable f) a \<noteq> [] \<longrightarrow> length (sfOperations g) + room \<ge> maxOperationEvents)
       \<and> (fits \<longleftrightarrow> length (sfOperations g) + room \<le> maxOperationEvents) \<and> (\<not> fits \<longrightarrow> b = [])"
    using trimOperations_split [of f room] trimOperations_file [of room f] unfolding g_def fits_def by metis
  show "validate f \<longrightarrow> validate g" by (auto simp: g_def validate_def deliveredOk_def trimOperations_valid)
qed

definition sampleEvent :: "int \<Rightarrow> op_event" where
  "sampleEvent n = \<lparr>oeSeq = n, oeID = ''op'', oePhase = PhaseIntent, oeKind = Some OpCreateRef, oeRepo = ''o/r'',
     oeAttemptKey = '''', oeNumber = 0, oeResult = None, oeRef = ''''\<rparr>"

definition sampleFile :: store_file where
  "sampleFile = \<lparr>sfVersion = 1, sfRepos = [], sfPRs = [], sfAttempts = [], sfOperations = map sampleEvent [1, 2, 3],
     sfNextSeq = 4, sfDeliveredSeq = 2, sfLangWaits = []\<rparr>"

theorem trimOperations_exact_witness:
  "validate (fst (trimOperations 998 sampleFile)) \<and>
   fst (trimOperations 998 sampleFile) = sampleFile\<lparr>sfOperations := map sampleEvent [2, 3]\<rparr> \<and> snd (trimOperations 998 sampleFile)"
proof -
  have "validate sampleFile" "fst (trimOperations 998 sampleFile) = sampleFile\<lparr>sfOperations := map sampleEvent [2, 3]\<rparr>"
    "snd (trimOperations 998 sampleFile)" by code_simp+
  then show ?thesis using trimOperations_exact [of sampleFile 998] by auto
qed

end
