(* ===== verification/PR_Run.thy ===== *)
theory PR_Run
  imports PR_Store "HOL-Library.State_Monad"
begin

section \<open>One run of the pull request stage: its state and its primitives\<close>

text \<open>
  The state of \<open>prRun\<close> (\<open>internal/remediation/pr_stage.go\<close>) and the operations every step of the stage is
  built from: saving the records, logging an operation, one external write, ending the run, reading
  listings page by page. The code threads the run through all its methods, so they are written in the
  state monad. GitHub, the registry, the file store and the clock of the context are the environment
  \<open>pr_env\<close>, functions of the number of events so far, so that every answer may depend on everything
  that happened before; \<open>evDecodeMarker\<close> is the JSON decoding of the one marker of a text and
  \<open>evHasSupersede\<close> and \<open>evSupersededBy\<close> that of the markers of a comment. The run keeps a trace of what it
  did to the outside: reads, saves with the file handed to the store, and writes with their error. Loops over
  pages are bounded by the page cap.
\<close>

subsection \<open>Errors and data of GitHub\<close>

text \<open>An error is what \<open>errors.Is\<close> finds in its chain; it may be several of these at once.\<close>

datatype err_class =
    ErrCanceled | ErrDeadlineExceeded | ErrTimeout | ErrRateLimited | ErrBudgetExhausted | ErrByteBudgetExhausted
  | ErrOutcomeUnknown | ErrRefExists | ErrNotFound | ErrNotRegularFile | ErrLFSPointer | ErrTooLarge | ErrStatus
  | ErrWritesStopped

type_synonym go_error = "err_class list"

definition errIs :: "go_error \<Rightarrow> err_class \<Rightarrow> bool" where
  "errIs e c \<longleftrightarrow> c \<in> set e"

record repo_info =
  giID :: int
  giFullName :: string

record commit_info =
  cmTree :: string
  cmParents :: "string list"

record pull_request =
  puNumber :: int
  puState :: string
  puMerged :: bool
  puBody :: string
  puHeadRef :: string
  puHeadSHA :: string
  puHeadRepoFullName :: string
  puBaseRef :: string
  puBaseRepoID :: int

record github_file =
  gfSHA :: string
  gfContent :: string
  gfMode :: string

text \<open>The reads of the stage and its writes, with their arguments.\<close>

datatype gh_read =
    ReadRepository string
  | ReadCommit string string
  | ReadRef string string
  | ReadPulls string string string nat
  | ReadComments string int nat
  | ReadBranch string string
  | ReadFile string string string
  | ReadDirectory string string string
  | ResolveTag string string

datatype gh_write =
    CreateBlob string string
  | CreateTree string string "file_change list"
  | CreateCommit string string string "string list"
  | CreateRef string string string
  | CreatePull string string string string string
  | CreateIssueComment string int int string
  | ClosePull string int

datatype pr_event =
    Read gh_read
  | PullRead string int "go_error + pull_request"
  | Checked
  | Saved store_file bool
  | Sent gh_write "go_error option"

record pr_env =
  evRepository :: "nat \<Rightarrow> string \<Rightarrow> go_error + repo_info"
  evCommit :: "nat \<Rightarrow> string \<Rightarrow> string \<Rightarrow> go_error + commit_info"
  evRef :: "nat \<Rightarrow> string \<Rightarrow> string \<Rightarrow> go_error + string option"
  evListPulls :: "nat \<Rightarrow> string \<Rightarrow> string \<Rightarrow> string \<Rightarrow> nat \<Rightarrow> go_error + pull_request list \<times> bool"
  evPull :: "nat \<Rightarrow> string \<Rightarrow> int \<Rightarrow> go_error + pull_request"
  evListIssueComments :: "nat \<Rightarrow> string \<Rightarrow> int \<Rightarrow> nat \<Rightarrow> go_error + string list \<times> bool"
  evSend :: "nat \<Rightarrow> gh_write \<Rightarrow> go_error + string"
  evCreatePull :: "nat \<Rightarrow> gh_write \<Rightarrow> go_error + pull_request"
  evResolveBranch :: "nat \<Rightarrow> string \<Rightarrow> string \<Rightarrow> go_error + string"
  evReadFile :: "nat \<Rightarrow> string \<Rightarrow> string \<Rightarrow> string \<Rightarrow> go_error + github_file"
  evListDirectory :: "(nat \<Rightarrow> string \<Rightarrow> string \<Rightarrow> string \<Rightarrow> go_error + string list) option"
  evResolve :: "nat \<Rightarrow> string \<Rightarrow> string \<Rightarrow> platform \<Rightarrow> go_error + string"
  evSave :: "nat \<Rightarrow> store_file \<Rightarrow> go_error option"
  evCtxErr :: "nat \<Rightarrow> go_error option"
  evDecodeMarker :: "string \<Rightarrow> pr_marker option"
  evHasSupersede :: "string \<Rightarrow> int \<Rightarrow> string \<Rightarrow> bool"
  evSupersededBy :: "string \<Rightarrow> int"
  evHash :: key_hash
  evBlobSHA :: "string \<Rightarrow> string"
  evMaxListPages :: nat
  evNewPRsPerCycle :: nat
  evOpenPRs :: nat

subsection \<open>The state of a run\<close>

abbreviation ReasonStorageFailed :: string where "ReasonStorageFailed \<equiv> ''storage_failed''"
abbreviation ReasonStorageFull :: string where "ReasonStorageFull \<equiv> ''storage_full''"
abbreviation ReasonWriteOutcomeUnknown :: string where "ReasonWriteOutcomeUnknown \<equiv> ''write_outcome_unknown''"
abbreviation ReasonCycleDeadline :: string where "ReasonCycleDeadline \<equiv> ''cycle_deadline''"
abbreviation ReasonGitHubRateLimited :: string where "ReasonGitHubRateLimited \<equiv> ''github_rate_limited''"
abbreviation ReasonGitHubBudget :: string where "ReasonGitHubBudget \<equiv> ''github_budget_exhausted''"
abbreviation ReasonReconcileFailed :: string where "ReasonReconcileFailed \<equiv> ''reconciliation_failed''"
abbreviation ReasonRepositoryMismatch :: string where "ReasonRepositoryMismatch \<equiv> ''repository_mismatch''"
abbreviation ReasonRecordsUnverified :: string where "ReasonRecordsUnverified \<equiv> ''records_unverified''"
abbreviation ReasonBranchNotOurs :: string where "ReasonBranchNotOurs \<equiv> ''branch_not_ours''"
abbreviation ReasonAttemptUnsettled :: string where "ReasonAttemptUnsettled \<equiv> ''attempt_unsettled''"
abbreviation ReasonStoreLocked :: string where "ReasonStoreLocked \<equiv> ''store_locked''"

datatype unit_status =
    PRStatusNone | PRStatusCreated | PRStatusOpen | PRStatusMerged | PRStatusSuppressed | PRStatusManual | PRStatusDeferred
  | PRStatusFailed | PRStatusWriteBlocked

datatype problem_code = PRProblemWriteBlocked | PRProblemStorageFailed | PRProblemStorageFull | PRProblemRecordsUnverified

record stage_problem =
  spCode :: problem_code
  spRepo :: string
  spTarget :: string
  spReason :: string

record stop_info =
  siStatus :: unit_status
  siReason :: string

record repo_state =
  rtName :: string
  rtInfo :: repo_info
  rtOk :: bool
  rtBlocked :: string
  rtBlockedTargets :: "string list"
  rtResumable :: "string list"
  rtReconciled :: bool

record pr_run =
  rnFile :: store_file
  rnRepos :: "repo_state list"
  rnStop :: "stop_info option"
  rnHalt :: "string option"
  rnProblems :: "stage_problem list"
  rnNewPRs :: nat
  rnTrace :: "pr_event list"

type_synonym 'a prm = "(pr_run, 'a) state"

abbreviation ret :: "'a \<Rightarrow> 'a prm" where "ret \<equiv> State_Monad.return"

definition look :: "(pr_run \<Rightarrow> 'a) \<Rightarrow> 'a prm" where
  "look f = State (\<lambda>r. (f r, r))"

definition change :: "(pr_run \<Rightarrow> pr_run) \<Rightarrow> unit prm" where
  "change f = State (\<lambda>r. ((), f r))"

text \<open>A call to the outside that changes nothing there: the answer, and its place in the trace.\<close>

definition ask :: "(nat \<Rightarrow> 'a) \<Rightarrow> ('a \<Rightarrow> pr_event) \<Rightarrow> 'a prm" where
  "ask f e = State (\<lambda>r. let a = f (length (rnTrace r)) in (a, r\<lparr>rnTrace := rnTrace r @ [e a]\<rparr>))"

definition owner :: "repo_state \<Rightarrow> string" where
  "owner rs = (case indexByte (giFullName (rtInfo rs)) (CHR ''/'') of
     None \<Rightarrow> giFullName (rtInfo rs) | Some i \<Rightarrow> take i (giFullName (rtInfo rs)))"

definition writable :: "repo_state \<Rightarrow> bool" where
  "writable rs \<longleftrightarrow> rtOk rs \<and> rtBlocked rs = '''' \<and> rtReconciled rs"

definition modFile :: "(store_file \<Rightarrow> store_file) \<Rightarrow> unit prm" where
  "modFile f = change (\<lambda>r. r\<lparr>rnFile := f (rnFile r)\<rparr>)"

definition modRepo :: "nat \<Rightarrow> (repo_state \<Rightarrow> repo_state) \<Rightarrow> unit prm" where
  "modRepo i f = change (\<lambda>r. r\<lparr>rnRepos := (rnRepos r)[i := f (rnRepos r ! i)]\<rparr>)"

definition modPR :: "nat \<Rightarrow> (pr_record \<Rightarrow> pr_record) \<Rightarrow> unit prm" where
  "modPR i f = modFile (\<lambda>s. s\<lparr>sfPRs := (sfPRs s)[i := f (sfPRs s ! i)]\<rparr>)"

definition modAttempt :: "nat \<Rightarrow> (attempt_record \<Rightarrow> attempt_record) \<Rightarrow> unit prm" where
  "modAttempt i f = modFile (\<lambda>s. s\<lparr>sfAttempts := (sfAttempts s)[i := f (sfAttempts s ! i)]\<rparr>)"

definition addPR :: "pr_record \<Rightarrow> unit prm" where
  "addPR rec = modFile (\<lambda>s. s\<lparr>sfPRs := sfPRs s @ [rec]\<rparr>)"

abbreviation lookRepo :: "nat \<Rightarrow> repo_state prm" where "lookRepo i \<equiv> look (\<lambda>r. rnRepos r ! i)"
abbreviation lookPR :: "nat \<Rightarrow> pr_record prm" where "lookPR i \<equiv> look (\<lambda>r. sfPRs (rnFile r) ! i)"
abbreviation lookAttempt :: "nat \<Rightarrow> attempt_record prm" where "lookAttempt i \<equiv> look (\<lambda>r. sfAttempts (rnFile r) ! i)"

subsection \<open>Problems and blocks\<close>

definition problem :: "stage_problem \<Rightarrow> unit prm" where
  "problem p = change (\<lambda>r.
     if list_ex (\<lambda>h. spCode h = spCode p \<and> spRepo h = spRepo p \<and> spTarget h = spTarget p) (rnProblems r) then r
     else r\<lparr>rnProblems := rnProblems r @ [p]\<rparr>)"

definition blockRepo :: "nat \<Rightarrow> problem_code \<Rightarrow> string \<Rightarrow> unit prm" where
  "blockRepo i code reason = do {
     modRepo i (\<lambda>rs. if rtBlocked rs = '''' then rs\<lparr>rtBlocked := reason\<rparr> else rs);
     rs \<leftarrow> lookRepo i;
     problem \<lparr>spCode = code, spRepo = rtName rs, spTarget = '''', spReason = reason\<rparr>
   }"

definition targetName :: "string \<Rightarrow> string list \<Rightarrow> string" where
  "targetName path locations = path @ '' ('' @ joinWith '', '' locations @ '')''"

definition blockTarget :: "nat \<Rightarrow> attempt_record \<Rightarrow> string \<Rightarrow> unit prm" where
  "blockTarget i a reason = do {
     modRepo i (\<lambda>rs. rs\<lparr>rtBlockedTargets := atTargetKey a # rtBlockedTargets rs\<rparr>);
     rs \<leftarrow> lookRepo i;
     problem \<lparr>spCode = PRProblemWriteBlocked, spRepo = rtName rs, spTarget = targetName (atPath a) (atLocations a), spReason = reason\<rparr>
   }"

definition storageStopped :: "pr_run \<Rightarrow> bool" where
  "storageStopped r \<longleftrightarrow> (case rnStop r of None \<Rightarrow> False | Some s \<Rightarrow> siReason s = ReasonStorageFailed)"

definition inactiveReason :: "pr_run \<Rightarrow> string" where
  "inactiveReason r = (case rnHalt r of
       Some h \<Rightarrow> h
     | None \<Rightarrow> (case rnStop r of Some s \<Rightarrow> siReason s | None \<Rightarrow> ReasonReconcileFailed))"

subsection \<open>Saving and logging\<close>

definition storageFailed :: "unit prm" where
  "storageFailed = do {
     change (\<lambda>r. if rnStop r = None \<or> \<not> storageStopped r
       then r\<lparr>rnStop := Some \<lparr>siStatus = PRStatusWriteBlocked, siReason = ReasonStorageFailed\<rparr>\<rparr> else r);
     problem \<lparr>spCode = PRProblemStorageFailed, spRepo = '''', spTarget = '''', spReason = ReasonStorageFailed\<rparr>
   }"

definition save :: "pr_env \<Rightarrow> bool prm" where
  "save env = do {
     stopped \<leftarrow> look storageStopped;
     if stopped then ret False
     else do {
       modFile (\<lambda>f. fst (trimOperations 0 f));
       f \<leftarrow> look rnFile;
       err \<leftarrow> ask (\<lambda>n. evSave env n f) (\<lambda>err. Saved f (err = None));
       if err \<noteq> None then do { storageFailed; ret False } else ret True
     }
   }"

definition reserve :: "nat \<Rightarrow> bool prm" where
  "reserve n = do {
     fits \<leftarrow> look (\<lambda>r. snd (trimOperations n (rnFile r)));
     modFile (\<lambda>f. fst (trimOperations n f));
     if fits then ret True
     else do {
       change (\<lambda>r. if rnStop r = None then r\<lparr>rnStop := Some \<lparr>siStatus = PRStatusWriteBlocked, siReason = ReasonStorageFull\<rparr>\<rparr> else r);
       problem \<lparr>spCode = PRProblemStorageFull, spRepo = '''', spTarget = '''', spReason = ReasonStorageFull\<rparr>;
       ret False
     }
   }"

definition logged :: "op_event \<Rightarrow> store_file \<Rightarrow> op_event" where
  "logged ev f =
     (let seq = (if sfNextSeq f < 1 then 1 else sfNextSeq f) in
      ev\<lparr>oeSeq := seq, oeID := (if oeID ev = '''' then ''op-'' @ itoa (nat seq) else oeID ev)\<rparr>)"

definition appendEvent :: "op_event \<Rightarrow> store_file \<Rightarrow> store_file" where
  "appendEvent ev f =
     f\<lparr>sfNextSeq := (if sfNextSeq f < 1 then 1 else sfNextSeq f) + 1, sfOperations := sfOperations f @ [logged ev f]\<rparr>"

definition event :: "op_event \<Rightarrow> op_event prm" where
  "event ev = do {
     e \<leftarrow> look (\<lambda>r. logged ev (rnFile r));
     modFile (appendEvent ev);
     ret e
   }"

definition zeroEvent :: op_event where
  "zeroEvent = \<lparr>oeSeq = 0, oeID = '''', oePhase = PhaseIntent, oeKind = None, oeRepo = '''', oeAttemptKey = '''', oeNumber = 0,
     oeResult = None, oeRef = ''''\<rparr>"

definition settle :: "string \<Rightarrow> op_result \<Rightarrow> unit prm" where
  "settle opID result =
     (if opID = '''' then ret ()
      else do {
        orig \<leftarrow> look (\<lambda>r. find (\<lambda>op. oeID op = opID) (sfOperations (rnFile r)));
        let ev = zeroEvent\<lparr>oeID := opID, oePhase := PhaseSettled, oeResult := Some result\<rparr>;
        event (case orig of None \<Rightarrow> ev
          | Some op \<Rightarrow> ev\<lparr>oeKind := oeKind op, oeRepo := oeRepo op, oeAttemptKey := oeAttemptKey op, oeNumber := oeNumber op\<rparr>);
        ret ()
      })"

definition opKindOf :: "string \<Rightarrow> pr_run \<Rightarrow> op_kind option" where
  "opKindOf opID r = (case find (\<lambda>op. oeID op = opID) (sfOperations (rnFile r)) of None \<Rightarrow> None | Some op \<Rightarrow> oeKind op)"

subsection \<open>Ending the run\<close>

definition checkCtx :: "pr_env \<Rightarrow> go_error option prm" where
  "checkCtx env = ask (evCtxErr env) (\<lambda>_. Checked)"

definition setHalt :: "string \<Rightarrow> unit prm" where
  "setHalt reason = change (\<lambda>r. if rnHalt r = None then r\<lparr>rnHalt := Some reason\<rparr> else r)"

definition haltFor :: "pr_env \<Rightarrow> go_error \<Rightarrow> bool prm" where
  "haltFor env err = do {
     deadline \<leftarrow> (if errIs err ErrCanceled \<or> errIs err ErrDeadlineExceeded then ret True
       else if errIs err ErrTimeout then do { e \<leftarrow> checkCtx env; ret (e \<noteq> None) }
       else ret False);
     if deadline then do { setHalt ReasonCycleDeadline; ret True }
     else if errIs err ErrRateLimited then do { setHalt ReasonGitHubRateLimited; ret True }
     else if errIs err ErrBudgetExhausted then do { setHalt ReasonGitHubBudget; ret True }
     else ret False
   }"

definition active :: "pr_env \<Rightarrow> bool prm" where
  "active env = do {
     h \<leftarrow> look rnHalt;
     (if h = None then do {
        e \<leftarrow> checkCtx env;
        case e of None \<Rightarrow> ret () | Some err \<Rightarrow> do { haltFor env err; ret () }
      } else ret ());
     look (\<lambda>r. rnHalt r = None \<and> \<not> storageStopped r)
   }"

definition canWrite :: "pr_env \<Rightarrow> nat \<Rightarrow> bool prm" where
  "canWrite env i = do {
     a \<leftarrow> active env;
     look (\<lambda>r. a \<and> rnStop r = None \<and> writable (rnRepos r ! i))
   }"

subsection \<open>One external write\<close>

definition kindOfWrite :: "gh_write \<Rightarrow> op_kind" where
  "kindOfWrite w = (case w of
     CreateBlob _ _ \<Rightarrow> OpCreateBlob | CreateTree _ _ _ \<Rightarrow> OpCreateTree | CreateCommit _ _ _ _ \<Rightarrow> OpCreateCommit
   | CreateRef _ _ _ \<Rightarrow> OpCreateRef | CreatePull _ _ _ _ _ \<Rightarrow> OpCreatePull | CreateIssueComment _ _ _ _ \<Rightarrow> OpCreateComment
   | ClosePull _ _ \<Rightarrow> OpClosePull)"

definition errOf :: "go_error + 'a \<Rightarrow> go_error option" where
  "errOf ans = (case ans of Inl e \<Rightarrow> Some e | Inr _ \<Rightarrow> None)"

text \<open>
  \<open>write\<close> (here \<open>write_op\<close>): \<open>fn\<close> is the request, \<open>refOf\<close> what the operation records of its answer. The result is the
  operation's identifier and the answer.
\<close>

definition write_op :: "pr_env \<Rightarrow> op_event \<Rightarrow> gh_write \<Rightarrow> (nat \<Rightarrow> go_error + 'a) \<Rightarrow> (go_error + 'a \<Rightarrow> string)
    \<Rightarrow> (string \<times> (go_error + 'a)) prm" where
  "write_op env op w fn refOf = do {
     ev \<leftarrow> event (op\<lparr>oePhase := PhaseIntent, oeKind := Some (kindOfWrite w)\<rparr>);
     ok \<leftarrow> save env;
     if \<not> ok then ret (oeID ev, Inl [ErrWritesStopped])
     else do {
       ans \<leftarrow> ask fn (\<lambda>ans. Sent w (errOf ans));
       let res = zeroEvent\<lparr>oeID := oeID ev, oePhase := PhaseResult, oeKind := Some (kindOfWrite w), oeRepo := oeRepo op,
         oeAttemptKey := oeAttemptKey op, oeNumber := oeNumber op, oeRef := refOf ans\<rparr>;
       result \<leftarrow> (case ans of
           Inr _ \<Rightarrow> ret ResultOK
         | Inl err \<Rightarrow>
             if errIs err ErrOutcomeUnknown then do {
               change (\<lambda>r. if rnStop r = None
                 then r\<lparr>rnStop := Some \<lparr>siStatus = PRStatusDeferred, siReason = ReasonWriteOutcomeUnknown\<rparr>\<rparr> else r);
               ret ResultUnknown
             } else do { haltFor env err; ret ResultFailed });
       event (res\<lparr>oeResult := Some result\<rparr>);
       save env;
       ret (oeID ev, ans)
     }
   }"

subsection \<open>Listings\<close>

text \<open>\<open>listAll\<close>: the pages from \<open>p\<close> on, \<open>left\<close> of them at most.\<close>

fun listAll :: "nat \<Rightarrow> nat \<Rightarrow> (nat \<Rightarrow> (go_error + 'a list \<times> bool) prm) \<Rightarrow> (go_error + 'a list) prm" where
  "listAll 0 p page = ret (Inl [])"
| "listAll (Suc left) p page = do {
     ans \<leftarrow> page p;
     case ans of
       Inl err \<Rightarrow> ret (Inl err)
     | Inr (items, nxt) \<Rightarrow>
         if \<not> nxt then ret (Inr items)
         else do {
           rest \<leftarrow> listAll left (Suc p) page;
           ret (case rest of Inl err \<Rightarrow> Inl err | Inr later \<Rightarrow> Inr (items @ later))
         }
   }"

definition listPulls :: "pr_env \<Rightarrow> nat \<Rightarrow> string \<Rightarrow> string \<Rightarrow> (go_error + pull_request list) prm" where
  "listPulls env i state head = do {
     rs \<leftarrow> lookRepo i;
     listAll (evMaxListPages env) 1
       (\<lambda>p. ask (\<lambda>n. evListPulls env n (rtName rs) state head p) (\<lambda>_. Read (ReadPulls (rtName rs) state head p)))
   }"

definition listComments :: "pr_env \<Rightarrow> nat \<Rightarrow> int \<Rightarrow> (go_error + string list) prm" where
  "listComments env i number = do {
     rs \<leftarrow> lookRepo i;
     listAll (evMaxListPages env) 1
       (\<lambda>p. ask (\<lambda>n. evListIssueComments env n (rtName rs) number p) (\<lambda>_. Read (ReadComments (rtName rs) number p)))
   }"

definition readPull :: "pr_env \<Rightarrow> string \<Rightarrow> int \<Rightarrow> (go_error + pull_request) prm" where
  "readPull env repo number = ask (\<lambda>n. evPull env n repo number) (\<lambda>ans. PullRead repo number ans)"

definition readRef :: "pr_env \<Rightarrow> string \<Rightarrow> string \<Rightarrow> (go_error + string option) prm" where
  "readRef env repo branch = ask (\<lambda>n. evRef env n repo branch) (\<lambda>_. Read (ReadRef repo branch))"

definition ours :: "repo_state \<Rightarrow> pull_request \<Rightarrow> bool" where
  "ours rs pr \<longleftrightarrow> hasPrefix (puHeadRef pr) branchPrefix \<and> equalFold (puHeadRepoFullName pr) (giFullName (rtInfo rs))"

definition pullState :: "pull_request \<Rightarrow> string" where
  "pullState pr = (if puMerged pr then PRStateMerged else if puState pr = ''closed'' then PRStateClosed else PRStateOpen)"

subsection \<open>Records\<close>

text \<open>A pointer into the records is an index; the first record that matches.\<close>

fun firstIdx :: "('a \<Rightarrow> bool) \<Rightarrow> 'a list \<Rightarrow> nat option" where
  "firstIdx P [] = None"
| "firstIdx P (x # xs) = (if P x then Some 0 else map_option Suc (firstIdx P xs))"

definition recordByNumber :: "int \<Rightarrow> int \<Rightarrow> pr_run \<Rightarrow> nat option" where
  "recordByNumber repoID number r = firstIdx (\<lambda>rec. prRepoID rec = repoID \<and> prNumber rec = number) (sfPRs (rnFile r))"

definition attemptByKey :: "string \<Rightarrow> pr_run \<Rightarrow> nat option" where
  "attemptByKey key r = firstIdx (\<lambda>a. atAttemptKey a = key) (sfAttempts (rnFile r))"

definition recordRank :: "string \<Rightarrow> nat" where
  "recordRank s = (if s = PRStateOpen then 3 else if s = PRStateMerged then 2 else 1)"

fun bestRecord :: "string \<Rightarrow> pr_record list \<Rightarrow> nat \<Rightarrow> (nat \<times> string) option \<Rightarrow> nat option" where
  "bestRecord key [] i best = map_option fst best"
| "bestRecord key (rec # recs) i best =
     bestRecord key recs (Suc i)
       (if prUpdateKey rec = key \<and> (case best of None \<Rightarrow> True | Some (_, s) \<Rightarrow> recordRank (prState rec) > recordRank s)
        then Some (i, prState rec) else best)"

definition recordByUpdateKey :: "string \<Rightarrow> pr_run \<Rightarrow> nat option" where
  "recordByUpdateKey key r = bestRecord key (sfPRs (rnFile r)) 0 None"

definition repoIdx :: "string \<Rightarrow> pr_run \<Rightarrow> nat option" where
  "repoIdx name r = firstIdx (\<lambda>rs. toLower (rtName rs) = toLower name) (rnRepos r)"

definition openCount :: "pr_run \<Rightarrow> nat" where
  "openCount r = length (filter (\<lambda>rec. prState rec = PRStateOpen
     \<and> (prRepoID rec \<in> set (map (\<lambda>rs. giID (rtInfo rs)) (filter rtOk (rnRepos r))) \<or> repoIdx (prRepo rec) r \<noteq> None)) (sfPRs (rnFile r)))"

definition recordFromAttempt :: "attempt_record \<Rightarrow> pull_request \<Rightarrow> pr_record" where
  "recordFromAttempt a pr =
     \<lparr>prRepo = atRepo a, prRepoID = atRepoID a, prKind = kindOf (atKind a), prTargetKey = atTargetKey a,
      prUpdateKey = atUpdateKey a, prAttemptKey = atAttemptKey a, prBranch = atBranch a, prNumber = puNumber pr,
      prBaseBranch = atBaseBranch a, prBaseSHA = atBaseSHA a, prHeadSHA = atCommitSHA a, prPath = atPath a,
      prLocations = atLocations a, prState = pullState pr, prReplacedBy = 0, prSupersededBy = 0, prUserModified = False,
      prFixTargets = atFixTargets a, prServices = atServices a, prCurrentRef = atCurrentRef a,
      prCandidateTag = atCandidateTag a, prCandidateDigest = atCandidateDigest a, prAffected = atAffected a,
      prReplacing = [], prRecovered = False, prMarkerOnly = False, prEvidence = atEvidence a, prInputVerified = False,
      prLang = atLang a\<rparr>"

text \<open>\<open>markModified\<close>: the record, and whether it was flagged now.\<close>

definition markModified :: "pr_record \<Rightarrow> pull_request \<Rightarrow> pr_record \<times> bool" where
  "markModified rec pr =
     (if prUserModified rec then (rec, False)
      else if puHeadSHA pr \<noteq> prHeadSHA rec \<or> puBaseRef pr \<noteq> prBaseBranch rec \<or> puBaseRepoID pr \<noteq> prRepoID rec
      then (rec\<lparr>prUserModified := True\<rparr>, True) else (rec, False))"

end
