(* ===== verification/PR_Steps.thy ===== *)
theory PR_Steps
  imports PR_Run
begin

section \<open>What a run may do\<close>

text \<open>
  The steps a run of the pull request stage is made of (\<open>prStep\<close>), the invariants of every sequence of
  them, and the calculus in which the operations of the stage are shown to make only such steps:
  \<open>quiet\<close> for operations that leave the records alone and send nothing, \<open>calm\<close> for those after which a
  write is still allowed, and \<open>hoare\<close> for the rest.
\<close>

subsection \<open>When a write is allowed\<close>

definition isSent :: "pr_event \<Rightarrow> bool" where
  "isSent e = (case e of Sent _ _ \<Rightarrow> True | _ \<Rightarrow> False)"

definition unknownSent :: "pr_event \<Rightarrow> bool" where
  "unknownSent e = (case e of Sent _ (Some err) \<Rightarrow> errIs err ErrOutcomeUnknown | _ \<Rightarrow> False)"

definition failedSave :: "pr_event \<Rightarrow> bool" where
  "failedSave e = (case e of Saved _ ok \<Rightarrow> \<not> ok | _ \<Rightarrow> False)"

definition sinceSent :: "pr_event list \<Rightarrow> pr_event list" where
  "sinceSent tr = takeWhile (\<lambda>e. \<not> isSent e) (rev tr)"

definition repoOfWrite :: "gh_write \<Rightarrow> string" where
  "repoOfWrite w = (case w of
     CreateBlob repo _ \<Rightarrow> repo | CreateTree repo _ _ \<Rightarrow> repo | CreateCommit repo _ _ _ \<Rightarrow> repo | CreateRef repo _ _ \<Rightarrow> repo
   | CreatePull repo _ _ _ _ \<Rightarrow> repo | CreateIssueComment repo _ _ _ \<Rightarrow> repo | ClosePull repo _ \<Rightarrow> repo)"

definition intentFor :: "store_file \<Rightarrow> gh_write \<Rightarrow> bool" where
  "intentFor f w \<longleftrightarrow> sfOperations f \<noteq> [] \<and>
     (let op = last (sfOperations f) in oePhase op = PhaseIntent \<and> oeKind op = Some (kindOfWrite w) \<and> oeRepo op = repoOfWrite w)"

definition asRecorded :: "pull_request \<Rightarrow> pr_record \<Rightarrow> bool" where
  "asRecorded pr rec \<longleftrightarrow> pullState pr = PRStateOpen \<and> puHeadSHA pr = prHeadSHA rec \<and> puBaseRef pr = prBaseBranch rec
     \<and> puBaseRepoID pr = prRepoID rec"

definition trusted :: "pr_record \<Rightarrow> bool" where
  "trusted rec \<longleftrightarrow> \<not> prUserModified rec \<and> \<not> prMarkerOnly rec"

definition targetUnblocked :: "store_file \<Rightarrow> pr_record \<Rightarrow> bool" where
  "targetUnblocked f rec \<longleftrightarrow>
     list_all (\<lambda>a. \<not> (atRepoID a = prRepoID rec \<and> atTargetKey a = prTargetKey rec \<and> atStatus a = AttemptBlocked)) (sfAttempts f)"

text \<open>The records of a replacement in progress, both trusted and both read as recorded since the last write.\<close>

definition pairOk :: "store_file \<Rightarrow> pr_event list \<Rightarrow> string \<Rightarrow> int \<Rightarrow> replacement_state \<Rightarrow> bool" where
  "pairOk f tr repo n st \<longleftrightarrow>
     (\<exists>rec \<in> set (sfPRs f). \<exists>old \<in> set (sfPRs f). \<exists>rp \<in> set (prReplacing rec). \<exists>npr opr.
        rpOldNumber rp = n \<and> rpState rp = st \<and> prNumber old = n \<and> prRepoID old = prRepoID rec \<and> trusted rec \<and> trusted old
        \<and> targetUnblocked f rec
        \<and> PullRead repo (prNumber rec) (Inr npr) \<in> set (sinceSent tr) \<and> asRecorded npr rec
        \<and> PullRead repo n (Inr opr) \<in> set (sinceSent tr) \<and> asRecorded opr old)"

text \<open>What the file says of a write: the attempt with the key that makes it, or the replacement.\<close>

definition coveredBy :: "store_file \<Rightarrow> string \<Rightarrow> pr_event list \<Rightarrow> gh_write \<Rightarrow> bool" where
  "coveredBy f key tr w =
     (let own = (\<lambda>P. \<exists>a \<in> set (sfAttempts f). atAttemptKey a = key \<and> \<not> settled (atStatus a) \<and> P a) in
      case w of
        CreateBlob _ _ \<Rightarrow> own (\<lambda>_. True)
      | CreateTree _ _ entries \<Rightarrow> own (\<lambda>a. entries = fileChanges a)
      | CreateCommit _ _ tree parents \<Rightarrow> own (\<lambda>a. atTreeSHA a = tree \<and> parents = [atBaseSHA a])
      | CreateRef _ branch sha \<Rightarrow> own (\<lambda>a. atBranch a = branch \<and> atCommitSHA a = sha)
      | CreatePull _ _ _ head base \<Rightarrow> own (\<lambda>a. atBranch a = head \<and> atBaseBranch a = base \<and> atStatus a = AttemptPRRequested)
      | CreateIssueComment repo n _ _ \<Rightarrow> pairOk f tr repo n ReplacementPending
      | ClosePull repo n \<Rightarrow> pairOk f tr repo n ReplacementCommented)"

abbreviation covered :: "store_file \<Rightarrow> pr_event list \<Rightarrow> gh_write \<Rightarrow> bool" where
  "covered f tr w \<equiv> coveredBy f (oeAttemptKey (last (sfOperations f))) tr w"

lemma coveredBy_cong: "sfPRs g = sfPRs f \<Longrightarrow> sfAttempts g = sfAttempts f \<Longrightarrow> coveredBy g key tr w = coveredBy f key tr w"
  by (simp add: coveredBy_def pairOk_def targetUnblocked_def cong: gh_write.case_cong)

definition sendOk :: "pr_event list \<Rightarrow> gh_write \<Rightarrow> bool" where
  "sendOk pre w \<longleftrightarrow>
     (\<exists>tr f. pre = tr @ [Saved f True] \<and> intentFor f w \<and> covered f tr w)
     \<and> \<not> list_ex unknownSent pre \<and> \<not> list_ex failedSave pre"

definition traceOk :: "pr_event list \<Rightarrow> bool" where
  "traceOk tr \<longleftrightarrow> (\<forall>pre w e post. tr = pre @ Sent w e # post \<longrightarrow> sendOk pre w)"

lemma traceOk_Nil [simp]: "traceOk []"
  by (simp add: traceOk_def)

lemma traceOk_snoc: "traceOk (tr @ [x]) \<longleftrightarrow> traceOk tr \<and> (case x of Sent w e \<Rightarrow> sendOk tr w | _ \<Rightarrow> True)"
proof -
  have "tr @ [x] = pre @ Sent w e # post \<longleftrightarrow> (post = [] \<and> pre = tr \<and> x = Sent w e) \<or> (\<exists>q. post = q @ [x] \<and> tr = pre @ Sent w e # q)"
    for pre w e post by (cases post rule: rev_cases) auto
  then show ?thesis unfolding traceOk_def by (auto split: pr_event.splits)
qed

subsection \<open>How records may change\<close>

definition replGrow :: "replacement list \<Rightarrow> replacement list \<Rightarrow> bool" where
  "replGrow xs ys \<longleftrightarrow> length xs \<le> length ys \<and>
     (\<forall>i < length xs. rpOldNumber (ys ! i) = rpOldNumber (xs ! i) \<and> (terminal (xs ! i) \<longrightarrow> ys ! i = xs ! i))"

definition prGrow :: "pr_record \<Rightarrow> pr_record \<Rightarrow> bool" where
  "prGrow a b \<longleftrightarrow>
     b = a\<lparr>prState := prState b, prReplacedBy := prReplacedBy b, prSupersededBy := prSupersededBy b, prUserModified := prUserModified b,
           prReplacing := prReplacing b, prInputVerified := prInputVerified b, prLang := prLang b\<rparr>
     \<and> (prUserModified a \<longrightarrow> prUserModified b) \<and> (prInputVerified a \<longrightarrow> prInputVerified b)
     \<and> replGrow (prReplacing a) (prReplacing b)"

definition attGrow :: "attempt_record \<Rightarrow> attempt_record \<Rightarrow> bool" where
  "attGrow a b \<longleftrightarrow> atAttemptKey b = atAttemptKey a \<and> (atStatus a = AttemptPRCreated \<longrightarrow> b = a)"

definition listGrow :: "('a \<Rightarrow> 'a \<Rightarrow> bool) \<Rightarrow> 'a list \<Rightarrow> 'a list \<Rightarrow> bool" where
  "listGrow R xs ys \<longleftrightarrow> length xs \<le> length ys \<and> (\<forall>i < length xs. R (xs ! i) (ys ! i))"

definition fileGrow :: "store_file \<Rightarrow> store_file \<Rightarrow> bool" where
  "fileGrow f g \<longleftrightarrow> listGrow prGrow (sfPRs f) (sfPRs g) \<and> listGrow attGrow (sfAttempts f) (sfAttempts g)
     \<and> sfDeliveredSeq g = sfDeliveredSeq f \<and> sfLangWaits g = sfLangWaits f"

text \<open>Appending to a list and changing one element are the two ways a list of records changes.\<close>

locale grows =
  fixes R :: "'a \<Rightarrow> 'a \<Rightarrow> bool"
  assumes R_refl: "R a a" and R_trans: "R a b \<Longrightarrow> R b c \<Longrightarrow> R a c"
begin

lemma grow_refl: "listGrow R xs xs"
  by (simp add: listGrow_def R_refl)

lemma grow_trans: "listGrow R xs ys \<Longrightarrow> listGrow R ys zs \<Longrightarrow> listGrow R xs zs"
  unfolding listGrow_def using R_trans by (metis order_trans order_less_le_trans)

lemma grow_append: "listGrow R xs (xs @ ys)"
  by (simp add: listGrow_def nth_append R_refl)

lemma grow_update: "(i < length xs \<Longrightarrow> R (xs ! i) x) \<Longrightarrow> listGrow R xs (xs[i := x])"
  unfolding listGrow_def using R_refl by (metis length_list_update nth_list_update_eq nth_list_update_neq order_refl)

end

interpretation repls: grows "\<lambda>a b. rpOldNumber b = rpOldNumber a \<and> (terminal a \<longrightarrow> b = a)"
  by unfold_locales auto

lemma replGrow_listGrow: "replGrow = listGrow (\<lambda>a b. rpOldNumber b = rpOldNumber a \<and> (terminal a \<longrightarrow> b = a))"
  by (simp add: replGrow_def listGrow_def fun_eq_iff)

interpretation pulls: grows prGrow
proof
  fix a b c
  show "prGrow a a" by (simp add: prGrow_def replGrow_listGrow repls.grow_refl)
  assume ab: "prGrow a b" and bc: "prGrow b c"
  have "replGrow (prReplacing a) (prReplacing c)"
    using ab bc repls.grow_trans unfolding prGrow_def replGrow_listGrow by blast
  moreover have "c = a\<lparr>prState := prState c, prReplacedBy := prReplacedBy c, prSupersededBy := prSupersededBy c,
      prUserModified := prUserModified c, prReplacing := prReplacing c, prInputVerified := prInputVerified c, prLang := prLang c\<rparr>"
    using ab bc unfolding prGrow_def by (cases a; cases b; cases c) simp
  ultimately show "prGrow a c" using ab bc unfolding prGrow_def by blast
qed

interpretation atts: grows attGrow
  by unfold_locales (auto simp: attGrow_def)

interpretation files: grows fileGrow
  by unfold_locales (auto simp: fileGrow_def intro: pulls.grow_refl pulls.grow_trans atts.grow_refl atts.grow_trans)

lemma prGrow_fields:
  assumes "prGrow a b"
  shows "prRepoID b = prRepoID a" "prNumber b = prNumber a" "prHeadSHA b = prHeadSHA a" "prBaseBranch b = prBaseBranch a"
    "prMarkerOnly b = prMarkerOnly a" "prUpdateKey b = prUpdateKey a" "prTargetKey b = prTargetKey a" "prAttemptKey b = prAttemptKey a"
    "prUserModified a \<Longrightarrow> prUserModified b"
  using assms unfolding prGrow_def by (cases a; cases b; simp)+

subsection \<open>Steps\<close>

inductive prStep :: "pr_run \<Rightarrow> pr_run \<Rightarrow> bool" where
  observed: "\<not> isSent e \<Longrightarrow> (\<forall>f ok. e \<noteq> Saved f ok) \<Longrightarrow> prStep r (r\<lparr>rnTrace := rnTrace r @ [e]\<rparr>)"
| saved: "\<not> storageStopped r \<Longrightarrow> prStep r (r\<lparr>rnTrace := rnTrace r @ [Saved (rnFile r) True]\<rparr>)"
| unsaved: "\<not> storageStopped r \<Longrightarrow>
    prStep r (r\<lparr>rnTrace := rnTrace r @ [Saved (rnFile r) False],
                rnStop := Some \<lparr>siStatus = PRStatusWriteBlocked, siReason = ReasonStorageFailed\<rparr>\<rparr>)"
| ended: "(rnHalt r \<noteq> None \<longrightarrow> h \<noteq> None) \<Longrightarrow> (rnStop r \<noteq> None \<longrightarrow> s = rnStop r) \<Longrightarrow> prStep r (r\<lparr>rnHalt := h, rnStop := s\<rparr>)"
| noted: "prStep r (r\<lparr>rnRepos := rs, rnProblems := ps, rnNewPRs := n\<rparr>)"
| recorded: "fileGrow (rnFile r) f \<Longrightarrow> sfOperations f = sfOperations (rnFile r) \<Longrightarrow> sfNextSeq f = sfNextSeq (rnFile r) \<Longrightarrow>
    prStep r (r\<lparr>rnFile := f\<rparr>)"
| logged: "prStep r (r\<lparr>rnFile := appendEvent ev (rnFile r)\<rparr>)"
| annotated: "sfOperations (rnFile r) = ops @ [op] \<Longrightarrow> prStep r (r\<lparr>rnFile := rnFile r\<lparr>sfOperations := ops @ [op\<lparr>oeRef := ref\<rparr>]\<rparr>\<rparr>)"
| trimmed: "prStep r (r\<lparr>rnFile := fst (trimOperations n (rnFile r))\<rparr>)"
| sent: "rnHalt r = None \<Longrightarrow> rnStop r = None \<Longrightarrow> rnTrace r = tr @ [Saved (rnFile r) True] \<Longrightarrow>
    intentFor (rnFile r) w \<Longrightarrow> covered (rnFile r) tr w \<Longrightarrow>
    prStep r (r\<lparr>rnTrace := rnTrace r @ [Sent w e],
                rnStop := if unknownSent (Sent w e) then Some \<lparr>siStatus = PRStatusDeferred, siReason = ReasonWriteOutcomeUnknown\<rparr> else None\<rparr>)"

abbreviation prog :: "pr_run \<Rightarrow> pr_run \<Rightarrow> bool" where "prog \<equiv> prStep\<^sup>*\<^sup>*"

definition runOk :: "pr_run \<Rightarrow> bool" where
  "runOk r \<longleftrightarrow> traceOk (rnTrace r) \<and> (list_ex unknownSent (rnTrace r) \<longrightarrow> rnStop r \<noteq> None)
     \<and> (list_ex failedSave (rnTrace r) \<longrightarrow> rnStop r \<noteq> None)"

lemma prStep_runOk: "prStep r r' \<Longrightarrow> runOk r \<Longrightarrow> runOk r'"
proof (induction rule: prStep.induct)
  case (observed e r)
  then show ?case by (auto simp: runOk_def traceOk_snoc unknownSent_def failedSave_def isSent_def split: pr_event.splits)
next
  case (sent r tr w e)
  then have "\<not> list_ex unknownSent (rnTrace r)" "\<not> list_ex failedSave (rnTrace r)" by (auto simp: runOk_def)
  then have "sendOk (rnTrace r) w" using sent by (auto simp: sendOk_def)
  then have "traceOk (rnTrace r @ [Sent w e])" using sent.prems by (simp add: runOk_def traceOk_snoc)
  then show ?case using sent.prems \<open>\<not> list_ex unknownSent (rnTrace r)\<close> \<open>\<not> list_ex failedSave (rnTrace r)\<close>
    by (simp add: runOk_def failedSave_def)
qed (auto simp: runOk_def traceOk_snoc unknownSent_def failedSave_def)

lemma prog_runOk: "prog r r' \<Longrightarrow> runOk r \<Longrightarrow> runOk r'"
  by (induction rule: rtranclp_induct) (auto intro: prStep_runOk)

lemma appendEvent_fields [simp]:
  "sfPRs (appendEvent ev f) = sfPRs f" "sfAttempts (appendEvent ev f) = sfAttempts f" "sfDeliveredSeq (appendEvent ev f) = sfDeliveredSeq f"
  "sfLangWaits (appendEvent ev f) = sfLangWaits f" "sfRepos (appendEvent ev f) = sfRepos f"
  "sfOperations (appendEvent ev f) = sfOperations f @ [logged ev f]"
  by (simp_all add: appendEvent_def)

lemma prStep_fileGrow: "prStep r r' \<Longrightarrow> fileGrow (rnFile r) (rnFile r')"
  by (induction rule: prStep.induct) (auto simp: fileGrow_def pulls.grow_refl atts.grow_refl)

lemma prog_fileGrow: "prog r r' \<Longrightarrow> fileGrow (rnFile r) (rnFile r')"
  by (induction rule: rtranclp_induct) (auto intro: files.R_refl files.R_trans dest: prStep_fileGrow)

text \<open>The part of the file's check that the log has to meet.\<close>

definition logOk :: "store_file \<Rightarrow> bool" where
  "logOk f \<longleftrightarrow> opsInOrder (sfNextSeq f) 0 (sfOperations f) \<and> deliveredOk f"

lemma logOk_appendEvent: "logOk f \<Longrightarrow> logOk (appendEvent ev f)"
proof -
  assume f: "logOk f"
  let ?n = "if sfNextSeq f < 1 then 1 else sfNextSeq f"
  have "(if sfOperations f = [] then 0 else oeSeq (last (sfOperations f))) < ?n"
    using f opsInOrder_last [of "sfNextSeq f" 0 "sfOperations f"] by (auto simp: logOk_def)
  moreover have "opsInOrder (?n + 1) 0 (sfOperations f)" using f opsInOrder_mono by (auto simp: logOk_def)
  ultimately have "opsInOrder (?n + 1) 0 (sfOperations f @ [logged ev f])"
    by (auto simp: opsInOrder_append logged_def Let_def)
  moreover have "deliveredOk (appendEvent ev f)" using f by (auto simp: logOk_def deliveredOk_def appendEvent_def)
  ultimately show ?thesis by (simp add: logOk_def appendEvent_def)
qed

lemma prStep_logOk: "prStep r r' \<Longrightarrow> logOk (rnFile r) \<Longrightarrow> logOk (rnFile r')"
proof (induction rule: prStep.induct)
  case (recorded r f)
  then show ?case by (auto simp: logOk_def deliveredOk_def fileGrow_def)
next
  case (annotated r ops op ref)
  then show ?case by (auto simp: logOk_def deliveredOk_def opsInOrder_append)
next
  case (trimmed r n)
  then show ?case using trimOperations_valid by (auto simp: logOk_def deliveredOk_def)
qed (auto simp: logOk_appendEvent)

lemma prog_logOk: "prog r r' \<Longrightarrow> logOk (rnFile r) \<Longrightarrow> logOk (rnFile r')"
  by (induction rule: rtranclp_induct) (auto intro: prStep_logOk)

subsection \<open>Operations that leave the records alone\<close>

named_theorems quiet \<open>operations that leave the records alone and send nothing\<close>
named_theorems calm \<open>quiet operations after which a write is still allowed\<close>

definition canSend :: "pr_run \<Rightarrow> bool" where
  "canSend r \<longleftrightarrow> rnHalt r = None \<and> (rnStop r = None \<or> storageStopped r)"

definition repoIdent :: "pr_run \<Rightarrow> (string \<times> repo_info \<times> bool) list" where
  "repoIdent r = map (\<lambda>rs. (rtName rs, rtInfo rs, rtOk rs)) (rnRepos r)"

definition quietTo :: "pr_run \<Rightarrow> pr_run \<Rightarrow> bool" where
  "quietTo r r' \<longleftrightarrow> prog r r' \<and> sfPRs (rnFile r') = sfPRs (rnFile r) \<and> sfAttempts (rnFile r') = sfAttempts (rnFile r)
     \<and> repoIdent r' = repoIdent r \<and> (\<exists>t. rnTrace r' = rnTrace r @ t \<and> \<not> list_ex isSent t)"

definition quietOp :: "'a prm \<Rightarrow> bool" where
  "quietOp m \<longleftrightarrow> (\<forall>r. quietTo r (snd (run_state m r)))"

definition calmOp :: "'a prm \<Rightarrow> bool" where
  "calmOp m \<longleftrightarrow> quietOp m \<and> (\<forall>r. canSend r \<longrightarrow> canSend (snd (run_state m r)))"

lemma quietTo_refl: "quietTo r r"
  by (simp add: quietTo_def)

lemma quietTo_trans: "quietTo a b \<Longrightarrow> quietTo b c \<Longrightarrow> quietTo a c"
  unfolding quietTo_def by (fastforce intro: rtranclp_trans)

lemma quiet_ret [quiet]: "quietOp (ret a)"
  by (simp add: quietOp_def quietTo_refl)

lemma quiet_look [quiet]: "quietOp (look f)"
  by (simp add: quietOp_def look_def quietTo_refl)

lemma quiet_bind [quiet]: "quietOp m \<Longrightarrow> (\<And>a. quietOp (f a)) \<Longrightarrow> quietOp (State_Monad.bind m f)"
  by (auto simp: quietOp_def case_prod_beta intro: quietTo_trans)

lemma quiet_if [quiet]: "(b \<Longrightarrow> quietOp m) \<Longrightarrow> (\<not> b \<Longrightarrow> quietOp n) \<Longrightarrow> quietOp (if b then m else n)"
  by simp

lemma quiet_option [quiet]: "(x = None \<Longrightarrow> quietOp m) \<Longrightarrow> (\<And>a. x = Some a \<Longrightarrow> quietOp (f a)) \<Longrightarrow> quietOp (case x of None \<Rightarrow> m | Some a \<Rightarrow> f a)"
  by (simp split: option.splits)

lemma quiet_sum [quiet]: "(\<And>a. x = Inl a \<Longrightarrow> quietOp (f a)) \<Longrightarrow> (\<And>a. x = Inr a \<Longrightarrow> quietOp (g a)) \<Longrightarrow> quietOp (case x of Inl a \<Rightarrow> f a | Inr a \<Rightarrow> g a)"
  by (simp split: sum.splits)

lemma quiet_prod [quiet]: "(\<And>a b. x = (a, b) \<Longrightarrow> quietOp (f a b)) \<Longrightarrow> quietOp (case x of (a, b) \<Rightarrow> f a b)"
  by (simp split: prod.splits)

lemma quiet_Let [quiet]: "quietOp (f x) \<Longrightarrow> quietOp (let y = x in f y)"
  by simp

lemma calm_quiet: "calmOp m \<Longrightarrow> quietOp m"
  by (simp add: calmOp_def)

lemma calm_ret [calm]: "calmOp (ret a)"
  by (simp add: calmOp_def quiet_ret)

lemma calm_look [calm]: "calmOp (look f)"
  unfolding calmOp_def by (intro conjI quiet_look) (simp add: look_def)

lemma calm_bind [calm]: "calmOp m \<Longrightarrow> (\<And>a. calmOp (f a)) \<Longrightarrow> calmOp (State_Monad.bind m f)"
  unfolding calmOp_def by (intro conjI quiet_bind) (auto simp: case_prod_beta)

lemma calm_if [calm]: "(b \<Longrightarrow> calmOp m) \<Longrightarrow> (\<not> b \<Longrightarrow> calmOp n) \<Longrightarrow> calmOp (if b then m else n)"
  by simp

lemma calm_option [calm]: "(x = None \<Longrightarrow> calmOp m) \<Longrightarrow> (\<And>a. x = Some a \<Longrightarrow> calmOp (f a)) \<Longrightarrow> calmOp (case x of None \<Rightarrow> m | Some a \<Rightarrow> f a)"
  by (simp split: option.splits)

lemma calm_sum [calm]: "(\<And>a. x = Inl a \<Longrightarrow> calmOp (f a)) \<Longrightarrow> (\<And>a. x = Inr a \<Longrightarrow> calmOp (g a)) \<Longrightarrow> calmOp (case x of Inl a \<Rightarrow> f a | Inr a \<Rightarrow> g a)"
  by (simp split: sum.splits)

lemma calm_prod [calm]: "(\<And>a b. x = (a, b) \<Longrightarrow> calmOp (f a b)) \<Longrightarrow> calmOp (case x of (a, b) \<Rightarrow> f a b)"
  by (simp split: prod.splits)

lemma calm_Let [calm]: "calmOp (f x) \<Longrightarrow> calmOp (let y = x in f y)"
  by simp

lemma calm_change:
  assumes "\<And>r. prog r (f r)" "\<And>r. sfPRs (rnFile (f r)) = sfPRs (rnFile r)" "\<And>r. sfAttempts (rnFile (f r)) = sfAttempts (rnFile r)"
    "\<And>r. repoIdent (f r) = repoIdent r" "\<And>r. rnTrace (f r) = rnTrace r" "\<And>r. canSend r \<Longrightarrow> canSend (f r)"
  shows "calmOp (change f)"
  using assms by (simp add: calmOp_def quietOp_def quietTo_def change_def)

lemma quiet_change:
  assumes "\<And>r. prog r (f r)" "\<And>r. sfPRs (rnFile (f r)) = sfPRs (rnFile r)" "\<And>r. sfAttempts (rnFile (f r)) = sfAttempts (rnFile r)"
    "\<And>r. repoIdent (f r) = repoIdent r" "\<And>r. rnTrace (f r) = rnTrace r"
  shows "quietOp (change f)"
  using assms by (simp add: quietOp_def quietTo_def change_def)

lemma canSend_cong: "rnHalt r' = rnHalt r \<Longrightarrow> rnStop r' = rnStop r \<Longrightarrow> canSend r' = canSend r"
  by (simp add: canSend_def storageStopped_def)

lemma prog_noted: "prog r (r\<lparr>rnRepos := rs, rnProblems := ps, rnNewPRs := n\<rparr>)"
  by (rule r_into_rtranclp) (rule prStep.noted)

lemma calm_ask [calm]: "(\<And>a. \<not> isSent (e a)) \<Longrightarrow> (\<And>a f ok. e a \<noteq> Saved f ok) \<Longrightarrow> calmOp (ask f e)"
  unfolding calmOp_def quietOp_def quietTo_def ask_def Let_def
  by (auto simp: repoIdent_def canSend_def storageStopped_def intro!: r_into_rtranclp prStep.observed)

lemma calm_problem [calm]: "calmOp (problem p)"
  unfolding problem_def
proof (rule calm_change)
  fix r
  show "prog r (if list_ex (\<lambda>h. spCode h = spCode p \<and> spRepo h = spRepo p \<and> spTarget h = spTarget p) (rnProblems r) then r
      else r\<lparr>rnProblems := rnProblems r @ [p]\<rparr>)"
    using prog_noted [of r "rnNewPRs r" "rnProblems r @ [p]" "rnRepos r"] by simp
qed (auto simp: repoIdent_def canSend_def storageStopped_def)

lemma calm_modRepo [calm]:
  assumes "\<And>rs. rtName (f rs) = rtName rs \<and> rtInfo (f rs) = rtInfo rs \<and> rtOk (f rs) = rtOk rs"
  shows "calmOp (modRepo i f)"
  unfolding modRepo_def
proof (rule calm_change)
  fix r
  show "prog r (r\<lparr>rnRepos := (rnRepos r)[i := f (rnRepos r ! i)]\<rparr>)"
    using prog_noted [of r "rnNewPRs r" "rnProblems r" "(rnRepos r)[i := f (rnRepos r ! i)]"] by simp
  show "repoIdent (r\<lparr>rnRepos := (rnRepos r)[i := f (rnRepos r ! i)]\<rparr>) = repoIdent r"
    using assms by (cases "i < length (rnRepos r)") (auto simp: repoIdent_def map_update list_update_same_conv list_update_beyond)
qed (auto simp: canSend_def storageStopped_def)

lemma calm_blockRepo [calm]: "calmOp (blockRepo i code reason)"
  unfolding blockRepo_def by (intro calm) auto

lemma calm_blockTarget [calm]: "calmOp (blockTarget i a reason)"
  unfolding blockTarget_def by (intro calm) auto

text \<open>Changes of the log.\<close>

lemma calm_modFile:
  assumes "\<And>r. prStep r (r\<lparr>rnFile := g (rnFile r)\<rparr>)" "\<And>f. sfPRs (g f) = sfPRs f" "\<And>f. sfAttempts (g f) = sfAttempts f"
  shows "calmOp (modFile g)"
  unfolding modFile_def using assms by (intro calm_change) (auto simp: repoIdent_def canSend_def storageStopped_def)

lemma calm_event [calm]: "calmOp (event ev)"
  unfolding event_def by (intro calm calm_modFile prStep.logged) auto

lemma calm_trim [calm]: "calmOp (modFile (\<lambda>f. fst (trimOperations n f)))"
  by (intro calm_modFile prStep.trimmed) auto

lemma calm_settle [calm]: "calmOp (settle opID res)"
  unfolding settle_def by (intro calm)

subsection \<open>Saving, ending and reading\<close>

lemma calm_save [calm]: "calmOp (save env)"
proof -
  have "quietTo r (snd (run_state (save env) r)) \<and> (canSend r \<longrightarrow> canSend (snd (run_state (save env) r)))" for r
  proof (cases "storageStopped r")
    case True
    then show ?thesis by (simp add: save_def look_def quietTo_refl)
  next
    case False
    define f where "f = fst (trimOperations 0 (rnFile r))"
    define s where "s = r\<lparr>rnFile := f\<rparr>"
    have s: "quietTo r s" "\<not> storageStopped s" "canSend r \<Longrightarrow> canSend s"
      using prStep.trimmed [of r 0] False by (auto simp: s_def f_def quietTo_def repoIdent_def canSend_def storageStopped_def)
    have f: "rnFile s = f" by (simp add: s_def)
    show ?thesis
    proof (cases "evSave env (length (rnTrace r)) f")
      case None
      have "quietTo s (s\<lparr>rnTrace := rnTrace s @ [Saved f True]\<rparr>)"
        using prStep.saved [OF s(2)] by (auto simp: quietTo_def repoIdent_def f isSent_def)
      moreover have "snd (run_state (save env) r) = s\<lparr>rnTrace := rnTrace s @ [Saved f True]\<rparr>"
        using False None by (simp add: save_def look_def modFile_def change_def ask_def s_def f_def)
      ultimately show ?thesis using s quietTo_trans by (auto simp: canSend_def storageStopped_def)
    next
      case (Some e)
      let ?t = "s\<lparr>rnTrace := rnTrace s @ [Saved f False], rnStop := Some \<lparr>siStatus = PRStatusWriteBlocked, siReason = ReasonStorageFailed\<rparr>\<rparr>"
      let ?p = "\<lparr>spCode = PRProblemStorageFailed, spRepo = '''', spTarget = '''', spReason = ReasonStorageFailed\<rparr>"
      have q: "quietTo s ?t" using prStep.unsaved [OF s(2)] by (auto simp: quietTo_def repoIdent_def f isSent_def)
      have res: "snd (run_state (save env) r) = snd (run_state (problem ?p) ?t)"
        using False Some by (simp add: save_def look_def modFile_def change_def ask_def s_def f_def storageFailed_def storageStopped_def case_prod_beta)
      have p: "quietTo ?t (snd (run_state (problem ?p) ?t))" "canSend ?t \<Longrightarrow> canSend (snd (run_state (problem ?p) ?t))"
        using calm_problem [of ?p] by (auto simp: calmOp_def quietOp_def)
      have c: "canSend r \<Longrightarrow> canSend ?t" by (simp add: canSend_def storageStopped_def s_def)
      show ?thesis unfolding res by (intro conjI impI quietTo_trans [OF s(1) quietTo_trans [OF q p(1)]] p(2) c)
    qed
  qed
  then show ?thesis by (simp add: calmOp_def quietOp_def)
qed

lemmas quiet_calm [quiet] = calm_ask [THEN calm_quiet] calm_problem [THEN calm_quiet] calm_modRepo [THEN calm_quiet]
  calm_blockRepo [THEN calm_quiet] calm_blockTarget [THEN calm_quiet] calm_event [THEN calm_quiet] calm_trim [THEN calm_quiet]
  calm_settle [THEN calm_quiet] calm_save [THEN calm_quiet]

lemma prog_ended: "(rnHalt r \<noteq> None \<Longrightarrow> h \<noteq> None) \<Longrightarrow> (rnStop r \<noteq> None \<Longrightarrow> s = rnStop r) \<Longrightarrow> prog r (r\<lparr>rnHalt := h, rnStop := s\<rparr>)"
  by (rule r_into_rtranclp, rule prStep.ended) auto

lemma quiet_setHalt [quiet]: "quietOp (setHalt reason)"
  unfolding setHalt_def
proof (rule quiet_change)
  fix r
  show "prog r (if rnHalt r = None then r\<lparr>rnHalt := Some reason\<rparr> else r)"
    using prog_ended [of r "Some reason" "rnStop r"] by simp
qed (auto simp: repoIdent_def)

lemma calm_checkCtx [calm]: "calmOp (checkCtx env)"
  unfolding checkCtx_def by (intro calm) (auto simp: isSent_def)

lemmas quiet_checkCtx [quiet] = calm_checkCtx [THEN calm_quiet]

lemma quiet_haltFor [quiet]: "quietOp (haltFor env err)"
  unfolding haltFor_def by (intro quiet)

lemma quiet_active [quiet]: "quietOp (active env)"
  unfolding active_def by (intro quiet)

lemma quiet_canWrite [quiet]: "quietOp (canWrite env i)"
  unfolding canWrite_def by (intro quiet)

lemma quiet_reserve [quiet]: "quietOp (reserve n)"
proof -
  have "quietOp (change (\<lambda>r. if rnStop r = None then r\<lparr>rnStop := Some s\<rparr> else r))" for s
  proof (rule quiet_change)
    fix r
    show "prog r (if rnStop r = None then r\<lparr>rnStop := Some s\<rparr> else r)" using prog_ended [of r "rnHalt r" "Some s"] by auto
  qed (auto simp: repoIdent_def)
  then show ?thesis unfolding reserve_def by (intro quiet)
qed

lemma calm_listAll [calm]: "(\<And>p. calmOp (page p)) \<Longrightarrow> calmOp (listAll left p page)"
proof (induction left p page rule: listAll.induct)
  case (2 left p page)
  then show ?case unfolding listAll.simps by (intro calm) auto
qed (simp add: calm_ret)

lemma calm_listPulls [calm]: "calmOp (listPulls env i st head)"
  unfolding listPulls_def by (intro calm) (auto simp: isSent_def)

lemma calm_listComments [calm]: "calmOp (listComments env i n)"
  unfolding listComments_def by (intro calm) (auto simp: isSent_def)

lemma calm_readPull [calm]: "calmOp (readPull env repo n)"
  unfolding readPull_def by (intro calm) (auto simp: isSent_def)

lemma calm_readRef [calm]: "calmOp (readRef env repo b)"
  unfolding readRef_def by (intro calm) (auto simp: isSent_def)

lemmas quiet_reads [quiet] = calm_listPulls [THEN calm_quiet] calm_listComments [THEN calm_quiet] calm_readPull [THEN calm_quiet]
  calm_readRef [THEN calm_quiet]

subsection \<open>Operations that may write\<close>

text \<open>From a state with a valid log that satisfies the assertion, the operation makes steps of the run only.\<close>

definition hoare :: "(pr_run \<Rightarrow> bool) \<Rightarrow> 'a prm \<Rightarrow> ('a \<Rightarrow> pr_run \<Rightarrow> bool) \<Rightarrow> bool" where
  "hoare P m Q \<longleftrightarrow> (\<forall>r. logOk (rnFile r) \<longrightarrow> P r \<longrightarrow>
     prog r (snd (run_state m r)) \<and> Q (fst (run_state m r)) (snd (run_state m r)))"

lemma hoareD:
  assumes "hoare P m Q" "logOk (rnFile r)" "P r" "run_state m r = (a, r')"
  shows "prog r r'" "Q a r'" "logOk (rnFile r')"
proof -
  from assms(1) [unfolded hoare_def, rule_format, OF assms(2,3)] have pq: "prog r r' \<and> Q a r'" by (simp add: assms(4))
  from pq show "prog r r'" ..
  from pq show "Q a r'" ..
  from prog_logOk [OF conjunct1 [OF pq] assms(2)] show "logOk (rnFile r')" .
qed

lemma hoareI:
  assumes "\<And>r a r'. logOk (rnFile r) \<Longrightarrow> P r \<Longrightarrow> run_state m r = (a, r') \<Longrightarrow> prog r r' \<and> Q a r'"
  shows "hoare P m Q"
  unfolding hoare_def by (intro allI impI) (rule assms, simp_all)

lemma hoare_ret: "(\<And>r. P r \<Longrightarrow> Q a r) \<Longrightarrow> hoare P (ret a) Q"
  by (rule hoareI) auto

lemma hoare_bind:
  assumes "hoare P m Q" "\<And>a. hoare (Q a) (f a) R"
  shows "hoare P (State_Monad.bind m f) R"
proof (rule hoareI)
  fix r b r''
  assume r: "logOk (rnFile r)" "P r" "run_state (State_Monad.bind m f) r = (b, r'')"
  obtain a r' where m: "run_state m r = (a, r')" by fastforce
  have f: "run_state (f a) r' = (b, r'')" using r(3) m by simp
  show "prog r r'' \<and> R b r''"
    using hoareD [OF assms(1) r(1,2) m] hoareD(1,2) [OF assms(2) _ _ f] by (simp add: rtranclp_trans [of _ r r'])
qed

lemma hoare_conseq: "hoare P m Q \<Longrightarrow> (\<And>r. P' r \<Longrightarrow> P r) \<Longrightarrow> (\<And>a r. Q a r \<Longrightarrow> Q' a r) \<Longrightarrow> hoare P' m Q'"
  unfolding hoare_def by simp

lemma hoare_pre: "hoare P m Q \<Longrightarrow> (\<And>r. P' r \<Longrightarrow> P r) \<Longrightarrow> hoare P' m Q"
  by (erule hoare_conseq) auto

lemma hoare_if: "(b \<Longrightarrow> hoare P m Q) \<Longrightarrow> (\<not> b \<Longrightarrow> hoare P n Q) \<Longrightarrow> hoare P (if b then m else n) Q"
  by simp

lemma hoare_option: "(x = None \<Longrightarrow> hoare P m Q) \<Longrightarrow> (\<And>a. x = Some a \<Longrightarrow> hoare P (f a) Q) \<Longrightarrow> hoare P (case x of None \<Rightarrow> m | Some a \<Rightarrow> f a) Q"
  by (simp split: option.splits)

lemma hoare_sum: "(\<And>a. x = Inl a \<Longrightarrow> hoare P (f a) Q) \<Longrightarrow> (\<And>a. x = Inr a \<Longrightarrow> hoare P (g a) Q) \<Longrightarrow> hoare P (case x of Inl a \<Rightarrow> f a | Inr a \<Rightarrow> g a) Q"
  by (simp split: sum.splits)

lemma hoare_prod: "(\<And>a b. x = (a, b) \<Longrightarrow> hoare P (f a b) Q) \<Longrightarrow> hoare P (case x of (a, b) \<Rightarrow> f a b) Q"
  by (simp split: prod.splits)

lemma hoare_look: "(\<And>r. P r \<Longrightarrow> Q (f r) r) \<Longrightarrow> hoare P (look f) Q"
  by (rule hoareI) (auto simp: look_def)

lemma hoare_change: "(\<And>r. P r \<Longrightarrow> prog r (f r) \<and> Q () (f r)) \<Longrightarrow> hoare P (change f) Q"
  by (rule hoareI) (auto simp: change_def)

text \<open>An assertion about records, repositories and reads survives quiet operations.\<close>

definition stable :: "(pr_run \<Rightarrow> bool) \<Rightarrow> bool" where
  "stable P \<longleftrightarrow> (\<forall>r r'. P r \<longrightarrow> quietTo r r' \<longrightarrow> P r')"

lemma hoare_quiet: "quietOp m \<Longrightarrow> stable P \<Longrightarrow> hoare P m (\<lambda>_. P)"
  by (rule hoareI) (metis quietOp_def quietTo_def snd_conv stable_def)

lemma hoare_calm: "calmOp m \<Longrightarrow> stable P \<Longrightarrow> hoare (\<lambda>r. canSend r \<and> P r) m (\<lambda>_ r. canSend r \<and> P r)"
  by (rule hoareI) (metis calmOp_def quietOp_def quietTo_def snd_conv stable_def)

lemma quiet_hoare: "quietOp m \<Longrightarrow> hoare P m (\<lambda>_ _. True)"
  by (rule hoareI) (metis quietOp_def quietTo_def snd_conv)

lemma stable_True [simp]: "stable (\<lambda>_. True)"
  by (simp add: stable_def)

lemma stable_conj [intro]: "stable P \<Longrightarrow> stable Q \<Longrightarrow> stable (\<lambda>r. P r \<and> Q r)"
  unfolding stable_def by blast

lemma stable_records [intro, simp]: "stable (\<lambda>r. P (sfPRs (rnFile r)) (sfAttempts (rnFile r)) (repoIdent r))"
  by (simp add: stable_def quietTo_def)

subsection \<open>The protocol of a write\<close>

definition definite :: "go_error \<Rightarrow> bool" where
  "definite e \<longleftrightarrow> list_all (\<lambda>c. c \<notin> {ErrCanceled, ErrDeadlineExceeded, ErrTimeout, ErrRateLimited, ErrBudgetExhausted, ErrOutcomeUnknown}) e"

lemma save_True:
  assumes "run_state (save env) r = (True, r')"
  shows "\<not> storageStopped r \<and> r' = r\<lparr>rnFile := fst (trimOperations 0 (rnFile r)), rnTrace := rnTrace r @ [Saved (fst (trimOperations 0 (rnFile r))) True]\<rparr>"
  using assms by (auto simp: save_def look_def modFile_def change_def ask_def Let_def case_prod_beta split: if_splits)

lemma appended_kept:
  assumes "logOk f"
  shows "last (sfOperations (fst (trimOperations 0 (appendEvent ev f)))) = logged ev f"
    "sfOperations (fst (trimOperations 0 (appendEvent ev f))) \<noteq> []"
proof -
  have "\<not> removable (appendEvent ev f) (logged ev f)"
    using assms by (auto simp: removable_def logged_def Let_def logOk_def deliveredOk_def appendEvent_def)
  then show "last (sfOperations (fst (trimOperations 0 (appendEvent ev f)))) = logged ev f"
    "sfOperations (fst (trimOperations 0 (appendEvent ev f))) \<noteq> []"
    using last_trimOperations [of "appendEvent ev f" 0] by simp_all
qed

lemma logged_fields [simp]:
  "oePhase (logged ev f) = oePhase ev" "oeKind (logged ev f) = oeKind ev" "oeRepo (logged ev f) = oeRepo ev"
  "oeAttemptKey (logged ev f) = oeAttemptKey ev" "oeNumber (logged ev f) = oeNumber ev"
  by (simp_all add: logged_def Let_def)

text \<open>The intent is saved, and the request goes out: the one step of a run that sends.\<close>

lemma intent_then_send:
  assumes "logOk (rnFile r)" "canSend r" "oeRepo op = repoOfWrite w" "coveredBy (rnFile r) (oeAttemptKey op) (rnTrace r) w"
    and "oePhase op = PhaseIntent" "oeKind op = Some (kindOfWrite w)"
    and "run_state (save env) (r\<lparr>rnFile := appendEvent op (rnFile r)\<rparr>) = (True, s)"
  shows "prog r s" "canSend s" "rnStop s = None" "repoIdent s = repoIdent r"
    "sfPRs (rnFile s) = sfPRs (rnFile r)" "sfAttempts (rnFile s) = sfAttempts (rnFile r)"
    "prStep s (s\<lparr>rnTrace := rnTrace s @ [Sent w e],
       rnStop := if unknownSent (Sent w e) then Some \<lparr>siStatus = PRStatusDeferred, siReason = ReasonWriteOutcomeUnknown\<rparr> else None\<rparr>)"
proof -
  let ?r = "r\<lparr>rnFile := appendEvent op (rnFile r)\<rparr>"
  note s = save_True [OF assms(7)]
  have "quietTo ?r s" using calm_save [of env] assms(7) unfolding calmOp_def quietOp_def by (metis snd_conv)
  then show "prog r s" "repoIdent s = repoIdent r" "sfPRs (rnFile s) = sfPRs (rnFile r)" "sfAttempts (rnFile s) = sfAttempts (rnFile r)"
    using prStep.logged [of r op] by (auto simp: quietTo_def repoIdent_def intro: converse_rtranclp_into_rtranclp)
  show stop: "rnStop s = None" and "canSend s" using s assms(2) by (auto simp: canSend_def storageStopped_def split: option.splits)
  have "intentFor (rnFile s) w"
    using s assms(3,5,6) appended_kept [OF assms(1), of op] by (simp add: intentFor_def)
  moreover have "covered (rnFile s) (rnTrace r) w"
    using s assms(4) appended_kept [OF assms(1), of op]
    by (simp add: coveredBy_cong [of "fst (trimOperations 0 (appendEvent op (rnFile r)))" "rnFile r"])
  moreover have "rnHalt s = None" "rnTrace s = rnTrace r @ [Saved (rnFile s) True]" using s assms(2) by (simp_all add: canSend_def)
  ultimately show "prStep s (s\<lparr>rnTrace := rnTrace s @ [Sent w e],
      rnStop := if unknownSent (Sent w e) then Some \<lparr>siStatus = PRStatusDeferred, siReason = ReasonWriteOutcomeUnknown\<rparr> else None\<rparr>)"
    using stop by (intro prStep.sent)
qed

lemma calm_haltFor_definite: "definite e \<Longrightarrow> calmOp (haltFor env e)"
  unfolding haltFor_def definite_def errIs_def by (auto simp: list_all_iff intro!: calm)

lemma quietTo_fields:
  assumes "quietTo r r'"
  shows "prog r r'" "sfPRs (rnFile r') = sfPRs (rnFile r)" "sfAttempts (rnFile r') = sfAttempts (rnFile r)" "repoIdent r' = repoIdent r"
  using assms by (simp_all add: quietTo_def)

lemma quietOp_run: "quietOp m \<Longrightarrow> run_state m r = (a, r') \<Longrightarrow> quietTo r r'"
  by (metis quietOp_def snd_conv)

lemma calmOp_run: "calmOp m \<Longrightarrow> run_state m r = (a, r') \<Longrightarrow> quietTo r r' \<and> (canSend r \<longrightarrow> canSend r')"
  by (metis calmOp_def quietOp_def snd_conv)

text \<open>The part of a write after the answer: the outcome is noted and logged.\<close>

definition afterSend :: "pr_env \<Rightarrow> op_event \<Rightarrow> string \<Rightarrow> (go_error + 'a) \<Rightarrow> (string \<times> (go_error + 'a)) prm" where
  "afterSend env res opID ans = do {
     result \<leftarrow> (case ans of
         Inr _ \<Rightarrow> ret ResultOK
       | Inl err \<Rightarrow>
           if errIs err ErrOutcomeUnknown then do {
             change (\<lambda>r. if rnStop r = None
               then r\<lparr>rnStop := Some \<lparr>siStatus = PRStatusDeferred, siReason = ReasonWriteOutcomeUnknown\<rparr>\<rparr> else r);
             ret ResultUnknown
           } else do { haltFor env err; ret ResultFailed });
     event (res\<lparr>oeResult := Some result\<rparr>);
     save env;
     ret (opID, ans)
   }"

lemma afterSend_step:
  assumes s: "prStep s (s\<lparr>rnTrace := rnTrace s @ [Sent w (errOf ans)],
      rnStop := if unknownSent (Sent w (errOf ans)) then Some \<lparr>siStatus = PRStatusDeferred, siReason = ReasonWriteOutcomeUnknown\<rparr> else None\<rparr>)"
    and "rnStop s = None" "canSend s" and run: "run_state (afterSend env res opID ans) (s\<lparr>rnTrace := rnTrace s @ [Sent w (errOf ans)]\<rparr>) = (x, r')"
  shows "prog s r'" "repoIdent r' = repoIdent s" "sfPRs (rnFile r') = sfPRs (rnFile s)" "sfAttempts (rnFile r') = sfAttempts (rnFile s)"
    "x = (opID, ans)" "(case ans of Inr _ \<Rightarrow> canSend r' | Inl e \<Rightarrow> definite e \<longrightarrow> canSend r')"
proof -
  let ?t = "s\<lparr>rnTrace := rnTrace s @ [Sent w (errOf ans)]\<rparr>"
  define rest where "rest = (\<lambda>result. do { event (res\<lparr>oeResult := Some result\<rparr>); save env; ret (opID, ans) })"
  have rest: "calmOp (rest result)" for result unfolding rest_def by (intro calm)
  define u where "u = (if unknownSent (Sent w (errOf ans)) then ?t\<lparr>rnStop := Some \<lparr>siStatus = PRStatusDeferred, siReason = ReasonWriteOutcomeUnknown\<rparr>\<rparr> else ?t)"
  have same: "s\<lparr>rnTrace := t, rnStop := None\<rparr> = s\<lparr>rnTrace := t\<rparr>" for t using assms(2) by (cases s) simp
  have u: "prog s u" "repoIdent u = repoIdent s" "sfPRs (rnFile u) = sfPRs (rnFile s)" "sfAttempts (rnFile u) = sfAttempts (rnFile s)"
    using s same by (auto simp: u_def repoIdent_def)
  have "quietTo u r' \<and> x = (opID, ans) \<and> (case ans of Inr _ \<Rightarrow> canSend u \<longrightarrow> canSend r' | Inl e \<Rightarrow> definite e \<longrightarrow> canSend u \<longrightarrow> canSend r')"
  proof (cases ans)
    case (Inr a)
    then have "run_state (rest ResultOK) u = (x, r')" using run by (simp add: afterSend_def rest_def u_def unknownSent_def errOf_def)
    then show ?thesis using calmOp_run [OF rest] Inr by (auto simp: rest_def split: prod.splits)
  next
    case (Inl err)
    show ?thesis
    proof (cases "errIs err ErrOutcomeUnknown")
      case True
      then have "run_state (rest ResultUnknown) u = (x, r')"
        using run Inl assms(2) by (simp add: afterSend_def rest_def u_def unknownSent_def errOf_def change_def)
      then show ?thesis using calmOp_run [OF rest] Inl by (auto simp: rest_def split: prod.splits)
    next
      case False
      define m where "m = do { haltFor env err; rest ResultFailed }"
      have m: "run_state m u = (x, r')"
        using False run Inl assms(2) by (simp add: afterSend_def rest_def m_def u_def unknownSent_def errOf_def)
      have "quietOp m" unfolding m_def using rest [THEN calm_quiet] by (intro quiet)
      moreover have "calmOp m" if "definite err" unfolding m_def using rest calm_haltFor_definite [OF that] by (intro calm)
      moreover have "x = (opID, ans)" using m by (auto simp: m_def rest_def split: prod.splits)
      ultimately show ?thesis using m Inl quietOp_run [OF _ m] calmOp_run [OF _ m] by auto
    qed
  qed
  moreover have "canSend u" if "ans = Inr a" for a using assms(2,3) that by (simp add: u_def unknownSent_def errOf_def canSend_def storageStopped_def)
  moreover have "canSend u" if "ans = Inl e" "definite e" for e
    using assms(2,3) that by (auto simp: u_def unknownSent_def errOf_def canSend_def storageStopped_def definite_def errIs_def list_all_iff)
  ultimately show "prog s r'" "repoIdent r' = repoIdent s" "sfPRs (rnFile r') = sfPRs (rnFile s)" "sfAttempts (rnFile r') = sfAttempts (rnFile s)"
    "x = (opID, ans)" "(case ans of Inr _ \<Rightarrow> canSend r' | Inl e \<Rightarrow> definite e \<longrightarrow> canSend r')"
    using u by (auto dest: quietTo_fields split: sum.splits intro: rtranclp_trans)
qed

lemma write_op_alt:
  "write_op env op w fn refOf = do {
     ev \<leftarrow> event (op\<lparr>oePhase := PhaseIntent, oeKind := Some (kindOfWrite w)\<rparr>);
     ok \<leftarrow> save env;
     if \<not> ok then ret (oeID ev, Inl [ErrWritesStopped])
     else do {
       ans \<leftarrow> ask fn (\<lambda>ans. Sent w (errOf ans));
       afterSend env (zeroEvent\<lparr>oeID := oeID ev, oePhase := PhaseResult, oeKind := Some (kindOfWrite w), oeRepo := oeRepo op,
         oeAttemptKey := oeAttemptKey op, oeNumber := oeNumber op, oeRef := refOf ans\<rparr>) (oeID ev) ans
     }
   }"
  unfolding write_op_def afterSend_def Let_def ..

lemma hoare_write:
  assumes "oeRepo op = repoOfWrite w"
  shows "hoare (\<lambda>r. canSend r \<and> coveredBy (rnFile r) (oeAttemptKey op) (rnTrace r) w \<and> P (sfPRs (rnFile r)) (sfAttempts (rnFile r)) (repoIdent r))
    (write_op env op w fn refOf)
    (\<lambda>x r. P (sfPRs (rnFile r)) (sfAttempts (rnFile r)) (repoIdent r) \<and> (case snd x of Inr _ \<Rightarrow> canSend r | Inl e \<Rightarrow> definite e \<longrightarrow> canSend r))"
proof (rule hoareI)
  fix r :: pr_run and x r'
  let ?op = "op\<lparr>oePhase := PhaseIntent, oeKind := Some (kindOfWrite w)\<rparr>"
  let ?r = "r\<lparr>rnFile := appendEvent ?op (rnFile r)\<rparr>"
  assume r: "logOk (rnFile r)" "canSend r \<and> coveredBy (rnFile r) (oeAttemptKey op) (rnTrace r) w \<and> P (sfPRs (rnFile r)) (sfAttempts (rnFile r)) (repoIdent r)"
    and run: "run_state (write_op env op w fn refOf) r = (x, r')"
  obtain ok s where s: "run_state (save env) ?r = (ok, s)" by fastforce
  note q = calmOp_run [OF calm_save s]
  show "prog r r' \<and> P (sfPRs (rnFile r')) (sfAttempts (rnFile r')) (repoIdent r') \<and> (case snd x of Inr _ \<Rightarrow> canSend r' | Inl e \<Rightarrow> definite e \<longrightarrow> canSend r')"
  proof (cases ok)
    case False
    then have "x = (oeID (logged ?op (rnFile r)), Inl [ErrWritesStopped])" "r' = s"
      using run s by (auto simp: write_op_alt event_def look_def modFile_def change_def)
    moreover have "prog r s" using q prStep.logged [of r ?op] by (auto simp: quietTo_def intro: converse_rtranclp_into_rtranclp)
    ultimately show ?thesis using q r(2) by (auto simp: quietTo_def repoIdent_def canSend_def storageStopped_def)
  next
    case True
    have s': "run_state (save env) ?r = (True, s)" using s True by simp
    have cov: "coveredBy (rnFile r) (oeAttemptKey ?op) (rnTrace r) w" "oeRepo ?op = repoOfWrite w" using r(2) assms by simp_all
    note i = intent_then_send [OF r(1) conjunct1 [OF r(2)] cov(2,1) _ _ s', simplified]
    define ans where "ans = fn (length (rnTrace s))"
    obtain res opID where after: "run_state (afterSend env res opID ans) (s\<lparr>rnTrace := rnTrace s @ [Sent w (errOf ans)]\<rparr>) = (x, r')"
      using run s True by (auto simp: write_op_alt event_def look_def modFile_def change_def ask_def ans_def Let_def)
    note step = intent_then_send(7) [OF r(1) conjunct1 [OF r(2)] cov(2,1) _ _ s', of "errOf ans"]
    from afterSend_step [OF step i(3,2) after] have "prog s r'" "repoIdent r' = repoIdent s" "sfPRs (rnFile r') = sfPRs (rnFile s)"
      "sfAttempts (rnFile r') = sfAttempts (rnFile s)" "snd x = ans" "case ans of Inr _ \<Rightarrow> canSend r' | Inl e \<Rightarrow> definite e \<longrightarrow> canSend r'" by simp_all
    then show ?thesis using i r(2) by (auto intro: rtranclp_trans)
  qed
qed

subsection \<open>Operations that only need the run's rules\<close>

named_theorems free \<open>operations that make only steps of a run\<close>
named_theorems keeps \<open>operations that make only steps of a run and leave the attempts alone\<close>

definition freeOp :: "'a prm \<Rightarrow> bool" where
  "freeOp m \<longleftrightarrow> hoare (\<lambda>_. True) m (\<lambda>_ _. True)"

definition keepsOp :: "'a prm \<Rightarrow> bool" where
  "keepsOp m \<longleftrightarrow> (\<forall>P. hoare (\<lambda>r. P (sfAttempts (rnFile r))) m (\<lambda>_ r. P (sfAttempts (rnFile r))))"

lemma free_hoare: "freeOp m \<Longrightarrow> hoare P m (\<lambda>_ _. True)"
  unfolding freeOp_def by (erule hoare_pre) simp

lemma hoare_free: "hoare (\<lambda>_. True) m Q \<Longrightarrow> freeOp m"
  unfolding freeOp_def by (erule hoare_conseq) simp_all

lemma keepsD: "keepsOp m \<Longrightarrow> hoare (\<lambda>r. P (sfAttempts (rnFile r))) m (\<lambda>_ r. P (sfAttempts (rnFile r)))"
  by (simp add: keepsOp_def)

lemma keeps_free: "keepsOp m \<Longrightarrow> freeOp m"
  unfolding freeOp_def using keepsD [of m "\<lambda>_. True"] by simp

lemma quiet_keeps: "quietOp m \<Longrightarrow> keepsOp m"
  unfolding keepsOp_def using hoare_quiet [OF _ stable_records [of "\<lambda>_ as _. P as" for P]] by blast

lemmas quiet_free = quiet_keeps [THEN keeps_free]

lemma keeps_bind [keeps]: "keepsOp m \<Longrightarrow> (\<And>a. keepsOp (f a)) \<Longrightarrow> keepsOp (State_Monad.bind m f)"
  unfolding keepsOp_def using hoare_bind by blast

lemma keeps_if [keeps]: "(b \<Longrightarrow> keepsOp m) \<Longrightarrow> (\<not> b \<Longrightarrow> keepsOp n) \<Longrightarrow> keepsOp (if b then m else n)"
  by simp

lemma keeps_option [keeps]: "(x = None \<Longrightarrow> keepsOp m) \<Longrightarrow> (\<And>a. x = Some a \<Longrightarrow> keepsOp (f a)) \<Longrightarrow> keepsOp (case x of None \<Rightarrow> m | Some a \<Rightarrow> f a)"
  by (simp split: option.splits)

lemma keeps_sum [keeps]: "(\<And>a. x = Inl a \<Longrightarrow> keepsOp (f a)) \<Longrightarrow> (\<And>a. x = Inr a \<Longrightarrow> keepsOp (g a)) \<Longrightarrow> keepsOp (case x of Inl a \<Rightarrow> f a | Inr a \<Rightarrow> g a)"
  by (simp split: sum.splits)

lemma keeps_prod [keeps]: "(\<And>a b. x = (a, b) \<Longrightarrow> keepsOp (f a b)) \<Longrightarrow> keepsOp (case x of (a, b) \<Rightarrow> f a b)"
  by (simp split: prod.splits)

lemma keeps_Let [keeps]: "keepsOp (f x) \<Longrightarrow> keepsOp (let y = x in f y)"
  by simp

lemma free_bind [free]: "freeOp m \<Longrightarrow> (\<And>a. freeOp (f a)) \<Longrightarrow> freeOp (State_Monad.bind m f)"
  unfolding freeOp_def using hoare_bind by blast

lemma free_if [free]: "(b \<Longrightarrow> freeOp m) \<Longrightarrow> (\<not> b \<Longrightarrow> freeOp n) \<Longrightarrow> freeOp (if b then m else n)"
  by simp

lemma free_option [free]: "(x = None \<Longrightarrow> freeOp m) \<Longrightarrow> (\<And>a. x = Some a \<Longrightarrow> freeOp (f a)) \<Longrightarrow> freeOp (case x of None \<Rightarrow> m | Some a \<Rightarrow> f a)"
  by (simp split: option.splits)

lemma free_sum [free]: "(\<And>a. x = Inl a \<Longrightarrow> freeOp (f a)) \<Longrightarrow> (\<And>a. x = Inr a \<Longrightarrow> freeOp (g a)) \<Longrightarrow> freeOp (case x of Inl a \<Rightarrow> f a | Inr a \<Rightarrow> g a)"
  by (simp split: sum.splits)

lemma free_prod [free]: "(\<And>a b. x = (a, b) \<Longrightarrow> freeOp (f a b)) \<Longrightarrow> freeOp (case x of (a, b) \<Rightarrow> f a b)"
  by (simp split: prod.splits)

lemma free_Let [free]: "freeOp (f x) \<Longrightarrow> freeOp (let y = x in f y)"
  by simp

lemmas quiet_leafs = quiet_ret quiet_look calm_ask [THEN calm_quiet] calm_problem [THEN calm_quiet]
  calm_blockRepo [THEN calm_quiet] calm_blockTarget [THEN calm_quiet] calm_event [THEN calm_quiet] calm_trim [THEN calm_quiet]
  calm_settle [THEN calm_quiet] calm_save [THEN calm_quiet] quiet_setHalt quiet_checkCtx quiet_haltFor quiet_active quiet_canWrite quiet_reserve quiet_reads

lemmas keeps_quiet [keeps] = quiet_leafs [THEN quiet_keeps]
lemmas free_quiet [free] = quiet_leafs [THEN quiet_free]

text \<open>Changes of the records.\<close>

lemma keeps_modFile:
  assumes "\<And>f. fileGrow f (g f)" "\<And>f. sfOperations (g f) = sfOperations f" "\<And>f. sfNextSeq (g f) = sfNextSeq f" "\<And>f. sfAttempts (g f) = sfAttempts f"
  shows "keepsOp (modFile g)"
  unfolding keepsOp_def modFile_def
  by (intro allI hoare_change conjI) (auto simp: assms intro!: r_into_rtranclp prStep.recorded)

lemma fileGrow_PRs: "listGrow prGrow (sfPRs f) prs \<Longrightarrow> fileGrow f (f\<lparr>sfPRs := prs\<rparr>)"
  by (simp add: fileGrow_def atts.grow_refl)

lemma fileGrow_Attempts: "listGrow attGrow (sfAttempts f) as \<Longrightarrow> fileGrow f (f\<lparr>sfAttempts := as\<rparr>)"
  by (simp add: fileGrow_def pulls.grow_refl)

lemma keeps_modPR [keeps]: "(\<And>rec. prGrow rec (f rec)) \<Longrightarrow> keepsOp (modPR k f)"
  unfolding modPR_def by (rule keeps_modFile) (auto intro!: fileGrow_PRs pulls.grow_update)

lemma keeps_addPR [keeps]: "keepsOp (addPR rec)"
  unfolding addPR_def by (rule keeps_modFile) (auto intro!: fileGrow_PRs pulls.grow_append)

lemmas free_modPR [free] = keeps_modPR [THEN keeps_free]
lemmas free_addPR [free] = keeps_addPR [THEN keeps_free]

lemma keeps_repos [keeps]: "keepsOp (modFile (\<lambda>f. f\<lparr>sfRepos := g f\<rparr>))"
  by (rule keeps_modFile) (auto simp: fileGrow_def pulls.grow_refl atts.grow_refl)

lemmas free_repos [free] = keeps_repos [THEN keeps_free]

lemma keeps_modRepo [keeps]: "keepsOp (modRepo i f)"
  unfolding keepsOp_def modRepo_def
proof (intro allI hoare_change conjI)
  fix r
  show "prog r (r\<lparr>rnRepos := (rnRepos r)[i := f (rnRepos r ! i)]\<rparr>)"
    using prog_noted [of r "rnNewPRs r" "rnProblems r" "(rnRepos r)[i := f (rnRepos r ! i)]"] by simp
qed simp

lemmas free_modRepo [free] = keeps_modRepo [THEN keeps_free]

definition openAttempt :: "nat \<Rightarrow> attempt_record list \<Rightarrow> bool" where
  "openAttempt k as \<longleftrightarrow> (k < length as \<longrightarrow> atStatus (as ! k) \<noteq> AttemptPRCreated)"

lemma hoare_modAttempt:
  assumes "\<And>a. atAttemptKey (f a) = atAttemptKey a"
  shows "hoare (\<lambda>r. openAttempt k (sfAttempts (rnFile r))) (modAttempt k f) (\<lambda>_ _. True)"
  unfolding modAttempt_def modFile_def
proof (rule hoare_change)
  fix r :: pr_run assume r: "openAttempt k (sfAttempts (rnFile r))"
  have "listGrow attGrow (sfAttempts (rnFile r)) ((sfAttempts (rnFile r))[k := f (sfAttempts (rnFile r) ! k)])"
    using r assms by (intro atts.grow_update) (auto simp: attGrow_def openAttempt_def)
  then show "prog r (r\<lparr>rnFile := (rnFile r)\<lparr>sfAttempts := (sfAttempts (rnFile r))[k := f (sfAttempts (rnFile r) ! k)]\<rparr>\<rparr>) \<and> True"
    by (intro conjI r_into_rtranclp prStep.recorded fileGrow_Attempts) auto
qed

lemma prGrow_simps [simp]:
  "prGrow rec (rec\<lparr>prState := st\<rparr>)" "prGrow rec (rec\<lparr>prUserModified := True\<rparr>)"
  "prGrow rec (rec\<lparr>prState := st, prReplacedBy := n\<rparr>)" "prGrow rec (rec\<lparr>prState := st, prSupersededBy := n\<rparr>)"
  by (simp_all add: prGrow_def replGrow_listGrow repls.grow_refl)

lemma prGrow_markModified [simp]: "prGrow rec (fst (markModified rec pr))"
  by (auto simp: markModified_def pulls.R_refl)

lemma prGrow_markState [simp]: "prGrow rec (fst (markModified (rec\<lparr>prState := st\<rparr>) pr))"
  using pulls.R_trans [OF prGrow_simps(1) prGrow_markModified] .

end
