(* ===== verification/PR_Reconcile.thy ===== *)
theory PR_Reconcile
  imports PR_Steps
begin

section \<open>Checking the records against GitHub\<close>

text \<open>
  \<open>internal/remediation/pr_reconcile.go\<close> and \<open>settleClose\<close> of \<open>pr_replace.go\<close>: before anything is written,
  the repositories are read, lost records are rebuilt from the markers of pull requests, open pull
  requests that are not recorded are adopted when their marker verifies, recorded ones are read again,
  and every attempt or close whose outcome is open is settled by reading. Pointers into the records are
  indices. The lemmas show that all of it makes only steps of a run that send nothing.
\<close>

subsection \<open>Markers and records of pull requests that were found\<close>

definition markerV :: int where "markerV = 1"

definition parsePRMarker :: "pr_env \<Rightarrow> string \<Rightarrow> pr_marker option" where
  "parsePRMarker env body = (case evDecodeMarker env body of
       None \<Rightarrow> None
     | Some m \<Rightarrow> if pmV m \<noteq> markerV \<or> \<not> PRMarker_wellFormed m then None else Some m)"

definition verifiedMarker :: "pr_env \<Rightarrow> repo_state \<Rightarrow> pull_request \<Rightarrow> pr_marker option" where
  "verifiedMarker env rs pr = (case parsePRMarker env (puBody pr) of
       None \<Rightarrow> None
     | Some m \<Rightarrow>
         if \<not> PRMarker_verify (evHash env) m (giID (rtInfo rs)) then None
         else if \<not> branchMatches m (puHeadRef pr) then None else Some m)"

definition recordFromPull :: "repo_state \<Rightarrow> pull_request \<Rightarrow> pr_marker \<Rightarrow> pr_record" where
  "recordFromPull rs pr m = fst (markModified
     \<lparr>prRepo = rtName rs, prRepoID = giID (rtInfo rs), prKind = kindOf (pmKind m), prTargetKey = pmTargetKey m,
      prUpdateKey = pmUpdateKey m, prAttemptKey = pmAttemptKey m, prBranch = puHeadRef pr, prNumber = puNumber pr,
      prBaseBranch = pmBaseBranch m, prBaseSHA = pmBaseSHA m, prHeadSHA = pmHeadSHA m, prPath = pmPath m,
      prLocations = sortedCopy (pmLocations m), prState = pullState pr, prReplacedBy = 0, prSupersededBy = 0,
      prUserModified = False, prFixTargets = pmFixTargets m, prServices = [], prCurrentRef = pmCurrentRef m,
      prCandidateTag = pmCandidateTag m, prCandidateDigest = pmCandidateDigest m, prAffected = pmAffected m,
      prReplacing = [], prRecovered = True, prMarkerOnly = True, prEvidence = None, prInputVerified = False,
      prLang = pmLang m\<rparr> pr)"

subsection \<open>Reading the repositories\<close>

fun blockMismatches :: "nat \<Rightarrow> string \<Rightarrow> int \<Rightarrow> repo_init list \<Rightarrow> unit prm" where
  "blockMismatches i name repoID [] = ret ()"
| "blockMismatches i name repoID (ri # ris) = do {
     (if equalFold (riRepo ri) name \<and> riRepoID ri \<noteq> repoID then blockRepo i PRProblemWriteBlocked ReasonRepositoryMismatch else ret ());
     blockMismatches i name repoID ris
   }"

definition haltReason :: "pr_run \<Rightarrow> string" where
  "haltReason r = (case rnHalt r of Some h \<Rightarrow> h | None \<Rightarrow> '''')"

definition loadRepo :: "pr_env \<Rightarrow> nat \<Rightarrow> unit prm" where
  "loadRepo env i = do {
     a \<leftarrow> active env;
     if \<not> a then do { reason \<leftarrow> look inactiveReason; modRepo i (\<lambda>rs. rs\<lparr>rtBlocked := reason\<rparr>) }
     else do {
       rs \<leftarrow> lookRepo i;
       ans \<leftarrow> ask (\<lambda>n. evRepository env n (rtName rs)) (\<lambda>_. Read (ReadRepository (rtName rs)));
       case ans of
         Inl err \<Rightarrow> do {
           h \<leftarrow> haltFor env err;
           if h then do { reason \<leftarrow> look haltReason; modRepo i (\<lambda>rs. rs\<lparr>rtBlocked := reason\<rparr>) }
           else blockRepo i PRProblemWriteBlocked ReasonReconcileFailed
         }
       | Inr info \<Rightarrow> do {
           modRepo i (\<lambda>rs. rs\<lparr>rtInfo := info\<rparr>);
           if \<not> equalFold (giFullName info) (rtName rs) then blockRepo i PRProblemWriteBlocked ReasonRepositoryMismatch
           else do {
             inits \<leftarrow> look (\<lambda>r. sfRepos (rnFile r));
             blockMismatches i (rtName rs) (giID info) inits;
             modRepo i (\<lambda>rs. if rtBlocked rs = '''' then rs\<lparr>rtOk := True\<rparr> else rs)
           }
         }
     }
   }"

fun forEach :: "('a \<Rightarrow> unit prm) \<Rightarrow> 'a list \<Rightarrow> unit prm" where
  "forEach f [] = ret ()"
| "forEach f (x # xs) = do { f x; forEach f xs }"

definition loadRepos :: "pr_env \<Rightarrow> unit prm" where
  "loadRepos env = do {
     n \<leftarrow> look (\<lambda>r. length (rnRepos r));
     forEach (loadRepo env) [0..<n]
   }"

subsection \<open>Rebuilding records\<close>

fun lastSuperseded :: "pr_env \<Rightarrow> int \<Rightarrow> string list \<Rightarrow> int" where
  "lastSuperseded env acc [] = acc"
| "lastSuperseded env acc (c # cs) = lastSuperseded env (if evSupersededBy env c > 0 then evSupersededBy env c else acc) cs"

fun recoverPulls :: "pr_env \<Rightarrow> nat \<Rightarrow> pull_request list \<Rightarrow> pr_record list option prm" where
  "recoverPulls env i [] = ret (Some [])"
| "recoverPulls env i (pr # prs) = do {
     rs \<leftarrow> lookRepo i;
     if \<not> ours rs pr then recoverPulls env i prs
     else if puBaseRepoID pr \<noteq> giID (rtInfo rs) then ret None
     else case verifiedMarker env rs pr of
       None \<Rightarrow> ret None
     | Some m \<Rightarrow> do {
         let rec = recordFromPull rs pr m;
         rec \<leftarrow> (if prState rec = PRStateClosed then do {
             cs \<leftarrow> listComments env i (puNumber pr);
             case cs of
               Inr bodies \<Rightarrow> ret (rec\<lparr>prSupersededBy := lastSuperseded env (prSupersededBy rec) bodies\<rparr>)
             | Inl err \<Rightarrow> do { haltFor env err; ret rec }
           } else ret rec);
         rest \<leftarrow> recoverPulls env i prs;
         ret (map_option (\<lambda>recs. rec # recs) rest)
       }
   }"

definition recoverRepo :: "pr_env \<Rightarrow> nat \<Rightarrow> pr_record list option prm" where
  "recoverRepo env i = do {
     a \<leftarrow> active env;
     if \<not> a then ret None
     else do {
       ans \<leftarrow> listPulls env i ''all'' '''';
       case ans of
         Inl err \<Rightarrow> do { haltFor env err; ret None }
       | Inr pulls \<Rightarrow> recoverPulls env i pulls
     }
   }"

fun recoverRepos :: "pr_env \<Rightarrow> nat list \<Rightarrow> (pr_record list \<times> repo_init list) option prm" where
  "recoverRepos env [] = ret (Some ([], []))"
| "recoverRepos env (i # is) = do {
     rs \<leftarrow> lookRepo i;
     if \<not> rtOk rs then ret None
     else do {
       ans \<leftarrow> recoverRepo env i;
       case ans of
         None \<Rightarrow> ret None
       | Some recs \<Rightarrow> do {
           rest \<leftarrow> recoverRepos env is;
           ret (map_option (\<lambda>(recs', inits). (recs @ recs', \<lparr>riRepo = rtName rs, riRepoID = giID (rtInfo rs)\<rparr> # inits)) rest)
         }
     }
   }"

definition recoverAll :: "pr_env \<Rightarrow> unit prm" where
  "recoverAll env = do {
     n \<leftarrow> look (\<lambda>r. length (rnRepos r));
     ans \<leftarrow> recoverRepos env [0..<n];
     case ans of
       None \<Rightarrow> do {
         forEach (\<lambda>i. modRepo i (\<lambda>rs. if rtBlocked rs = '''' then rs\<lparr>rtBlocked := ReasonRecordsUnverified\<rparr> else rs)) [0..<n];
         problem \<lparr>spCode = PRProblemRecordsUnverified, spRepo = '''', spTarget = '''', spReason = ReasonRecordsUnverified\<rparr>
       }
     | Some (recs, inits) \<Rightarrow> do {
         modFile (\<lambda>f. f\<lparr>sfPRs := recs, sfRepos := inits\<rparr>);
         save env;
         ret ()
       }
   }"

definition addRecovered :: "pr_record \<Rightarrow> unit prm" where
  "addRecovered rec = do {
     have \<leftarrow> look (recordByNumber (prRepoID rec) (prNumber rec));
     if have = None then addPR rec else ret ()
   }"

fun initAdded :: "pr_env \<Rightarrow> nat list \<Rightarrow> unit prm" where
  "initAdded env [] = ret ()"
| "initAdded env (i # is) = do {
     rs \<leftarrow> lookRepo i;
     known \<leftarrow> look (\<lambda>r. list_ex (\<lambda>ri. equalFold (riRepo ri) (rtName rs)) (sfRepos (rnFile r)));
     if \<not> rtOk rs \<or> known then initAdded env is
     else do {
       ans \<leftarrow> recoverRepo env i;
       case ans of
         None \<Rightarrow> do {
           modRepo i (\<lambda>rs. rs\<lparr>rtOk := False\<rparr>);
           blockRepo i PRProblemRecordsUnverified ReasonRecordsUnverified;
           initAdded env is
         }
       | Some recs \<Rightarrow> do {
           forEach addRecovered recs;
           modFile (\<lambda>f. f\<lparr>sfRepos := sfRepos f @ [\<lparr>riRepo = rtName rs, riRepoID = giID (rtInfo rs)\<rparr>]\<rparr>);
           ok \<leftarrow> save env;
           if \<not> ok then ret () else initAdded env is
         }
     }
   }"

definition initAddedRepos :: "pr_env \<Rightarrow> unit prm" where
  "initAddedRepos env = do {
     n \<leftarrow> look (\<lambda>r. length (rnRepos r));
     initAdded env [0..<n]
   }"

subsection \<open>Settling an attempt\<close>

definition branchPulls :: "repo_state \<Rightarrow> pull_request list \<Rightarrow> string \<Rightarrow> pull_request list" where
  "branchPulls rs pulls branch =
     filter (\<lambda>pr. puHeadRef pr = branch \<and> equalFold (puHeadRepoFullName pr) (giFullName (rtInfo rs))) pulls"

definition attemptRecord :: "pr_env \<Rightarrow> attempt_record \<Rightarrow> pull_request \<Rightarrow> pr_record" where
  "attemptRecord env a pr =
     (let rec = fst (markModified (recordFromAttempt a pr) pr);
          bad = (case parsePRMarker env (puBody pr) of
              None \<Rightarrow> True
            | Some m \<Rightarrow> pmUpdateKey m \<noteq> atUpdateKey a \<or> pmAttemptKey m \<noteq> atAttemptKey a \<or> pmHeadSHA m \<noteq> atCommitSHA a
                \<or> pmBaseSHA m \<noteq> atBaseSHA a \<or> pmRepoID m \<noteq> atRepoID a);
          rec = (if \<not> prUserModified rec \<and> bad then rec\<lparr>prUserModified := True\<rparr> else rec) in
      if \<not> prUserModified rec \<and> atCommitSHA a = '''' then rec\<lparr>prUserModified := True\<rparr> else rec)"

definition addAttemptPull :: "pr_env \<Rightarrow> nat \<Rightarrow> attempt_record \<Rightarrow> pull_request \<Rightarrow> unit prm" where
  "addAttemptPull env i a pr = do {
     rs \<leftarrow> lookRepo i;
     have \<leftarrow> look (recordByNumber (giID (rtInfo rs)) (puNumber pr));
     if have \<noteq> None then ret () else addPR (attemptRecord env a pr)
   }"

definition distrustPull :: "nat \<Rightarrow> pull_request \<Rightarrow> unit prm" where
  "distrustPull i pr = do {
     rs \<leftarrow> lookRepo i;
     have \<leftarrow> look (recordByNumber (giID (rtInfo rs)) (puNumber pr));
     case have of None \<Rightarrow> ret () | Some k \<Rightarrow> modPR k (\<lambda>rec. rec\<lparr>prUserModified := True\<rparr>)
   }"

definition settleAttemptPulls :: "pr_env \<Rightarrow> nat \<Rightarrow> nat \<Rightarrow> pull_request list \<Rightarrow> unit prm" where
  "settleAttemptPulls env i k pulls = do {
     a \<leftarrow> lookAttempt k;
     forEach (addAttemptPull env i a) pulls;
     if length pulls > 1 then do {
       forEach (distrustPull i) pulls;
       modAttempt k (\<lambda>a. a\<lparr>atStatus := AttemptBlocked\<rparr>);
       blockTarget i a ReasonAttemptUnsettled
     } else do {
       settle (atPendingOp a) ResultOK;
       modAttempt k (\<lambda>a. a\<lparr>atStatus := AttemptPRCreated, atPRNumber := puNumber (pulls ! 0), atPendingOp := ''''\<rparr>)
     }
   }"

definition reconcileAttempt :: "pr_env \<Rightarrow> nat \<Rightarrow> nat \<Rightarrow> bool prm" where
  "reconcileAttempt env i k = do {
     rs \<leftarrow> lookRepo i;
     a \<leftarrow> lookAttempt k;
     ans \<leftarrow> listPulls env i ''all'' (owner rs @ '':'' @ atBranch a);
     case ans of
       Inl err \<Rightarrow> do {
         h \<leftarrow> haltFor env err;
         (if h then ret () else blockTarget i a ReasonReconcileFailed);
         ret False
       }
     | Inr found \<Rightarrow>
         (let pulls = branchPulls rs found (atBranch a) in
          if pulls \<noteq> [] then do { settleAttemptPulls env i k pulls; ret True }
          else do {
            ref \<leftarrow> readRef env (rtName rs) (atBranch a);
            case ref of
              Inl err \<Rightarrow> do {
                h \<leftarrow> haltFor env err;
                (if h then ret () else blockTarget i a ReasonReconcileFailed);
                ret False
              }
            | Inr None \<Rightarrow> do {
                kd \<leftarrow> look (opKindOf (atPendingOp a));
                settle (atPendingOp a) (if kd = Some OpCreateRef \<or> kd = Some OpCreatePull then ResultFailed else ResultUnknown);
                modAttempt k (\<lambda>a. a\<lparr>atStatus := AttemptAbandoned, atPendingOp := ''''\<rparr>);
                ret True
              }
            | Inr (Some sha) \<Rightarrow>
                if atCommitSHA a \<noteq> '''' \<and> sha = atCommitSHA a then do {
                  settle (atPendingOp a) (if atStatus a = AttemptPRRequested then ResultFailed else ResultOK);
                  modAttempt k (\<lambda>a. a\<lparr>atStatus := AttemptRefCreated, atPendingOp := ''''\<rparr>);
                  modRepo i (\<lambda>rs. rs\<lparr>rtResumable := atAttemptKey a # rtResumable rs\<rparr>);
                  ret True
                } else do {
                  modAttempt k (\<lambda>a. a\<lparr>atStatus := AttemptBlocked\<rparr>);
                  blockTarget i a ReasonBranchNotOurs;
                  ret True
                }
          })
   }"

subsection \<open>Settling a close (pr_replace.go)\<close>

definition findSupersede :: "pr_env \<Rightarrow> nat \<Rightarrow> pr_record \<Rightarrow> int \<Rightarrow> (go_error + bool) prm" where
  "findSupersede env i rec oldNumber = do {
     ans \<leftarrow> listComments env i oldNumber;
     ret (case ans of Inl err \<Rightarrow> Inl err | Inr cs \<Rightarrow> Inr (list_ex (\<lambda>c. evHasSupersede env c (prNumber rec) (prUpdateKey rec)) cs))
   }"

definition modReplacing :: "nat \<Rightarrow> nat \<Rightarrow> (replacement \<Rightarrow> replacement) \<Rightarrow> unit prm" where
  "modReplacing k j f = modPR k (\<lambda>rec. rec\<lparr>prReplacing := (prReplacing rec)[j := f (prReplacing rec ! j)]\<rparr>)"

definition settleClose :: "pr_env \<Rightarrow> nat \<Rightarrow> nat \<Rightarrow> nat \<Rightarrow> bool prm" where
  "settleClose env i k j = do {
     rs \<leftarrow> lookRepo i;
     rec \<leftarrow> lookPR k;
     let rp = prReplacing rec ! j;
     o' \<leftarrow> look (recordByNumber (prRepoID rec) (rpOldNumber rp));
     case o' of
       None \<Rightarrow> do { modReplacing k j (\<lambda>rp. rp\<lparr>rpState := ReplacementAbandoned\<rparr>); ret True }
     | Some oi \<Rightarrow> do {
         old \<leftarrow> lookPR oi;
         ans \<leftarrow> readPull env (rtName rs) (prNumber old);
         case ans of
           Inl err \<Rightarrow> do { haltFor env err; ret False }
         | Inr pr \<Rightarrow>
             if pullState pr = PRStateMerged then do {
               settle (rpPendingOp rp) ResultFailed;
               modPR oi (\<lambda>old. old\<lparr>prState := PRStateMerged\<rparr>);
               modReplacing k j (\<lambda>rp. rp\<lparr>rpState := ReplacementAbandoned, rpPendingOp := ''''\<rparr>);
               ret True
             } else if pullState pr = PRStateClosed then do {
               found \<leftarrow> findSupersede env i rec (prNumber old);
               case found of
                 Inl err \<Rightarrow> do { haltFor env err; ret False }
               | Inr f \<Rightarrow> do {
                   settle (rpPendingOp rp) ResultOK;
                   modPR oi (\<lambda>old. if f then old\<lparr>prState := PRStateReplaced, prReplacedBy := prNumber rec\<rparr>
                                    else old\<lparr>prState := PRStateClosed, prSupersededBy := prNumber rec\<rparr>);
                   modReplacing k j (\<lambda>rp. rp\<lparr>rpState := ReplacementDone, rpPendingOp := ''''\<rparr>);
                   ret True
                 }
             } else do {
               settle (rpPendingOp rp) ResultFailed;
               modReplacing k j (\<lambda>rp. rp\<lparr>rpState := ReplacementCommented, rpPendingOp := ''''\<rparr>);
               ret True
             }
       }
   }"

subsection \<open>Reconciling a repository\<close>

definition failRepo :: "pr_env \<Rightarrow> nat \<Rightarrow> go_error \<Rightarrow> unit prm" where
  "failRepo env i err = do {
     h \<leftarrow> haltFor env err;
     if h then do { reason \<leftarrow> look haltReason; modRepo i (\<lambda>rs. rs\<lparr>rtBlocked := reason\<rparr>) }
     else blockRepo i PRProblemWriteBlocked ReasonReconcileFailed
   }"

text \<open>The open pull requests: \<open>None\<close> when the repository is blocked, else the numbers seen.\<close>

fun reconcileOpen :: "pr_env \<Rightarrow> nat \<Rightarrow> pull_request list \<Rightarrow> int list \<Rightarrow> int list option prm" where
  "reconcileOpen env i [] seen = ret (Some seen)"
| "reconcileOpen env i (pr # prs) seen = do {
     rs \<leftarrow> lookRepo i;
     if \<not> ours rs pr then reconcileOpen env i prs seen
     else do {
       let seen = puNumber pr # seen;
       have \<leftarrow> look (recordByNumber (giID (rtInfo rs)) (puNumber pr));
       case have of
         Some k \<Rightarrow> do {
           modPR k (\<lambda>rec. fst (markModified (rec\<lparr>prState := PRStateOpen\<rparr>) pr));
           reconcileOpen env i prs seen
         }
       | None \<Rightarrow>
           (case verifiedMarker env rs pr of
              None \<Rightarrow> do { blockRepo i PRProblemRecordsUnverified ReasonRecordsUnverified; ret None }
            | Some m \<Rightarrow> do {
                k \<leftarrow> look (attemptByKey (pmAttemptKey m));
                a \<leftarrow> look (\<lambda>r. map_option (\<lambda>k. sfAttempts (rnFile r) ! k) k);
                (case a of
                   Some a \<Rightarrow>
                     if atRepoID a = giID (rtInfo rs) then
                       (if \<not> settled (atStatus a) \<and> puHeadRef pr = atBranch a then ret ()
                        else addPR ((fst (markModified (recordFromAttempt a pr) pr))\<lparr>prUserModified := True\<rparr>))
                     else addPR (recordFromPull rs pr m)
                 | None \<Rightarrow> addPR (recordFromPull rs pr m));
                reconcileOpen env i prs seen
              })
     }
   }"

fun reconcileRecords :: "pr_env \<Rightarrow> nat \<Rightarrow> int list \<Rightarrow> nat list \<Rightarrow> bool prm" where
  "reconcileRecords env i seen [] = ret True"
| "reconcileRecords env i seen (k # ks) = do {
     rs \<leftarrow> lookRepo i;
     rec \<leftarrow> lookPR k;
     if prRepoID rec \<noteq> giID (rtInfo rs) \<or> prState rec \<noteq> PRStateOpen \<or> prNumber rec \<in> set seen then reconcileRecords env i seen ks
     else do {
       ans \<leftarrow> readPull env (rtName rs) (prNumber rec);
       case ans of
         Inl err \<Rightarrow> do { failRepo env i err; save env; ret False }
       | Inr pr \<Rightarrow> do {
           modPR k (\<lambda>rec. fst (markModified (rec\<lparr>prState := pullState pr\<rparr>) pr));
           reconcileRecords env i seen ks
         }
     }
   }"

definition failChecked :: "pr_env \<Rightarrow> nat \<Rightarrow> unit prm" where
  "failChecked env i = do {
     h \<leftarrow> look rnHalt;
     (case h of
        Some reason \<Rightarrow> modRepo i (\<lambda>rs. rs\<lparr>rtBlocked := reason\<rparr>)
      | None \<Rightarrow> blockRepo i PRProblemWriteBlocked ReasonReconcileFailed);
     save env;
     ret ()
   }"

fun reconcileAttempts :: "pr_env \<Rightarrow> nat \<Rightarrow> nat list \<Rightarrow> bool prm" where
  "reconcileAttempts env i [] = ret True"
| "reconcileAttempts env i (k # ks) = do {
     rs \<leftarrow> lookRepo i;
     a \<leftarrow> lookAttempt k;
     if atRepoID a \<noteq> giID (rtInfo rs) \<or> settled (atStatus a) then reconcileAttempts env i ks
     else do {
       ok \<leftarrow> reconcileAttempt env i k;
       if \<not> ok then do { failChecked env i; ret False }
       else do {
         ok \<leftarrow> save env;
         if \<not> ok then ret False else reconcileAttempts env i ks
       }
     }
   }"

fun settleReplacements :: "pr_env \<Rightarrow> nat \<Rightarrow> nat \<Rightarrow> nat list \<Rightarrow> bool prm" where
  "settleReplacements env i k [] = ret True"
| "settleReplacements env i k (j # js) = do {
     rec \<leftarrow> lookPR k;
     if rpState (prReplacing rec ! j) \<noteq> ReplacementClosed then settleReplacements env i k js
     else do {
       ok \<leftarrow> settleClose env i k j;
       if \<not> ok then do { failChecked env i; ret False } else settleReplacements env i k js
     }
   }"

fun settleRecords :: "pr_env \<Rightarrow> nat \<Rightarrow> nat list \<Rightarrow> bool prm" where
  "settleRecords env i [] = ret True"
| "settleRecords env i (k # ks) = do {
     rs \<leftarrow> lookRepo i;
     rec \<leftarrow> lookPR k;
     if prRepoID rec \<noteq> giID (rtInfo rs) then settleRecords env i ks
     else do {
       ok \<leftarrow> settleReplacements env i k [0..<length (prReplacing rec)];
       if \<not> ok then ret False else settleRecords env i ks
     }
   }"

definition reconcileFound :: "pr_env \<Rightarrow> nat \<Rightarrow> int list \<Rightarrow> unit prm" where
  "reconcileFound env i seen = do {
     n \<leftarrow> look (\<lambda>r. length (sfPRs (rnFile r)));
     ok \<leftarrow> reconcileRecords env i seen [0..<n];
     if \<not> ok then ret ()
     else do {
       ok \<leftarrow> save env;
       if \<not> ok then ret ()
       else do {
         m \<leftarrow> look (\<lambda>r. length (sfAttempts (rnFile r)));
         ok \<leftarrow> reconcileAttempts env i [0..<m];
         if \<not> ok then ret ()
         else do {
           n \<leftarrow> look (\<lambda>r. length (sfPRs (rnFile r)));
           ok \<leftarrow> settleRecords env i [0..<n];
           if \<not> ok then ret ()
           else do {
             ok \<leftarrow> save env;
             if ok then modRepo i (\<lambda>rs. rs\<lparr>rtReconciled := True\<rparr>) else ret ()
           }
         }
       }
     }
   }"

definition reconcileRepo :: "pr_env \<Rightarrow> nat \<Rightarrow> unit prm" where
  "reconcileRepo env i = do {
     rs \<leftarrow> lookRepo i;
     if \<not> rtOk rs \<or> rtBlocked rs \<noteq> '''' then ret ()
     else do {
       a \<leftarrow> active env;
       if \<not> a then ret ()
       else do {
         ans \<leftarrow> listPulls env i ''open'' '''';
         case ans of
           Inl err \<Rightarrow> failRepo env i err
         | Inr prs \<Rightarrow> do {
             seen \<leftarrow> reconcileOpen env i prs [];
             case seen of None \<Rightarrow> ret () | Some seen \<Rightarrow> reconcileFound env i seen
           }
       }
     }
   }"

subsection \<open>Reading the repositories makes only steps of a run\<close>

lemma quiet_blockMismatches [quiet]: "quietOp (blockMismatches i name rid ris)"
  by (induction i name rid ris rule: blockMismatches.induct) (auto intro!: quiet)

lemma free_forEach [free]: "(\<And>x. freeOp (f x)) \<Longrightarrow> freeOp (forEach f xs)"
  by (induction f xs rule: forEach.induct) (auto intro!: free)

lemma keeps_forEach [keeps]: "(\<And>x. keepsOp (f x)) \<Longrightarrow> keepsOp (forEach f xs)"
  by (induction f xs rule: forEach.induct) (auto intro!: keeps)

lemmas free_blockMismatches [free] = quiet_blockMismatches [THEN quiet_free]

lemma free_loadRepos [free]: "freeOp (loadRepos env)"
  unfolding loadRepos_def loadRepo_def by (intro free) (auto simp: isSent_def)

lemma quiet_recoverPulls [quiet]: "quietOp (recoverPulls env i prs)"
  by (induction env i prs rule: recoverPulls.induct) (auto intro!: quiet simp: Let_def)

lemma quiet_recoverRepo [quiet]: "quietOp (recoverRepo env i)"
  unfolding recoverRepo_def by (intro quiet)

lemma quiet_recoverRepos [quiet]: "quietOp (recoverRepos env is)"
  by (induction env "is" rule: recoverRepos.induct) (auto intro!: quiet)

lemmas keeps_recoverRepo [keeps] = quiet_recoverRepo [THEN quiet_keeps]
lemmas free_recoverRepo [free] = quiet_recoverRepo [THEN quiet_free]

lemma hoare_recoverAll: "hoare (\<lambda>r. sfPRs (rnFile r) = []) (recoverAll env) (\<lambda>_ _. True)"
proof -
  have fresh: "hoare (\<lambda>r. sfPRs (rnFile r) = []) (modFile (\<lambda>f. f\<lparr>sfPRs := recs, sfRepos := inits\<rparr>)) (\<lambda>_ _. True)" for recs inits
    unfolding modFile_def
    by (rule hoare_change) (auto intro!: r_into_rtranclp prStep.recorded simp: fileGrow_def atts.R_refl listGrow_def)
  have st: "stable (\<lambda>r. sfPRs (rnFile r) = [])" using stable_records [of "\<lambda>prs _ _. prs = []"] .
  show ?thesis
    unfolding recoverAll_def
    apply (rule hoare_bind [OF hoare_quiet [OF _ st]], intro quiet)+
    apply (intro hoare_option hoare_prod)
     apply (rule free_hoare, intro free)
    apply (rule hoare_bind [OF fresh], rule free_hoare, intro free)
    done
qed

lemma keeps_addRecovered [keeps]: "keepsOp (addRecovered rec)"
  unfolding addRecovered_def by (intro keeps)

lemmas free_addRecovered [free] = keeps_addRecovered [THEN keeps_free]

lemma free_initAdded: "freeOp (initAdded env is)"
  by (induction env "is" rule: initAdded.induct) (auto intro!: free)

lemma free_initAddedRepos [free]: "freeOp (initAddedRepos env)"
  unfolding initAddedRepos_def by (intro free free_initAdded)

subsection \<open>Settling makes only steps of a run\<close>

lemmas keep_bind = hoare_bind [OF keepsD]

lemma keeps_addAttemptPull [keeps]: "keepsOp (addAttemptPull env i a pr)"
  unfolding addAttemptPull_def by (intro keeps)

lemma keeps_distrustPull [keeps]: "keepsOp (distrustPull i pr)"
  unfolding distrustPull_def by (intro keeps) auto

lemma hoare_settleAttemptPulls:
  "hoare (\<lambda>r. openAttempt k (sfAttempts (rnFile r))) (settleAttemptPulls env i k pulls) (\<lambda>_ _. True)"
  unfolding settleAttemptPulls_def
  apply (rule keep_bind, intro keeps)+
  apply (rule hoare_if)
   apply (rule keep_bind, intro keeps)
   apply (rule hoare_bind [OF hoare_modAttempt], simp, rule free_hoare, intro free)
  apply (rule keep_bind, intro keeps)
  apply (rule hoare_modAttempt, simp)
  done

lemma hoare_reconcileAttempt:
  "hoare (\<lambda>r. openAttempt k (sfAttempts (rnFile r))) (reconcileAttempt env i k) (\<lambda>_ _. True)"
proof -
  have set: "hoare (\<lambda>r. openAttempt k (sfAttempts (rnFile r))) (State_Monad.bind (modAttempt k f) g) (\<lambda>_ _. True)"
    if "\<And>a. atAttemptKey (f a) = atAttemptKey a" "\<And>u. freeOp (g u)" for f and g :: "unit \<Rightarrow> bool prm"
    using hoare_bind [OF hoare_modAttempt [OF that(1)] free_hoare [OF that(2)]] .
  have pulls: "hoare (\<lambda>r. openAttempt k (sfAttempts (rnFile r))) (do { settleAttemptPulls env i k ps; ret True }) (\<lambda>_ _. True)" for ps
    by (rule hoare_bind [OF hoare_settleAttemptPulls]) (rule free_hoare, intro free)
  show ?thesis
    unfolding reconcileAttempt_def Let_def
    apply (rule keep_bind, intro keeps)+
    apply (rule hoare_sum)
     apply (rule free_hoare, intro free)
    apply (rule hoare_if)
     apply (rule pulls)
    apply (rule keep_bind, intro keeps)
    apply (rule hoare_sum)
     apply (rule free_hoare, intro free)
    apply (rule hoare_option)
     apply (rule keep_bind, intro keeps)+
     apply (rule set, simp, intro free)
    apply (rule hoare_if)
     apply (rule keep_bind, intro keeps)
     apply (rule set, simp, intro free)
    apply (rule set, simp, intro free)
    done
qed

text \<open>A replacement that is not over yet stays so until it is settled.\<close>

definition openReplacement :: "nat \<Rightarrow> nat \<Rightarrow> pr_record list \<Rightarrow> bool" where
  "openReplacement k j prs \<longleftrightarrow> (k < length prs \<longrightarrow> j < length (prReplacing (prs ! k)) \<longrightarrow> \<not> terminal (prReplacing (prs ! k) ! j))"

lemma hoare_modReplacing:
  assumes "\<And>rp. rpOldNumber (f rp) = rpOldNumber rp"
  shows "hoare (\<lambda>r. openReplacement k j (sfPRs (rnFile r))) (modReplacing k j f) (\<lambda>_ _. True)"
  unfolding modReplacing_def modPR_def modFile_def
proof (rule hoare_change)
  fix r :: pr_run assume r: "openReplacement k j (sfPRs (rnFile r))"
  let ?prs = "sfPRs (rnFile r)"
  let ?rec = "?prs ! k"
  have "prGrow ?rec (?rec\<lparr>prReplacing := (prReplacing ?rec)[j := f (prReplacing ?rec ! j)]\<rparr>)" if "k < length ?prs"
    unfolding prGrow_def replGrow_listGrow
    using r assms that by (auto simp: openReplacement_def intro!: repls.grow_update)
  then show "prog r (r\<lparr>rnFile := (rnFile r)\<lparr>sfPRs := ?prs[k := ?rec\<lparr>prReplacing := (prReplacing ?rec)[j := f (prReplacing ?rec ! j)]\<rparr>]\<rparr>\<rparr>) \<and> True"
    by (intro conjI r_into_rtranclp prStep.recorded fileGrow_PRs pulls.grow_update) auto
qed

lemma hoare_replacing_quiet:
  "quietOp m \<Longrightarrow> hoare (\<lambda>r. openReplacement k j (sfPRs (rnFile r))) m (\<lambda>_ r. openReplacement k j (sfPRs (rnFile r)))"
  by (rule hoare_quiet, assumption) (rule stable_records [of "\<lambda>prs _ _. openReplacement k j prs"])

lemma hoare_replacing_modPR:
  assumes "\<And>rec. prGrow rec (f rec)" "\<And>rec. prReplacing (f rec) = prReplacing rec"
  shows "hoare (\<lambda>r. openReplacement k j (sfPRs (rnFile r))) (modPR oi f) (\<lambda>_ r. openReplacement k j (sfPRs (rnFile r)))"
  unfolding modPR_def modFile_def
proof (rule hoare_change)
  fix r :: pr_run assume r: "openReplacement k j (sfPRs (rnFile r))"
  have "openReplacement k j ((sfPRs (rnFile r))[oi := f (sfPRs (rnFile r) ! oi)])"
    using r assms(2) by (cases "oi = k") (auto simp: openReplacement_def)
  then show "prog r (r\<lparr>rnFile := (rnFile r)\<lparr>sfPRs := (sfPRs (rnFile r))[oi := f (sfPRs (rnFile r) ! oi)]\<rparr>\<rparr>) \<and>
      openReplacement k j (sfPRs (rnFile (r\<lparr>rnFile := (rnFile r)\<lparr>sfPRs := (sfPRs (rnFile r))[oi := f (sfPRs (rnFile r) ! oi)]\<rparr>\<rparr>)))"
    using assms(1) by (auto intro!: r_into_rtranclp prStep.recorded fileGrow_PRs pulls.grow_update)
qed

lemma quiet_findSupersede [quiet]: "quietOp (findSupersede env i rec n)"
  unfolding findSupersede_def by (intro quiet)

lemma hoare_settleClose:
  "hoare (\<lambda>r. openReplacement k j (sfPRs (rnFile r))) (settleClose env i k j) (\<lambda>_ _. True)"
proof -
  have set: "hoare (\<lambda>r. openReplacement k j (sfPRs (rnFile r))) (State_Monad.bind (modReplacing k j f) g) (\<lambda>_ _. True)"
    if "\<And>rp. rpOldNumber (f rp) = rpOldNumber rp" "\<And>u. freeOp (g u)" for f and g :: "unit \<Rightarrow> bool prm"
    using hoare_bind [OF hoare_modReplacing [OF that(1)] free_hoare [OF that(2)]] .
  show ?thesis
    unfolding settleClose_def Let_def
    apply (rule hoare_bind [OF hoare_replacing_quiet], intro quiet)+
    apply (rule hoare_option)
     apply (rule set, simp, intro free)
    apply (rule hoare_bind [OF hoare_replacing_quiet], intro quiet)+
    apply (rule hoare_sum)
     apply (rule free_hoare, intro free)
    apply (intro hoare_if)
      apply (rule hoare_bind [OF hoare_replacing_quiet], intro quiet)
      apply (rule hoare_bind [OF hoare_replacing_modPR], simp, simp)
      apply (rule set, simp, intro free)
     apply (rule hoare_bind [OF hoare_replacing_quiet], intro quiet)
     apply (rule hoare_sum)
      apply (rule free_hoare, intro free)
     apply (rule hoare_bind [OF hoare_replacing_quiet], intro quiet)
     apply (rule hoare_bind [OF hoare_replacing_modPR], simp, simp)
     apply (rule set, simp, intro free)
    apply (rule hoare_bind [OF hoare_replacing_quiet], intro quiet)
    apply (rule set, simp, intro free)
    done
qed

subsection \<open>Reconciling makes only steps of a run\<close>

lemma quiet_failRepo [quiet]: "quietOp (failRepo env i err)"
  unfolding failRepo_def by (intro quiet) auto

lemma quiet_failChecked [quiet]: "quietOp (failChecked env i)"
  unfolding failChecked_def by (intro quiet) auto

lemmas free_fail [free] = quiet_failRepo [THEN quiet_free] quiet_failChecked [THEN quiet_free]

lemma free_reconcileOpen [free]: "freeOp (reconcileOpen env i prs seen)"
  by (induction env i prs seen rule: reconcileOpen.induct) (auto intro!: free simp: Let_def)

lemma free_reconcileRecords [free]: "freeOp (reconcileRecords env i seen ks)"
  by (induction env i seen ks rule: reconcileRecords.induct) (auto intro!: free)



lemma free_reconcileAttempts [free]: "freeOp (reconcileAttempts env i ks)"
proof (induction ks)
  case (Cons k ks)
  let ?rest = "do { ok \<leftarrow> reconcileAttempt env i k;
       if \<not> ok then do { failChecked env i; ret False }
       else do { ok \<leftarrow> save env; if \<not> ok then ret False else reconcileAttempts env i ks } }"
  have rest: "hoare (\<lambda>r. openAttempt k (sfAttempts (rnFile r))) ?rest (\<lambda>_ _. True)"
    using Cons by (intro hoare_bind [OF hoare_reconcileAttempt] free_hoare free) auto
  have "hoare (\<lambda>_. True) (lookAttempt k) (\<lambda>a r. \<not> settled (atStatus a) \<longrightarrow> openAttempt k (sfAttempts (rnFile r)))"
    by (rule hoare_look) (auto simp: openAttempt_def settled_def)
  then have body: "hoare (\<lambda>_. True) (do { a \<leftarrow> lookAttempt k;
      if atRepoID a \<noteq> giID (rtInfo rs) \<or> settled (atStatus a) then reconcileAttempts env i ks else ?rest }) (\<lambda>_ _. True)" for rs
    by (rule hoare_bind) (auto intro!: hoare_if free_hoare Cons hoare_pre [OF rest])
  show ?case unfolding reconcileAttempts.simps freeOp_def by (rule hoare_bind [OF quiet_hoare [OF quiet_look]]) (rule body)
qed (simp add: free)

lemma free_settleReplacements [free]: "freeOp (settleReplacements env i k js)"
proof (induction js)
  case (Cons j js)
  let ?rest = "do { ok \<leftarrow> settleClose env i k j;
       if \<not> ok then do { failChecked env i; ret False } else settleReplacements env i k js }"
  have rest: "hoare (\<lambda>r. openReplacement k j (sfPRs (rnFile r))) ?rest (\<lambda>_ _. True)"
    using Cons by (intro hoare_bind [OF hoare_settleClose] free_hoare free) auto
  have "hoare (\<lambda>_. True) (lookPR k) (\<lambda>rec r. rpState (prReplacing rec ! j) = ReplacementClosed \<longrightarrow> openReplacement k j (sfPRs (rnFile r)))"
    by (rule hoare_look) (auto simp: openReplacement_def terminal_def)
  then show ?case unfolding settleReplacements.simps freeOp_def
    by (rule hoare_bind) (auto intro!: hoare_if free_hoare Cons hoare_pre [OF rest])
qed (simp add: free)

lemma free_settleRecords [free]: "freeOp (settleRecords env i ks)"
  by (induction env i ks rule: settleRecords.induct) (auto intro!: free)

lemma free_reconcileRepo [free]: "freeOp (reconcileRepo env i)"
  unfolding reconcileRepo_def reconcileFound_def by (intro free)

end
