(* ===== verification/PR_Replace.thy ===== *)
theory PR_Replace
  imports PR_Reconcile
begin

section \<open>Replacing an older pull request\<close>

text \<open>
  \<open>internal/remediation/pr_replace.go\<close>: an older pull request is closed in favour of a newer one when the
  newer one edits the same places and resolves everything the older one claimed. Both are read again
  before each of the two writes, the comment and the close. The lemmas show that a pull request changed
  by someone else or known only by its marker is never commented on or closed. A record without evidence
  that is not of a language update resolves nothing here; the code would dereference nil, but makes no
  such record: it is only reached with a language record, which a unit of another kind never has.
\<close>

subsection \<open>What a record resolves\<close>

definition evidencePairs :: "item_evidence \<Rightarrow> string list" where
  "evidencePairs it = map (\<lambda>v. pairKey (vsVulnID v) (vsPackage v)) (ieResolved it @ ieOtherResolved it)"

definition addLocation :: "string list \<Rightarrow> (string, string list) gmap \<Rightarrow> string \<Rightarrow> (string, string list) gmap" where
  "addLocation pairs perLoc loc = (case map_of perLoc loc of
       None \<Rightarrow> mput loc pairs perLoc
     | Some acc \<Rightarrow> mput loc (filter (\<lambda>k. k \<in> set pairs) acc) perLoc)"

definition resolvedFromEvidence :: "verification_summary \<Rightarrow> string list" where
  "resolvedFromEvidence ev =
     (let perLoc = foldl (\<lambda>m it. foldl (addLocation (evidencePairs it)) m (ieLocations it)) [] (vmItems ev) in
      concat (map (\<lambda>(loc, pairs). map (\<lambda>k. loc @ [CHR 0x00] @ k) pairs) perLoc))"

definition newerPatch :: "string \<Rightarrow> string \<Rightarrow> bool" where
  "newerPatch a b = (case (ParseTagVersion a, ParseTagVersion b) of
       (Some va, Some vb) \<Rightarrow> sameSeries va vb \<and> tvPatch vb > tvPatch va
     | _ \<Rightarrow> False)"

text \<open>The pairs of a target's key and the running image it is resolved for.\<close>

definition resolvedEntitiesFromEvidence :: "key_hash \<Rightarrow> verification_summary \<Rightarrow> (string \<times> string) list" where
  "resolvedEntitiesFromEvidence hsh ev =
     concat (map (\<lambda>it. concat (map (\<lambda>loc. map (\<lambda>v.
         (FixTarget_key hsh \<lparr>ftLocation = loc, ftVulnID = vsVulnID v, ftPackage = vsPackage v, ftLayers = vsLayers v,
            ftLayersDigest = '''', ftEntities = []\<rparr>, ieItemKey it)) (ieResolved it)) (ieLocations it))) (vmItems ev))"

definition inheritsFrom :: "key_hash \<Rightarrow> pr_record \<Rightarrow> fix_target \<Rightarrow> bool" where
  "inheritsFrom hsh rec f =
     (if kindOf (prKind rec) = prKindLanguage then FixTarget_key hsh f \<in> set (map (FixTarget_key hsh) (prFixTargets rec))
      else case prEvidence rec of
        None \<Rightarrow> False
      | Some ev \<Rightarrow>
          if kindOf (prKind rec) = prKindDockerfile then
            (let have = map snd (filter (\<lambda>p. fst p = FixTarget_key hsh f) (resolvedEntitiesFromEvidence hsh ev)) in
             if ftEntities f = [] then have \<noteq> [] else list_all (\<lambda>e. e \<in> set have) (ftEntities f))
          else FixTarget_key hsh f \<in> set (resolvedFromEvidence ev))"

definition joinNul :: "string list \<Rightarrow> string" where
  "joinNul = joinWith [CHR 0x00]"

text \<open>\<open>replaceable\<close>; \<open>same\<close> says that the two are the same record.\<close>

definition replaceable :: "key_hash \<Rightarrow> bool \<Rightarrow> pr_record \<Rightarrow> pr_record \<Rightarrow> bool" where
  "replaceable hsh same rec old =
     (if same \<or> prRepoID old \<noteq> prRepoID rec \<or> prState old \<noteq> PRStateOpen \<or> prUserModified old \<or> prMarkerOnly old
         \<or> prUserModified rec \<or> prMarkerOnly rec \<or> prTargetKey old \<noteq> prTargetKey rec \<or> prUpdateKey old = prUpdateKey rec
         \<or> prBaseBranch old \<noteq> prBaseBranch rec \<or> prPath old \<noteq> prPath rec \<or> joinNul (prLocations old) \<noteq> joinNul (prLocations rec)
         \<or> joinNul (prAffected old) \<noteq> joinNul (prAffected rec) then False
      else if kindOf (prKind rec) = prKindLanguage \<and> (kindOf (prKind old) \<noteq> prKindLanguage \<or> prFixTargets old = []) then False
      else if kindOf (prKind rec) \<noteq> prKindLanguage
         \<and> (case RepositoryKey (prCurrentRef old) of None \<Rightarrow> '''' | Some k \<Rightarrow> k) = '''' then False
      else if kindOf (prKind rec) \<noteq> prKindLanguage
         \<and> (RepositoryKey (prCurrentRef old) \<noteq> RepositoryKey (prCurrentRef rec)
            \<or> \<not> newerPatch (prCandidateTag old) (prCandidateTag rec) \<or> prFixTargets old = []) then False
      else list_all (inheritsFrom hsh rec) (prFixTargets old))"

subsection \<open>Deciding\<close>

definition targetBlocked :: "int \<Rightarrow> string \<Rightarrow> pr_run \<Rightarrow> bool" where
  "targetBlocked repoID key r \<longleftrightarrow>
     list_ex (\<lambda>rs. rtOk rs \<and> giID (rtInfo rs) = repoID \<and> key \<in> set (rtBlockedTargets rs)) (rnRepos r)
     \<or> list_ex (\<lambda>a. atRepoID a = repoID \<and> atTargetKey a = key \<and> atStatus a = AttemptBlocked) (sfAttempts (rnFile r))"

definition replacementInProgress :: "pr_record \<Rightarrow> pr_run \<Rightarrow> bool" where
  "replacementInProgress old r \<longleftrightarrow>
     list_ex (\<lambda>rec. prRepoID rec = prRepoID old \<and> list_ex (\<lambda>rp. rpOldNumber rp = prNumber old \<and> \<not> terminal rp) (prReplacing rec))
       (sfPRs (rnFile r))"

fun addReplacements :: "pr_env \<Rightarrow> nat \<Rightarrow> nat list \<Rightarrow> bool prm" where
  "addReplacements env k [] = ret False"
| "addReplacements env k (o' # os) = do {
     rec \<leftarrow> lookPR k;
     old \<leftarrow> lookPR o';
     busy \<leftarrow> look (replacementInProgress old);
     if \<not> replaceable (evHash env) (o' = k) rec old \<or> busy then addReplacements env k os
     else do {
       modPR k (\<lambda>rec. rec\<lparr>prReplacing := prReplacing rec @ [\<lparr>rpOldNumber = prNumber old, rpState = ReplacementPending, rpPendingOp = ''''\<rparr>]\<rparr>);
       addReplacements env k os;
       ret True
     }
   }"

definition decideReplacements :: "pr_env \<Rightarrow> nat \<Rightarrow> unit prm" where
  "decideReplacements env k = do {
     rec \<leftarrow> lookPR k;
     blocked \<leftarrow> look (targetBlocked (prRepoID rec) (prTargetKey rec));
     if prUserModified rec \<or> prMarkerOnly rec \<or> prState rec \<noteq> PRStateOpen \<or> (prEvidence rec = None \<and> prLang rec = None) \<or> blocked then ret ()
     else do {
       n \<leftarrow> look (\<lambda>r. length (sfPRs (rnFile r)));
       changed \<leftarrow> addReplacements env k [0..<n];
       if changed then do { save env; ret () } else ret ()
     }
   }"

subsection \<open>Carrying out\<close>

definition abandonReplacement :: "pr_env \<Rightarrow> nat \<Rightarrow> nat \<Rightarrow> unit prm" where
  "abandonReplacement env k j = do {
     modReplacing k j (\<lambda>rp. rp\<lparr>rpState := ReplacementAbandoned\<rparr>);
     save env;
     ret ()
   }"

definition eligiblePair :: "pr_env \<Rightarrow> nat \<Rightarrow> nat \<Rightarrow> nat \<Rightarrow> bool prm" where
  "eligiblePair env k oi j = do {
     rec \<leftarrow> lookPR k;
     old \<leftarrow> lookPR oi;
     blocked \<leftarrow> look (targetBlocked (prRepoID rec) (prTargetKey rec));
     if blocked \<or> prUserModified rec \<or> prMarkerOnly rec \<or> prUserModified old \<or> prMarkerOnly old
     then do { abandonReplacement env k j; ret False }
     else ret True
   }"

definition checkOld :: "pr_env \<Rightarrow> nat \<Rightarrow> nat \<Rightarrow> nat \<Rightarrow> nat \<Rightarrow> bool prm" where
  "checkOld env i k oi j = do {
     rs \<leftarrow> lookRepo i;
     old \<leftarrow> lookPR oi;
     ans \<leftarrow> readPull env (rtName rs) (prNumber old);
     case ans of
       Inl err \<Rightarrow> do { haltFor env err; ret False }
     | Inr opr \<Rightarrow>
         if pullState opr = PRStateMerged then do {
           modPR oi (\<lambda>old. old\<lparr>prState := PRStateMerged\<rparr>);
           abandonReplacement env k j;
           ret False
         } else if pullState opr = PRStateClosed then do {
           rec \<leftarrow> lookPR k;
           modPR oi (\<lambda>old. if rpState (prReplacing rec ! j) = ReplacementCommented
             then old\<lparr>prState := PRStateClosed, prSupersededBy := prNumber rec\<rparr> else old\<lparr>prState := PRStateClosed\<rparr>);
           abandonReplacement env k j;
           ret False
         } else do {
           modPR oi (\<lambda>old. fst (markModified old opr));
           old \<leftarrow> lookPR oi;
           if prUserModified old then do { abandonReplacement env k j; ret False } else ret True
         }
   }"

definition checkPair :: "pr_env \<Rightarrow> nat \<Rightarrow> nat \<Rightarrow> nat \<Rightarrow> nat \<Rightarrow> bool prm" where
  "checkPair env i k oi j = do {
     ok \<leftarrow> eligiblePair env k oi j;
     if \<not> ok then ret False
     else do {
       rs \<leftarrow> lookRepo i;
       rec \<leftarrow> lookPR k;
       ans \<leftarrow> readPull env (rtName rs) (prNumber rec);
       case ans of
         Inl err \<Rightarrow> do { haltFor env err; ret False }
       | Inr npr \<Rightarrow>
           if pullState npr \<noteq> PRStateOpen then do {
             modPR k (\<lambda>rec. rec\<lparr>prState := pullState npr\<rparr>);
             abandonReplacement env k j;
             ret False
           } else do {
             modPR k (\<lambda>rec. fst (markModified rec npr));
             rec \<leftarrow> lookPR k;
             if prUserModified rec then do {
               modPR k (\<lambda>rec. rec\<lparr>prState := pullState npr\<rparr>);
               abandonReplacement env k j;
               ret False
             } else checkOld env i k oi j
           }
     }
   }"

definition parsePlatform :: "string \<Rightarrow> platform option" where
  "parsePlatform s = (case indexByte s (CHR ''/'') of
       None \<Rightarrow> None
     | Some i \<Rightarrow>
         (let os = take i s; arch = drop (Suc i) s in
          if os = '''' \<or> arch = '''' \<or> CHR ''/'' \<in> set arch then None
          else Some \<lparr>plOS = os, plArchitecture = arch, plVariant = ''''\<rparr>))"

definition repoOfRef :: "string \<Rightarrow> string" where
  "repoOfRef ref = (case RepositoryOf ref of Some repo \<Rightarrow> repo | None \<Rightarrow> ref)"

text \<open>The check of what the new pull request fixes, before anything is sent.\<close>

definition candidateHolds :: "pr_env \<Rightarrow> nat \<Rightarrow> nat \<Rightarrow> bool prm" where
  "candidateHolds env k j = do {
     rec \<leftarrow> lookPR k;
     if kindOf (prKind rec) = prKindLanguage then
       (if prLang rec = None \<or> prFixTargets rec = [] then do { abandonReplacement env k j; ret False } else ret True)
     else case prEvidence rec of
       None \<Rightarrow> do { abandonReplacement env k j; ret False }
     | Some ev \<Rightarrow>
         (case vmItems ev of
            [] \<Rightarrow> do { abandonReplacement env k j; ret False }
          | it # _ \<Rightarrow>
             (case parsePlatform (isPlatform (ieCandidate it)) of
                None \<Rightarrow> do { abandonReplacement env k j; ret False }
              | Some platform \<Rightarrow> do {
                  let ref = repoOfRef (prCurrentRef rec);
                  res \<leftarrow> ask (\<lambda>n. evResolve env n ref (prCandidateTag rec) platform) (\<lambda>_. Read (ResolveTag ref (prCandidateTag rec)));
                  case res of
                    Inl err \<Rightarrow> do { haltFor env err; ret False }
                  | Inr digest \<Rightarrow> if digest \<noteq> prCandidateDigest rec then do { abandonReplacement env k j; ret False } else ret True
                }))
   }"

definition isUnknown :: "go_error \<Rightarrow> bool" where "isUnknown err \<longleftrightarrow> errIs err ErrOutcomeUnknown"
definition isStopped :: "go_error \<Rightarrow> bool" where "isStopped err \<longleftrightarrow> errIs err ErrWritesStopped"

definition commentOp :: "string \<Rightarrow> pr_record \<Rightarrow> pr_record \<Rightarrow> op_event" where
  "commentOp repo rec old = zeroEvent\<lparr>oeRepo := repo, oeAttemptKey := prAttemptKey rec, oeNumber := prNumber old\<rparr>"

text \<open>The comment: true when the replacement goes on to the close.\<close>

definition sendComment :: "pr_env \<Rightarrow> nat \<Rightarrow> nat \<Rightarrow> nat \<Rightarrow> nat \<Rightarrow> bool prm" where
  "sendComment env i k oi j = do {
     rs \<leftarrow> lookRepo i;
     rec \<leftarrow> lookPR k;
     old \<leftarrow> lookPR oi;
     fits \<leftarrow> reserve 4;
     if \<not> fits then ret False
     else do {
       (opID, ans) \<leftarrow> write_op env (commentOp (rtName rs) rec old)
         (CreateIssueComment (rtName rs) (prNumber old) (prNumber rec) (prUpdateKey rec))
         (\<lambda>n. evSend env n (CreateIssueComment (rtName rs) (prNumber old) (prNumber rec) (prUpdateKey rec))) (\<lambda>_. '''');
       case ans of
         Inr _ \<Rightarrow> ret True
       | Inl err \<Rightarrow> do {
           halt \<leftarrow> look rnHalt;
           (if isUnknown err then do { modReplacing k j (\<lambda>rp. rp\<lparr>rpPendingOp := opID\<rparr>); save env; ret () }
            else if halt = None \<and> \<not> isStopped err then abandonReplacement env k j
            else ret ());
           ret False
         }
     }
   }"

definition replaceComment :: "pr_env \<Rightarrow> nat \<Rightarrow> nat \<Rightarrow> nat \<Rightarrow> nat \<Rightarrow> bool prm" where
  "replaceComment env i k oi j = do {
     ok \<leftarrow> checkPair env i k oi j;
     if \<not> ok then ret False
     else do {
       rec \<leftarrow> lookPR k;
       old \<leftarrow> lookPR oi;
       let rp = prReplacing rec ! j;
       found \<leftarrow> findSupersede env i rec (prNumber old);
       case found of
         Inl err \<Rightarrow> do { haltFor env err; ret False }
       | Inr f \<Rightarrow> do {
           go \<leftarrow> (if f then do { settle (rpPendingOp rp) ResultOK; ret True }
             else do {
               (if rpPendingOp rp \<noteq> '''' then do {
                  settle (rpPendingOp rp) ResultFailed;
                  modReplacing k j (\<lambda>rp. rp\<lparr>rpPendingOp := ''''\<rparr>)
                } else ret ());
               sendComment env i k oi j
             });
           if \<not> go then ret False
           else do {
             modReplacing k j (\<lambda>rp. rp\<lparr>rpState := ReplacementCommented, rpPendingOp := ''''\<rparr>);
             ok \<leftarrow> save env;
             if \<not> ok then ret False else canWrite env i
           }
         }
     }
   }"

definition replaceClose :: "pr_env \<Rightarrow> nat \<Rightarrow> nat \<Rightarrow> nat \<Rightarrow> nat \<Rightarrow> unit prm" where
  "replaceClose env i k oi j = do {
     ok \<leftarrow> checkPair env i k oi j;
     if \<not> ok then ret ()
     else do {
       fits \<leftarrow> reserve 2;
       if \<not> fits then ret ()
       else do {
         rs \<leftarrow> lookRepo i;
         rec \<leftarrow> lookPR k;
         old \<leftarrow> lookPR oi;
         (opID, ans) \<leftarrow> write_op env (commentOp (rtName rs) rec old) (ClosePull (rtName rs) (prNumber old))
           (\<lambda>n. evSend env n (ClosePull (rtName rs) (prNumber old))) (\<lambda>_. '''');
         case ans of
           Inr _ \<Rightarrow> do {
             modPR oi (\<lambda>old. old\<lparr>prState := PRStateReplaced, prReplacedBy := prNumber rec\<rparr>);
             modReplacing k j (\<lambda>rp. rp\<lparr>rpState := ReplacementDone\<rparr>);
             save env;
             ret ()
           }
         | Inl err \<Rightarrow> do {
             halt \<leftarrow> look rnHalt;
             if isUnknown err then do {
               modReplacing k j (\<lambda>rp. rp\<lparr>rpState := ReplacementClosed, rpPendingOp := opID\<rparr>);
               save env;
               ret ()
             } else if halt \<noteq> None \<or> isStopped err then ret ()
             else abandonReplacement env k j
           }
       }
     }
   }"

definition replace :: "pr_env \<Rightarrow> nat \<Rightarrow> nat \<Rightarrow> nat \<Rightarrow> unit prm" where
  "replace env i k j = do {
     rec \<leftarrow> lookPR k;
     o' \<leftarrow> look (recordByNumber (prRepoID rec) (rpOldNumber (prReplacing rec ! j)));
     case o' of
       None \<Rightarrow> abandonReplacement env k j
     | Some oi \<Rightarrow> do {
         ok \<leftarrow> eligiblePair env k oi j;
         if \<not> ok then ret ()
         else do {
           ok \<leftarrow> candidateHolds env k j;
           if \<not> ok then ret ()
           else do {
             rec \<leftarrow> lookPR k;
             go \<leftarrow> (if rpState (prReplacing rec ! j) = ReplacementPending then replaceComment env i k oi j else ret True);
             if \<not> go then ret ()
             else do {
               rec \<leftarrow> lookPR k;
               if rpState (prReplacing rec ! j) = ReplacementCommented then replaceClose env i k oi j else ret ()
             }
           }
         }
       }
   }"

definition repoByID :: "int \<Rightarrow> pr_run \<Rightarrow> nat option" where
  "repoByID rid r = firstIdx (\<lambda>rs. rtOk rs \<and> giID (rtInfo rs) = rid) (rnRepos r)"

definition resumeReplacement :: "pr_env \<Rightarrow> nat \<Rightarrow> nat \<Rightarrow> unit prm" where
  "resumeReplacement env k j = do {
     rec \<leftarrow> lookPR k;
     let rp = prReplacing rec ! j;
     if terminal rp \<or> rpState rp = ReplacementClosed then ret ()
     else do {
       i \<leftarrow> look (repoByID (prRepoID rec));
       case i of
         None \<Rightarrow> ret ()
       | Some i \<Rightarrow> do {
           ok \<leftarrow> canWrite env i;
           if \<not> ok then ret () else replace env i k j
         }
     }
   }"

definition resumeReplacements :: "pr_env \<Rightarrow> unit prm" where
  "resumeReplacements env = do {
     n \<leftarrow> look (\<lambda>r. length (sfPRs (rnFile r)));
     forEach (\<lambda>k. do {
       rec \<leftarrow> lookPR k;
       forEach (resumeReplacement env k) [0..<length (prReplacing rec)]
     }) [0..<n]
   }"

subsection \<open>Deciding makes only steps of a run\<close>

lemma prGrow_replacing [simp]: "prGrow rec (rec\<lparr>prReplacing := prReplacing rec @ rps\<rparr>)"
  by (simp add: prGrow_def replGrow_listGrow repls.grow_append)

lemma free_addReplacements [free]: "freeOp (addReplacements env k os)"
  by (induction os) (auto intro!: free)

lemma free_decideReplacements [free]: "freeOp (decideReplacements env k)"
  unfolding decideReplacements_def by (intro free)

subsection \<open>Rules for the steps of a replacement\<close>

lemma firstIdx_Some: "firstIdx P xs = Some i \<Longrightarrow> i < length xs \<and> P (xs ! i)"
  by (induction P xs arbitrary: i rule: firstIdx.induct) (auto split: if_splits)

lemma hoare_bind_look: "(\<And>x. hoare (\<lambda>r. P r \<and> x = f r) (g x) Q) \<Longrightarrow> hoare P (State_Monad.bind (look f) g) Q"
  by (rule hoare_bind [of _ _ "\<lambda>x r. P r \<and> x = f r"]) (auto intro: hoare_look)

lemma hoare_then_False: "hoare P m (\<lambda>_ _. True) \<Longrightarrow> hoare P (do { m; ret False }) (\<lambda>ok r. ok \<longrightarrow> Q r)"
  by (erule hoare_bind) (rule hoare_ret, simp)

lemma sinceSent_append: "\<not> list_ex isSent t \<Longrightarrow> set (sinceSent (tr @ t)) = set t \<union> set (sinceSent tr)"
  by (auto simp: sinceSent_def list_ex_iff takeWhile_append dest: set_takeWhileD)

text \<open>Assertions about records, repositories and the reads since the last write survive quiet operations.\<close>

lemma stable_reads:
  assumes "\<And>prs as ids R R'. P prs as ids R \<Longrightarrow> R \<subseteq> R' \<Longrightarrow> P prs as ids R'"
  shows "stable (\<lambda>r. P (sfPRs (rnFile r)) (sfAttempts (rnFile r)) (repoIdent r) (set (sinceSent (rnTrace r))))"
  unfolding stable_def quietTo_def by (auto simp: sinceSent_append intro: assms)

lemma hoare_readPull:
  assumes "stable P"
  shows "hoare (\<lambda>r. canSend r \<and> P r) (readPull env repo n)
    (\<lambda>ans r. canSend r \<and> P r \<and> PullRead repo n ans \<in> set (sinceSent (rnTrace r)))"
proof (rule hoareI)
  fix r :: pr_run and a r'
  assume "logOk (rnFile r)" and r: "canSend r \<and> P r" and run: "run_state (readPull env repo n) r = (a, r')"
  have "PullRead repo n a \<in> set (sinceSent (rnTrace r'))"
    using run by (auto simp: readPull_def ask_def Let_def sinceSent_append isSent_def)
  then show "prog r r' \<and> canSend r' \<and> P r' \<and> PullRead repo n a \<in> set (sinceSent (rnTrace r'))"
    using calmOp_run [OF calm_readPull run] r assms by (auto simp: stable_def quietTo_fields)
qed

lemma hoare_reserve:
  assumes "stable P"
  shows "hoare (\<lambda>r. canSend r \<and> P r) (reserve n) (\<lambda>ok r. ok \<longrightarrow> canSend r \<and> P r)"
proof (rule hoareI)
  fix r :: pr_run and ok r'
  assume "logOk (rnFile r)" and r: "canSend r \<and> P r" and run: "run_state (reserve n) r = (ok, r')"
  have "canSend r'" if ok
    using run that r by (auto simp: reserve_def look_def modFile_def change_def case_prod_beta canSend_def storageStopped_def split: if_splits)
  then show "prog r r' \<and> (ok \<longrightarrow> canSend r' \<and> P r')"
    using quietOp_run [OF quiet_reserve run] r assms by (auto simp: stable_def quietTo_fields)
qed

lemma hoare_canWrite:
  assumes "stable P"
  shows "hoare P (canWrite env i) (\<lambda>ok r. ok \<longrightarrow> canSend r \<and> P r)"
proof (rule hoareI)
  fix r :: pr_run and ok r'
  assume "logOk (rnFile r)" and r: "P r" and run: "run_state (canWrite env i) r = (ok, r')"
  have "canSend r'" if ok
    using run that by (auto simp: canWrite_def active_def look_def case_prod_beta canSend_def)
  then show "prog r r' \<and> (ok \<longrightarrow> canSend r' \<and> P r')"
    using quietOp_run [OF quiet_canWrite run] r assms by (auto simp: stable_def quietTo_fields)
qed

text \<open>A pull request found as recorded leaves its record untouched.\<close>

lemma markModified_same:
  assumes "\<not> prUserModified (fst (markModified rec pr))"
  shows "fst (markModified rec pr) = rec" "pullState pr = PRStateOpen \<Longrightarrow> asRecorded pr rec"
proof -
  have "\<not> prUserModified rec \<and> puHeadSHA pr = prHeadSHA rec \<and> puBaseRef pr = prBaseBranch rec \<and> puBaseRepoID pr = prRepoID rec"
    using assms by (cases "prUserModified rec"; cases "puHeadSHA pr = prHeadSHA rec"; cases "puBaseRef pr = prBaseBranch rec";
      cases "puBaseRepoID pr = prRepoID rec") (simp_all add: markModified_def)
  then show "fst (markModified rec pr) = rec" "pullState pr = PRStateOpen \<Longrightarrow> asRecorded pr rec"
    by (simp_all add: markModified_def asRecorded_def)
qed

lemma hoare_markModified:
  "hoare (\<lambda>r. P r \<and> openReplacement k j (sfPRs (rnFile r)) \<and> m < length (sfPRs (rnFile r))) (modPR m (\<lambda>rec. fst (markModified rec pr)))
    (\<lambda>_ r. openReplacement k j (sfPRs (rnFile r)) \<and>
      (\<not> prUserModified (sfPRs (rnFile r) ! m) \<longrightarrow> P r \<and> (pullState pr = PRStateOpen \<longrightarrow> asRecorded pr (sfPRs (rnFile r) ! m))))"
proof (rule hoareI)
  fix r :: pr_run and a :: unit and r'
  let ?f = "\<lambda>rec. fst (markModified rec pr)"
  let ?prs = "sfPRs (rnFile r)"
  assume log: "logOk (rnFile r)" and r: "P r \<and> openReplacement k j ?prs \<and> m < length ?prs" and run: "run_state (modPR m ?f) r = (a, r')"
  have "prReplacing (?f rec) = prReplacing rec" for rec by (simp add: markModified_def)
  from hoareD [OF hoare_replacing_modPR [OF _ this] log conjunct1 [OF conjunct2 [OF r]] run]
  have step: "prog r r'" "openReplacement k j (sfPRs (rnFile r'))" by simp_all
  have r': "r' = r\<lparr>rnFile := rnFile r\<lparr>sfPRs := ?prs[m := ?f (?prs ! m)]\<rparr>\<rparr>" using run by (simp add: modPR_def modFile_def change_def)
  have "P r' \<and> (pullState pr = PRStateOpen \<longrightarrow> asRecorded pr (sfPRs (rnFile r') ! m))" if "\<not> prUserModified (sfPRs (rnFile r') ! m)"
  proof -
    have "\<not> prUserModified (?f (?prs ! m))" using that r r' by simp
    from markModified_same [OF this] have "?f (?prs ! m) = ?prs ! m" "pullState pr = PRStateOpen \<longrightarrow> asRecorded pr (?prs ! m)" by auto
    then show ?thesis using r r' by simp
  qed
  then show "prog r r' \<and> openReplacement k j (sfPRs (rnFile r')) \<and> (\<not> prUserModified (sfPRs (rnFile r') ! m) \<longrightarrow>
      P r' \<and> (pullState pr = PRStateOpen \<longrightarrow> asRecorded pr (sfPRs (rnFile r') ! m)))"
    using step by blast
qed

subsection \<open>The pair of a replacement\<close>

definition paired :: "nat \<Rightarrow> nat \<Rightarrow> nat \<Rightarrow> nat \<Rightarrow> replacement_state \<Rightarrow> pr_record list \<Rightarrow> (string \<times> repo_info \<times> bool) list \<Rightarrow> bool" where
  "paired i k oi j st prs ids \<longleftrightarrow> i < length ids \<and> k < length prs \<and> oi < length prs \<and> j < length (prReplacing (prs ! k))
     \<and> rpState (prReplacing (prs ! k) ! j) = st \<and> st \<in> {ReplacementPending, ReplacementCommented}
     \<and> prNumber (prs ! oi) = rpOldNumber (prReplacing (prs ! k) ! j) \<and> prRepoID (prs ! oi) = prRepoID (prs ! k)"

definition eligible :: "nat \<Rightarrow> nat \<Rightarrow> pr_record list \<Rightarrow> attempt_record list \<Rightarrow> bool" where
  "eligible k oi prs as \<longleftrightarrow> trusted (prs ! k) \<and> trusted (prs ! oi) \<and>
     list_all (\<lambda>a. \<not> (atRepoID a = prRepoID (prs ! k) \<and> atTargetKey a = prTargetKey (prs ! k) \<and> atStatus a = AttemptBlocked)) as"

definition readAs :: "string \<Rightarrow> pr_record \<Rightarrow> pr_event set \<Rightarrow> bool" where
  "readAs repo rec R \<longleftrightarrow> (\<exists>pr. PullRead repo (prNumber rec) (Inr pr) \<in> R \<and> asRecorded pr rec)"

abbreviation repoName :: "nat \<Rightarrow> pr_run \<Rightarrow> string" where
  "repoName i r \<equiv> rtName (rnRepos r ! i)"

abbreviation pairedIn :: "nat \<Rightarrow> nat \<Rightarrow> nat \<Rightarrow> nat \<Rightarrow> replacement_state \<Rightarrow> pr_run \<Rightarrow> bool" where
  "pairedIn i k oi j st r \<equiv> paired i k oi j st (sfPRs (rnFile r)) (repoIdent r)"

abbreviation eligibleIn :: "nat \<Rightarrow> nat \<Rightarrow> pr_run \<Rightarrow> bool" where
  "eligibleIn k oi r \<equiv> eligible k oi (sfPRs (rnFile r)) (sfAttempts (rnFile r))"

abbreviation readIn :: "nat \<Rightarrow> nat \<Rightarrow> pr_run \<Rightarrow> bool" where
  "readIn i m r \<equiv> readAs (fst (repoIdent r ! i)) (sfPRs (rnFile r) ! m) (set (sinceSent (rnTrace r)))"

lemma repoIdent_name: "i < length (repoIdent r) \<Longrightarrow> fst (repoIdent r ! i) = repoName i r"
  by (simp add: repoIdent_def)

lemma readAs_mono: "readAs repo rec R \<Longrightarrow> R \<subseteq> R' \<Longrightarrow> readAs repo rec R'"
  by (auto simp: readAs_def)

lemma stable_paired [intro, simp]: "stable (pairedIn i k oi j st)"
  using stable_records [of "\<lambda>prs _ ids. paired i k oi j st prs ids"] .

lemma stable_eligible [intro, simp]: "stable (eligibleIn k oi)"
  using stable_records [of "\<lambda>prs as _. eligible k oi prs as"] .

lemma stable_readIn [intro, simp]: "stable (readIn i m)"
  using stable_reads [of "\<lambda>prs _ ids R. readAs (fst (ids ! i)) (prs ! m) R"] readAs_mono by blast

lemma paired_open: "paired i k oi j st prs ids \<Longrightarrow> openReplacement k j prs"
  by (auto simp: paired_def openReplacement_def terminal_def)

lemma hoare_abandon: "hoare (\<lambda>r. openReplacement k j (sfPRs (rnFile r))) (abandonReplacement env k j) (\<lambda>_ _. True)"
  unfolding abandonReplacement_def by (rule hoare_bind [OF hoare_modReplacing], simp, rule free_hoare, intro free)

lemma hoare_abandon_False:
  "(\<And>r. P r \<Longrightarrow> openReplacement k j (sfPRs (rnFile r))) \<Longrightarrow> hoare P (do { abandonReplacement env k j; ret False }) (\<lambda>ok r. ok \<longrightarrow> Q r)"
  by (rule hoare_then_False) (rule hoare_pre [OF hoare_abandon])

lemma hoare_modPR_abandon:
  assumes "\<And>rec. prGrow rec (f rec)" "\<And>rec. prReplacing (f rec) = prReplacing rec" "\<And>r. P r \<Longrightarrow> openReplacement k j (sfPRs (rnFile r))"
  shows "hoare P (do { modPR m f; abandonReplacement env k j; ret False }) (\<lambda>ok r. ok \<longrightarrow> Q r)"
  by (rule hoare_bind [OF hoare_pre [OF hoare_replacing_modPR [OF assms(1,2)] assms(3)] hoare_abandon_False])

text \<open>Both records are trusted and no attempt of the target is blocked, or the replacement is given up.\<close>

lemma hoare_eligiblePair:
  "hoare (\<lambda>r. canSend r \<and> pairedIn i k oi j st r) (eligiblePair env k oi j)
     (\<lambda>ok r. ok \<longrightarrow> canSend r \<and> pairedIn i k oi j st r \<and> eligibleIn k oi r)"
  unfolding eligiblePair_def
  apply (intro hoare_bind_look hoare_if)
   apply (rule hoare_abandon_False, auto simp: paired_open)[1]
  apply (rule hoare_ret)
  apply (auto simp: eligible_def trusted_def targetBlocked_def list_all_iff list_ex_iff)
  done

abbreviation checkedIn :: "nat \<Rightarrow> nat \<Rightarrow> nat \<Rightarrow> nat \<Rightarrow> replacement_state \<Rightarrow> pr_run \<Rightarrow> bool" where
  "checkedIn i k oi j st r \<equiv> pairedIn i k oi j st r \<and> eligibleIn k oi r \<and> readIn i k r \<and> readIn i oi r"

lemma pullState_open: "pullState pr \<noteq> PRStateMerged \<Longrightarrow> pullState pr \<noteq> PRStateClosed \<Longrightarrow> pullState pr = PRStateOpen"
  by (auto simp: pullState_def split: if_splits)

text \<open>The pull request of record \<open>m\<close> is read; the assertion afterwards, by the answer.\<close>

definition answered :: "nat \<Rightarrow> nat \<Rightarrow> (pr_run \<Rightarrow> bool) \<Rightarrow> (go_error + pull_request) \<Rightarrow> pr_run \<Rightarrow> bool" where
  "answered i m P ans r \<longleftrightarrow> canSend r \<and> P r \<and>
     (\<forall>pr. ans = Inr pr \<longrightarrow> PullRead (fst (repoIdent r ! i)) (prNumber (sfPRs (rnFile r) ! m)) (Inr pr) \<in> set (sinceSent (rnTrace r)))"

lemma hoare_readRecord:
  assumes "stable P" "\<And>r. P r \<Longrightarrow> i < length (repoIdent r)"
  shows "hoare (\<lambda>r. canSend r \<and> P r) (do { rs \<leftarrow> lookRepo i; rec \<leftarrow> lookPR m; readPull env (rtName rs) (prNumber rec) })
    (answered i m P)"
proof (intro hoare_bind_look)
  fix rs :: repo_state and rec :: pr_record
  let ?S = "\<lambda>r. (fst (repoIdent r ! i) = rtName rs \<and> prNumber (sfPRs (rnFile r) ! m) = prNumber rec) \<and> P r"
  have "stable ?S"
    using stable_records [of "\<lambda>prs _ ids. fst (ids ! i) = rtName rs \<and> prNumber (prs ! m) = prNumber rec"] assms(1) by (rule stable_conj)
  from hoare_readPull [OF this] show "hoare (\<lambda>r. ((canSend r \<and> P r) \<and> rs = rnRepos r ! i) \<and> rec = sfPRs (rnFile r) ! m)
      (readPull env (rtName rs) (prNumber rec)) (answered i m P)"
    by (rule hoare_conseq) (use assms(2) repoIdent_name in \<open>auto simp: answered_def\<close>)
qed

lemma bind_assoc3: "State_Monad.bind (do { x \<leftarrow> a; y \<leftarrow> b; c x y }) f = do { x \<leftarrow> a; y \<leftarrow> b; z \<leftarrow> c x y; f z }"
  by (simp add: State_Monad.bind_assoc)

lemma hoare_checkOld:
  "hoare (\<lambda>r. canSend r \<and> (pairedIn i k oi j st r \<and> eligibleIn k oi r \<and> readIn i k r)) (checkOld env i k oi j)
     (\<lambda>ok r. ok \<longrightarrow> canSend r \<and> checkedIn i k oi j st r)"
proof -
  let ?S = "\<lambda>r. pairedIn i k oi j st r \<and> eligibleIn k oi r \<and> readIn i k r"
  have S: "stable ?S" by (intro stable_conj) simp_all
  have read: "hoare (\<lambda>r. canSend r \<and> ?S r) (do { rs \<leftarrow> lookRepo i; rec \<leftarrow> lookPR oi; readPull env (rtName rs) (prNumber rec) }) (answered i oi ?S)"
    by (rule hoare_readRecord [OF S]) (simp add: paired_def)
  show ?thesis
    unfolding checkOld_def bind_assoc3 [symmetric]
    apply (rule hoare_bind [OF read], intro hoare_sum hoare_if)
       apply (rule hoare_then_False, rule quiet_hoare, intro quiet)
      apply (rule hoare_modPR_abandon; auto simp: answered_def paired_open)
     apply (rule hoare_bind_look, rule hoare_modPR_abandon; auto simp: answered_def paired_open)
    apply (rule hoare_bind [OF hoare_pre [OF hoare_markModified [of "answered i oi ?S (Inr opr)" k j oi opr for opr]]])
     apply (auto simp: answered_def paired_def intro: paired_open)[1]
    apply (intro hoare_bind_look hoare_if)
     apply (rule hoare_abandon_False, simp)
    apply (rule hoare_ret, auto simp: answered_def readAs_def dest: pullState_open)
    done
qed

lemma hoare_checkPair:
  "hoare (\<lambda>r. canSend r \<and> pairedIn i k oi j st r) (checkPair env i k oi j) (\<lambda>ok r. ok \<longrightarrow> canSend r \<and> checkedIn i k oi j st r)"
proof -
  let ?S = "\<lambda>r. pairedIn i k oi j st r \<and> eligibleIn k oi r"
  have S: "stable ?S" by (intro stable_conj) simp_all
  have read: "hoare (\<lambda>r. canSend r \<and> ?S r) (do { rs \<leftarrow> lookRepo i; rec \<leftarrow> lookPR k; readPull env (rtName rs) (prNumber rec) }) (answered i k ?S)"
    by (rule hoare_readRecord [OF S]) (simp add: paired_def)
  show ?thesis
    unfolding checkPair_def bind_assoc3 [symmetric]
    apply (rule hoare_bind [OF hoare_eligiblePair], rule hoare_if)
     apply (rule hoare_ret, simp)
    apply (rule hoare_bind [OF hoare_pre [OF read]], simp)
    apply (intro hoare_sum hoare_if)
      apply (rule hoare_then_False, rule quiet_hoare, intro quiet)
     apply (rule hoare_modPR_abandon; auto simp: answered_def paired_open)
    apply (rule hoare_bind [OF hoare_pre [OF hoare_markModified [of "answered i k ?S (Inr npr)" k j k npr for npr]]])
     apply (auto simp: answered_def paired_def intro: paired_open)[1]
    apply (intro hoare_bind_look hoare_if)
     apply (rule hoare_modPR_abandon; simp)
    apply (rule hoare_pre [OF hoare_checkOld], auto simp: answered_def readAs_def)
    done
qed

lemma checked_pairOk:
  assumes "checkedIn i k oi j st r"
  shows "pairOk (rnFile r) (rnTrace r) (repoName i r) (prNumber (sfPRs (rnFile r) ! oi)) st"
proof -
  let ?prs = "sfPRs (rnFile r)"
  have p: "?prs ! k \<in> set ?prs" "?prs ! oi \<in> set ?prs" "prReplacing (?prs ! k) ! j \<in> set (prReplacing (?prs ! k))"
    "fst (repoIdent r ! i) = repoName i r" "rpOldNumber (prReplacing (?prs ! k) ! j) = prNumber (?prs ! oi)"
    "rpState (prReplacing (?prs ! k) ! j) = st" "prRepoID (?prs ! oi) = prRepoID (?prs ! k)"
    using assms repoIdent_name by (auto simp: paired_def)
  moreover have "targetUnblocked (rnFile r) (?prs ! k)" "trusted (?prs ! k)" "trusted (?prs ! oi)"
    using assms by (auto simp: eligible_def targetUnblocked_def)
  ultimately show ?thesis
    using assms unfolding pairOk_def readAs_def
    by (intro bexI [of _ "?prs ! k"] bexI [of _ "?prs ! oi"] bexI [of _ "prReplacing (?prs ! k) ! j"]) auto
qed

subsection \<open>The two writes\<close>

lemma hoare_modReplacing_paired:
  assumes "\<And>rp. rpOldNumber (f rp) = rpOldNumber rp" "\<And>rp. rpState rp = st \<Longrightarrow> rpState (f rp) = st'"
    "st' \<in> {ReplacementPending, ReplacementCommented}"
  shows "hoare (pairedIn i k oi j st) (modReplacing k j f) (\<lambda>_. pairedIn i k oi j st')"
proof (rule hoareI)
  fix r :: pr_run and a :: unit and r'
  assume log: "logOk (rnFile r)" and r: "pairedIn i k oi j st r" and run: "run_state (modReplacing k j f) r = (a, r')"
  let ?prs = "sfPRs (rnFile r)"
  have r': "r' = r\<lparr>rnFile := rnFile r\<lparr>sfPRs := ?prs[k := (?prs ! k)\<lparr>prReplacing := (prReplacing (?prs ! k))[j := f (prReplacing (?prs ! k) ! j)]\<rparr>]\<rparr>\<rparr>"
    using run by (simp add: modReplacing_def modPR_def modFile_def change_def)
  have "pairedIn i k oi j st' r'"
    using r assms unfolding r' by (cases "oi = k") (simp_all add: paired_def repoIdent_def)
  then show "prog r r' \<and> pairedIn i k oi j st' r'"
    using hoareD(1) [OF hoare_modReplacing [of f, OF assms(1)] log paired_open [OF r] run] by blast
qed

text \<open>Forgetting the pending operation changes nothing of the pair.\<close>

lemma hoare_modReplacing_checked:
  assumes "\<And>rp. rpOldNumber (f rp) = rpOldNumber rp" "\<And>rp. rpState (f rp) = rpState rp"
  shows "hoare (\<lambda>r. canSend r \<and> checkedIn i k oi j st r) (modReplacing k j f) (\<lambda>_ r. canSend r \<and> checkedIn i k oi j st r)"
proof (rule hoareI)
  fix r :: pr_run and a :: unit and r'
  assume log: "logOk (rnFile r)" and r: "canSend r \<and> checkedIn i k oi j st r" and run: "run_state (modReplacing k j f) r = (a, r')"
  let ?prs = "sfPRs (rnFile r)"
  let ?rec = "(?prs ! k)\<lparr>prReplacing := (prReplacing (?prs ! k))[j := f (prReplacing (?prs ! k) ! j)]\<rparr>"
  have r': "r' = r\<lparr>rnFile := rnFile r\<lparr>sfPRs := ?prs[k := ?rec]\<rparr>\<rparr>" using run by (simp add: modReplacing_def modPR_def modFile_def change_def)
  have len: "k < length ?prs" using r by (simp add: paired_def)
  have [simp]: "trusted ?rec = trusted (?prs ! k)" "readAs n ?rec R = readAs n (?prs ! k) R" for n R
    by (simp_all add: trusted_def readAs_def asRecorded_def)
  have "eligibleIn k oi r'" "readIn i k r'" "readIn i oi r'"
    using r len unfolding r' by (cases "oi = k"; simp add: eligible_def repoIdent_def)+
  moreover have "canSend r'" using r unfolding r' by (simp add: canSend_def storageStopped_def)
  moreover have "st \<in> {ReplacementPending, ReplacementCommented}" using r by (simp add: paired_def)
  ultimately show "prog r r' \<and> canSend r' \<and> checkedIn i k oi j st r'"
    using hoareD(1,2) [OF hoare_modReplacing_paired [of f st st i k oi j, OF assms(1)] log _ run] r assms by simp
qed

lemma stable_checked [intro, simp]: "stable (checkedIn i k oi j st)"
  by (intro stable_conj) simp_all

lemma hoare_pair_write:
  assumes "\<And>f tr. pairOk f tr (repoOfWrite w) n st \<Longrightarrow> coveredBy f (oeAttemptKey op) tr w" "oeRepo op = repoOfWrite w"
  shows "hoare (\<lambda>r. canSend r \<and> checkedIn i k oi j st r \<and> fst (repoIdent r ! i) = repoOfWrite w \<and> prNumber (sfPRs (rnFile r) ! oi) = n)
    (write_op env op w fn refOf) (\<lambda>x r. pairedIn i k oi j st r \<and> (\<forall>b. snd x = Inr b \<longrightarrow> canSend r))"
proof (rule hoare_conseq [OF hoare_write [OF assms(2), of "\<lambda>prs _ ids. paired i k oi j st prs ids"]])
  fix r :: pr_run
  assume r: "canSend r \<and> checkedIn i k oi j st r \<and> fst (repoIdent r ! i) = repoOfWrite w \<and> prNumber (sfPRs (rnFile r) ! oi) = n"
  then have "fst (repoIdent r ! i) = repoName i r" by (intro repoIdent_name) (simp add: paired_def)
  moreover have "pairOk (rnFile r) (rnTrace r) (repoName i r) (prNumber (sfPRs (rnFile r) ! oi)) st" by (rule checked_pairOk) (use r in blast)
  ultimately have "pairOk (rnFile r) (rnTrace r) (repoOfWrite w) n st" using r by argo
  then show "canSend r \<and> coveredBy (rnFile r) (oeAttemptKey op) (rnTrace r) w \<and> pairedIn i k oi j st r" using r assms(1) by blast
qed (auto split: sum.splits)

lemma hoare_sendComment:
  "hoare (\<lambda>r. canSend r \<and> checkedIn i k oi j ReplacementPending r) (sendComment env i k oi j)
     (\<lambda>ok r. ok \<longrightarrow> pairedIn i k oi j ReplacementPending r)"
proof -
  let ?C = "checkedIn i k oi j ReplacementPending"
  have after: "hoare (\<lambda>r. pairedIn i k oi j ReplacementPending r)
      (do { halt \<leftarrow> look rnHalt;
            (if isUnknown err then do { modReplacing k j (\<lambda>rp. rp\<lparr>rpPendingOp := opID\<rparr>); save env; ret () }
             else if halt = None \<and> \<not> isStopped err then abandonReplacement env k j
             else ret ());
            ret False }) (\<lambda>ok r. ok \<longrightarrow> pairedIn i k oi j ReplacementPending r)" for err opID
    apply (rule hoare_bind_look, rule hoare_then_False, intro hoare_if)
      apply (rule hoare_bind [OF hoare_pre [OF hoare_modReplacing]], simp, simp add: paired_open, rule free_hoare, intro free)
     apply (rule hoare_pre [OF hoare_abandon], simp add: paired_open)
    apply (rule hoare_ret, simp)
    done
  have stable: "stable (\<lambda>r. checkedIn i k oi j ReplacementPending r \<and> fst (repoIdent r ! i) = a \<and> prNumber (sfPRs (rnFile r) ! oi) = b)" for a b
    using stable_conj [OF stable_checked stable_records [of "\<lambda>prs _ ids. fst (ids ! i) = a \<and> prNumber (prs ! oi) = b"]] by simp
  show ?thesis
    unfolding sendComment_def
    apply (rule hoare_bind_look)+
    subgoal for rs rec old
      apply (rule hoare_bind [OF hoare_pre [OF hoare_reserve [OF stable [of "rtName rs" "prNumber old"]]]])
       apply (auto simp: paired_def repoIdent_name)[1]
      apply (rule hoare_if, rule hoare_ret, simp)
      apply (rule hoare_bind [OF hoare_pre [OF hoare_pair_write [where n = "prNumber old" and i = i and k = k and oi = oi and j = j and st = ReplacementPending]]])
         apply (simp add: coveredBy_def repoOfWrite_def)
        apply (simp add: repoOfWrite_def commentOp_def)
       apply (unfold repoOfWrite_def gh_write.case, blast)
      apply (intro hoare_prod hoare_sum)
       apply (rule hoare_pre [OF after], simp)
      apply (rule hoare_ret, simp)
      done
    done
qed

lemma calm_findSupersede [calm]: "calmOp (findSupersede env i rec n)"
  unfolding findSupersede_def by (intro calm)

lemma hoare_replaceComment:
  "hoare (\<lambda>r. canSend r \<and> pairedIn i k oi j ReplacementPending r) (replaceComment env i k oi j)
     (\<lambda>ok r. ok \<longrightarrow> canSend r \<and> pairedIn i k oi j ReplacementCommented r)"
proof -
  let ?C = "\<lambda>r. canSend r \<and> checkedIn i k oi j ReplacementPending r"
  have done': "hoare (pairedIn i k oi j ReplacementPending)
      (do { modReplacing k j (\<lambda>rp. rp\<lparr>rpState := ReplacementCommented, rpPendingOp := ''''\<rparr>);
            ok \<leftarrow> save env; if \<not> ok then ret False else canWrite env i })
      (\<lambda>ok r. ok \<longrightarrow> canSend r \<and> pairedIn i k oi j ReplacementCommented r)"
    apply (rule hoare_bind [OF hoare_modReplacing_paired], simp, simp, simp)
    apply (rule hoare_bind [OF hoare_quiet], intro quiet, simp)
    apply (rule hoare_if, rule hoare_ret, simp)
    apply (rule hoare_canWrite, simp)
    done
  have found: "hoare ?C (do { settle op ResultOK; ret True }) (\<lambda>go r. go \<longrightarrow> pairedIn i k oi j ReplacementPending r)" for op
    by (rule hoare_bind [OF hoare_calm], intro calm, simp, rule hoare_ret, simp)
  have missing: "hoare ?C (do {
        (if rpPendingOp rp \<noteq> '''' then do { settle (rpPendingOp rp) ResultFailed; modReplacing k j (\<lambda>rp. rp\<lparr>rpPendingOp := ''''\<rparr>) } else ret ());
        sendComment env i k oi j }) (\<lambda>go r. go \<longrightarrow> pairedIn i k oi j ReplacementPending r)" for rp
    apply (rule hoare_bind [OF _ hoare_sendComment], rule hoare_if)
     apply (rule hoare_bind [OF hoare_calm], intro calm, simp, rule hoare_modReplacing_checked, simp, simp)
    apply (rule hoare_ret, simp)
    done
  show ?thesis
    unfolding replaceComment_def Let_def
    apply (rule hoare_bind [OF hoare_checkPair], rule hoare_if)
     apply (rule hoare_ret, simp)
    apply (rule hoare_bind_look)+
    apply (rule hoare_bind [OF hoare_pre [OF hoare_calm [OF calm_findSupersede stable_checked [of i k oi j ReplacementPending]]]], simp)
    apply (rule hoare_sum)
     apply (rule hoare_then_False, rule quiet_hoare, intro quiet)
    apply (rule hoare_bind [OF hoare_if [OF found missing]], rule hoare_if)
     apply (rule hoare_ret, simp)
    apply (rule hoare_pre [OF done'], simp)
    done
qed

lemma hoare_replaceClose:
  "hoare (\<lambda>r. canSend r \<and> pairedIn i k oi j ReplacementCommented r) (replaceClose env i k oi j) (\<lambda>_ _. True)"
proof -
  let ?P = "pairedIn i k oi j ReplacementCommented"
  have ok: "hoare ?P (do { modPR oi (\<lambda>old. old\<lparr>prState := PRStateReplaced, prReplacedBy := n\<rparr>);
      modReplacing k j (\<lambda>rp. rp\<lparr>rpState := ReplacementDone\<rparr>); save env; ret () }) (\<lambda>_ _. True)" for n
    apply (rule hoare_bind [OF hoare_pre [OF hoare_replacing_modPR]], simp, simp, erule paired_open)
    apply (rule hoare_bind [OF hoare_modReplacing], simp, rule free_hoare, intro free)
    done
  have failed: "hoare ?P (do { halt \<leftarrow> look rnHalt;
      if isUnknown err then do { modReplacing k j (\<lambda>rp. rp\<lparr>rpState := ReplacementClosed, rpPendingOp := op\<rparr>); save env; ret () }
      else if halt \<noteq> None \<or> isStopped err then ret () else abandonReplacement env k j }) (\<lambda>_ _. True)" for err op
    apply (rule hoare_bind_look, intro hoare_if)
      apply (rule hoare_bind [OF hoare_pre [OF hoare_modReplacing]], simp, simp add: paired_open, rule free_hoare, intro free)
     apply (rule hoare_ret, simp)
    apply (rule hoare_pre [OF hoare_abandon], simp add: paired_open)
    done
  show ?thesis
    unfolding replaceClose_def
    apply (rule hoare_bind [OF hoare_checkPair], rule hoare_if)
     apply (rule hoare_ret, simp)
    apply (rule hoare_bind [OF hoare_pre [OF hoare_reserve [OF stable_checked [of i k oi j ReplacementCommented]]]], simp)
    apply (rule hoare_if, rule hoare_ret, simp)
    apply (rule hoare_bind_look)+
    subgoal for _ _ rs rec old
      apply (rule hoare_bind [OF hoare_pre [OF hoare_pair_write [where n = "prNumber old" and i = i and k = k and oi = oi and j = j and st = ReplacementCommented]]])
         apply (simp add: coveredBy_def repoOfWrite_def)
        apply (simp add: repoOfWrite_def commentOp_def)
       apply (unfold repoOfWrite_def gh_write.case, use repoIdent_name in \<open>auto simp: paired_def\<close>)[1]
      apply (intro hoare_prod hoare_sum)
       apply (rule hoare_pre [OF failed], simp)
      apply (rule hoare_pre [OF ok], simp)
      done
    done
qed

subsection \<open>A replacement makes only steps of a run\<close>

lemma hoare_candidateHolds:
  "hoare (\<lambda>r. canSend r \<and> pairedIn i k oi j st r) (candidateHolds env k j) (\<lambda>ok r. ok \<longrightarrow> canSend r \<and> pairedIn i k oi j st r)"
proof -
  let ?P = "\<lambda>r. canSend r \<and> pairedIn i k oi j st r"
  have abandon: "hoare ?P (do { abandonReplacement env k j; ret False }) (\<lambda>ok r. ok \<longrightarrow> ?P r)"
    by (rule hoare_abandon_False) (auto intro: paired_open)
  have resolve: "hoare ?P (do { res \<leftarrow> ask q (\<lambda>_. Read a);
      case res of Inl err \<Rightarrow> do { haltFor env err; ret False }
      | Inr digest \<Rightarrow> if digest \<noteq> d then do { abandonReplacement env k j; ret False } else ret True }) (\<lambda>ok r. ok \<longrightarrow> ?P r)" for q a d
    apply (rule hoare_bind [OF hoare_calm], rule calm_ask, simp add: isSent_def, simp, simp)
    apply (intro hoare_sum hoare_if abandon)
     apply (rule hoare_then_False, rule quiet_hoare, intro quiet)
    apply (rule hoare_ret, simp)
    done
  have body: "hoare ?P (if kindOf (prKind rec) = prKindLanguage then
       (if prLang rec = None \<or> prFixTargets rec = [] then do { abandonReplacement env k j; ret False } else ret True)
     else case prEvidence rec of
       None \<Rightarrow> do { abandonReplacement env k j; ret False }
     | Some ev \<Rightarrow>
         (case vmItems ev of
            [] \<Rightarrow> do { abandonReplacement env k j; ret False }
          | it # _ \<Rightarrow>
             (case parsePlatform (isPlatform (ieCandidate it)) of
                None \<Rightarrow> do { abandonReplacement env k j; ret False }
              | Some platform \<Rightarrow> do {
                  let ref = repoOfRef (prCurrentRef rec);
                  res \<leftarrow> ask (\<lambda>n. evResolve env n ref (prCandidateTag rec) platform) (\<lambda>_. Read (ResolveTag ref (prCandidateTag rec)));
                  case res of
                    Inl err \<Rightarrow> do { haltFor env err; ret False }
                  | Inr digest \<Rightarrow> if digest \<noteq> prCandidateDigest rec then do { abandonReplacement env k j; ret False } else ret True
                }))) (\<lambda>ok r. ok \<longrightarrow> ?P r)" for rec
    using abandon resolve by (auto simp: Let_def intro: hoare_ret split: option.splits list.splits)
  show ?thesis unfolding candidateHolds_def by (rule hoare_bind [OF hoare_look [of ?P "\<lambda>_. ?P"] body])
qed

lemma hoare_replace:
  "hoare (\<lambda>r. canSend r \<and> i < length (repoIdent r) \<and> k < length (sfPRs (rnFile r)) \<and> j < length (prReplacing (sfPRs (rnFile r) ! k))
       \<and> rpState (prReplacing (sfPRs (rnFile r) ! k) ! j) \<in> {ReplacementPending, ReplacementCommented})
     (replace env i k j) (\<lambda>_ _. True)"
proof -
  let ?I = "\<lambda>st r. canSend r \<and> i < length (repoIdent r) \<and> k < length (sfPRs (rnFile r)) \<and> j < length (prReplacing (sfPRs (rnFile r) ! k))
     \<and> rpState (prReplacing (sfPRs (rnFile r) ! k) ! j) = st"
  define close where "close = (\<lambda>oi. do { rec \<leftarrow> lookPR k;
     if rpState (prReplacing rec ! j) = ReplacementCommented then replaceClose env i k oi j else ret () })"
  have close: "hoare (\<lambda>r. canSend r \<and> pairedIn i k oi j st r) (close oi) (\<lambda>_ _. True)" for oi st
    unfolding close_def
    apply (intro hoare_bind_look hoare_if)
     apply (rule hoare_pre [OF hoare_replaceClose], simp add: paired_def)
    apply (rule hoare_ret, simp)
    done
  define go where "go = (\<lambda>oi. do { rec \<leftarrow> lookPR k;
     go \<leftarrow> (if rpState (prReplacing rec ! j) = ReplacementPending then replaceComment env i k oi j else ret True);
     if \<not> go then ret () else close oi })"
  have go: "hoare (\<lambda>r. canSend r \<and> pairedIn i k oi j st r) (go oi) (\<lambda>_ _. True)" for oi st
    unfolding go_def
    apply (rule hoare_bind_look)
    subgoal for rec
      apply (rule hoare_bind [of _ _ "\<lambda>go r. go \<longrightarrow> (\<exists>st. canSend r \<and> pairedIn i k oi j st r)"])
       apply (rule hoare_if)
        apply (rule hoare_conseq [OF hoare_replaceComment]; auto simp: paired_def)
       apply (rule hoare_ret, auto)[1]
      apply (rule hoare_if, rule hoare_ret, simp)
      using close by (auto simp: hoare_def)
    done
  have pair: "hoare (\<lambda>r. canSend r \<and> pairedIn i k oi j st r) (do { ok \<leftarrow> eligiblePair env k oi j;
     if \<not> ok then ret () else do { ok \<leftarrow> candidateHolds env k j; if \<not> ok then ret () else go oi } }) (\<lambda>_ _. True)" for oi st
    apply (rule hoare_bind [OF hoare_eligiblePair], rule hoare_if, rule hoare_ret, simp)
    apply (rule hoare_bind [OF hoare_pre [OF hoare_candidateHolds [of i k oi j st]]], simp)
    apply (rule hoare_if, rule hoare_ret, simp)
    apply (rule hoare_pre [OF go [where st = st]], simp)
    done
  have "hoare (?I st) (replace env i k j) (\<lambda>_ _. True)" if "st \<in> {ReplacementPending, ReplacementCommented}" for st
    unfolding replace_def
    apply (intro hoare_bind_look hoare_option)
     apply (rule hoare_pre [OF hoare_abandon], use that in \<open>auto simp: openReplacement_def terminal_def\<close>)[1]
    apply (rule hoare_pre [OF pair [where st = st, unfolded go_def close_def]])
    apply (use that in \<open>auto simp: paired_def recordByNumber_def dest!: firstIdx_Some\<close>)
    done
  then show ?thesis by (auto simp: hoare_def)
qed

text \<open>The records seen when a loop starts stay where they are.\<close>

lemma hoare_grown: "hoare P m Q \<Longrightarrow> hoare (\<lambda>r. P r \<and> fileGrow f (rnFile r)) m (\<lambda>a r. Q a r \<and> fileGrow f (rnFile r))"
  unfolding hoare_def by (blast intro: files.R_trans prog_fileGrow)

lemma hoare_forEach_grown:
  assumes "\<And>x. x \<in> set xs \<Longrightarrow> hoare (\<lambda>r. fileGrow f (rnFile r)) (g x) (\<lambda>_ _. True)"
  shows "hoare (\<lambda>r. fileGrow f (rnFile r)) (forEach g xs) (\<lambda>_ _. True)"
  using assms
proof (induction xs)
  case (Cons x xs)
  have "hoare (\<lambda>r. fileGrow f (rnFile r)) (g x) (\<lambda>_ r. fileGrow f (rnFile r))"
    using hoare_grown [OF Cons.prems [of x], of f] by (auto elim: hoare_conseq)
  then show ?case using Cons by (auto intro: hoare_bind)
qed (auto intro: hoare_ret)

lemma fileGrow_replacing:
  assumes "fileGrow f g" "k < length (sfPRs f)"
  shows "k < length (sfPRs g)" "length (prReplacing (sfPRs f ! k)) \<le> length (prReplacing (sfPRs g ! k))"
  using assms by (auto simp: fileGrow_def listGrow_def prGrow_def replGrow_def)

lemma hoare_resumeReplacement:
  assumes "k < length (sfPRs f)" "j < length (prReplacing (sfPRs f ! k))"
  shows "hoare (\<lambda>r. fileGrow f (rnFile r)) (resumeReplacement env k j) (\<lambda>_ _. True)"
proof -
  let ?I = "\<lambda>(i::nat) prs (as :: attempt_record list) (ids :: (string \<times> repo_info \<times> bool) list). i < length ids \<and> k < length prs
     \<and> j < length (prReplacing (prs ! k)) \<and> rpState (prReplacing (prs ! k) ! j) \<in> {ReplacementPending, ReplacementCommented}"
  have allowed: "hoare (\<lambda>r. ?I i (sfPRs (rnFile r)) (sfAttempts (rnFile r)) (repoIdent r))
      (do { ok \<leftarrow> canWrite env i; if \<not> ok then ret () else replace env i k j }) (\<lambda>_ _. True)" for i
    apply (rule hoare_bind [OF hoare_canWrite [OF stable_records [of "?I i"]]], rule hoare_if)
     apply (rule hoare_ret, simp)
    apply (rule hoare_pre [OF hoare_replace], simp)
    done
  have len: "k < length (sfPRs (rnFile r)) \<and> j < length (prReplacing (sfPRs (rnFile r) ! k))" if "fileGrow f (rnFile r)" for r
    using fileGrow_replacing [OF that assms(1)] assms(2) by simp
  have st: "rpState rp \<in> {ReplacementPending, ReplacementCommented}" if "\<not> (terminal rp \<or> rpState rp = ReplacementClosed)" for rp
    using that by (cases "rpState rp") (auto simp: terminal_def)
  show ?thesis
    unfolding resumeReplacement_def Let_def
    apply (intro hoare_bind_look hoare_if hoare_option)
      apply (rule hoare_ret, simp)+
    apply (rule hoare_pre [OF allowed])
    apply (use len st in \<open>auto simp: repoByID_def repoIdent_def dest!: firstIdx_Some\<close>)
    done
qed

lemma free_resumeReplacements [free]: "freeOp (resumeReplacements env)"
proof -
  have rec: "hoare (\<lambda>r. fileGrow f (rnFile r)) (do { rec \<leftarrow> lookPR k; forEach (resumeReplacement env k) [0..<length (prReplacing rec)] }) (\<lambda>_ _. True)"
    if "k < length (sfPRs f)" for f k
  proof (rule hoareI)
    fix r :: pr_run and a r'
    assume log: "logOk (rnFile r)" and r: "fileGrow f (rnFile r)"
      and run: "run_state (do { rec \<leftarrow> lookPR k; forEach (resumeReplacement env k) [0..<length (prReplacing rec)] }) r = (a, r')"
    have "hoare (\<lambda>s. fileGrow (rnFile r) (rnFile s)) (forEach (resumeReplacement env k) [0..<length (prReplacing (sfPRs (rnFile r) ! k))]) (\<lambda>_ _. True)"
      using fileGrow_replacing(1) [OF r that] by (intro hoare_forEach_grown hoare_resumeReplacement) auto
    from hoareD(1) [OF this log files.R_refl, of a r'] show "prog r r' \<and> True" using run by (simp add: look_def)
  qed
  have "hoare (\<lambda>_. True) (resumeReplacements env) (\<lambda>_ _. True)"
  proof (rule hoareI)
    fix r :: pr_run and a r'
    assume log: "logOk (rnFile r)" and run: "run_state (resumeReplacements env) r = (a, r')"
    have "hoare (\<lambda>s. fileGrow (rnFile r) (rnFile s)) (forEach (\<lambda>k. do { rec \<leftarrow> lookPR k;
        forEach (resumeReplacement env k) [0..<length (prReplacing rec)] }) [0..<length (sfPRs (rnFile r))]) (\<lambda>_ _. True)"
      by (intro hoare_forEach_grown rec) auto
    from hoareD(1) [OF this log files.R_refl, of a r'] show "prog r r' \<and> True" using run by (simp add: look_def resumeReplacements_def)
  qed
  then show ?thesis by (simp add: freeOp_def)
qed

end
