(* ===== verification/PR_Create.thy ===== *)
theory PR_Create
  imports PR_Replace
begin

section \<open>Opening a pull request for an update unit\<close>

text \<open>
  The part of \<open>internal/remediation/pr_stage.go\<close> that turns an update unit into a pull request
  (\<open>processUnit\<close>, \<open>createPull\<close>, \<open>buildCommit\<close>, \<open>openPull\<close>), with the checks of \<open>pr_language.go\<close>,
  \<open>pr_language_bind.go\<close> and \<open>pr_kube_body.go\<close> it calls. What edits a file's text and what writes the
  text of a pull request are the parameters \<open>pr_editors\<close>: an editor answers with the reason it gives up or
  with the new content and a description of the change. The fix targets and the evidence of a unit, which
  the code works out from the plan's items when it makes the attempt, are fields of the unit. An
  \<open>outcome\<close> is the status and the reason the unit is left with; the detail text is not modelled.

  The lemmas show that processing a unit makes only steps of a run: each write has an attempt that covers
  it in a file saved right before.
\<close>

subsection \<open>Units\<close>

abbreviation ReasonByteBudget :: string where "ReasonByteBudget \<equiv> ''byte_budget_exhausted''"
abbreviation ReasonGitHubError :: string where "ReasonGitHubError \<equiv> ''github_error''"
abbreviation ReasonGitHubRefused :: string where "ReasonGitHubRefused \<equiv> ''github_refused''"
abbreviation ReasonRegistryRecheck :: string where "ReasonRegistryRecheck \<equiv> ''candidate_recheck_failed''"
abbreviation ReasonCandidateChanged :: string where "ReasonCandidateChanged \<equiv> ''candidate_changed''"
abbreviation ReasonSourceChanged :: string where "ReasonSourceChanged \<equiv> ''source_changed''"
abbreviation ReasonBaseMoved :: string where "ReasonBaseMoved \<equiv> ''base_moved''"
abbreviation ReasonPRLimit :: string where "ReasonPRLimit \<equiv> ''pr_limit''"
abbreviation ReasonOpenPRLimit :: string where "ReasonOpenPRLimit \<equiv> ''open_pr_limit''"
abbreviation ReasonOpenPRNotInherited :: string where "ReasonOpenPRNotInherited \<equiv> ''open_pr_not_inherited''"
abbreviation ReasonProposalNotFound :: string where "ReasonProposalNotFound \<equiv> ''proposal_not_found''"
abbreviation ReasonArtifactsUnusable :: string where "ReasonArtifactsUnusable \<equiv> ''artifacts_unusable''"
abbreviation ReasonArtifactContentMissing :: string where "ReasonArtifactContentMissing \<equiv> ''artifact_content_missing''"
abbreviation ReasonMappingConflict :: string where "ReasonMappingConflict \<equiv> ''mapping_conflict''"
abbreviation ReasonImageUpdaterFile :: string where "ReasonImageUpdaterFile \<equiv> ''image_updater_file''"
abbreviation ReasonDockerfileSourceMismatch :: string where "ReasonDockerfileSourceMismatch \<equiv> ''dockerfile_source_mismatch''"

abbreviation routeHelmValues :: string where "routeHelmValues \<equiv> ''helm_values''"
abbreviation ManagerMaven :: string where "ManagerMaven \<equiv> ''maven''"

record source_file =
  soPath :: string
  soBlobSHA :: string
  soRepository :: string
  soBaseBranch :: string

record artifact_file =
  arSHA256 :: string
  arSize :: nat
  arMode :: string
  arContent :: string

record language_item =
  liKey :: string
  liManager :: string
  liRepository :: string
  liBaseBranch :: string
  liDirectory :: string
  liCommitSHA :: string
  liFiles :: "source_file list"
  liAbsent :: "string list"

record dockerfile_unit =
  dfTargets :: "string list"
  dfStage :: nat
  dfStageName :: string
  dfPlatform :: string
  dfCommit :: string
  dfFiles :: "source_file list"

record language_unit =
  luItem :: language_item
  luManager :: string
  luProposedFP :: string
  luRecord :: "lang_record option"
  luTitle :: string
  luArtifacts :: "(string, artifact_file) gmap"
  luSources :: "(string, source_file) gmap"

record manifest_target =
  mtKind :: string
  mtNamespace :: string
  mtName :: string
  mtContainer :: string
  mtObjectKind :: string
  mtObjectName :: string

record kubernetes_mapping =
  kmWorkload :: string
  kmRepository :: string
  kmBaseBranch :: string
  kmPath :: string
  kmObjectKind :: string
  kmObjectName :: string

record kustomize_unit =
  kzRoute :: string
  kzItem :: string

record kube_unit =
  kbTargets :: "manifest_target list"
  kbDeclared :: string
  kbFile :: string
  kbKustomize :: "kustomize_unit option"

record compose_unit =
  cuKey :: string
  cuRepo :: string
  cuBaseBranch :: string
  cuPath :: string
  cuCurrent :: string
  cuServices :: "string list"
  cuLocations :: "string list"
  cuWorkloads :: "string list"
  cuManual :: "string option"
  cuCandidate :: "image_state option"
  cuFixTargets :: "fix_target list"
  cuEvidence :: "verification_summary option"
  cuDf :: "dockerfile_unit option"
  cuLang :: "language_unit option"
  cuKube :: "kube_unit option"

definition kind :: "compose_unit \<Rightarrow> string" where
  "kind u = (case cuKube u of
       Some kb \<Rightarrow> (case kbKustomize kb of
           Some kz \<Rightarrow> if kzRoute kz = routeHelmValues then prKindHelm else prKindKustomize
         | None \<Rightarrow> prKindKubernetes)
     | None \<Rightarrow> if cuDf u \<noteq> None then prKindDockerfile else if cuLang u \<noteq> None then prKindLanguage else prKindCompose)"

text \<open>The candidate's tag and digest, both empty for a unit without a candidate.\<close>

definition candTag :: "compose_unit \<Rightarrow> string" where
  "candTag u = (case cuCandidate u of None \<Rightarrow> '''' | Some c \<Rightarrow> isTag c)"

definition candDigest :: "compose_unit \<Rightarrow> string" where
  "candDigest u = (case cuCandidate u of None \<Rightarrow> '''' | Some c \<Rightarrow> isTopDigest c)"

definition candPlatform :: "compose_unit \<Rightarrow> string" where
  "candPlatform u = (case cuCandidate u of None \<Rightarrow> '''' | Some c \<Rightarrow> isPlatform c)"

definition workloadService :: "string \<Rightarrow> string" where
  "workloadService key = (let parts = splitOn (CHR ''/'') key in if length parts = 4 then parts ! 2 else last parts)"

definition dedupeSorted :: "string list \<Rightarrow> string list" where
  "dedupeSorted xs = remdups (sortedCopy xs)"

definition kubeBranchNames :: "compose_unit \<Rightarrow> string list" where
  "kubeBranchNames u = dedupeSorted (map workloadService (cuServices u))"

definition kubeFileKey :: "kubernetes_mapping \<Rightarrow> string" where
  "kubeFileKey m = joinWith ''|'' [''kubernetes'', toLower (kmRepository m), kmBaseBranch m, kmPath m]"

text \<open>What the stage is configured with beside the outside world: the editors of files and the writers of text.\<close>

type_synonym edit = "string + string \<times> string"

record pr_editors =
  edCompose :: "string \<Rightarrow> string list \<Rightarrow> string \<Rightarrow> string \<Rightarrow> edit"
  edHelmValues :: "string \<Rightarrow> string \<Rightarrow> string \<Rightarrow> string \<Rightarrow> string \<Rightarrow> edit"
  edKustomize :: "string \<Rightarrow> string \<Rightarrow> string \<Rightarrow> string \<Rightarrow> string \<Rightarrow> edit"
  edManifest :: "string \<Rightarrow> manifest_target list \<Rightarrow> string \<Rightarrow> string \<Rightarrow> string \<Rightarrow> edit"
  edSourceConflict :: "string \<Rightarrow> kubernetes_mapping list \<Rightarrow> bool"
  edDockerfile :: "string \<Rightarrow> string \<Rightarrow> string \<Rightarrow> string \<Rightarrow> string + nat \<times> string \<times> string"
  edResolveBase :: "string \<Rightarrow> string \<Rightarrow> (string \<times> string) option"
  edSum256 :: "string \<Rightarrow> string"
  edTitle :: "compose_unit \<Rightarrow> string \<Rightarrow> attempt_record \<Rightarrow> string"
  edBody :: "compose_unit \<Rightarrow> attempt_record \<Rightarrow> string \<Rightarrow> pr_marker \<Rightarrow> string option"
  edMarkerLen :: "pr_marker \<Rightarrow> nat"
  edKubeMappings :: "kubernetes_mapping list"

subsection \<open>Outcomes\<close>

type_synonym outcome = "unit_status \<times> string"

definition stopOutcome :: "pr_run \<Rightarrow> outcome" where
  "stopOutcome r = (case rnStop r of Some s \<Rightarrow> (siStatus s, siReason s) | None \<Rightarrow> (PRStatusNone, ''''))"

definition stopped :: "nat \<Rightarrow> pr_run \<Rightarrow> outcome option" where
  "stopped i r =
     (if rnHalt r \<noteq> None then Some (PRStatusDeferred, haltReason r)
      else if rnStop r \<noteq> None then Some (stopOutcome r)
      else let rs = rnRepos r ! i in
        if \<not> writable rs then Some (PRStatusWriteBlocked, if rtBlocked rs = '''' then ReasonReconcileFailed else rtBlocked rs)
        else None)"

definition readFailure :: "pr_env \<Rightarrow> go_error \<Rightarrow> outcome prm" where
  "readFailure env err = do {
     h \<leftarrow> haltFor env err;
     if h then look (\<lambda>r. (PRStatusDeferred, haltReason r))
     else ret (if errIs err ErrByteBudgetExhausted then (PRStatusDeferred, ReasonByteBudget) else (PRStatusFailed, ReasonGitHubError))
   }"

definition writeFailure :: "go_error \<Rightarrow> pr_run \<Rightarrow> outcome" where
  "writeFailure err r =
     (if errIs err ErrWritesStopped \<or> errIs err ErrOutcomeUnknown then stopOutcome r
      else if rnHalt r \<noteq> None \<and> (errIs err ErrRateLimited \<or> errIs err ErrBudgetExhausted \<or> errIs err ErrCanceled \<or> errIs err ErrDeadlineExceeded)
      then (PRStatusDeferred, haltReason r)
      else if errIs err ErrStatus then (PRStatusFailed, ReasonGitHubRefused) else (PRStatusFailed, ReasonGitHubError))"

definition resolveBranch :: "pr_env \<Rightarrow> string \<Rightarrow> string \<Rightarrow> (go_error + string) prm" where
  "resolveBranch env repo branch = ask (\<lambda>n. evResolveBranch env n repo branch) (\<lambda>_. Read (ReadBranch repo branch))"

definition readFile :: "pr_env \<Rightarrow> string \<Rightarrow> string \<Rightarrow> string \<Rightarrow> (go_error + github_file) prm" where
  "readFile env repo sha path = ask (\<lambda>n. evReadFile env n repo sha path) (\<lambda>_. Read (ReadFile repo sha path))"

definition readCommit :: "pr_env \<Rightarrow> string \<Rightarrow> string \<Rightarrow> (go_error + commit_info) prm" where
  "readCommit env repo sha = ask (\<lambda>n. evCommit env n repo sha) (\<lambda>_. Read (ReadCommit repo sha))"

text \<open>The checks below answer \<open>None\<close> when the unit may go on.\<close>

definition recheckCandidate :: "pr_env \<Rightarrow> string \<Rightarrow> string \<Rightarrow> string \<Rightarrow> string \<Rightarrow> outcome option prm" where
  "recheckCandidate env repoRef tag topDigest platform = (case parsePlatform platform of
       None \<Rightarrow> ret (Some (PRStatusDeferred, ReasonRegistryRecheck))
     | Some pl \<Rightarrow> do {
         res \<leftarrow> ask (\<lambda>n. evResolve env n repoRef tag pl) (\<lambda>_. Read (ResolveTag repoRef tag));
         case res of
           Inl err \<Rightarrow> do {
             (if errIs err ErrCanceled \<or> errIs err ErrDeadlineExceeded \<or> errIs err ErrTimeout then haltFor env err else ret False);
             ret (Some (PRStatusDeferred, ReasonRegistryRecheck))
           }
         | Inr digest \<Rightarrow> ret (if digest \<noteq> topDigest then Some (PRStatusDeferred, ReasonCandidateChanged) else None)
       })"

fun sourceUnchanged :: "pr_env \<Rightarrow> nat \<Rightarrow> string \<Rightarrow> bool \<Rightarrow> source_file list \<Rightarrow> outcome option prm" where
  "sourceUnchanged env i base moved [] = ret None"
| "sourceUnchanged env i base moved (f # fs) =
     (if soRepository f = '''' \<and> \<not> moved then sourceUnchanged env i base moved fs
      else do {
        rs \<leftarrow> lookRepo i;
        place \<leftarrow> (if soRepository f \<noteq> '''' then do {
            ans \<leftarrow> resolveBranch env (soRepository f) (soBaseBranch f);
            case ans of Inl err \<Rightarrow> do { out \<leftarrow> readFailure env err; ret (Inl out) } | Inr sha \<Rightarrow> ret (Inr (soRepository f, sha))
          } else ret (Inr (rtName rs, base)));
        case place of
          Inl out \<Rightarrow> ret (Some out)
        | Inr (repo, sha) \<Rightarrow> do {
            cur \<leftarrow> readFile env repo sha (soPath f);
            case cur of
              Inl err \<Rightarrow>
                if errIs err ErrNotFound then ret (Some (PRStatusDeferred, ReasonSourceChanged))
                else do { out \<leftarrow> readFailure env err; ret (Some out) }
            | Inr file \<Rightarrow>
                if gfSHA file \<noteq> soBlobSHA f then ret (Some (PRStatusDeferred, ReasonSourceChanged))
                else sourceUnchanged env i base moved fs
          }
      })"

definition dockerfileSourceUnchanged :: "pr_env \<Rightarrow> nat \<Rightarrow> dockerfile_unit \<Rightarrow> string \<Rightarrow> outcome option prm" where
  "dockerfileSourceUnchanged env i df base = sourceUnchanged env i base (dfCommit df \<noteq> '''' \<and> dfCommit df \<noteq> base) (dfFiles df)"

definition pathDir :: "string \<Rightarrow> string" where
  "pathDir p = pathClean (rev (dropWhile (\<lambda>c. c \<noteq> CHR ''/'') (rev p)))"

definition imageUpdaterFile :: "string \<Rightarrow> bool" where
  "imageUpdaterFile name \<longleftrightarrow> hasPrefix name ''.argocd-source-'' \<and> hasSuffix name ''.yaml''"

definition noImageUpdaterFile :: "pr_env \<Rightarrow> nat \<Rightarrow> string \<Rightarrow> string \<Rightarrow> outcome option prm" where
  "noImageUpdaterFile env i path base = (case evListDirectory env of
       None \<Rightarrow> ret None
     | Some lister \<Rightarrow> do {
         rs \<leftarrow> lookRepo i;
         ans \<leftarrow> ask (\<lambda>n. lister n (rtName rs) base (pathDir path)) (\<lambda>_. Read (ReadDirectory (rtName rs) base (pathDir path)));
         case ans of
           Inl err \<Rightarrow> if errIs err ErrNotFound then ret None else do { out \<leftarrow> readFailure env err; ret (Some out) }
         | Inr names \<Rightarrow> ret (if list_ex imageUpdaterFile names then Some (PRStatusManual, ReasonImageUpdaterFile) else None)
       })"

subsection \<open>Language units\<close>

definition LockfileName :: "string \<Rightarrow> string" where
  "LockfileName m =
     (if m = ''npm'' then ''package-lock.json'' else if m = ''pnpm'' then ''pnpm-lock.yaml'' else if m = ''uv'' then ''uv.lock''
      else if m = ''pip'' then ''requirements.txt'' else if m = ''go'' then ''go.mod'' else if m = ManagerMaven then ''pom.xml''
      else if m = ''gradle'' then ''gradle.lockfile'' else '''')"

definition itemRoot :: "language_item \<Rightarrow> string" where
  "itemRoot it = (if liDirectory it = '''' then ''.'' else liDirectory it)"

definition pathIn :: "string \<Rightarrow> string \<Rightarrow> string" where
  "pathIn dir name = (if dir = ''.'' then name else dir @ ''/'' @ name)"

definition mavenRootPom :: "language_item \<Rightarrow> string" where
  "mavenRootPom it = (let want = pathIn (itemRoot it) ''pom.xml'' in
     if list_ex (\<lambda>f. soRepository f = '''' \<and> soPath f = want) (liFiles it) then want else '''')"

definition languageLockPath :: "language_item \<Rightarrow> string" where
  "languageLockPath it =
     (if liManager it = ManagerMaven then mavenRootPom it
      else case filter (\<lambda>f. soRepository f = '''' \<and> pathBase (soPath f) = LockfileName (liManager it)) (liFiles it) of
        [f] \<Rightarrow> soPath f
      | _ \<Rightarrow> '''')"

definition proposalRank :: "string \<Rightarrow> nat" where
  "proposalRank s = (if s = PRStateOpen then 3 else if s = PRStateMerged then 2 else if s = PRStateClosed then 1 else 0)"

definition standsFor :: "key_hash \<Rightarrow> language_item \<Rightarrow> string \<Rightarrow> int \<Rightarrow> pr_record \<Rightarrow> bool" where
  "standsFor hsh it fingerprint repoID rec \<longleftrightarrow>
     kindOf (prKind rec) = prKindLanguage
     \<and> (case prLang rec of None \<Rightarrow> False | Some l \<Rightarrow> lgInputFingerprint l = fingerprint \<and> lgManager l = liManager it)
     \<and> \<not> ((prMarkerOnly rec \<or> prRecovered rec) \<and> \<not> prInputVerified rec) \<and> proposalRank (prState rec) \<noteq> 0
     \<and> equalFold (prRepo rec) (liRepository it) \<and> (repoID \<noteq> 0 \<longrightarrow> prRepoID rec = repoID) \<and> languageLockPath it \<noteq> ''''
     \<and> prTargetKey rec = TargetKeyOf hsh prKindLanguage (prRepoID rec) (liBaseBranch it) (languageLockPath it) [itemRoot it]"

fun bestProposal :: "(pr_record \<Rightarrow> bool) \<Rightarrow> pr_record list \<Rightarrow> pr_record option \<Rightarrow> pr_record option" where
  "bestProposal ok [] best = best"
| "bestProposal ok (rec # recs) best =
     bestProposal ok recs
       (if ok rec \<and> (case best of None \<Rightarrow> True | Some b \<Rightarrow> proposalRank (prState rec) > proposalRank (prState b)) then Some rec else best)"

definition proposalFor :: "key_hash \<Rightarrow> store_file \<Rightarrow> language_item \<Rightarrow> string \<Rightarrow> int \<Rightarrow> pr_record option" where
  "proposalFor hsh f it fingerprint repoID = bestProposal (standsFor hsh it fingerprint repoID) (sfPRs f) None"

text \<open>\<open>languageNotInOpenPR\<close>: whether the unit may go on.\<close>

definition languageNotInOpenPR :: "key_hash \<Rightarrow> compose_unit \<Rightarrow> int \<Rightarrow> string \<Rightarrow> string \<Rightarrow> store_file \<Rightarrow> bool" where
  "languageNotInOpenPR hsh u repoID target updateKey f =
     (let mine = map (FixTarget_key hsh) (cuFixTargets u) in
      list_all (\<lambda>old. prRepoID old \<noteq> repoID \<or> prTargetKey old \<noteq> target \<or> prState old \<noteq> PRStateOpen \<or> prUpdateKey old = updateKey
         \<or> prUserModified old \<or> prMarkerOnly old \<or> prFixTargets old = []
         \<or> list_all (\<lambda>t. FixTarget_key hsh t \<in> set mine) (prFixTargets old)) (sfPRs f))"

record edited_file =
  efPath :: string
  efMode :: string
  efContent :: string
  efBlobSHA :: string

definition checkArtifact :: "pr_editors \<Rightarrow> language_unit \<Rightarrow> string \<Rightarrow> artifact_file \<Rightarrow> outcome option" where
  "checkArtifact ed lu p a =
     (if \<not> ValidPath p False then Some (PRStatusFailed, ReasonArtifactsUnusable)
      else if arContent a = '''' then Some (PRStatusDeferred, ReasonArtifactContentMissing)
      else if length (arContent a) \<noteq> arSize a \<or> edSum256 ed (arContent a) \<noteq> arSHA256 a then Some (PRStatusFailed, ReasonArtifactsUnusable)
      else if map_of (luSources lu) p = None \<and> p \<notin> set (liAbsent (luItem lu)) then Some (PRStatusFailed, ReasonArtifactsUnusable)
      else None)"

fun checkArtifacts :: "pr_editors \<Rightarrow> language_unit \<Rightarrow> string list \<Rightarrow> outcome option" where
  "checkArtifacts ed lu [] = None"
| "checkArtifacts ed lu (p # ps) = (case map_of (luArtifacts lu) p of
       None \<Rightarrow> checkArtifacts ed lu ps
     | Some a \<Rightarrow> (case checkArtifact ed lu p a of Some out \<Rightarrow> Some out | None \<Rightarrow> checkArtifacts ed lu ps))"

definition unusable :: "go_error \<Rightarrow> bool" where
  "unusable err \<longleftrightarrow> errIs err ErrNotRegularFile \<or> errIs err ErrLFSPointer \<or> errIs err ErrTooLarge"

text \<open>The files the plan read, checked at the base: the mode each has there.\<close>

fun checkSources :: "pr_env \<Rightarrow> nat \<Rightarrow> language_unit \<Rightarrow> string \<Rightarrow> bool \<Rightarrow> (string \<times> source_file) list \<Rightarrow> (outcome + (string, string) gmap) prm" where
  "checkSources env i lu base moved [] = ret (Inr [])"
| "checkSources env i lu base moved ((p, src) # srcs) =
     (if \<not> moved \<and> (case map_of (luArtifacts lu) p of None \<Rightarrow> True | Some a \<Rightarrow> arMode a \<noteq> '''') then checkSources env i lu base moved srcs
      else do {
        rs \<leftarrow> lookRepo i;
        cur \<leftarrow> readFile env (rtName rs) base p;
        case cur of
          Inl err \<Rightarrow>
            if errIs err ErrNotFound \<or> unusable err then ret (Inl (PRStatusDeferred, ReasonSourceChanged))
            else do { out \<leftarrow> readFailure env err; ret (Inl out) }
        | Inr file \<Rightarrow>
            if gfSHA file \<noteq> soBlobSHA src then ret (Inl (PRStatusDeferred, ReasonSourceChanged))
            else do {
              rest \<leftarrow> checkSources env i lu base moved srcs;
              ret (case rest of Inl out \<Rightarrow> Inl out | Inr modes \<Rightarrow> Inr ((p, gfMode file) # modes))
            }
      })"

fun checkAbsent :: "pr_env \<Rightarrow> nat \<Rightarrow> string \<Rightarrow> string list \<Rightarrow> outcome option prm" where
  "checkAbsent env i base [] = ret None"
| "checkAbsent env i base (p # ps) = do {
     rs \<leftarrow> lookRepo i;
     cur \<leftarrow> readFile env (rtName rs) base p;
     case cur of
       Inl err \<Rightarrow>
         if errIs err ErrNotFound then checkAbsent env i base ps
         else if unusable err then ret (Some (PRStatusDeferred, ReasonSourceChanged))
         else do { out \<leftarrow> readFailure env err; ret (Some out) }
     | Inr _ \<Rightarrow> ret (Some (PRStatusDeferred, ReasonSourceChanged))
   }"

fun artifactFiles :: "pr_env \<Rightarrow> language_unit \<Rightarrow> (string, string) gmap \<Rightarrow> string list \<Rightarrow> outcome + edited_file list" where
  "artifactFiles env lu modes [] = Inr []"
| "artifactFiles env lu modes (p # ps) = (case map_of (luArtifacts lu) p of
       None \<Rightarrow> artifactFiles env lu modes ps
     | Some a \<Rightarrow>
         (let blob = evBlobSHA env (arContent a);
              cur = (case map_of modes p of None \<Rightarrow> '''' | Some m \<Rightarrow> m);
              mode = (if cur = '''' then arMode a else cur) in
          if blob = (case map_of (luSources lu) p of None \<Rightarrow> '''' | Some s \<Rightarrow> soBlobSHA s) then artifactFiles env lu modes ps
          else if cur \<noteq> '''' \<and> arMode a \<noteq> '''' \<and> cur \<noteq> arMode a then Inl (PRStatusDeferred, ReasonSourceChanged)
          else if mode \<notin> {'''', ''100644'', ''100755''} then Inl (PRStatusFailed, ReasonArtifactsUnusable)
          else (case artifactFiles env lu modes ps of
              Inl out \<Rightarrow> Inl out
            | Inr files \<Rightarrow> Inr (\<lparr>efPath = p, efMode = (if mode = '''' then ''100644'' else mode), efContent = arContent a, efBlobSHA = blob\<rparr> # files))))"

definition inputSetSHA :: "pr_editors \<Rightarrow> source_file list \<Rightarrow> string" where
  "inputSetSHA ed files = take 40 (edSum256 ed (joinWith [CHR 0x0A] (sortedCopy (map (\<lambda>f. soPath f @ [CHR 0x00] @ soBlobSHA f) files))))"

definition sourcesInOrder :: "language_unit \<Rightarrow> (string \<times> source_file) list" where
  "sourcesInOrder lu = map (\<lambda>p. (p, the (map_of (luSources lu) p))) (sortedCopy (map fst (luSources lu)))"

definition languageFiles :: "pr_env \<Rightarrow> pr_editors \<Rightarrow> nat \<Rightarrow> language_unit \<Rightarrow> string \<Rightarrow> (outcome + edited_file list \<times> string) prm" where
  "languageFiles env ed i lu base =
     (let paths = sortedCopy (map fst (luArtifacts lu)); moved = (liCommitSHA (luItem lu) = '''' \<or> liCommitSHA (luItem lu) \<noteq> base) in
      case checkArtifacts ed lu paths of
        Some out \<Rightarrow> ret (Inl out)
      | None \<Rightarrow> do {
          checked \<leftarrow> checkSources env i lu base moved (sourcesInOrder lu);
          case checked of
            Inl out \<Rightarrow> ret (Inl out)
          | Inr modes \<Rightarrow> do {
              absent \<leftarrow> (if moved then checkAbsent env i base (liAbsent (luItem lu)) else ret None);
              case absent of
                Some out \<Rightarrow> ret (Inl out)
              | None \<Rightarrow> ret (case artifactFiles env lu modes paths of
                    Inl out \<Rightarrow> Inl out
                  | Inr [] \<Rightarrow> Inl (PRStatusFailed, ReasonArtifactsUnusable)
                  | Inr files \<Rightarrow> Inr (files, inputSetSHA ed (map snd (sourcesInOrder lu))))
            }
        })"

subsection \<open>Editing the file\<close>

fun editTargets :: "pr_editors \<Rightarrow> dockerfile_unit \<Rightarrow> string \<Rightarrow> string \<Rightarrow> string \<Rightarrow> string list \<Rightarrow> (string \<times> string) option \<Rightarrow> outcome + string \<times> string" where
  "editTargets ed df content current tag [] first = Inr (case first of None \<Rightarrow> ('''', '''') | Some e \<Rightarrow> e)"
| "editTargets ed df content current tag (t # ts) first = (case edDockerfile ed content t current tag of
       Inl reason \<Rightarrow> Inl (PRStatusManual, reason)
     | Inr (stage, edited, what) \<Rightarrow>
         if (case edResolveBase ed content t of None \<Rightarrow> False
             | Some (name, platform) \<Rightarrow> \<not> equalFold name (dfStageName df) \<or> platform \<noteq> dfPlatform df)
         then Inl (PRStatusManual, ReasonDockerfileSourceMismatch)
         else if stage \<noteq> dfStage df then Inl (PRStatusManual, ReasonDockerfileSourceMismatch)
         else (case first of
             None \<Rightarrow> editTargets ed df content current tag ts (Some (edited, what))
           | Some (c, _) \<Rightarrow>
               if edited \<noteq> c then Inl (PRStatusManual, ReasonDockerfileSourceMismatch)
               else editTargets ed df content current tag ts first))"

definition editOr :: "edit \<Rightarrow> outcome + string \<times> string" where
  "editOr e = (case e of Inl reason \<Rightarrow> Inl (PRStatusManual, reason) | Inr x \<Rightarrow> Inr x)"

definition editSource :: "pr_editors \<Rightarrow> compose_unit \<Rightarrow> string \<Rightarrow> outcome + string \<times> string" where
  "editSource ed u content = (case cuKube u of
       Some kb \<Rightarrow> (case kbKustomize kb of
           Some kz \<Rightarrow>
             if kzRoute kz = routeHelmValues then editOr (edHelmValues ed content (kzItem kz) (cuCurrent u) (kbDeclared kb) (candTag u))
             else editOr (edKustomize ed content (kzItem kz) (cuCurrent u) (kbDeclared kb) (candTag u))
         | None \<Rightarrow>
             if edSourceConflict ed content (filter (\<lambda>m. kubeFileKey m = kbFile kb) (edKubeMappings ed)) then Inl (PRStatusManual, ReasonMappingConflict)
             else editOr (edManifest ed content (kbTargets kb) (cuCurrent u) (kbDeclared kb) (candTag u)))
     | None \<Rightarrow> (case cuDf u of
           None \<Rightarrow> editOr (edCompose ed content (cuServices u) (cuCurrent u) (candTag u))
         | Some df \<Rightarrow> editTargets ed df content (cuCurrent u) (candTag u) (if dfTargets df = [] then [''''] else dfTargets df) None))"

text \<open>The reasons of a file that is gone or cannot be used, by kind.\<close>

definition fileReasons :: "compose_unit \<Rightarrow> string \<times> string" where
  "fileReasons u =
     (if cuKube u \<noteq> None then (''manifest_file_not_found'', ''manifest_file_unusable'')
      else if cuDf u \<noteq> None then (''dockerfile_file_not_found'', ''dockerfile_file_unusable'')
      else (''compose_file_not_found'', ''compose_file_unusable''))"

definition checkInputs :: "pr_env \<Rightarrow> nat \<Rightarrow> compose_unit \<Rightarrow> string \<Rightarrow> outcome option prm" where
  "checkInputs env i u base = do {
     out \<leftarrow> (case cuDf u of Some df \<Rightarrow> dockerfileSourceUnchanged env i df base | None \<Rightarrow> ret None);
     if out \<noteq> None then ret out
     else if cuKube u \<noteq> None then noImageUpdaterFile env i (cuPath u) base else ret None
   }"

text \<open>The files of the commit, the name of the inputs and the description of the change.\<close>

definition unitFiles :: "pr_env \<Rightarrow> pr_editors \<Rightarrow> nat \<Rightarrow> compose_unit \<Rightarrow> string \<Rightarrow> (outcome + edited_file list \<times> string \<times> string) prm" where
  "unitFiles env ed i u base = (case cuLang u of
       Some lu \<Rightarrow> do {
         res \<leftarrow> languageFiles env ed i lu base;
         ret (case res of Inl out \<Rightarrow> Inl out | Inr (files, inputSHA) \<Rightarrow> Inr (files, inputSHA, ''''))
       }
     | None \<Rightarrow> do {
         out \<leftarrow> checkInputs env i u base;
         case out of
           Some out \<Rightarrow> ret (Inl out)
         | None \<Rightarrow> do {
             rs \<leftarrow> lookRepo i;
             ans \<leftarrow> readFile env (rtName rs) base (cuPath u);
             case ans of
               Inl err \<Rightarrow>
                 if errIs err ErrNotFound then ret (Inl (PRStatusManual, fst (fileReasons u)))
                 else if unusable err then ret (Inl (PRStatusManual, snd (fileReasons u)))
                 else do { out \<leftarrow> readFailure env err; ret (Inl out) }
             | Inr file \<Rightarrow> ret (case editSource ed u (gfContent file) of
                   Inl out \<Rightarrow> Inl out
                 | Inr (edited, what) \<Rightarrow>
                     Inr ([\<lparr>efPath = cuPath u, efMode = (if gfMode file = '''' then ''100644'' else gfMode file), efContent = edited,
                            efBlobSHA = evBlobSHA env edited\<rparr>], gfSHA file, what))
           }
       })"

subsection \<open>Building the commit\<close>

definition advance :: "pr_env \<Rightarrow> nat \<Rightarrow> attempt_status \<Rightarrow> outcome option prm" where
  "advance env k st = do {
     modAttempt k (\<lambda>a. a\<lparr>atStatus := st\<rparr>);
     ok \<leftarrow> save env;
     if \<not> ok then look (\<lambda>r. Some (stopOutcome r)) else ret None
   }"

definition attemptOp :: "repo_state \<Rightarrow> attempt_record \<Rightarrow> op_event" where
  "attemptOp rs a = zeroEvent\<lparr>oeRepo := rtName rs, oeAttemptKey := atAttemptKey a\<rparr>"

text \<open>The write failed: an unknown outcome is noted on the attempt.\<close>

definition noteFailure :: "pr_env \<Rightarrow> nat \<Rightarrow> string \<Rightarrow> go_error \<Rightarrow> outcome prm" where
  "noteFailure env k opID err = do {
     (if errIs err ErrOutcomeUnknown then do { modAttempt k (\<lambda>a. a\<lparr>atPendingOp := opID\<rparr>); save env; ret () } else ret ());
     look (writeFailure err)
   }"

text \<open>\<open>step\<close>: one write of an attempt; \<open>w\<close> is the request for the repository and the attempt as they are now.\<close>

definition stepWrite :: "pr_env \<Rightarrow> nat \<Rightarrow> nat \<Rightarrow> (repo_state \<Rightarrow> attempt_record \<Rightarrow> gh_write) \<Rightarrow> (outcome + string) prm" where
  "stepWrite env i k w = do {
     rs \<leftarrow> lookRepo i;
     a \<leftarrow> lookAttempt k;
     (opID, ans) \<leftarrow> write_op env (attemptOp rs a) (w rs a) (\<lambda>n. evSend env n (w rs a)) (\<lambda>ans. case ans of Inr ref \<Rightarrow> ref | Inl _ \<Rightarrow> '''');
     case ans of
       Inr ref \<Rightarrow> ret (Inr ref)
     | Inl err \<Rightarrow> do { out \<leftarrow> noteFailure env k opID err; ret (Inl out) }
   }"

fun createBlobs :: "pr_env \<Rightarrow> nat \<Rightarrow> nat \<Rightarrow> (string, string) gmap \<Rightarrow> file_change list \<Rightarrow> outcome option prm" where
  "createBlobs env i k contents [] = ret None"
| "createBlobs env i k contents (fc # fcs) = do {
     ans \<leftarrow> stepWrite env i k (\<lambda>rs _. CreateBlob (rtName rs) (case map_of contents (fcPath fc) of None \<Rightarrow> '''' | Some c \<Rightarrow> c));
     case ans of Inl out \<Rightarrow> ret (Some out) | Inr _ \<Rightarrow> createBlobs env i k contents fcs
   }"

definition blockBranch :: "pr_env \<Rightarrow> nat \<Rightarrow> nat \<Rightarrow> outcome prm" where
  "blockBranch env i k = do {
     modAttempt k (\<lambda>a. a\<lparr>atStatus := AttemptBlocked\<rparr>);
     a \<leftarrow> lookAttempt k;
     blockTarget i a ReasonBranchNotOurs;
     save env;
     ret (PRStatusWriteBlocked, ReasonBranchNotOurs)
   }"

definition setLastRef :: "string \<Rightarrow> store_file \<Rightarrow> store_file" where
  "setLastRef ref f = (if sfOperations f = [] then f
     else f\<lparr>sfOperations := butlast (sfOperations f) @ [(last (sfOperations f))\<lparr>oeRef := ref\<rparr>]\<rparr>)"

text \<open>
  A branch of the attempt's name exists: it is used when it points at the attempt's commit. Without a record of
  the attempt, a commit with the same parent and tree is adopted.
\<close>

definition existingRef :: "pr_env \<Rightarrow> nat \<Rightarrow> nat \<Rightarrow> string \<Rightarrow> bool \<Rightarrow> outcome option prm" where
  "existingRef env i k opID recorded = do {
     rs \<leftarrow> lookRepo i;
     a \<leftarrow> lookAttempt k;
     ans \<leftarrow> readRef env (rtName rs) (atBranch a);
     case ans of
       Inl err \<Rightarrow> do { out \<leftarrow> readFailure env err; ret (Some out) }
     | Inr None \<Rightarrow> do { out \<leftarrow> blockBranch env i k; ret (Some out) }
     | Inr (Some sha) \<Rightarrow>
         if sha = atCommitSHA a then ret None
         else if recorded then do { out \<leftarrow> blockBranch env i k; ret (Some out) }
         else do {
           bc \<leftarrow> readCommit env (rtName rs) sha;
           case bc of
             Inl err \<Rightarrow> do { out \<leftarrow> readFailure env err; ret (Some out) }
           | Inr c \<Rightarrow>
               if cmParents c = [atBaseSHA a] \<and> cmTree c = atTreeSHA a then do {
                 modAttempt k (\<lambda>a. a\<lparr>atCommitSHA := sha\<rparr>);
                 settle opID ResultOK;
                 modFile (setLastRef sha);
                 ret None
               } else do { out \<leftarrow> blockBranch env i k; ret (Some out) }
         }
   }"

definition createRef :: "pr_env \<Rightarrow> nat \<Rightarrow> nat \<Rightarrow> bool \<Rightarrow> outcome option prm" where
  "createRef env i k recorded = do {
     rs \<leftarrow> lookRepo i;
     a \<leftarrow> lookAttempt k;
     let w = CreateRef (rtName rs) (atBranch a) (atCommitSHA a);
     (opID, ans) \<leftarrow> write_op env ((attemptOp rs a)\<lparr>oeRef := atBranch a\<rparr>) w (\<lambda>n. evSend env n w) (\<lambda>_. atBranch a);
     case ans of
       Inr _ \<Rightarrow> advance env k AttemptRefCreated
     | Inl err \<Rightarrow>
         if errIs err ErrRefExists then do {
           out \<leftarrow> existingRef env i k opID recorded;
           if out \<noteq> None then ret out else advance env k AttemptRefCreated
         } else do { out \<leftarrow> noteFailure env k opID err; ret (Some out) }
   }"

definition buildTree :: "pr_env \<Rightarrow> nat \<Rightarrow> nat \<Rightarrow> string \<Rightarrow> outcome option prm" where
  "buildTree env i k baseTree = do {
     ans \<leftarrow> stepWrite env i k (\<lambda>rs a. CreateTree (rtName rs) baseTree (fileChanges a));
     case ans of
       Inl out \<Rightarrow> ret (Some out)
     | Inr tree \<Rightarrow> do { modAttempt k (\<lambda>a. a\<lparr>atTreeSHA := tree\<rparr>); advance env k AttemptTreeCreated }
   }"

definition buildCommitOf :: "pr_env \<Rightarrow> nat \<Rightarrow> nat \<Rightarrow> (attempt_record \<Rightarrow> string) \<Rightarrow> outcome option prm" where
  "buildCommitOf env i k title = do {
     ans \<leftarrow> stepWrite env i k (\<lambda>rs a. CreateCommit (rtName rs) (title a) (atTreeSHA a) [atBaseSHA a]);
     case ans of
       Inl out \<Rightarrow> ret (Some out)
     | Inr commit \<Rightarrow> do { modAttempt k (\<lambda>a. a\<lparr>atCommitSHA := commit\<rparr>); advance env k AttemptCommitCreated }
   }"

text \<open>\<open>andThen\<close>: the next step, unless the one before ended the unit.\<close>

definition andThen :: "outcome option prm \<Rightarrow> outcome option prm \<Rightarrow> outcome option prm" where
  "andThen m n = do { out \<leftarrow> m; if out \<noteq> None then ret out else n }"

definition buildCommit :: "pr_env \<Rightarrow> pr_editors \<Rightarrow> nat \<Rightarrow> nat \<Rightarrow> compose_unit \<Rightarrow> string \<Rightarrow> (string, string) gmap \<Rightarrow> bool \<Rightarrow> outcome option prm" where
  "buildCommit env ed i k u baseTree contents recorded =
     andThen (advance env k AttemptIntent)
    (andThen (do { a \<leftarrow> lookAttempt k; createBlobs env i k contents (fileChanges a) })
    (andThen (advance env k AttemptBlobCreated)
    (andThen (buildTree env i k baseTree)
    (andThen (buildCommitOf env i k (\<lambda>a. edTitle ed u (repoOfRef (atCurrentRef a)) a))
             (createRef env i k recorded)))))"

subsection \<open>Opening the pull request\<close>

definition maxMarkerWithLayers :: nat where "maxMarkerWithLayers = 20000"

definition markerOf :: "pr_env \<Rightarrow> pr_editors \<Rightarrow> attempt_record \<Rightarrow> pr_marker" where
  "markerOf env ed a =
     (let m = \<lparr>pmV = markerV, pmKind = atKind a, pmRepoID = atRepoID a, pmBaseBranch = atBaseBranch a, pmPath = atPath a,
            pmLocations = atLocations a, pmCurrentRef = atCurrentRef a, pmCandidateTag = atCandidateTag a,
            pmCandidateDigest = atCandidateDigest a, pmBaseSHA = atBaseSHA a, pmHeadSHA = atCommitSHA a, pmInputBlobSHA = atInputSHA a,
            pmChanges = fileChanges a, pmTargetKey = atTargetKey a, pmUpdateKey = atUpdateKey a, pmAttemptKey = atAttemptKey a,
            pmFixTargets = map (\<lambda>t. t\<lparr>ftEntities := []\<rparr>) (atFixTargets a), pmLang = atLang a, pmAffected = atAffected a\<rparr> in
      if edMarkerLen ed m > maxMarkerWithLayers
      then m\<lparr>pmFixTargets := map (\<lambda>t. t\<lparr>ftLayersDigest := layerSetKey (evHash env) t, ftLayers := []\<rparr>) (pmFixTargets m)\<rparr> else m)"

definition newRecord :: "repo_state \<Rightarrow> attempt_record \<Rightarrow> pull_request \<Rightarrow> pr_record" where
  "newRecord rs a pr =
     (let rec = recordFromAttempt a pr in
      if puHeadSHA pr \<noteq> atCommitSHA a \<or> puBaseRef pr \<noteq> atBaseBranch a
         \<or> puHeadRef pr \<noteq> atBranch a \<or> \<not> equalFold (puHeadRepoFullName pr) (giFullName (rtInfo rs))
         \<or> puBaseRepoID pr \<noteq> giID (rtInfo rs)
      then rec\<lparr>prUserModified := True\<rparr> else rec)"

definition adoptPulls :: "pr_env \<Rightarrow> nat \<Rightarrow> nat \<Rightarrow> string \<Rightarrow> pull_request list \<Rightarrow> outcome prm" where
  "adoptPulls env i k updateKey pulls = do {
     settleAttemptPulls env i k pulls;
     save env;
     a \<leftarrow> lookAttempt k;
     rec \<leftarrow> look (\<lambda>r. map_option (\<lambda>n. sfPRs (rnFile r) ! n) (recordByUpdateKey updateKey r));
     ret (case rec of
         Some rec \<Rightarrow>
           if atStatus a = AttemptPRCreated then (if prState rec \<noteq> PRStateOpen then (PRStatusSuppressed, '''') else (PRStatusOpen, ''''))
           else (PRStatusWriteBlocked, ReasonAttemptUnsettled)
       | None \<Rightarrow> (PRStatusWriteBlocked, ReasonAttemptUnsettled))
   }"

definition pullOpened :: "pr_env \<Rightarrow> nat \<Rightarrow> nat \<Rightarrow> pull_request \<Rightarrow> outcome prm" where
  "pullOpened env i k pr = do {
     change (\<lambda>r. r\<lparr>rnNewPRs := rnNewPRs r + 1\<rparr>);
     rs \<leftarrow> lookRepo i;
     a \<leftarrow> lookAttempt k;
     addPR (newRecord rs a pr);
     modAttempt k (\<lambda>a. a\<lparr>atStatus := AttemptPRCreated, atPRNumber := puNumber pr, atPendingOp := ''''\<rparr>);
     ok \<leftarrow> save env;
     if \<not> ok then ret (PRStatusCreated, ReasonStorageFailed)
     else do {
       n \<leftarrow> look (recordByNumber (atRepoID a) (puNumber pr));
       (case n of
          Some n \<Rightarrow> if prUserModified (newRecord rs a pr) then ret () else decideReplacements env n
        | None \<Rightarrow> ret ());
       ret (PRStatusCreated, '''')
     }
   }"

definition writePull :: "pr_env \<Rightarrow> nat \<Rightarrow> nat \<Rightarrow> string \<Rightarrow> string \<Rightarrow> outcome prm" where
  "writePull env i k title body = do {
     modAttempt k (\<lambda>a. a\<lparr>atStatus := AttemptPRRequested\<rparr>);
     rs \<leftarrow> lookRepo i;
     a \<leftarrow> lookAttempt k;
     let w = CreatePull (rtName rs) title body (atBranch a) (atBaseBranch a);
     (opID, ans) \<leftarrow> write_op env (attemptOp rs a) w (\<lambda>n. evCreatePull env n w)
       (\<lambda>ans. case ans of Inr pr \<Rightarrow> ''#'' @ itoa (nat (puNumber pr)) | Inl _ \<Rightarrow> '''');
     case ans of
       Inr pr \<Rightarrow> pullOpened env i k pr
     | Inl err \<Rightarrow> do {
         modAttempt k (\<lambda>a. if errIs err ErrOutcomeUnknown then a\<lparr>atPendingOp := opID\<rparr> else a\<lparr>atStatus := AttemptRefCreated\<rparr>);
         save env;
         look (writeFailure err)
       }
   }"

definition openPull :: "pr_env \<Rightarrow> pr_editors \<Rightarrow> nat \<Rightarrow> nat \<Rightarrow> compose_unit \<Rightarrow> string \<Rightarrow> string \<Rightarrow> string \<Rightarrow> outcome prm" where
  "openPull env ed i k u updateKey imageRepo what = do {
     rs \<leftarrow> lookRepo i;
     a \<leftarrow> lookAttempt k;
     base \<leftarrow> resolveBranch env (rtName rs) (atBaseBranch a);
     case base of
       Inl err \<Rightarrow> readFailure env err
     | Inr base \<Rightarrow>
         if base \<noteq> atBaseSHA a then ret (PRStatusDeferred, ReasonBaseMoved)
         else do {
           out \<leftarrow> (case cuDf u of Some df \<Rightarrow> dockerfileSourceUnchanged env i df base | None \<Rightarrow> ret None);
           case out of
             Some out \<Rightarrow> ret out
           | None \<Rightarrow> do {
               ref \<leftarrow> readRef env (rtName rs) (atBranch a);
               case ref of
                 Inl err \<Rightarrow> readFailure env err
               | Inr sha \<Rightarrow>
                   if sha \<noteq> Some (atCommitSHA a) then blockBranch env i k
                   else do {
                     pulls \<leftarrow> listPulls env i ''all'' (owner rs @ '':'' @ atBranch a);
                     case pulls of
                       Inl err \<Rightarrow> readFailure env err
                     | Inr pulls \<Rightarrow>
                         if branchPulls rs pulls (atBranch a) \<noteq> [] then adoptPulls env i k updateKey (branchPulls rs pulls (atBranch a))
                         else do {
                           out \<leftarrow> (if cuLang u = None then recheckCandidate env imageRepo (atCandidateTag a) (atCandidateDigest a) (candPlatform u) else ret None);
                           case out of
                             Some out \<Rightarrow> ret out
                           | None \<Rightarrow> (case edBody ed u a what (markerOf env ed a) of
                                 None \<Rightarrow> ret (PRStatusFailed, ReasonGitHubError)
                               | Some body \<Rightarrow> writePull env i k (edTitle ed u imageRepo a) body)
                         }
                   }
             }
         }
   }"

subsection \<open>The attempt\<close>

definition branchOf :: "compose_unit \<Rightarrow> string \<Rightarrow> string option" where
  "branchOf u attemptKey = (case cuLang u of
       Some lu \<Rightarrow> branchNameFor languageBranchPrefix (cuServices u) (luManager lu) attemptKey
     | None \<Rightarrow>
         if cuDf u \<noteq> None then branchNameFor dockerfileBranchPrefix (cuServices u) (candTag u) attemptKey
         else (case cuKube u of
             Some kb \<Rightarrow> (case kbKustomize kb of
                 Some kz \<Rightarrow> branchNameFor (if kzRoute kz = routeHelmValues then helmBranchPrefix else kustomizeBranchPrefix)
                   (kubeBranchNames u) (candTag u) attemptKey
               | None \<Rightarrow> branchNameFor kubernetesBranchPrefix (kubeBranchNames u) (candTag u) attemptKey)
           | None \<Rightarrow> branchNameFor composeBranchPrefix (cuServices u) (candTag u) attemptKey))"

text \<open>
  The earlier attempts of the target: a verified branch of another attempt is left without a pull request, and
  an attempt that is not verified ends the unit. The answer is whether this attempt is resumed.
\<close>

fun earlierAttempts :: "pr_env \<Rightarrow> nat \<Rightarrow> string \<Rightarrow> string \<Rightarrow> nat list \<Rightarrow> bool \<Rightarrow> (outcome + bool) prm" where
  "earlierAttempts env i target key [] resume = ret (Inr resume)"
| "earlierAttempts env i target key (k # ks) resume = do {
     rs \<leftarrow> lookRepo i;
     a \<leftarrow> lookAttempt k;
     if atTargetKey a \<noteq> target \<or> atRepoID a \<noteq> giID (rtInfo rs) \<or> settled (atStatus a) then earlierAttempts env i target key ks resume
     else if atAttemptKey a = key \<and> atAttemptKey a \<in> set (rtResumable rs) then earlierAttempts env i target key ks True
     else if atAttemptKey a \<in> set (rtResumable rs) then do {
       modAttempt k (\<lambda>a. a\<lparr>atStatus := AttemptAbandonedWithoutPR\<rparr>);
       modRepo i (\<lambda>rs. rs\<lparr>rtResumable := filter (\<lambda>x. x \<noteq> atAttemptKey a) (rtResumable rs)\<rparr>);
       ok \<leftarrow> save env;
       if \<not> ok then look (\<lambda>r. Inl (stopOutcome r)) else earlierAttempts env i target key ks resume
     } else ret (Inl (PRStatusWriteBlocked, ReasonAttemptUnsettled))
   }"

text \<open>The attempt itself, when it is recorded: a kept branch that still points at its commit is used again.\<close>

definition reuseAttempt :: "pr_env \<Rightarrow> nat \<Rightarrow> nat option \<Rightarrow> bool \<Rightarrow> (outcome + bool) prm" where
  "reuseAttempt env i k resume = (case k of
       None \<Rightarrow> ret (Inr resume)
     | Some k \<Rightarrow> do {
         rs \<leftarrow> lookRepo i;
         a \<leftarrow> lookAttempt k;
         if atStatus a = AttemptAbandonedWithoutPR then do {
           ans \<leftarrow> readRef env (rtName rs) (atBranch a);
           case ans of
             Inl err \<Rightarrow> do { out \<leftarrow> readFailure env err; ret (Inl out) }
           | Inr sha \<Rightarrow>
               if sha = Some (atCommitSHA a) then do { modAttempt k (\<lambda>a. a\<lparr>atStatus := AttemptRefCreated\<rparr>); ret (Inr True) }
               else do { modAttempt k (\<lambda>a. a\<lparr>atStatus := AttemptAbandoned\<rparr>); ret (Inr resume) }
         } else if atStatus a = AttemptPRCreated then ret (Inl (PRStatusWriteBlocked, ReasonAttemptUnsettled))
         else ret (Inr resume)
       })"

definition freshAttempt :: "repo_state \<Rightarrow> compose_unit \<Rightarrow> string \<Rightarrow> string \<Rightarrow> string \<Rightarrow> string \<Rightarrow> string \<Rightarrow> string \<Rightarrow> file_change list \<Rightarrow> attempt_record" where
  "freshAttempt rs u target updateKey attemptKey branch base inputSHA changes =
     \<lparr>atKind = recordedKind (kind u), atAttemptKey = attemptKey, atUpdateKey = updateKey, atTargetKey = target, atRepo = rtName rs,
      atRepoID = giID (rtInfo rs), atBranch = branch, atBaseBranch = cuBaseBranch u, atBaseSHA = base, atPath = cuPath u,
      atMode = fcMode (changes ! 0), atInputSHA = inputSHA, atNewBlobSHA = fcBlobSHA (changes ! 0), atTreeSHA = '''', atCommitSHA = '''',
      atStatus = AttemptIntent, atPRNumber = 0, atPendingOp = '''', atServices = cuServices u, atLocations = cuLocations u,
      atCurrentRef = cuCurrent u, atCandidateTag = candTag u, atCandidateDigest = candDigest u,
      atAffected = (if cuKube u \<noteq> None then cuWorkloads u else []), atFixTargets = cuFixTargets u, atEvidence = cuEvidence u,
      atChanges = (if cuLang u \<noteq> None then changes else []),
      atLang = (case cuLang u of Some lu \<Rightarrow> luRecord lu | None \<Rightarrow> None)\<rparr>"

definition putAttempt :: "nat option \<Rightarrow> attempt_record \<Rightarrow> unit prm" where
  "putAttempt k a = (case k of
       None \<Rightarrow> modFile (\<lambda>f. f\<lparr>sfAttempts := sfAttempts f @ [a]\<rparr>)
     | Some k \<Rightarrow> modAttempt k (\<lambda>_. a))"

definition runAttempt :: "pr_env \<Rightarrow> pr_editors \<Rightarrow> nat \<Rightarrow> compose_unit \<Rightarrow> string \<Rightarrow> string \<Rightarrow> string \<Rightarrow> string \<Rightarrow> string \<Rightarrow> string
    \<Rightarrow> edited_file list \<Rightarrow> string \<Rightarrow> bool \<Rightarrow> string \<Rightarrow> outcome prm" where
  "runAttempt env ed i u target updateKey attemptKey branch base inputSHA files what resume imageRepo = do {
     let changes = map (\<lambda>f. \<lparr>fcPath = efPath f, fcMode = efMode f, fcBlobSHA = efBlobSHA f\<rparr>) files;
     rs \<leftarrow> lookRepo i;
     old \<leftarrow> look (attemptByKey attemptKey);
     fits \<leftarrow> reserve (if resume then 2 else 2 * (length changes + 4));
     if \<not> fits then look stopOutcome
     else if resume then (case old of
         Some k \<Rightarrow> do {
           modAttempt k (\<lambda>a. a\<lparr>atEvidence := cuEvidence u, atFixTargets := cuFixTargets u\<rparr>);
           openPull env ed i k u updateKey imageRepo what
         }
       | None \<Rightarrow> ret (PRStatusNone, ''''))
     else do {
       bc \<leftarrow> readCommit env (rtName rs) base;
       case bc of
         Inl err \<Rightarrow> readFailure env err
       | Inr bc \<Rightarrow> do {
           putAttempt old (freshAttempt rs u target updateKey attemptKey branch base inputSHA changes);
           k \<leftarrow> look (\<lambda>r. case attemptByKey attemptKey r of Some k \<Rightarrow> k | None \<Rightarrow> length (sfAttempts (rnFile r)));
           out \<leftarrow> buildCommit env ed i k u (cmTree bc) (map (\<lambda>f. (efPath f, efContent f)) (rev files)) (old \<noteq> None);
           case out of Some out \<Rightarrow> ret out | None \<Rightarrow> openPull env ed i k u updateKey imageRepo what
         }
     }
   }"

text \<open>\<open>createPull\<close>: the outcome, and the key of the attempt when it got that far.\<close>

definition createPull :: "pr_env \<Rightarrow> pr_editors \<Rightarrow> nat \<Rightarrow> compose_unit \<Rightarrow> string \<Rightarrow> string \<Rightarrow> string \<Rightarrow> (outcome \<times> string) prm" where
  "createPull env ed i u target updateKey imageRepo = do {
     rs \<leftarrow> lookRepo i;
     base \<leftarrow> resolveBranch env (rtName rs) (cuBaseBranch u);
     case base of
       Inl err \<Rightarrow> do { out \<leftarrow> readFailure env err; ret (out, '''') }
     | Inr base \<Rightarrow> do {
         res \<leftarrow> unitFiles env ed i u base;
         case res of
           Inl out \<Rightarrow> ret (out, '''')
         | Inr (files, inputSHA, what) \<Rightarrow>
             (let attemptKey = AttemptKey (evHash env) updateKey base inputSHA
                (map (\<lambda>f. \<lparr>fcPath = efPath f, fcMode = efMode f, fcBlobSHA = efBlobSHA f\<rparr>) files) in
              case branchOf u attemptKey of
                None \<Rightarrow> ret ((PRStatusFailed, ReasonGitHubError), '''')
              | Some branch \<Rightarrow> do {
                  n \<leftarrow> look (\<lambda>r. length (sfAttempts (rnFile r)));
                  earlier \<leftarrow> earlierAttempts env i target attemptKey [0..<n] False;
                  case earlier of
                    Inl out \<Rightarrow> ret (out, attemptKey)
                  | Inr resume \<Rightarrow> do {
                      k \<leftarrow> look (attemptByKey attemptKey);
                      reused \<leftarrow> reuseAttempt env i k resume;
                      case reused of
                        Inl out \<Rightarrow> ret (out, attemptKey)
                      | Inr resume \<Rightarrow> do {
                          out \<leftarrow> runAttempt env ed i u target updateKey attemptKey branch base inputSHA files what resume imageRepo;
                          ret (out, attemptKey)
                        }
                    }
                })
       }
   }"

subsection \<open>Checks that leave writes allowed when they pass\<close>

named_theorems passes \<open>operations that leave the records alone and, when their answer is good, writes allowed\<close>

definition passOp :: "('a \<Rightarrow> bool) \<Rightarrow> 'a prm \<Rightarrow> bool" where
  "passOp ok m \<longleftrightarrow> quietOp m \<and> (\<forall>r. canSend r \<longrightarrow> ok (fst (run_state m r)) \<longrightarrow> canSend (snd (run_state m r)))"

lemma pass_calm: "calmOp m \<Longrightarrow> passOp ok m"
  by (simp add: passOp_def calmOp_def)

lemma pass_ret [passes]: "passOp ok (ret a)"
  by (rule pass_calm) (rule calm_ret)

lemma pass_bind [passes]: "calmOp m \<Longrightarrow> (\<And>a. passOp ok (f a)) \<Longrightarrow> passOp ok (State_Monad.bind m f)"
  unfolding passOp_def calmOp_def by (auto simp: case_prod_beta intro!: quiet_bind)

lemma pass_fail: "quietOp m \<Longrightarrow> (\<And>x. \<not> ok (f x)) \<Longrightarrow> passOp ok (do { x \<leftarrow> m; ret (f x) })"
  unfolding passOp_def by (auto simp: case_prod_beta intro!: quiet)

lemma pass_then:
  assumes "passOp ok' m" "\<And>a. ok' a \<Longrightarrow> passOp ok (f a)" "\<And>a. \<not> ok' a \<Longrightarrow> (\<exists>b. f a = ret b \<and> \<not> ok b)"
  shows "passOp ok (State_Monad.bind m f)"
proof -
  have q: "quietOp (f a)" for a using assms(2,3) [of a] by (cases "ok' a") (auto simp: passOp_def quiet_ret)
  have "canSend (snd (run_state (f a) s))" if "canSend r" "run_state m r = (a, s)" "ok (fst (run_state (f a) s))" for r a s
  proof (cases "ok' a")
    case True
    then show ?thesis using assms(1) assms(2) [OF True] that unfolding passOp_def by (metis fst_conv snd_conv)
  next
    case False
    then show ?thesis using assms(3) [OF False] that(3) by auto
  qed
  then show ?thesis using assms(1) q unfolding passOp_def by (auto simp: case_prod_beta intro!: quiet_bind)
qed

lemma pass_if [passes]: "(b \<Longrightarrow> passOp ok m) \<Longrightarrow> (\<not> b \<Longrightarrow> passOp ok n) \<Longrightarrow> passOp ok (if b then m else n)"
  by simp

lemma pass_option [passes]: "(x = None \<Longrightarrow> passOp ok m) \<Longrightarrow> (\<And>a. x = Some a \<Longrightarrow> passOp ok (f a)) \<Longrightarrow> passOp ok (case x of None \<Rightarrow> m | Some a \<Rightarrow> f a)"
  by (simp split: option.splits)

lemma pass_sum [passes]: "(\<And>a. x = Inl a \<Longrightarrow> passOp ok (f a)) \<Longrightarrow> (\<And>a. x = Inr a \<Longrightarrow> passOp ok (g a)) \<Longrightarrow> passOp ok (case x of Inl a \<Rightarrow> f a | Inr a \<Rightarrow> g a)"
  by (simp split: sum.splits)

lemma pass_prod [passes]: "(\<And>a b. x = (a, b) \<Longrightarrow> passOp ok (f a b)) \<Longrightarrow> passOp ok (case x of (a, b) \<Rightarrow> f a b)"
  by (simp split: prod.splits)

lemma hoare_pass: "passOp ok m \<Longrightarrow> stable P \<Longrightarrow> hoare (\<lambda>r. canSend r \<and> P r) m (\<lambda>x r. ok x \<longrightarrow> canSend r \<and> P r)"
  by (rule hoareI) (metis fst_conv snd_conv passOp_def quietOp_def quietTo_def stable_def)

abbreviation good :: "outcome option \<Rightarrow> bool" where "good x \<equiv> x = None"
definition found :: "outcome + 'a \<Rightarrow> bool" where "found x = (case x of Inl _ \<Rightarrow> False | Inr _ \<Rightarrow> True)"

lemma found_simps [simp]: "found (Inr y)" "\<not> found (Inl out)"
  by (simp_all add: found_def)

lemma pass_found:
  assumes "passOp found m" "\<And>y. passOp ok (f (Inr y))" "\<And>out. \<exists>b. f (Inl out) = ret b \<and> \<not> ok b"
  shows "passOp ok (State_Monad.bind m f)"
proof (rule pass_then [OF assms(1)])
  fix a
  show "found a \<Longrightarrow> passOp ok (f a)" using assms(2) by (cases a) auto
  show "\<not> found a \<Longrightarrow> \<exists>b. f a = ret b \<and> \<not> ok b" using assms(3) by (cases a) auto
qed

lemma quiet_readFailure [quiet]: "quietOp (readFailure env err)"
  unfolding readFailure_def by (intro quiet)

lemma calm_reads [calm]: "calmOp (resolveBranch env repo b)" "calmOp (readFile env repo sha p)" "calmOp (readCommit env repo sha)"
  unfolding resolveBranch_def readFile_def readCommit_def by (intro calm; simp add: isSent_def)+

lemma pass_recheckCandidate: "passOp good (recheckCandidate env repoRef tag d pl)"
  unfolding recheckCandidate_def
  by (intro passes calm pass_fail quiet) (auto simp: isSent_def)

lemma pass_noImageUpdaterFile: "passOp good (noImageUpdaterFile env i path base)"
  unfolding noImageUpdaterFile_def by (intro passes calm pass_fail quiet) (auto simp: isSent_def)

lemma pass_sourceUnchanged: "passOp good (sourceUnchanged env i base moved fs)"
proof (induction fs)
  case (Cons f fs)
  have place: "passOp found (if soRepository f \<noteq> '''' then do {
      ans \<leftarrow> resolveBranch env (soRepository f) (soBaseBranch f);
      case ans of Inl err \<Rightarrow> do { out \<leftarrow> readFailure env err; ret (Inl out) } | Inr sha \<Rightarrow> ret (Inr (soRepository f, sha)) }
    else ret (Inr (rtName rs, base)))" for rs :: repo_state
    by (intro passes calm pass_fail quiet) auto
  have rest: "passOp good (case pl of Inl out \<Rightarrow> ret (Some out) | Inr (repo, sha) \<Rightarrow> do {
      cur \<leftarrow> readFile env repo sha (soPath f);
      case cur of
        Inl err \<Rightarrow> if errIs err ErrNotFound then ret (Some (PRStatusDeferred, ReasonSourceChanged))
          else do { out \<leftarrow> readFailure env err; ret (Some out) }
      | Inr file \<Rightarrow> if gfSHA file \<noteq> soBlobSHA f then ret (Some (PRStatusDeferred, ReasonSourceChanged)) else sourceUnchanged env i base moved fs })" for pl
    by (intro passes calm pass_fail quiet Cons) auto
  show ?case
    unfolding sourceUnchanged.simps
    apply (rule pass_if, rule Cons, rule pass_bind, rule calm_look)
    apply (rule pass_found [OF place rest])
    apply auto
    done
qed (simp add: pass_ret)

lemma pass_checkInputs: "passOp good (checkInputs env i u base)"
  unfolding checkInputs_def dockerfileSourceUnchanged_def
  by (rule pass_then [where ok' = good]) (auto intro!: passes pass_sourceUnchanged pass_noImageUpdaterFile)

lemma pass_checkSources: "passOp found (checkSources env i lu base moved srcs)"
proof (induction env i lu base moved srcs rule: checkSources.induct)
  case (2 env i lu base moved p src srcs)
  let ?skip = "\<not> moved \<and> (case map_of (luArtifacts lu) p of None \<Rightarrow> True | Some a \<Rightarrow> arMode a \<noteq> '''')"
  have rec: "passOp found (do { rest \<leftarrow> checkSources env i lu base moved srcs;
      ret (case rest of Inl out \<Rightarrow> Inl out | Inr modes \<Rightarrow> Inr ((p, m) # modes)) })" if "passOp found (checkSources env i lu base moved srcs)" for m
    by (rule pass_found [OF that]) (auto intro!: passes)
  show ?case
  proof (cases ?skip)
    case True
    then show ?thesis using 2(1) by simp
  next
    case False
    have onward: "passOp found (if gfSHA fl \<noteq> soBlobSHA src then ret (Inl (PRStatusDeferred, ReasonSourceChanged))
        else do { rest \<leftarrow> checkSources env i lu base moved srcs;
          ret (case rest of Inl out \<Rightarrow> Inl out | Inr modes \<Rightarrow> Inr ((p, gfMode fl) # modes)) })" for fl :: github_file
      by (intro pass_if pass_ret rec 2(2) [OF False, of fl])
    show ?thesis unfolding checkSources.simps if_not_P [OF False]
      by (intro pass_bind pass_sum pass_if pass_ret calm pass_fail quiet onward) auto
  qed
qed (simp add: pass_ret)

lemma pass_checkAbsent: "passOp good (checkAbsent env i base ps)"
proof (induction env i base ps rule: checkAbsent.induct)
  case (2 env i base p ps)
  then show ?case unfolding checkAbsent.simps by (intro passes calm pass_fail quiet) auto
qed (simp add: pass_ret)

lemma pass_languageFiles: "passOp found (languageFiles env ed i lu base)"
proof -
  have absent: "passOp found (do { absent \<leftarrow> (if moved then checkAbsent env i base ps else ret None);
      case absent of Some out \<Rightarrow> ret (Inl out) | None \<Rightarrow> ret x })" for moved ps and x :: "outcome + edited_file list \<times> string"
    by (rule pass_then [where ok' = good]) (auto intro!: passes pass_checkAbsent)
  have checked: "passOp found (do { checked \<leftarrow> checkSources env i lu base moved srcs;
      case checked of Inl out \<Rightarrow> ret (Inl out) | Inr modes \<Rightarrow> do { absent \<leftarrow> (if moved then checkAbsent env i base ps else ret None);
      case absent of Some out \<Rightarrow> ret (Inl out) | None \<Rightarrow> ret (x modes) } })" for moved ps srcs and x :: "(string, string) gmap \<Rightarrow> outcome + edited_file list \<times> string"
    by (rule pass_found [OF pass_checkSources]) (simp_all only: sum.case, rule absent, auto)
  show ?thesis unfolding languageFiles_def Let_def by (intro pass_option pass_ret checked)
qed

lemma pass_unitFiles: "passOp found (unitFiles env ed i u base)"
proof -
  have lang: "passOp found (do { res \<leftarrow> languageFiles env ed i lu base;
      ret (case res of Inl out \<Rightarrow> Inl out | Inr (files, inputSHA) \<Rightarrow> Inr (files, inputSHA, '''')) })" for lu
    by (rule pass_found [OF pass_languageFiles]) (auto intro!: passes)
  have other: "passOp found (do { out \<leftarrow> checkInputs env i u base; case out of Some out \<Rightarrow> ret (Inl out) | None \<Rightarrow> m })"
    if "passOp found m" for m :: "(outcome + edited_file list \<times> string \<times> string) prm"
    by (rule pass_then [OF pass_checkInputs]) (auto simp: that)
  show ?thesis unfolding unitFiles_def
    by (intro pass_option lang other pass_bind calm pass_sum pass_if pass_ret pass_fail quiet) auto
qed

subsection \<open>Writes of an attempt\<close>

text \<open>The attempt at index \<open>k\<close> is not settled and satisfies \<open>P\<close>.\<close>

definition live :: "nat \<Rightarrow> (attempt_record \<Rightarrow> bool) \<Rightarrow> attempt_record list \<Rightarrow> bool" where
  "live k P as \<longleftrightarrow> k < length as \<and> \<not> settled (atStatus (as ! k)) \<and> P (as ! k)"

abbreviation liveIn :: "nat \<Rightarrow> (attempt_record \<Rightarrow> bool) \<Rightarrow> pr_run \<Rightarrow> bool" where
  "liveIn k P r \<equiv> live k P (sfAttempts (rnFile r))"

lemma stable_live [intro, simp]: "stable (liveIn k P)"
  using stable_records [of "\<lambda>_ as _. live k P as"] .

lemma live_open: "live k P as \<Longrightarrow> openAttempt k as"
  by (auto simp: live_def openAttempt_def settled_def)

lemma live_mono: "live k P as \<Longrightarrow> (\<And>a. P a \<Longrightarrow> Q a) \<Longrightarrow> live k Q as"
  by (simp add: live_def)

lemma hoare_modLive:
  assumes "\<And>a. atAttemptKey (f a) = atAttemptKey a" "\<And>a. \<not> settled (atStatus a) \<Longrightarrow> P a \<Longrightarrow> \<not> settled (atStatus (f a)) \<and> Q (f a)"
  shows "hoare (\<lambda>r. canSend r \<and> liveIn k P r) (modAttempt k f) (\<lambda>_ r. canSend r \<and> liveIn k Q r)"
proof (rule hoareI)
  fix r :: pr_run and a :: unit and r'
  assume log: "logOk (rnFile r)" and r: "canSend r \<and> liveIn k P r" and run: "run_state (modAttempt k f) r = (a, r')"
  have "canSend r' \<and> liveIn k Q r'"
    using run r assms(2) by (auto simp: modAttempt_def modFile_def change_def live_def canSend_def storageStopped_def)
  then show "prog r r' \<and> canSend r' \<and> liveIn k Q r'"
    using hoareD(1) [OF hoare_modAttempt [of f, OF assms(1)] log live_open [OF conjunct2 [OF r]] run] by simp
qed

lemma hoare_advance:
  assumes "\<not> settled st" "\<And>a. P a \<Longrightarrow> P (a\<lparr>atStatus := st\<rparr>)"
  shows "hoare (\<lambda>r. canSend r \<and> liveIn k P r) (advance env k st) (\<lambda>out r. out = None \<longrightarrow> canSend r \<and> liveIn k P r)"
  unfolding advance_def
  apply (rule hoare_bind [OF hoare_modLive [where P = P and Q = P]], simp, simp add: assms)
  apply (rule hoare_bind [OF hoare_calm [OF calm_save stable_live]])
  apply (intro hoare_if hoare_look hoare_ret)
   apply simp_all
  done

lemma hoare_liveAttempt:
  assumes "\<And>a. atAttemptKey (f a) = atAttemptKey a"
  shows "hoare (liveIn k P) (modAttempt k f) (\<lambda>_ _. True)"
  by (rule hoare_pre [OF hoare_modAttempt [OF assms] live_open])

lemma hoare_noteFailure: "hoare (liveIn k P) (noteFailure env k opID err) (\<lambda>_ _. True)"
  unfolding noteFailure_def
  apply (rule hoare_bind [of _ _ "\<lambda>_ _. True"], rule hoare_if)
    apply (rule hoare_bind [OF hoare_liveAttempt], simp, rule free_hoare, intro free)
   apply (rule free_hoare, intro free)+
  done

lemma hoare_attempt_write:
  assumes "\<And>f tr. a \<in> set (sfAttempts f) \<Longrightarrow> \<not> settled (atStatus a) \<Longrightarrow> P a \<Longrightarrow> coveredBy f (atAttemptKey a) tr w"
    "oeRepo op = repoOfWrite w" "oeAttemptKey op = atAttemptKey a"
  shows "hoare (\<lambda>r. (canSend r \<and> liveIn k P r) \<and> a = sfAttempts (rnFile r) ! k) (write_op env op w fn refOf)
    (\<lambda>x r. liveIn k P r \<and> (case snd x of Inr _ \<Rightarrow> canSend r | Inl e \<Rightarrow> definite e \<longrightarrow> canSend r))"
proof (rule hoare_pre [OF hoare_write [OF assms(2), of "\<lambda>_ as _. live k P as"]])
  fix r :: pr_run
  assume r: "(canSend r \<and> liveIn k P r) \<and> a = sfAttempts (rnFile r) ! k"
  then have "a \<in> set (sfAttempts (rnFile r))" "\<not> settled (atStatus a)" "P a" by (auto simp: live_def)
  from assms(1) [OF this] show "canSend r \<and> coveredBy (rnFile r) (oeAttemptKey op) (rnTrace r) w \<and> liveIn k P r"
    using r assms(3) by simp
qed

lemma hoare_stepWrite:
  assumes "\<And>f tr rs a. a \<in> set (sfAttempts f) \<Longrightarrow> \<not> settled (atStatus a) \<Longrightarrow> P a \<Longrightarrow> coveredBy f (atAttemptKey a) tr (w rs a)"
    "\<And>rs a. repoOfWrite (w rs a) = rtName rs"
  shows "hoare (\<lambda>r. canSend r \<and> liveIn k P r) (stepWrite env i k w) (\<lambda>x r. found x \<longrightarrow> canSend r \<and> liveIn k P r)"
  unfolding stepWrite_def
  apply (rule hoare_bind_look)+
  apply (rule hoare_bind [OF hoare_pre [OF hoare_attempt_write [where P = P and k = k]]])
      apply (erule (2) assms(1))
     apply (simp add: attemptOp_def assms(2))
    apply (simp add: attemptOp_def)
   apply simp
  apply (intro hoare_prod hoare_sum)
   apply (rule hoare_bind [OF hoare_pre [OF hoare_noteFailure [where P = P]]], simp, rule hoare_ret, simp)
  apply (rule hoare_ret, simp)
  done

lemma hoare_andThen:
  assumes "hoare P m (\<lambda>out r. out = None \<longrightarrow> Q r)" "hoare Q n (\<lambda>out r. out = None \<longrightarrow> R r)"
  shows "hoare P (andThen m n) (\<lambda>out r. out = None \<longrightarrow> R r)"
  unfolding andThen_def
  by (rule hoare_bind [OF assms(1)], rule hoare_if) (auto intro!: hoare_ret hoare_pre [OF assms(2)])

text \<open>The answer of a write is the answer of the request, or that nothing was sent.\<close>

lemma afterSend_answer: "fst (run_state (afterSend env res opID ans) s) = (opID, ans)"
  by (auto simp: afterSend_def case_prod_beta split: sum.splits)

lemma write_op_answer:
  assumes "run_state (write_op env op w fn refOf) r = (x, r')"
  shows "(\<exists>n. snd x = fn n) \<or> snd x = Inl [ErrWritesStopped]"
proof -
  have "x = fst (run_state (write_op env op w fn refOf) r)" using assms by simp
  then show ?thesis
    unfolding write_op_alt
    by (auto simp: event_def look_def modFile_def change_def ask_def Let_def case_prod_beta afterSend_answer)
qed

subsection \<open>Building the commit makes only steps of a run\<close>

abbreviation anyAttempt :: "attempt_record \<Rightarrow> bool" where "anyAttempt \<equiv> \<lambda>_. True"

lemma hoare_createBlobs:
  "hoare (\<lambda>r. canSend r \<and> liveIn k anyAttempt r) (createBlobs env i k contents fcs) (\<lambda>out r. out = None \<longrightarrow> canSend r \<and> liveIn k anyAttempt r)"
proof (induction fcs)
  case (Cons fc fcs)
  show ?case
    unfolding createBlobs.simps
    apply (rule hoare_bind [OF hoare_stepWrite [where P = anyAttempt]])
      apply (auto simp: coveredBy_def repoOfWrite_def)[2]
    apply (rule hoare_sum, rule hoare_ret, simp)
    apply (rule hoare_pre [OF Cons], simp)
    done
qed (auto intro: hoare_ret)

lemma hoare_buildTree:
  "hoare (\<lambda>r. canSend r \<and> liveIn k anyAttempt r) (buildTree env i k baseTree) (\<lambda>out r. out = None \<longrightarrow> canSend r \<and> liveIn k anyAttempt r)"
  unfolding buildTree_def
  apply (rule hoare_bind [OF hoare_stepWrite [where P = anyAttempt]])
    apply (auto simp: coveredBy_def repoOfWrite_def)[2]
  apply (rule hoare_sum, rule hoare_ret, simp)
  apply (rule hoare_bind [OF hoare_pre [OF hoare_modLive [where P = anyAttempt and Q = anyAttempt]]], simp, simp, simp)
  apply (rule hoare_advance, simp_all add: settled_def)
  done

lemma hoare_buildCommitOf:
  "hoare (\<lambda>r. canSend r \<and> liveIn k anyAttempt r) (buildCommitOf env i k title) (\<lambda>out r. out = None \<longrightarrow> canSend r \<and> liveIn k anyAttempt r)"
  unfolding buildCommitOf_def
  apply (rule hoare_bind [OF hoare_stepWrite [where P = anyAttempt]])
    apply (auto simp: coveredBy_def repoOfWrite_def)[2]
  apply (rule hoare_sum, rule hoare_ret, simp)
  apply (rule hoare_bind [OF hoare_pre [OF hoare_modLive [where P = anyAttempt and Q = anyAttempt]]], simp, simp, simp)
  apply (rule hoare_advance, simp_all add: settled_def)
  done

lemma hoare_blockBranch: "hoare (liveIn k P) (blockBranch env i k) (\<lambda>_ _. True)"
  unfolding blockBranch_def
  by (rule hoare_bind [OF hoare_liveAttempt], simp, rule free_hoare, intro free)

lemma calm_setLastRef [calm]: "calmOp (modFile (setLastRef ref))"
proof (rule calm_modFile)
  fix r :: pr_run
  show "prStep r (r\<lparr>rnFile := setLastRef ref (rnFile r)\<rparr>)"
  proof (cases "sfOperations (rnFile r) = []")
    case True
    then show ?thesis using prStep.noted [of r "rnNewPRs r" "rnProblems r" "rnRepos r"] by (simp add: setLastRef_def)
  next
    case False
    then show ?thesis
      using prStep.annotated [of r "butlast (sfOperations (rnFile r))" "last (sfOperations (rnFile r))" ref] by (simp add: setLastRef_def)
  qed
qed (simp_all add: setLastRef_def)

text \<open>A branch that exists is a definite answer: GitHub refused the request (\<open>Writer.CreateRef\<close> in \<open>internal/github/writer.go\<close>).\<close>

definition refExistsDefinite :: "pr_env \<Rightarrow> bool" where
  "refExistsDefinite env \<longleftrightarrow> (\<forall>n w e. evSend env n w = Inl e \<longrightarrow> errIs e ErrRefExists \<longrightarrow> definite e)"

lemma hoare_answer:
  assumes "hoare P (write_op env op w fn refOf) Q"
  shows "hoare P (write_op env op w fn refOf) (\<lambda>x r. Q x r \<and> ((\<exists>n. snd x = fn n) \<or> snd x = Inl [ErrWritesStopped]))"
proof (rule hoareI)
  fix r x r'
  assume "logOk (rnFile r)" "P r" and run: "run_state (write_op env op w fn refOf) r = (x, r')"
  then show "prog r r' \<and> Q x r' \<and> ((\<exists>n. snd x = fn n) \<or> snd x = Inl [ErrWritesStopped])"
    using hoareD(1,2) [OF assms] write_op_answer [OF run] by blast
qed

lemma hoare_blocked: "hoare (liveIn k P) (do { out \<leftarrow> blockBranch env i k; ret (Some out) }) (\<lambda>out r. out = None \<longrightarrow> Q r)"
  by (rule hoare_bind [OF hoare_blockBranch]) (rule hoare_ret, simp)

lemma hoare_unread: "hoare P (do { out \<leftarrow> readFailure env err; ret (Some out) }) (\<lambda>out r. out = None \<longrightarrow> Q r)"
  by (rule hoare_bind [OF quiet_hoare [OF quiet_readFailure]]) (rule hoare_ret, simp)

lemma hoare_existingRef:
  "hoare (\<lambda>r. canSend r \<and> liveIn k anyAttempt r) (existingRef env i k opID recorded) (\<lambda>out r. out = None \<longrightarrow> canSend r \<and> liveIn k anyAttempt r)"
proof -
  let ?C = "\<lambda>r. canSend r \<and> liveIn k anyAttempt r"
  have adopt: "hoare ?C (do { modAttempt k (\<lambda>a. a\<lparr>atCommitSHA := sha\<rparr>); settle opID ResultOK; modFile (setLastRef sha); ret None })
      (\<lambda>out r. out = None \<longrightarrow> ?C r)" for sha
    apply (rule hoare_bind [OF hoare_modLive [where P = anyAttempt and Q = anyAttempt]], simp, simp)
    apply (rule hoare_bind [OF hoare_calm [OF calm_settle stable_live]])
    apply (rule hoare_bind [OF hoare_calm [OF calm_setLastRef stable_live]])
    apply (rule hoare_ret, simp)
    done
  have block: "hoare ?C (do { out \<leftarrow> blockBranch env i k; ret (Some out) }) (\<lambda>out r. out = None \<longrightarrow> ?C r)"
    by (rule hoare_pre [OF hoare_blocked]) auto
  show ?thesis
    unfolding existingRef_def
    apply (rule hoare_bind_look)+
    apply (rule hoare_bind [OF hoare_pre [OF hoare_calm [OF calm_readRef stable_live]]], blast)
    apply (intro hoare_sum hoare_option hoare_if hoare_unread block)
     apply (rule hoare_ret, simp)
    apply (rule hoare_bind [OF hoare_calm [OF calm_reads(3) stable_live]])
    apply (intro hoare_sum hoare_if hoare_unread block adopt)
    done
qed

lemma hoare_createRef:
  assumes "refExistsDefinite env"
  shows "hoare (\<lambda>r. canSend r \<and> liveIn k anyAttempt r) (createRef env i k recorded) (\<lambda>out r. out = None \<longrightarrow> canSend r \<and> liveIn k anyAttempt r)"
proof -
  have adv: "hoare (\<lambda>r. canSend r \<and> liveIn k anyAttempt r) (advance env k AttemptRefCreated) (\<lambda>out r. out = None \<longrightarrow> canSend r \<and> liveIn k anyAttempt r)"
    by (rule hoare_advance) (simp_all add: settled_def)
  show ?thesis
    unfolding createRef_def Let_def
    apply (rule hoare_bind_look)+
    apply (rule hoare_bind [OF hoare_answer [OF hoare_pre [OF hoare_attempt_write [where P = anyAttempt and k = k]]]])
        apply (auto simp: coveredBy_def repoOfWrite_def attemptOp_def)[4]
    apply (intro hoare_prod hoare_sum hoare_if)
      apply (rule hoare_bind [OF hoare_pre [OF hoare_existingRef]])
       apply (use assms in \<open>auto simp: refExistsDefinite_def errIs_def\<close>)[1]
      apply (rule hoare_if, rule hoare_ret, simp)
      apply (rule hoare_pre [OF adv], blast)
     apply (rule hoare_bind [OF hoare_pre [OF hoare_noteFailure [where P = anyAttempt]]], simp, rule hoare_ret, simp)
    apply (rule hoare_pre [OF adv], simp)
    done
qed

lemma hoare_buildCommit:
  assumes "refExistsDefinite env"
  shows "hoare (\<lambda>r. canSend r \<and> liveIn k anyAttempt r) (buildCommit env ed i k u baseTree contents recorded)
     (\<lambda>out r. out = None \<longrightarrow> canSend r \<and> liveIn k anyAttempt r)"
proof -
  have blobs: "hoare (\<lambda>r. canSend r \<and> liveIn k anyAttempt r) (do { a \<leftarrow> lookAttempt k; createBlobs env i k contents (fileChanges a) })
      (\<lambda>out r. out = None \<longrightarrow> canSend r \<and> liveIn k anyAttempt r)"
    by (rule hoare_bind_look, rule hoare_pre [OF hoare_createBlobs]) blast
  show ?thesis
    unfolding buildCommit_def
    by (intro hoare_andThen [OF hoare_advance] hoare_andThen [OF blobs] hoare_andThen [OF hoare_buildTree]
        hoare_andThen [OF hoare_buildCommitOf] hoare_createRef assms) (simp_all add: settled_def)
qed

subsection \<open>Opening the pull request makes only steps of a run\<close>

text \<open>The attempt exists and has no pull request yet.\<close>

definition unopened :: "nat \<Rightarrow> attempt_record list \<Rightarrow> bool" where
  "unopened k as \<longleftrightarrow> k < length as \<and> atStatus (as ! k) \<noteq> AttemptPRCreated"

abbreviation unopenedIn :: "nat \<Rightarrow> pr_run \<Rightarrow> bool" where
  "unopenedIn k r \<equiv> unopened k (sfAttempts (rnFile r))"

lemma stable_unopened [intro, simp]: "stable (unopenedIn k)"
  using stable_records [of "\<lambda>_ as _. unopened k as"] .

lemma unopened_open: "unopened k as \<Longrightarrow> openAttempt k as"
  by (simp add: unopened_def openAttempt_def)

lemma live_unopened: "live k P as \<Longrightarrow> unopened k as"
  by (auto simp: live_def unopened_def settled_def)

lemma hoare_unopened_mod:
  "(\<And>a. atAttemptKey (f a) = atAttemptKey a) \<Longrightarrow> hoare (unopenedIn k) (modAttempt k f) (\<lambda>_ _. True)"
  by (rule hoare_pre [OF hoare_modAttempt unopened_open])

lemma hoare_request:
  "hoare (\<lambda>r. canSend r \<and> unopenedIn k r) (modAttempt k (\<lambda>a. a\<lparr>atStatus := AttemptPRRequested\<rparr>))
     (\<lambda>_ r. canSend r \<and> liveIn k (\<lambda>a. atStatus a = AttemptPRRequested) r)"
proof (rule hoareI)
  fix r :: pr_run and a :: unit and r'
  assume log: "logOk (rnFile r)" and r: "canSend r \<and> unopenedIn k r"
    and run: "run_state (modAttempt k (\<lambda>a. a\<lparr>atStatus := AttemptPRRequested\<rparr>)) r = (a, r')"
  have "canSend r' \<and> liveIn k (\<lambda>a. atStatus a = AttemptPRRequested) r'"
    using run r by (auto simp: modAttempt_def modFile_def change_def live_def unopened_def settled_def canSend_def storageStopped_def)
  then show "prog r r' \<and> canSend r' \<and> liveIn k (\<lambda>a. atStatus a = AttemptPRRequested) r'"
    using hoareD(1) [OF hoare_modAttempt log unopened_open run] r by simp
qed

lemma free_newPRs [free]: "freeOp (change (\<lambda>r. r\<lparr>rnNewPRs := n r\<rparr>))"
  unfolding freeOp_def
proof (rule hoare_change)
  fix r
  show "prog r (r\<lparr>rnNewPRs := n r\<rparr>) \<and> True" using prog_noted [of r "n r" "rnProblems r" "rnRepos r"] by simp
qed

lemma keeps_newPRs [keeps]: "keepsOp (change (\<lambda>r. r\<lparr>rnNewPRs := n r\<rparr>))"
  unfolding keepsOp_def
proof (intro allI hoare_change conjI)
  fix P and r :: pr_run
  show "prog r (r\<lparr>rnNewPRs := n r\<rparr>)" using prog_noted [of r "n r" "rnProblems r" "rnRepos r"] by simp
qed simp

lemma hoare_pullOpened: "hoare (unopenedIn k) (pullOpened env i k pr) (\<lambda>_ _. True)"
  unfolding pullOpened_def
  apply (rule keep_bind, intro keeps)+
  apply (rule hoare_bind [OF hoare_unopened_mod], simp, rule free_hoare, intro free)
  done

lemma hoare_writePull: "hoare (\<lambda>r. canSend r \<and> unopenedIn k r) (writePull env i k title body) (\<lambda>_ _. True)"
  unfolding writePull_def Let_def
  apply (rule hoare_bind [OF hoare_request])
  apply (rule hoare_bind_look)+
  apply (rule hoare_bind [OF hoare_pre [OF hoare_attempt_write [where P = "\<lambda>a. atStatus a = AttemptPRRequested" and k = k]]])
      apply (auto simp: coveredBy_def repoOfWrite_def attemptOp_def)[4]
  apply (intro hoare_prod hoare_sum)
   apply (rule hoare_bind [OF hoare_pre [OF hoare_liveAttempt]], simp, blast, rule free_hoare, intro free)
  apply (rule hoare_pre [OF hoare_pullOpened], auto dest: live_unopened)
  done

lemma hoare_pass_live:
  "passOp good m \<Longrightarrow> hoare (\<lambda>r. canSend r \<and> unopenedIn k r) m (\<lambda>out r. out = None \<longrightarrow> canSend r \<and> unopenedIn k r)"
  by (rule hoare_pass) simp_all

lemma hoare_readFailure: "hoare P (readFailure env err) (\<lambda>_ _. True)"
  by (rule quiet_hoare) (intro quiet)

lemma hoare_adoptPulls: "hoare (unopenedIn k) (adoptPulls env i k updateKey pulls) (\<lambda>_ _. True)"
  unfolding adoptPulls_def
  by (rule hoare_bind [OF hoare_pre [OF hoare_settleAttemptPulls unopened_open]], assumption, rule free_hoare, intro free)

lemma hoare_unopened_block: "hoare (unopenedIn k) (blockBranch env i k) (\<lambda>_ _. True)"
  unfolding blockBranch_def by (rule hoare_bind [OF hoare_unopened_mod], simp, rule free_hoare, intro free)

lemma hoare_openPull: "hoare (\<lambda>r. canSend r \<and> unopenedIn k r) (openPull env ed i k u updateKey imageRepo what) (\<lambda>_ _. True)"
proof -
  let ?C = "\<lambda>r. canSend r \<and> unopenedIn k r"
  have body: "hoare ?C (do { out \<leftarrow> (if b then recheckCandidate env repo tag d pl else ret None);
      case out of Some out \<Rightarrow> ret out
      | None \<Rightarrow> (case descr of None \<Rightarrow> ret (PRStatusFailed, ReasonGitHubError) | Some body \<Rightarrow> writePull env i k title body) }) (\<lambda>_ _. True)"
    for b repo tag d pl descr title
    apply (rule hoare_bind [OF hoare_pass_live], intro pass_if pass_recheckCandidate pass_ret)
    apply (intro hoare_option)
      apply (rule hoare_ret, simp)
     apply (rule hoare_pre [OF hoare_writePull], simp)
    apply (rule hoare_ret, simp)
    done
  have source: "passOp good (case d of Some df \<Rightarrow> dockerfileSourceUnchanged env i df base | None \<Rightarrow> ret None)" for d base
    unfolding dockerfileSourceUnchanged_def by (intro pass_option pass_ret pass_sourceUnchanged)
  show ?thesis
    unfolding openPull_def
    apply (rule hoare_bind_look)+
    apply (rule hoare_bind [OF hoare_pre [OF hoare_calm [OF calm_reads(1) stable_unopened]]], blast)
    apply (intro hoare_sum hoare_if hoare_readFailure)
     apply (rule hoare_ret, simp)
    apply (rule hoare_bind [OF hoare_pass_live [OF source]], rule hoare_option)
     apply (rule hoare_bind [OF hoare_pre [OF hoare_calm [OF calm_readRef stable_unopened]]], blast)
     apply (intro hoare_sum hoare_if hoare_readFailure)
      apply (rule hoare_pre [OF hoare_unopened_block], blast)
     apply (rule hoare_bind [OF hoare_calm [OF calm_listPulls stable_unopened]])
     apply (intro hoare_sum hoare_if hoare_readFailure)
      apply (rule hoare_pre [OF hoare_adoptPulls], blast)
     apply (rule body)
    apply (rule hoare_ret, simp)
    done
qed

subsection \<open>An attempt makes only steps of a run\<close>

lemma firstIdx_iff: "firstIdx P xs = Some i \<longleftrightarrow> i < length xs \<and> P (xs ! i) \<and> (\<forall>j<i. \<not> P (xs ! j))"
proof (induction P xs arbitrary: i rule: firstIdx.induct)
  case (2 P x xs)
  then show ?case by (cases i) (auto simp: All_less_Suc2)
qed simp

lemma firstIdx_None: "firstIdx P xs = None \<longleftrightarrow> (\<forall>x \<in> set xs. \<not> P x)"
  by (induction P xs rule: firstIdx.induct) auto

definition unopenedAt :: "string \<Rightarrow> attempt_record list \<Rightarrow> bool" where
  "unopenedAt key as \<longleftrightarrow> (\<forall>k. firstIdx (\<lambda>a. atAttemptKey a = key) as = Some k \<longrightarrow> unopened k as)"

lemma hoare_putAttempt:
  assumes "atAttemptKey a = key" "\<not> settled (atStatus a)"
  shows "hoare (\<lambda>r. canSend r \<and> old = attemptByKey key r \<and> unopenedAt key (sfAttempts (rnFile r))) (putAttempt old a)
    (\<lambda>_ r. canSend r \<and> (\<exists>k. attemptByKey key r = Some k \<and> liveIn k anyAttempt r))"
proof (rule hoareI)
  fix r :: pr_run and x :: unit and r'
  let ?as = "sfAttempts (rnFile r)"
  let ?P = "\<lambda>a. atAttemptKey a = key"
  assume log: "logOk (rnFile r)" and r: "canSend r \<and> old = attemptByKey key r \<and> unopenedAt key ?as" and run: "run_state (putAttempt old a) r = (x, r')"
  define as' where "as' = (case old of None \<Rightarrow> ?as @ [a] | Some k \<Rightarrow> ?as[k := a])"
  have old: "old = firstIdx ?P ?as" using r by (simp add: attemptByKey_def)
  have r': "r' = r\<lparr>rnFile := rnFile r\<lparr>sfAttempts := as'\<rparr>\<rparr>"
    using run by (cases old) (simp_all add: putAttempt_def modAttempt_def modFile_def change_def as'_def)
  have "listGrow attGrow ?as as' \<and> (\<exists>k. firstIdx ?P as' = Some k \<and> live k anyAttempt as')"
  proof (cases old)
    case None
    have "firstIdx ?P as' = Some (length ?as)"
      using None old firstIdx_None [of ?P ?as] assms(1) by (auto simp: as'_def firstIdx_iff nth_append)
    moreover have "live (length ?as) anyAttempt as'" using None assms(2) by (simp add: live_def as'_def)
    ultimately show ?thesis using None atts.grow_append [of ?as "[a]"] by (simp add: as'_def)
  next
    case (Some k)
    then have k: "firstIdx ?P ?as = Some k" using old by simp
    then have "unopened k ?as" using r by (simp add: unopenedAt_def)
    moreover have "firstIdx ?P as' = Some k" using k Some assms(1) by (auto simp: as'_def firstIdx_iff)
    moreover have "live k anyAttempt as'" using k Some assms(2) by (simp add: live_def as'_def firstIdx_iff)
    moreover have "listGrow attGrow ?as as'" if "unopened k ?as"
      using that k assms(1) Some unfolding as'_def by (auto simp: attGrow_def unopened_def firstIdx_iff intro!: atts.grow_update)
    ultimately show ?thesis by blast
  qed
  then show "prog r r' \<and> canSend r' \<and> (\<exists>k. attemptByKey key r' = Some k \<and> liveIn k anyAttempt r')"
    using r unfolding r' by (auto simp: canSend_def storageStopped_def attemptByKey_def intro!: r_into_rtranclp prStep.recorded fileGrow_Attempts)
qed

lemma hoare_modAttempt_send:
  assumes "\<And>a. atAttemptKey (f a) = atAttemptKey a"
  shows "hoare (\<lambda>r. canSend r \<and> openAttempt k (sfAttempts (rnFile r))) (modAttempt k f) (\<lambda>_ r. canSend r)"
proof (rule hoareI)
  fix r :: pr_run and a :: unit and r'
  assume log: "logOk (rnFile r)" and r: "canSend r \<and> openAttempt k (sfAttempts (rnFile r))" and run: "run_state (modAttempt k f) r = (a, r')"
  have "canSend r'" using run r by (auto simp: modAttempt_def modFile_def change_def canSend_def storageStopped_def)
  then show "prog r r' \<and> canSend r'" using hoareD(1) [OF hoare_modAttempt [of f, OF assms] log _ run] r by simp
qed

lemma hoare_calm_send: "calmOp m \<Longrightarrow> hoare canSend m (\<lambda>_. canSend)"
  using hoare_calm [of m "\<lambda>_. True"] by simp

lemma hoare_earlierAttempts: "hoare canSend (earlierAttempts env i target key ks resume) (\<lambda>x r. found x \<longrightarrow> canSend r)"
proof (induction env i target key ks resume rule: earlierAttempts.induct)
  case (2 env i target key k ks resume)
  have leave: "hoare (\<lambda>r. canSend r \<and> openAttempt k (sfAttempts (rnFile r)))
      (do { modAttempt k (\<lambda>a. a\<lparr>atStatus := AttemptAbandonedWithoutPR\<rparr>);
            modRepo i (\<lambda>rs. rs\<lparr>rtResumable := filter (\<lambda>x. x \<noteq> n) (rtResumable rs)\<rparr>);
            ok \<leftarrow> save env;
            if \<not> ok then look (\<lambda>r. Inl (stopOutcome r)) else earlierAttempts env i target key ks resume })
      (\<lambda>x r. found x \<longrightarrow> canSend r)" if "hoare canSend (earlierAttempts env i target key ks resume) (\<lambda>x r. found x \<longrightarrow> canSend r)" for n
    apply (rule hoare_bind [OF hoare_modAttempt_send], simp)
    apply (rule hoare_bind [OF hoare_calm_send [OF calm_modRepo]], simp)
    apply (rule hoare_bind [OF hoare_calm_send [OF calm_save]])
    apply (rule hoare_if, rule hoare_look, simp, rule that)
    done
  show ?case
    unfolding earlierAttempts.simps
    apply (intro hoare_bind_look hoare_if)
       apply (rule hoare_pre [OF 2(1)], blast+)
      apply (rule hoare_pre [OF 2(2)], blast+)
     apply (rule hoare_pre [OF leave [OF 2(3)]], (blast | auto simp: openAttempt_def settled_def)+)
    apply (rule hoare_ret, simp)
    done
qed (auto intro: hoare_ret)

text \<open>What the attempts hold when an attempt of the key starts.\<close>

definition keyedAt :: "string \<Rightarrow> nat option \<Rightarrow> attempt_record list \<Rightarrow> bool" where
  "keyedAt key k as \<longleftrightarrow> firstIdx (\<lambda>a. atAttemptKey a = key) as = k"

lemma keyedAt_mod:
  assumes "keyedAt key k as" "\<And>a. atAttemptKey (f a) = atAttemptKey a"
  shows "keyedAt key k (as[n := f (as ! n)])"
proof -
  have "map atAttemptKey (as[n := f (as ! n)]) = map atAttemptKey as"
    using assms(2) by (cases "n < length as") (simp_all add: map_update list_update_same_conv list_update_beyond)
  moreover have "firstIdx (\<lambda>a. atAttemptKey a = key) xs = firstIdx (\<lambda>x. x = key) (map atAttemptKey xs)" for xs :: "attempt_record list"
    by (induction xs) auto
  ultimately show ?thesis using assms(1) by (simp add: keyedAt_def)
qed

lemma keyedAt_unopenedAt: "keyedAt key k as \<Longrightarrow> (\<And>n. k = Some n \<Longrightarrow> unopened n as) \<Longrightarrow> unopenedAt key as"
  by (simp add: keyedAt_def unopenedAt_def)

lemma hoare_keyed_mod:
  assumes "\<And>a. atAttemptKey (f a) = atAttemptKey a" "\<And>a. atStatus (f a) \<noteq> AttemptPRCreated"
  shows "hoare (\<lambda>r. canSend r \<and> unopenedIn n r \<and> keyedAt key (Some n) (sfAttempts (rnFile r))) (modAttempt n f)
    (\<lambda>_ r. canSend r \<and> unopenedIn n r \<and> keyedAt key (Some n) (sfAttempts (rnFile r)))"
proof (rule hoareI)
  fix r :: pr_run and a :: unit and r'
  assume log: "logOk (rnFile r)" and r: "canSend r \<and> unopenedIn n r \<and> keyedAt key (Some n) (sfAttempts (rnFile r))"
    and run: "run_state (modAttempt n f) r = (a, r')"
  have r': "r' = r\<lparr>rnFile := rnFile r\<lparr>sfAttempts := (sfAttempts (rnFile r))[n := f (sfAttempts (rnFile r) ! n)]\<rparr>\<rparr>"
    using run by (simp add: modAttempt_def modFile_def change_def)
  have "prog r r'" by (rule hoareD(1) [OF hoare_modAttempt [of f, OF assms(1)] log _ run]) (use r unopened_open in blast)
  moreover have "canSend r'" using r unfolding r' by (simp add: canSend_def storageStopped_def)
  moreover have "unopenedIn n r'" using r assms(2) unfolding r' by (simp add: unopened_def)
  moreover have "keyedAt key (Some n) (sfAttempts (rnFile r'))" using r keyedAt_mod [OF _ assms(1)] unfolding r' by simp
  ultimately show "prog r r' \<and> canSend r' \<and> unopenedIn n r' \<and> keyedAt key (Some n) (sfAttempts (rnFile r'))" by blast
qed

abbreviation readyIn :: "string \<Rightarrow> nat option \<Rightarrow> pr_run \<Rightarrow> bool" where
  "readyIn key k r \<equiv> keyedAt key k (sfAttempts (rnFile r)) \<and> (\<forall>n. k = Some n \<longrightarrow> unopenedIn n r)"

lemma stable_keyed [intro, simp]: "stable (\<lambda>r. keyedAt key k (sfAttempts (rnFile r)))"
  using stable_records [of "\<lambda>_ as _. keyedAt key k as"] .

lemma stable_ready [intro, simp]: "stable (readyIn key k)"
  using stable_records [of "\<lambda>_ as _. keyedAt key k as \<and> (\<forall>n. k = Some n \<longrightarrow> unopened n as)"] .

lemma hoare_reuseAttempt:
  "hoare (\<lambda>r. canSend r \<and> keyedAt key k (sfAttempts (rnFile r))) (reuseAttempt env i k resume) (\<lambda>x r. found x \<longrightarrow> canSend r \<and> readyIn key k r)"
proof (cases k)
  case (Some n)
  have set: "hoare (\<lambda>r. canSend r \<and> unopenedIn n r \<and> keyedAt key (Some n) (sfAttempts (rnFile r)))
      (do { modAttempt n (\<lambda>a. a\<lparr>atStatus := st\<rparr>); ret (Inr b) }) (\<lambda>x r. found x \<longrightarrow> canSend r \<and> readyIn key k r)"
    if "st \<noteq> AttemptPRCreated" for st b
    by (rule hoare_bind [OF hoare_keyed_mod]) (use that Some in \<open>auto intro!: hoare_ret\<close>)
  let ?S = "\<lambda>r. unopenedIn n r \<and> keyedAt key (Some n) (sfAttempts (rnFile r))"
  have S: "stable ?S" by (intro stable_conj) simp_all
  have len: "keyedAt key (Some n) as \<Longrightarrow> n < length as" for as by (simp add: keyedAt_def firstIdx_iff)
  show ?thesis
    unfolding reuseAttempt_def Some option.case
    apply (intro hoare_bind_look hoare_if)
      apply (rule hoare_bind [OF hoare_pre [OF hoare_calm [OF calm_readRef S]]])
       apply (auto simp: unopened_def dest: len)[1]
      apply (intro hoare_sum hoare_if set [unfolded Some])
        apply (rule hoare_bind [OF hoare_readFailure], rule hoare_ret, simp)
       apply simp_all[2]
     apply (rule hoare_ret, simp)
    apply (rule hoare_ret, auto simp: unopened_def dest: len)
    done
qed (auto simp: reuseAttempt_def intro: hoare_ret)

lemma hoare_resumed:
  "hoare (\<lambda>r. canSend r \<and> readyIn key (Some k) r)
    (do { modAttempt k (\<lambda>a. a\<lparr>atEvidence := ev, atFixTargets := ft\<rparr>); openPull env ed i k u updateKey imageRepo what }) (\<lambda>_ _. True)"
proof (rule hoare_bind [of _ _ "\<lambda>_ r. canSend r \<and> unopenedIn k r"])
  show "hoare (\<lambda>r. canSend r \<and> readyIn key (Some k) r) (modAttempt k (\<lambda>a. a\<lparr>atEvidence := ev, atFixTargets := ft\<rparr>)) (\<lambda>_ r. canSend r \<and> unopenedIn k r)"
  proof (rule hoareI)
    fix r :: pr_run and a :: unit and r'
    assume log: "logOk (rnFile r)" and r: "canSend r \<and> readyIn key (Some k) r"
      and run: "run_state (modAttempt k (\<lambda>a. a\<lparr>atEvidence := ev, atFixTargets := ft\<rparr>)) r = (a, r')"
    have "canSend r' \<and> unopenedIn k r'"
      using run r by (auto simp: modAttempt_def modFile_def change_def unopened_def canSend_def storageStopped_def)
    moreover have "openAttempt k (sfAttempts (rnFile r))" using r unopened_open by blast
    ultimately show "prog r r' \<and> canSend r' \<and> unopenedIn k r'" using hoareD(1) [OF hoare_modAttempt log _ run] by simp
  qed
qed (rule hoare_openPull)

lemma hoare_built:
  assumes "refExistsDefinite env" "atAttemptKey a = key" "\<not> settled (atStatus a)"
  shows "hoare (\<lambda>r. canSend r \<and> readyIn key old r)
    (do { putAttempt old a;
          k \<leftarrow> look (\<lambda>r. case attemptByKey key r of Some k \<Rightarrow> k | None \<Rightarrow> length (sfAttempts (rnFile r)));
          out \<leftarrow> buildCommit env ed i k u tree contents recorded;
          case out of Some out \<Rightarrow> ret out | None \<Rightarrow> openPull env ed i k u updateKey imageRepo what }) (\<lambda>_ _. True)"
  apply (rule hoare_bind [OF hoare_pre [OF hoare_putAttempt [OF assms(2,3), of old]]])
   apply (auto simp: attemptByKey_def keyedAt_def unopenedAt_def)[1]
  apply (rule hoare_bind_look)
  apply (rule hoare_bind [OF hoare_pre [OF hoare_buildCommit [OF assms(1)]]], auto)[1]
  apply (rule hoare_option)
   apply (rule hoare_pre [OF hoare_openPull], auto dest: live_unopened)[1]
  apply (rule hoare_ret, simp)
  done

lemma hoare_runAttempt:
  assumes "refExistsDefinite env"
  shows "hoare (\<lambda>r. canSend r \<and> readyIn attemptKey k r)
    (runAttempt env ed i u target updateKey attemptKey branch base inputSHA files what resume imageRepo) (\<lambda>_ _. True)"
  unfolding runAttempt_def Let_def
  apply (rule hoare_bind_look)+
  subgoal for rs old
    apply (rule hoare_bind [OF hoare_pre [OF hoare_reserve [OF stable_ready [of attemptKey old]]]])
     apply (auto simp: attemptByKey_def keyedAt_def)[1]
    apply (intro hoare_if hoare_option)
       apply (rule hoare_look, simp)
      apply (rule hoare_ret, simp)
     apply (rule hoare_pre [OF hoare_resumed [where key = attemptKey]], auto)[1]
    apply (rule hoare_bind [OF hoare_pre [OF hoare_calm [OF calm_reads(3) stable_ready [of attemptKey old]]]], blast)
    apply (rule hoare_sum, rule hoare_readFailure)
    apply (rule hoare_built [OF assms], simp_all add: freshAttempt_def settled_def)
    done
  done

lemma free_createPull:
  assumes "refExistsDefinite env"
  shows "hoare canSend (createPull env ed i u target updateKey imageRepo) (\<lambda>_ _. True)"
proof -
  have run: "hoare (\<lambda>r. canSend r \<and> readyIn key k r)
      (do { out \<leftarrow> runAttempt env ed i u target updateKey key branch base inputSHA files what resume imageRepo; ret (out, key) }) (\<lambda>_ _. True)"
    for key k branch base inputSHA files what resume
    by (rule hoare_bind [OF hoare_runAttempt [OF assms]]) (rule hoare_ret, simp)
  have keyed: "hoare canSend (do { k \<leftarrow> look (attemptByKey key);
      reused \<leftarrow> reuseAttempt env i k resume;
      case reused of Inl out \<Rightarrow> ret (out, key) | Inr resume \<Rightarrow> do {
        out \<leftarrow> runAttempt env ed i u target updateKey key branch base inputSHA files what resume imageRepo; ret (out, key) } }) (\<lambda>_ _. True)"
    for key branch base inputSHA files what resume
    apply (rule hoare_bind_look)
    subgoal for k
      apply (rule hoare_bind [OF hoare_pre [OF hoare_reuseAttempt [of key k]]])
       apply (simp add: attemptByKey_def keyedAt_def)
      apply (rule hoare_sum, rule hoare_ret, simp)
      apply (rule hoare_pre [OF run [where k = k]], simp)
      done
    done
  show ?thesis
    unfolding createPull_def Let_def
    apply (rule hoare_bind_look)
    apply (rule hoare_bind [OF hoare_pre [OF hoare_calm_send [OF calm_reads(1)]]], blast)
    apply (rule hoare_sum, rule hoare_bind [OF hoare_readFailure], rule hoare_ret, simp)
    apply (rule hoare_bind [OF hoare_pre [OF hoare_pass [OF pass_unitFiles stable_True]]], simp)
    apply (intro hoare_sum hoare_prod hoare_option)
      apply (rule hoare_ret, simp)
     apply (rule hoare_ret, simp)
    apply (rule hoare_bind_look)
    apply (rule hoare_bind [OF hoare_pre [OF hoare_earlierAttempts]], simp)
    apply (rule hoare_sum, rule hoare_ret, simp)
    apply (rule hoare_pre [OF keyed], simp)
    done
qed

end
