(* ===== verification/PR_Stage.thy ===== *)
theory PR_Stage
  imports PR_Create
begin

section \<open>A cycle of the pull request stage\<close>

text \<open>
  \<open>PRStage.Run\<close> of \<open>internal/remediation/pr_stage.go\<close>: the repositories are read and their records
  checked, every update unit is processed, the replacements in progress go on, and the outcome is put
  together. The units, which the code builds from the plan, and the names of the repositories are
  arguments; so are the answers of the store to locking and loading.

  The theorems are about a whole cycle. \<open>Run_steps\<close> shows that it is a sequence of the steps of
  \<open>PR_Steps\<close>, whatever GitHub, the registry and the store answer, and the invariants of those steps give the
  properties.
\<close>

subsection \<open>The outcome of a unit\<close>

record unit_view =
  uvKind :: string
  uvKey :: string
  uvTargetKey :: string
  uvUpdateKey :: string
  uvAttemptKey :: string
  uvRepo :: string
  uvBaseBranch :: string
  uvPath :: string
  uvServices :: "string list"
  uvLocations :: "string list"
  uvWorkloads :: "string list"
  uvCurrent :: string
  uvCandidateTag :: string
  uvCandidateDigest :: string
  uvItemKey :: string
  uvStatus :: unit_status
  uvReason :: string
  uvNumber :: int
  uvState :: string
  uvUserModified :: bool
  uvFixTargets :: "fix_target list"
  uvReplacedBy :: int
  uvReplacing :: "replacement list"
  uvReplaced :: "int list"

definition unitView :: "compose_unit \<Rightarrow> unit_view" where
  "unitView u =
     \<lparr>uvKind = (if cuLang u \<noteq> None then prKindLanguage else if cuKube u \<noteq> None then kind u
        else if cuDf u \<noteq> None then prKindDockerfile else ''''),
      uvKey = cuKey u, uvTargetKey = '''', uvUpdateKey = '''', uvAttemptKey = '''', uvRepo = cuRepo u, uvBaseBranch = cuBaseBranch u,
      uvPath = cuPath u, uvServices = cuServices u, uvLocations = cuLocations u, uvWorkloads = cuWorkloads u, uvCurrent = cuCurrent u,
      uvCandidateTag = candTag u, uvCandidateDigest = candDigest u,
      uvItemKey = (case cuLang u of Some lu \<Rightarrow> liKey (luItem lu) | None \<Rightarrow> ''''),
      uvStatus = PRStatusNone, uvReason = '''', uvNumber = 0, uvState = '''', uvUserModified = False, uvFixTargets = [], uvReplacedBy = 0,
      uvReplacing = [], uvReplaced = []\<rparr>"

definition withOutcome :: "outcome \<Rightarrow> unit_view \<Rightarrow> unit_view" where
  "withOutcome out v = v\<lparr>uvStatus := fst out, uvReason := snd out\<rparr>"

subsection \<open>Processing a unit\<close>

text \<open>\<open>addInputFingerprint\<close>: the record at index \<open>n\<close> with the inputs of this cycle, when they may be added.\<close>

definition fingerprinted :: "compose_unit \<Rightarrow> int \<Rightarrow> string \<Rightarrow> string \<Rightarrow> pr_record \<Rightarrow> pr_record option" where
  "fingerprinted u repoID target updateKey rec = (case cuLang u of
       None \<Rightarrow> None
     | Some lu \<Rightarrow> (case (luRecord lu, prLang rec) of
           (Some l, Some have) \<Rightarrow>
             (let untrusted = ((prMarkerOnly rec \<or> prRecovered rec) \<and> \<not> prInputVerified rec) in
              if lgInputFingerprint l = '''' then None
              else if untrusted \<and> (prRepoID rec \<noteq> repoID \<or> prTargetKey rec \<noteq> target \<or> prUpdateKey rec \<noteq> updateKey
                  \<or> lgManager have \<noteq> luManager lu) then None
              else if \<not> untrusted \<and> lgInputFingerprint have \<noteq> '''' then None
              else Some (rec\<lparr>prLang := Some (have\<lparr>lgInputFingerprint := lgInputFingerprint l, lgRemaining := lgRemaining l\<rparr>),
                     prInputVerified := prInputVerified rec \<or> untrusted\<rparr>))
         | _ \<Rightarrow> None))"

definition addInputFingerprint :: "pr_env \<Rightarrow> nat \<Rightarrow> compose_unit \<Rightarrow> string \<Rightarrow> string \<Rightarrow> nat \<Rightarrow> unit prm" where
  "addInputFingerprint env i u target updateKey n = do {
     rs \<leftarrow> lookRepo i;
     rec \<leftarrow> lookPR n;
     case fingerprinted u (giID (rtInfo rs)) target updateKey rec of
       None \<Rightarrow> ret ()
     | Some rec' \<Rightarrow> do {
         modPR n (\<lambda>rec. case fingerprinted u (giID (rtInfo rs)) target updateKey rec of None \<Rightarrow> rec | Some rec' \<Rightarrow> rec');
         save env;
         ret ()
       }
   }"

text \<open>The update key of a unit; a unit tied to a pull request takes the key of its record.\<close>

definition unitUpdateKey :: "key_hash \<Rightarrow> compose_unit \<Rightarrow> int \<Rightarrow> string \<Rightarrow> store_file \<Rightarrow> string option" where
  "unitUpdateKey hsh u repoID target f = (case cuLang u of
       Some lu \<Rightarrow>
         if luProposedFP lu \<noteq> '''' then map_option prUpdateKey (proposalFor hsh f (luItem lu) (luProposedFP lu) repoID)
         else (case luRecord lu of
             Some l \<Rightarrow> Some (LangUpdateKey hsh target (lgPackages l) (lgManifestEdits l) (lgChain l))
           | None \<Rightarrow> None)
     | None \<Rightarrow>
         if cuKube u \<noteq> None then Some (KubernetesUpdateKey hsh target (cuCurrent u) (candTag u) (candDigest u) (cuWorkloads u))
         else Some (UpdateKey hsh target (cuCurrent u) (candTag u) (candDigest u)))"

definition tied :: "compose_unit \<Rightarrow> bool" where
  "tied u = (case cuLang u of Some lu \<Rightarrow> luProposedFP lu \<noteq> '''' | None \<Rightarrow> False)"

definition recordedUnit :: "pr_env \<Rightarrow> nat \<Rightarrow> compose_unit \<Rightarrow> string \<Rightarrow> string \<Rightarrow> nat \<Rightarrow> outcome prm" where
  "recordedUnit env i u target updateKey n = do {
     addInputFingerprint env i u target updateKey n;
     rec \<leftarrow> lookPR n;
     if prState rec = PRStateOpen then do {
       blocked \<leftarrow> look (targetBlocked (prRepoID rec) (prTargetKey rec));
       (if \<not> prUserModified rec \<and> \<not> blocked then decideReplacements env n else ret ());
       ret (PRStatusOpen, '''')
     } else if prState rec = PRStateMerged then ret (PRStatusMerged, '''')
     else ret (PRStatusSuppressed, '''')
   }"

text \<open>What keeps a unit from starting an attempt, in the order the code looks.\<close>

definition heldBack :: "pr_env \<Rightarrow> nat \<Rightarrow> compose_unit \<Rightarrow> string \<Rightarrow> string \<Rightarrow> pr_run \<Rightarrow> outcome option" where
  "heldBack env i u target updateKey r =
     (let rs = rnRepos r ! i in
      case stopped i r of
        Some out \<Rightarrow> Some out
      | None \<Rightarrow>
          if target \<in> set (rtBlockedTargets rs) then Some (PRStatusWriteBlocked, ReasonAttemptUnsettled)
          else if tied u then Some (PRStatusDeferred, ReasonProposalNotFound)
          else if cuLang u \<noteq> None \<and> \<not> languageNotInOpenPR (evHash env) u (giID (rtInfo rs)) target updateKey (rnFile r)
          then Some (PRStatusDeferred, ReasonOpenPRNotInherited)
          else if rnNewPRs r \<ge> evNewPRsPerCycle env then Some (PRStatusDeferred, ReasonPRLimit)
          else if openCount r \<ge> evOpenPRs env then Some (PRStatusDeferred, ReasonOpenPRLimit)
          else None)"

definition startUnit :: "pr_env \<Rightarrow> pr_editors \<Rightarrow> nat \<Rightarrow> compose_unit \<Rightarrow> string \<Rightarrow> string \<Rightarrow> (outcome \<times> string) prm" where
  "startUnit env ed i u target updateKey = do {
     held \<leftarrow> look (heldBack env i u target updateKey);
     case held of
       Some out \<Rightarrow> ret (out, '''')
     | None \<Rightarrow>
         if cuLang u \<noteq> None then createPull env ed i u target updateKey ''''
         else do {
           let imageRepo = (case RepositoryOf (cuCurrent u) of Some repo \<Rightarrow> repo | None \<Rightarrow> '''');
           out \<leftarrow> recheckCandidate env imageRepo (candTag u) (candDigest u) (candPlatform u);
           case out of Some out \<Rightarrow> ret (out, '''') | None \<Rightarrow> createPull env ed i u target updateKey imageRepo
         }
   }"

definition processIn :: "pr_env \<Rightarrow> pr_editors \<Rightarrow> nat \<Rightarrow> compose_unit \<Rightarrow> unit_view prm" where
  "processIn env ed i u = do {
     rs \<leftarrow> lookRepo i;
     if \<not> rtOk rs then do {
       st \<leftarrow> look (stopped i);
       ret (withOutcome (case st of Some out \<Rightarrow> out | None \<Rightarrow> (PRStatusWriteBlocked, rtBlocked rs)) (unitView u))
     } else do {
       let target = TargetKeyOf (evHash env) (kind u) (giID (rtInfo rs)) (cuBaseBranch u) (cuPath u) (cuLocations u);
       key \<leftarrow> look (\<lambda>r. unitUpdateKey (evHash env) u (giID (rtInfo rs)) target (rnFile r));
       case key of
         None \<Rightarrow> ret (withOutcome (PRStatusDeferred, ReasonProposalNotFound) (unitView u))
       | Some updateKey \<Rightarrow> do {
           let v = (unitView u)\<lparr>uvTargetKey := target, uvUpdateKey := updateKey\<rparr>;
           rec \<leftarrow> look (recordByUpdateKey updateKey);
           case rec of
             Some n \<Rightarrow> do { out \<leftarrow> recordedUnit env i u target updateKey n; ret (withOutcome out v) }
           | None \<Rightarrow> do {
               (out, key) \<leftarrow> startUnit env ed i u target updateKey;
               ret (withOutcome out (v\<lparr>uvAttemptKey := key\<rparr>))
             }
         }
     }
   }"

definition processUnit :: "pr_env \<Rightarrow> pr_editors \<Rightarrow> compose_unit \<Rightarrow> unit_view prm" where
  "processUnit env ed u = (case cuManual u of
       Some reason \<Rightarrow> ret (withOutcome (PRStatusManual, reason) (unitView u))
     | None \<Rightarrow> do {
         i \<leftarrow> look (repoIdx (cuRepo u));
         case i of None \<Rightarrow> ret (unitView u) | Some i \<Rightarrow> processIn env ed i u
       })"

subsection \<open>The result\<close>

record stage_result =
  srUnits :: "unit_view list"
  srOperations :: "op_event list"
  srLastSeq :: int
  srProblems :: "stage_problem list"

definition problemCode :: "problem_code \<Rightarrow> string" where
  "problemCode c = (case c of PRProblemWriteBlocked \<Rightarrow> ''write_blocked'' | PRProblemStorageFailed \<Rightarrow> ''storage_failed''
     | PRProblemStorageFull \<Rightarrow> ''storage_full'' | PRProblemRecordsUnverified \<Rightarrow> ''records_unverified'')"

definition lessProblem :: "stage_problem \<Rightarrow> stage_problem \<Rightarrow> bool" where
  "lessProblem a b =
     (if problemCode (spCode a) \<noteq> problemCode (spCode b) then problemCode (spCode a) < problemCode (spCode b)
      else if spRepo a \<noteq> spRepo b then spRepo a < spRepo b else spTarget a < spTarget b)"

definition sortProblems :: "stage_problem list \<Rightarrow> stage_problem list" where
  "sortProblems = sortBy lessProblem"

definition unprocessed :: "pr_run \<Rightarrow> compose_unit \<Rightarrow> unit_view" where
  "unprocessed r u = withOutcome (case cuManual u of Some reason \<Rightarrow> (PRStatusManual, reason) | None \<Rightarrow> stopOutcome r) (unitView u)"

text \<open>\<open>result\<close>: the outcome of a run that could not use the records.\<close>

definition result :: "compose_unit list \<Rightarrow> pr_run \<Rightarrow> stage_result" where
  "result units r = \<lparr>srUnits = map (unprocessed r) units, srOperations = [], srLastSeq = 0, srProblems = sortProblems (rnProblems r)\<rparr>"

definition replacedOf :: "pr_run \<Rightarrow> pr_record \<Rightarrow> int list" where
  "replacedOf r rec = map rpOldNumber (filter (\<lambda>rp. rpState rp = ReplacementDone
     \<and> (case recordByNumber (prRepoID rec) (rpOldNumber rp) r of None \<Rightarrow> False
        | Some n \<Rightarrow> prState (sfPRs (rnFile r) ! n) = PRStateReplaced)) (prReplacing rec))"

definition filledView :: "pr_run \<Rightarrow> unit_view \<Rightarrow> unit_view" where
  "filledView r v =
     (if uvUpdateKey v = '''' \<or> uvStatus v \<notin> {PRStatusCreated, PRStatusOpen, PRStatusMerged, PRStatusSuppressed} then v
      else case recordByUpdateKey (uvUpdateKey v) r of
        None \<Rightarrow> v
      | Some n \<Rightarrow>
          (let rec = sfPRs (rnFile r) ! n in
           v\<lparr>uvNumber := prNumber rec, uvState := prState rec, uvUserModified := prUserModified rec, uvAttemptKey := prAttemptKey rec,
             uvFixTargets := prFixTargets rec, uvReplacedBy := prReplacedBy rec, uvReplacing := prReplacing rec,
             uvReplaced := replacedOf r rec\<rparr>))"

definition finish :: "unit_view list \<Rightarrow> pr_run \<Rightarrow> stage_result" where
  "finish views r =
     \<lparr>srUnits = map (filledView r) views, srOperations = fst (undelivered (rnFile r)), srLastSeq = snd (undelivered (rnFile r)),
      srProblems = sortProblems (rnProblems r)\<rparr>"

subsection \<open>The cycle\<close>

fun processUnits :: "pr_env \<Rightarrow> pr_editors \<Rightarrow> compose_unit list \<Rightarrow> unit_view list prm" where
  "processUnits env ed [] = ret []"
| "processUnits env ed (u # us) = do { v \<leftarrow> processUnit env ed u; vs \<leftarrow> processUnits env ed us; ret (v # vs) }"

definition newRepo :: "string \<Rightarrow> repo_state" where
  "newRepo name = \<lparr>rtName = name, rtInfo = \<lparr>giID = 0, giFullName = ''''\<rparr>, rtOk = False, rtBlocked = '''', rtBlockedTargets = [],
     rtResumable = [], rtReconciled = False\<rparr>"

definition addRepo :: "repo_state list \<Rightarrow> string \<Rightarrow> repo_state list" where
  "addRepo rss name = (if list_ex (\<lambda>rs. toLower (rtName rs) = toLower name) rss then rss else rss @ [newRepo name])"

definition emptyFile :: store_file where
  "emptyFile = \<lparr>sfVersion = PRStoreVersion, sfRepos = [], sfPRs = [], sfAttempts = [], sfOperations = [], sfNextSeq = 1, sfDeliveredSeq = 0,
     sfLangWaits = []\<rparr>"

definition startRun :: "string list \<Rightarrow> compose_unit list \<Rightarrow> store_file \<Rightarrow> pr_run" where
  "startRun names units f =
     \<lparr>rnFile = f, rnRepos = foldl addRepo [] (names @ map cuRepo units), rnStop = None, rnHalt = None, rnProblems = [], rnNewPRs = 0, rnTrace = []\<rparr>"

definition cycle :: "pr_env \<Rightarrow> pr_editors \<Rightarrow> bool \<Rightarrow> compose_unit list \<Rightarrow> stage_result prm" where
  "cycle env ed loaded units = do {
     loadRepos env;
     (if loaded then initAddedRepos env else recoverAll env);
     n \<leftarrow> look (\<lambda>r. length (rnRepos r));
     forEach (reconcileRepo env) [0..<n];
     views \<leftarrow> processUnits env ed units;
     resumeReplacements env;
     look (finish views)
   }"

text \<open>
  \<open>Run\<close>: \<open>lockErr\<close> is the reason the lock was not got, \<open>load\<close> the answer of the store (\<open>Inl\<close> an error, \<open>Inr None\<close>
  no file). The repositories the Dockerfile items of the plan add after the units come last in \<open>extra\<close>.
\<close>

definition Run :: "pr_env \<Rightarrow> pr_editors \<Rightarrow> string list \<Rightarrow> string list \<Rightarrow> compose_unit list \<Rightarrow> string option \<Rightarrow> unit + store_file option
    \<Rightarrow> stage_result \<times> pr_run" where
  "Run env ed names extra units lockErr load =
     (let start = (\<lambda>f. let r = startRun names units f in r\<lparr>rnRepos := foldl addRepo (rnRepos r) extra\<rparr>) in
      case lockErr of
        Some reason \<Rightarrow>
          (let r = snd (run_state (problem \<lparr>spCode = PRProblemWriteBlocked, spRepo = '''', spTarget = '''', spReason = reason\<rparr>)
                 ((start emptyFile)\<lparr>rnStop := Some \<lparr>siStatus = PRStatusWriteBlocked, siReason = reason\<rparr>\<rparr>)) in
           (result units r, r))
      | None \<Rightarrow> (case load of
            Inl _ \<Rightarrow> (let r = snd (run_state storageFailed (start emptyFile)) in (result units r, r))
          | Inr None \<Rightarrow> run_state (cycle env ed False units) (start emptyFile)
          | Inr (Some f) \<Rightarrow> run_state (cycle env ed True units) (start f)))"

subsection \<open>Processing makes only steps of a run\<close>

lemma prGrow_fingerprint:
  "prInputVerified rec \<longrightarrow> b \<Longrightarrow> prGrow rec (rec\<lparr>prLang := l, prInputVerified := b\<rparr>)"
  by (simp add: prGrow_def replGrow_listGrow repls.grow_refl)

lemma fingerprinted_grows: "fingerprinted u rid t uk rec = Some rec' \<Longrightarrow> prGrow rec rec'"
  by (auto simp: fingerprinted_def Let_def intro!: prGrow_fingerprint split: option.splits if_splits)

lemma free_addInputFingerprint [free]: "freeOp (addInputFingerprint env i u t uk n)"
proof -
  have "prGrow rec (case fingerprinted u rid t uk rec of None \<Rightarrow> rec | Some rec' \<Rightarrow> rec')" for rid rec
    using fingerprinted_grows pulls.R_refl by (auto split: option.splits)
  then show ?thesis unfolding addInputFingerprint_def by (intro free)
qed

lemma free_recordedUnit [free]: "freeOp (recordedUnit env i u t uk n)"
  unfolding recordedUnit_def by (intro free)

lemma heldBack_canSend: "heldBack env i u t uk r = None \<Longrightarrow> canSend r"
  by (auto simp: heldBack_def stopped_def Let_def canSend_def split: option.splits if_splits)

lemma free_startUnit:
  assumes "refExistsDefinite env"
  shows "freeOp (startUnit env ed i u t uk)"
proof -
  have start: "hoare canSend (createPull env ed i u t uk repo) (\<lambda>_ _. True)" for repo
    by (rule free_createPull [OF assms])
  show ?thesis
    unfolding freeOp_def startUnit_def Let_def
    apply (intro hoare_bind_look hoare_option hoare_if)
      apply (rule hoare_pre [OF start], auto dest: heldBack_canSend)[1]
     apply (rule hoare_bind [OF hoare_pre [OF hoare_pass [OF pass_recheckCandidate stable_True]]], auto dest: heldBack_canSend)[1]
     apply (rule hoare_option)
      apply (rule hoare_pre [OF start], simp)
     apply (rule hoare_ret, simp)+
    done
qed

lemma free_processUnit:
  assumes "refExistsDefinite env"
  shows "freeOp (processUnit env ed u)"
  unfolding processUnit_def processIn_def by (intro free free_startUnit [OF assms])

lemma free_processUnits: "refExistsDefinite env \<Longrightarrow> freeOp (processUnits env ed us)"
  by (induction us) (auto intro!: free free_processUnit)

text \<open>Reading the repositories leaves the records alone.\<close>

lemma hoare_forEach: "(\<And>x. hoare P (f x) (\<lambda>_. P)) \<Longrightarrow> hoare P (forEach f xs) (\<lambda>_. P)"
  by (induction f xs rule: forEach.induct) (auto intro: hoare_ret hoare_bind)

abbreviation noRecords :: "pr_run \<Rightarrow> bool" where "noRecords r \<equiv> sfPRs (rnFile r) = []"

lemma stable_noRecords: "stable noRecords"
  using stable_records [of "\<lambda>prs _ _. prs = []"] .

lemmas none_quiet = hoare_quiet [OF _ stable_noRecords]

lemma hoare_modRepo_none: "hoare noRecords (modRepo i f) (\<lambda>_. noRecords)"
  unfolding modRepo_def
proof (rule hoare_change)
  fix r :: pr_run assume "noRecords r"
  then show "prog r (r\<lparr>rnRepos := (rnRepos r)[i := f (rnRepos r ! i)]\<rparr>) \<and> noRecords (r\<lparr>rnRepos := (rnRepos r)[i := f (rnRepos r ! i)]\<rparr>)"
    using prog_noted [of r "rnNewPRs r" "rnProblems r" "(rnRepos r)[i := f (rnRepos r ! i)]"] by simp
qed

lemma hoare_loadRepo_none: "hoare noRecords (loadRepo env i) (\<lambda>_. noRecords)"
  unfolding loadRepo_def
  apply (rule hoare_bind [OF none_quiet], intro quiet)
  apply (rule hoare_if, rule hoare_bind [OF none_quiet], intro quiet, rule hoare_modRepo_none)
  apply (rule hoare_bind [OF none_quiet], intro quiet)+
     apply (simp_all add: isSent_def)[2]
  apply (rule hoare_sum)
   apply (rule hoare_bind [OF none_quiet], intro quiet)
   apply (rule hoare_if, rule hoare_bind [OF none_quiet], intro quiet, rule hoare_modRepo_none, rule none_quiet, intro quiet)
  apply (rule hoare_bind [OF hoare_modRepo_none], rule hoare_if, rule none_quiet, intro quiet)
  apply (rule hoare_bind [OF none_quiet], intro quiet)+
  apply (rule hoare_modRepo_none)
  done

lemma hoare_loadRepos_none: "hoare noRecords (loadRepos env) (\<lambda>_. noRecords)"
  unfolding loadRepos_def
  by (rule hoare_bind [OF none_quiet], intro quiet, rule hoare_forEach [OF hoare_loadRepo_none])

lemma hoare_cycle:
  assumes "refExistsDefinite env"
  shows "hoare (\<lambda>r. loaded \<or> noRecords r) (cycle env ed loaded units) (\<lambda>_ _. True)"
proof -
  define rest where "rest = do { n \<leftarrow> look (\<lambda>r. length (rnRepos r));
     forEach (reconcileRepo env) [0..<n];
     views \<leftarrow> processUnits env ed units;
     resumeReplacements env;
     look (finish views) }"
  have rest: "freeOp rest" unfolding rest_def by (intro free free_processUnits [OF assms])
  show ?thesis
  proof (cases loaded)
    case True
    then show ?thesis unfolding cycle_def rest_def [symmetric] by (simp, intro free_hoare free rest)
  next
    case False
    have "hoare noRecords (do { loadRepos env; recoverAll env; rest }) (\<lambda>_ _. True)"
      by (rule hoare_bind [OF hoare_loadRepos_none], rule hoare_bind [OF hoare_recoverAll], rule free_hoare [OF rest])
    then show ?thesis using False unfolding cycle_def rest_def [symmetric] by simp
  qed
qed

lemma logOk_empty: "logOk emptyFile"
  by (simp add: logOk_def emptyFile_def deliveredOk_def)

lemma logOk_validate: "validate f \<Longrightarrow> logOk f"
  by (simp add: validate_def logOk_def)

text \<open>The state a cycle starts in.\<close>

definition begun :: "string list \<Rightarrow> string list \<Rightarrow> compose_unit list \<Rightarrow> store_file \<Rightarrow> pr_run" where
  "begun names extra units f = (startRun names units f)\<lparr>rnRepos := foldl addRepo (rnRepos (startRun names units f)) extra\<rparr>"

definition loadedFile :: "unit + store_file option \<Rightarrow> store_file" where
  "loadedFile load = (case load of Inr (Some f) \<Rightarrow> f | _ \<Rightarrow> emptyFile)"

lemma begun_fields [simp]: "rnFile (begun names extra units f) = f" "rnTrace (begun names extra units f) = []"
  "rnStop (begun names extra units f) = None" "rnHalt (begun names extra units f) = None"
  by (simp_all add: begun_def startRun_def)

lemma prog_stopped: "prog r (r\<lparr>rnStop := Some s\<rparr>)" if "rnStop r = None"
  using prog_ended [of r "rnHalt r" "Some s"] that by simp

lemma prog_problem: "prog r (snd (run_state (problem p) r))"
  using calm_problem [of p] by (simp add: calmOp_def quietOp_def quietTo_def)

lemma prog_storageFailed: "rnStop r = None \<Longrightarrow> prog r (snd (run_state storageFailed r))"
  unfolding storageFailed_def by (simp add: change_def) (rule rtranclp_trans [OF prog_stopped prog_problem], simp)

text \<open>Every cycle is a sequence of steps, whatever the outside answers.\<close>

lemma Run_steps:
  assumes "refExistsDefinite env" "validate (loadedFile load)"
  shows "prog (begun names extra units (if lockErr = None then loadedFile load else emptyFile)) (snd (Run env ed names extra units lockErr load))"
proof -
  have log: "logOk (loadedFile load)" using logOk_validate [OF assms(2)] .
  have body: "prog (begun names extra units f) (snd (run_state (cycle env ed b units) (begun names extra units f)))"
    if "logOk f" "b \<or> sfPRs f = []" for f b
    using hoareD(1) [OF hoare_cycle [OF assms(1)], of "begun names extra units f" b ed units] that by (metis begun_fields(1) prod.collapse)
  show ?thesis
  proof (cases lockErr)
    case None
    then show ?thesis
      using body [OF logOk_empty, of False] body [of "loadedFile load" True] log prog_storageFailed [of "begun names extra units emptyFile"]
      by (auto simp: Run_def Let_def begun_def [symmetric] loadedFile_def emptyFile_def split: sum.splits option.splits)
  next
    case (Some reason)
    let ?r = "begun names extra units emptyFile"
    let ?s = "?r\<lparr>rnStop := Some \<lparr>siStatus = PRStatusWriteBlocked, siReason = reason\<rparr>\<rparr>"
    have "prog ?r ?s" by (rule prog_stopped) simp
    from rtranclp_trans [OF this prog_problem] show ?thesis using Some by (simp add: Run_def Let_def begun_def [symmetric])
  qed
qed

subsection \<open>A cycle that closes an older pull request\<close>

definition sampleHead :: "int \<Rightarrow> pull_request" where
  "sampleHead n = \<lparr>puNumber = n, puState = ''open'', puMerged = False, puBody = '''', puHeadRef = ''h'', puHeadSHA = ''c'',
     puHeadRepoFullName = ''r'', puBaseRef = ''m'', puBaseRepoID = 7\<rparr>"

definition sampleEnv :: pr_env where
  "sampleEnv = \<lparr>evRepository = (\<lambda>_ _. Inr \<lparr>giID = 7, giFullName = ''r''\<rparr>), evCommit = (\<lambda>_ _ _. Inr \<lparr>cmTree = ''t'', cmParents = []\<rparr>),
     evRef = (\<lambda>_ _ _. Inr None), evListPulls = (\<lambda>_ _ _ _ _. Inr ([], False)), evPull = (\<lambda>_ _ n. Inr (sampleHead n)),
     evListIssueComments = (\<lambda>_ _ _ _. Inr ([], False)), evSend = (\<lambda>_ _. Inr ''c''), evCreatePull = (\<lambda>_ _. Inr (sampleHead 3)),
     evResolveBranch = (\<lambda>_ _ _. Inr ''b''), evReadFile = (\<lambda>_ _ _ _. Inl [ErrNotFound]),
     evListDirectory = None, evResolve = (\<lambda>_ _ _ _. Inr ''d''), evSave = (\<lambda>_ _. None), evCtxErr = (\<lambda>_. None),
     evDecodeMarker = (\<lambda>_. None), evHasSupersede = (\<lambda>_ _ _. False), evSupersededBy = (\<lambda>_. 0), evHash = (\<lambda>_. ''k''),
     evBlobSHA = (\<lambda>c. c), evMaxListPages = 30, evNewPRsPerCycle = 2, evOpenPRs = 5\<rparr>"

definition sampleEditors :: pr_editors where
  "sampleEditors = \<lparr>edCompose = (\<lambda>_ _ _ _. Inr (''y'', ''a tag'')), edHelmValues = (\<lambda>_ _ _ _ _. Inl ''''), edKustomize = (\<lambda>_ _ _ _ _. Inl ''''),
     edManifest = (\<lambda>_ _ _ _ _. Inl ''''), edSourceConflict = (\<lambda>_ _. False), edDockerfile = (\<lambda>_ _ _ _. Inl ''''),
     edResolveBase = (\<lambda>_ _. None), edSum256 = (\<lambda>c. c), edTitle = (\<lambda>_ _ _. ''Update''), edBody = (\<lambda>_ _ _ _. Some ''''),
     edMarkerLen = (\<lambda>_. 0), edKubeMappings = []\<rparr>"

text \<open>Pull request 2 of a lockfile fixes what number 1 fixes, and its comment on number 1 was sent in an earlier cycle.\<close>

definition sampleRecord :: "int \<Rightarrow> replacement list \<Rightarrow> pr_record" where
  "sampleRecord n rps = \<lparr>prRepo = ''r'', prRepoID = 7, prKind = prKindLanguage, prTargetKey = ''t'', prUpdateKey = itoa (nat n), prAttemptKey = '''',
     prBranch = ''h'', prNumber = n, prBaseBranch = ''m'', prBaseSHA = ''b'', prHeadSHA = ''c'', prPath = ''l'', prLocations = [],
     prState = PRStateOpen, prReplacedBy = 0, prSupersededBy = 0, prUserModified = False,
     prFixTargets = [\<lparr>ftLocation = '''', ftVulnID = ''v'', ftPackage = \<lparr>pcEcosystem = '''', pcClass = '''', pcName = ''p''\<rparr>, ftLayers = [], ftLayersDigest = '''', ftEntities = []\<rparr>],
     prServices = [], prCurrentRef = '''', prCandidateTag = '''', prCandidateDigest = '''', prAffected = [], prReplacing = rps,
     prRecovered = False, prMarkerOnly = False, prEvidence = None, prInputVerified = False,
     prLang = Some \<lparr>lgManager = ''npm'', lgPackages = [], lgManifestEdits = [], lgChain = [], lgRemaining = [], lgInputFingerprint = '''', lgRuntime = None, lgTool = None\<rparr>\<rparr>"

definition replacingFile :: store_file where
  "replacingFile = emptyFile\<lparr>sfRepos := [\<lparr>riRepo = ''r'', riRepoID = 7\<rparr>],
     sfPRs := [sampleRecord 1 [], sampleRecord 2 [\<lparr>rpOldNumber = 1, rpState = ReplacementCommented, rpPendingOp = ''''\<rparr>]]\<rparr>"

lemma sample_closes: "Sent (ClosePull ''r'' 1) None \<in> set (rnTrace (snd (Run sampleEnv sampleEditors [''r''] [] [] None (Inr (Some replacingFile)))))"
  by code_simp

subsection \<open>Properties of a cycle\<close>

text \<open>
  C5. A cycle of the pull request stage refines the step relation \<open>prStep\<close>: whatever GitHub, the registry, the store
  and the clock answer, what it does to its records and to the outside is a sequence of the steps that relation
  allows, from the loaded file (or an empty one) on. The two hypotheses are that an \<open>ErrRefExists\<close> is a refusal and
  that the file passed the check of the store.
\<close>

theorem Run_refines:
  assumes "refExistsDefinite env" "validate (loadedFile load)" "lockErr = None"
  shows "prStep\<^sup>*\<^sup>* (begun names extra units (loadedFile load)) (snd (Run env ed names extra units lockErr load))"
  using Run_steps [OF assms(1,2), of names extra units lockErr ed] assms(3) by simp

lemma sample_ok: "refExistsDefinite sampleEnv" "validate (loadedFile (Inr (Some replacingFile)))"
  by (simp add: refExistsDefinite_def sampleEnv_def) (code_simp)

theorem Run_refines_witness:
  "refExistsDefinite sampleEnv \<and> validate (loadedFile (Inr (Some replacingFile))) \<and>
   prStep\<^sup>*\<^sup>* (begun [''r''] [] [] (loadedFile (Inr (Some replacingFile)))) (snd (Run sampleEnv sampleEditors [''r''] [] [] None (Inr (Some replacingFile))))"
  using Run_refines [OF sample_ok refl, of "[''r'']" "[]" "[]" sampleEditors] sample_ok by blast

lemma Run_runOk:
  assumes "refExistsDefinite env" "validate (loadedFile load)"
  shows "runOk (snd (Run env ed names extra units lockErr load))"
  by (rule prog_runOk [OF Run_steps [OF assms]]) (simp add: runOk_def)

text \<open>
  C4. Every write to GitHub is preceded, with nothing in between, by a successful save of a file whose last logged
  operation is the intent of that very write and whose records cover it: an attempt that is not settled with the
  tree, commit or branch the write names, or a replacement of two trusted pull requests that were both read as
  recorded since the write before. Before it, no write had an unknown outcome and no save had failed.
\<close>

theorem Run_writes_covered:
  assumes "refExistsDefinite env" "validate (loadedFile load)"
    and "rnTrace (snd (Run env ed names extra units lockErr load)) = pre @ Sent w e # post"
  shows "(\<exists>tr f. pre = tr @ [Saved f True] \<and> intentFor f w \<and> covered f tr w) \<and> \<not> list_ex unknownSent pre \<and> \<not> list_ex failedSave pre"
  using Run_runOk [OF assms(1,2), of ed names extra units lockErr] assms(3) unfolding runOk_def traceOk_def sendOk_def by blast

theorem Run_writes_covered_witness:
  "\<exists>pre post tr f. rnTrace (snd (Run sampleEnv sampleEditors [''r''] [] [] None (Inr (Some replacingFile)))) = pre @ Sent (ClosePull ''r'' 1) None # post
     \<and> pre = tr @ [Saved f True] \<and> intentFor f (ClosePull ''r'' 1) \<and> covered f tr (ClosePull ''r'' 1)"
  using split_list [OF sample_closes] Run_writes_covered [OF sample_ok] by blast

text \<open>
  C6. The stage closes only pull requests it opened itself: when it asks GitHub to close number \<open>n\<close>, the file saved right
  before has a record of \<open>n\<close> and one in the same repository that lists \<open>n\<close> as a pull request it replaces and has
  commented on, neither changed by someone else nor known only by its marker, and \<open>n\<close> was read open at its recorded
  head, base and repository since the last write. That the replacing one is newer than \<open>n\<close> is a matter of how the
  records came about, and not claimed.
\<close>

theorem Run_closes_own:
  assumes "refExistsDefinite env" "validate (loadedFile load)"
    and "rnTrace (snd (Run env ed names extra units lockErr load)) = pre @ Sent (ClosePull repo n) e # post"
  shows "\<exists>f. last pre = Saved f True \<and> (\<exists>rec \<in> set (sfPRs f). \<exists>old \<in> set (sfPRs f).
     prNumber old = n \<and> prRepoID old = prRepoID rec
     \<and> \<not> prUserModified rec \<and> \<not> prMarkerOnly rec \<and> \<not> prUserModified old \<and> \<not> prMarkerOnly old
     \<and> (\<exists>rp \<in> set (prReplacing rec). rpOldNumber rp = n \<and> rpState rp = ReplacementCommented)
     \<and> (\<exists>pr. PullRead repo n (Inr pr) \<in> set (sinceSent pre) \<and> pullState pr = PRStateOpen \<and> puHeadSHA pr = prHeadSHA old
          \<and> puBaseRef pr = prBaseBranch old \<and> puBaseRepoID pr = prRepoID old))"
proof -
  have "sendOk pre (ClosePull repo n)"
    using Run_runOk [OF assms(1,2), of ed names extra units lockErr] assms(3) unfolding runOk_def traceOk_def by blast
  then obtain tr f where f: "pre = tr @ [Saved f True]" "pairOk f tr repo n ReplacementCommented"
    by (auto simp: sendOk_def coveredBy_def Let_def)
  have "set (sinceSent tr) \<subseteq> set (sinceSent pre)" using sinceSent_append [of "[Saved f True]" tr] f(1) by (auto simp: isSent_def)
  then show ?thesis using f unfolding pairOk_def trusted_def asRecorded_def by (intro exI [of _ f]) fastforce
qed

theorem Run_closes_own_witness:
  "\<exists>pre post f. rnTrace (snd (Run sampleEnv sampleEditors [''r''] [] [] None (Inr (Some replacingFile)))) = pre @ Sent (ClosePull ''r'' 1) None # post
     \<and> last pre = Saved f True \<and> (\<exists>old \<in> set (sfPRs f). prNumber old = 1 \<and> \<not> prUserModified old)"
proof -
  obtain pre post where t: "rnTrace (snd (Run sampleEnv sampleEditors [''r''] [] [] None (Inr (Some replacingFile)))) = pre @ Sent (ClosePull ''r'' 1) None # post"
    using split_list [OF sample_closes] by blast
  from Run_closes_own [OF sample_ok this] t show ?thesis by blast
qed

text \<open>
  C7. No record is forgotten or trusted again: after a cycle the record of every pull request is at the same place with
  the same repository, number, recorded commit and keys, one changed by someone else is still marked so, one known
  only by its marker still is, and a replacement that was over is as it was.
\<close>

theorem Run_keeps_records:
  assumes "refExistsDefinite env" "validate (loadedFile load)" "lockErr = None" "i < length (sfPRs (loadedFile load))"
    "b = sfPRs (rnFile (snd (Run env ed names extra units lockErr load))) ! i" "a = sfPRs (loadedFile load) ! i"
  shows "i < length (sfPRs (rnFile (snd (Run env ed names extra units lockErr load))))
     \<and> (prRepoID b, prNumber b, prHeadSHA b, prBaseBranch b, prUpdateKey b, prTargetKey b, prMarkerOnly b)
       = (prRepoID a, prNumber a, prHeadSHA a, prBaseBranch a, prUpdateKey a, prTargetKey a, prMarkerOnly a)
     \<and> (prUserModified a \<longrightarrow> prUserModified b)
     \<and> (\<forall>j < length (prReplacing a). terminal (prReplacing a ! j) \<longrightarrow> prReplacing b ! j = prReplacing a ! j)"
proof -
  have "fileGrow (loadedFile load) (rnFile (snd (Run env ed names extra units lockErr load)))"
    using prog_fileGrow [OF Run_steps [OF assms(1,2), of names extra units lockErr ed]] assms(3) by simp
  then have "i < length (sfPRs (rnFile (snd (Run env ed names extra units lockErr load))))" and g: "prGrow a b"
    using assms(4-6) by (auto simp: fileGrow_def listGrow_def)
  then show ?thesis using prGrow_fields [OF g] g by (auto simp: prGrow_def replGrow_def)
qed

theorem Run_keeps_records_witness:
  "\<exists>b. b = sfPRs (rnFile (snd (Run sampleEnv sampleEditors [''r''] [] [] None (Inr (Some replacingFile))))) ! 0 \<and> prNumber b = 1"
proof -
  have "0 < length (sfPRs (loadedFile (Inr (Some replacingFile))))" "prNumber (sfPRs (loadedFile (Inr (Some replacingFile))) ! 0) = 1"
    by (simp_all add: loadedFile_def replacingFile_def sampleRecord_def)
  with Run_keeps_records [OF sample_ok refl this(1) refl refl, of sampleEditors "[''r'']" "[]" "[]"] show ?thesis by simp
qed

definition savedOk :: "pr_run \<Rightarrow> bool" where
  "savedOk r \<longleftrightarrow> logOk (rnFile r) \<and> (\<forall>f ok. Saved f ok \<in> set (rnTrace r) \<longrightarrow> logOk f)"

lemma prStep_saves: "prStep r r' \<Longrightarrow> Saved f ok \<in> set (rnTrace r') \<Longrightarrow> Saved f ok \<in> set (rnTrace r) \<or> f = rnFile r"
  by (induction rule: prStep.induct) auto

lemma prog_savedOk: "prog r r' \<Longrightarrow> savedOk r \<Longrightarrow> savedOk r'"
proof (induction rule: rtranclp_induct)
  case (step s t)
  then have "savedOk s" by blast
  then show ?case
    using prStep_logOk [OF step.hyps(2)] prStep_saves [OF step.hyps(2)] unfolding savedOk_def by blast
qed

text \<open>
  C30. Every file a cycle hands to the store, whether the save succeeds or not, has its operation log in sequence: the
  events are numbered upwards below the next number, and the delivered position lies within them, which is what the
  store checks when the file is loaded again.
\<close>

theorem Run_saves_valid_log:
  assumes "refExistsDefinite env" "validate (loadedFile load)"
    and "Saved f ok \<in> set (rnTrace (snd (Run env ed names extra units lockErr load)))"
  shows "opsInOrder (sfNextSeq f) 0 (sfOperations f) \<and> deliveredOk f"
proof -
  have "savedOk (snd (Run env ed names extra units lockErr load))"
    by (rule prog_savedOk [OF Run_steps [OF assms(1,2)]]) (use logOk_validate [OF assms(2)] logOk_empty in \<open>simp add: savedOk_def\<close>)
  then show ?thesis using assms(3) unfolding savedOk_def logOk_def by blast
qed

theorem Run_saves_valid_log_witness:
  "\<exists>f. Saved f True \<in> set (rnTrace (snd (Run sampleEnv sampleEditors [''r''] [] [] None (Inr (Some replacingFile)))))
     \<and> opsInOrder (sfNextSeq f) 0 (sfOperations f) \<and> deliveredOk f"
proof -
  obtain pre post where t: "rnTrace (snd (Run sampleEnv sampleEditors [''r''] [] [] None (Inr (Some replacingFile)))) = pre @ Sent (ClosePull ''r'' 1) None # post"
    using split_list [OF sample_closes] by blast
  have "sendOk pre (ClosePull ''r'' 1)"
    using Run_runOk [OF sample_ok, of sampleEditors "[''r'']" "[]" "[]" None] t unfolding runOk_def traceOk_def by blast
  then obtain tr f where "pre = tr @ [Saved f True]" by (auto simp: sendOk_def)
  then have "Saved f True \<in> set (rnTrace (snd (Run sampleEnv sampleEditors [''r''] [] [] None (Inr (Some replacingFile)))))"
    using t by simp
  with Run_saves_valid_log [OF sample_ok this] show ?thesis by blast
qed

text \<open>
  C33. Without the lock, or when the records cannot be loaded, the stage neither reads GitHub nor writes anything: every
  unit that is not left to a person is write-blocked with the reason, and one problem is reported.
\<close>

theorem Run_without_records:
  assumes "lockErr = Some reason \<or> lockErr = None \<and> load = Inl () \<and> reason = ReasonStorageFailed"
    and "Run env ed names extra units lockErr load = (res, r)"
  shows "rnTrace r = [] \<and> length (srProblems res) = 1 \<and> length (srUnits res) = length units
     \<and> (\<forall>i < length units. (uvStatus (srUnits res ! i), uvReason (srUnits res ! i))
        = (case cuManual (units ! i) of Some m \<Rightarrow> (PRStatusManual, m) | None \<Rightarrow> (PRStatusWriteBlocked, reason)))"
proof -
  have "rnTrace r = [] \<and> length (rnProblems r) = 1 \<and> stopOutcome r = (PRStatusWriteBlocked, reason) \<and> res = result units r"
    using assms by (auto simp: Run_def Let_def problem_def storageFailed_def change_def startRun_def stopOutcome_def)
  then show ?thesis
    by (auto simp: result_def unprocessed_def withOutcome_def sortProblems_def split: option.splits)
qed

theorem Run_without_records_witness:
  "\<exists>res r. Run sampleEnv sampleEditors [''r''] [] [] None (Inl ()) = (res, r) \<and> rnTrace r = [] \<and> length (srProblems res) = 1"
  using Run_without_records [of None ReasonStorageFailed "Inl ()" sampleEnv sampleEditors "[''r'']" "[]" "[]"]
  by (metis prod.exhaust)

end
