(* ===== verification/PR_Units.thy ===== *)
theory PR_Units
  imports PR_Create
begin

section \<open>Update units from the plan\<close>

text \<open>
  \<open>internal/remediation/pr_units.go\<close>: the plan's items become update units. A unit is one edit point of a
  repository together with everything that runs the image it names; it is left to a person unless all of
  that has an adopted candidate, the same for all. The code fills a \<open>composeUnit\<close> step by step; here
  \<open>plan_unit\<close> extends the unit the stage processes by what only building it needs, and \<open>unitOf\<close> is the
  unit with the fix targets and the evidence that the code works out when it makes the attempt. A plan
  item is its index in the plan, as the code compares items by address. The maps \<open>units\<close> and \<open>members\<close>
  of the code have the same keys and are one map here. Texts of details are left out.

  The lemmas show that a unit covers every container of its edit point, that a fix is claimed for a
  location exactly when all of its running images resolve it, and that the evidence of the unit says the
  same.
\<close>

subsection \<open>The plan\<close>

abbreviation CategoryPRCandidate :: string where "CategoryPRCandidate \<equiv> ''pr_candidate''"
abbreviation ReasonComposeSetNotAdopted :: string where "ReasonComposeSetNotAdopted \<equiv> ''compose_set_not_adopted''"
abbreviation ReasonKubernetesSetNotAdopted :: string where "ReasonKubernetesSetNotAdopted \<equiv> ''kubernetes_set_not_adopted''"

record service_ref =
  svProject :: string
  svService :: string
  svContainer :: string
  svWorkload :: string

record chain_owner =
  coKind :: string
  coResourceID :: string
  coName :: string
  coScope :: string

record workload_chains =
  wcWorkload :: string
  wcChains :: "chain_owner list list"

record plan_item =
  itKey :: string
  itServices :: "service_ref list"
  itCategory :: string
  itCurrent :: image_state
  itCandidate :: "image_state option"
  itTargets :: "target list"
  itComparison :: "verification_result option"
  itManagement :: "workload_chains list"

record plan =
  plConditions :: scan_conditions
  plItems :: "plan_item list"

definition itemIdx :: "plan \<Rightarrow> string \<Rightarrow> nat option" where
  "itemIdx p key = firstIdx (\<lambda>it. itKey it = key) (plItems p)"

abbreviation itemAt :: "plan \<Rightarrow> nat \<Rightarrow> plan_item" where "itemAt p i \<equiv> plItems p ! i"

text \<open>The key of the plan item of a running image.\<close>

definition itemKeyOf :: "running_image \<Rightarrow> string" where
  "itemKeyOf img = riRef img @ ''|'' @ entityString (fst (EntityKeyOf img))"

subsection \<open>Units while they are built\<close>

record plan_unit = compose_unit +
  upNormRef :: string
  upSvcItems :: "(string, nat list) gmap"
  upItems :: "nat list"
  upAlso :: "service_ref list"
  upOrder :: nat
  upLocation :: "(string, string) gmap"

definition newUnit :: "string \<Rightarrow> string \<Rightarrow> string \<Rightarrow> string \<Rightarrow> string \<Rightarrow> string \<Rightarrow> kube_unit option \<Rightarrow> plan_unit" where
  "newUnit key repo baseBranch path current normRef kube =
     \<lparr>cuKey = key, cuRepo = repo, cuBaseBranch = baseBranch, cuPath = path, cuCurrent = current, cuServices = [], cuLocations = [],
      cuWorkloads = [], cuManual = None, cuCandidate = None, cuFixTargets = [], cuEvidence = None, cuDf = None, cuLang = None, cuKube = kube,
      upNormRef = normRef, upSvcItems = [], upItems = [], upAlso = [], upOrder = 0, upLocation = []\<rparr>"

definition notAdoptedReason :: "plan_unit \<Rightarrow> string" where
  "notAdoptedReason u = (if cuKube u \<noteq> None then ReasonKubernetesSetNotAdopted else ReasonComposeSetNotAdopted)"

definition locationOf :: "plan_unit \<Rightarrow> string \<Rightarrow> string" where
  "locationOf u s = (if cuKube u \<noteq> None then mget '''' (upLocation u) s else ''services.'' @ s @ ''.image'')"

text \<open>The items of a unit: per service, of all, whether one is a candidate, and who has none.\<close>

record unit_items =
  uiSvcItems :: "(string, nat list) gmap"
  uiItems :: "nat list"
  uiRelevant :: bool
  uiMissing :: "string list"

definition noItems :: unit_items where
  "noItems = \<lparr>uiSvcItems = [], uiItems = [], uiRelevant = False, uiMissing = []\<rparr>"

definition noteItem :: "plan \<Rightarrow> string \<Rightarrow> string \<Rightarrow> string \<Rightarrow> unit_items \<Rightarrow> unit_items" where
  "noteItem p svc workload key st = (case itemIdx p key of
       None \<Rightarrow> st\<lparr>uiMissing := uiMissing st @ [workload]\<rparr>
     | Some i \<Rightarrow> st\<lparr>uiRelevant := uiRelevant st \<or> itCategory (itemAt p i) = CategoryPRCandidate,
           uiSvcItems := mput svc (appendNew (mget [] (uiSvcItems st) svc) i) (uiSvcItems st),
           uiItems := appendNew (uiItems st) i\<rparr>)"

text \<open>\<open>itemIdx[it.Key]\<close> of the item at an index.\<close>

definition keyIdx :: "plan \<Rightarrow> nat \<Rightarrow> nat" where
  "keyIdx p i = (case itemIdx p (itKey (itemAt p i)) of Some j \<Rightarrow> j | None \<Rightarrow> 0)"

definition lessItem :: "plan \<Rightarrow> nat \<Rightarrow> nat \<Rightarrow> bool" where
  "lessItem p a b \<longleftrightarrow> keyIdx p a < keyIdx p b"

fun adoptLoop :: "plan \<Rightarrow> nat list \<Rightarrow> image_state option \<Rightarrow> image_state option option" where
  "adoptLoop p [] cand = Some cand"
| "adoptLoop p (i # is) cand =
     (let it = itemAt p i in
      if itCategory it \<noteq> CategoryPRCandidate \<or> itCandidate it = None \<or> itComparison it = None then None
      else case (cand, itCandidate it) of
        (None, c) \<Rightarrow> adoptLoop p is c
      | (Some c, Some d) \<Rightarrow> if isTag d \<noteq> isTag c \<or> isTopDigest d \<noteq> isTopDigest c then None else adoptLoop p is cand
      | (Some c, None) \<Rightarrow> None)"

definition checkAdopted :: "plan \<Rightarrow> plan_unit \<Rightarrow> plan_unit" where
  "checkAdopted p u = (case adoptLoop p (upItems u) None of
       None \<Rightarrow> u\<lparr>cuManual := Some (notAdoptedReason u)\<rparr>
     | Some cand \<Rightarrow> u\<lparr>cuCandidate := cand\<rparr>)"

definition lessServiceRef :: "service_ref \<Rightarrow> service_ref \<Rightarrow> bool" where
  "lessServiceRef a b =
     (if svProject a \<noteq> svProject b then svProject a < svProject b
      else if svService a \<noteq> svService b then svService a < svService b
      else if svContainer a \<noteq> svContainer b then svContainer a < svContainer b
      else svWorkload a < svWorkload b)"

definition sortServiceRefs :: "service_ref list \<Rightarrow> service_ref list" where
  "sortServiceRefs = sortBy lessServiceRef"

text \<open>The other services that run the unit's images: those that \<open>skip\<close> does not name.\<close>

definition alsoRunning :: "plan \<Rightarrow> (service_ref \<Rightarrow> bool) \<Rightarrow> nat list \<Rightarrow> service_ref list" where
  "alsoRunning p skip items =
     sortServiceRefs (foldl appendNew [] (concat (map (\<lambda>i. filter (\<lambda>s. \<not> skip s) (itServices (itemAt p i))) items)))"

definition lessUnit :: "plan_unit \<Rightarrow> plan_unit \<Rightarrow> bool" where
  "lessUnit a b = (if upOrder a \<noteq> upOrder b then upOrder a < upOrder b else cuKey a < cuKey b)"

subsection \<open>Compose units\<close>

record compose_mapping =
  cmWorkload :: string
  cmProject :: string
  cmService :: string
  cmRepository :: string
  cmBaseBranch :: string
  cmPath :: string
  cmComposeService :: string

record unit_member =
  ubService :: string
  ubWorkload :: string
  ubItemKey :: string

abbreviation serviceKey :: "string \<Rightarrow> string \<Rightarrow> string" where
  "serviceKey project service \<equiv> project @ [CHR 0x00] @ service"

definition composeByWorkload :: "compose_mapping list \<Rightarrow> (string, compose_mapping) gmap" where
  "composeByWorkload ms = foldl (\<lambda>bw m. mput (serviceKey (cmProject m) (cmService m)) m bw) [] ms"

definition composeMappingOf :: "(string, compose_mapping) gmap \<Rightarrow> container \<Rightarrow> compose_mapping option" where
  "composeMappingOf bw c =
     (if wlKind (ctWorkload c) \<noteq> WorkloadCompose \<or> riRef (ctImage c) = '''' then None
      else map_of bw (serviceKey (wlGroup (ctWorkload c)) (wlName (ctWorkload c))))"

definition composeKey :: "string \<Rightarrow> string \<Rightarrow> string \<Rightarrow> string \<Rightarrow> string" where
  "composeKey repo baseBranch path normRef = joinWith ''|'' [''compose'', toLower repo, baseBranch, path, normRef]"

definition memberOf :: "compose_mapping \<Rightarrow> container \<Rightarrow> unit_member" where
  "memberOf m c = \<lparr>ubService = cmComposeService m, ubWorkload = cmWorkload m, ubItemKey = itemKeyOf (ctImage c)\<rparr>"

definition unitKeyOf :: "(string, compose_mapping) gmap \<Rightarrow> container \<Rightarrow> string" where
  "unitKeyOf bw c = (case composeMappingOf bw c of
       None \<Rightarrow> ''''
     | Some m \<Rightarrow> composeKey (cmRepository m) (cmBaseBranch m) (cmPath m) (normalizedRef (riRef (ctImage c))))"

definition joinUnit :: "(string, compose_mapping) gmap \<Rightarrow> (plan_unit \<times> unit_member list) option \<Rightarrow> container \<Rightarrow> plan_unit \<times> unit_member list" where
  "joinUnit bw st c = (case composeMappingOf bw c of
       None \<Rightarrow> (case st of Some x \<Rightarrow> x | None \<Rightarrow> (newUnit '''' '''' '''' '''' '''' '''' None, []))
     | Some m \<Rightarrow>
         (let ref = riRef (ctImage c);
              (u, mbs) = (case st of Some x \<Rightarrow> x | None \<Rightarrow>
                (newUnit (unitKeyOf bw c) (cmRepository m) (cmBaseBranch m) (cmPath m) ref (normalizedRef ref) None, [])) in
          (if ref < cuCurrent u then u\<lparr>cuCurrent := ref\<rparr> else u, mbs @ [memberOf m c])))"

definition groupStep :: "(string, compose_mapping) gmap \<Rightarrow> (string, plan_unit \<times> unit_member list) gmap \<Rightarrow> container
    \<Rightarrow> (string, plan_unit \<times> unit_member list) gmap" where
  "groupStep bw groups c = (case composeMappingOf bw c of
       None \<Rightarrow> groups
     | Some m \<Rightarrow> mput (unitKeyOf bw c) (joinUnit bw (map_of groups (unitKeyOf bw c)) c) groups)"

definition memberItems :: "plan \<Rightarrow> unit_member list \<Rightarrow> unit_items" where
  "memberItems p mbs = foldl (\<lambda>st mb. noteItem p (ubService mb) (ubWorkload mb) (ubItemKey mb) st) noItems mbs"

definition finishUnit :: "plan \<Rightarrow> (string, compose_mapping) gmap \<Rightarrow> plan_unit \<Rightarrow> unit_member list \<Rightarrow> plan_unit option" where
  "finishUnit p bw u mbs =
     (let st = memberItems p mbs; services = dedupeSorted (map ubService mbs); items = sortBy (lessItem p) (uiItems st);
          u' = u\<lparr>cuServices := services, cuLocations := map (\<lambda>s. ''services.'' @ s @ ''.image'') services,
                 cuWorkloads := dedupeSorted (map ubWorkload mbs), upSvcItems := uiSvcItems st, upItems := items, upOrder := keyIdx p (hd items),
                 upAlso := alsoRunning p (\<lambda>s. svProject s \<noteq> '''' \<and> mhas bw (serviceKey (svProject s) (svService s))) items\<rparr> in
      if \<not> uiRelevant st then None
      else Some (if uiMissing st \<noteq> [] then u'\<lparr>cuManual := Some ReasonComposeSetNotAdopted\<rparr> else checkAdopted p u'))"

definition buildComposeUnits :: "plan \<Rightarrow> container list \<Rightarrow> compose_mapping list \<Rightarrow> plan_unit list" where
  "buildComposeUnits p cs ms =
     (let bw = composeByWorkload ms in
      sortBy lessUnit (List.map_filter (\<lambda>(key, u, mbs). finishUnit p bw u mbs) (foldl (groupStep bw) [] cs)))"

subsection \<open>What a unit fixes, and its evidence\<close>

abbreviation verdictKey :: "vuln_verdict \<Rightarrow> verdict_key" where
  "verdictKey v \<equiv> \<lparr>vkVuln = vvVulnID v, vkCoord = vvPackage v\<rparr>"

abbreviation targetPair :: "target \<Rightarrow> verdict_key" where
  "targetPair t \<equiv> \<lparr>vkVuln = tgVulnID t, vkCoord = tgPackage t\<rparr>"

definition resolvedPairs :: "plan_item \<Rightarrow> verdict_key list" where
  "resolvedPairs it = (case itComparison it of
       None \<Rightarrow> []
     | Some c \<Rightarrow> remdups (map verdictKey (filter (\<lambda>v. vvOutcome v = OutcomeResolved) (vrVerdicts c))))"

definition targetPairs :: "plan_item \<Rightarrow> verdict_key list" where
  "targetPairs it = remdups (filter (\<lambda>k. k \<in> set (resolvedPairs it)) (map targetPair (itTargets it)))"

text \<open>The pairs all of the items have; none without an item.\<close>

definition commonPairs :: "(nat \<Rightarrow> verdict_key list) \<Rightarrow> nat list \<Rightarrow> verdict_key list" where
  "commonPairs pairs items =
     (case foldl (\<lambda>acc i. case acc of None \<Rightarrow> Some (pairs i) | Some ks \<Rightarrow> Some (filter (\<lambda>k. k \<in> set (pairs i)) ks)) None items of
        None \<Rightarrow> []
      | Some ks \<Rightarrow> ks)"

definition fixTargetOf :: "string \<Rightarrow> verdict_key \<Rightarrow> fix_target" where
  "fixTargetOf loc k = \<lparr>ftLocation = loc, ftVulnID = vkVuln k, ftPackage = vkCoord k, ftLayers = [], ftLayersDigest = '''', ftEntities = []\<rparr>"

definition sortFixTargets :: "key_hash \<Rightarrow> fix_target list \<Rightarrow> fix_target list" where
  "sortFixTargets hsh = sortBy (\<lambda>a b. FixTarget_key hsh a < FixTarget_key hsh b)"

definition sharedLocation :: "key_hash \<Rightarrow> plan_unit \<Rightarrow> (nat \<Rightarrow> verdict_key list) \<Rightarrow> fix_target list" where
  "sharedLocation hsh u pairs = (case cuLocations u of
       [] \<Rightarrow> []
     | loc # _ \<Rightarrow> sortFixTargets hsh
         (map (fixTargetOf loc) (commonPairs pairs (concat (map (mget [] (upSvcItems u)) (cuServices u))))))"

definition perLocation :: "key_hash \<Rightarrow> plan_unit \<Rightarrow> (nat \<Rightarrow> verdict_key list) \<Rightarrow> fix_target list" where
  "perLocation hsh u pairs =
     (if (case cuKube u of Some kb \<Rightarrow> kbKustomize kb \<noteq> None | None \<Rightarrow> False) then sharedLocation hsh u pairs
      else sortFixTargets hsh (concat (map (\<lambda>s. map (fixTargetOf (locationOf u s)) (commonPairs pairs (mget [] (upSvcItems u) s))) (cuServices u))))"

definition fixTargets :: "key_hash \<Rightarrow> plan \<Rightarrow> plan_unit \<Rightarrow> fix_target list" where
  "fixTargets hsh p u = (if cuDf u \<noteq> None \<or> cuLang u \<noteq> None then cuFixTargets u else perLocation hsh u (\<lambda>i. targetPairs (itemAt p i)))"

definition resolvedAll :: "key_hash \<Rightarrow> plan \<Rightarrow> plan_unit \<Rightarrow> fix_target list" where
  "resolvedAll hsh p u = perLocation hsh u (\<lambda>i. resolvedPairs (itemAt p i))"

text \<open>The target of a pair: the last one the item lists.\<close>

definition intelOf :: "target list \<Rightarrow> verdict_key \<Rightarrow> target option" where
  "intelOf ts k = find (\<lambda>t. targetPair t = k) (rev ts)"

definition summaryOf :: "target list \<Rightarrow> vuln_verdict \<Rightarrow> vuln_summary" where
  "summaryOf ts v =
     \<lparr>vsVulnID = vvVulnID v, vsPackage = vvPackage v, vsSeverity = vvSeverity v,
      vsPriority = (case intelOf ts (verdictKey v) of Some t \<Rightarrow> tgPriority t | None \<Rightarrow> ''''),
      vsKEV = (case intelOf ts (verdictKey v) of Some t \<Rightarrow> tgKEV t | None \<Rightarrow> False), vsLayers = []\<rparr>"

definition zeroState :: image_state where
  "zeroState = \<lparr>isRef = '''', isTag = '''', isEntity = '''', isConfigDigest = '''', isManifestDigest = '''', isTopDigest = '''', isPlatform = '''',
     isDigestKindUnverified = False\<rparr>"

definition itemEvidence :: "plan \<Rightarrow> plan_unit \<Rightarrow> nat \<Rightarrow> item_evidence" where
  "itemEvidence p u i =
     (let it = itemAt p i; ts = itTargets it; isTarget = (\<lambda>v. intelOf ts (verdictKey v) \<noteq> None);
          vs = (case itComparison it of None \<Rightarrow> [] | Some c \<Rightarrow> vrVerdicts c);
          pick = (\<lambda>outcome target. map (summaryOf ts) (filter (\<lambda>v. vvOutcome v = outcome \<and> isTarget v = target) vs)) in
      \<lparr>ieItemKey = itKey it, ieCurrent = itCurrent it, ieCandidate = (case itCandidate it of Some c \<Rightarrow> c | None \<Rightarrow> zeroState),
       ieLocations = foldl appendNew [] (map (locationOf u) (filter (\<lambda>s. i \<in> set (mget [] (upSvcItems u) s)) (cuServices u))),
       ieResolved = pick OutcomeResolved True, ieRemaining = pick OutcomeRemaining True,
       ieOtherResolved = pick OutcomeResolved False, ieOtherRemaining = pick OutcomeRemaining False,
       ieIntroduced = (case itComparison it of None \<Rightarrow> [] | Some c \<Rightarrow> map (summaryOf ts) (vrIntroduced c))\<rparr>)"

text \<open>The scope is the first comparison's, the severities the last one's that names any.\<close>

definition comparisonsOf :: "plan \<Rightarrow> nat list \<Rightarrow> verification_result list" where
  "comparisonsOf p items = List.map_filter (\<lambda>i. itComparison (itemAt p i)) items"

definition evidence :: "plan \<Rightarrow> plan_unit \<Rightarrow> verification_summary option" where
  "evidence p u =
     (if cuDf u \<noteq> None then cuEvidence u
      else if cuLang u \<noteq> None then None
      else Some \<lparr>vmSeverities = foldl (\<lambda>sev c. if vrSeverities c \<noteq> [] then vrSeverities c else sev)
                   (scSeverities (plConditions p)) (comparisonsOf p (upItems u)),
                 vmScope = foldl (\<lambda>scope c. if scope = '''' then vrScope c else scope) '''' (comparisonsOf p (upItems u)),
                 vmItems = map (itemEvidence p u) (upItems u)\<rparr>)"

text \<open>The unit as the stage processes it.\<close>

definition unitOf :: "key_hash \<Rightarrow> plan \<Rightarrow> plan_unit \<Rightarrow> compose_unit" where
  "unitOf hsh p u = (compose_unit.truncate u)\<lparr>cuFixTargets := fixTargets hsh p u, cuEvidence := evidence p u\<rparr>"

subsection \<open>The items of a unit\<close>

lemma itemIdx_Some: "itemIdx p key = Some i \<Longrightarrow> i < length (plItems p) \<and> itKey (itemAt p i) = key"
  by (auto simp: itemIdx_def firstIdx_iff)

lemma keyIdx_found [simp]: "itemIdx p key = Some i \<Longrightarrow> keyIdx p i = i"
  using itemIdx_Some [of p key i] by (simp add: keyIdx_def)

definition noted :: "plan \<Rightarrow> (string \<times> string \<times> string) list \<Rightarrow> unit_items" where
  "noted p xs = foldl (\<lambda>st (s, w, k). noteItem p s w k st) noItems xs"

text \<open>The indices of the items that a service, or any service, of the list has.\<close>

definition idxOf :: "plan \<Rightarrow> (string \<times> string \<times> string) list \<Rightarrow> string \<Rightarrow> nat set" where
  "idxOf p xs s = {i. \<exists>w k. (s, w, k) \<in> set xs \<and> itemIdx p k = Some i}"

lemma idxOf_snoc: "idxOf p (xs @ [(s, w, k)]) s' = idxOf p xs s' \<union> (if s' = s then set_option (itemIdx p k) else {})"
  by (auto simp: idxOf_def)

lemma noted_items: "set (mget [] (uiSvcItems (noted p xs)) s) = idxOf p xs s"
proof (induction xs rule: rev_induct)
  case (snoc x xs)
  obtain s' w k where x: "x = (s', w, k)" by (cases x)
  from snoc show ?case by (cases "itemIdx p k") (auto simp: x noted_def noteItem_def idxOf_snoc mget_mput)
qed (simp add: noted_def noItems_def idxOf_def mget_Nil)

lemma noted_all: "set (uiItems (noted p xs)) = (\<Union>s. idxOf p xs s) \<and> distinct (uiItems (noted p xs))"
proof (induction xs rule: rev_induct)
  case (snoc x xs)
  obtain s' w k where x: "x = (s', w, k)" by (cases x)
  from snoc show ?case by (cases "itemIdx p k") (auto simp: x noted_def noteItem_def idxOf_snoc split: if_splits)
qed (simp add: noted_def noItems_def idxOf_def)

lemma noted_missing: "set (uiMissing (noted p xs)) = {w. \<exists>s k. (s, w, k) \<in> set xs \<and> itemIdx p k = None}"
proof (induction xs rule: rev_induct)
  case (snoc x xs)
  obtain s' w k where x: "x = (s', w, k)" by (cases x)
  from snoc show ?case by (cases "itemIdx p k") (auto simp: x noted_def noteItem_def)
qed (simp add: noted_def noItems_def)

lemma noted_relevant: "uiRelevant (noted p xs) \<longleftrightarrow> (\<exists>s. \<exists>i \<in> idxOf p xs s. itCategory (itemAt p i) = CategoryPRCandidate)"
proof (induction xs rule: rev_induct)
  case (snoc x xs)
  obtain s' w k where x: "x = (s', w, k)" by (cases x)
  from snoc show ?case by (cases "itemIdx p k") (auto simp: x noted_def noteItem_def idxOf_snoc split: if_splits)
qed (simp add: noted_def noItems_def idxOf_def)

lemmas noted_facts = noted_items noted_all noted_missing noted_relevant

lemma idxOf_idx: "i \<in> idxOf p xs s \<Longrightarrow> i < length (plItems p) \<and> keyIdx p i = i"
  by (auto simp: idxOf_def dest: itemIdx_Some)

text \<open>An adopted item, for a candidate's tag and digest.\<close>

definition adoptedAs :: "plan_item \<Rightarrow> image_state \<Rightarrow> bool" where
  "adoptedAs it cand \<longleftrightarrow> itCategory it = CategoryPRCandidate \<and> itComparison it \<noteq> None
     \<and> (\<exists>d. itCandidate it = Some d \<and> isTag d = isTag cand \<and> isTopDigest d = isTopDigest cand)"

lemma adoptLoop_Some:
  "adoptLoop p items (Some c) = Some r \<longleftrightarrow> r = Some c \<and> (\<forall>i \<in> set items. adoptedAs (itemAt p i) c)"
  by (induction items) (auto simp: adoptedAs_def Let_def split: option.splits)

lemma adoptLoop_exact:
  assumes "items \<noteq> []"
  shows "(\<exists>c. adoptLoop p items None = Some (Some c) \<and> (\<forall>i \<in> set items. adoptedAs (itemAt p i) c))
     \<or> adoptLoop p items None = None \<and> (\<nexists>c. \<forall>i \<in> set items. adoptedAs (itemAt p i) c)"
proof (cases items)
  case (Cons i js)
  show ?thesis
  proof (cases "itCategory (itemAt p i) \<noteq> CategoryPRCandidate \<or> itCandidate (itemAt p i) = None \<or> itComparison (itemAt p i) = None")
    case True
    then show ?thesis by (auto simp: Cons adoptedAs_def)
  next
    case False
    then obtain d where d: "itCandidate (itemAt p i) = Some d" by auto
    have eq: "adoptLoop p items None = adoptLoop p js (Some d)" using False d by (auto simp: Cons)
    have one: "adoptedAs (itemAt p i) c \<longleftrightarrow> isTag d = isTag c \<and> isTopDigest d = isTopDigest c" for c
      using False d by (auto simp: adoptedAs_def)
    have same: "adoptedAs it c \<longleftrightarrow> adoptedAs it d" if "adoptedAs (itemAt p i) c" for it c using that one by (auto simp: adoptedAs_def)
    show ?thesis
    proof (cases "adoptLoop p js (Some d)")
      case None
      then have "\<not> (\<forall>j \<in> set js. adoptedAs (itemAt p j) d)" using adoptLoop_Some [of p js d "Some d"] by auto
      then show ?thesis using None eq same by (auto simp: Cons)
    next
      case (Some r)
      then show ?thesis using eq one adoptLoop_Some [of p js d r] by (auto simp: Cons)
    qed
  qed
qed (use assms in simp)

lemma checkAdopted_fields [simp]:
  "cuKey (checkAdopted p u) = cuKey u" "cuRepo (checkAdopted p u) = cuRepo u" "cuBaseBranch (checkAdopted p u) = cuBaseBranch u"
  "cuPath (checkAdopted p u) = cuPath u" "upNormRef (checkAdopted p u) = upNormRef u" "cuServices (checkAdopted p u) = cuServices u"
  "cuWorkloads (checkAdopted p u) = cuWorkloads u" "upItems (checkAdopted p u) = upItems u" "upSvcItems (checkAdopted p u) = upSvcItems u"
  "cuKube (checkAdopted p u) = cuKube u" "upLocation (checkAdopted p u) = upLocation u" "cuDf (checkAdopted p u) = cuDf u"
  "cuLang (checkAdopted p u) = cuLang u" "cuLocations (checkAdopted p u) = cuLocations u" "upOrder (checkAdopted p u) = upOrder u"
  by (auto simp: checkAdopted_def split: option.splits)

lemma checkAdopted_adopted:
  assumes "upItems u \<noteq> []" "cuManual (checkAdopted p u) = None"
  shows "\<exists>c. cuCandidate (checkAdopted p u) = Some c \<and> (\<forall>i \<in> set (upItems u). adoptedAs (itemAt p i) c)"
  using adoptLoop_exact [OF assms(1), of p] assms(2) by (auto simp: checkAdopted_def)

subsection \<open>Compose units cover their file\<close>

interpretation compose_groups: grouping "\<lambda>c. composeMappingOf bw c \<noteq> None" "unitKeyOf bw" "joinUnit bw" "groupStep bw" for bw
  by unfold_locales (auto simp: groupStep_def)

abbreviation theMember :: "(string, compose_mapping) gmap \<Rightarrow> container \<Rightarrow> unit_member" where
  "theMember bw c \<equiv> memberOf (the (composeMappingOf bw c)) c"

abbreviation groupOf :: "(string, compose_mapping) gmap \<Rightarrow> container list \<Rightarrow> string \<Rightarrow> container list" where
  "groupOf bw cs key \<equiv> filter (\<lambda>c. composeMappingOf bw c \<noteq> None \<and> unitKeyOf bw c = key) cs"

text \<open>A group's unit is keyed by its own file and reference, and still empty.\<close>

definition freshUnit :: "string \<Rightarrow> plan_unit \<Rightarrow> bool" where
  "freshUnit key u \<longleftrightarrow> cuKey u = key \<and> key = composeKey (cuRepo u) (cuBaseBranch u) (cuPath u) (upNormRef u)
     \<and> cuKube u = None \<and> cuDf u = None \<and> cuLang u = None \<and> cuManual u = None"

lemma joined_group:
  "(\<And>c. c \<in> set cs \<Longrightarrow> composeMappingOf bw c \<noteq> None \<and> unitKeyOf bw c = key) \<Longrightarrow> cs \<noteq> [] \<Longrightarrow>
   \<exists>u. foldl (\<lambda>v c. Some (joinUnit bw v c)) None cs = Some (u, map (theMember bw) cs) \<and> freshUnit key u"
proof (induction cs rule: rev_induct)
  case (snoc c cs)
  obtain m where m: "composeMappingOf bw c = Some m" "unitKeyOf bw c = key" using snoc(2) [of c] by auto
  show ?case
  proof (cases "cs = []")
    case True
    then show ?thesis using m by (auto simp: joinUnit_def Let_def newUnit_def freshUnit_def unitKeyOf_def)
  next
    case False
    then obtain u where "foldl (\<lambda>v c. Some (joinUnit bw v c)) None cs = Some (u, map (theMember bw) cs)" "freshUnit key u"
      using snoc by auto
    then show ?thesis using m by (auto simp: joinUnit_def freshUnit_def Let_def)
  qed
qed simp

lemma group_found:
  assumes "map_of (foldl (groupStep bw) [] cs) key = Some (u, mbs)"
  shows "mbs = map (theMember bw) (groupOf bw cs key) \<and> freshUnit key u \<and> groupOf bw cs key \<noteq> []"
proof -
  have ne: "groupOf bw cs key \<noteq> []" using assms compose_groups.loop_keys [of bw cs key] by auto
  then have "\<exists>u. foldl (\<lambda>v c. Some (joinUnit bw v c)) None (groupOf bw cs key) = Some (u, map (theMember bw) (groupOf bw cs key)) \<and> freshUnit key u"
    by (intro joined_group) auto
  then show ?thesis using assms ne by (auto simp: compose_groups.lookup_loop)
qed

lemma group_ok: "map_ok (foldl (groupStep bw) [] cs)"
  by (rule compose_groups.loop_ok) simp

definition memberNotes :: "unit_member list \<Rightarrow> (string \<times> string \<times> string) list" where
  "memberNotes mbs = map (\<lambda>mb. (ubService mb, ubWorkload mb, ubItemKey mb)) mbs"

lemma memberItems_noted: "memberItems p mbs = noted p (memberNotes mbs)"
  by (simp add: memberItems_def noted_def memberNotes_def foldl_map)

lemma set_dedupeSorted [simp]: "set (dedupeSorted xs) = set xs"
  by (simp add: dedupeSorted_def sortedCopy_def)

lemma finishUnit_fields:
  assumes "finishUnit p bw u mbs = Some v"
  shows "cuKey v = cuKey u" "cuRepo v = cuRepo u" "cuBaseBranch v = cuBaseBranch u" "cuPath v = cuPath u" "upNormRef v = upNormRef u"
    "cuKube v = cuKube u" "cuDf v = cuDf u" "cuLang v = cuLang u" "set (cuServices v) = ubService ` set mbs" "set (cuWorkloads v) = ubWorkload ` set mbs"
    "upSvcItems v = uiSvcItems (memberItems p mbs)" "set (upItems v) = set (uiItems (memberItems p mbs))" "upItems v \<noteq> []"
proof -
  have "uiItems (memberItems p mbs) \<noteq> []"
    using assms noted_all [of p "memberNotes mbs"] noted_relevant [of p "memberNotes mbs"]
    by (fastforce simp: finishUnit_def Let_def memberItems_noted split: if_splits)
  then have "sortBy (lessItem p) (uiItems (memberItems p mbs)) \<noteq> []" by (metis length_0_conv length_sortBy)
  then show "cuKey v = cuKey u" "cuRepo v = cuRepo u" "cuBaseBranch v = cuBaseBranch u" "cuPath v = cuPath u" "upNormRef v = upNormRef u"
    "cuKube v = cuKube u" "cuDf v = cuDf u" "cuLang v = cuLang u" "set (cuServices v) = ubService ` set mbs" "set (cuWorkloads v) = ubWorkload ` set mbs"
    "upSvcItems v = uiSvcItems (memberItems p mbs)" "set (upItems v) = set (uiItems (memberItems p mbs))" "upItems v \<noteq> []"
    using assms by (auto simp: finishUnit_def Let_def split: if_splits)
qed

lemma finishUnit_whole:
  assumes "finishUnit p bw u mbs = Some v" "cuManual v = None" "cuManual u = None"
  shows "uiMissing (memberItems p mbs) = [] \<and> (\<exists>c. cuCandidate v = Some c \<and> (\<forall>i \<in> set (upItems v). adoptedAs (itemAt p i) c))"
proof -
  note f = finishUnit_fields [OF assms(1)]
  obtain u' where u': "v = checkAdopted p u'" "uiMissing (memberItems p mbs) = []"
    using assms(1,2) by (auto simp: finishUnit_def Let_def split: if_splits)
  then show ?thesis using checkAdopted_adopted [of u' p] f(13) assms(2) by simp
qed

lemma composeUnits_iff:
  "v \<in> set (buildComposeUnits p cs ms) \<longleftrightarrow>
     (\<exists>key u mbs. map_of (foldl (groupStep (composeByWorkload ms)) [] cs) key = Some (u, mbs) \<and> finishUnit p (composeByWorkload ms) u mbs = Some v)"
proof -
  have "map_of (foldl (groupStep bw) [] cs) key = Some x \<longleftrightarrow> (key, x) \<in> set (foldl (groupStep bw) [] cs)" for bw key x
    using gm.entries_iff [OF group_ok] by blast
  then show ?thesis
    by (simp add: buildComposeUnits_def Let_def List.map_filter_def case_prod_beta image_iff Bex_def) (metis option.sel option.simps(3))
qed

text \<open>A container whose mapping names the unit's file and whose image is the unit's: both are in its key.\<close>

definition inUnit :: "compose_mapping list \<Rightarrow> plan_unit \<Rightarrow> container \<Rightarrow> compose_mapping \<Rightarrow> bool" where
  "inUnit ms u c m \<longleftrightarrow> composeMappingOf (composeByWorkload ms) c = Some m
     \<and> composeKey (cmRepository m) (cmBaseBranch m) (cmPath m) (normalizedRef (riRef (ctImage c))) = cuKey u"

lemma unit_group:
  assumes "v \<in> set (buildComposeUnits p cs ms)"
  obtains u mbs where "finishUnit p (composeByWorkload ms) u mbs = Some v" "freshUnit (cuKey v) u" "mbs \<noteq> []"
    "mbs = map (theMember (composeByWorkload ms)) (groupOf (composeByWorkload ms) cs (cuKey v))"
proof -
  obtain key u mbs where g: "map_of (foldl (groupStep (composeByWorkload ms)) [] cs) key = Some (u, mbs)"
      "finishUnit p (composeByWorkload ms) u mbs = Some v"
    using assms by (auto simp: composeUnits_iff)
  note f = finishUnit_fields(1) [OF g(2)] and gf = group_found [OF g(1)]
  from f gf have "key = cuKey v" by (simp add: freshUnit_def)
  then show ?thesis using that [OF g(2)] gf by blast
qed

lemma inUnit_member:
  assumes "bw = composeByWorkload ms" "mbs = map (theMember bw) (groupOf bw cs (cuKey v))" "inUnit ms v c m" "c \<in> set cs"
  shows "memberOf m c \<in> set mbs"
proof -
  have m: "composeMappingOf bw c = Some m" "unitKeyOf bw c = cuKey v" using assms(1,3) by (simp_all add: inUnit_def unitKeyOf_def)
  then show ?thesis using assms(2,4) by force
qed

lemma compose_unit_items:
  assumes "u \<in> set (buildComposeUnits p cs ms)" "inUnit ms u c m" "c \<in> set cs"
  shows "cmComposeService m \<in> set (cuServices u) \<and> cmWorkload m \<in> set (cuWorkloads u)
     \<and> (\<forall>i. itemIdx p (itemKeyOf (ctImage c)) = Some i \<longrightarrow> i \<in> set (mget [] (upSvcItems u) (cmComposeService m)) \<and> i \<in> set (upItems u))"
proof -
  obtain w mbs where g: "finishUnit p (composeByWorkload ms) w mbs = Some u" "freshUnit (cuKey u) w" and "mbs \<noteq> []" and mbs:
      "mbs = map (theMember (composeByWorkload ms)) (groupOf (composeByWorkload ms) cs (cuKey u))"
    by (rule unit_group [OF assms(1)])
  have mem: "memberOf m c \<in> set mbs" by (rule inUnit_member [OF refl mbs assms(2,3)])
  then have "(cmComposeService m, cmWorkload m, itemKeyOf (ctImage c)) \<in> set (memberNotes mbs)"
    by (force simp: memberNotes_def memberOf_def)
  then have idx: "i \<in> idxOf p (memberNotes mbs) (cmComposeService m)" if "itemIdx p (itemKeyOf (ctImage c)) = Some i" for i
    using that by (auto simp: idxOf_def)
  have names: "cmComposeService m = ubService (memberOf m c)" "cmWorkload m = ubWorkload (memberOf m c)" by (simp_all add: memberOf_def)
  note f = finishUnit_fields(9-12) [OF g(1), unfolded memberItems_noted]
  show ?thesis
    unfolding f noted_items using mem idx noted_all [of p "memberNotes mbs"] by (auto simp: names)
qed

lemma compose_unit_adopted:
  assumes "u \<in> set (buildComposeUnits p cs ms)" "inUnit ms u c m" "c \<in> set cs" "cuManual u = None"
  shows "\<exists>i cand. itemIdx p (itemKeyOf (ctImage c)) = Some i \<and> cuCandidate u = Some cand \<and> adoptedAs (itemAt p i) cand"
proof -
  obtain w mbs where g: "finishUnit p (composeByWorkload ms) w mbs = Some u" "freshUnit (cuKey u) w" and "mbs \<noteq> []" and mbs:
      "mbs = map (theMember (composeByWorkload ms)) (groupOf (composeByWorkload ms) cs (cuKey u))"
    by (rule unit_group [OF assms(1)])
  have whole: "uiMissing (memberItems p mbs) = []" "\<exists>c. cuCandidate u = Some c \<and> (\<forall>i \<in> set (upItems u). adoptedAs (itemAt p i) c)"
    using finishUnit_whole [OF g(1) assms(4)] g(2) by (auto simp: freshUnit_def)
  have "memberOf m c \<in> set mbs" by (rule inUnit_member [OF refl mbs assms(2,3)])
  then have "(cmComposeService m, cmWorkload m, itemKeyOf (ctImage c)) \<in> set (memberNotes mbs)"
    by (force simp: memberNotes_def memberOf_def)
  then obtain i where "itemIdx p (itemKeyOf (ctImage c)) = Some i"
    using whole(1) noted_missing [of p "memberNotes mbs"] by (fastforce simp: memberItems_noted)
  then show ?thesis using whole(2) compose_unit_items [OF assms(1-3)] by blast
qed

text \<open>Every item of a service of a unit is that of a container of the unit, and a container with a candidate has a unit.\<close>

lemma compose_unit_from:
  assumes "u \<in> set (buildComposeUnits p cs ms)" "i \<in> set (mget [] (upSvcItems u) s)"
  shows "\<exists>c \<in> set cs. \<exists>m. inUnit ms u c m \<and> cmComposeService m = s \<and> itemIdx p (itemKeyOf (ctImage c)) = Some i"
proof -
  obtain w mbs where g: "finishUnit p (composeByWorkload ms) w mbs = Some u" and "freshUnit (cuKey u) w" "mbs \<noteq> []" and mbs:
      "mbs = map (theMember (composeByWorkload ms)) (groupOf (composeByWorkload ms) cs (cuKey u))"
    by (rule unit_group [OF assms(1)])
  then have "i \<in> idxOf p (memberNotes mbs) s"
    using assms(2) finishUnit_fields(11) [OF g] noted_items by (simp add: memberItems_noted)
  then obtain mb where mb: "mb \<in> set mbs" "ubService mb = s" "itemIdx p (ubItemKey mb) = Some i"
    by (auto simp: idxOf_def memberNotes_def)
  then obtain c m where c: "c \<in> set cs" "composeMappingOf (composeByWorkload ms) c = Some m" "unitKeyOf (composeByWorkload ms) c = cuKey u" "mb = memberOf m c"
    using mbs by auto
  then show ?thesis using mb by (auto simp: inUnit_def unitKeyOf_def memberOf_def intro!: bexI [of _ c])
qed

lemma compose_unit_service:
  assumes "u \<in> set (buildComposeUnits p cs ms)" "s \<in> set (cuServices u)"
  shows "\<exists>c \<in> set cs. \<exists>m. inUnit ms u c m \<and> cmComposeService m = s"
proof -
  obtain w mbs where g: "finishUnit p (composeByWorkload ms) w mbs = Some u" and "freshUnit (cuKey u) w" "mbs \<noteq> []" and mbs:
      "mbs = map (theMember (composeByWorkload ms)) (groupOf (composeByWorkload ms) cs (cuKey u))"
    by (rule unit_group [OF assms(1)])
  obtain mb where mb: "mb \<in> set mbs" "ubService mb = s" using assms(2) finishUnit_fields(9) [OF g] by auto
  then obtain c m where c: "c \<in> set cs" "composeMappingOf (composeByWorkload ms) c = Some m" "unitKeyOf (composeByWorkload ms) c = cuKey u" "mb = memberOf m c"
    using mbs by auto
  then show ?thesis using mb by (auto simp: inUnit_def unitKeyOf_def memberOf_def intro!: bexI [of _ c])
qed

lemma compose_unit_found:
  assumes "c \<in> set cs" "composeMappingOf (composeByWorkload ms) c = Some m" "itemIdx p (itemKeyOf (ctImage c)) = Some i"
    "itCategory (itemAt p i) = CategoryPRCandidate"
  shows "\<exists>u \<in> set (buildComposeUnits p cs ms). inUnit ms u c m"
proof -
  let ?bw = "composeByWorkload ms"
  let ?key = "unitKeyOf ?bw c"
  have "groupOf ?bw cs ?key \<noteq> []" using assms(1,2) by (force simp: filter_empty_conv)
  then obtain u mbs where g: "map_of (foldl (groupStep ?bw) [] cs) ?key = Some (u, mbs)"
    using compose_groups.loop_keys [of ?bw cs ?key] by auto
  note gf = group_found [OF g]
  have "memberOf m c \<in> set mbs" using gf assms(1,2) by force
  then have "(cmComposeService m, cmWorkload m, itemKeyOf (ctImage c)) \<in> set (memberNotes mbs)"
    by (force simp: memberNotes_def memberOf_def)
  then have "uiRelevant (memberItems p mbs)"
    using assms(3,4) unfolding memberItems_noted noted_relevant idxOf_def by blast
  then obtain v where v: "finishUnit p ?bw u mbs = Some v" by (auto simp: finishUnit_def Let_def)
  then have "cuKey v = ?key" using finishUnit_fields(1) [OF v] gf by (simp add: freshUnit_def)
  then have "inUnit ms v c m" using assms(2) by (simp add: inUnit_def unitKeyOf_def)
  moreover have "v \<in> set (buildComposeUnits p cs ms)" unfolding composeUnits_iff using v g by blast
  ultimately show ?thesis by blast
qed

subsection \<open>What is claimed and what the evidence says\<close>

lemma common_loop:
  "foldl (\<lambda>acc i. case acc of None \<Rightarrow> Some (pairs i) | Some ks \<Rightarrow> Some (filter (\<lambda>k. k \<in> set (pairs i)) ks)) (Some ks0) items = Some ks
   \<Longrightarrow> set ks = set ks0 \<inter> (\<Inter>i \<in> set items. set (pairs i))"
  by (induction items arbitrary: ks0) auto

lemma common_total: "\<exists>ks. foldl (\<lambda>acc i. case acc of None \<Rightarrow> Some (pairs i) | Some ks \<Rightarrow> Some (filter (\<lambda>k. k \<in> set (pairs i)) ks)) (Some ks0) items = Some ks"
  by (induction items arbitrary: ks0) auto

lemma set_commonPairs: "set (commonPairs pairs items) = (if items = [] then {} else \<Inter>i \<in> set items. set (pairs i))"
proof (cases items)
  case (Cons i js)
  obtain ks where "foldl (\<lambda>acc i. case acc of None \<Rightarrow> Some (pairs i) | Some ks \<Rightarrow> Some (filter (\<lambda>k. k \<in> set (pairs i)) ks)) (Some (pairs i)) js = Some ks"
    using common_total by blast
  then show ?thesis using common_loop [of pairs "pairs i" js ks] by (simp add: commonPairs_def Cons)
qed (simp add: commonPairs_def)

text \<open>The pairs of a location in the evidence, by the same intersection on their texts.\<close>

definition meetPairs :: "string list option \<Rightarrow> string \<times> string list \<Rightarrow> string list" where
  "meetPairs acc x = (case acc of None \<Rightarrow> snd x | Some ks \<Rightarrow> filter (\<lambda>k. k \<in> set (snd x)) ks)"

interpretation evidence_locations: grouping "\<lambda>_. True" fst meetPairs "\<lambda>perLoc x. addLocation (snd x) perLoc (fst x)"
  by unfold_locales (auto simp: addLocation_def meetPairs_def split: option.splits)

lemma meet_loop: "foldl (\<lambda>v x. Some (meetPairs v x)) (Some ks0) xs = Some ks \<Longrightarrow> set ks = set ks0 \<inter> (\<Inter>x \<in> set xs. set (snd x))"
  by (induction xs arbitrary: ks0) (auto simp: meetPairs_def)

lemma meetPairs_None [simp]: "meetPairs None x = snd x"
  by (simp add: meetPairs_def)

lemma meet_set: "foldl (\<lambda>v x. Some (meetPairs v x)) None xs = Some ks \<Longrightarrow> set ks = (\<Inter>x \<in> set xs. set (snd x))"
  using meet_loop by (cases xs) fastforce+

definition locationPairs :: "verification_summary \<Rightarrow> (string \<times> string list) list" where
  "locationPairs ev = concat (map (\<lambda>it. map (\<lambda>loc. (loc, evidencePairs it)) (ieLocations it)) (vmItems ev))"

lemma perLoc_flat:
  "foldl (\<lambda>m it. foldl (addLocation (evidencePairs it)) m (ieLocations it)) m0 its
   = foldl (\<lambda>perLoc x. addLocation (snd x) perLoc (fst x)) m0 (concat (map (\<lambda>it. map (\<lambda>loc. (loc, evidencePairs it)) (ieLocations it)) its))"
  by (induction its arbitrary: m0) (simp_all add: foldl_map)

lemma resolvedFromEvidence_iff:
  "x \<in> set (resolvedFromEvidence ev) \<longleftrightarrow> (\<exists>loc k. x = loc @ [CHR 0x00] @ k \<and> loc \<in> fst ` set (locationPairs ev)
     \<and> (\<forall>ks. (loc, ks) \<in> set (locationPairs ev) \<longrightarrow> k \<in> set ks))"
proof -
  let ?m = "foldl (\<lambda>perLoc x. addLocation (snd x) perLoc (fst x)) [] (locationPairs ev)"
  have "map_ok ?m" by (rule evidence_locations.loop_ok) simp
  then have mem: "(loc, ks) \<in> set ?m \<longleftrightarrow> map_of ?m loc = Some ks" for loc ks by (rule gm.entries_iff)
  have keys: "map_of ?m loc \<noteq> None \<longleftrightarrow> loc \<in> fst ` set (locationPairs ev)" for loc
    using evidence_locations.loop_keys [of "locationPairs ev" loc] by (force simp: filter_empty_conv)
  have val: "set ks = (\<Inter>x \<in> {x \<in> set (locationPairs ev). fst x = loc}. set (snd x))" if "map_of ?m loc = Some ks" for loc ks
    using meet_set [of "filter (\<lambda>x. True \<and> fst x = loc) (locationPairs ev)" ks] that by (simp add: evidence_locations.lookup_loop)
  have one: "(\<exists>ks. map_of ?m loc = Some ks \<and> k \<in> set ks)
      \<longleftrightarrow> loc \<in> fst ` set (locationPairs ev) \<and> (\<forall>ks. (loc, ks) \<in> set (locationPairs ev) \<longrightarrow> k \<in> set ks)" for loc k
    using keys [of loc] val [of loc] by (cases "map_of ?m loc") auto
  have "x \<in> set (resolvedFromEvidence ev) \<longleftrightarrow> (\<exists>loc k. x = loc @ [CHR 0x00] @ k \<and> (\<exists>ks. map_of ?m loc = Some ks \<and> k \<in> set ks))"
    by (auto simp: resolvedFromEvidence_def Let_def perLoc_flat locationPairs_def [symmetric] mem [symmetric] Bex_def)
  then show ?thesis by (simp only: one)
qed

lemma fixTargetOf_key: "FixTarget_key hsh (fixTargetOf loc k) = loc @ [CHR 0x00] @ pairKey (vkVuln k) (vkCoord k)"
  by (simp add: FixTarget_key_def fixTargetOf_def layerSetKey_def)

definition plainPair :: "verdict_key \<Rightarrow> bool" where
  "plainPair k \<longleftrightarrow> CHR 0x00 \<notin> set (vkVuln k) \<union> set (pcEcosystem (vkCoord k)) \<union> set (pcClass (vkCoord k))"

lemma sep_eq: "a @ x # b = a' @ x # b' \<Longrightarrow> x \<notin> set a \<Longrightarrow> x \<notin> set a' \<Longrightarrow> a = a' \<and> b = b'"
proof (induction a arbitrary: a')
  case Nil
  then show ?case by (cases a') auto
next
  case (Cons y ys)
  then show ?case by (cases a') auto
qed

lemma pairKey_inj: "inj_on (\<lambda>k. pairKey (vkVuln k) (vkCoord k)) (Collect plainPair)"
proof (rule inj_onI)
  fix a b :: verdict_key
  assume "a \<in> Collect plainPair" "b \<in> Collect plainPair" "pairKey (vkVuln a) (vkCoord a) = pairKey (vkVuln b) (vkCoord b)"
  then show "a = b"
    by (cases a; cases b) (auto simp: plainPair_def pairKey_def dest!: sep_eq)
qed

lemma evidencePairs_item:
  "set (evidencePairs (itemEvidence p u i)) = (\<lambda>k. pairKey (vkVuln k) (vkCoord k)) ` set (resolvedPairs (itemAt p i))"
proof -
  let ?f = "\<lambda>v. pairKey (vvVulnID v) (vvPackage v)"
  have split: "?f ` {v \<in> A. P v \<and> (\<exists>y. g v = Some y)} \<union> ?f ` {v \<in> A. P v \<and> g v = None} = ?f ` {v \<in> A. P v}" for A P g
    unfolding image_Un [symmetric] by (rule arg_cong [of _ _ "(`) ?f"]) auto
  show ?thesis
    by (cases "itComparison (itemAt p i)")
      (simp_all add: evidencePairs_def itemEvidence_def Let_def resolvedPairs_def summaryOf_def image_image split)
qed

lemma set_foldl_new: "set (foldl appendNew out xs) = set out \<union> set xs"
  using set_foldl_appendNew [of "\<lambda>x. x"] by simp

lemma locationPairs_unit:
  assumes "evidence p u = Some ev" "cuDf u = None" "cuLang u = None"
  shows "(loc, ks) \<in> set (locationPairs ev) \<longleftrightarrow>
    (\<exists>i \<in> set (upItems u). \<exists>s \<in> set (cuServices u). i \<in> set (mget [] (upSvcItems u) s) \<and> loc = locationOf u s \<and> ks = evidencePairs (itemEvidence p u i))"
proof -
  have "set (ieLocations (itemEvidence p u i)) = locationOf u ` {s \<in> set (cuServices u). i \<in> set (mget [] (upSvcItems u) s)}" for i
    by (auto simp: itemEvidence_def Let_def set_foldl_new)
  moreover have "vmItems ev = map (itemEvidence p u) (upItems u)" using assms by (auto simp: evidence_def)
  ultimately show ?thesis by (simp add: locationPairs_def image_iff Bex_def) blast
qed

lemma resolvedAll_keys:
  assumes "case cuKube u of Some kb \<Rightarrow> kbKustomize kb = None | None \<Rightarrow> True"
  shows "set (map (FixTarget_key hsh) (resolvedAll hsh p u)) = (\<Union>s \<in> set (cuServices u).
      (\<lambda>k. locationOf u s @ [CHR 0x00] @ pairKey (vkVuln k) (vkCoord k))
        ` (if mget [] (upSvcItems u) s = [] then {} else \<Inter>i \<in> set (mget [] (upSvcItems u) s). set (resolvedPairs (itemAt p i))))"
proof -
  have "resolvedAll hsh p u = sortFixTargets hsh (concat (map (\<lambda>s. map (fixTargetOf (locationOf u s))
      (commonPairs (\<lambda>i. resolvedPairs (itemAt p i)) (mget [] (upSvcItems u) s))) (cuServices u)))"
    using assms by (auto simp: resolvedAll_def perLocation_def split: option.splits)
  then show ?thesis by (simp add: sortFixTargets_def image_UN image_image fixTargetOf_key set_commonPairs)
qed

lemma claims_evidence:
  assumes "evidence p u = Some ev" "cuDf u = None" "cuLang u = None" "case cuKube u of Some kb \<Rightarrow> kbKustomize kb = None | None \<Rightarrow> True"
    and inj: "inj_on (locationOf u) (set (cuServices u))"
    and sub: "\<And>s. set (mget [] (upSvcItems u) s) \<subseteq> set (upItems u)"
    and plain: "\<And>i k. i \<in> set (upItems u) \<Longrightarrow> k \<in> set (resolvedPairs (itemAt p i)) \<Longrightarrow> plainPair k"
  shows "set (map (FixTarget_key hsh) (resolvedAll hsh p u)) = set (resolvedFromEvidence ev)"
proof -
  define items where "items s = set (mget [] (upSvcItems u) s)" for s
  let ?pk = "\<lambda>k. pairKey (vkVuln k) (vkCoord k)"
  let ?res = "\<lambda>i. set (resolvedPairs (itemAt p i))"
  note lp = locationPairs_unit [OF assms(1-3)]
  have loc: "loc \<in> fst ` set (locationPairs ev) \<longleftrightarrow> (\<exists>s \<in> set (cuServices u). items s \<noteq> {} \<and> loc = locationOf u s)" for loc
  proof -
    have "loc \<in> fst ` set (locationPairs ev) \<longleftrightarrow> (\<exists>ks. (loc, ks) \<in> set (locationPairs ev))" by force
    also have "\<dots> \<longleftrightarrow> (\<exists>s \<in> set (cuServices u). (\<exists>i. i \<in> items s) \<and> loc = locationOf u s)"
      unfolding lp using sub by (auto simp: items_def)
    finally show ?thesis by auto
  qed
  have ks: "(\<forall>ks. (locationOf u s, ks) \<in> set (locationPairs ev) \<longrightarrow> k \<in> set ks) \<longleftrightarrow> (\<forall>i \<in> items s. k \<in> ?pk ` ?res i)"
    if "s \<in> set (cuServices u)" for s k
  proof -
    have "(locationOf u s, ks) \<in> set (locationPairs ev) \<longleftrightarrow> (\<exists>i \<in> items s. ks = evidencePairs (itemEvidence p u i))" for ks
      unfolding lp using that sub inj by (auto simp: items_def dest: inj_onD)
    then show ?thesis by (auto simp: evidencePairs_item)
  qed
  have img: "(\<Inter>i \<in> items s. ?pk ` ?res i) = ?pk ` (\<Inter>i \<in> items s. ?res i)" if ne: "items s \<noteq> {}" for s
  proof -
    obtain j where j: "j \<in> items s" using ne by auto
    have "\<forall>i \<in> items s. ?res i \<subseteq> Collect plainPair" using plain sub by (auto simp: items_def)
    from image_INT [OF pairKey_inj this j] show ?thesis by simp
  qed
  have mem: "x \<in> set (resolvedFromEvidence ev) \<longleftrightarrow>
      (\<exists>s \<in> set (cuServices u). items s \<noteq> {} \<and> (\<exists>k \<in> (\<Inter>i \<in> items s. ?pk ` ?res i). x = locationOf u s @ [CHR 0x00] @ k))" for x
  proof -
    have "x \<in> set (resolvedFromEvidence ev) \<longleftrightarrow> (\<exists>s \<in> set (cuServices u). items s \<noteq> {}
        \<and> (\<exists>k. (\<forall>ks. (locationOf u s, ks) \<in> set (locationPairs ev) \<longrightarrow> k \<in> set ks) \<and> x = locationOf u s @ [CHR 0x00] @ k))"
      unfolding resolvedFromEvidence_iff loc by metis
    then show ?thesis by (simp add: ks Bex_def INT_iff cong: conj_cong)
  qed
  have each: "items s \<noteq> {} \<and> (\<exists>k \<in> (\<Inter>i \<in> items s. ?pk ` ?res i). x = locationOf u s @ [CHR 0x00] @ k)
      \<longleftrightarrow> x \<in> (\<lambda>k. locationOf u s @ [CHR 0x00] @ ?pk k) ` (if items s = {} then {} else \<Inter>i \<in> items s. ?res i)" for s x
  proof (cases "items s = {}")
    case False
    then show ?thesis unfolding img [OF False] by (auto simp: image_iff)
  qed simp
  have "set (resolvedFromEvidence ev) = (\<Union>s \<in> set (cuServices u).
      (\<lambda>k. locationOf u s @ [CHR 0x00] @ ?pk k) ` (if items s = {} then {} else \<Inter>i \<in> items s. ?res i))"
    by (rule set_eqI) (simp only: mem each UN_iff)
  then show ?thesis unfolding resolvedAll_keys [OF assms(4)] items_def by simp
qed

lemma compose_unit_kind: "u \<in> set (buildComposeUnits p cs ms) \<Longrightarrow> cuKube u = None \<and> cuDf u = None \<and> cuLang u = None"
  by (erule unit_group) (auto simp: freshUnit_def dest: finishUnit_fields(6-8))

lemma compose_unit_sub:
  assumes "u \<in> set (buildComposeUnits p cs ms)"
  shows "set (mget [] (upSvcItems u) s) \<subseteq> set (upItems u)"
proof
  fix i
  assume "i \<in> set (mget [] (upSvcItems u) s)"
  from compose_unit_from [OF assms this] obtain c m where "c \<in> set cs" "inUnit ms u c m" "itemIdx p (itemKeyOf (ctImage c)) = Some i" by auto
  then show "i \<in> set (upItems u)" using compose_unit_items [OF assms] by blast
qed

lemma compose_location_inj: "cuKube u = None \<Longrightarrow> inj_on (locationOf u) A"
  by (simp add: inj_on_def locationOf_def)

lemma set_fixTargets_compose:
  assumes "u \<in> set (buildComposeUnits p cs ms)"
  shows "set (fixTargets hsh p u) = (\<Union>s \<in> set (cuServices u). fixTargetOf (locationOf u s) `
      (if mget [] (upSvcItems u) s = [] then {} else \<Inter>i \<in> set (mget [] (upSvcItems u) s). set (targetPairs (itemAt p i))))"
  using compose_unit_kind [OF assms] by (simp add: fixTargets_def perLocation_def sortFixTargets_def set_commonPairs)

lemma fixTargetOf_inj: "fixTargetOf loc k = fixTargetOf loc' k' \<longleftrightarrow> loc = loc' \<and> k = k'"
  by (cases k; cases k') (auto simp: fixTargetOf_def)

subsection \<open>Samples\<close>

definition sampleRef :: "string \<Rightarrow> running_image" where
  "sampleRef ref = \<lparr>riRef = ref, riConfig = zeroDigest, riRegistry = \<lparr>rrRepository = '''', rrDigest = zeroDigest\<rparr>,
     riPlatform = \<lparr>plOS = '''', plArchitecture = '''', plVariant = ''''\<rparr>\<rparr>"

definition sampleService :: "string \<Rightarrow> container" where
  "sampleService name = \<lparr>ctID = name, ctName = name, ctWorkload = \<lparr>wlKind = WorkloadCompose, wlGroup = ''p'', wlName = name\<rparr>,
     ctImage = sampleRef ''app:1'', ctRuntimeExcluded = False, ctDeclared = None, ctPodInit = None\<rparr>"

definition sampleMapping :: "string \<Rightarrow> compose_mapping" where
  "sampleMapping name = \<lparr>cmWorkload = ''compose/p/'' @ name, cmProject = ''p'', cmService = name, cmRepository = ''o/r'', cmBaseBranch = ''main'',
     cmPath = ''compose.yaml'', cmComposeService = name\<rparr>"

definition samplePair :: verdict_key where
  "samplePair = \<lparr>vkVuln = ''CVE-1'', vkCoord = \<lparr>pcEcosystem = ''debian'', pcClass = ''os-pkgs'', pcName = ''openssl''\<rparr>\<rparr>"

definition sampleItem :: plan_item where
  "sampleItem =
     \<lparr>itKey = itemKeyOf (sampleRef ''app:1''), itServices = [], itCategory = CategoryPRCandidate, itCurrent = zeroState,
      itCandidate = Some (zeroState\<lparr>isTag := ''2'', isTopDigest := ''d''\<rparr>),
      itTargets = [\<lparr>tgVulnID = ''CVE-1'', tgPackage = vkCoord samplePair, tgSeverity = ''HIGH'', tgFixedVers = [''2''], tgPriority = ''act_now'',
        tgKEV = False, tgTypes = [], tgLayers = []\<rparr>],
      itComparison = Some \<lparr>vrComparable = True, vrReason = '''', vrDetail = '''', vrBaselineEntity = '''', vrCandidateEntity = '''', vrSeverities = [],
        vrScope = '''', vrVerdicts = [\<lparr>vvVulnID = ''CVE-1'', vvPackage = vkCoord samplePair, vvSeverity = ''HIGH'', vvBefore = [], vvAfter = [],
          vvOutcome = OutcomeResolved, vvDisposition = '''', vvReason = ''''\<rparr>], vrIntroduced = []\<rparr>,
      itManagement = []\<rparr>"

definition samplePlan :: plan where
  "samplePlan = \<lparr>plConditions = \<lparr>scTrivyVersion = '''', scVulnerabilityDB = \<lparr>dbVersion = 0, dbUpdatedAt = 0\<rparr>, scJavaDB = \<lparr>dbVersion = 0, dbUpdatedAt = 0\<rparr>,
     scSeverities = [], scAnalysisSettings = '''', scVulnerabilityDBSHA = '''', scJavaDBSHA = '''', scTrivySHA = ''''\<rparr>, plItems = [sampleItem]\<rparr>"

abbreviation sampleUnits :: "plan_unit list" where
  "sampleUnits \<equiv> buildComposeUnits samplePlan [sampleService ''a'', sampleService ''b''] [sampleMapping ''a'', sampleMapping ''b'']"

lemma sample_unit: "\<exists>u. sampleUnits = [u] \<and> cuManual u = None"
proof -
  have "length sampleUnits = 1" "cuManual (hd sampleUnits) = None" by code_simp+
  then show ?thesis by (cases sampleUnits) auto
qed

subsection \<open>Properties\<close>

text \<open>
  C8. A Compose unit is whole. Every running container of a mapped service whose image has an adopted candidate is in
  a unit, and every container whose mapping names the file of a unit and that runs the image of the unit is
  among its services and workloads; unless the unit is left to a person, each of them has a plan item that
  is an adopted candidate for the one tag and digest the unit moves to. So a pull request never covers part
  of the services that run an image.
\<close>

theorem compose_units_whole:
  assumes "c \<in> set cs" "composeMappingOf (composeByWorkload ms) c = Some m"
  shows "(\<forall>i. itemIdx p (itemKeyOf (ctImage c)) = Some i \<longrightarrow> itCategory (itemAt p i) = CategoryPRCandidate
        \<longrightarrow> (\<exists>u \<in> set (buildComposeUnits p cs ms). inUnit ms u c m))
     \<and> (\<forall>u \<in> set (buildComposeUnits p cs ms). inUnit ms u c m \<longrightarrow>
          cmComposeService m \<in> set (cuServices u) \<and> cmWorkload m \<in> set (cuWorkloads u)
          \<and> (cuManual u = None \<longrightarrow> (\<exists>i cand. itemIdx p (itemKeyOf (ctImage c)) = Some i \<and> cuCandidate u = Some cand \<and> adoptedAs (itemAt p i) cand)))"
  using compose_unit_found [OF assms] compose_unit_items [of _ p cs ms c m] compose_unit_adopted [of _ p cs ms c m] assms(1) by blast

theorem compose_units_whole_witness:
  "\<exists>u. sampleUnits = [u] \<and> inUnit [sampleMapping ''a'', sampleMapping ''b''] u (sampleService ''b'') (sampleMapping ''b'')
     \<and> cuManual u = None \<and> ''b'' \<in> set (cuServices u) \<and> (\<exists>i cand. cuCandidate u = Some cand \<and> adoptedAs (itemAt samplePlan i) cand)"
proof -
  obtain u where one: "sampleUnits = [u]" and u: "cuManual u = None" using sample_unit by blast
  have m: "composeMappingOf (composeByWorkload [sampleMapping ''a'', sampleMapping ''b'']) (sampleService ''b'') = Some (sampleMapping ''b'')"
    "itemIdx samplePlan (itemKeyOf (ctImage (sampleService ''b''))) = Some 0" "itCategory (itemAt samplePlan 0) = CategoryPRCandidate" by code_simp+
  have c: "sampleService ''b'' \<in> set [sampleService ''a'', sampleService ''b'']" by simp
  have s: "cmComposeService (sampleMapping ''b'') = ''b''" by (simp add: sampleMapping_def)
  from compose_units_whole [OF c m(1), of samplePlan] have w: "inUnit [sampleMapping ''a'', sampleMapping ''b''] u (sampleService ''b'') (sampleMapping ''b'')"
    using m(2,3) unfolding one by auto
  then show ?thesis using compose_units_whole [OF c m(1), of samplePlan] one u s by auto
qed

text \<open>
  A fix is claimed for a service exactly when it holds for everything the service runs: a pair of a
  vulnerability and a package is among the fix targets of a unit at the place of a service if and only if every
  container of the service in the unit has it as a target that its comparison resolves.
\<close>

lemma compose_claims_exact:
  assumes "u \<in> set (buildComposeUnits p cs ms)" "cuManual u = None" "s \<in> set (cuServices u)"
  shows "fixTargetOf (''services.'' @ s @ ''.image'') k \<in> set (fixTargets hsh p u) \<longleftrightarrow>
     (\<forall>c \<in> set cs. \<forall>m. inUnit ms u c m \<and> cmComposeService m = s \<longrightarrow>
        (\<exists>i. itemIdx p (itemKeyOf (ctImage c)) = Some i \<and> k \<in> set (targetPairs (itemAt p i))))"
proof -
  have loc: "locationOf u s' = ''services.'' @ s' @ ''.image''" for s' using compose_unit_kind [OF assms(1)] by (simp add: locationOf_def)
  obtain c m where c: "c \<in> set cs" "inUnit ms u c m" "cmComposeService m = s"
    using compose_unit_service [OF assms(1,3)] by blast
  obtain i where i: "i \<in> set (mget [] (upSvcItems u) s)"
    using compose_unit_adopted [OF assms(1) c(2,1) assms(2)] compose_unit_items [OF assms(1) c(2,1)] c(3) by blast
  have "fixTargetOf (''services.'' @ s @ ''.image'') k \<in> set (fixTargets hsh p u) \<longleftrightarrow> (\<forall>i \<in> set (mget [] (upSvcItems u) s). k \<in> set (targetPairs (itemAt p i)))"
    unfolding set_fixTargets_compose [OF assms(1)] loc using i assms(3) by (force simp: image_iff fixTargetOf_inj)
  also have "\<dots> \<longleftrightarrow> (\<forall>c \<in> set cs. \<forall>m. inUnit ms u c m \<and> cmComposeService m = s \<longrightarrow>
        (\<exists>i. itemIdx p (itemKeyOf (ctImage c)) = Some i \<and> k \<in> set (targetPairs (itemAt p i))))"
  proof
    assume all: "\<forall>i \<in> set (mget [] (upSvcItems u) s). k \<in> set (targetPairs (itemAt p i))"
    show "\<forall>c \<in> set cs. \<forall>m. inUnit ms u c m \<and> cmComposeService m = s \<longrightarrow>
        (\<exists>i. itemIdx p (itemKeyOf (ctImage c)) = Some i \<and> k \<in> set (targetPairs (itemAt p i)))"
      using all compose_unit_adopted [OF assms(1) _ _ assms(2)] compose_unit_items [OF assms(1)] by blast
  qed (fastforce dest: compose_unit_from [OF assms(1)])
  finally show ?thesis .
qed

text \<open>
  What a Compose unit resolves is what its evidence says: the keys of the pairs that all running images of a
  location resolve are exactly the keys a later pull request of the same place may inherit from the evidence
  stored with this one. The fix targets of the unit are among them. The names of the pairs hold no zero byte,
  which separates the parts of a key.
\<close>

lemma compose_claims_evidence:
  assumes "u \<in> set (buildComposeUnits p cs ms)" "evidence p u = Some ev"
    and "\<And>i k. i \<in> set (upItems u) \<Longrightarrow> k \<in> set (resolvedPairs (itemAt p i)) \<Longrightarrow> plainPair k"
  shows "set (map (FixTarget_key hsh) (resolvedAll hsh p u)) = set (resolvedFromEvidence ev)
     \<and> set (fixTargets hsh p u) \<subseteq> set (resolvedAll hsh p u)"
proof
  note kind = compose_unit_kind [OF assms(1)]
  show "set (map (FixTarget_key hsh) (resolvedAll hsh p u)) = set (resolvedFromEvidence ev)"
    by (rule claims_evidence [OF assms(2)])
      (use kind compose_location_inj compose_unit_sub [OF assms(1)] assms(3) in auto)
  have "set (targetPairs it) \<subseteq> set (resolvedPairs it)" for it by (auto simp: targetPairs_def)
  then show "set (fixTargets hsh p u) \<subseteq> set (resolvedAll hsh p u)"
    unfolding set_fixTargets_compose [OF assms(1)] using kind
    by (fastforce simp: resolvedAll_def perLocation_def sortFixTargets_def set_commonPairs split: if_splits)
qed

end
