(* ===== verification/PR_Kube_Units.thy ===== *)
theory PR_Kube_Units
  imports PR_Units
begin

section \<open>Kubernetes manifest units\<close>

text \<open>
  \<open>internal/remediation/pr_kube_units.go\<close>, with \<open>sameReference\<close> of \<open>kube_plan.go\<close>: the mapped containers
  are grouped by the manifest file and by the reference they run. Anything about a file that is not whole (a
  container without an instance, an instance that does not run what its Pod spec names, two references at
  once, an instance without an adopted item) holds back every unit of the file. A map of sets is a list of
  its keys; Go walks the references of a member in any order, the model in the order they were met, which
  shows only in the reason given for a member with several. The management chains, which only the text of a
  pull request shows, are left out.

  The lemmas show that a unit that is not held back covers every instance of every mapped container of its
  file that runs its image, and that all other mapped containers of the file are in order.
\<close>

abbreviation ReasonInstancesMissing :: string where "ReasonInstancesMissing \<equiv> ''instances_missing''"
abbreviation ReasonDeclaredRefUnavailable :: string where "ReasonDeclaredRefUnavailable \<equiv> ''declared_ref_unavailable''"
abbreviation ReasonDeclaredRefMismatch :: string where "ReasonDeclaredRefMismatch \<equiv> ''declared_ref_mismatch''"
abbreviation ReasonMixedReferences :: string where "ReasonMixedReferences \<equiv> ''mixed_references''"

subsection \<open>Containers and their targets\<close>

definition refParts :: "string \<Rightarrow> string \<times> string" where
  "refParts ref = (if TagOf ref = '''' \<and> DigestOf ref = '''' then (''latest'', '''') else (TagOf ref, DigestOf ref))"

definition sameReference :: "string \<Rightarrow> string \<Rightarrow> bool" where
  "sameReference a b = (case (RepositoryKey a, RepositoryKey b) of
       (Some ak, Some bk) \<Rightarrow> ak = bk \<and> refParts a = refParts b
     | _ \<Rightarrow> False)"

definition manifestKind :: "string \<Rightarrow> string option" where
  "manifestKind k =
     (if k = WorkloadDeployment then Some ''Deployment'' else if k = WorkloadStatefulSet then Some ''StatefulSet''
      else if k = WorkloadDaemonSet then Some ''DaemonSet'' else if k = WorkloadJob then Some ''Job''
      else if k = WorkloadCronJob then Some ''CronJob'' else if k = WorkloadPod then Some ''Pod'' else None)"

definition manifestTarget :: "kubernetes_mapping \<Rightarrow> manifest_target option" where
  "manifestTarget m = (case splitOn (CHR ''/'') (kmWorkload m) of
       [k, ns, name, cont] \<Rightarrow>
         if manifestKind k = None then None
         else Some \<lparr>mtKind = k, mtNamespace = ns, mtName = name, mtContainer = cont,
                mtObjectKind = kmObjectKind m, mtObjectName = kmObjectName m\<rparr>
     | _ \<Rightarrow> None)"

definition ManifestTarget_Workload :: "manifest_target \<Rightarrow> string" where
  "ManifestTarget_Workload t = mtKind t @ ''/'' @ mtNamespace t @ ''/'' @ mtName t @ ''/'' @ mtContainer t"

definition ManifestTarget_Location :: "manifest_target \<Rightarrow> string" where
  "ManifestTarget_Location t =
     (let knd = (if mtObjectKind t = '''' then (case manifestKind (mtKind t) of Some k \<Rightarrow> k | None \<Rightarrow> '''') else mtObjectKind t);
          name = (if mtObjectName t = '''' then mtName t else mtObjectName t) in
      knd @ ''/'' @ mtNamespace t @ ''/'' @ name @ ''/'' @ mtContainer t)"

subsection \<open>Members\<close>

record kube_instance =
  knDeclared :: string
  knRunning :: string
  knItemKey :: string

record kube_member =
  kmbMapping :: kubernetes_mapping
  kmbTarget :: "manifest_target option"
  kmbByRun :: "(string, kube_instance list) gmap"
  kmbRaw :: "(string, string) gmap"
  kmbDeclared :: "string list"
  kmbProb :: "string option"

definition kubeByWorkload :: "kubernetes_mapping list \<Rightarrow> (string, kubernetes_mapping) gmap" where
  "kubeByWorkload ms = foldl (\<lambda>bw m. if mhas bw (kmWorkload m) then bw else mput (kmWorkload m) m bw) [] ms"

text \<open>The instances of a mapped workload: the containers of it that have a declaration.\<close>

definition instanceOf :: "container \<Rightarrow> declared \<Rightarrow> kube_instance" where
  "instanceOf c d =
     \<lparr>knDeclared = deRef d, knRunning = riRef (ctImage c), knItemKey = (if riRef (ctImage c) \<noteq> '''' then itemKeyOf (ctImage c) else '''')\<rparr>"

definition instancesOf :: "container list \<Rightarrow> string \<Rightarrow> kube_instance list" where
  "instancesOf cs workload =
     List.map_filter (\<lambda>c. case ctDeclared c of Some d \<Rightarrow> if WorkloadKey c = workload then Some (instanceOf c d) else None | None \<Rightarrow> None) cs"

definition failMember :: "string \<Rightarrow> kube_member \<Rightarrow> kube_member" where
  "failMember reason mb = (if kmbProb mb = None then mb\<lparr>kmbProb := Some reason\<rparr> else mb)"

definition instanceProblem :: "kube_instance \<Rightarrow> string option" where
  "instanceProblem n =
     (if knRunning n = '''' then Some ReasonInstancesMissing
      else if knDeclared n = '''' then Some ReasonDeclaredRefUnavailable
      else if \<not> sameReference (knDeclared n) (knRunning n) then Some ReasonDeclaredRefMismatch
      else None)"

definition addInstance :: "kube_member \<Rightarrow> kube_instance \<Rightarrow> kube_member" where
  "addInstance mb n =
     (let mb1 = (case instanceProblem n of Some reason \<Rightarrow> failMember reason mb | None \<Rightarrow> mb);
          mb2 = (if knDeclared n \<noteq> '''' then mb1\<lparr>kmbDeclared := appendNew (kmbDeclared mb1) (normalizedRef (knDeclared n))\<rparr> else mb1);
          r = normalizedRef (knRunning n) in
      if knRunning n = '''' then mb2
      else mb2\<lparr>kmbByRun := mput r (mget [] (kmbByRun mb2) r @ [n]) (kmbByRun mb2),
               kmbRaw := (if knDeclared n \<noteq> '''' \<and> (mget '''' (kmbRaw mb2) r = '''' \<or> knDeclared n < mget '''' (kmbRaw mb2) r)
                          then mput r (knDeclared n) (kmbRaw mb2) else kmbRaw mb2)\<rparr>)"

definition newMember :: "kubernetes_mapping \<Rightarrow> manifest_target option \<Rightarrow> kube_member" where
  "newMember m t = \<lparr>kmbMapping = m, kmbTarget = t, kmbByRun = [], kmbRaw = [], kmbDeclared = [], kmbProb = None\<rparr>"

definition kubeMemberOf :: "kubernetes_mapping \<Rightarrow> manifest_target \<Rightarrow> kube_instance list \<Rightarrow> kube_member" where
  "kubeMemberOf m t insts =
     (let mb0 = (if insts = [] then failMember ReasonInstancesMissing (newMember m (Some t)) else newMember m (Some t));
          mb1 = foldl addInstance mb0 insts in
      if length (kmbByRun mb1) > 1 \<or> length (kmbDeclared mb1) > 1 then failMember ReasonMixedReferences mb1 else mb1)"

definition kubeMembers :: "container list \<Rightarrow> kubernetes_mapping list \<Rightarrow> kube_member list" where
  "kubeMembers cs ms =
     (let bw = kubeByWorkload ms in
      List.map_filter (\<lambda>m. if map_of bw (kmWorkload m) \<noteq> Some m then None
        else map_option (\<lambda>t. kubeMemberOf m t (instancesOf cs (kmWorkload m))) (manifestTarget m)) ms)"

subsection \<open>Units\<close>

text \<open>The members with one of the references they run, in the order of the code's loop.\<close>

definition memberRuns :: "kube_member list \<Rightarrow> (kube_member \<times> string) list" where
  "memberRuns mbs = concat (map (\<lambda>mb. map (Pair mb) (mkeys (kmbByRun mb))) mbs)"

definition kubeGroupKey :: "kube_member \<times> string \<Rightarrow> string" where
  "kubeGroupKey x = kubeFileKey (kmbMapping (fst x)) @ ''|'' @ snd x"

definition joinGroup :: "(string \<times> kube_member list) option \<Rightarrow> kube_member \<times> string \<Rightarrow> string \<times> kube_member list" where
  "joinGroup g x = (case g of None \<Rightarrow> (snd x, [fst x]) | Some (rn, mbs) \<Rightarrow> (rn, mbs @ [fst x]))"

definition kubeGroupStep :: "(string, string \<times> kube_member list) gmap \<Rightarrow> kube_member \<times> string \<Rightarrow> (string, string \<times> kube_member list) gmap" where
  "kubeGroupStep gs x = mput (kubeGroupKey x) (joinGroup (map_of gs (kubeGroupKey x)) x) gs"

definition lessText :: "string \<Rightarrow> string \<Rightarrow> string" where
  "lessText cur s = (if s \<noteq> '''' \<and> (cur = '''' \<or> s < cur) then s else cur)"

definition memberWorkload :: "kube_member \<Rightarrow> string" where
  "memberWorkload mb = kmWorkload (kmbMapping mb)"

definition memberLocation :: "kube_member \<Rightarrow> string" where
  "memberLocation mb = (case kmbTarget mb of Some t \<Rightarrow> ManifestTarget_Location t | None \<Rightarrow> '''')"

text \<open>Service, workload and item key of every instance that runs a reference.\<close>

definition instanceNotes :: "string \<Rightarrow> kube_member list \<Rightarrow> (string \<times> string \<times> string) list" where
  "instanceNotes rn mbs =
     concat (map (\<lambda>mb. map (\<lambda>n. (memberWorkload mb, memberWorkload mb, knItemKey n)) (mget [] (kmbByRun mb) rn)) mbs)"

definition firstProblem :: "kube_member list \<Rightarrow> string option" where
  "firstProblem mbs = (case find (\<lambda>mb. kmbProb mb \<noteq> None) mbs of Some mb \<Rightarrow> kmbProb mb | None \<Rightarrow> None)"

definition kubeUnitOf :: "plan \<Rightarrow> (string, kubernetes_mapping) gmap \<Rightarrow> string \<Rightarrow> string \<Rightarrow> kube_member list \<Rightarrow> plan_unit option" where
  "kubeUnitOf p bw key rn mbs =
     (let first = kmbMapping (hd mbs); st = noted p (instanceNotes rn mbs);
          services = sort (map memberWorkload mbs);
          location = foldl (\<lambda>loc mb. mput (memberWorkload mb) (memberLocation mb) loc) [] mbs;
          items = sortBy (lessItem p) (uiItems st);
          kube = \<lparr>kbTargets = sortBy (\<lambda>a b. ManifestTarget_Workload a < ManifestTarget_Workload b) (List.map_filter kmbTarget mbs),
                  kbDeclared = foldl (\<lambda>cur mb. lessText cur (mget '''' (kmbRaw mb) rn)) '''' mbs,
                  kbFile = kubeFileKey first, kbKustomize = None\<rparr>;
          u = (newUnit key (kmRepository first) (kmBaseBranch first) (kmPath first)
                 (foldl (\<lambda>cur n. lessText cur (knRunning n)) '''' (concat (map (\<lambda>mb. mget [] (kmbByRun mb) rn) mbs))) rn (Some kube))
              \<lparr>cuServices := services, cuWorkloads := services, cuLocations := sort (map (mget '''' location) services), upSvcItems := uiSvcItems st,
               upItems := items, upOrder := keyIdx p (hd items), upLocation := location,
               upAlso := alsoRunning p (\<lambda>s. svWorkload s \<noteq> '''' \<and> mhas bw (svWorkload s)) items\<rparr> in
      if \<not> uiRelevant st then None
      else Some (case firstProblem mbs of
          Some reason \<Rightarrow> u\<lparr>cuManual := Some reason\<rparr>
        | None \<Rightarrow> if uiMissing st \<noteq> [] then u\<lparr>cuManual := Some ReasonInstancesMissing\<rparr> else checkAdopted p u))"

definition unitFile :: "plan_unit \<Rightarrow> string" where
  "unitFile u = (case cuKube u of Some kb \<Rightarrow> kbFile kb | None \<Rightarrow> '''')"

text \<open>\<open>holdBackFiles\<close>: one file, with its members.\<close>

definition holdBackFile :: "kube_member list \<Rightarrow> plan_unit list \<Rightarrow> string \<Rightarrow> plan_unit list" where
  "holdBackFile mbs units file =
     (let reason = (case firstProblem mbs of
          Some r \<Rightarrow> Some r
        | None \<Rightarrow> (case find (\<lambda>u. unitFile u = file \<and> cuManual u \<noteq> None) units of Some u \<Rightarrow> cuManual u | None \<Rightarrow> None)) in
      case reason of
        None \<Rightarrow> units
      | Some r \<Rightarrow> map (\<lambda>u. if unitFile u = file then u\<lparr>cuManual := Some r\<rparr> else u) units)"

definition holdBackFiles :: "(string \<Rightarrow> kube_member list) \<Rightarrow> string list \<Rightarrow> plan_unit list \<Rightarrow> plan_unit list" where
  "holdBackFiles byFile files units = foldl (\<lambda>us file. holdBackFile (byFile file) us file) units files"

definition buildKubernetesUnits :: "plan \<Rightarrow> container list \<Rightarrow> kubernetes_mapping list \<Rightarrow> plan_unit list" where
  "buildKubernetesUnits p cs ms =
     (let mbs = kubeMembers cs ms; fileOf = (\<lambda>mb. kubeFileKey (kmbMapping mb));
          units = List.map_filter (\<lambda>(key, rn, gmbs). kubeUnitOf p (kubeByWorkload ms) key rn gmbs) (foldl kubeGroupStep [] (memberRuns mbs)) in
      sortBy lessUnit (holdBackFiles (\<lambda>file. filter (\<lambda>mb. fileOf mb = file) mbs) (foldl appendNew [] (map fileOf mbs)) units))"

subsection \<open>Members and their instances\<close>

lemma failMember_fields [simp]:
  "kmbMapping (failMember r mb) = kmbMapping mb" "kmbTarget (failMember r mb) = kmbTarget mb" "kmbByRun (failMember r mb) = kmbByRun mb"
  "kmbRaw (failMember r mb) = kmbRaw mb" "kmbDeclared (failMember r mb) = kmbDeclared mb" "kmbProb (failMember r mb) \<noteq> None"
  by (simp_all add: failMember_def)

lemma addInstance_fields [simp]:
  "kmbMapping (addInstance mb n) = kmbMapping mb" "kmbTarget (addInstance mb n) = kmbTarget mb"
  "kmbProb (addInstance mb n) = None \<longleftrightarrow> kmbProb mb = None \<and> instanceProblem n = None"
  by (auto simp: addInstance_def Let_def split: option.splits)

lemma addInstance_byRun:
  "map_of (kmbByRun (addInstance mb n)) r =
     (if knRunning n \<noteq> '''' \<and> normalizedRef (knRunning n) = r then Some (mget [] (kmbByRun mb) r @ [n]) else map_of (kmbByRun mb) r)"
  by (auto simp: addInstance_def Let_def split: option.splits)

lemma addInstances_fields [simp]:
  "kmbMapping (foldl addInstance mb ns) = kmbMapping mb" "kmbTarget (foldl addInstance mb ns) = kmbTarget mb"
  "kmbProb (foldl addInstance mb ns) = None \<longleftrightarrow> kmbProb mb = None \<and> (\<forall>n \<in> set ns. instanceProblem n = None)"
  by (induction ns arbitrary: mb) auto

text \<open>The instances that run a reference.\<close>

definition running :: "string \<Rightarrow> kube_instance list \<Rightarrow> kube_instance list" where
  "running r ns = filter (\<lambda>n. knRunning n \<noteq> '''' \<and> normalizedRef (knRunning n) = r) ns"

lemma addInstances_byRun:
  "kmbByRun mb = [] \<Longrightarrow> map_of (kmbByRun (foldl addInstance mb ns)) r = (if running r ns = [] then None else Some (running r ns))"
proof (induction ns rule: rev_induct)
  case (snoc n ns)
  then show ?case by (auto simp: addInstance_byRun running_def mget_def)
qed (simp add: running_def)

lemma kubeMemberOf_fields [simp]:
  "kmbMapping (kubeMemberOf m t ns) = m" "kmbTarget (kubeMemberOf m t ns) = Some t"
  "map_of (kmbByRun (kubeMemberOf m t ns)) r = (if running r ns = [] then None else Some (running r ns))"
  by (auto simp: kubeMemberOf_def Let_def newMember_def addInstances_byRun)

lemma kubeMemberOf_sound:
  assumes "kmbProb (kubeMemberOf m t ns) = None"
  shows "ns \<noteq> [] \<and> (\<forall>n \<in> set ns. instanceProblem n = None)"
  using assms by (auto simp: kubeMemberOf_def Let_def split: if_splits)

text \<open>The mapping that counts for a workload, with a target.\<close>

definition mappedTo :: "kubernetes_mapping list \<Rightarrow> kubernetes_mapping \<Rightarrow> manifest_target \<Rightarrow> bool" where
  "mappedTo ms m t \<longleftrightarrow> m \<in> set ms \<and> map_of (kubeByWorkload ms) (kmWorkload m) = Some m \<and> manifestTarget m = Some t"

lemma set_kubeMembers: "mb \<in> set (kubeMembers cs ms) \<longleftrightarrow> (\<exists>m t. mappedTo ms m t \<and> mb = kubeMemberOf m t (instancesOf cs (kmWorkload m)))"
proof -
  have "mb \<in> set (kubeMembers cs ms) \<longleftrightarrow> (\<exists>m \<in> set ms. map_of (kubeByWorkload ms) (kmWorkload m) = Some m
      \<and> map_option (\<lambda>t. kubeMemberOf m t (instancesOf cs (kmWorkload m))) (manifestTarget m) = Some mb)"
    by (auto simp: kubeMembers_def Let_def List.map_filter_def image_iff)
  then show ?thesis by (auto simp: mappedTo_def)
qed

lemma set_instancesOf: "n \<in> set (instancesOf cs w) \<longleftrightarrow> (\<exists>c \<in> set cs. \<exists>d. ctDeclared c = Some d \<and> WorkloadKey c = w \<and> n = instanceOf c d)"
  by (fastforce simp: instancesOf_def List.map_filter_def image_iff split: option.splits if_splits)

subsection \<open>Units of one file hold together\<close>

lemma holdBack_keeps [simp]:
  "unitFile (u\<lparr>cuManual := r\<rparr>) = unitFile u" "unitFile (checkAdopted p u) = unitFile u"
  by (simp_all add: unitFile_def)

lemma holdBackFile_other: "unitFile u \<noteq> f \<Longrightarrow> u \<in> set (holdBackFile mbs us f) \<longleftrightarrow> u \<in> set us"
  by (auto simp: holdBackFile_def Let_def split: option.splits)

lemma holdBackFile_this:
  assumes "u \<in> set (holdBackFile mbs us f)" "unitFile u = f" "cuManual u = None"
  shows "holdBackFile mbs us f = us \<and> firstProblem mbs = None \<and> (\<forall>v \<in> set us. unitFile v = f \<longrightarrow> cuManual v = None)"
proof -
  have held: False if "holdBackFile mbs us f = map (\<lambda>u. if unitFile u = f then u\<lparr>cuManual := Some r\<rparr> else u) us" for r
  proof -
    from assms(1) that obtain v where v: "v \<in> set us" "u = (if unitFile v = f then v\<lparr>cuManual := Some r\<rparr> else v)" by auto
    show False
    proof (cases "unitFile v = f")
      case True
      then show False using v(2) assms(3) by simp
    next
      case False
      then show False using v(2) assms(2) by simp
    qed
  qed
  have first: "firstProblem mbs = None"
  proof (cases "firstProblem mbs")
    case (Some r)
    then show ?thesis using held [of r] by (simp add: holdBackFile_def)
  qed simp
  have none: "find (\<lambda>u. unitFile u = f \<and> cuManual u \<noteq> None) us = None"
  proof (cases "find (\<lambda>u. unitFile u = f \<and> cuManual u \<noteq> None) us")
    case (Some v)
    then obtain r where "cuManual v = Some r" by (auto simp: find_Some_iff)
    then show ?thesis using held [of r] Some first by (simp add: holdBackFile_def)
  qed simp
  then have "holdBackFile mbs us f = us" using first by (simp add: holdBackFile_def)
  then show ?thesis using first none by (auto simp: find_None_iff)
qed

lemma holdBackFiles_sound:
  assumes "u \<in> set (holdBackFiles byFile files units)" "cuManual u = None"
  shows "u \<in> set units \<and> (unitFile u \<in> set files \<longrightarrow> firstProblem (byFile (unitFile u)) = None
     \<and> (\<forall>v \<in> set (holdBackFiles byFile files units). unitFile v = unitFile u \<longrightarrow> cuManual v = None))"
  using assms(1) unfolding holdBackFiles_def
proof (induction files rule: rev_induct)
  case (snoc f files)
  let ?us = "foldl (\<lambda>us f. holdBackFile (byFile f) us f) units files"
  show ?case
  proof (cases "unitFile u = f")
    case True
    then show ?thesis using snoc holdBackFile_this [of u "byFile f" ?us f] assms(2) by auto
  next
    case False
    then show ?thesis using snoc by (auto simp: holdBackFile_other)
  qed
qed simp

lemma firstProblem_None: "firstProblem mbs = None \<longleftrightarrow> (\<forall>mb \<in> set mbs. kmbProb mb = None)"
  by (auto simp: firstProblem_def find_None_iff find_Some_iff split: option.splits)

subsection \<open>The units of the groups\<close>

interpretation kube_groups: grouping "\<lambda>_. True" kubeGroupKey joinGroup kubeGroupStep
  by unfold_locales (simp_all add: kubeGroupStep_def)

lemma joined_runs: "xs \<noteq> [] \<Longrightarrow> foldl (\<lambda>v x. Some (joinGroup v x)) None xs = Some (snd (hd xs), map fst xs)"
proof (induction xs rule: rev_induct)
  case (snoc x xs)
  then show ?case by (cases "xs = []") (auto simp: joinGroup_def)
qed simp

lemma kube_group:
  "map_of (foldl kubeGroupStep [] xs) key = Some (rn, mbs) \<longleftrightarrow>
     (let g = filter (\<lambda>x. kubeGroupKey x = key) xs in g \<noteq> [] \<and> rn = snd (hd g) \<and> mbs = map fst g)"
proof (cases "filter (\<lambda>x. kubeGroupKey x = key) xs = []")
  case True
  then show ?thesis by (simp add: kube_groups.lookup_loop)
next
  case False
  then show ?thesis using joined_runs [OF False] by (auto simp: kube_groups.lookup_loop Let_def)
qed

lemma set_memberRuns: "x \<in> set (memberRuns mbs) \<longleftrightarrow> fst x \<in> set mbs \<and> mhas (kmbByRun (fst x)) (snd x)"
  by (cases x) (force simp: memberRuns_def mhas_def)

lemma kubeUnitOf_fields:
  assumes "kubeUnitOf p bw key rn mbs = Some v"
  shows "cuKey v = key" "upNormRef v = rn" "unitFile v = kubeFileKey (kmbMapping (hd mbs))" "set (cuServices v) = memberWorkload ` set mbs"
    "cuWorkloads v = cuServices v" "upSvcItems v = uiSvcItems (noted p (instanceNotes rn mbs))"
    "set (upItems v) = set (uiItems (noted p (instanceNotes rn mbs)))"
  using assms by (auto simp: kubeUnitOf_def Let_def unitFile_def newUnit_def split: if_splits option.splits)

lemma kubeUnitOf_whole:
  assumes "kubeUnitOf p bw key rn mbs = Some v" "cuManual v = None"
  shows "firstProblem mbs = None \<and> uiMissing (noted p (instanceNotes rn mbs)) = []
     \<and> (\<exists>c. cuCandidate v = Some c \<and> (\<forall>i \<in> set (upItems v). adoptedAs (itemAt p i) c))"
proof -
  let ?st = "noted p (instanceNotes rn mbs)"
  obtain u where u: "v = checkAdopted p u" "upItems u = sortBy (lessItem p) (uiItems ?st)"
    and ok: "firstProblem mbs = None" "uiMissing ?st = []" "uiRelevant ?st"
    using assms by (auto simp: kubeUnitOf_def Let_def newUnit_def split: if_splits option.splits)
  have "uiItems ?st \<noteq> []" using ok(3) noted_all [of p "instanceNotes rn mbs"] noted_relevant [of p "instanceNotes rn mbs"] by force
  then have "upItems u \<noteq> []" by (metis u(2) length_0_conv length_sortBy)
  then show ?thesis using checkAdopted_adopted [of u p] u assms(2) ok by auto
qed

abbreviation fileKeyOf :: "kube_member \<Rightarrow> string" where "fileKeyOf mb \<equiv> kubeFileKey (kmbMapping mb)"

lemma kube_unit:
  assumes "u \<in> set (buildKubernetesUnits p cs ms)" "cuManual u = None"
  obtains g where "g = filter (\<lambda>x. kubeGroupKey x = cuKey u) (memberRuns (kubeMembers cs ms))" "g \<noteq> []"
    "kubeUnitOf p (kubeByWorkload ms) (cuKey u) (upNormRef u) (map fst g) = Some u"
    "cuKey u = unitFile u @ ''|'' @ upNormRef u" "\<And>mb. mb \<in> set (kubeMembers cs ms) \<Longrightarrow> fileKeyOf mb = unitFile u \<Longrightarrow> kmbProb mb = None"
    "\<And>v. v \<in> set (buildKubernetesUnits p cs ms) \<Longrightarrow> unitFile v = unitFile u \<Longrightarrow> cuManual v = None"
proof -
  let ?mbs = "kubeMembers cs ms"
  let ?groups = "foldl kubeGroupStep [] (memberRuns ?mbs)"
  let ?files = "foldl appendNew [] (map fileKeyOf ?mbs)"
  let ?byFile = "\<lambda>f. filter (\<lambda>mb. fileKeyOf mb = f) ?mbs"
  let ?units = "List.map_filter (\<lambda>(key, rn, gmbs). kubeUnitOf p (kubeByWorkload ms) key rn gmbs) ?groups"
  have all: "set (buildKubernetesUnits p cs ms) = set (holdBackFiles ?byFile ?files ?units)"
    by (simp add: buildKubernetesUnits_def Let_def)
  note sound = holdBackFiles_sound [OF _ assms(2), of ?byFile ?files ?units]
  from sound assms(1) all obtain key rn mbs where e: "(key, rn, mbs) \<in> set ?groups" "kubeUnitOf p (kubeByWorkload ms) key rn mbs = Some u"
    by (auto simp: List.map_filter_def)
  have "map_ok ?groups" by (rule kube_groups.loop_ok) simp
  then have "map_of ?groups key = Some (rn, mbs)" using e(1) gm.entries_iff by fastforce
  note g = this [unfolded kube_group Let_def]
  note f = kubeUnitOf_fields [OF e(2)]
  define g where "g = filter (\<lambda>x. kubeGroupKey x = cuKey u) (memberRuns ?mbs)"
  have g': "g \<noteq> []" "upNormRef u = snd (hd g)" "mbs = map fst g" using g f by (auto simp: g_def)
  then have hd: "hd g \<in> set (memberRuns ?mbs)" "kubeGroupKey (hd g) = cuKey u" using hd_in_set [of g] by (auto simp: g_def)
  have "unitFile u = fileKeyOf (fst (hd g))" using f(3) g' by (simp add: hd_map)
  then have fl: "cuKey u = unitFile u @ ''|'' @ upNormRef u" "unitFile u \<in> set ?files"
    using hd g'(2) by (auto simp: kubeGroupKey_def set_memberRuns set_foldl_new)
  show ?thesis
  proof (rule that [OF g_def g'(1) _ fl(1)])
    show "kubeUnitOf p (kubeByWorkload ms) (cuKey u) (upNormRef u) (map fst g) = Some u" using e(2) f g' by simp
    show "kmbProb mb = None" if "mb \<in> set ?mbs" "fileKeyOf mb = unitFile u" for mb
      using sound assms(1) fl(2) that by (auto simp: all firstProblem_None)
    show "cuManual v = None" if "v \<in> set (buildKubernetesUnits p cs ms)" "unitFile v = unitFile u" for v
      using sound assms(1) fl(2) that by (auto simp: all)
  qed
qed

text \<open>A running container that a mapping of the file names.\<close>

definition instanceIn :: "container list \<Rightarrow> kubernetes_mapping \<Rightarrow> container \<Rightarrow> declared \<Rightarrow> bool" where
  "instanceIn cs m c d \<longleftrightarrow> c \<in> set cs \<and> ctDeclared c = Some d \<and> WorkloadKey c = kmWorkload m"

abbreviation theMemberOf :: "container list \<Rightarrow> kubernetes_mapping \<Rightarrow> manifest_target \<Rightarrow> kube_member" where
  "theMemberOf cs m t \<equiv> kubeMemberOf m t (instancesOf cs (kmWorkload m))"

lemma instanceIn_iff: "instanceIn cs m c d \<Longrightarrow> instanceOf c d \<in> set (instancesOf cs (kmWorkload m))"
  by (auto simp: instanceIn_def set_instancesOf)

lemma kube_file_sound:
  assumes "u \<in> set (buildKubernetesUnits p cs ms)" "cuManual u = None" "mappedTo ms m t" "kubeFileKey m = unitFile u"
  shows "(\<exists>c d. instanceIn cs m c d) \<and>
     (\<forall>c d. instanceIn cs m c d \<longrightarrow> riRef (ctImage c) \<noteq> '''' \<and> deRef d \<noteq> '''' \<and> sameReference (deRef d) (riRef (ctImage c)))"
proof -
  have "theMemberOf cs m t \<in> set (kubeMembers cs ms)" using assms(3) by (auto simp: set_kubeMembers)
  then have "kmbProb (theMemberOf cs m t) = None" using kube_unit [OF assms(1,2)] assms(4) by (metis kubeMemberOf_fields(1))
  note ok = kubeMemberOf_sound [OF this]
  from ok obtain n where "n \<in> set (instancesOf cs (kmWorkload m))" by (cases "instancesOf cs (kmWorkload m)") auto
  then have ex: "\<exists>c d. instanceIn cs m c d" by (auto simp: set_instancesOf instanceIn_def)
  have "instanceProblem (instanceOf c d) = None" if "instanceIn cs m c d" for c d using ok instanceIn_iff [OF that] by blast
  then show ?thesis using ex by (fastforce simp: instanceProblem_def instanceOf_def split: if_splits)
qed

lemma instance_noted:
  assumes "instanceIn cs m c d" "riRef (ctImage c) \<noteq> ''''" "theMemberOf cs m t \<in> set mbs"
  shows "(kmWorkload m, kmWorkload m, itemKeyOf (ctImage c)) \<in> set (instanceNotes (normalizedRef (riRef (ctImage c))) mbs)"
proof -
  let ?r = "normalizedRef (riRef (ctImage c))" and ?n = "instanceOf c d" and ?ns = "instancesOf cs (kmWorkload m)"
  have n: "?n \<in> set (running ?r ?ns)" using instanceIn_iff [OF assms(1)] assms(2) by (simp add: running_def instanceOf_def)
  then have "mget [] (kmbByRun (theMemberOf cs m t)) ?r = running ?r ?ns" by (cases "running ?r ?ns = []") (auto simp: mget_def)
  moreover have "knItemKey ?n = itemKeyOf (ctImage c)" using assms(2) by (simp add: instanceOf_def)
  ultimately show ?thesis using n assms(3) by (auto simp: instanceNotes_def memberWorkload_def image_iff intro!: bexI [of _ "theMemberOf cs m t"] bexI [of _ ?n])
qed

lemma instance_runs:
  assumes "instanceIn cs m c d" "riRef (ctImage c) \<noteq> ''''" "mappedTo ms m t"
  shows "(theMemberOf cs m t, normalizedRef (riRef (ctImage c))) \<in> set (memberRuns (kubeMembers cs ms))"
proof -
  have "instanceOf c d \<in> set (running (normalizedRef (riRef (ctImage c))) (instancesOf cs (kmWorkload m)))"
    using instanceIn_iff [OF assms(1)] assms(2) by (simp add: running_def instanceOf_def)
  then have "running (normalizedRef (riRef (ctImage c))) (instancesOf cs (kmWorkload m)) \<noteq> []" by auto
  then show ?thesis using assms(3) by (auto simp: set_memberRuns set_kubeMembers mhas_def)
qed

lemma kube_instance_adopted:
  assumes u: "u \<in> set (buildKubernetesUnits p cs ms)" "cuManual u = None" and m: "mappedTo ms m t" "kubeFileKey m = unitFile u"
    and c: "instanceIn cs m c d" "normalizedRef (riRef (ctImage c)) = upNormRef u"
  shows "kmWorkload m \<in> set (cuServices u)
     \<and> (\<exists>i cand. itemIdx p (itemKeyOf (ctImage c)) = Some i \<and> cuCandidate u = Some cand \<and> adoptedAs (itemAt p i) cand)"
proof -
  obtain g where g: "g = filter (\<lambda>x. kubeGroupKey x = cuKey u) (memberRuns (kubeMembers cs ms))"
    and unit: "kubeUnitOf p (kubeByWorkload ms) (cuKey u) (upNormRef u) (map fst g) = Some u" and key: "cuKey u = unitFile u @ ''|'' @ upNormRef u"
    by (rule kube_unit [OF u]) blast
  have ref: "riRef (ctImage c) \<noteq> ''''" using kube_file_sound [OF u m] c(1) by blast
  have "(theMemberOf cs m t, upNormRef u) \<in> set g" using instance_runs [OF c(1) ref m(1)] c(2) m(2) key by (simp add: g kubeGroupKey_def)
  then have mem: "theMemberOf cs m t \<in> set (map fst g)" by force
  note note1 = instance_noted [OF c(1) ref mem, unfolded c(2)]
  note whole = kubeUnitOf_whole [OF unit u(2)]
  obtain i where i: "itemIdx p (itemKeyOf (ctImage c)) = Some i"
    using whole note1 noted_missing [of p "instanceNotes (upNormRef u) (map fst g)"] by fastforce
  have "i \<in> idxOf p (instanceNotes (upNormRef u) (map fst g)) (kmWorkload m)" using note1 i by (auto simp: idxOf_def)
  then have "i \<in> set (upItems u)" using kubeUnitOf_fields(7) [OF unit] noted_all [of p "instanceNotes (upNormRef u) (map fst g)"] by auto
  moreover have "kmWorkload m \<in> set (cuServices u)"
    unfolding kubeUnitOf_fields(4) [OF unit] using mem by (force simp: memberWorkload_def)
  ultimately show ?thesis using whole i by blast
qed

subsection \<open>A container with a candidate has a unit\<close>

lemma holdBackFile_in: "u\<lparr>cuManual := r\<rparr> \<in> set us \<Longrightarrow> \<exists>r. u\<lparr>cuManual := r\<rparr> \<in> set (holdBackFile mbs us f)"
proof -
  assume u: "u\<lparr>cuManual := r\<rparr> \<in> set us"
  have "\<exists>r. u\<lparr>cuManual := r\<rparr> \<in> set (map (\<lambda>u. if unitFile u = f then u\<lparr>cuManual := Some q\<rparr> else u) us)" for q
    using imageI [OF u, of "\<lambda>u. if unitFile u = f then u\<lparr>cuManual := Some q\<rparr> else u"] by (cases "unitFile u = f") auto
  then show ?thesis using u by (auto simp: holdBackFile_def Let_def split: option.splits)
qed

lemma holdBackFiles_in: "u \<in> set units \<Longrightarrow> \<exists>r. u\<lparr>cuManual := r\<rparr> \<in> set (holdBackFiles byFile files units)"
  unfolding holdBackFiles_def
proof (induction files rule: rev_induct)
  case Nil
  then show ?case by (auto intro: exI [of _ "cuManual u"])
next
  case (snoc f files)
  then show ?case using holdBackFile_in by fastforce
qed

lemma runs_plain:
  assumes "\<And>c. c \<in> set cs \<Longrightarrow> CHR ''|'' \<notin> set (normalizedRef (riRef (ctImage c)))" "x \<in> set (memberRuns (kubeMembers cs ms))"
  shows "CHR ''|'' \<notin> set (snd x)"
proof -
  obtain m t where x: "fst x = theMemberOf cs m t" "mhas (kmbByRun (fst x)) (snd x)" using assms(2) by (auto simp: set_memberRuns set_kubeMembers)
  then have "running (snd x) (instancesOf cs (kmWorkload m)) \<noteq> []" by (auto simp: mhas_def split: if_splits)
  then obtain n where "n \<in> set (running (snd x) (instancesOf cs (kmWorkload m)))" by (cases "running (snd x) (instancesOf cs (kmWorkload m))") auto
  then obtain c where "c \<in> set cs" "normalizedRef (riRef (ctImage c)) = snd x" by (auto simp: running_def set_instancesOf instanceOf_def)
  then show ?thesis using assms(1) by metis
qed

lemma groupKey_inj:
  assumes "kubeGroupKey x = f @ ''|'' @ r" "CHR ''|'' \<notin> set (snd x)" "CHR ''|'' \<notin> set r"
  shows "fileKeyOf (fst x) = f \<and> snd x = r"
proof -
  have "rev (snd x) @ CHR ''|'' # rev (fileKeyOf (fst x)) = rev r @ CHR ''|'' # rev f"
    using arg_cong [OF assms(1), of rev] by (simp add: kubeGroupKey_def)
  then show ?thesis using sep_eq assms(2,3) by (metis rev_rev_ident set_rev)
qed

lemma kube_unit_found:
  assumes c: "instanceIn cs m c d" "riRef (ctImage c) \<noteq> ''''" and m: "mappedTo ms m t"
    and i: "itemIdx p (itemKeyOf (ctImage c)) = Some i" "itCategory (itemAt p i) = CategoryPRCandidate"
    and plain: "\<And>c. c \<in> set cs \<Longrightarrow> CHR ''|'' \<notin> set (normalizedRef (riRef (ctImage c)))"
  shows "\<exists>u \<in> set (buildKubernetesUnits p cs ms). unitFile u = kubeFileKey m \<and> upNormRef u = normalizedRef (riRef (ctImage c)) \<and> kmWorkload m \<in> set (cuServices u)"
proof -
  let ?r = "normalizedRef (riRef (ctImage c))" and ?xs = "memberRuns (kubeMembers cs ms)"
  let ?key = "kubeFileKey m @ ''|'' @ ?r"
  define g where "g = filter (\<lambda>x. kubeGroupKey x = ?key) ?xs"
  have mem: "(theMemberOf cs m t, ?r) \<in> set g" using instance_runs [OF c m] by (simp add: g_def kubeGroupKey_def)
  have r: "CHR ''|'' \<notin> set ?r" using plain c(1) by (auto simp: instanceIn_def)
  have same: "fileKeyOf (fst x) = kubeFileKey m \<and> snd x = ?r" if "x \<in> set g" for x
    using that groupKey_inj [of x "kubeFileKey m" ?r] runs_plain [of cs x ms] plain r by (simp add: g_def)
  have "g \<noteq> []" using mem by auto
  then have hd: "snd (hd g) = ?r" "fileKeyOf (hd (map fst g)) = kubeFileKey m" using same [of "hd g"] by (simp_all add: hd_map)
  have "map_of (foldl kubeGroupStep [] ?xs) ?key = Some (?r, map fst g)"
    using \<open>g \<noteq> []\<close> hd by (simp add: kube_group Let_def g_def)
  then have e: "(?key, ?r, map fst g) \<in> set (foldl kubeGroupStep [] ?xs)" by (rule map_of_SomeD)
  have mem': "theMemberOf cs m t \<in> set (map fst g)" using mem by force
  then have "uiRelevant (noted p (instanceNotes ?r (map fst g)))"
    using instance_noted [OF c] i unfolding noted_relevant idxOf_def by blast
  then obtain v where v: "kubeUnitOf p (kubeByWorkload ms) ?key ?r (map fst g) = Some v" by (auto simp: kubeUnitOf_def Let_def)
  note f = kubeUnitOf_fields [OF v]
  have "v \<in> set (List.map_filter (\<lambda>(key, rn, gmbs). kubeUnitOf p (kubeByWorkload ms) key rn gmbs) (foldl kubeGroupStep [] ?xs))"
    using e v by (force simp: List.map_filter_def image_iff)
  from holdBackFiles_in [OF this] obtain q where "v\<lparr>cuManual := q\<rparr> \<in> set (buildKubernetesUnits p cs ms)"
    by (fastforce simp: buildKubernetesUnits_def Let_def)
  moreover have "kmWorkload m \<in> set (cuServices v)" unfolding f(4) using mem' by (force simp: memberWorkload_def)
  ultimately show ?thesis using f(2,3) hd(2) by (auto intro!: bexI [of _ "v\<lparr>cuManual := q\<rparr>"])
qed

subsection \<open>Properties\<close>

definition samplePod :: "string \<Rightarrow> string \<Rightarrow> container" where
  "samplePod name ref = \<lparr>ctID = name, ctName = ''ns/'' @ name @ ''-0/main'', ctWorkload = \<lparr>wlKind = WorkloadDeployment, wlGroup = ''ns'', wlName = name\<rparr>,
     ctImage = sampleRef ref, ctRuntimeExcluded = False, ctDeclared = Some \<lparr>deRef = ref, dePullPolicy = ''''\<rparr>, ctPodInit = None\<rparr>"

definition sampleManifest :: "string \<Rightarrow> kubernetes_mapping" where
  "sampleManifest name = \<lparr>kmWorkload = WorkloadKey (samplePod name ''''), kmRepository = ''o/r'', kmBaseBranch = ''main'', kmPath = ''app.yaml'',
     kmObjectKind = '''', kmObjectName = ''''\<rparr>"

abbreviation sampleManifests :: "kubernetes_mapping list" where
  "sampleManifests \<equiv> [sampleManifest ''a'', sampleManifest ''b'', sampleManifest ''c'']"

abbreviation samplePods :: "container list" where
  "samplePods \<equiv> [samplePod ''a'' ''app:1'', samplePod ''b'' ''app:1'', samplePod ''c'' ''other:1'']"

text \<open>
  C9. A manifest unit is whole, and so is its file. When a unit of a manifest file is not left to a person, no unit
  of that file is. Every container that a mapping of the file names has a running instance; every instance
  runs what its Pod spec declares; and every one that runs the unit's image is among its services and has a plan
  item adopted for the one tag and digest the unit moves to. So a file is never edited while a part of what it
  deploys is unknown, in a rollout or without a verified candidate.
\<close>

theorem kube_units_whole:
  assumes "u \<in> set (buildKubernetesUnits p cs ms)" "cuManual u = None" "mappedTo ms m t" "kubeFileKey m = unitFile u"
  shows "(\<forall>v \<in> set (buildKubernetesUnits p cs ms). unitFile v = unitFile u \<longrightarrow> cuManual v = None)
     \<and> (\<exists>c d. instanceIn cs m c d)
     \<and> (\<forall>c d. instanceIn cs m c d \<longrightarrow> riRef (ctImage c) \<noteq> '''' \<and> sameReference (deRef d) (riRef (ctImage c))
          \<and> (normalizedRef (riRef (ctImage c)) = upNormRef u \<longrightarrow> kmWorkload m \<in> set (cuServices u)
               \<and> (\<exists>i cand. itemIdx p (itemKeyOf (ctImage c)) = Some i \<and> cuCandidate u = Some cand \<and> adoptedAs (itemAt p i) cand)))"
  using kube_file_sound [OF assms] kube_instance_adopted [OF assms] kube_unit [OF assms(1,2)] by metis

lemma sample_kube_unit:
  "\<exists>u. buildKubernetesUnits samplePlan samplePods sampleManifests = [u] \<and> cuManual u = None \<and> unitFile u = kubeFileKey (sampleManifest ''b'')
     \<and> upNormRef u = normalizedRef ''app:1''"
proof -
  let ?us = "buildKubernetesUnits samplePlan samplePods sampleManifests"
  have "length ?us = 1" "cuManual (hd ?us) = None" "unitFile (hd ?us) = kubeFileKey (sampleManifest ''b'')" "upNormRef (hd ?us) = normalizedRef ''app:1''"
    by code_simp+
  then show ?thesis by (cases ?us) auto
qed

theorem kube_units_whole_witness:
  "\<exists>u cand. buildKubernetesUnits samplePlan samplePods sampleManifests = [u] \<and> cuManual u = None \<and> kmWorkload (sampleManifest ''b'') \<in> set (cuServices u)
     \<and> cuCandidate u = Some cand \<and> adoptedAs (itemAt samplePlan 0) cand"
proof -
  obtain u where u: "buildKubernetesUnits samplePlan samplePods sampleManifests = [u]" "cuManual u = None" "kubeFileKey (sampleManifest ''b'') = unitFile u"
      "upNormRef u = normalizedRef ''app:1''" using sample_kube_unit by auto
  have t: "mappedTo sampleManifests (sampleManifest ''b'') (the (manifestTarget (sampleManifest ''b'')))" by code_simp
  have "itemIdx samplePlan (itemKeyOf (sampleRef ''app:1'')) = Some 0" by code_simp
  then have i: "itemIdx samplePlan (itemKeyOf (ctImage (samplePod ''b'' ''app:1''))) = Some 0" "normalizedRef (riRef (ctImage (samplePod ''b'' ''app:1''))) = upNormRef u"
    using u(4) by (simp_all add: samplePod_def sampleRef_def)
  have "WorkloadKey (samplePod ''b'' ''app:1'') = kmWorkload (sampleManifest ''b'')" by code_simp
  then have "instanceIn samplePods (sampleManifest ''b'') (samplePod ''b'' ''app:1'') \<lparr>deRef = ''app:1'', dePullPolicy = ''''\<rparr>"
    by (simp add: instanceIn_def) (simp add: samplePod_def)
  moreover have "u \<in> set (buildKubernetesUnits samplePlan samplePods sampleManifests)" using u(1) by simp
  ultimately show ?thesis using kube_units_whole [OF _ u(2) t u(3)] u(1,2) i by (metis option.sel)
qed

end
