(* ===== verification/PR_Kust_Units.thy ===== *)
theory PR_Kust_Units
  imports PR_Kube_Units
begin

section \<open>Units of shared edit points\<close>

text \<open>
  \<open>internal/remediation/pr_kust_units.go\<close>: an images entry of a kustomization file, or an image key of a
  Helm values file, sets the image of a set of containers that the configuration fixes. A unit is one such
  entry; every listed container is looked at in every observed Pod of its workload, an ordinary init
  container through a running container of the set with the same image entity. A container that is not
  listed but declares the entry's value next to the listed ones stops the unit. The Pods are kept in one map
  from their identity, as \<open>byID\<close>, with the object they belong to; what the text of a pull request alone
  shows (\<open>mapped\<close>, \<open>viaInit\<close>, the management chains) is left out.

  The lemmas show that a unit that is not held back knows all of its running containers, and that no
  unlisted container next to them declares the value it edits.
\<close>

abbreviation ReasonUndeclaredAffectedWorkload :: string where "ReasonUndeclaredAffectedWorkload \<equiv> ''undeclared_affected_workload''"
abbreviation ReasonInitContainerUnverified :: string where "ReasonInitContainerUnverified \<equiv> ''init_container_unverified''"
abbreviation routeKustomize :: string where "routeKustomize \<equiv> ''kustomize''"
abbreviation SpecInit :: string where "SpecInit \<equiv> ''init''"
abbreviation OwnerHelm :: string where "OwnerHelm \<equiv> ''helm''"
abbreviation OwnerFlux :: string where "OwnerFlux \<equiv> ''flux''"
abbreviation ResourceIDFluxKustomization :: string where "ResourceIDFluxKustomization \<equiv> ''kustomizations.kustomize.toolkit.fluxcd.io''"

subsection \<open>Edit points\<close>

record kustomize_mapping =
  zmWorkload :: string
  zmRepository :: string
  zmBaseBranch :: string
  zmPath :: string
  zmImage :: string
  zmAffects :: "string list"

record helm_values_mapping =
  hmWorkload :: string
  hmRepository :: string
  hmBaseBranch :: string
  hmPath :: string
  hmKey :: string
  hmAffects :: "string list"

record shared_mapping =
  smRoute :: string
  smWorkload :: string
  smRepository :: string
  smBaseBranch :: string
  smPath :: string
  smItem :: string
  smAffects :: "string list"

definition KustomizeMapping_shared :: "kustomize_mapping \<Rightarrow> shared_mapping" where
  "KustomizeMapping_shared m =
     \<lparr>smRoute = routeKustomize, smWorkload = zmWorkload m, smRepository = zmRepository m, smBaseBranch = zmBaseBranch m,
      smPath = zmPath m, smItem = zmImage m, smAffects = zmAffects m\<rparr>"

definition HelmValuesMapping_shared :: "helm_values_mapping \<Rightarrow> shared_mapping" where
  "HelmValuesMapping_shared m =
     \<lparr>smRoute = routeHelmValues, smWorkload = hmWorkload m, smRepository = hmRepository m, smBaseBranch = hmBaseBranch m,
      smPath = hmPath m, smItem = hmKey m, smAffects = hmAffects m\<rparr>"

definition editKey :: "shared_mapping \<Rightarrow> string" where
  "editKey m = joinWith ''|'' [smRoute m, toLower (smRepository m), smBaseBranch m, smPath m, smItem m]"

definition fileKey :: "shared_mapping \<Rightarrow> string" where
  "fileKey m = joinWith ''|'' [smRoute m, toLower (smRepository m), smBaseBranch m, smPath m]"

definition KustomizeLocation :: "string \<Rightarrow> string" where
  "KustomizeLocation img = ''images['' @ img @ ''].newTag''"

definition sharedLoc :: "shared_mapping \<Rightarrow> string" where
  "sharedLoc m = (if smRoute m = routeHelmValues then smItem m else KustomizeLocation (smItem m))"

record edit_point =
  epKey :: string
  epFile :: string
  epFirst :: shared_mapping
  epMembers :: "string list"

definition joinPoint :: "edit_point option \<Rightarrow> shared_mapping \<Rightarrow> edit_point" where
  "joinPoint st m =
     (let ep = (case st of Some ep \<Rightarrow> ep | None \<Rightarrow> \<lparr>epKey = editKey m, epFile = fileKey m, epFirst = m, epMembers = []\<rparr>) in
      ep\<lparr>epMembers := epMembers ep @ smWorkload m # smAffects m\<rparr>)"

definition pointStep :: "(string, edit_point) gmap \<Rightarrow> shared_mapping \<Rightarrow> (string, edit_point) gmap" where
  "pointStep pts m = mput (editKey m) (joinPoint (map_of pts (editKey m)) m) pts"

definition editPointsOf :: "shared_mapping list \<Rightarrow> edit_point list" where
  "editPointsOf ms = map (\<lambda>(key, ep). ep\<lparr>epMembers := dedupeSorted (epMembers ep)\<rparr>) (foldl pointStep [] ms)"

subsection \<open>Pods\<close>

definition workloadParts :: "string \<Rightarrow> (string \<times> string \<times> string \<times> string) option" where
  "workloadParts key = (case splitOn (CHR ''/'') key of [k, ns, name, cont] \<Rightarrow> Some (k, ns, name, cont) | _ \<Rightarrow> None)"

definition podOf :: "container \<Rightarrow> string" where
  "podOf c = (case lastIndexByte (ctName c) (CHR ''/'') of None \<Rightarrow> '''' | Some i \<Rightarrow> take i (ctName c))"

definition workloadObject :: "string \<Rightarrow> string" where
  "workloadObject key = (case lastIndexByte key (CHR ''/'') of None \<Rightarrow> key | Some i \<Rightarrow> take i key)"

record kube_pod =
  kpId :: string
  kpRunning :: "container list"
  kpDesc :: "pod_init option"

definition hasPod :: "container \<Rightarrow> bool" where
  "hasPod c \<longleftrightarrow> ctDeclared c \<noteq> None \<and> workloadParts (WorkloadKey c) \<noteq> None \<and> \<not> hasPrefix (WorkloadKey c) ''container/''"

definition objectOf :: "container \<Rightarrow> string" where
  "objectOf c = workloadObject (WorkloadKey c)"

definition podID :: "container \<Rightarrow> string" where
  "podID c = objectOf c @ ''|'' @ podOf c"

definition joinPod :: "(string \<times> kube_pod) option \<Rightarrow> container \<Rightarrow> string \<times> kube_pod" where
  "joinPod st c =
     (let (object, p) = (case st of Some x \<Rightarrow> x | None \<Rightarrow> (objectOf c, \<lparr>kpId = podOf c, kpRunning = [], kpDesc = None\<rparr>)) in
      (object, p\<lparr>kpRunning := kpRunning p @ [c], kpDesc := (if kpDesc p = None then ctPodInit c else kpDesc p)\<rparr>))"

definition podStep :: "(string, string \<times> kube_pod) gmap \<Rightarrow> container \<Rightarrow> (string, string \<times> kube_pod) gmap" where
  "podStep byID c = (if hasPod c then mput (podID c) (joinPod (map_of byID (podID c)) c) byID else byID)"

definition podsByObject :: "container list \<Rightarrow> string \<Rightarrow> kube_pod list" where
  "podsByObject cs object =
     sortBy (\<lambda>a b. kpId a < kpId b) (map (\<lambda>(key, ob, p). p) (filter (\<lambda>(key, ob, p). ob = object) (foldl podStep [] cs)))"

definition specEntries :: "kube_pod \<Rightarrow> string \<Rightarrow> spec_container list" where
  "specEntries p name = (case kpDesc p of None \<Rightarrow> [] | Some desc \<Rightarrow> filter (\<lambda>sc. scName sc = name) (piSpec desc))"

definition initObservation :: "kube_pod \<Rightarrow> string \<Rightarrow> init_observation option" where
  "initObservation p name = (case kpDesc p of None \<Rightarrow> None | Some desc \<Rightarrow> find (\<lambda>ob. ioName ob = name) (piContainers desc))"

subsection \<open>Instances of the listed containers\<close>

definition verifyInitInstance :: "plan \<Rightarrow> kube_pod \<Rightarrow> init_observation option \<Rightarrow> string list \<Rightarrow> string + kube_instance" where
  "verifyInitInstance p pod obs members = (case obs of
       None \<Rightarrow> Inl ReasonInitContainerUnverified
     | Some ob \<Rightarrow>
         if \<not> ioHasStatus ob then Inl ReasonInitContainerUnverified
         else if deRef (ioDeclared ob) = '''' then Inl ReasonDeclaredRefUnavailable
         else if riRef (ioImage ob) = '''' then Inl ReasonInitContainerUnverified
         else if \<not> sameReference (deRef (ioDeclared ob)) (riRef (ioImage ob)) then Inl ReasonDeclaredRefMismatch
         else if \<not> snd (EntityKeyOf (ioImage ob)) then Inl ReasonInitContainerUnverified
         else (case find (\<lambda>c. WorkloadKey c \<in> set members \<and> snd (EntityKeyOf (ctImage c))
                  \<and> fst (EntityKeyOf (ctImage c)) = fst (EntityKeyOf (ioImage ob))) (kpRunning pod) of
             None \<Rightarrow> Inl ReasonInitContainerUnverified
           | Some sib \<Rightarrow>
               if \<not> sameReference (riRef (ctImage sib)) (riRef (ioImage ob)) then Inl ReasonInitContainerUnverified
               else if itemIdx p (itemKeyOf (ctImage sib)) = None then Inl ReasonInitContainerUnverified
               else Inr \<lparr>knDeclared = deRef (ioDeclared ob), knRunning = riRef (ioImage ob), knItemKey = itemKeyOf (ctImage sib)\<rparr>))"

text \<open>One Pod of a listed container: an instance, a problem, or neither where the container only waits.\<close>

definition podInstance :: "plan \<Rightarrow> string list \<Rightarrow> string \<Rightarrow> string \<Rightarrow> kube_pod \<Rightarrow> (string + kube_instance) option" where
  "podInstance p members w name pod = (case find (\<lambda>c. WorkloadKey c = w) (kpRunning pod) of
       Some c \<Rightarrow> Some (Inr (instanceOf c (case ctDeclared c of Some d \<Rightarrow> d | None \<Rightarrow> \<lparr>deRef = '''', dePullPolicy = ''''\<rparr>)))
     | None \<Rightarrow>
         (let obs = initObservation pod name in
          if kpDesc pod = None then Some (Inl ReasonInstancesMissing)
          else case specEntries pod name of
            [] \<Rightarrow> Some (Inl (if obs \<noteq> None then ReasonInitContainerUnverified else ReasonInstancesMissing))
          | [entry] \<Rightarrow> if scKind entry \<noteq> SpecInit then None else Some (verifyInitInstance p pod obs members)
          | _ \<Rightarrow> Some (Inl ReasonInitContainerUnverified)))"

definition instanceResults :: "plan \<Rightarrow> string list \<Rightarrow> (string \<Rightarrow> kube_pod list) \<Rightarrow> string \<Rightarrow> (string + kube_instance) list" where
  "instanceResults p members pods w = (case workloadParts w of
       None \<Rightarrow> [Inl ReasonInstancesMissing]
     | Some (k, ns, name, cont) \<Rightarrow> List.map_filter (podInstance p members w cont) (pods (workloadObject w)))"

definition kustomizeInstances :: "plan \<Rightarrow> string list \<Rightarrow> (string \<Rightarrow> kube_pod list) \<Rightarrow> string \<Rightarrow> kube_instance list \<times> string option" where
  "kustomizeInstances p members pods w =
     (let rs = instanceResults p members pods w; insts = List.map_filter (case_sum (\<lambda>_. None) Some) rs;
          probs = List.map_filter (case_sum Some (\<lambda>_. None)) rs in
      (insts, if probs \<noteq> [] then Some (hd probs) else if insts = [] then Some ReasonInstancesMissing else None))"

subsection \<open>Units\<close>

text \<open>The Helm releases and Flux Kustomizations that manage a workload.\<close>

definition ownerKey :: "chain_owner \<Rightarrow> string option" where
  "ownerKey ow =
     (if coKind ow = OwnerHelm then Some (''helm|'' @ coScope ow @ ''|'' @ coName ow)
      else if coKind ow = OwnerFlux \<and> coResourceID ow = ResourceIDFluxKustomization then Some (''flux-kustomization|'' @ coScope ow @ ''|'' @ coName ow)
      else None)"

definition ownersOf :: "plan \<Rightarrow> workload_chains list \<Rightarrow> string \<Rightarrow> string list" where
  "ownersOf p observed w =
     List.map_filter ownerKey (concat (concat (map wcChains
       (filter (\<lambda>m. wcWorkload m = w) (concat (map itManagement (plItems p)) @ observed)))))"

definition namespacesOf :: "string list \<Rightarrow> string list" where
  "namespacesOf members = List.map_filter (\<lambda>w. map_option (\<lambda>(k, ns, name, cont). ns) (workloadParts w)) members"

text \<open>The namespace of a container's Pod: its name up to the first slash.\<close>

definition podNamespace :: "container \<Rightarrow> string" where
  "podNamespace c = takeWhile (\<lambda>x. x \<noteq> CHR ''/'') (ctName c)"

definition affectedContainer :: "string list \<Rightarrow> (string \<Rightarrow> string list) \<Rightarrow> string \<Rightarrow> container \<Rightarrow> bool" where
  "affectedContainer members owners value c = (case ctDeclared c of
       None \<Rightarrow> False
     | Some d \<Rightarrow>
         (let wk = WorkloadKey c in
          wk \<noteq> '''' \<and> wk \<notin> set members \<and> deRef d \<noteq> '''' \<and> sameReference (deRef d) value
          \<and> (podNamespace c \<in> set (namespacesOf members) \<or> (\<exists>k \<in> set (owners wk). k \<in> set (concat (map owners members))))))"

definition affectedEntry :: "string list \<Rightarrow> string \<Rightarrow> string \<Rightarrow> spec_container \<Rightarrow> bool" where
  "affectedEntry members value object sc \<longleftrightarrow> object @ ''/'' @ scName sc \<notin> set members \<and> scRef sc \<noteq> '''' \<and> sameReference (scRef sc) value"

definition undeclaredAffected :: "string list \<Rightarrow> (string \<Rightarrow> string list) \<Rightarrow> container list \<Rightarrow> (string \<Rightarrow> kube_pod list) \<Rightarrow> string \<Rightarrow> bool" where
  "undeclaredAffected members owners cs pods value \<longleftrightarrow>
     list_ex (affectedContainer members owners value) cs
     \<or> list_ex (\<lambda>object. list_ex (\<lambda>pod. case kpDesc pod of None \<Rightarrow> False | Some desc \<Rightarrow> list_ex (affectedEntry members value object) (piSpec desc)) (pods object))
         (map workloadObject members)"

definition kustMember :: "edit_point \<Rightarrow> string \<Rightarrow> kube_instance list \<times> string option \<Rightarrow> kube_member" where
  "kustMember ep w r =
     (let m = \<lparr>kmWorkload = w, kmRepository = smRepository (epFirst ep), kmBaseBranch = smBaseBranch (epFirst ep), kmPath = smPath (epFirst ep),
               kmObjectKind = '''', kmObjectName = ''''\<rparr> in
      foldl addInstance ((newMember m None)\<lparr>kmbProb := snd r\<rparr>) (fst r))"

definition kustMembersOf :: "plan \<Rightarrow> (string \<Rightarrow> kube_pod list) \<Rightarrow> edit_point \<Rightarrow> kube_member list" where
  "kustMembersOf p pods ep = map (\<lambda>w. kustMember ep w (kustomizeInstances p (epMembers ep) pods w)) (epMembers ep)"

definition kustResults :: "plan \<Rightarrow> (string \<Rightarrow> kube_pod list) \<Rightarrow> edit_point \<Rightarrow> (string \<times> kube_instance list) list" where
  "kustResults p pods ep = map (\<lambda>w. (w, fst (kustomizeInstances p (epMembers ep) pods w))) (epMembers ep)"

definition kustRuns :: "kube_member list \<Rightarrow> string list" where
  "kustRuns mbs = dedupeSorted (concat (map (mkeys \<circ> kmbByRun) mbs))"

definition kustDeclaredRefs :: "kube_member list \<Rightarrow> string list" where
  "kustDeclaredRefs mbs = dedupeSorted (concat (map kmbDeclared mbs))"

text \<open>An instance without a running reference and without an item is the member's problem, not a missing item.\<close>

definition kustNotes :: "plan \<Rightarrow> (string \<times> kube_instance list) list \<Rightarrow> (string \<times> string \<times> string) list" where
  "kustNotes p results = concat (map (\<lambda>(w, insts). map (\<lambda>n. (w, w, knItemKey n))
     (filter (\<lambda>n. itemIdx p (knItemKey n) \<noteq> None \<or> knItemKey n \<noteq> '''' \<or> knRunning n \<noteq> '''') insts)) results)"

text \<open>The unit of an edit point before it is decided whether a person has to look at it.\<close>

definition kustUnit :: "plan \<Rightarrow> edit_point \<Rightarrow> string list \<Rightarrow> kube_instance list \<Rightarrow> unit_items \<Rightarrow> plan_unit" where
  "kustUnit p ep runs insts st =
     (let first = epFirst ep; members = epMembers ep; loc = sharedLoc first; items = sortBy (lessItem p) (uiItems st);
          runKey = (case runs of [] \<Rightarrow> ''none'' | r # _ \<Rightarrow> r);
          kube = \<lparr>kbTargets = [], kbDeclared = foldl (\<lambda>cur n. lessText cur (knDeclared n)) '''' insts, kbFile = epFile ep,
                  kbKustomize = Some \<lparr>kzRoute = smRoute first, kzItem = smItem first\<rparr>\<rparr> in
      (newUnit (epKey ep @ ''|'' @ runKey) (smRepository first) (smBaseBranch first) (smPath first)
         (foldl (\<lambda>cur n. lessText cur (knRunning n)) '''' insts) runKey (Some kube))
      \<lparr>cuServices := sort members, cuWorkloads := sort members, cuLocations := [loc], upSvcItems := uiSvcItems st, upItems := items,
       upOrder := keyIdx p (hd items), upLocation := map (\<lambda>w. (w, loc)) members,
       upAlso := alsoRunning p (\<lambda>s. svWorkload s \<noteq> '''' \<and> svWorkload s \<in> set members) items\<rparr>)"

definition kustDecide :: "plan \<Rightarrow> kube_member list \<Rightarrow> string list \<Rightarrow> plan_unit \<Rightarrow> plan_unit" where
  "kustDecide p mbs missing u = (case firstProblem mbs of
       Some reason \<Rightarrow> u\<lparr>cuManual := Some reason\<rparr>
     | None \<Rightarrow>
         if missing \<noteq> [] then u\<lparr>cuManual := Some ReasonInstancesMissing\<rparr>
         else if length (kustRuns mbs) > 1 \<or> length (kustDeclaredRefs mbs) > 1 then u\<lparr>cuManual := Some ReasonMixedReferences\<rparr>
         else checkAdopted p u)"

definition unitValue :: "plan_unit \<Rightarrow> string" where
  "unitValue u = (case cuKube u of Some kb \<Rightarrow> kbDeclared kb | None \<Rightarrow> '''')"

definition kustUnitOf :: "plan \<Rightarrow> container list \<Rightarrow> (string \<Rightarrow> kube_pod list) \<Rightarrow> (string \<Rightarrow> string list) \<Rightarrow> edit_point \<Rightarrow> plan_unit option" where
  "kustUnitOf p cs pods owners ep =
     (let mbs = kustMembersOf p pods ep; results = kustResults p pods ep; st = noted p (kustNotes p results);
          u = kustDecide p mbs (uiMissing st) (kustUnit p ep (kustRuns mbs) (concat (map snd results)) st) in
      if \<not> uiRelevant st then None
      else if cuManual u = None \<and> undeclaredAffected (epMembers ep) owners cs pods (unitValue u)
      then Some (u\<lparr>cuManual := Some ReasonUndeclaredAffectedWorkload\<rparr>) else Some u)"

definition buildKustomizeUnits :: "plan \<Rightarrow> container list \<Rightarrow> kustomize_mapping list \<Rightarrow> helm_values_mapping list \<Rightarrow> workload_chains list \<Rightarrow> plan_unit list" where
  "buildKustomizeUnits p cs kustomize helm management =
     (let eps = editPointsOf (map KustomizeMapping_shared kustomize @ map HelmValuesMapping_shared helm); pods = podsByObject cs;
          units = List.map_filter (kustUnitOf p cs pods (ownersOf p management)) eps in
      sortBy lessUnit (holdBackFiles (\<lambda>f. concat (map (kustMembersOf p pods) (filter (\<lambda>ep. epFile ep = f) eps))) (foldl appendNew [] (map epFile eps)) units))"

subsection \<open>Pods hold the running containers\<close>

interpretation pod_groups: grouping hasPod podID joinPod podStep
  by unfold_locales (simp_all add: podStep_def)

lemma joined_pods:
  "xs \<noteq> [] \<Longrightarrow> \<exists>pod. foldl (\<lambda>v c. Some (joinPod v c)) None xs = Some (objectOf (hd xs), pod) \<and> kpRunning pod = xs"
proof (induction xs rule: rev_induct)
  case (snoc c xs)
  then show ?case by (cases "xs = []") (auto simp: joinPod_def Let_def)
qed simp

text \<open>Names without a bar, and a container of a Pod listed once.\<close>

definition plainNames :: "container list \<Rightarrow> bool" where
  "plainNames cs \<longleftrightarrow> (\<forall>c \<in> set cs. CHR ''|'' \<notin> set (ctName c))
     \<and> (\<forall>c \<in> set cs. \<forall>c' \<in> set cs. WorkloadKey c = WorkloadKey c' \<longrightarrow> podOf c = podOf c' \<longrightarrow> c = c')"

lemma podOf_plain: "CHR ''|'' \<notin> set (ctName c) \<Longrightarrow> CHR ''|'' \<notin> set (podOf c)"
  by (auto simp: podOf_def dest: in_set_takeD split: option.splits)

lemma podID_inj:
  assumes "podID c = podID c'" "CHR ''|'' \<notin> set (ctName c)" "CHR ''|'' \<notin> set (ctName c')"
  shows "objectOf c = objectOf c' \<and> podOf c = podOf c'"
proof -
  have "rev (podOf c) @ CHR ''|'' # rev (objectOf c) = rev (podOf c') @ CHR ''|'' # rev (objectOf c')"
    using arg_cong [OF assms(1), of rev] by (simp add: podID_def)
  then show ?thesis using sep_eq podOf_plain [OF assms(2)] podOf_plain [OF assms(3)] by (metis rev_rev_ident set_rev)
qed

lemma pod_of_container:
  assumes "plainNames cs" "c \<in> set cs" "hasPod c"
  obtains pod where "pod \<in> set (podsByObject cs (objectOf c))" "find (\<lambda>c'. WorkloadKey c' = WorkloadKey c) (kpRunning pod) = Some c"
proof -
  define g where "g = filter (\<lambda>x. hasPod x \<and> podID x = podID c) cs"
  have c: "c \<in> set g" using assms by (simp add: g_def)
  then have "g \<noteq> []" by auto
  then obtain pod where "foldl (\<lambda>v c. Some (joinPod v c)) None g = Some (objectOf (hd g), pod)" and pod: "kpRunning pod = g"
    using joined_pods by blast
  then have "map_of (foldl podStep [] cs) (podID c) = Some (objectOf (hd g), pod)" by (simp add: pod_groups.lookup_loop g_def)
  then have e: "(podID c, objectOf (hd g), pod) \<in> set (foldl podStep [] cs)" by (rule map_of_SomeD)
  have same: "objectOf x = objectOf c \<and> podOf x = podOf c \<and> x \<in> set cs" if "x \<in> set g" for x
    using that podID_inj [of x c] assms(1,2) by (auto simp: g_def plainNames_def)
  then have "pod \<in> set (podsByObject cs (objectOf c))" using e hd_in_set [OF \<open>g \<noteq> []\<close>] by (force simp: podsByObject_def image_iff)
  moreover have "find (\<lambda>c'. WorkloadKey c' = WorkloadKey c) (kpRunning pod) = Some c"
  proof (cases "find (\<lambda>c'. WorkloadKey c' = WorkloadKey c) g")
    case None
    then show ?thesis using c by (auto simp: find_None_iff)
  next
    case (Some x)
    then have "x \<in> set g" "WorkloadKey x = WorkloadKey c" by (auto simp: find_Some_iff)
    then have "x = c" using same [of x] assms(1,2) by (simp add: plainNames_def)
    then show ?thesis using Some pod by simp
  qed
  ultimately show ?thesis by (rule that)
qed

subsection \<open>Members of an edit point\<close>

abbreviation membersResult :: "plan \<Rightarrow> container list \<Rightarrow> edit_point \<Rightarrow> string \<Rightarrow> kube_instance list \<times> string option" where
  "membersResult p cs ep w \<equiv> kustomizeInstances p (epMembers ep) (podsByObject cs) w"

lemma running_instance:
  assumes "plainNames cs" "c \<in> set cs" "hasPod c" "ctDeclared c = Some d"
  shows "instanceOf c d \<in> set (fst (membersResult p cs ep (WorkloadKey c)))"
proof -
  obtain pod where pod: "pod \<in> set (podsByObject cs (objectOf c))" "find (\<lambda>c'. WorkloadKey c' = WorkloadKey c) (kpRunning pod) = Some c"
    by (rule pod_of_container [OF assms(1-3)])
  obtain k ns name cont where parts: "workloadParts (WorkloadKey c) = Some (k, ns, name, cont)" using assms(3) by (auto simp: hasPod_def)
  have "podInstance p (epMembers ep) (WorkloadKey c) cont pod = Some (Inr (instanceOf c d))" using pod(2) assms(4) by (simp add: podInstance_def)
  then have "Inr (instanceOf c d) \<in> set (instanceResults p (epMembers ep) (podsByObject cs) (WorkloadKey c))"
    using pod(1) parts by (force simp: instanceResults_def List.map_filter_def objectOf_def image_iff)
  then show ?thesis by (force simp: kustomizeInstances_def Let_def List.map_filter_def image_iff)
qed

lemma kustMember_fields:
  "kmbProb (kustMember ep w r) = None \<longleftrightarrow> snd r = None \<and> (\<forall>n \<in> set (fst r). instanceProblem n = None)"
  "map_of (kmbByRun (kustMember ep w r)) ref = (if running ref (fst r) = [] then None else Some (running ref (fst r)))"
  by (auto simp: kustMember_def Let_def newMember_def addInstances_byRun)

lemma kustomizeInstances_sound: "snd (kustomizeInstances p members pods w) = None \<Longrightarrow> fst (kustomizeInstances p members pods w) \<noteq> []"
  by (auto simp: kustomizeInstances_def Let_def split: if_splits)

lemma kustUnit_fields [simp]:
  "cuServices (kustUnit p ep runs insts st) = sort (epMembers ep)" "unitFile (kustUnit p ep runs insts st) = epFile ep"
  "unitValue (kustUnit p ep runs insts st) = foldl (\<lambda>cur n. lessText cur (knDeclared n)) '''' insts"
  "upItems (kustUnit p ep runs insts st) = sortBy (lessItem p) (uiItems st)" "upNormRef (kustUnit p ep runs insts st) = (case runs of [] \<Rightarrow> ''none'' | r # _ \<Rightarrow> r)"
  "cuManual (kustUnit p ep runs insts st) = None"
  by (simp_all add: kustUnit_def Let_def newUnit_def unitFile_def unitValue_def)

lemma kustDecide_fields [simp]:
  "cuServices (kustDecide p mbs missing u) = cuServices u" "unitFile (kustDecide p mbs missing u) = unitFile u" "unitValue (kustDecide p mbs missing u) = unitValue u"
  "upItems (kustDecide p mbs missing u) = upItems u" "upNormRef (kustDecide p mbs missing u) = upNormRef u"
  by (auto simp: kustDecide_def unitValue_def split: option.splits)

lemma kustDecide_whole:
  assumes "cuManual (kustDecide p mbs missing u) = None" "upItems u \<noteq> []"
  shows "firstProblem mbs = None \<and> missing = [] \<and> length (kustRuns mbs) \<le> 1 \<and> length (kustDeclaredRefs mbs) \<le> 1
     \<and> (\<exists>c. cuCandidate (kustDecide p mbs missing u) = Some c \<and> (\<forall>i \<in> set (upItems u). adoptedAs (itemAt p i) c))"
proof -
  have ok: "firstProblem mbs = None" "missing = []" "length (kustRuns mbs) \<le> 1" "length (kustDeclaredRefs mbs) \<le> 1"
    using assms(1) by (auto simp: kustDecide_def split: option.splits if_splits)
  then have "kustDecide p mbs missing u = checkAdopted p u" by (simp add: kustDecide_def)
  then show ?thesis using checkAdopted_adopted [OF assms(2), of p] assms(1) ok by simp
qed

lemma kustUnitOf_fields:
  assumes "kustUnitOf p cs pods owners ep = Some u"
  shows "cuServices u = sort (epMembers ep)" "unitFile u = epFile ep"
  using assms by (auto simp: kustUnitOf_def Let_def split: if_splits)

lemma kustUnitOf_whole:
  assumes "kustUnitOf p cs pods owners ep = Some u" "cuManual u = None"
  defines "mbs \<equiv> kustMembersOf p pods ep" and "notes1 \<equiv> kustNotes p (kustResults p pods ep)"
  shows "firstProblem mbs = None" "uiMissing (noted p notes1) = []" "length (kustRuns mbs) \<le> 1" "length (kustDeclaredRefs mbs) \<le> 1"
    "\<exists>c. cuCandidate u = Some c \<and> (\<forall>i \<in> set (uiItems (noted p notes1)). adoptedAs (itemAt p i) c)"
    "upNormRef u = (case kustRuns mbs of [] \<Rightarrow> ''none'' | r # _ \<Rightarrow> r)"
    "unitValue u = foldl (\<lambda>cur n. lessText cur (knDeclared n)) '''' (concat (map snd (kustResults p pods ep)))"
    "\<not> undeclaredAffected (epMembers ep) owners cs pods (unitValue u)"
proof -
  let ?v = "kustUnit p ep (kustRuns mbs) (concat (map snd (kustResults p pods ep))) (noted p notes1)"
  have u: "u = kustDecide p mbs (uiMissing (noted p notes1)) ?v" "uiRelevant (noted p notes1)" "\<not> undeclaredAffected (epMembers ep) owners cs pods (unitValue u)"
    using assms(1,2) by (auto simp: kustUnitOf_def Let_def mbs_def notes1_def split: if_splits)
  have "uiItems (noted p notes1) \<noteq> []" using u(2) noted_all [of p notes1] noted_relevant [of p notes1] by force
  then have "upItems ?v \<noteq> []" by (metis kustUnit_fields(4) length_0_conv length_sortBy)
  then have w: "firstProblem mbs = None \<and> uiMissing (noted p notes1) = [] \<and> length (kustRuns mbs) \<le> 1 \<and> length (kustDeclaredRefs mbs) \<le> 1
     \<and> (\<exists>c. cuCandidate u = Some c \<and> (\<forall>i \<in> set (upItems ?v). adoptedAs (itemAt p i) c))"
    using kustDecide_whole [of p mbs "uiMissing (noted p notes1)" ?v, folded u(1)] assms(2) by blast
  have v: "upNormRef u = (case kustRuns mbs of [] \<Rightarrow> ''none'' | r # _ \<Rightarrow> r)"
    "unitValue u = foldl (\<lambda>cur n. lessText cur (knDeclared n)) '''' (concat (map snd (kustResults p pods ep)))" using u(1) by simp_all
  show "firstProblem mbs = None" "uiMissing (noted p notes1) = []" "length (kustRuns mbs) \<le> 1" "length (kustDeclaredRefs mbs) \<le> 1"
    "\<exists>c. cuCandidate u = Some c \<and> (\<forall>i \<in> set (uiItems (noted p notes1)). adoptedAs (itemAt p i) c)"
    "upNormRef u = (case kustRuns mbs of [] \<Rightarrow> ''none'' | r # _ \<Rightarrow> r)"
    "unitValue u = foldl (\<lambda>cur n. lessText cur (knDeclared n)) '''' (concat (map snd (kustResults p pods ep)))"
    "\<not> undeclaredAffected (epMembers ep) owners cs pods (unitValue u)"
    using w v u(3) by simp_all
qed

text \<open>The value of the unit is what an instance declares.\<close>

lemma lessText_from: "foldl (\<lambda>cur n. lessText cur (f n)) cur ns \<in> insert cur (f ` set ns)"
proof (induction ns arbitrary: cur)
  case (Cons n ns)
  have "lessText cur (f n) \<in> {cur, f n}" by (simp add: lessText_def)
  then show ?case using Cons.IH [of "lessText cur (f n)"] by auto
qed simp

lemma lessText_found: "cur \<noteq> '''' \<or> (\<exists>n \<in> set ns. f n \<noteq> '''') \<Longrightarrow> foldl (\<lambda>cur n. lessText cur (f n)) cur ns \<noteq> ''''"
proof (induction ns arbitrary: cur)
  case (Cons n ns)
  have "lessText cur (f n) \<noteq> '''' \<or> (\<exists>n \<in> set ns. f n \<noteq> '''')" using Cons.prems by (auto simp: lessText_def)
  then show ?case using Cons.IH by simp
qed simp

lemma addInstances_declared:
  "set (kmbDeclared (foldl addInstance mb ns)) = set (kmbDeclared mb) \<union> (\<lambda>n. normalizedRef (knDeclared n)) ` {n \<in> set ns. knDeclared n \<noteq> ''''}"
proof (induction ns rule: rev_induct)
  case (snoc n ns)
  have "set (kmbDeclared (addInstance mb n)) = set (kmbDeclared mb) \<union> (if knDeclared n \<noteq> '''' then {normalizedRef (knDeclared n)} else {})" for mb
    by (auto simp: addInstance_def Let_def failMember_def split: option.splits if_splits)
  then show ?case using snoc by auto
qed simp

lemma atMostOne: "length xs \<le> 1 \<Longrightarrow> x \<in> set xs \<Longrightarrow> xs = [x]"
  by (cases xs) auto

abbreviation allInstances :: "plan \<Rightarrow> (string \<Rightarrow> kube_pod list) \<Rightarrow> edit_point \<Rightarrow> kube_instance list" where
  "allInstances p pods ep \<equiv> concat (map snd (kustResults p pods ep))"

lemma allInstances_iff: "n \<in> set (allInstances p pods ep) \<longleftrightarrow> (\<exists>w \<in> set (epMembers ep). n \<in> set (fst (kustomizeInstances p (epMembers ep) pods w)))"
  by (auto simp: kustResults_def)

lemma kust_instance_sound:
  assumes "kustUnitOf p cs pods owners ep = Some u" "cuManual u = None" "n \<in> set (allInstances p pods ep)"
  shows "instanceProblem n = None" "normalizedRef (knRunning n) = upNormRef u" "normalizedRef (knDeclared n) = normalizedRef (unitValue u)"
proof -
  let ?mbs = "kustMembersOf p pods ep"
  note whole = kustUnitOf_whole [OF assms(1,2)]
  have each: "instanceProblem n = None \<and> normalizedRef (knRunning n) \<in> set (kustRuns ?mbs) \<and> normalizedRef (knDeclared n) \<in> set (kustDeclaredRefs ?mbs)"
    if n: "n \<in> set (allInstances p pods ep)" for n
  proof -
    obtain w where w: "w \<in> set (epMembers ep)" "n \<in> set (fst (kustomizeInstances p (epMembers ep) pods w))" using n unfolding allInstances_iff by blast
    define mb where "mb = kustMember ep w (kustomizeInstances p (epMembers ep) pods w)"
    have mb: "mb \<in> set ?mbs" using w(1) by (simp add: mb_def kustMembersOf_def)
    then have ok: "instanceProblem n = None" using whole(1) w(2) by (auto simp: firstProblem_None mb_def kustMember_fields)
    then have ne: "knRunning n \<noteq> ''''" "knDeclared n \<noteq> ''''" by (auto simp: instanceProblem_def split: if_splits)
    then have "running (normalizedRef (knRunning n)) (fst (kustomizeInstances p (epMembers ep) pods w)) \<noteq> []" using w(2) by (auto simp: running_def filter_empty_conv)
    then have "normalizedRef (knRunning n) \<in> set (mkeys (kmbByRun mb))" by (auto simp: mb_def kustMember_fields dom_def)
    moreover have "normalizedRef (knDeclared n) \<in> set (kmbDeclared mb)"
      using w(2) ne(2) by (auto simp: mb_def kustMember_def Let_def addInstances_declared)
    ultimately show ?thesis using ok mb by (auto simp: kustRuns_def kustDeclaredRefs_def)
  qed
  show "instanceProblem n = None" using each assms(3) by blast
  have "kustRuns ?mbs = [normalizedRef (knRunning n)]" using each [OF assms(3)] by (intro atMostOne [OF whole(3)]) simp
  then show "normalizedRef (knRunning n) = upNormRef u" using whole(6) by simp
  have "knDeclared n \<noteq> ''''" using each [OF assms(3)] by (auto simp: instanceProblem_def split: if_splits)
  then have "'''' \<noteq> '''' \<or> (\<exists>n \<in> set (allInstances p pods ep). knDeclared n \<noteq> '''')" using assms(3) by blast
  from lessText_found [OF this] have "unitValue u \<noteq> ''''" unfolding whole(7) .
  then obtain n' where n': "n' \<in> set (allInstances p pods ep)" "unitValue u = knDeclared n'"
    using lessText_from [of knDeclared "''''" "allInstances p pods ep"] whole(7) by auto
  have "kustDeclaredRefs ?mbs = [normalizedRef (knDeclared n)]" "kustDeclaredRefs ?mbs = [normalizedRef (knDeclared n')]"
    using each [OF assms(3)] each [OF n'(1)] by (intro atMostOne [OF whole(4)]; simp)+
  then show "normalizedRef (knDeclared n) = normalizedRef (unitValue u)" using n'(2) by simp
qed

subsection \<open>Units of an edit point are whole\<close>

abbreviation allPoints :: "kustomize_mapping list \<Rightarrow> helm_values_mapping list \<Rightarrow> edit_point list" where
  "allPoints kustomize helm \<equiv> editPointsOf (map KustomizeMapping_shared kustomize @ map HelmValuesMapping_shared helm)"

lemma kust_unit:
  assumes "u \<in> set (buildKustomizeUnits p cs kustomize helm mgmt)" "cuManual u = None"
  obtains ep where "ep \<in> set (allPoints kustomize helm)" "kustUnitOf p cs (podsByObject cs) (ownersOf p mgmt) ep = Some u"
    "\<And>v. v \<in> set (buildKustomizeUnits p cs kustomize helm mgmt) \<Longrightarrow> unitFile v = unitFile u \<Longrightarrow> cuManual v = None"
proof -
  let ?eps = "allPoints kustomize helm" and ?unit = "kustUnitOf p cs (podsByObject cs) (ownersOf p mgmt)"
  let ?byFile = "\<lambda>f. concat (map (kustMembersOf p (podsByObject cs)) (filter (\<lambda>ep. epFile ep = f) ?eps))"
  have all: "set (buildKustomizeUnits p cs kustomize helm mgmt) = set (holdBackFiles ?byFile (foldl appendNew [] (map epFile ?eps)) (List.map_filter ?unit ?eps))"
    by (simp add: buildKustomizeUnits_def Let_def)
  note sound = holdBackFiles_sound [OF assms(1) [unfolded all] assms(2)]
  then obtain ep where ep: "ep \<in> set ?eps" "?unit ep = Some u" by (auto simp: List.map_filter_def)
  have "unitFile u \<in> set (foldl appendNew [] (map epFile ?eps))" using kustUnitOf_fields(2) [OF ep(2)] ep(1) by (auto simp: set_foldl_new)
  then show ?thesis using that [OF ep] sound unfolding all by blast
qed

lemma kust_running_adopted:
  assumes unit: "kustUnitOf p cs (podsByObject cs) owners ep = Some u" "cuManual u = None" and cs: "plainNames cs"
    and c: "c \<in> set cs" "hasPod c" "ctDeclared c = Some d" "WorkloadKey c \<in> set (epMembers ep)"
  shows "sameReference (deRef d) (riRef (ctImage c)) \<and> normalizedRef (riRef (ctImage c)) = upNormRef u \<and> normalizedRef (deRef d) = normalizedRef (unitValue u)
     \<and> (\<exists>i cand. itemIdx p (itemKeyOf (ctImage c)) = Some i \<and> cuCandidate u = Some cand \<and> adoptedAs (itemAt p i) cand)"
proof -
  let ?pods = "podsByObject cs" and ?notes = "kustNotes p (kustResults p (podsByObject cs) ep)"
  have n: "instanceOf c d \<in> set (fst (kustomizeInstances p (epMembers ep) ?pods (WorkloadKey c)))" by (rule running_instance [OF cs c(1-3)])
  then have "instanceOf c d \<in> set (allInstances p ?pods ep)" unfolding allInstances_iff using c(4) by blast
  note sound = kust_instance_sound [OF unit this] and whole = kustUnitOf_whole [OF unit]
  have ref: "riRef (ctImage c) \<noteq> ''''" "sameReference (deRef d) (riRef (ctImage c))"
    using sound(1) by (auto simp: instanceProblem_def instanceOf_def split: if_splits)
  then have k: "knItemKey (instanceOf c d) = itemKeyOf (ctImage c)" "knRunning (instanceOf c d) \<noteq> ''''" by (simp_all add: instanceOf_def)
  then have noted: "(WorkloadKey c, WorkloadKey c, itemKeyOf (ctImage c)) \<in> set ?notes" using n c(4) by (force simp: kustNotes_def kustResults_def)
  then obtain i where i: "itemIdx p (itemKeyOf (ctImage c)) = Some i" using whole(2) noted_missing [of p ?notes] by fastforce
  then have "i \<in> idxOf p ?notes (WorkloadKey c)" using noted by (auto simp: idxOf_def)
  then have "i \<in> set (uiItems (noted p ?notes))" using noted_all [of p ?notes] by blast
  then show ?thesis using whole(5) i ref sound(2,3) by (auto simp: instanceOf_def)
qed

lemma kust_unaffected:
  assumes "\<not> undeclaredAffected members owners cs pods value" "c \<in> set cs" "ctDeclared c = Some d"
    "WorkloadKey c \<noteq> ''''" "WorkloadKey c \<notin> set members" "deRef d \<noteq> ''''" "sameReference (deRef d) value"
  shows "podNamespace c \<notin> set (namespacesOf members) \<and> (\<forall>w \<in> set members. set (owners (WorkloadKey c)) \<inter> set (owners w) = {})"
  using assms by (auto simp: undeclaredAffected_def list_ex_iff affectedContainer_def Let_def)

lemma kust_unaffected_spec:
  assumes "\<not> undeclaredAffected members owners cs pods value" "w \<in> set members" "pod \<in> set (pods (workloadObject w))" "kpDesc pod = Some desc"
    "sc \<in> set (piSpec desc)" "scRef sc \<noteq> ''''" "sameReference (scRef sc) value"
  shows "workloadObject w @ ''/'' @ scName sc \<in> set members"
  using assms by (force simp: undeclaredAffected_def list_ex_iff affectedEntry_def)

subsection \<open>Properties\<close>

definition sampleOverlay :: kustomize_mapping where
  "sampleOverlay = \<lparr>zmWorkload = WorkloadKey (samplePod ''a'' ''app:1''), zmRepository = ''o/r'', zmBaseBranch = ''main'', zmPath = ''kustomization.yaml'',
     zmImage = ''app'', zmAffects = [WorkloadKey (samplePod ''b'' ''app:1'')]\<rparr>"

abbreviation sampleOverlayUnits :: "container list \<Rightarrow> plan_unit list" where
  "sampleOverlayUnits cs \<equiv> buildKustomizeUnits samplePlan cs [sampleOverlay] [] []"

text \<open>A container of the same namespace that is not listed stops the unit; one in another namespace does not.\<close>

definition sampleElsewhere :: container where
  "sampleElsewhere = (samplePod ''c'' ''app:1'')\<lparr>ctName := ''far/pod/main'', ctWorkload := \<lparr>wlKind = WorkloadDeployment, wlGroup = ''far'', wlName = ''c''\<rparr>\<rparr>"

text \<open>
  C10. The edit of a shared entry never changes a container unannounced. When a unit of an images entry or of a
  values key is not left to a person, its services are exactly the containers the configuration lists for it.
  Every running container among them declares what it runs, they all declare one reference, the value of the
  entry, and run one, and each has a plan item adopted for the one tag and digest the unit moves to. No running
  container outside the list that declares this value shares a namespace, a Helm release or a Flux
  Kustomization with a listed one, and no entry of the spec of a Pod of a listed workload declares it unlisted.
  Container names hold no bar, and a container of a Pod is reported once.
\<close>

theorem kust_units_safe:
  assumes "u \<in> set (buildKustomizeUnits p cs kustomize helm mgmt)" "cuManual u = None" "plainNames cs"
  shows "\<exists>ep \<in> set (allPoints kustomize helm). set (cuServices u) = set (epMembers ep)
     \<and> (\<forall>c \<in> set cs. \<forall>d. hasPod c \<and> ctDeclared c = Some d \<and> WorkloadKey c \<in> set (epMembers ep) \<longrightarrow>
          sameReference (deRef d) (riRef (ctImage c)) \<and> normalizedRef (riRef (ctImage c)) = upNormRef u
          \<and> normalizedRef (deRef d) = normalizedRef (unitValue u)
          \<and> (\<exists>i cand. itemIdx p (itemKeyOf (ctImage c)) = Some i \<and> cuCandidate u = Some cand \<and> adoptedAs (itemAt p i) cand))
     \<and> (\<forall>c \<in> set cs. \<forall>d. ctDeclared c = Some d \<and> WorkloadKey c \<noteq> '''' \<and> WorkloadKey c \<notin> set (epMembers ep)
            \<and> deRef d \<noteq> '''' \<and> sameReference (deRef d) (unitValue u) \<longrightarrow>
          podNamespace c \<notin> set (namespacesOf (epMembers ep))
          \<and> (\<forall>w \<in> set (epMembers ep). set (ownersOf p mgmt (WorkloadKey c)) \<inter> set (ownersOf p mgmt w) = {}))
     \<and> (\<forall>w \<in> set (epMembers ep). \<forall>pod \<in> set (podsByObject cs (workloadObject w)). \<forall>desc. kpDesc pod = Some desc \<longrightarrow>
          (\<forall>sc \<in> set (piSpec desc). scRef sc \<noteq> '''' \<and> sameReference (scRef sc) (unitValue u) \<longrightarrow> workloadObject w @ ''/'' @ scName sc \<in> set (epMembers ep)))"
proof -
  obtain ep where ep: "ep \<in> set (allPoints kustomize helm)" and unit: "kustUnitOf p cs (podsByObject cs) (ownersOf p mgmt) ep = Some u"
    by (rule kust_unit [OF assms(1,2)])
  note safe = kustUnitOf_whole(8) [OF unit assms(2)]
  show ?thesis
    using ep kustUnitOf_fields(1) [OF unit] kust_running_adopted [OF unit assms(2,3)] kust_unaffected [OF safe] kust_unaffected_spec [OF safe]
    by (intro bexI [OF _ ep]) (simp; blast)
qed

lemma sample_overlay_unit:
  "\<exists>u. sampleOverlayUnits [samplePod ''a'' ''app:1'', samplePod ''b'' ''app:1'', sampleElsewhere] = [u] \<and> cuManual u = None
     \<and> unitValue u = ''app:1''"
proof -
  let ?us = "sampleOverlayUnits [samplePod ''a'' ''app:1'', samplePod ''b'' ''app:1'', sampleElsewhere]"
  have "length ?us = 1" "cuManual (hd ?us) = None" "unitValue (hd ?us) = ''app:1''" by code_simp+
  then show ?thesis by (cases ?us) auto
qed

lemma sample_overlay_held:
  "map cuManual (sampleOverlayUnits [samplePod ''a'' ''app:1'', samplePod ''b'' ''app:1'', samplePod ''c'' ''app:1'']) = [Some ReasonUndeclaredAffectedWorkload]"
  by code_simp

theorem kust_units_safe_witness:
  "\<exists>u (ep :: edit_point). sampleOverlayUnits [samplePod ''a'' ''app:1'', samplePod ''b'' ''app:1'', sampleElsewhere] = [u] \<and> cuManual u = None
     \<and> set (cuServices u) = set (epMembers ep) \<and> podNamespace sampleElsewhere \<notin> set (namespacesOf (epMembers ep))"
proof -
  let ?cs = "[samplePod ''a'' ''app:1'', samplePod ''b'' ''app:1'', sampleElsewhere]"
  obtain u where u: "sampleOverlayUnits ?cs = [u]" "cuManual u = None" "unitValue u = ''app:1''" using sample_overlay_unit by auto
  have names: "plainNames ?cs" by code_simp
  have pts: "map epMembers (allPoints [sampleOverlay] []) = [map WorkloadKey [samplePod ''a'' ''app:1'', samplePod ''b'' ''app:1'']]"
    "WorkloadKey sampleElsewhere \<notin> set (map WorkloadKey [samplePod ''a'' ''app:1'', samplePod ''b'' ''app:1''])"
    "WorkloadKey sampleElsewhere \<noteq> ''''" "sameReference ''app:1'' ''app:1''" by code_simp+
  have d: "ctDeclared sampleElsewhere = Some \<lparr>deRef = ''app:1'', dePullPolicy = ''''\<rparr>" by (simp add: sampleElsewhere_def samplePod_def)
  from u(1) have "u \<in> set (sampleOverlayUnits ?cs)" by simp
  from kust_units_safe [OF this u(2) names] obtain ep where ep: "ep \<in> set (allPoints [sampleOverlay] [])" "set (cuServices u) = set (epMembers ep)"
      and away: "\<forall>c \<in> set ?cs. \<forall>d. ctDeclared c = Some d \<and> WorkloadKey c \<noteq> '''' \<and> WorkloadKey c \<notin> set (epMembers ep)
          \<and> deRef d \<noteq> '''' \<and> sameReference (deRef d) (unitValue u) \<longrightarrow> podNamespace c \<notin> set (namespacesOf (epMembers ep))" by blast
  have "epMembers ep = map WorkloadKey [samplePod ''a'' ''app:1'', samplePod ''b'' ''app:1'']"
    using arg_cong [OF pts(1), of set] ep(1) by (simp only: set_map set_simps) blast
  then have "WorkloadKey sampleElsewhere \<notin> set (epMembers ep)" using pts(2) by simp
  moreover have "sampleElsewhere \<in> set ?cs" by simp
  ultimately have "podNamespace sampleElsewhere \<notin> set (namespacesOf (epMembers ep))"
    using bspec [OF away, of sampleElsewhere] d pts(3,4) u(3) by auto
  then show ?thesis using u(1,2) ep(2) by blast
qed

end
