(* ===== verification/Spec2Isabelle.thy ===== *)
theory Spec2Isabelle
  imports Maven_Versions Priority_View Cycle Adoption PR_Stage PR_Kust_Units
begin

text \<open>
  \<^bold>\<open>kestrelynx\<close> watches the images of running containers: it scans them, judges what was found,
  remembers it between cycles, tells its readers what changed, and opens pull requests that move an image
  or a dependency to a version that fixes what was found. This development models the core of it, the Go
  packages under \<open>internal/\<close> that decide what is reported and what is written to GitHub, as executable
  functions over the same data, and proves what a reader of its messages and an owner of a repository rely on.

  \<^bold>\<open>The program and its parts.\<close> A cycle (\<open>internal/runner/runner.go\<close>) lists the running
  containers, scans each distinct image, looks up exploitation intel, builds a report, attaches
  runtime evidence, mutes what has no fix and is not in use, compares the report with the stored
  state, sends what changed and stores the new state. Each step is a pure function of its inputs; the
  outside world (container engine, scanner, intel source, evidence file, notifier, state file, clock)
  is an argument. For an image with fixable findings a newer patch of its tag is chosen from the registry,
  scanned and compared with the running one (\<open>internal/remediation\<close>); when it resolves something and brings
  nothing new, the pull request stage (\<open>pr_stage.go\<close>, \<open>pr_reconcile.go\<close>, \<open>pr_replace.go\<close>) proposes it. The
  stage keeps its records in a file, checks them against GitHub, opens pull requests, and replaces an older
  one of its own by a newer one.

  \<^bold>\<open>Theories.\<close>
  \<^item> \<open>Go_Prelude\<close>: the vocabulary of Go the sources use: strings, maps, sorting with a \<open>less\<close>
    function, decimal texts, durations that wrap at 64 bits. Interfaces are locales: \<open>go_map\<close> for maps,
    \<open>comparison\<close> for three-way comparisons, \<open>strict_weak\<close> for \<open>less\<close> functions; the model's own
    operations interpret them.
  \<^item> \<open>Go_Regexp\<close>: leftmost-first matching with capture groups, by a matcher shown sound and complete
    for a relational semantics.
  \<^item> \<open>Inventory\<close> (\<open>internal/inventory\<close>): digests, entity keys, image references, workloads,
    environments, package identities.
  \<^item> \<open>Versions\<close>, \<open>Maven_Versions\<close> (\<open>internal/remediation/version.go\<close>, \<open>version_maven.go\<close>): the
    version schemes, their grammars and orders.
  \<^item> \<open>Evidence\<close> (\<open>internal/evidence\<close>): what the runtime sensor recorded, freshness, the verdict on
    a package and its projection to a group.
  \<^item> \<open>Report\<close>, \<open>Triage\<close>, \<open>Analyze\<close>, \<open>Priority_View\<close> (\<open>internal/analyze/analyze.go\<close>,
    \<open>triage.go\<close>): the report data, priorities, \<open>Build\<close> and the view by priority.
  \<^item> \<open>Exposure\<close>, \<open>Runtime_Attach\<close>, \<open>Muting\<close> (\<open>internal/analyze/runtime_exposure.go\<close>,
    \<open>runtime.go\<close>): how exposed a process is, matching evidence to containers, the verdict of a group,
    and muting.
  \<^item> \<open>State_Data\<close>, \<open>Retag\<close>, \<open>State_Diff\<close> (\<open>internal/state\<close>): the remembered state, carrying
    history over a change of reference, and \<open>Compute\<close>, which turns a state and a report into the
    difference to announce and the next state.
  \<^item> \<open>Scanning\<close>, \<open>Cycle\<close> (\<open>internal/runner/runner.go\<close>): scanning with sharing of confirmed results,
    the triage and evidence inputs, \<open>sendDiff\<close>, \<open>sendFull\<close>, \<open>RunOnce\<close>, and runs of cycles as an
    inductive relation.
  \<^item> \<open>Scan_Compare\<close>, \<open>Adoption\<close> (\<open>internal/remediation/compare.go\<close>, \<open>adopt.go\<close>): the comparison of the
    scans of two images and the decision whether the second is proposed.
  \<^item> \<open>Image_Tags\<close> (\<open>tag.go\<close>, \<open>tag_series.go\<close>, \<open>candidate.go\<close>): versions in tags, the walk over a
    registry's tags, the choice of the newer patch.
  \<^item> \<open>PR_Keys\<close> (\<open>pr_keys.go\<close>, \<open>pr_language_keys.go\<close>, \<open>pr_marker.go\<close>, \<open>internal/github/validate.go\<close>): the
    names and keys of targets, updates, attempts and branches, and the marker of a pull request.
  \<^item> \<open>PR_Store\<close> (\<open>pr_types.go\<close>, \<open>pr_store.go\<close>): the records, their validation and the operation log.
  \<^item> \<open>PR_Run\<close>, \<open>PR_Reconcile\<close>, \<open>PR_Replace\<close>, \<open>PR_Create\<close>, \<open>PR_Stage\<close> (\<open>pr_stage.go\<close>, \<open>pr_reconcile.go\<close>,
    \<open>pr_replace.go\<close>, \<open>pr_language.go\<close>, \<open>pr_language_bind.go\<close>): the stage as programs of the state monad over
    the state \<open>pr_run\<close>, which holds the records, what is known of the repositories, what has stopped the run
    and the trace of everything read, saved and sent. \<open>PR_Run\<close> has the writes, saves and listings,
    \<open>PR_Reconcile\<close> recovery and reconciliation, \<open>PR_Replace\<close> replacement, \<open>PR_Create\<close> the attempt, its commit
    and its pull request, \<open>PR_Stage\<close> the units and the cycle.
  \<^item> \<open>PR_Units\<close>, \<open>PR_Kube_Units\<close>, \<open>PR_Kust_Units\<close> (\<open>pr_units.go\<close>, \<open>pr_kube_units.go\<close>, \<open>pr_kust_units.go\<close>,
    \<open>sameReference\<close> of \<open>kube_plan.go\<close>): the units of the stage, built from the plan, the running containers and
    the configured mappings, for Compose files, Kubernetes manifests, and images entries of Kustomize or keys
    of Helm values, with what a unit claims to fix and the evidence stored with it.
  \<^item> \<open>PR_Steps\<close>: the specification of the stage, a step relation \<open>prStep\<close> on \<open>pr_run\<close> that says what a step may
    do to the records and when a write may be sent, and a Hoare logic for programs of the monad in which
    every operation of the stage is shown to make only such steps.

  \<^bold>\<open>How the model corresponds to the code.\<close> A struct is a record with the source's fields behind a
  two-letter prefix, a string enumeration its texts, a Go map an association list with one entry per
  key (\<open>map_ok\<close>), a \<open>map[T]bool\<close> read by membership a list, a nil pointer \<open>None\<close>, a pair with an
  \<open>ok\<close> an option, an error a value. A loop is a fold of a step of its own. Map iteration order is
  the order of the association list; where it could show, a theorem says that it does not. A time is
  its number of nanoseconds, zero for the zero time; a duration wraps at 64 bits.

  \<^bold>\<open>What is shown.\<close> The properties are numbered in the order of importance; each names its claim
  where it is stated. In short: when a cycle saves, every finding of every successful scan that has a section
  in the report is in the message and in the state; over any run nothing appears in the stored records
  without a delivered message that says so, and nothing leaves them either unless a cycle could not load
  them and saved; a failed delivery is repeated whole, and silence means that nothing
  is open, up to one gap that is exhibited; a failed scan never resolves anything; the report and the
  open counts are exact, and the sections independent of map order when scores are numbers; nothing urgent is muted; runtime verdicts are
  given under exactly the stated conditions; history moves only along unambiguous reference changes;
  the grammars accept exactly what they render and the version orders refine numeric order. A candidate is
  proposed exactly when its comparison allows it, and it is the one all tags of the repository give. The pull
  request stage refines its step relation whatever the outside answers: every write has its intent and the
  records that cover it saved right before, no write follows one whose outcome is unknown, nothing is closed
  but an unchanged pull request of the stage's own that another one of its own is recorded to replace, and no
  record is forgotten or trusted again. A unit that is not left to a person covers everything that runs the image
  at its edit point, all with one verified candidate, and the edit of a shared entry changes no container
  that is not listed for it. Six lemmas exhibit behaviour that the code's own comments exclude: a notice that repeats on every
  cycle, an overflow in matching evidence, a comparison that is no order in the presence of NaN, a
  cycle in the Maven order, a decision on targets that remain, and the silent end-of-life base image.

  \<^bold>\<open>Bounds and termination.\<close> Every function is total. Recursion is structural except in the IPv6
  parser of \<open>Exposure\<close>, which consumes its text, and in the regular expression matcher, whose star
  requires progress. The walk over a registry's tags counts its requests and a listing of GitHub its pages, as
  the code does. No fuel is used. Numbers in versions have any number of digits; durations wrap as
  in the code.

  \<^bold>\<open>Parameters.\<close> The stage takes GitHub, the registry, the store and the deadline as one record of
  functions (\<open>pr_env\<close>), each asked with the number of events so far, so that an answer may differ from one
  call to the next; the hash of keys and the decoding of a marker's JSON are in it too. The editors of files
  and the writers of titles and bodies are a second record (\<open>pr_editors\<close>), and the units are an argument of
  \<open>Run\<close>; \<open>unitOf\<close> gives those of \<open>PR_Units\<close> and its successors. Two hypotheses are made of them: that \<open>ErrRefExists\<close> is an answer of GitHub and not
  also an unknown outcome, a rate limit or a deadline, as \<open>CreateRef\<close> of \<open>internal/github/writer.go\<close> makes
  it, and that a loaded file passed \<open>validate\<close>, as \<open>PRStore.Load\<close> sees to. The registry of \<open>Image_Tags\<close> is a
  pager; that it lists in order is a hypothesis where a theorem needs it.

  \<^bold>\<open>Not modelled.\<close> Decoding and encoding of JSON, YAML and TOML; network, process and file access,
  including the atomic replacement of the state and record files; rendering of messages, pull request bodies
  and details; the sensor's kernel and procfs side; the planners, lock file parsers and file editors of
  \<open>internal/remediation\<close>, the building of units for Dockerfiles and language updates, and the management
  chains a unit shows; the list of merged base updates that are not
  deployed, which only the result of the stage shows; the fix plan inside a cycle; letters outside ASCII in
  changes of case; ages in whole days, which are floating point.
\<close>

subsection \<open>What a reader may rely on\<close>

text \<open>
  C1. Whatever a scan of a running image finds reaches the reader and the stored state. When a cycle
  with a store saves, every finding of every successful scan that the vendor does not mark as not
  affecting the package is in the report of a message that was delivered with its vulnerability part,
  in the section its status names, and in the saved state, under its image and package and with its
  identifier.
\<close>

theorem RunOnce_nothing_lost:
  assumes "rnHasStore rn" "owContainers ow = Inr cs" "stateOk (loadedState w)" "rsSaved (RunOnce rn ow w) = Some n"
    and "sc \<in> set (cycleScans rn ow cs)" "snErr sc = None" "f \<in> set (snFindings sc)" "sectionOf (fdStatus f) = Some s"
    and "k = key (snImage sc) (fdPackage f)"
  shows "(\<exists>m. rsSent (RunOnce rn ow w) = Some m \<and> \<not> msSkipReport m
        \<and> (\<exists>img \<in> set (reportSection (msReport m) s). ifImage img = snImage sc
            \<and> (\<exists>g \<in> set (ifPackages img). pgPackage g = fdPackage f \<and> (\<exists>v \<in> set (pgVulns g). vrID v = fdVulnID f))))
   \<and> ((\<exists>e. map_of (stFindings n) k = Some e \<and> fdVulnID f \<in> set (etVulnIDs e))
      \<or> (\<exists>l. map_of (stEOLPackages n) k = Some l \<and> fdVulnID f \<in> set (elVulnIDs l)))"
proof -
  define r where "r = cycleReport rn ow cs"
  have run: "RunOnce rn ow w = sendDiff rn r w" using assms(1,2) by (simp add: RunOnce_def r_def Let_def)
  obtain img g v where shown: "img \<in> set (reportSection r s)" "ifImage img = snImage sc" "g \<in> set (ifPackages img)"
      "pgPackage g = fdPackage f" "v \<in> set (pgVulns g)" "vrID v = fdVulnID f"
    using buildReport_shows [OF assms(5-8)] unfolding r_def cycleReport_def Let_def by blast
  have due: "reportDue rn r d h" for d h
    using shown(1) by (auto simp: reportDue_def HasIssues_def HasFindings_def reportSection_def split: if_splits)
  note saved = sendDiff_saved [OF assms(4) [unfolded run] prod.collapse [symmetric]]
  obtain ref where n: "n = (snd (Compute (loadedState w) r))\<lparr>stLastFullReport := ref\<rparr>" using saved(1) by blast
  have "rsSent (RunOnce rn ow w) = Some (messageFor rn r w)" "\<not> msSkipReport (messageFor rn r w)" "msReport (messageFor rn r w) = r"
    using saved(2,4,5) due by (simp_all add: run)
  moreover have "k = key (ifImage img) (pgPackage g)" using assms(9) shown by simp
  ultimately show ?thesis
    using Compute_records [OF assms(3) shown(1,3,5), where nxt = "snd (Compute (loadedState w) r)"] shown by (auto simp: n)
qed

definition sampleOutside :: outside where
  "sampleOutside = \<lparr>owContainers = Inr [sampleContainer], owScanner = sampleScanner, owIntel = Some sampleIntel,
     owEvidence = None, owBuildTime = 9, owAttachTime = 9, owMuteTime = 9\<rparr>"

theorem RunOnce_nothing_lost_witness:
  "\<exists>n e. rsSaved (RunOnce sampleRunner sampleOutside (sampleWorld emptyState)) = Some n
     \<and> map_of (stFindings n) (key ''app:1'' ''openssl'') = Some e \<and> ''CVE-1'' \<in> set (etVulnIDs e)"
proof -
  let ?w = "sampleWorld emptyState"
  obtain n where n: "rsSaved (RunOnce sampleRunner sampleOutside ?w) = Some n" "stEOLPackages n = []"
  proof -
    have "map_option stEOLPackages (rsSaved (RunOnce sampleRunner sampleOutside ?w)) = Some []" by code_simp
    then show ?thesis using that by auto
  qed
  have scan: "cycleScans sampleRunner sampleOutside [sampleContainer] = [sampleScanner 0 (targetOf SourceLocal sampleImage)]" by code_simp
  define sc where "sc = sampleScanner 0 (targetOf SourceLocal sampleImage)"
  have f: "snErr sc = None" "sampleFinding \<in> set (snFindings sc)" "snImage sc = ''app:1''"
    by (simp_all add: sc_def sampleScanner_def sampleScan_def targetOf_def sampleImage_def)
  have s: "sectionOf (fdStatus sampleFinding) = Some StatusFixed" by code_simp
  have ow: "rnHasStore sampleRunner" "owContainers sampleOutside = Inr [sampleContainer]" "stateOk (loadedState ?w)"
    by (simp_all add: sampleRunner_def sampleOutside_def loadedState_def sampleWorld_def)
  have "sc \<in> set (cycleScans sampleRunner sampleOutside [sampleContainer])" by (simp add: scan sc_def)
  from RunOnce_nothing_lost [OF ow n(1) this f(1,2) s refl] show ?thesis
    using n by (auto simp: f(3) sampleFinding_def)
qed

text \<open>
  C3. Muting never hides anything urgent, across report building, runtime evidence, muting and the
  comparison with the remembered state. For every report the cycle builds, the act-now count of the
  difference is the number of keys the new state holds with an act-now finding or an act-now
  end-of-life record, none left out; and whatever is hidden has only groups without a fix, of packages
  that every running container was observed not to use.
\<close>

theorem act_now_never_hidden:
  assumes "r = buildReport rn scans cs tr evid t1 t2 t3" "stateOk prev" "Compute prev r = (d, nxt)"
  shows "dfOpenActNow d = card {k. (\<exists>e. map_of (stFindings nxt) k = Some e \<and> etPriority e = PriorityActNow)
            \<or> (\<exists>l. map_of (stEOLPackages nxt) k = Some l \<and> elPriority l = PriorityActNow)}
   \<and> (\<forall>k. hiddenKey (carriedCycle prev r) k \<longrightarrow> (\<forall>g \<in> set (groupsAt [rpActionable r, rpWatch r, rpWontFix r] k).
        pgPriority g \<noteq> PriorityActNow \<and> pgStatus g \<in> {StatusAffected, StatusWontFix} \<and> rtUsage (pgRuntime g) = UsageNotObserved))"
proof -
  have nxt: "nxt = snd (Compute prev r)" using assms(3) by simp
  have "(\<exists>e. map_of (stFindings nxt) k = Some e \<and> etPriority e = PriorityActNow \<and> \<not> hiddenKey (carriedCycle prev r) k)
      \<longleftrightarrow> (\<exists>e. map_of (stFindings nxt) k = Some e \<and> etPriority e = PriorityActNow)" for k
    using hidden_not_act_now [OF assms(1,2), of k] unfolding nxt by blast
  then show ?thesis
    using Compute_counts [OF assms(2,3)] hidden_harmless [OF assms(1,2)] by (auto simp: openCounts_def eolActNow_iff)
qed

theorem act_now_never_hidden_witness:
  "dfOpenActNow (fst (Compute emptyState (buildReport sampleRunner [sampleScan] [] sampleTriage None 9 9 9))) = 1
   \<and> card {k. (\<exists>e. map_of (stFindings (snd (Compute emptyState (buildReport sampleRunner [sampleScan] [] sampleTriage None 9 9 9)))) k = Some e
          \<and> etPriority e = PriorityActNow)
       \<or> (\<exists>l. map_of (stEOLPackages (snd (Compute emptyState (buildReport sampleRunner [sampleScan] [] sampleTriage None 9 9 9)))) k = Some l
          \<and> elPriority l = PriorityActNow)} = 1"
proof -
  have one: "dfOpenActNow (fst (Compute emptyState (buildReport sampleRunner [sampleScan] [] sampleTriage None 9 9 9))) = 1" by code_simp
  then show ?thesis using act_now_never_hidden [OF refl emptyState_ok(1) prod.collapse [symmetric]] by metis
qed

end
